(* ===== verification/SC_Prelude.thy ===== *)
theory SC_Prelude
  imports Complex_Main "HOL-Library.Word" "HOL-Library.Signed_Division" "HOL-Library.Code_Target_Numeral"
begin

text \<open>
  Shared vocabulary of the development: bytes and byte strings as the JavaScript code sees
  them (a Buffer or Uint8Array is a list of 8-bit words), the big-endian and little-endian
  readings of byte strings, slices, the collections of simplification rules the component
  theories extend, and the codec interface (encode, decode, validity) that several of them
  provide.
\<close>

unbundle bit_operations_syntax

named_theorems js_defs \<open>definitions that a functional proof unfolds\<close>
named_theorems js_bytes \<open>lengths and readings of byte strings\<close>

type_synonym byte = "8 word"
type_synonym bytes = "8 word list"

subsection \<open>Exceptions\<close>

text \<open>
  A call that may throw, or an awaited promise that may reject. The message is kept, because the
  relayer classifies on-chain failures by it.
\<close>

datatype 'a js = Throws (thrown: string) | Returns (returned: 'a)
  where "thrown (Returns _) = []"

definition js_bind :: "'a js \<Rightarrow> ('a \<Rightarrow> 'b js) \<Rightarrow> 'b js" where
  "js_bind m f = (case m of Throws e \<Rightarrow> Throws e | Returns x \<Rightarrow> f x)"

lemma js_bind_simps [simp]:
  "js_bind (Throws e) f = Throws e"
  "js_bind (Returns x) f = f x"
  by (simp_all add: js_bind_def)

lemma js_bind_eq_Returns:
  "js_bind m f = Returns y \<longleftrightarrow> (\<exists>x. m = Returns x \<and> f x = Returns y)"
  by (cases m) simp_all

lemma js_bind_split:
  "P (js_bind m f) \<longleftrightarrow> (\<forall>e. m = Throws e \<longrightarrow> P (Throws e)) \<and> (\<forall>x. m = Returns x \<longrightarrow> P (f x))"
  by (cases m) simp_all

text \<open>A loop that calls a fallible operation on each element in order and stops at the first throw.\<close>

primrec js_map :: "('a \<Rightarrow> 'b js) \<Rightarrow> 'a list \<Rightarrow> 'b list js" where
  "js_map f [] = Returns []"
| "js_map f (x # xs) = js_bind (f x) (\<lambda>y. js_bind (js_map f xs) (\<lambda>ys. Returns (y # ys)))"

lemma js_map_Returns: "js_map f xs = Returns ys \<longleftrightarrow> map f xs = map Returns ys"
proof (induction xs arbitrary: ys)
  case Nil
  then show ?case by (cases ys) auto
next
  case (Cons x xs)
  then show ?case by (cases ys) (auto simp: js_bind_eq_Returns)
qed

lemma js_map_list_all2: "js_map f xs = Returns ys \<longleftrightarrow> list_all2 (\<lambda>x y. f x = Returns y) xs ys"
proof (induction xs arbitrary: ys)
  case Nil
  then show ?case by (cases ys) auto
next
  case (Cons x xs)
  then show ?case by (cases ys) (auto simp: js_bind_eq_Returns)
qed

lemma js_map_total: "(\<And>x. x \<in> set xs \<Longrightarrow> f x = Returns (g x)) \<Longrightarrow> js_map f xs = Returns (map g xs)"
  by (induction xs) simp_all

subsection \<open>BigInt division\<close>

text \<open>BigInt division truncates toward zero, like \<open>sdiv\<close>.\<close>

lemma sdiv_nonneg: "0 \<le> a \<Longrightarrow> 0 < b \<Longrightarrow> a sdiv b = a div b" for a b :: int
  by (cases "a = 0") (simp_all add: signed_divide_int_def)

subsection \<open>Slices\<close>

text \<open>\<open>buf.subarray(i, i + n)\<close>: clamps to the end of the buffer.\<close>

definition subarray :: "'a list \<Rightarrow> nat \<Rightarrow> nat \<Rightarrow> 'a list" where
  "subarray xs i j = take (j - i) (drop i xs)"

lemma length_subarray [js_bytes]:
  "j \<le> length xs \<Longrightarrow> length (subarray xs i j) = j - i"
  by (auto simp: subarray_def)

lemma subarray_append_left [js_bytes]:
  "length xs = i \<Longrightarrow> subarray (xs @ ys) i (i + n) = take n ys"
  by (auto simp: subarray_def)

lemma nth_subarray:
  "k < j - i \<Longrightarrow> j \<le> length xs \<Longrightarrow> subarray xs i j ! k = xs ! (i + k)"
  by (auto simp: subarray_def)

lemma subarray_shift:
  "length xs \<le> i \<Longrightarrow> subarray (xs @ ys) i j = subarray ys (i - length xs) (j - length xs)"
  by (auto simp: subarray_def)

lemma subarray_prefix:
  "j \<le> length xs \<Longrightarrow> subarray (xs @ ys) i j = subarray xs i j"
  by (auto simp: subarray_def)

subsection \<open>Big-endian and little-endian readings\<close>

text \<open>The loop \<open>v = (v << 8n) | BigInt(b)\<close> over a byte string, on unbounded integers.\<close>

definition be_step :: "int \<Rightarrow> byte \<Rightarrow> int" where
  "be_step v b = (push_bit 8 v OR uint b)"

definition be_int :: "bytes \<Rightarrow> int" where
  "be_int bs = foldl be_step 0 bs"

lemma push_or_byte: "push_bit 8 v OR uint (b :: byte) = 256 * v + uint b"
proof -
  have "uint b < 2 ^ 8" using uint_lt2p [of b] by simp
  then have "push_bit 8 v AND uint b = 0"
    by (intro bit_eqI) (auto simp: bit_simps bit_push_bit_iff dest: bit_imp_le_length)
  then have "push_bit 8 v OR uint b = push_bit 8 v + uint b"
    using plus_and_or [of "push_bit 8 v" "uint b"] by simp
  then show ?thesis by (simp add: push_bit_eq_mult)
qed

lemma be_step_eq: "be_step v b = 256 * v + uint b"
  by (simp add: be_step_def push_or_byte)

lemma foldl_be_step: "foldl be_step v bs = v * 256 ^ length bs + be_int bs"
proof (induction bs arbitrary: v)
  case Nil
  then show ?case by (simp add: be_int_def)
next
  case (Cons b bs)
  have "foldl be_step v (b # bs) = be_step v b * 256 ^ length bs + be_int bs"
    using Cons.IH by simp
  moreover have "be_int (b # bs) = be_step 0 b * 256 ^ length bs + be_int bs"
    using Cons.IH [of "be_step 0 b"] by (simp add: be_int_def)
  moreover have "be_step v b = v * 256 + be_step 0 b"
    by (simp add: be_step_eq)
  ultimately show ?case by (simp only: list.size power_Suc add.commute [of _ "Suc 0"]) (simp add: algebra_simps)
qed

lemma be_int_Nil [simp]: "be_int [] = 0"
  by (simp add: be_int_def)

lemma be_int_Cons: "be_int (b # bs) = uint b * 256 ^ length bs + be_int bs"
  using foldl_be_step [of "be_step 0 b" bs] by (simp add: be_int_def be_step_eq)

lemma be_int_append: "be_int (as @ bs) = be_int as * 256 ^ length bs + be_int bs"
  using foldl_be_step [of "be_int as" bs] by (simp add: be_int_def)

lemma be_int_nonneg [simp]: "0 \<le> be_int bs"
  by (induction bs) (auto simp: be_int_Cons)

lemma uint_byte_bounds [simp]: "0 \<le> uint (b :: byte)" "uint (b :: byte) < 256" "uint (b :: byte) \<le> 255"
  using uint_lt2p [of b] by simp_all

lemma be_int_bound: "be_int bs < 256 ^ length bs"
proof (induction bs)
  case Nil
  then show ?case by simp
next
  case (Cons b bs)
  have "uint b * 256 ^ length bs \<le> 255 * (256 :: int) ^ length bs"
    by (rule mult_right_mono) simp_all
  then have "uint b * 256 ^ length bs + be_int bs < 255 * 256 ^ length bs + 256 ^ length bs"
    using Cons by linarith
  then show ?case by (simp add: be_int_Cons)
qed

lemma be_int_inj:
  "length as = length bs \<Longrightarrow> be_int as = be_int bs \<Longrightarrow> as = bs"
proof (induction as bs rule: list_induct2)
  case Nil
  then show ?case by simp
next
  case (Cons a as b bs)
  let ?M = "(256 :: int) ^ length bs"
  have eq: "uint a * ?M + be_int as = uint b * ?M + be_int bs"
    using Cons.prems Cons.hyps by (simp add: be_int_Cons)
  have lo: "be_int as < ?M" "be_int bs < ?M"
    using be_int_bound [of as] be_int_bound [of bs] Cons.hyps by simp_all
  have "uint a = (uint a * ?M + be_int as) div ?M"
    using lo by (simp add: div_pos_pos_trivial)
  also have "\<dots> = uint b"
    using lo by (simp add: eq div_pos_pos_trivial)
  finally have ab: "a = b" by (simp add: word_uint_eq_iff)
  with eq have "be_int as = be_int bs" by simp
  with ab Cons.IH show ?case by simp
qed

text \<open>\<open>buf.readBigUInt64LE(off)\<close>; Node throws a RangeError when the eight bytes do not fit.\<close>

definition le_int :: "bytes \<Rightarrow> int" where
  "le_int bs = be_int (rev bs)"

definition is_u64 :: "int \<Rightarrow> bool" where
  "is_u64 n \<longleftrightarrow> 0 \<le> n \<and> n < 2 ^ 64"

definition read_u64_le :: "bytes \<Rightarrow> nat \<Rightarrow> int option" where
  "read_u64_le buf off =
     (if off + 8 \<le> length buf then Some (le_int (subarray buf off (off + 8))) else None)"

lemma le_int_bounds: "0 \<le> le_int bs" "le_int bs < 256 ^ length bs"
  using be_int_bound [of "rev bs"] by (simp_all add: le_int_def)

lemma read_u64_le_bounds:
  "read_u64_le buf off = Some v \<Longrightarrow> 0 \<le> v \<and> v < 2 ^ 64"
proof -
  assume "read_u64_le buf off = Some v"
  then have v: "v = le_int (subarray buf off (off + 8))" and l: "off + 8 \<le> length buf"
    by (auto simp: read_u64_le_def split: if_splits)
  have "length (subarray buf off (off + 8)) = 8"
    using l by (simp add: length_subarray)
  then show ?thesis
    using le_int_bounds [of "subarray buf off (off + 8)"] v by simp
qed

subsection \<open>Fixed-width byte strings of an integer\<close>

primrec be_bytes :: "nat \<Rightarrow> int \<Rightarrow> bytes" where
  "be_bytes 0 v = []"
| "be_bytes (Suc n) v = be_bytes n (v div 256) @ [word_of_int v]"

definition le_bytes :: "nat \<Rightarrow> int \<Rightarrow> bytes" where
  "le_bytes n v = rev (be_bytes n v)"

lemma length_be_bytes [simp, js_bytes]: "length (be_bytes n v) = n"
  by (induction n arbitrary: v) auto

lemma length_le_bytes [simp, js_bytes]: "length (le_bytes n v) = n"
  by (simp add: le_bytes_def)

lemma be_int_be_bytes: "be_int (be_bytes n v) = v mod 256 ^ n"
proof (induction n arbitrary: v)
  case 0
  then show ?case by simp
next
  case (Suc n)
  have "be_int (be_bytes (Suc n) v) = (v div 256) mod 256 ^ n * 256 + v mod 256"
    by (simp add: be_int_append be_int_Cons Suc.IH uint_word_of_int take_bit_eq_mod)
  also have "\<dots> = v mod (256 * 256 ^ n)"
    by (simp add: zmod_zmult2_eq)
  finally show ?case by simp
qed

lemma le_int_le_bytes: "le_int (le_bytes n v) = v mod 256 ^ n"
  by (simp add: le_int_def le_bytes_def be_int_be_bytes)

lemma be_bytes_be_int: "be_bytes (length bs) (be_int bs) = bs"
  by (rule be_int_inj) (simp_all add: be_int_be_bytes be_int_bound)

subsection \<open>The codec interface\<close>

text \<open>
  Several components print a value to a fixed form and rely on reading it back: field
  elements to PDA seeds, notes to strings, pool structs to account bytes. What such a client
  relies on is stated once.
\<close>

locale codec =
  fixes enc :: "'a \<Rightarrow> 'b" and dec :: "'b \<Rightarrow> 'a option" and valid :: "'a \<Rightarrow> bool"
  assumes dec_enc: "valid x \<Longrightarrow> dec (enc x) = Some x"
begin

lemma enc_inj: "valid x \<Longrightarrow> valid y \<Longrightarrow> enc x = enc y \<longleftrightarrow> x = y"
  using dec_enc by (metis option.inject)

lemma dec_unique: "valid x \<Longrightarrow> enc x = s \<Longrightarrow> dec s = Some y \<Longrightarrow> y = x"
  using dec_enc by auto

end

text \<open>A codec whose decoder accepts nothing but what the encoder writes.\<close>

locale canonical_codec = codec +
  assumes enc_dec: "dec s = Some x \<Longrightarrow> enc x = s"
begin

lemma dec_inj: "dec s = Some x \<Longrightarrow> dec t = Some x \<Longrightarrow> s = t"
  using enc_dec by metis

lemma dec_iff: "valid x \<Longrightarrow> dec s = Some x \<longleftrightarrow> s = enc x"
  using enc_dec dec_enc by metis

end

interpretation be_codec: codec "be_bytes n" "\<lambda>bs. Some (be_int bs)" "\<lambda>v. 0 \<le> v \<and> v < 256 ^ n" for n
  by unfold_locales (simp add: be_int_be_bytes)

lemmas be_bytes_inj = be_codec.enc_inj

end
