(* ===== verification/JsText.thy ===== *)
theory JsText
  imports SC_Prelude
begin

text \<open>
  JavaScript text as the code uses it: strings are lists of characters, \<open>toString(radix)\<close>,
  \<open>padStart\<close>, \<open>BigInt(string)\<close>, \<open>parseInt\<close> on hex, \<open>includes\<close>,
  \<open>split\<close>; and JSON values with their truthiness, indexing and conversion to BigInt.
  Characters stand for UTF-16 code units below 256, which is all the accepted inputs use.
\<close>

subsection \<open>Digits\<close>

definition digit_char :: "nat \<Rightarrow> char" where
  "digit_char d = (if d < 10 then char_of (48 + d) else char_of (87 + d))"

definition digit_val :: "char \<Rightarrow> nat option" where
  "digit_val c = (let n = of_char c in
     if 48 \<le> n \<and> n \<le> 57 then Some (n - 48)
     else if 97 \<le> n \<and> n \<le> 122 then Some (n - 87)
     else if 65 \<le> n \<and> n \<le> 90 then Some (n - 55) else None)"

definition digit_in :: "nat \<Rightarrow> char \<Rightarrow> bool" where
  "digit_in b c = (case digit_val c of None \<Rightarrow> False | Some d \<Rightarrow> d < b)"

lemma digit_val_char [simp]: "d < 36 \<Longrightarrow> digit_val (digit_char d) = Some d"
  by (auto simp: digit_val_def digit_char_def Let_def)

lemma digit_in_char [simp]: "d < b \<Longrightarrow> b \<le> 36 \<Longrightarrow> digit_in b (digit_char d)"
  by (simp add: digit_in_def)

lemma digit_char_inj: "d < 36 \<Longrightarrow> e < 36 \<Longrightarrow> digit_char d = digit_char e \<longleftrightarrow> d = e"
  by (metis digit_val_char option.inject)

lemma digit_char_0 [simp]: "digit_char 0 = CHR ''0''"
  by code_simp

subsection \<open>Reading digits\<close>

definition digits_step :: "nat \<Rightarrow> nat \<Rightarrow> char \<Rightarrow> nat" where
  "digits_step b v c = b * v + (case digit_val c of None \<Rightarrow> 0 | Some d \<Rightarrow> d)"

definition digits_val :: "nat \<Rightarrow> string \<Rightarrow> nat" where
  "digits_val b s = foldl (digits_step b) 0 s"

definition all_digits :: "nat \<Rightarrow> string \<Rightarrow> bool" where
  "all_digits b s = list_all (digit_in b) s"

definition parse_digits :: "nat \<Rightarrow> string \<Rightarrow> nat option" where
  "parse_digits b s = (if s \<noteq> [] \<and> all_digits b s then Some (digits_val b s) else None)"

lemma digits_val_Nil [simp]: "digits_val b [] = 0"
  by (simp add: digits_val_def)

lemma digits_val_snoc: "digits_val b (s @ [c]) = digits_step b (digits_val b s) c"
  by (simp add: digits_val_def)

lemma digits_val_append: "digits_val b (s @ t) = digits_val b s * b ^ length t + digits_val b t"
proof (induction t rule: rev_induct)
  case Nil
  then show ?case by simp
next
  case (snoc c t)
  then show ?case
    using digits_val_snoc [of b "s @ t" c]
    by (simp add: digits_val_snoc digits_step_def algebra_simps)
qed

lemma digits_val_single: "digits_val b [c] = (case digit_val c of None \<Rightarrow> 0 | Some d \<Rightarrow> d)"
  by (simp add: digits_val_def digits_step_def)

lemma digits_val_bound: "all_digits b s \<Longrightarrow> digits_val b s < b ^ length s"
proof (induction s rule: rev_induct)
  case Nil
  then show ?case by simp
next
  case (snoc c s)
  then obtain d where d: "digit_val c = Some d" "d < b"
    by (auto simp: all_digits_def digit_in_def split: option.splits)
  have "digits_val b s + 1 \<le> b ^ length s" using snoc by (simp add: all_digits_def)
  then have "b * (digits_val b s + 1) \<le> b * b ^ length s" by (rule mult_le_mono2)
  then show ?case using d by (simp add: digits_val_snoc digits_step_def)
qed

lemma digits_val_zeros: "digits_val b (replicate n (CHR ''0'') @ s) = digits_val b s"
proof (induction n)
  case 0
  then show ?case by simp
next
  case (Suc n)
  have "digits_val b [CHR ''0''] = 0" by (simp add: digits_val_single digit_val_def)
  then show ?case using Suc digits_val_append [of b "[CHR ''0'']" "replicate n (CHR ''0'') @ s"] by simp
qed

subsection \<open>Printing digits\<close>

fun to_digits :: "nat \<Rightarrow> nat \<Rightarrow> string" where
  "to_digits b n = (if b < 2 \<or> n < b then [digit_char n] else to_digits b (n div b) @ [digit_char (n mod b)])"

declare to_digits.simps [simp del]

text \<open>\<open>n.toString(b)\<close> on a BigInt.\<close>

definition big_to_string :: "nat \<Rightarrow> int \<Rightarrow> string" where
  "big_to_string b n = (if n < 0 then CHR ''-'' # to_digits b (nat (- n)) else to_digits b (nat n))"

definition padStart :: "nat \<Rightarrow> char \<Rightarrow> string \<Rightarrow> string" where
  "padStart n c s = replicate (n - length s) c @ s"

lemma to_digits_nonempty [simp]: "to_digits b n \<noteq> []"
  by (subst to_digits.simps) simp

lemma to_digits_val:
  "2 \<le> b \<Longrightarrow> b \<le> 36 \<Longrightarrow> all_digits b (to_digits b n) \<and> digits_val b (to_digits b n) = n"
proof (induction n rule: less_induct)
  case (less n)
  show ?case
  proof (cases "n < b")
    case True
    then show ?thesis using less.prems
      by (subst (1 2) to_digits.simps) (simp add: all_digits_def digits_val_single)
  next
    case False
    have "n div b < n" using False less.prems by (intro div_less_dividend) auto
    then have IH: "all_digits b (to_digits b (n div b))" "digits_val b (to_digits b (n div b)) = n div b"
      using less by blast+
    have m: "n mod b < b" "n mod b < 36" using less.prems by (simp_all add: order_less_le_trans [of _ b])
    show ?thesis using False less.prems IH m
      by (subst (1 2) to_digits.simps)
        (simp add: all_digits_def digits_val_snoc digits_step_def)
  qed
qed

lemma length_to_digits: "2 \<le> b \<Longrightarrow> n < b ^ Suc k \<Longrightarrow> length (to_digits b n) \<le> Suc k"
proof (induction k arbitrary: n)
  case 0
  then show ?case by (subst to_digits.simps) simp
next
  case (Suc k)
  have "n div b < b ^ Suc k" using Suc.prems by (simp add: less_mult_imp_div_less mult.commute)
  then have "length (to_digits b (n div b)) \<le> Suc k" using Suc by blast
  then show ?case by (subst to_digits.simps) simp
qed

lemma parse_to_digits [simp]:
  "2 \<le> b \<Longrightarrow> b \<le> 36 \<Longrightarrow> parse_digits b (to_digits b n) = Some n"
  by (simp add: parse_digits_def to_digits_val)

text \<open>Digits without a leading zero are what the printer prints.\<close>

lemma to_digits_digits_val:
  assumes "2 \<le> b" "b \<le> 36"
  shows "s \<noteq> [] \<Longrightarrow> list_all (\<lambda>c. digit_in b c \<and> digit_char (the (digit_val c)) = c) s \<Longrightarrow>
    (length s = 1 \<or> hd s \<noteq> CHR ''0'') \<Longrightarrow> to_digits b (digits_val b s) = s"
proof (induction s rule: rev_induct)
  case Nil
  then show ?case by simp
next
  case (snoc c s)
  obtain d where d: "digit_val c = Some d" "d < b" "digit_char d = c"
    using snoc.prems by (auto simp: digit_in_def split: option.splits)
  show ?case
  proof (cases "s = []")
    case True
    then show ?thesis using d by (subst to_digits.simps) (simp add: digits_val_single)
  next
    case False
    have h: "hd s \<noteq> CHR ''0''" using snoc.prems False by simp
    have IH: "to_digits b (digits_val b s) = s" using snoc False by auto
    have pos: "0 < digits_val b s"
    proof (rule ccontr)
      assume "\<not> 0 < digits_val b s"
      then have "s = to_digits b 0" using IH by simp
      also have "\<dots> = [CHR ''0'']" using assms by (subst to_digits.simps) simp
      finally show False using h by simp
    qed
    have "digits_val b (s @ [c]) = b * digits_val b s + d"
      using d by (simp add: digits_val_snoc digits_step_def)
    moreover have "b \<le> b * digits_val b s + d" using pos by (cases "digits_val b s") auto
    moreover have "(b * digits_val b s + d) div b = digits_val b s" "(b * digits_val b s + d) mod b = d"
      using d by simp_all
    ultimately show ?thesis using assms IH d by (subst to_digits.simps) simp
  qed
qed

subsection \<open>BigInt of a string\<close>

text \<open>
  \<open>StringToBigInt\<close>: surrounding white space is dropped, the empty string is 0, an optional
  0x, 0o or 0b prefix takes digits of that radix and no sign, and a decimal may carry a sign.
  Anything else is a SyntaxError.
\<close>

definition is_space :: "char \<Rightarrow> bool" where
  "is_space c = (let n = (of_char c :: nat) in n = 32 \<or> (9 \<le> n \<and> n \<le> 13) \<or> n = 160)"

definition trim :: "string \<Rightarrow> string" where
  "trim s = rev (dropWhile is_space (rev (dropWhile is_space s)))"

fun string_to_bigint :: "string \<Rightarrow> int option" where
  "string_to_bigint s =
     (let t = trim s in
      case t of
        [] \<Rightarrow> Some 0
      | c # u \<Rightarrow>
          if c = CHR ''0'' \<and> u \<noteq> [] \<and> hd u \<in> {CHR ''x'', CHR ''X''} then map_option int (parse_digits 16 (tl u))
          else if c = CHR ''0'' \<and> u \<noteq> [] \<and> hd u \<in> {CHR ''o'', CHR ''O''} then map_option int (parse_digits 8 (tl u))
          else if c = CHR ''0'' \<and> u \<noteq> [] \<and> hd u \<in> {CHR ''b'', CHR ''B''} then map_option int (parse_digits 2 (tl u))
          else if c = CHR ''-'' then map_option (\<lambda>n. - int n) (parse_digits 10 u)
          else if c = CHR ''+'' then map_option int (parse_digits 10 u)
          else map_option int (parse_digits 10 t))"

declare string_to_bigint.simps [simp del]

lemma digit_in_props:
  "digit_in b c \<Longrightarrow> b \<le> 10 \<Longrightarrow> \<not> is_space c \<and> c \<noteq> CHR ''-'' \<and> c \<noteq> CHR ''+''
     \<and> c \<notin> {CHR ''x'', CHR ''X'', CHR ''o'', CHR ''O'', CHR ''b'', CHR ''B''}"
  by (auto simp: digit_in_def digit_val_def is_space_def Let_def split: if_splits)

lemma trim_id: "s \<noteq> [] \<Longrightarrow> \<not> is_space (hd s) \<Longrightarrow> \<not> is_space (last s) \<Longrightarrow> trim s = s"
proof -
  assume a: "s \<noteq> []" "\<not> is_space (hd s)" "\<not> is_space (last s)"
  then have "dropWhile is_space s = s" by (cases s) auto
  moreover have "dropWhile is_space (rev s) = rev s"
    using a by (cases s rule: rev_cases) auto
  ultimately show ?thesis by (simp add: trim_def)
qed

lemma string_to_bigint_digits:
  assumes "s \<noteq> []" "all_digits 10 s"
  shows "string_to_bigint s = Some (int (digits_val 10 s))"
proof -
  have d: "digit_in 10 c" if "c \<in> set s" for c
    using assms(2) that by (auto simp: all_digits_def list_all_iff)
  obtain c u where s: "s = c # u" using assms(1) by (cases s) auto
  have t: "trim (c # u) = c # u"
    using d [of c] d [of "last (c # u)"] last_in_set [of "c # u"] digit_in_props [of 10]
    by (intro trim_id) (simp_all add: s del: last.simps)
  have c: "c \<noteq> CHR ''-''" "c \<noteq> CHR ''+''"
    using d [of c] digit_in_props [of 10 c] by (simp_all add: s)
  have u: "u = [] \<or> hd u \<notin> {CHR ''x'', CHR ''X'', CHR ''o'', CHR ''O'', CHR ''b'', CHR ''B''}"
    using d [of "hd u"] digit_in_props [of 10 "hd u"] by (cases u) (simp_all add: s)
  have "string_to_bigint (c # u) = map_option int (parse_digits 10 (c # u))"
    unfolding string_to_bigint.simps [of "c # u"] Let_def t using c u by (elim disjE) simp_all
  then show ?thesis using assms by (simp add: s parse_digits_def)
qed

lemma string_to_bigint_print [simp]: "string_to_bigint (big_to_string 10 n) = Some n"
proof (cases "n < 0")
  case False
  then show ?thesis
    using to_digits_val [of 10 "nat n"] by (simp add: big_to_string_def string_to_bigint_digits)
next
  case True
  let ?d = "to_digits 10 (nat (- n))"
  have d: "all_digits 10 ?d" "digits_val 10 ?d = nat (- n)"
    using to_digits_val [of 10 "nat (- n)"] by simp_all
  have "digit_in 10 (last ?d)" using d(1) by (simp add: all_digits_def list_all_iff)
  then have "\<not> is_space (last ?d)" using digit_in_props by simp
  moreover have "\<not> is_space (CHR ''-'')" by code_simp
  ultimately have "trim (CHR ''-'' # ?d) = CHR ''-'' # ?d"
    by (intro trim_id) simp_all
  then show ?thesis using True
    by (simp add: big_to_string_def string_to_bigint.simps)
qed

subsection \<open>Substrings\<close>

text \<open>\<open>s.includes(t)\<close>.\<close>

fun starts_with :: "string \<Rightarrow> string \<Rightarrow> bool" where
  "starts_with s [] = True"
| "starts_with [] (c # t) = False"
| "starts_with (a # s) (c # t) = (a = c \<and> starts_with s t)"

fun str_includes :: "string \<Rightarrow> string \<Rightarrow> bool" where
  "str_includes [] t = (t = [])"
| "str_includes (c # s) t = (starts_with (c # s) t \<or> str_includes s t)"

lemma starts_with_iff: "starts_with s t \<longleftrightarrow> (\<exists>v. s = t @ v)"
  by (induction s t rule: starts_with.induct) auto

lemma includes_iff: "str_includes s t \<longleftrightarrow> (\<exists>u v. s = u @ t @ v)"
proof (induction s)
  case Nil
  then show ?case by auto
next
  case (Cons c s)
  show ?case
  proof
    assume "str_includes (c # s) t"
    then consider v where "c # s = t @ v" | "str_includes s t" by (auto simp: starts_with_iff)
    then show "\<exists>u v. c # s = u @ t @ v"
    proof cases
      case 1
      then show ?thesis by (metis append_Nil)
    next
      case 2
      then obtain u v where "s = u @ t @ v" using Cons by blast
      then show ?thesis by (metis append_Cons)
    qed
  next
    assume "\<exists>u v. c # s = u @ t @ v"
    then obtain u v where uv: "c # s = u @ t @ v" by blast
    show "str_includes (c # s) t"
    proof (cases u)
      case Nil
      then have "starts_with (c # s) t" using uv starts_with_iff by auto
      then show ?thesis by simp
    next
      case (Cons a u')
      then have "s = u' @ t @ v" using uv by simp
      then show ?thesis using Cons.IH by auto
    qed
  qed
qed

text \<open>\<open>s.split(c)\<close> on a single character.\<close>

fun split_on :: "char \<Rightarrow> string \<Rightarrow> string list" where
  "split_on c [] = [[]]"
| "split_on c (x # s) =
     (if x = c then [] # split_on c s
      else case split_on c s of [] \<Rightarrow> [[x]] | w # ws \<Rightarrow> (x # w) # ws)"

subsection \<open>JSON values\<close>

text \<open>
  A parsed request body. Numbers are split into the integral ones and the others; the code never
  computes with the latter.
\<close>

datatype json = JUndef | JNull | JBool bool | JInt int | JFrac | JStr string
  | JArr "json list" | JObj "(string \<times> json) list"

definition js_truthy :: "json \<Rightarrow> bool" where
  "js_truthy j = (j \<notin> {JUndef, JNull, JBool False, JInt 0, JStr []})"

text \<open>\<open>j?.name\<close> and \<open>j?.[i]\<close>: undefined on null and undefined and where absent.\<close>

definition js_get :: "json \<Rightarrow> string \<Rightarrow> json" where
  "js_get j name = (case j of
       JObj fs \<Rightarrow> (case map_of fs name of Some v \<Rightarrow> v | None \<Rightarrow> JUndef)
     | _ \<Rightarrow> JUndef)"

definition js_index :: "json \<Rightarrow> nat \<Rightarrow> json" where
  "js_index j i = (case j of
       JArr xs \<Rightarrow> if i < length xs then xs ! i else JUndef
     | JStr s \<Rightarrow> if i < length s then JStr [s ! i] else JUndef
     | JObj fs \<Rightarrow> js_get (JObj fs) (to_digits 10 i)
     | _ \<Rightarrow> JUndef)"

text \<open>
  String conversion of an element when an array is joined with commas. A number of 10 to the 21 or
  more prints with an exponent and a fraction with a point; neither is a BigInt literal, which is
  all that is asked of them, so one spelling stands for them.
\<close>

fun js_to_string :: "json \<Rightarrow> string" where
  "js_to_string JUndef = ''undefined''"
| "js_to_string JNull = ''null''"
| "js_to_string (JBool b) = (if b then ''true'' else ''false'')"
| "js_to_string (JInt n) = (if \<bar>n\<bar> < 10 ^ 21 then big_to_string 10 n else ''e+'')"
| "js_to_string JFrac = ''.''"
| "js_to_string (JStr s) = s"
| "js_to_string (JArr xs) =
     (case map (\<lambda>x. if x = JUndef \<or> x = JNull then [] else js_to_string x) xs of
        [] \<Rightarrow> []
      | w # ws \<Rightarrow> w @ concat (map (\<lambda>v. CHR '','' # v) ws))"
| "js_to_string (JObj fs) = ''[object Object]''"

definition string_bigint_js :: "string \<Rightarrow> int js" where
  "string_bigint_js s = (case string_to_bigint s of
       Some n \<Rightarrow> Returns n
     | None \<Rightarrow> Throws (''Cannot convert '' @ s @ '' to a BigInt''))"

definition json_bigint :: "json \<Rightarrow> int js" where
  "json_bigint j = (case j of
       JUndef \<Rightarrow> Throws ''Cannot convert undefined to a BigInt''
     | JNull \<Rightarrow> Throws ''Cannot convert null to a BigInt''
     | JBool b \<Rightarrow> Returns (if b then 1 else 0)
     | JInt n \<Rightarrow> Returns n
     | JFrac \<Rightarrow> Throws ''The number cannot be converted to a BigInt because it is not an integer''
     | _ \<Rightarrow> string_bigint_js (js_to_string j))"

lemma json_bigint_JStr: "json_bigint (JStr s) = string_bigint_js s"
  by (simp add: json_bigint_def)

lemma json_bigint_print [simp]: "json_bigint (JStr (big_to_string 10 n)) = Returns n"
  by (simp add: json_bigint_JStr string_bigint_js_def)

subsection \<open>Interfaces\<close>

interpretation decimal: codec "big_to_string 10" string_to_bigint "\<lambda>n. True"
  by unfold_locales simp

interpretation radix_digits: codec "to_digits b" "parse_digits b" "\<lambda>n. 2 \<le> b \<and> b \<le> 36" for b
  by unfold_locales simp

lemma split_on_other: "c \<notin> set w \<Longrightarrow> split_on c w = [w]"
  by (induction w) auto

lemma split_on_sep: "c \<notin> set w \<Longrightarrow> split_on c (w @ c # s) = w # split_on c s"
  by (induction w) auto

lemma split_on_join:
  "case split_on c s of [] \<Rightarrow> False
     | w # ws \<Rightarrow> c \<notin> set w \<and> (case ws of [] \<Rightarrow> s = w | v # vs \<Rightarrow> \<exists>r. s = w @ c # r \<and> split_on c r = v # vs)"
proof (induction s)
  case (Cons x s)
  obtain w ws where w: "split_on c s = w # ws" using Cons by (cases "split_on c s") auto
  have IH: "c \<notin> set w" "ws = [] \<Longrightarrow> s = w"
      "\<And>v vs. ws = v # vs \<Longrightarrow> \<exists>r. s = w @ c # r \<and> split_on c r = v # vs"
    using Cons unfolding w by (auto split: list.splits)
  show ?case
  proof (cases "x = c")
    case True
    then show ?thesis using w by simp
  next
    case False
    have "split_on c (x # s) = (x # w) # ws" using False by (simp add: w)
    then show ?thesis using False IH by (auto split: list.splits)
  qed
qed simp

lemma split_on_three:
  assumes "split_on c s = [p, q, r]"
  shows "s = p @ c # q @ c # r \<and> c \<notin> set p \<and> c \<notin> set q \<and> c \<notin> set r"
proof -
  obtain t where t: "s = p @ c # t" "split_on c t = [q, r]" "c \<notin> set p"
    using split_on_join [of c s] unfolding assms by auto
  obtain u where u: "t = q @ c # u" "split_on c u = [r]" "c \<notin> set q"
    using split_on_join [of c t] unfolding t(2) by auto
  have "u = r" "c \<notin> set r" using split_on_join [of c u] unfolding u(2) by auto
  then show ?thesis using t u by simp
qed

lemma to_digits_chars: "2 \<le> b \<Longrightarrow> b \<le> 36 \<Longrightarrow> c \<in> set (to_digits b n) \<Longrightarrow> digit_in b c"
  using to_digits_val [of b n] by (simp add: all_digits_def list_all_iff)

lemma to_digits_head:
  "2 \<le> b \<Longrightarrow> b \<le> 36 \<Longrightarrow> length (to_digits b n) = 1 \<or> hd (to_digits b n) \<noteq> CHR ''0''"
proof (induction n rule: less_induct)
  case (less n)
  show ?case
  proof (cases "n < b")
    case True
    then show ?thesis by (subst (1) to_digits.simps) simp
  next
    case False
    then have "n div b < n" "0 < n div b" using less.prems by (simp_all add: div_less_dividend div_greater_zero_iff)
    have eq: "to_digits b n = to_digits b (n div b) @ [digit_char (n mod b)]"
      using False less.prems by (subst to_digits.simps) simp
    have "hd (to_digits b (n div b)) \<noteq> CHR ''0''"
    proof (cases "length (to_digits b (n div b)) = 1")
      case True
      then obtain c where c: "to_digits b (n div b) = [c]" by (auto simp: length_Suc_conv)
      then have v: "digits_val b [c] = n div b" using to_digits_val [of b "n div b"] less.prems by simp
      have "digits_val b ''0'' = 0" by (simp add: digits_val_single digit_val_def)
      then show ?thesis using v c \<open>0 < n div b\<close> by auto
    next
      case False
      then show ?thesis using less.IH [OF \<open>n div b < n\<close>] less.prems by blast
    qed
    then show ?thesis by (simp add: eq)
  qed
qed


end
