(* ===== verification/JsNumber.thy ===== *)
theory JsNumber
  imports SC_Prelude "HOL-Library.Log_Nat"
begin

text \<open>
  JavaScript Numbers. The relayer does its fee arithmetic on Numbers, which are IEEE doubles:
  every operation is exact on the rationals followed by a rounding to 53 significant bits, half
  to even. The rounding is written out here (\<open>fl\<close> on rationals, \<open>rnd\<close> on
  integers), with the two facts the fee proofs use: values that fit in 53 bits are not changed,
  and a quotient that is not an integer keeps its ceiling while the rounding error is smaller
  than its distance to the next integer. Overflow to Infinity and subnormals are not modelled:
  the quantities are lamports between 0.2 and 2 to the power 100.
\<close>

subsection \<open>Rounding to an integer\<close>

definition rne :: "rat \<Rightarrow> int" where
  "rne x = (let f = \<lfloor>x\<rfloor>; r = x - of_int f in
     if r < 1/2 then f else if 1/2 < r then f + 1 else if even f then f else f + 1)"

lemma rne_of_int [simp]: "rne (of_int n) = n"
  by (simp add: rne_def)

lemma rne_error: "\<bar>of_int (rne x) - x\<bar> \<le> 1/2"
proof -
  have "of_int \<lfloor>x\<rfloor> \<le> x" "x < of_int \<lfloor>x\<rfloor> + 1" by linarith+
  then show ?thesis by (auto simp: rne_def Let_def)
qed

lemma rne_nonneg: "0 \<le> x \<Longrightarrow> 0 \<le> rne x"
  by (auto simp: rne_def Let_def)

subsection \<open>The exponent of a positive rational\<close>

definition exp2 :: "rat \<Rightarrow> int" where
  "exp2 x = (if 1 \<le> x then int (floorlog 2 (nat \<lfloor>x\<rfloor>)) - 1
             else - int (floorlog 2 (nat (\<lceil>1 / x\<rceil> - 1))))"

lemma floorlog2_bounds:
  "0 < n \<Longrightarrow> 2 ^ (floorlog 2 n - 1) \<le> n \<and> n < 2 ^ floorlog 2 n"
  using floorlog_bounds [of n 2] by simp

lemma floorlog2_pos: "0 < n \<Longrightarrow> 1 \<le> floorlog 2 n"
  by (simp add: floorlog_def)

lemma rat_pow_le: "2 ^ k \<le> n \<Longrightarrow> (2 :: rat) ^ k \<le> of_nat n"
  by (metis of_nat_le_iff of_nat_numeral of_nat_power)

lemma rat_pow_gt: "n < 2 ^ k \<Longrightarrow> of_nat n + 1 \<le> (2 :: rat) ^ k"
  by (metis Suc_le_eq of_nat_Suc of_nat_le_iff of_nat_numeral of_nat_power add.commute)

lemma exp2_bounds:
  assumes "0 < x"
  shows "2 powi exp2 x \<le> x" and "x < 2 powi (exp2 x + 1)"
proof -
  have "2 powi exp2 x \<le> x \<and> x < 2 powi (exp2 x + 1)"
  proof (cases "1 \<le> x")
    case True
    define n where "n = nat \<lfloor>x\<rfloor>"
    have n: "0 < n" "(of_nat n :: rat) \<le> x" "x < of_nat n + 1"
      using True by (auto simp: n_def) linarith+
    obtain k where k: "floorlog 2 n = Suc k"
      using floorlog2_pos [OF n(1)] by (cases "floorlog 2 n") auto
    have "(2 :: rat) ^ k \<le> of_nat n" "of_nat n + 1 \<le> (2 :: rat) ^ Suc k"
      using floorlog2_bounds [OF n(1)] k by (auto intro: rat_pow_le simp del: power_Suc dest: rat_pow_gt)
    moreover have "exp2 x = int k" using True k by (simp add: exp2_def n_def)
    moreover have "(2 :: rat) powi (int k + 1) = 2 ^ Suc k"
      using power_int_of_nat [of "2 :: rat" "Suc k"] by (simp add: add.commute)
    ultimately have "2 powi exp2 x = (2 :: rat) ^ k" "(2 :: rat) ^ k \<le> of_nat n"
        "2 powi (exp2 x + 1) = (2 :: rat) ^ Suc k" "of_nat n + 1 \<le> (2 :: rat) ^ Suc k"
      by simp_all
    with n show ?thesis by linarith
  next
    case False
    define y where "y = 1 / x"
    have y: "1 < y" "x = 1 / y" using False assms by (auto simp: y_def)
    define n where "n = nat (\<lceil>y\<rceil> - 1)"
    have "1 < \<lceil>y\<rceil>" using y(1) by linarith
    then have n: "0 < n" "(of_nat n :: rat) < y" "y \<le> of_nat n + 1"
      by (auto simp: n_def) linarith+
    obtain k where k: "floorlog 2 n = Suc k"
      using floorlog2_pos [OF n(1)] by (cases "floorlog 2 n") auto
    have "(2 :: rat) ^ k \<le> of_nat n" "of_nat n + 1 \<le> (2 :: rat) ^ Suc k"
      using floorlog2_bounds [OF n(1)] k by (auto intro: rat_pow_le simp del: power_Suc dest: rat_pow_gt)
    then have b: "(2 :: rat) ^ k < y" "y \<le> 2 ^ Suc k" using n by linarith+
    have e: "exp2 x = - int (Suc k)" using False k by (simp add: exp2_def n_def y_def)
    have "1 / (2 :: rat) ^ Suc k \<le> 1 / y" "1 / y < 1 / 2 ^ k"
      using frac_le [of "1 :: rat" 1 y "2 ^ Suc k"] frac_less2 [of "1 :: rat" 1 "2 ^ k" y] b y(1)
      by (simp_all del: power_Suc)
    moreover have "(2 :: rat) powi (- int (Suc k)) = 1 / 2 ^ Suc k"
      using power_int_minus_divide [of "2 :: rat" "int (Suc k)"] by (simp only: power_int_of_nat)
    moreover have "(2 :: rat) powi (- int (Suc k) + 1) = 1 / 2 ^ k"
      using power_int_minus [of "2 :: rat" "int k"] by (simp add: divide_inverse)
    ultimately show ?thesis unfolding e unfolding y(2) by simp
  qed
  then show "2 powi exp2 x \<le> x" and "x < 2 powi (exp2 x + 1)" by blast+
qed

subsection \<open>Rounding to a double\<close>

definition ulp :: "rat \<Rightarrow> rat" where
  "ulp x = 2 powi (exp2 \<bar>x\<bar> - 52)"

definition fl :: "rat \<Rightarrow> rat" where
  "fl x = (if x = 0 then 0 else of_int (rne (x / ulp x)) * ulp x)"

text \<open>An operation whose exact result is an integer, e.g. a Number addition of lamports.\<close>

definition rnd :: "int \<Rightarrow> int" where
  "rnd n = \<lfloor>fl (of_int n)\<rfloor>"

lemma ulp_pos [simp]: "0 < ulp x"
  by (simp add: ulp_def)

lemma ulp_nz [simp]: "ulp x \<noteq> 0"
  using ulp_pos [of x] by linarith

lemma ulp_quotient: "x = of_int i * ulp x \<Longrightarrow> x / ulp x = of_int i"
  by (metis nonzero_divide_eq_eq ulp_nz)

lemma ulp_abs [simp]: "\<bar>ulp x\<bar> = ulp x"
  using ulp_pos [of x] by linarith

lemma fl_zero [simp]: "fl 0 = 0"
  by (simp add: fl_def)

lemma fl_error: "\<bar>fl x - x\<bar> \<le> ulp x / 2"
proof (cases "x = 0")
  case True
  then show ?thesis using ulp_pos [of x] by (simp add: less_imp_le)
next
  case False
  have "\<bar>of_int (rne (x / ulp x)) - x / ulp x\<bar> * ulp x \<le> 1/2 * ulp x"
    by (rule mult_right_mono [OF rne_error]) (simp add: less_imp_le)
  also have "\<bar>of_int (rne (x / ulp x)) - x / ulp x\<bar> * ulp x
      = \<bar>(of_int (rne (x / ulp x)) - x / ulp x) * ulp x\<bar>"
    by (simp add: abs_mult)
  also have "(of_int (rne (x / ulp x)) - x / ulp x) * ulp x = fl x - x"
    using False by (simp add: fl_def left_diff_distrib)
  finally show ?thesis by simp
qed

lemma fl_nonneg: "0 \<le> x \<Longrightarrow> 0 \<le> fl x"
  by (simp add: fl_def rne_nonneg less_imp_le)

lemma ulp_small:
  assumes "0 < \<bar>x\<bar>" "\<bar>x\<bar> < 2 ^ n"
  shows "ulp x \<le> 2 powi (int n - 53)"
proof -
  have "(2 :: rat) powi exp2 \<bar>x\<bar> < 2 powi int n"
    using exp2_bounds(1) [OF assms(1)] assms(2) by (simp add: power_int_of_nat)
  then have "exp2 \<bar>x\<bar> < int n"
    by (intro power_int_le_imp_less_exp [of "2 :: rat"]) auto
  then show ?thesis
    unfolding ulp_def by (intro power_int_increasing) auto
qed

lemma fl_dyadic:
  assumes x: "x = of_int m * 2 powi k" and m: "\<bar>m\<bar> \<le> 2 ^ 53"
  shows "fl x = x"
proof (cases "m = 0")
  case True
  then show ?thesis using x by simp
next
  case False
  define e where "e = exp2 \<bar>x\<bar>"
  have pos: "0 < \<bar>x\<bar>" using x False by simp
  have abs: "\<bar>x\<bar> = of_int \<bar>m\<bar> * 2 powi k" using x by (simp add: abs_mult)
  obtain j :: int where j: "x / ulp x = of_int j"
  proof (cases "k \<ge> e - 52")
    case True
    then obtain d where d: "k = (e - 52) + int d" using zle_iff_zadd by auto
    have "x = of_int (m * 2 ^ d) * ulp x"
      by (simp add: ulp_def e_def [symmetric]) (simp add: x d power_int_add)
    then show ?thesis by (rule that [OF ulp_quotient])
  next
    case False
    have "(of_int \<bar>m\<bar> :: rat) \<le> 2 ^ 53"
      using m by (metis of_int_le_iff of_int_numeral of_int_power)
    then have "\<bar>x\<bar> \<le> 2 ^ 53 * 2 powi k"
      unfolding abs by (rule mult_right_mono) simp
    also have "\<dots> = 2 powi (53 + k)"
      by (simp add: power_int_add)
    finally have le: "\<bar>x\<bar> \<le> 2 powi (53 + k)" .
    moreover have "2 powi (53 + k) \<le> (2 :: rat) powi e"
      using False by (intro power_int_increasing) auto
    ultimately have "\<bar>x\<bar> = 2 powi e"
      using exp2_bounds(1) [OF pos] by (simp add: e_def)
    then consider "x = 2 powi e" | "x = - (2 powi e)" by linarith
    moreover have "2 powi e = 2 ^ 52 * ulp x"
      by (simp add: ulp_def e_def [symmetric] power_int_diff)
    ultimately consider "x = of_int (2 ^ 52) * ulp x" | "x = of_int (- (2 ^ 52)) * ulp x"
      by fastforce
    then show ?thesis by cases (rule that, erule ulp_quotient)+
  qed
  have "fl x = of_int (rne (x / ulp x)) * ulp x" using pos by (simp add: fl_def)
  also have "\<dots> = x / ulp x * ulp x" by (simp only: j rne_of_int)
  finally show ?thesis by simp
qed

lemma fl_of_int: "\<bar>n\<bar> \<le> 2 ^ 53 \<Longrightarrow> fl (of_int n) = of_int n"
  using fl_dyadic [of "of_int n" n 0] by simp

lemma rnd_exact: "\<bar>n\<bar> \<le> 9007199254740992 \<Longrightarrow> rnd n = n"
  using fl_of_int [of n] by (simp add: rnd_def)

lemma rnd_nonneg: "0 \<le> n \<Longrightarrow> 0 \<le> rnd n"
  using fl_nonneg [of "of_int n"] by (simp add: rnd_def)

lemma fl_half: "\<bar>n\<bar> \<le> 9007199254740992 \<Longrightarrow> fl (of_int n / 2) = of_int n / 2"
  using fl_dyadic [of "of_int n / 2" n "-1"] by (simp add: power_int_minus)

end
