(* ===== verification/Fees.thy ===== *)
theory Fees
  imports JsNumber "HOL-Library.Multiset"
begin

text \<open>
  The relayer's fee arithmetic, relayer/src/fees.js: the priority-fee estimate, the rent cache,
  the plan for one withdrawal and the amounts quoted to the user. Lamport amounts that the code
  keeps as Numbers are integers here, each operation followed by the rounding of
  \<open>JsNumber\<close>; BigInt amounts are plain integers. The RPC connection is a parameter: a call
  either fails or returns a value.
\<close>

subsection \<open>Constants\<close>

definition BASE_FEE :: int where "BASE_FEE = 5000"
definition COMPUTE_UNITS :: int where "COMPUTE_UNITS = 200000"
definition NULLIFIER_ACCOUNT_SIZE :: nat where "NULLIFIER_ACCOUNT_SIZE = 80"
definition NULLIFIER_RENT :: int where "NULLIFIER_RENT = 1056640"
definition MARGIN :: rat where "MARGIN = 3/2"
definition MICRO_LAMPORTS_PER_LAMPORT :: int where "MICRO_LAMPORTS_PER_LAMPORT = 1000000"
definition RENT_TTL_MS :: int where "RENT_TTL_MS = 10 * 60000"

lemmas fee_consts = BASE_FEE_def COMPUTE_UNITS_def NULLIFIER_RENT_def MARGIN_def
  MICRO_LAMPORTS_PER_LAMPORT_def RENT_TTL_MS_def

subsection \<open>The priority-fee estimate\<close>

text \<open>\<open>Math.floor(sorted.length * 0.9)\<close>, with the literal 0.9 a double too.\<close>

definition percentile_index :: "nat \<Rightarrow> nat" where
  "percentile_index n = nat \<lfloor>fl (of_nat n * fl (9/10))\<rfloor>"

text \<open>
  The RPC answers a list of samples or a null. The code tests the null and the empty list, sorts
  numerically, takes the sample at the index and 0 when the index is out of range.
\<close>

definition getPriorityFeePerCU :: "int list option js \<Rightarrow> int" where
  "getPriorityFeePerCU r =
     (case r of
        Throws _ \<Rightarrow> 0
      | Returns None \<Rightarrow> 0
      | Returns (Some fees) \<Rightarrow>
          if fees = [] then 0
          else let sorted = sort fees; i = percentile_index (length sorted)
               in if i < length sorted then sorted ! i else 0)"

definition priorityFeeLamports :: "int \<Rightarrow> int" where
  "priorityFeeLamports priorityFeePerCU =
     \<lceil>fl (of_int (rnd (priorityFeePerCU * COMPUTE_UNITS)) / of_int MICRO_LAMPORTS_PER_LAMPORT)\<rceil>"

definition priorityPerCUFromLamports :: "int \<Rightarrow> int" where
  "priorityPerCUFromLamports lamports =
     (if lamports \<le> 0 then 0
      else \<lfloor>fl (of_int (rnd (lamports * MICRO_LAMPORTS_PER_LAMPORT)) / of_int COMPUTE_UNITS)\<rfloor>)"

subsection \<open>The rent cache\<close>

record rent_entry =
  rent_val :: int
  rent_at :: int

type_synonym 'c rent_cache = "'c \<rightharpoonup> rent_entry"

text \<open>
  One call of \<open>getNullifierRent\<close>: the clock is read before the test of the cached entry and
  again when a fresh value is stored.
\<close>

definition getNullifierRent ::
  "'c rent_cache \<Rightarrow> 'c \<Rightarrow> int \<Rightarrow> int js \<Rightarrow> int \<Rightarrow> int \<times> 'c rent_cache" where
  "getNullifierRent cache conn now1 r now2 =
     (case cache conn of
        Some c \<Rightarrow>
          if now1 - rent_at c < RENT_TTL_MS then (rent_val c, cache)
          else (case r of Returns v \<Rightarrow> (v, cache(conn \<mapsto> \<lparr>rent_val = v, rent_at = now2\<rparr>))
                        | Throws _ \<Rightarrow> (rent_val c, cache))
      | None \<Rightarrow>
          (case r of Returns v \<Rightarrow> (v, cache(conn \<mapsto> \<lparr>rent_val = v, rent_at = now2\<rparr>))
                   | Throws _ \<Rightarrow> (NULLIFIER_RENT, cache)))"

subsection \<open>Cost, ceiling and plan\<close>

definition relayer_cost :: "int \<Rightarrow> int \<Rightarrow> int" where
  "relayer_cost perCU r = rnd (rnd (BASE_FEE + priorityFeeLamports perCU) + r)"

definition computeRelayerCost ::
  "'c rent_cache \<Rightarrow> 'c \<Rightarrow> int list option js \<Rightarrow> int \<Rightarrow> int js \<Rightarrow> int \<Rightarrow> int \<times> 'c rent_cache" where
  "computeRelayerCost cache conn fees now1 r now2 =
     (let perCU = getPriorityFeePerCU fees;
          (rn, cache') = getNullifierRent cache conn now1 r now2
      in (relayer_cost perCU rn, cache'))"

definition feeMaxFromCost :: "int \<Rightarrow> int" where
  "feeMaxFromCost cost = \<lceil>fl (of_int cost * MARGIN)\<rceil>"

definition computeRelayerFeeMax ::
  "'c rent_cache \<Rightarrow> 'c \<Rightarrow> int list option js \<Rightarrow> int \<Rightarrow> int js \<Rightarrow> int \<Rightarrow> int \<times> 'c rent_cache" where
  "computeRelayerFeeMax cache conn fees now1 r now2 =
     (let (cost, cache') = computeRelayerCost cache conn fees now1 r now2
      in (feeMaxFromCost cost, cache'))"

record fee_plan =
  appliedPriorityPerCU :: int
  actualFee :: int
  degraded :: bool
  shortfall :: int
  subsidy :: int

definition planFee :: "int \<Rightarrow> int \<Rightarrow> int \<Rightarrow> fee_plan" where
  "planFee feeMax rent' estimatedPriorityPerCU =
     (let deterministic = rnd (BASE_FEE + rent');
          budgetForPriority = rnd (rnd feeMax - deterministic);
          wantedLamports = priorityFeeLamports estimatedPriorityPerCU;
          affordableLamports = max 0 budgetForPriority;
          appliedLamports = min wantedLamports affordableLamports;
          perCU = priorityPerCUFromLamports appliedLamports;
          spentOnPriority = priorityFeeLamports perCU;
          spent = rnd (deterministic + spentOnPriority);
          charged = (if spent < feeMax then spent else feeMax)
      in \<lparr>appliedPriorityPerCU = perCU,
          actualFee = charged,
          degraded = (affordableLamports < wantedLamports),
          shortfall = max 0 (rnd (wantedLamports - affordableLamports)),
          subsidy = max 0 (rnd (spent - rnd charged))\<rparr>)"

text \<open>BigInt division truncates toward zero.\<close>

definition computeTreasuryFee :: "int \<Rightarrow> int" where
  "computeTreasuryFee denomination = denomination sdiv 500"

definition computeMinUserReceives :: "int \<Rightarrow> int \<Rightarrow> int" where
  "computeMinUserReceives denomination relayerFeeMax =
     (let treasuryFee = computeTreasuryFee denomination
      in denomination - treasuryFee - relayerFeeMax)"


subsection \<open>Exactness of the float arithmetic\<close>

lemma ceiling_fl_fifth:
  assumes "0 \<le> n" "n < 2 ^ 53"
  shows "\<lceil>fl (of_int n / 5)\<rceil> = \<lceil>(of_int n :: rat) / 5\<rceil>"
proof (cases "5 dvd n")
  case True
  then obtain q where q: "n = 5 * q" by blast
  then show ?thesis using assms fl_of_int [of q] by simp
next
  case False
  define q where "q = n div 5"
  have r: "5 * q + 1 \<le> n" "n \<le> 5 * q + 4" using False by (auto simp: q_def) presburger+
  define x where "x = (of_int n :: rat) / 5"
  have lo: "of_int q + 1/5 \<le> x"
    using r(1) unfolding x_def by (simp flip: of_int_le_iff [where 'a = rat])
  have hi: "x \<le> of_int q + 4/5"
    using r(2) unfolding x_def by (simp flip: of_int_le_iff [where 'a = rat])
  have "0 < n" using False assms by (cases "n = 0") auto
  have nr: "(of_int n :: rat) < 2 ^ 53" using assms(2) by (metis of_int_less_iff of_int_numeral of_int_power)
  have "0 < \<bar>x\<bar>" "\<bar>x\<bar> < 2 ^ 51" using \<open>0 < n\<close> nr by (simp_all add: x_def)
  then have "ulp x \<le> 2 powi (int 51 - 53)" by (rule ulp_small)
  then have "ulp x \<le> 1/4" by (simp add: power_int_minus)
  then have "\<bar>fl x - x\<bar> \<le> 1/8" using fl_error [of x] by simp
  then have "fl x - x \<le> 1/8" "x - fl x \<le> 1/8" by linarith+
  then have "of_int q < fl x" "fl x \<le> of_int q + 1" "of_int q < x" "x \<le> of_int q + 1"
    using lo hi by linarith+
  then have "\<lceil>fl x\<rceil> = q + 1" "\<lceil>x\<rceil> = q + 1"
    by (simp_all add: ceiling_eq_iff)
  then show ?thesis by (simp add: x_def)
qed

lemma ceiling_fifth: "\<lceil>(of_int n :: rat) / 5\<rceil> = (n + 4) div 5"
proof -
  define q where "q = (n + 4) div 5"
  have "n \<le> 5 * q" "5 * q < n + 5" unfolding q_def by presburger+
  then have "(of_int n :: rat) \<le> of_int (5 * q)" "of_int (5 * q) < (of_int (n + 5) :: rat)"
    by (simp_all only: of_int_le_iff of_int_less_iff)
  then have "(of_int n :: rat) \<le> 5 * of_int q" "5 * of_int q < (of_int n :: rat) + 5"
    by (simp_all only: of_int_mult of_int_add of_int_numeral)
  then have "\<lceil>(of_int n :: rat) / 5\<rceil> = q" by (simp add: ceiling_eq_iff)
  then show ?thesis by (simp add: q_def)
qed

text \<open>Integer form of the conversion, valid below 2 to the 53 micro-lamports for the whole budget.\<close>

lemma priorityFeeLamports_eq:
  "0 \<le> p \<Longrightarrow> p \<le> 45035996273 \<Longrightarrow> priorityFeeLamports p = (p + 4) div 5"
proof -
  assume p: "0 \<le> p" "p \<le> 45035996273"
  then have "rnd (p * 200000) = p * 200000" by (intro rnd_exact) auto
  then have "priorityFeeLamports p = \<lceil>fl (of_int p / 5)\<rceil>"
    by (simp add: priorityFeeLamports_def fee_consts)
  then show ?thesis using p by (simp add: ceiling_fl_fifth ceiling_fifth)
qed

lemma priorityFeeLamports_nonneg: "0 \<le> p \<Longrightarrow> 0 \<le> priorityFeeLamports p"
proof -
  assume "0 \<le> p"
  then have "0 \<le> fl (rat_of_int (rnd (p * COMPUTE_UNITS)) / of_int MICRO_LAMPORTS_PER_LAMPORT)"
    by (intro fl_nonneg divide_nonneg_nonneg) (auto simp: fee_consts rnd_nonneg)
  then show ?thesis unfolding priorityFeeLamports_def by linarith
qed

text \<open>The largest priority budget, in lamports, for which the per-CU arithmetic is exact.\<close>

abbreviation SAFE_LAMPORTS :: int where "SAFE_LAMPORTS \<equiv> 9007199254"

lemma priorityPerCUFromLamports_eq:
  assumes "l \<le> SAFE_LAMPORTS"
  shows "priorityPerCUFromLamports l = max 0 (5 * l)"
proof (cases "l \<le> 0")
  case True
  then show ?thesis by (simp add: priorityPerCUFromLamports_def)
next
  case False
  with assms have "rnd (l * 1000000) = l * 1000000" "fl (of_int (5 * l)) = of_int (5 * l)"
    by (intro rnd_exact fl_of_int; simp)+
  moreover have "\<lfloor>5 * rat_of_int l\<rfloor> = 5 * l"
    using floor_of_int [of "5 * l", where 'a = rat] by (simp only: of_int_mult of_int_numeral)
  ultimately show ?thesis using False by (simp add: priorityPerCUFromLamports_def fee_consts)
qed

lemma priority_roundtrip:
  "0 \<le> l \<Longrightarrow> l \<le> SAFE_LAMPORTS \<Longrightarrow> priorityFeeLamports (priorityPerCUFromLamports l) = l"
  by (simp add: priorityPerCUFromLamports_eq priorityFeeLamports_eq)

subsection \<open>The plan, in integers\<close>

lemma planFee_eq:
  fixes feeMax rent' est
  assumes "0 \<le> feeMax" "feeMax \<le> SAFE_LAMPORTS" "0 \<le> rent'" "rent' \<le> SAFE_LAMPORTS" "0 \<le> est"
  defines "det \<equiv> BASE_FEE + rent'"
  defines "applied \<equiv> min (priorityFeeLamports est) (max 0 (feeMax - det))"
  shows "appliedPriorityPerCU (planFee feeMax rent' est) = 5 * applied"
    and "actualFee (planFee feeMax rent' est) = min (det + applied) feeMax"
    and "degraded (planFee feeMax rent' est) \<longleftrightarrow> max 0 (feeMax - det) < priorityFeeLamports est"
    and "subsidy (planFee feeMax rent' est) = max 0 (det - feeMax)"
    and "0 \<le> applied" and "applied \<le> SAFE_LAMPORTS"
proof -
  have w: "0 \<le> priorityFeeLamports est" using assms by (simp add: priorityFeeLamports_nonneg)
  show a: "0 \<le> applied" and b: "applied \<le> SAFE_LAMPORTS"
    using w assms by (auto simp: applied_def det_def fee_consts min_def max_def)
  have r: "rnd (BASE_FEE + rent') = det" "rnd feeMax = feeMax" "rnd (feeMax - det) = feeMax - det"
      "rnd (det + applied) = det + applied"
    using assms a b by (auto simp: det_def fee_consts intro!: rnd_exact)
  have m: "rnd (min (det + applied) feeMax) = min (det + applied) feeMax"
      "rnd (det + applied - min (det + applied) feeMax) = det + applied - min (det + applied) feeMax"
    using assms a b by (auto simp: det_def fee_consts intro!: rnd_exact)
  have p: "priorityPerCUFromLamports applied = 5 * applied" "priorityFeeLamports (5 * applied) = applied"
    using a b priority_roundtrip [of applied] by (simp_all add: priorityPerCUFromLamports_eq)
  have ch: "(if det + applied < feeMax then det + applied else feeMax) = min (det + applied) feeMax"
    by simp
  note unf = planFee_def Let_def r applied_def [symmetric] p ch m
  show "appliedPriorityPerCU (planFee feeMax rent' est) = 5 * applied"
    and "actualFee (planFee feeMax rent' est) = min (det + applied) feeMax"
    and "degraded (planFee feeMax rent' est) \<longleftrightarrow> max 0 (feeMax - det) < priorityFeeLamports est"
    by (simp_all add: unf)
  have "subsidy (planFee feeMax rent' est) = max 0 (det + applied - min (det + applied) feeMax)"
    by (simp only: unf fee_plan.select_convs)
  also have "\<dots> = max 0 (det - feeMax)"
    using w a by (auto simp: applied_def min_def max_def)
  finally show "subsidy (planFee feeMax rent' est) = max 0 (det - feeMax)" .
qed

subsection \<open>The percentile index\<close>

lemma fl_relative: "0 < x \<Longrightarrow> fl x \<le> x * (1 + 1 / 2 ^ 53)"
proof -
  assume x: "0 < x"
  have "ulp x = 2 powi exp2 x / 2 ^ 52" using x by (simp add: ulp_def power_int_diff)
  also have "\<dots> \<le> x / 2 ^ 52" using exp2_bounds(1) [OF x] by (simp add: divide_right_mono)
  finally have "ulp x / 2 \<le> x / 2 ^ 53" by simp
  then have "fl x - x \<le> x / 2 ^ 53" using fl_error [of x] by linarith
  then show ?thesis by (simp add: distrib_left)
qed

lemma percentile_index_less: "0 < n \<Longrightarrow> percentile_index n < n"
proof -
  assume n: "0 < n"
  have "fl (9/10) \<le> 9/10 * (1 + 1 / 2 ^ 53)" by (rule fl_relative) simp
  then have k: "fl (9/10) < 91/100" by simp
  have z: "0 \<le> fl (9/10)" by (rule fl_nonneg) simp
  define y where "y = of_nat n * fl (9/10)"
  have y: "0 \<le> y" "y < of_nat n * (91/100)"
    using n k z by (auto simp: y_def)
  have "fl y < of_nat n"
  proof (cases "y = 0")
    case True
    then show ?thesis using n by simp
  next
    case False
    then have "fl y \<le> y * (1 + 1 / 2 ^ 53)" using y by (intro fl_relative) auto
    also have "\<dots> \<le> y * (101/100)" using y by (intro mult_left_mono) auto
    also have "\<dots> < of_nat n" using y n by simp
    finally show ?thesis .
  qed
  then have "\<lfloor>fl y\<rfloor> < int n" by (simp add: floor_less_iff)
  then show ?thesis unfolding percentile_index_def y_def [symmetric] using n by linarith
qed

lemma sorted_prefix_le:
  "sorted xs \<Longrightarrow> i < length xs \<Longrightarrow> Suc i \<le> length (filter (\<lambda>x. x \<le> xs ! i) xs)"
proof -
  assume s: "sorted xs" and i: "i < length xs"
  have "filter (\<lambda>x. x \<le> xs ! i) (take (Suc i) xs) = take (Suc i) xs"
  proof (rule filter_True, rule ballI)
    fix x assume "x \<in> set (take (Suc i) xs)"
    then obtain j where "j < Suc i" "x = xs ! j" by (auto simp: in_set_conv_nth)
    then show "x \<le> xs ! i" using s i by (auto intro: sorted_nth_mono)
  qed
  then have "Suc i = length (filter (\<lambda>x. x \<le> xs ! i) (take (Suc i) xs))" using i by simp
  also have "\<dots> \<le> length (filter (\<lambda>x. x \<le> xs ! i) (take (Suc i) xs @ drop (Suc i) xs))"
    by (subst filter_append) simp
  finally show ?thesis by simp
qed

lemma length_filter_sort: "length (filter P (sort xs)) = length (filter P xs)"
  by (metis mset_filter mset_sort size_mset)

text \<open>
  The estimate is a sample the RPC returned, at or above at least as many samples as the
  90th-percentile index says, and the index never runs off the list, so the fallback to 0 is used
  only when the call failed or answered nothing.
\<close>

theorem priority_estimate_percentile:
  assumes "fees \<noteq> []"
  shows "getPriorityFeePerCU (Returns (Some fees)) \<in> set fees
    \<and> percentile_index (length fees)
           < length (filter (\<lambda>x. x \<le> getPriorityFeePerCU (Returns (Some fees))) fees)"
proof -
  let ?i = "percentile_index (length fees)"
  have i: "?i < length (sort fees)" using assms by (simp add: percentile_index_less)
  have eq: "getPriorityFeePerCU (Returns (Some fees)) = sort fees ! ?i"
    using assms i by (simp add: getPriorityFeePerCU_def Let_def)
  show ?thesis
    using nth_mem [OF i] sorted_prefix_le [of "sort fees", OF _ i]
    by (simp add: eq length_filter_sort)
qed

lemma priority_estimate_percentile_witness:
  "getPriorityFeePerCU (Returns (Some [7, 7, 7])) \<in> set [7, 7, 7 :: int]"
  using priority_estimate_percentile [of "[7, 7, 7]"] by simp

subsection \<open>Runs of the rent cache\<close>

record 'c rent_call =
  rc_conn :: 'c
  rc_now :: int
  rc_resp :: "int js"
  rc_stored :: int

definition rent_step :: "'c rent_cache \<Rightarrow> 'c rent_call \<Rightarrow> int \<times> 'c rent_cache" where
  "rent_step cache k = getNullifierRent cache (rc_conn k) (rc_now k) (rc_resp k) (rc_stored k)"

definition rent_run :: "'c rent_call list \<Rightarrow> 'c rent_cache" where
  "rent_run ks = foldl (\<lambda>cache k. snd (rent_step cache k)) Map.empty ks"

lemma rent_run_snoc: "rent_run (ks @ [k]) = snd (rent_step (rent_run ks) k)"
  by (simp add: rent_run_def)

lemma rent_run_entry:
  "rent_run ks c = Some e \<Longrightarrow>
   \<exists>k\<in>set ks. rc_conn k = c \<and> rc_resp k = Returns (rent_val e) \<and> rc_stored k = rent_at e"
proof (induction ks rule: rev_induct)
  case Nil
  then show ?case by (simp add: rent_run_def)
next
  case (snoc k ks)
  then show ?case
    by (auto simp: rent_run_snoc rent_step_def getNullifierRent_def
        split: option.splits js.splits if_splits)
qed

lemma rent_run_none:
  "rent_run ks c = None \<Longrightarrow> k \<in> set ks \<Longrightarrow> rc_conn k = c \<Longrightarrow> is_Throws (rc_resp k)"
proof (induction ks arbitrary: k rule: rev_induct)
  case Nil
  then show ?case by simp
next
  case (snoc k' ks)
  then show ?case
    by (auto simp: rent_run_snoc rent_step_def getNullifierRent_def
        split: option.splits js.splits if_splits)
qed

text \<open>
  Whatever calls came before, on whatever connections, a call of \<open>getNullifierRent\<close>
  answers the value just read from the chain; or a value some earlier call on the SAME connection
  read from the chain, and then either less than ten minutes ago or because the read failed now;
  or the built-in constant, and then no call on this connection has ever succeeded.
\<close>

theorem rent_value_provenance:
  fixes ks :: "'c rent_call list" and k :: "'c rent_call"
  defines "v \<equiv> fst (rent_step (rent_run ks) k)"
  shows "rc_resp k = Returns v
    \<or> (\<exists>j\<in>set ks. rc_conn j = rc_conn k \<and> rc_resp j = Returns v
          \<and> (rc_now k - rc_stored j < RENT_TTL_MS \<or> is_Throws (rc_resp k)))
    \<or> (v = NULLIFIER_RENT \<and> is_Throws (rc_resp k)
          \<and> (\<forall>j\<in>set ks. rc_conn j = rc_conn k \<longrightarrow> is_Throws (rc_resp j)))"
proof (cases "rent_run ks (rc_conn k)")
  case None
  then show ?thesis
    using rent_run_none [OF None]
    by (cases "rc_resp k") (auto simp: v_def rent_step_def getNullifierRent_def)
next
  case (Some e)
  obtain j where "j \<in> set ks" "rc_conn j = rc_conn k" "rc_resp j = Returns (rent_val e)"
      "rc_stored j = rent_at e"
    using rent_run_entry [OF Some] by auto
  moreover have "rc_resp k = Returns v
      \<or> v = rent_val e \<and> (rc_now k - rent_at e < RENT_TTL_MS \<or> is_Throws (rc_resp k))"
    using Some by (cases "rc_resp k") (simp_all add: v_def rent_step_def getNullifierRent_def)
  ultimately show ?thesis by metis
qed

lemma rent_value_provenance_witness:
  "(let k = \<lparr>rc_conn = 7 :: nat, rc_now = 5, rc_resp = Throws ''timeout'', rc_stored = 6\<rparr>;
      v = fst (rent_step (rent_run []) k) in v = NULLIFIER_RENT)"
  using rent_value_provenance [of "\<lparr>rc_conn = 7 :: nat, rc_now = 5, rc_resp = Throws ''timeout'', rc_stored = 6\<rparr>" "[]"]
  by (auto simp: Let_def)

subsection \<open>What is quoted and what is charged\<close>

lemma feeMaxFromCost_eq:
  "0 \<le> cost \<Longrightarrow> cost \<le> 3000000000000000 \<Longrightarrow> feeMaxFromCost cost = (3 * cost + 1) div 2"
proof -
  assume c: "0 \<le> cost" "cost \<le> 3000000000000000"
  define q where "q = (3 * cost + 1) div 2"
  have "3 * cost \<le> 2 * q" "2 * q < 3 * cost + 2" unfolding q_def by presburger+
  then have "(of_int (3 * cost) :: rat) \<le> of_int (2 * q)" "of_int (2 * q) < (of_int (3 * cost + 2) :: rat)"
    by (simp_all only: of_int_le_iff of_int_less_iff)
  then have "\<lceil>(of_int (3 * cost) :: rat) / 2\<rceil> = q" by (simp add: ceiling_eq_iff)
  moreover have "fl (of_int (3 * cost) / 2) = of_int (3 * cost) / 2" using c by (intro fl_half) simp
  moreover have "(of_int cost :: rat) * (3/2) = of_int (3 * cost) / 2" by simp
  ultimately show ?thesis by (simp only: feeMaxFromCost_def MARGIN_def q_def)
qed

lemma relayer_cost_eq:
  assumes "0 \<le> p" "p \<le> 45035996273" "0 \<le> r" "r \<le> SAFE_LAMPORTS"
  shows "relayer_cost p r = BASE_FEE + r + (p + 4) div 5"
proof -
  have "(p + 4) div 5 \<le> 9007199255" using assms by presburger
  moreover have "0 \<le> (p + 4) div 5" using assms by simp
  ultimately show ?thesis using assms
    by (simp add: relayer_cost_def priorityFeeLamports_eq fee_consts rnd_exact)
qed

text \<open>
  A micro-lamport price costs its exact ceiling in lamports (the factor of one million of H-3
  is there, and the double arithmetic never changes it) up to 45,035,996,273 micro-lamports per CU,
  and converting a budget to a price and back gives the budget itself, so what the price costs is
  what the plan charges.
\<close>

theorem priority_conversion_exact:
  "(\<forall>p. 0 \<le> p \<and> p \<le> 45035996273 \<longrightarrow> priorityFeeLamports p = \<lceil>(of_int (p * COMPUTE_UNITS) :: rat) / 1000000\<rceil>)
   \<and> (\<forall>l. 0 \<le> l \<and> l \<le> SAFE_LAMPORTS \<longrightarrow> priorityFeeLamports (priorityPerCUFromLamports l) = l)"
proof -
  have "\<lceil>(of_int (p * COMPUTE_UNITS) :: rat) / 1000000\<rceil> = (p + 4) div 5" for p
    using ceiling_fifth [of p] by (simp add: fee_consts)
  then show ?thesis by (simp add: priorityFeeLamports_eq priority_roundtrip)
qed

lemma priority_conversion_exact_witness:
  "priorityFeeLamports 1001 = 201 \<and> priorityFeeLamports (priorityPerCUFromLamports 37) = 37"
proof -
  have "priorityFeeLamports 1001 = \<lceil>(of_int (1001 * COMPUTE_UNITS) :: rat) / 1000000\<rceil>"
    using priority_conversion_exact by simp
  moreover have "priorityFeeLamports (priorityPerCUFromLamports 37) = 37"
    using priority_conversion_exact by simp
  ultimately show ?thesis using ceiling_fifth [of 1001] by (simp add: fee_consts)
qed

lemma planFee_charges:
  assumes "0 \<le> rent'" "BASE_FEE + rent' \<le> feeMax" "feeMax \<le> SAFE_LAMPORTS" "0 \<le> est"
  shows "actualFee (planFee feeMax rent' est) = BASE_FEE + rent' + priorityFeeLamports (appliedPriorityPerCU (planFee feeMax rent' est))"
    and "actualFee (planFee feeMax rent' est) \<le> feeMax" and "0 \<le> appliedPriorityPerCU (planFee feeMax rent' est)"
    and "subsidy (planFee feeMax rent' est) = 0"
proof -
  have b: "0 \<le> feeMax" "rent' \<le> SAFE_LAMPORTS" using assms by (simp_all add: fee_consts)
  define a where "a = min (priorityFeeLamports est) (max 0 (feeMax - (BASE_FEE + rent')))"
  note eq = planFee_eq [OF b(1) assms(3) assms(1) b(2) assms(4), folded a_def]
  have a: "0 \<le> a" "a \<le> SAFE_LAMPORTS" "BASE_FEE + rent' + a \<le> feeMax"
    using eq(5,6) assms by (auto simp: a_def min_def max_def)
  have "priorityFeeLamports (5 * a) = a"
    using priority_roundtrip [OF a(1,2)] a by (simp add: priorityPerCUFromLamports_eq)
  then show "actualFee (planFee feeMax rent' est) = BASE_FEE + rent' + priorityFeeLamports (appliedPriorityPerCU (planFee feeMax rent' est))"
    and "actualFee (planFee feeMax rent' est) \<le> feeMax" and "0 \<le> appliedPriorityPerCU (planFee feeMax rent' est)"
    and "subsidy (planFee feeMax rent' est) = 0"
    using a assms by (simp_all add: eq)
qed

text \<open>
  The plan never leaves the relayer out of pocket: for every ceiling at or above the two
  deterministic costs, and every congestion estimate whatsoever, the charge is exactly the
  signature fee plus the rent plus the lamports the attached compute-unit price costs, stays within
  the ceiling the proof binds, and nothing is subsidised.
\<close>

theorem planFee_never_loses:
  assumes "0 \<le> rent'" "BASE_FEE + rent' \<le> feeMax" "feeMax \<le> SAFE_LAMPORTS" "0 \<le> est"
  shows "let p = planFee feeMax rent' est in
      actualFee p = BASE_FEE + rent' + priorityFeeLamports (appliedPriorityPerCU p)
      \<and> actualFee p \<le> feeMax \<and> 0 \<le> appliedPriorityPerCU p \<and> subsidy p = 0"
  using planFee_charges [OF assms] by (simp add: Let_def)

lemma planFee_never_loses_witness:
  "let p = planFee 1100000 1056640 1000000 in
     actualFee p = BASE_FEE + 1056640 + priorityFeeLamports (appliedPriorityPerCU p)
     \<and> actualFee p \<le> 1100000 \<and> 0 \<le> appliedPriorityPerCU p \<and> subsidy p = 0"
  by (rule planFee_never_loses) (simp_all add: fee_consts)

text \<open>
  How the plan degrades: it is marked degraded exactly when the wanted priority exceeds what
  the ceiling leaves after the deterministic cost; undegraded it attaches the wanted priority in
  full, degraded it spends the whole ceiling and no more; and a ceiling below the deterministic
  cost shows up as a subsidy of exactly the difference, never hidden.
\<close>

theorem planFee_degrades:
  assumes "0 \<le> rent'" "rent' \<le> SAFE_LAMPORTS" "0 \<le> feeMax" "feeMax \<le> SAFE_LAMPORTS" "0 \<le> est"
  shows "let p = planFee feeMax rent' est; w = priorityFeeLamports est; room = feeMax - (BASE_FEE + rent') in
      (degraded p \<longleftrightarrow> max 0 room < w)
      \<and> (if degraded p then actualFee p = feeMax
         else if 0 \<le> room then priorityFeeLamports (appliedPriorityPerCU p) = w
         else appliedPriorityPerCU p = 0)
      \<and> subsidy p = max 0 (- room)"
proof -
  define a where "a = min (priorityFeeLamports est) (max 0 (feeMax - (BASE_FEE + rent')))"
  note eq = planFee_eq [OF assms(3,4,1,2,5), folded a_def]
  have w: "0 \<le> priorityFeeLamports est" using assms by (simp add: priorityFeeLamports_nonneg)
  have a: "0 \<le> a" "a \<le> SAFE_LAMPORTS" using eq(5,6) by (simp_all add: a_def)
  have r: "priorityFeeLamports (5 * a) = a"
    using priority_roundtrip [OF a] a by (simp add: priorityPerCUFromLamports_eq)
  have "max 0 (BASE_FEE + rent' - feeMax) = max 0 (- (feeMax - (BASE_FEE + rent')))" by simp
  then show ?thesis
    using w r by (auto simp: Let_def eq) (auto simp: a_def min_def max_def split: if_splits)
qed

lemma planFee_degrades_witness:
  "degraded (planFee 1100000 1056640 1000000) \<and> subsidy (planFee 0 1056640 0) = 1061640"
proof -
  have "priorityFeeLamports 1000000 = 200000" "priorityFeeLamports 0 = 0"
    by (simp_all add: priorityFeeLamports_eq)
  then show ?thesis
    using planFee_degrades [of 1056640 1100000 1000000] planFee_degrades [of 1056640 0 0]
    by (simp add: Let_def fee_consts)
qed

text \<open>
  The quoted ceiling covers the cost it was computed from with a margin of half, to the lamport:
  the smallest integer at or above one and a half times the cost, whatever the double arithmetic.
\<close>

theorem quote_covers_cost:
  assumes "0 \<le> p" "p \<le> 45035996273" "0 \<le> r" "r \<le> SAFE_LAMPORTS"
  shows "let cost = relayer_cost p r; q = feeMaxFromCost cost in
      cost = BASE_FEE + r + \<lceil>(of_int p :: rat) / 5\<rceil> \<and> cost \<le> q \<and> 3 * cost \<le> 2 * q \<and> 2 * q \<le> 3 * cost + 1"
proof -
  have "0 \<le> (p + 4) div 5" "(p + 4) div 5 \<le> 9007199255" using assms by presburger+
  then have "0 \<le> relayer_cost p r" "relayer_cost p r \<le> 3000000000000000"
    using assms by (simp_all add: relayer_cost_eq fee_consts)
  then have "feeMaxFromCost (relayer_cost p r) = (3 * relayer_cost p r + 1) div 2"
    by (rule feeMaxFromCost_eq)
  moreover have "c \<le> (3 * c + 1) div 2 \<and> 3 * c \<le> 2 * ((3 * c + 1) div 2)
      \<and> 2 * ((3 * c + 1) div 2) \<le> 3 * c + 1" if "0 \<le> c" for c :: int
    using that by presburger
  ultimately show ?thesis
    using assms \<open>0 \<le> relayer_cost p r\<close> by (simp only: Let_def ceiling_fifth relayer_cost_eq)
qed

lemma quote_covers_cost_witness:
  "let cost = relayer_cost 12810 1056640; q = feeMaxFromCost cost in
     cost = BASE_FEE + 1056640 + \<lceil>(of_int 12810 :: rat) / 5\<rceil> \<and> cost \<le> q \<and> 3 * cost \<le> 2 * q \<and> 2 * q \<le> 3 * cost + 1"
  by (rule quote_covers_cost) simp_all

end
