(* ===== verification/TxBuild.thy ===== *)
theory TxBuild
  imports JsText Fees
begin

text \<open>
  Building and submitting the withdraw transaction, relayer/src/tx.js, with the other printer of
  field elements to 32 bytes, \<open>fieldToBytes32\<close> of relayer/src/preflight.js. PDA derivation,
  the blockhash, sending and confirming are parameters (the record \<open>net\<close>); what the code
  computes before and after them is modelled: the bytes of the proof and of the public signals, the
  seeds, the instructions with or without a price, and the error a reverted transaction becomes.
\<close>

definition BN254_Fq :: int where
  "BN254_Fq = 21888242871839275222246405745257275088696311157297823662689037894645226208583"

definition BN254_Fr :: int where
  "BN254_Fr = 21888242871839275222246405745257275088548364400416034343698204186575808495617"

lemmas bn254_defs = BN254_Fq_def BN254_Fr_def

lemma BN254_less: "BN254_Fr < 2 ^ 256" "BN254_Fq < 2 ^ 256" "0 < BN254_Fr" "0 < BN254_Fq"
  by (simp_all add: bn254_defs)

subsection \<open>Integers to 32 bytes\<close>

text \<open>\<open>parseInt(s, 16)\<close>, with None for NaN, and the store of its value in a Buffer.\<close>

definition parse_int_hex :: "string \<Rightarrow> int option" where
  "parse_int_hex s =
     (let t = dropWhile is_space s;
          (neg, u) = (case t of [] \<Rightarrow> (False, [])
                      | c # v \<Rightarrow> if c = CHR ''-'' then (True, v) else if c = CHR ''+'' then (False, v) else (False, t));
          w = (if take 2 u = ''0x'' \<or> take 2 u = ''0X'' then drop 2 u else u);
          ds = takeWhile (digit_in 16) w
      in if ds = [] then None
         else Some (if neg then - int (digits_val 16 ds) else int (digits_val 16 ds)))"

definition to_uint8 :: "int option \<Rightarrow> byte" where
  "to_uint8 v = (case v of None \<Rightarrow> 0 | Some n \<Rightarrow> word_of_int n)"

definition bigIntToBytes32 :: "int \<Rightarrow> bytes" where
  "bigIntToBytes32 n =
     (let hex = padStart 64 (CHR ''0'') (big_to_string 16 n)
      in map (\<lambda>i. to_uint8 (parse_int_hex (subarray hex (i * 2) (i * 2 + 2)))) [0..<32])"

text \<open>\<open>Buffer.from(s, "hex")\<close>: pairs up to the first that is not two hex digits.\<close>

fun hex_buffer :: "string \<Rightarrow> bytes" where
  "hex_buffer (a # b # s) =
     (if digit_in 16 a \<and> digit_in 16 b then word_of_int (int (digits_val 16 [a, b])) # hex_buffer s else [])"
| "hex_buffer _ = []"

definition fieldToBytes32 :: "int \<Rightarrow> bytes" where
  "fieldToBytes32 n = hex_buffer (padStart 64 (CHR ''0'') (big_to_string 16 n))"

lemma parse_int_hex_digits:
  assumes "s \<noteq> []" "all_digits 16 s" "length s \<le> 2"
  shows "parse_int_hex s = Some (int (digits_val 16 s))"
proof -
  have d: "digit_in 16 c" if "c \<in> set s" for c
    using assms(2) that by (simp add: all_digits_def list_all_iff)
  obtain c v where s: "s = c # v" using assms(1) by (cases s) auto
  have "\<not> is_space c" "c \<noteq> CHR ''-''" "c \<noteq> CHR ''+''"
    using d [of c] by (auto simp: s digit_in_def digit_val_def is_space_def Let_def split: if_splits)
  moreover have "CHR ''x'' \<notin> set s" "CHR ''X'' \<notin> set s"
    using d [of "CHR ''x''"] d [of "CHR ''X''"] by (auto simp: digit_in_def digit_val_def)
  then have "take 2 s \<noteq> ''0x''" "take 2 s \<noteq> ''0X''"
    using in_set_takeD [of _ 2 s] by fastforce+
  moreover have "takeWhile (digit_in 16) s = s"
    using d by (simp add: takeWhile_eq_all_conv)
  ultimately show ?thesis using assms(1)
    unfolding parse_int_hex_def s by (simp only: Let_def dropWhile.simps list.case prod.case if_False) simp
qed

lemma word_of_int_mod_256: "(word_of_int v :: byte) = word_of_int (v mod 256)"
  by (simp add: word_of_int_eq_iff take_bit_eq_mod)

lemma hex_pair_val:
  "digit_in 16 a \<Longrightarrow> digit_in 16 b \<Longrightarrow> int (digits_val 16 [a, b]) < 256"
  using digits_val_bound [of 16 "[a, b]"] by (simp add: all_digits_def)

lemma hex_buffer_value:
  "length s = 2 * k \<Longrightarrow> all_digits 16 s \<Longrightarrow>
    length (hex_buffer s) = k \<and> be_int (hex_buffer s) = int (digits_val 16 s)"
proof (induction s arbitrary: k rule: hex_buffer.induct)
  case (1 a b s)
  then obtain j where k: "k = Suc j" by (cases k) auto
  have ab: "digit_in 16 a" "digit_in 16 b" and s: "length s = 2 * j" "all_digits 16 s"
    using 1 k by (simp_all add: all_digits_def)
  have IH: "length (hex_buffer s) = j" "be_int (hex_buffer s) = int (digits_val 16 s)"
    using 1 ab s by blast+
  have "digits_val 16 (a # b # s) = digits_val 16 [a, b] * 16 ^ (2 * j) + digits_val 16 s"
    using digits_val_append [of 16 "[a, b]" s] s by simp
  moreover have "(16 :: nat) ^ (2 * j) = 256 ^ j" by (simp add: power_mult)
  moreover have "uint (word_of_int (int (digits_val 16 [a, b])) :: byte) = int (digits_val 16 [a, b])"
    using hex_pair_val [OF ab] by (subst uint_word_of_int) simp
  ultimately show ?case
    using ab IH k by (simp add: be_int_Cons)
qed (auto simp: all_digits_def)

lemma hex_pairs:
  "length s = 2 * k \<Longrightarrow> all_digits 16 s \<Longrightarrow>
    map (\<lambda>i. to_uint8 (parse_int_hex (subarray s (i * 2) (i * 2 + 2)))) [0..<k] = hex_buffer s"
proof (induction s arbitrary: k rule: hex_buffer.induct)
  case (1 a b s)
  then obtain j where k: "k = Suc j" by (cases k) auto
  have ab: "digit_in 16 a" "digit_in 16 b" and s: "length s = 2 * j" "all_digits 16 s"
    using 1 k by (simp_all add: all_digits_def)
  have h: "to_uint8 (parse_int_hex [a, b]) = word_of_int (int (digits_val 16 [a, b]))"
    using ab by (simp add: parse_int_hex_digits all_digits_def to_uint8_def)
  have "map (\<lambda>i. to_uint8 (parse_int_hex (subarray (a # b # s) (i * 2) (i * 2 + 2)))) [0..<Suc j]
      = to_uint8 (parse_int_hex [a, b]) # map (\<lambda>i. to_uint8 (parse_int_hex (subarray s (i * 2) (i * 2 + 2)))) [0..<j]"
    unfolding map_upt_Suc by (simp add: subarray_def)
  then show ?case using 1 ab s k h by simp
qed (auto simp: all_digits_def)

lemma padded_hex:
  assumes "0 \<le> n" "n < 2 ^ 256"
  shows "length (padStart 64 (CHR ''0'') (big_to_string 16 n)) = 64"
    and "all_digits 16 (padStart 64 (CHR ''0'') (big_to_string 16 n))"
    and "digits_val 16 (padStart 64 (CHR ''0'') (big_to_string 16 n)) = nat n"
proof -
  have "nat n < 16 ^ Suc 63" using assms by (simp add: nat_less_iff)
  then have "length (to_digits 16 (nat n)) \<le> Suc 63" by (rule length_to_digits [rotated]) simp
  moreover have "all_digits 16 (to_digits 16 (nat n))" "digits_val 16 (to_digits 16 (nat n)) = nat n"
    using to_digits_val [of 16 "nat n"] by simp_all
  moreover have "digit_in 16 (CHR ''0'')" by code_simp
  ultimately show "length (padStart 64 (CHR ''0'') (big_to_string 16 n)) = 64"
    and "all_digits 16 (padStart 64 (CHR ''0'') (big_to_string 16 n))"
    and "digits_val 16 (padStart 64 (CHR ''0'') (big_to_string 16 n)) = nat n"
    using assms by (auto simp: padStart_def big_to_string_def all_digits_def digits_val_zeros list_all_iff)
qed

lemma fieldToBytes32_eq: "0 \<le> n \<Longrightarrow> n < 2 ^ 256 \<Longrightarrow> fieldToBytes32 n = be_bytes 32 n"
proof -
  assume n: "0 \<le> n" "n < 2 ^ 256"
  note p = padded_hex [OF n]
  have "length (fieldToBytes32 n) = 32 \<and> be_int (fieldToBytes32 n) = int (nat n)"
    using hex_buffer_value [of "padStart 64 (CHR ''0'') (big_to_string 16 n)" 32] p
    by (simp add: fieldToBytes32_def)
  then show ?thesis using be_bytes_be_int [of "fieldToBytes32 n"] n by simp
qed

lemma bigIntToBytes32_field: "0 \<le> n \<Longrightarrow> n < 2 ^ 256 \<Longrightarrow> bigIntToBytes32 n = fieldToBytes32 n"
  using hex_pairs [of "padStart 64 (CHR ''0'') (big_to_string 16 n)" 32] padded_hex [of n]
  by (simp add: bigIntToBytes32_def fieldToBytes32_def)

lemma bigIntToBytes32_eq: "0 \<le> n \<Longrightarrow> n < 2 ^ 256 \<Longrightarrow> bigIntToBytes32 n = be_bytes 32 n"
  by (simp add: bigIntToBytes32_field fieldToBytes32_eq)

lemma length_bigIntToBytes32 [simp]: "length (bigIntToBytes32 n) = 32"
  by (simp add: bigIntToBytes32_def Let_def)

interpretation bytes32: codec bigIntToBytes32 "\<lambda>bs. Some (be_int bs)" "\<lambda>n. 0 \<le> n \<and> n < 2 ^ 256"
  by unfold_locales (simp add: bigIntToBytes32_eq be_int_be_bytes)

subsection \<open>The proof as instruction bytes\<close>

text \<open>\<open>o[k]\<close> without optional chaining: a TypeError on null and undefined.\<close>

definition js_member :: "json \<Rightarrow> (json \<Rightarrow> json) \<Rightarrow> json js" where
  "js_member j get = (if j = JUndef \<or> j = JNull then Throws ''Cannot read properties'' else Returns (get j))"

definition proof_coord :: "json \<Rightarrow> string \<Rightarrow> nat \<Rightarrow> int js" where
  "proof_coord pf name i =
     js_bind (js_member pf (\<lambda>j. js_get j name)) (\<lambda>p.
     js_bind (js_member p (\<lambda>j. js_index j i)) json_bigint)"

definition proof_coord2 :: "json \<Rightarrow> string \<Rightarrow> nat \<Rightarrow> nat \<Rightarrow> int js" where
  "proof_coord2 pf name i k =
     js_bind (js_member pf (\<lambda>j. js_get j name)) (\<lambda>p.
     js_bind (js_member p (\<lambda>j. js_index j i)) (\<lambda>q.
     js_bind (js_member q (\<lambda>j. js_index j k)) json_bigint))"

record proof_bytes =
  proofA :: bytes
  proofB :: bytes
  proofC :: bytes

definition snarkjsProofToBytes :: "json \<Rightarrow> proof_bytes js" where
  "snarkjsProofToBytes pf =
     js_bind (proof_coord pf ''pi_a'' 0) (\<lambda>ax.
     js_bind (proof_coord pf ''pi_a'' 1) (\<lambda>ay.
     js_bind (proof_coord2 pf ''pi_b'' 0 1) (\<lambda>b01.
     js_bind (proof_coord2 pf ''pi_b'' 0 0) (\<lambda>b00.
     js_bind (proof_coord2 pf ''pi_b'' 1 1) (\<lambda>b11.
     js_bind (proof_coord2 pf ''pi_b'' 1 0) (\<lambda>b10.
     js_bind (proof_coord pf ''pi_c'' 0) (\<lambda>cx.
     js_bind (proof_coord pf ''pi_c'' 1) (\<lambda>cy.
     Returns \<lparr>proofA = bigIntToBytes32 ax @ bigIntToBytes32 (BN254_Fq - ay),
       proofB = bigIntToBytes32 b01 @ bigIntToBytes32 b00 @ bigIntToBytes32 b11 @ bigIntToBytes32 b10,
       proofC = bigIntToBytes32 cx @ bigIntToBytes32 cy\<rparr>))))))))"

subsection \<open>PDAs\<close>

definition ascii_bytes :: "string \<Rightarrow> bytes" where
  "ascii_bytes s = map of_char s"

text \<open>\<open>PublicKey.findProgramAddressSync(seeds, programId)\<close> is a parameter.\<close>

type_synonym pubkey = bytes
type_synonym find_pda = "bytes list \<Rightarrow> pubkey \<Rightarrow> pubkey js"

definition nullifier_seeds :: "pubkey \<Rightarrow> bytes \<Rightarrow> bytes list" where
  "nullifier_seeds poolPda nullifierHash = [ascii_bytes ''nullifier'', poolPda, nullifierHash]"

definition findNullifierPda :: "find_pda \<Rightarrow> pubkey \<Rightarrow> bytes \<Rightarrow> pubkey \<Rightarrow> pubkey js" where
  "findNullifierPda pda poolPda nullifierHash programId = pda (nullifier_seeds poolPda nullifierHash) programId"

definition findVaultPda :: "find_pda \<Rightarrow> pubkey \<Rightarrow> pubkey \<Rightarrow> pubkey js" where
  "findVaultPda pda poolPda programId = pda [ascii_bytes ''vault'', poolPda] programId"

subsection \<open>The transaction\<close>

record withdraw_args =
  wa_proof :: proof_bytes
  wa_nullifierHash :: bytes
  wa_root :: bytes
  wa_withdrawalCommitment :: bytes
  wa_relayerFeeMax :: int
  wa_relayerFeeTaken :: int

record withdraw_accounts =
  ac_pool :: pubkey
  ac_vault :: pubkey
  ac_nullifierPda :: pubkey
  ac_recipient :: pubkey
  ac_treasury :: pubkey
  ac_relayer :: pubkey

datatype budget_ix = SetComputeUnitLimit int | SetComputeUnitPrice int

record withdraw_tx =
  tx_payer :: pubkey
  tx_blockhash :: string
  tx_budget :: "budget_ix list"
  tx_args :: withdraw_args
  tx_accounts :: withdraw_accounts

text \<open>\<open>confirmation.value.err\<close>: the shapes the RPC documents for a failed transaction.\<close>

datatype chain_err = InstructionCustom nat int | InstructionOther nat string | TransactionErr string

record net =
  net_pda :: find_pda
  net_blockhash :: "(string \<times> int) js"
  net_send :: "withdraw_tx \<Rightarrow> string js"
  net_confirm :: "string \<Rightarrow> string \<Rightarrow> int \<Rightarrow> chain_err option js"

definition dq :: string where "dq = [char_of (34 :: nat)]"

definition chain_err_json :: "chain_err \<Rightarrow> string" where
  "chain_err_json e = (case e of
       InstructionCustom i c \<Rightarrow> ''{'' @ dq @ ''InstructionError'' @ dq @ '':['' @ to_digits 10 i @ '',{'' @ dq @ ''Custom'' @ dq
         @ '':'' @ big_to_string 10 c @ ''}]}''
     | InstructionOther i s \<Rightarrow> ''{'' @ dq @ ''InstructionError'' @ dq @ '':['' @ to_digits 10 i @ '','' @ dq @ s @ dq @ '']}''
     | TransactionErr s \<Rightarrow> dq @ s @ dq)"

definition revert_message :: "chain_err \<Rightarrow> string" where
  "revert_message e =
     (let hex = (case e of InstructionCustom i c \<Rightarrow> '' (custom error 0x'' @ big_to_string 16 c @ '')'' | _ \<Rightarrow> [])
      in ''Withdrawal reverted on-chain: '' @ chain_err_json e @ hex)"

definition budget_ixs :: "int \<Rightarrow> budget_ix list" where
  "budget_ixs priorityFeePerCU =
     SetComputeUnitLimit COMPUTE_UNITS # (if 0 < priorityFeePerCU then [SetComputeUnitPrice priorityFeePerCU] else [])"

text \<open>Everything up to the signed transaction; the signature by the relayer's key is implicit.\<close>

definition build_withdraw ::
  "net \<Rightarrow> pubkey \<Rightarrow> pubkey \<Rightarrow> pubkey \<Rightarrow> pubkey \<Rightarrow> pubkey \<Rightarrow> json \<Rightarrow> json \<Rightarrow> int \<Rightarrow> int \<Rightarrow> int \<Rightarrow> (withdraw_tx \<times> int) js" where
  "build_withdraw N relayer programId pool recipient treasury pf publicSignals feeMax feeTaken priorityFeePerCU =
     js_bind (json_bigint (js_index publicSignals 0)) (\<lambda>n.
     let nullifierHash = bigIntToBytes32 n in
     js_bind (findNullifierPda (net_pda N) pool nullifierHash programId) (\<lambda>nullifierPda.
     js_bind (findVaultPda (net_pda N) pool programId) (\<lambda>vaultPda.
     js_bind (snarkjsProofToBytes pf) (\<lambda>pb.
     js_bind (json_bigint (js_index publicSignals 1)) (\<lambda>root.
     js_bind (json_bigint (js_index publicSignals 2)) (\<lambda>wc.
     let args = \<lparr>wa_proof = pb, wa_nullifierHash = nullifierHash, wa_root = bigIntToBytes32 root,
           wa_withdrawalCommitment = bigIntToBytes32 wc, wa_relayerFeeMax = feeMax, wa_relayerFeeTaken = feeTaken\<rparr>;
         accounts = \<lparr>ac_pool = pool, ac_vault = vaultPda, ac_nullifierPda = nullifierPda, ac_recipient = recipient,
           ac_treasury = treasury, ac_relayer = relayer\<rparr>
     in js_bind (net_blockhash N) (\<lambda>(blockhash, lastValid).
        Returns (\<lparr>tx_payer = relayer, tx_blockhash = blockhash, tx_budget = budget_ixs priorityFeePerCU,
                  tx_args = args, tx_accounts = accounts\<rparr>, lastValid))))))))"

definition submitWithdraw ::
  "net \<Rightarrow> pubkey \<Rightarrow> pubkey \<Rightarrow> pubkey \<Rightarrow> pubkey \<Rightarrow> pubkey \<Rightarrow> json \<Rightarrow> json \<Rightarrow> int \<Rightarrow> int \<Rightarrow> int \<Rightarrow> string js" where
  "submitWithdraw N relayer programId pool recipient treasury pf publicSignals feeMax feeTaken priorityFeePerCU =
     js_bind (build_withdraw N relayer programId pool recipient treasury pf publicSignals feeMax feeTaken priorityFeePerCU)
       (\<lambda>(tx, lastValid).
     js_bind (net_send N tx) (\<lambda>signature.
     js_bind (net_confirm N signature (tx_blockhash tx) lastValid) (\<lambda>err.
       case err of None \<Rightarrow> Returns signature | Some e \<Rightarrow> Throws (revert_message e))))"

end
