(* ===== verification/PoolAccount.thy ===== *)
theory PoolAccount
  imports TxBuild
begin

text \<open>
  Reading a pool account, relayer/src/pool.js, and the root ring, \<open>readRootHistory\<close> of
  relayer/src/preflight.js. Account data are byte lists; an account lookup answers nothing, or the
  owner and the data.
\<close>

record account_info =
  acc_owner :: pubkey
  acc_data :: bytes
  acc_lamports :: int

definition POOL_DISCRIMINATOR :: bytes where
  "POOL_DISCRIMINATOR = [0xf1, 0x9a, 0x6d, 0x04, 0x11, 0xb1, 0x6d, 0xbc]"

definition POOL_ACCOUNT_LEN :: nat where "POOL_ACCOUNT_LEN = 8 + 8968"
definition OFF_DENOMINATION :: nat where "OFF_DENOMINATION = 8 + 64"
definition OFF_NEXT_INDEX :: nat where "OFF_NEXT_INDEX = 8 + 80"
definition OFF_TREASURY :: nat where "OFF_TREASURY = 8 + 88"
definition OFF_IS_PAUSED :: nat where "OFF_IS_PAUSED = 8 + 123"

lemmas pool_offsets = POOL_ACCOUNT_LEN_def OFF_DENOMINATION_def OFF_NEXT_INDEX_def OFF_TREASURY_def
  OFF_IS_PAUSED_def

record pool_view =
  pv_data :: bytes
  pv_denomination :: int
  pv_treasury :: pubkey
  pv_nextIndex :: int
  pv_isPaused :: bool

datatype pool_load = PoolRefused nat string | PoolLoaded pool_view

definition read_u64_js :: "bytes \<Rightarrow> nat \<Rightarrow> int js" where
  "read_u64_js buf off = (case read_u64_le buf off of
       Some v \<Rightarrow> Returns v
     | None \<Rightarrow> Throws ''The value of offset is out of range'')"

text \<open>\<open>buf[i] === k\<close>: false when the index is past the end.\<close>

definition byte_is :: "bytes \<Rightarrow> nat \<Rightarrow> byte \<Rightarrow> bool" where
  "byte_is buf i k = (i < length buf \<and> buf ! i = k)"

definition loadPool :: "account_info option js \<Rightarrow> pubkey \<Rightarrow> pool_load js" where
  "loadPool lookup programId =
     js_bind lookup (\<lambda>r. case r of
       None \<Rightarrow> Returns (PoolRefused 404 ''PoolNotFound'')
     | Some info \<Rightarrow>
         if acc_owner info \<noteq> programId then Returns (PoolRefused 400 ''NotAPool'')
         else if length (acc_data info) < POOL_ACCOUNT_LEN then Returns (PoolRefused 400 ''NotAPool'')
         else if subarray (acc_data info) 0 8 \<noteq> POOL_DISCRIMINATOR then Returns (PoolRefused 400 ''NotAPool'')
         else js_bind (read_u64_js (acc_data info) OFF_DENOMINATION) (\<lambda>d.
              js_bind (read_u64_js (acc_data info) OFF_NEXT_INDEX) (\<lambda>n.
              Returns (PoolLoaded
                \<lparr>pv_data = acc_data info, pv_denomination = d,
                 pv_treasury = subarray (acc_data info) OFF_TREASURY (OFF_TREASURY + 32),
                 pv_nextIndex = n, pv_isPaused = byte_is (acc_data info) OFF_IS_PAUSED 1\<rparr>))))"

text \<open>The predicate the rest of the relayer relies on: the account is a pool of this program.\<close>

definition is_pool :: "pubkey \<Rightarrow> account_info \<Rightarrow> bool" where
  "is_pool programId info \<longleftrightarrow>
     acc_owner info = programId \<and> POOL_ACCOUNT_LEN \<le> length (acc_data info)
     \<and> take 8 (acc_data info) = POOL_DISCRIMINATOR"

definition view_of :: "bytes \<Rightarrow> pool_view" where
  "view_of d =
     \<lparr>pv_data = d, pv_denomination = le_int (subarray d 72 80),
      pv_treasury = subarray d 96 128, pv_nextIndex = le_int (subarray d 88 96),
      pv_isPaused = (d ! 131 = 1)\<rparr>"

lemma read_u64_js_ok: "off + 8 \<le> length buf \<Longrightarrow> read_u64_js buf off = Returns (le_int (subarray buf off (off + 8)))"
  by (simp add: read_u64_js_def read_u64_le_def)

lemma loadPool_ok:
  "is_pool programId info \<Longrightarrow> loadPool (Returns (Some info)) programId = Returns (PoolLoaded (view_of (acc_data info)))"
  by (auto simp: loadPool_def is_pool_def subarray_def [of _ 0] pool_offsets read_u64_js_ok view_of_def byte_is_def)

lemma loadPool_loaded_iff:
  "loadPool (Returns (Some info)) programId = Returns (PoolLoaded v)
     \<longleftrightarrow> is_pool programId info \<and> v = view_of (acc_data info)"
proof (cases "is_pool programId info")
  case True
  then show ?thesis by (auto simp: loadPool_ok)
next
  case False
  then show ?thesis by (auto simp: loadPool_def is_pool_def subarray_def [of _ 0])
qed

text \<open>
  A pool is read only from an account this program owns, of full length, with the Pool
  discriminator; everything else is refused with its status before any offset is read; on such an
  account no read is out of range and a lookup that fails is the only way to throw.
\<close>

theorem loadPool_characterised:
  "loadPool (Throws e) programId = Throws e
   \<and> loadPool (Returns None) programId = Returns (PoolRefused 404 ''PoolNotFound'')
   \<and> loadPool (Returns (Some info)) programId =
       (if is_pool programId info then Returns (PoolLoaded (view_of (acc_data info)))
        else Returns (PoolRefused 400 ''NotAPool''))"
  by (auto simp: loadPool_ok) (auto simp: loadPool_def is_pool_def subarray_def [of _ 0])

subsection \<open>The root ring\<close>

definition ROOT_HISTORY_SIZE :: nat where "ROOT_HISTORY_SIZE = 256"
definition POOL_ROOT_HISTORY_OFFSET :: nat where "POOL_ROOT_HISTORY_OFFSET = 8 + 136"

text \<open>\<open>v = (v << 8n) | BigInt(data[start + j])\<close>; past the end BigInt(undefined) throws.\<close>

definition read_be_js :: "bytes \<Rightarrow> nat \<Rightarrow> nat \<Rightarrow> int js" where
  "read_be_js data start n =
     fold (\<lambda>j acc. js_bind acc (\<lambda>v. if start + j < length data then Returns (be_step v (data ! (start + j)))
                                  else Throws ''Cannot convert undefined to a BigInt''))
       [0..<n] (Returns 0)"

definition readRootHistory :: "bytes \<Rightarrow> int list js" where
  "readRootHistory poolData =
     fold (\<lambda>i acc. js_bind acc (\<lambda>roots.
         js_bind (read_be_js poolData (POOL_ROOT_HISTORY_OFFSET + i * 32) 32) (\<lambda>v. Returns (roots @ [v]))))
       [0..<ROOT_HISTORY_SIZE] (Returns [])"

definition ring_roots :: "bytes \<Rightarrow> int list" where
  "ring_roots d = map (\<lambda>i. be_int (subarray d (144 + i * 32) (144 + i * 32 + 32))) [0..<256]"

lemma read_be_js_eq:
  "start + n \<le> length data \<Longrightarrow> read_be_js data start n = Returns (be_int (subarray data start (start + n)))"
proof (induction n)
  case 0
  then show ?case by (simp add: read_be_js_def subarray_def)
next
  case (Suc n)
  have "subarray data start (start + Suc n) = subarray data start (start + n) @ [data ! (start + n)]"
    using Suc.prems by (simp add: subarray_def take_Suc_conv_app_nth)
  then have "be_int (subarray data start (start + Suc n))
      = be_step (be_int (subarray data start (start + n))) (data ! (start + n))"
    by (simp add: be_int_def)
  moreover have "read_be_js data start (Suc n)
      = js_bind (read_be_js data start n) (\<lambda>v. if start + n < length data then Returns (be_step v (data ! (start + n)))
                                  else Throws ''Cannot convert undefined to a BigInt'')"
    by (simp add: read_be_js_def)
  ultimately show ?case using Suc by simp
qed

lemma readRootHistory_long:
  assumes "8336 \<le> length d"
  shows "readRootHistory d = Returns (ring_roots d)"
proof -
  have "fold (\<lambda>i acc. js_bind acc (\<lambda>roots.
         js_bind (read_be_js d (POOL_ROOT_HISTORY_OFFSET + i * 32) 32) (\<lambda>v. Returns (roots @ [v]))))
       [0..<n] (Returns []) = Returns (map (\<lambda>i. be_int (subarray d (144 + i * 32) (144 + i * 32 + 32))) [0..<n])"
    if "n \<le> 256" for n
    using that
  proof (induction n)
    case (Suc n)
    have "144 + n * 32 + 32 \<le> length d"
      using Suc.prems assms by simp
    then show ?case using Suc
      by (simp add: POOL_ROOT_HISTORY_OFFSET_def read_be_js_eq)
  qed simp
  then show ?thesis by (simp add: readRootHistory_def ring_roots_def ROOT_HISTORY_SIZE_def)
qed

lemma readRootHistory_eq: "POOL_ACCOUNT_LEN \<le> length d \<Longrightarrow> readRootHistory d = Returns (ring_roots d)"
  by (rule readRootHistory_long) (simp add: POOL_ACCOUNT_LEN_def)

lemma length_ring_roots [simp]: "length (ring_roots d) = 256"
  by (simp add: ring_roots_def)

end
