(* ===== verification/Preflight.thy ===== *)
theory Preflight
  imports PoolAccount
begin

text \<open>
  The checks the relayer makes against on-chain state before it pays for a transaction,
  relayer/src/preflight.js. The Poseidon hash and the account lookup are parameters.
\<close>

text \<open>The two 16-byte halves, most significant byte first.\<close>

definition pubkey_halves :: "pubkey \<Rightarrow> int \<times> int" where
  "pubkey_halves b =
     (fold (\<lambda>i hi. be_step hi (b ! i)) [0..<16] 0, fold (\<lambda>i lo. be_step lo (b ! i)) [16..<32] 0)"

definition pubkeyToField :: "(int list \<Rightarrow> int) \<Rightarrow> pubkey \<Rightarrow> int" where
  "pubkeyToField poseidon k = (let (hi, lo) = pubkey_halves k in poseidon [hi, lo])"

datatype pf_result = PfOk | PfFail string

text \<open>
  The network part of the call is optional in the source (\<open>connection \<and> programId \<and>
  poolPubkey\<close>): without it the spent-note check is skipped.
\<close>

record chain =
  ch_pda :: find_pda
  ch_account :: "pubkey \<Rightarrow> account_info option js"

definition nullifier_lookup :: "chain \<Rightarrow> pubkey \<Rightarrow> pubkey \<Rightarrow> json \<Rightarrow> account_info option js" where
  "nullifier_lookup ch programId pool nullifierStr =
     js_bind (json_bigint nullifierStr) (\<lambda>n.
     js_bind (ch_pda ch (nullifier_seeds pool (fieldToBytes32 n)) programId) (\<lambda>pda.
     ch_account ch pda))"

definition spent_check :: "(chain \<times> pubkey \<times> pubkey) option \<Rightarrow> json \<Rightarrow> pf_result" where
  "spent_check network nullifierStr =
     (case network of
        None \<Rightarrow> PfOk
      | Some (ch, programId, pool) \<Rightarrow>
          (case nullifier_lookup ch programId pool nullifierStr of
             Throws _ \<Rightarrow> PfOk
           | Returns None \<Rightarrow> PfOk
           | Returns (Some a) \<Rightarrow> if 0 < length (acc_data a) then PfFail ''NullifierSpent'' else PfOk))"

definition preflight ::
  "(int list \<Rightarrow> int) \<Rightarrow> bytes \<Rightarrow> json \<Rightarrow> pubkey \<Rightarrow> pubkey \<Rightarrow> int \<Rightarrow> (chain \<times> pubkey \<times> pubkey) option \<Rightarrow> pf_result js" where
  "preflight poseidon poolData publicSignals relayer recipient feeMax network =
     js_bind (json_bigint (js_index publicSignals 1)) (\<lambda>rt.
     js_bind (readRootHistory poolData) (\<lambda>roots.
     if rt = 0 \<or> rt \<notin> set roots then Returns (PfFail ''StaleRoot'')
     else
       let expected = poseidon [pubkeyToField poseidon relayer, feeMax, pubkeyToField poseidon recipient] in
       js_bind (json_bigint (js_index publicSignals 2)) (\<lambda>wc.
       if expected \<noteq> wc then Returns (PfFail ''InvalidWithdrawalCommitment'')
       else Returns (spent_check network (js_index publicSignals 0)))))"

lemma fold_be_step: "k + n \<le> length b \<Longrightarrow> fold (\<lambda>i v. be_step v (b ! i)) [k..<k + n] 0 = be_int (subarray b k (k + n))"
proof (induction n)
  case 0
  then show ?case by (simp add: subarray_def)
next
  case (Suc n)
  have "subarray b k (k + Suc n) = subarray b k (k + n) @ [b ! (k + n)]"
    using Suc.prems by (simp add: subarray_def take_Suc_conv_app_nth)
  then have "be_int (subarray b k (k + Suc n)) = be_step (be_int (subarray b k (k + n))) (b ! (k + n))"
    by (simp add: be_int_def)
  then show ?case using Suc by simp
qed

lemma pubkey_halves_eq:
  "length b = 32 \<Longrightarrow> pubkey_halves b = (be_int (take 16 b), be_int (drop 16 b))"
  using fold_be_step [of 0 16 b] fold_be_step [of 16 16 b]
  by (simp add: pubkey_halves_def subarray_def)

lemma pubkey_halves_bound:
  assumes "length b = 32"
  shows "0 \<le> fst (pubkey_halves b)" "fst (pubkey_halves b) < 2 ^ 128"
    "0 \<le> snd (pubkey_halves b)" "snd (pubkey_halves b) < 2 ^ 128"
  using be_int_bound [of "take 16 b"] be_int_bound [of "drop 16 b"] assms
  by (simp_all add: pubkey_halves_eq)

text \<open>
  Splitting a public key into two 128-bit halves loses nothing and never leaves the scalar
  field: two 32-byte keys with the same halves are the same key, and both halves are below the
  field modulus, so a key cannot alias another modulo the field order.
\<close>

theorem pubkey_halves_injective:
  assumes "length a = 32" "length b = 32"
  shows "(pubkey_halves a = pubkey_halves b \<longleftrightarrow> a = b)
    \<and> 0 \<le> fst (pubkey_halves a) \<and> fst (pubkey_halves a) < BN254_Fr
    \<and> 0 \<le> snd (pubkey_halves a) \<and> snd (pubkey_halves a) < BN254_Fr"
proof -
  have "pubkey_halves a = pubkey_halves b \<longleftrightarrow> take 16 a = take 16 b \<and> drop 16 a = drop 16 b"
    using assms be_int_inj [of "take 16 a" "take 16 b"] be_int_inj [of "drop 16 a" "drop 16 b"]
    by (auto simp: pubkey_halves_eq)
  also have "\<dots> \<longleftrightarrow> a = b" by (metis append_take_drop_id)
  finally show ?thesis
    using pubkey_halves_bound [OF assms(1)] by (simp add: BN254_Fr_def)
qed

lemma pubkey_halves_injective_witness:
  "pubkey_halves (replicate 31 0 @ [7]) \<noteq> pubkey_halves (replicate 31 0 @ [8])"
  using pubkey_halves_injective [of "replicate 31 0 @ [7]" "replicate 31 0 @ [8]"] by simp

subsection \<open>What preflight accepts\<close>

lemma preflight_ok_iff:
  assumes "POOL_ACCOUNT_LEN \<le> length d"
  shows "preflight H d ps relayer recipient feeMax network = Returns PfOk \<longleftrightarrow>
    (\<exists>rt. json_bigint (js_index ps 1) = Returns rt \<and> rt \<noteq> 0 \<and> rt \<in> set (ring_roots d))
    \<and> json_bigint (js_index ps 2) = Returns (H [pubkeyToField H relayer, feeMax, pubkeyToField H recipient])
    \<and> spent_check network (js_index ps 0) = PfOk"
  using assms
  by (cases "json_bigint (js_index ps 1)"; cases "json_bigint (js_index ps 2)")
     (auto simp: preflight_def readRootHistory_eq Let_def)

lemma spent_check_seed:
  assumes "json_bigint j = Returns n" "0 \<le> n" "n < BN254_Fr"
    and "ch_pda ch (nullifier_seeds pool (bigIntToBytes32 n)) programId = Returns pda"
  shows "spent_check (Some (ch, programId, pool)) j = PfOk \<longleftrightarrow>
    (\<forall>a. ch_account ch pda = Returns (Some a) \<longrightarrow> acc_data a = [])"
proof -
  have "fieldToBytes32 n = bigIntToBytes32 n"
    using assms BN254_less(1) by (simp add: bigIntToBytes32_field)
  then have "nullifier_lookup ch programId pool j = ch_account ch pda"
    using assms by (simp add: nullifier_lookup_def)
  then show ?thesis
    by (auto simp: spent_check_def split: js.splits option.splits)
qed

text \<open>
  Preflight passes a submission exactly when its root is a non-zero entry of the pool's ring,
  its commitment is the hash of this relayer, this ceiling and this recipient, and the account at
  the very PDA the transaction will create does not already hold data. The order is observable
  only in the error: a stale root is reported before a wrong commitment, and both before a spent
  note; a lookup that fails lets the submission through.
\<close>

theorem preflight_characterised:
  fixes H :: "int list \<Rightarrow> int" and relayer recipient pool programId pda :: pubkey
    and feeMax rt wc n :: int and ch :: chain and d :: bytes and ps :: json
  assumes "POOL_ACCOUNT_LEN \<le> length d"
    and "json_bigint (js_index ps 0) = Returns n" "0 \<le> n" "n < BN254_Fr"
    and "json_bigint (js_index ps 1) = Returns rt" "json_bigint (js_index ps 2) = Returns wc"
    and "ch_pda ch (nullifier_seeds pool (bigIntToBytes32 n)) programId = Returns pda"
  defines "in_ring \<equiv> rt \<noteq> 0 \<and> rt \<in> set (ring_roots d)"
    and "bound \<equiv> wc = H [pubkeyToField H relayer, feeMax, pubkeyToField H recipient]"
    and "spent \<equiv> \<exists>a. ch_account ch pda = Returns (Some a) \<and> acc_data a \<noteq> []"
  shows "preflight H d ps relayer recipient feeMax (Some (ch, programId, pool)) =
    Returns (if \<not> in_ring then PfFail ''StaleRoot''
             else if \<not> bound then PfFail ''InvalidWithdrawalCommitment''
             else if spent then PfFail ''NullifierSpent'' else PfOk)"
proof -
  have s: "spent_check (Some (ch, programId, pool)) (js_index ps 0) = (if spent then PfFail ''NullifierSpent'' else PfOk)"
    using spent_check_seed [OF assms(2-4) assms(7)]
    by (auto simp: spent_def) (auto simp: spent_check_def split: option.splits js.splits if_splits)
  show ?thesis
    using assms(1,5,6) by (auto simp: preflight_def readRootHistory_eq s in_ring_def bound_def)
qed

lemma ring_roots_mem: "i < 256 \<Longrightarrow> be_int (subarray d (144 + i * 32) (144 + i * 32 + 32)) \<in> set (ring_roots d)"
  by (simp add: ring_roots_def)

text \<open>
  A pool account of denomination 1,000,000,000 whose ring holds the root 7 in its first slot, used by
  the witnesses.
\<close>

definition example_pool_data :: bytes where
  "example_pool_data = POOL_DISCRIMINATOR @ replicate 64 0 @ [0, 0xca, 0x9a, 0x3b] @ replicate 99 0 @ [7] @ replicate 8800 0"

lemma example_pool_data_split:
  "example_pool_data = (POOL_DISCRIMINATOR @ replicate 64 0) @ [0, 0xca, 0x9a, 0x3b] @ replicate 99 0 @ [7] @ replicate 8800 0"
  "example_pool_data = (POOL_DISCRIMINATOR @ replicate 64 0 @ [0, 0xca, 0x9a, 0x3b] @ replicate 68 0)
     @ (replicate 31 0 @ [7]) @ replicate 8800 0"
  by (simp_all add: example_pool_data_def replicate_add [of 68 31 "0 :: byte", simplified])

lemma example_pool_data_props:
  "length example_pool_data = POOL_ACCOUNT_LEN" "7 \<in> set (ring_roots example_pool_data)"
  "take 8 example_pool_data = POOL_DISCRIMINATOR" "le_int (subarray example_pool_data 72 80) = 1000000000"
proof -
  show "length example_pool_data = POOL_ACCOUNT_LEN" "take 8 example_pool_data = POOL_DISCRIMINATOR"
    by (simp_all add: example_pool_data_def POOL_DISCRIMINATOR_def POOL_ACCOUNT_LEN_def)
  have "subarray example_pool_data 72 (72 + 8) = [0, 0xca, 0x9a, 0x3b] @ replicate 4 0"
    unfolding example_pool_data_split(1) by (subst subarray_append_left) (simp_all add: POOL_DISCRIMINATOR_def)
  moreover have "replicate 4 (0 :: byte) = [0, 0, 0, 0]" by (simp add: numeral_eq_Suc)
  ultimately show "le_int (subarray example_pool_data 72 80) = 1000000000"
    by (simp add: le_int_def be_int_Cons)
  have "subarray example_pool_data 144 (144 + 32) = replicate 31 0 @ [7]"
    unfolding example_pool_data_split(2) by (subst subarray_append_left) (simp_all add: POOL_DISCRIMINATOR_def)
  moreover have "be_int (replicate k 0 @ [7]) = 7" for k
    by (induction k) (simp_all add: be_int_Cons)
  ultimately show "7 \<in> set (ring_roots example_pool_data)"
    using ring_roots_mem [of 0 example_pool_data] by simp
qed

lemma preflight_characterised_witness:
  "preflight (\<lambda>xs. 42) example_pool_data (JArr [JStr ''5'', JStr ''7'', JStr ''42'']) [] [] 0
     (Some (\<lparr>ch_pda = \<lambda>seeds k. Returns k, ch_account = \<lambda>k. Returns None\<rparr>, [], [])) = Returns PfOk"
proof -
  have j: "json_bigint (JStr ''5'') = Returns 5" "json_bigint (JStr ''7'') = Returns 7"
    "json_bigint (JStr ''42'') = Returns 42" by code_simp+
  show ?thesis
    using j example_pool_data_props
    by (subst preflight_characterised [where n = 5 and rt = 7 and wc = 42 and pda = "[]"])
       (simp_all add: js_index_def BN254_Fr_def)
qed


end
