(* ===== verification/RateLimit.thy ===== *)
theory RateLimit
  imports TxBuild
begin

text \<open>
  How clients and notes are counted, relayer/src/ratelimit.js. The address grammar of
  \<open>node:net\<close>'s \<open>isIP\<close> is written out (\<open>is_ipv4\<close>, \<open>is_ipv6\<close>).
\<close>

subsection \<open>The note key\<close>

definition invalid_key :: string where "invalid_key = ''invalid''"

definition nullifierKey :: "json \<Rightarrow> string" where
  "nullifierKey value =
     (case value of
        JStr s \<Rightarrow>
          if length s = 0 \<or> 80 < length s then invalid_key
          else (case string_to_bigint s of
                  None \<Rightarrow> invalid_key
                | Some n \<Rightarrow> if 0 \<le> n \<and> n < BN254_Fr then big_to_string 10 n else invalid_key)
      | _ \<Rightarrow> invalid_key)"

lemma decimal_not_invalid: "0 \<le> n \<Longrightarrow> big_to_string 10 n \<noteq> invalid_key"
proof
  assume "0 \<le> n" "big_to_string 10 n = invalid_key"
  then have "to_digits 10 (nat n) = invalid_key" by (simp add: big_to_string_def)
  then have "CHR ''i'' \<in> set (to_digits 10 (nat n))" by (simp add: invalid_key_def)
  then have "digit_in 10 (CHR ''i'')" by (rule to_digits_chars [rotated 2]) simp_all
  then show False by (simp add: digit_in_def digit_val_def)
qed

lemma nullifierKey_valid:
  "nullifierKey v \<noteq> invalid_key \<longleftrightarrow>
    (\<exists>s n. v = JStr s \<and> 0 < length s \<and> length s \<le> 80 \<and> string_to_bigint s = Some n
       \<and> 0 \<le> n \<and> n < BN254_Fr \<and> nullifierKey v = big_to_string 10 n)"
  using decimal_not_invalid by (cases v) (auto simp: nullifierKey_def split: option.splits)

text \<open>
  The note key identifies the field element and nothing else: two strings that are both field
  elements get the same key exactly when BigInt reads the same number, however they are spelled
  (decimal, with leading zeros, hex, padded with spaces), and reading the key back gives that number.
\<close>

theorem nullifierKey_canonical:
  assumes "nullifierKey (JStr s) \<noteq> invalid_key" "nullifierKey (JStr t) \<noteq> invalid_key"
  shows "(nullifierKey (JStr s) = nullifierKey (JStr t) \<longleftrightarrow> string_to_bigint s = string_to_bigint t)
    \<and> string_to_bigint (nullifierKey (JStr s)) = string_to_bigint s"
proof -
  obtain m where m: "string_to_bigint s = Some m" "nullifierKey (JStr s) = big_to_string 10 m"
    using assms(1) nullifierKey_valid [of "JStr s"] by auto
  obtain n where n: "string_to_bigint t = Some n" "nullifierKey (JStr t) = big_to_string 10 n"
    using assms(2) nullifierKey_valid [of "JStr t"] by auto
  show ?thesis by (simp add: m n decimal.enc_inj)
qed

lemma nullifierKey_canonical_witness:
  "nullifierKey (JStr ''0x5'') = nullifierKey (JStr '' 05'')"
proof -
  have k: "nullifierKey (JStr ''0x5'') \<noteq> invalid_key" "nullifierKey (JStr '' 05'') \<noteq> invalid_key"
    by code_simp+
  have "string_to_bigint ''0x5'' = string_to_bigint '' 05''" by code_simp
  with nullifierKey_canonical [OF k] show ?thesis by blast
qed

subsection \<open>IP addresses\<close>

definition is_dec_octet :: "string \<Rightarrow> bool" where
  "is_dec_octet w \<longleftrightarrow> w \<noteq> [] \<and> length w \<le> 3 \<and> all_digits 10 w
     \<and> (length w = 1 \<or> hd w \<noteq> CHR ''0'') \<and> digits_val 10 w \<le> 255"

definition is_ipv4 :: "string \<Rightarrow> bool" where
  "is_ipv4 s = (let ws = split_on (CHR ''.'') s in length ws = 4 \<and> list_all is_dec_octet ws)"

definition is_hex_group :: "string \<Rightarrow> bool" where
  "is_hex_group w \<longleftrightarrow> w \<noteq> [] \<and> length w \<le> 4 \<and> all_digits 16 w"

text \<open>The number of 16-bit groups a colon-separated list stands for; the last may be an IPv4 tail.\<close>

definition group_count :: "bool \<Rightarrow> string list \<Rightarrow> nat option" where
  "group_count tail_ok ws =
     (if list_all is_hex_group ws then Some (length ws)
      else if tail_ok \<and> ws \<noteq> [] \<and> list_all is_hex_group (butlast ws) \<and> is_ipv4 (last ws)
        then Some (length ws + 1) else None)"

text \<open>\<open>s.split("::")\<close>.\<close>

fun split_dc :: "string \<Rightarrow> string list" where
  "split_dc [] = [[]]"
| "split_dc [c] = [[c]]"
| "split_dc (c # d # s) =
     (if c = CHR '':'' \<and> d = CHR '':'' then [] # split_dc s
      else (case split_dc (d # s) of [] \<Rightarrow> [[c]] | w # ws \<Rightarrow> (c # w) # ws))"

definition colon_groups :: "string \<Rightarrow> string list" where
  "colon_groups s = (if s = [] then [] else split_on (CHR '':'') s)"

definition zone_char :: "char \<Rightarrow> bool" where
  "zone_char c \<longleftrightarrow> digit_in 36 c \<or> c \<in> set ''-.:''"

definition before_zone :: "string \<Rightarrow> string" where
  "before_zone s = takeWhile (\<lambda>c. c \<noteq> CHR ''%'') s"

definition is_ipv6 :: "string \<Rightarrow> bool" where
  "is_ipv6 s =
     (let body = before_zone s; rest = drop (length body) s
      in (rest = [] \<or> (1 < length rest \<and> list_all zone_char (tl rest)))
         \<and> (case split_dc body of
              [w] \<Rightarrow> group_count True (split_on (CHR '':'') w) = Some 8
            | [l, r] \<Rightarrow>
                (case (group_count False (colon_groups l), group_count True (colon_groups r)) of
                   (Some a, Some b) \<Rightarrow> a + b \<le> 7 | _ \<Rightarrow> False)
            | _ \<Rightarrow> False))"

definition isIP :: "string \<Rightarrow> nat" where
  "isIP s = (if is_ipv4 s then 4 else if is_ipv6 s then 6 else 0)"

subsection \<open>Groups\<close>

definition to_lower :: "char \<Rightarrow> char" where
  "to_lower c = (let n = (of_char c :: nat) in if 65 \<le> n \<and> n \<le> 90 then char_of (n + 32) else c)"

text \<open>
  The dotted tail: in an address that \<open>isIP\<close> accepts, the match of the source's regular
  expression is exactly the last colon-separated part, and only when that part has a dot.
\<close>

definition replace_v4_tail :: "string \<Rightarrow> string" where
  "replace_v4_tail s =
     (let ws = split_on (CHR '':'') s; w = last ws; ns = map (digits_val 10) (split_on (CHR ''.'') w)
      in if CHR ''.'' \<in> set w \<and> length ns = 4
         then take (length s - length w) s
              @ to_digits 16 (ns ! 0 * 256 + ns ! 1) @ '':'' @ to_digits 16 (ns ! 2 * 256 + ns ! 3)
         else s)"

definition group_val :: "string \<Rightarrow> nat" where
  "group_val g = digits_val 16 (if g = [] then ''0'' else g)"

definition ipv6Groups :: "string \<Rightarrow> nat list option" where
  "ipv6Groups ip =
     (if isIP ip \<noteq> 6 then None
      else let s = replace_v4_tail (before_zone (map to_lower ip));
               parts = split_dc s;
               h = colon_groups (hd parts);
               t = (if tl parts = [] then [] else colon_groups (hd (tl parts)));
               fill = (if str_includes s ''::'' then 8 - length h - length t else 0);
               groups = map group_val (h @ replicate fill ''0'' @ t)
           in if length groups = 8 \<and> list_all (\<lambda>g. g \<le> 0xffff) groups then Some groups else None)"

definition hex4 :: "nat \<Rightarrow> string" where
  "hex4 n = padStart 4 (CHR ''0'') (to_digits 16 n)"

definition is_mapped :: "nat list \<Rightarrow> bool" where
  "is_mapped g \<longleftrightarrow> g ! 0 = 0 \<and> g ! 1 = 0 \<and> g ! 2 = 0 \<and> g ! 3 = 0 \<and> g ! 4 = 0 \<and> g ! 5 = 0xffff"

definition dotted :: "nat list \<Rightarrow> string" where
  "dotted g = to_digits 10 (drop_bit 8 (g ! 6)) @ ''.'' @ to_digits 10 (g ! 6 AND 0xff) @ ''.''
     @ to_digits 10 (drop_bit 8 (g ! 7)) @ ''.'' @ to_digits 10 (g ! 7 AND 0xff)"

definition rateLimitKey :: "string option \<Rightarrow> string" where
  "rateLimitKey ip =
     (let raw = (case ip of None \<Rightarrow> [] | Some s \<Rightarrow> s)
      in if isIP raw = 4 then raw
         else (case ipv6Groups raw of
             None \<Rightarrow> ''raw:'' @ raw
           | Some g \<Rightarrow>
               if is_mapped g then dotted g
               else ''v6:'' @ hex4 (g ! 0) @ '':'' @ hex4 (g ! 1) @ '':'' @ hex4 (g ! 2) @ '':''
                    @ hex4 (g ! 3 AND 0xff00) @ ''::/56''))"

subsection \<open>Properties of the address key\<close>

lemma ipv6Groups_ok:
  "ipv6Groups ip = Some g \<Longrightarrow> length g = 8 \<and> (\<forall>x\<in>set g. x \<le> 0xffff) \<and> isIP ip = 6"
  by (auto simp: ipv6Groups_def Let_def list_all_iff split: if_splits)

lemma ipv6_group_bound: "ipv6Groups ip = Some g \<Longrightarrow> i < 8 \<Longrightarrow> g ! i \<le> 0xffff"
  using ipv6Groups_ok [of ip g] by auto

lemma hex4_val [simp]: "digits_val 16 (hex4 n) = n"
  by (simp add: hex4_def padStart_def digits_val_zeros to_digits_val)

lemma hex4_length: "n \<le> 0xffff \<Longrightarrow> length (hex4 n) = 4"
  using length_to_digits [of 16 n 3] by (simp add: hex4_def padStart_def)

lemma hex4_inj: "hex4 m = hex4 n \<longleftrightarrow> m = n"
  by (metis hex4_val)

lemma high_byte: "n \<le> 0xffff \<Longrightarrow> n AND 0xff00 = (n div 256) * 256" for n :: nat
proof -
  assume n: "n \<le> 0xffff"
  have "n AND 0xff00 = n AND push_bit 8 (mask 8)" by (simp add: mask_eq_exp_minus_1 push_bit_eq_mult)
  also have "\<dots> = push_bit 8 (take_bit 8 (drop_bit 8 n))"
    by (rule bit_eqI) (auto simp: bit_simps)
  also have "take_bit 8 (drop_bit 8 n) = drop_bit 8 n"
    using n by (simp add: take_bit_nat_eq_self_iff drop_bit_eq_div)
  finally show ?thesis by (simp add: push_bit_eq_mult drop_bit_eq_div)
qed

lemma high_byte_eq: "a \<le> 0xffff \<Longrightarrow> b \<le> 0xffff \<Longrightarrow> a AND 0xff00 = b AND 0xff00 \<longleftrightarrow> a div 256 = b div 256"
  for a b :: nat
  by (simp add: high_byte)

text \<open>The top 56 bits of an address.\<close>

definition prefix56 :: "nat list \<Rightarrow> nat list" where
  "prefix56 g = [g ! 0, g ! 1, g ! 2, g ! 3 div 256]"

lemma rateLimitKey_v6:
  "ipv6Groups ip = Some g \<Longrightarrow> \<not> is_mapped g \<Longrightarrow>
    rateLimitKey (Some ip) = ''v6:'' @ hex4 (g ! 0) @ '':'' @ hex4 (g ! 1) @ '':'' @ hex4 (g ! 2) @ '':''
        @ hex4 (g ! 3 AND 0xff00) @ ''::/56''"
  using ipv6Groups_ok [of ip g] by (simp add: rateLimitKey_def Let_def)

text \<open>
  IPv6 clients are counted per /56: two IPv6 addresses, in whatever spelling (compressed,
  upper case, with a zone, with a dotted tail), share a bucket exactly when their top 56 bits
  agree, so rotating through the low 72 bits never gives a fresh one.
\<close>

theorem rateLimitKey_per_56:
  assumes "ipv6Groups a = Some g" "ipv6Groups b = Some h" "\<not> is_mapped g" "\<not> is_mapped h"
  shows "rateLimitKey (Some a) = rateLimitKey (Some b) \<longleftrightarrow> prefix56 g = prefix56 h"
proof -
  have len: "length (hex4 (x ! i)) = 4" if "x = g \<or> x = h" "i < 8" for x i
    using that ipv6_group_bound [OF assms(1)] ipv6_group_bound [OF assms(2)] by (auto intro: hex4_length)
  have "rateLimitKey (Some a) = rateLimitKey (Some b) \<longleftrightarrow>
      g ! 0 = h ! 0 \<and> g ! 1 = h ! 1 \<and> g ! 2 = h ! 2 \<and> g ! 3 AND 0xff00 = h ! 3 AND 0xff00"
    using assms len by (simp add: rateLimitKey_v6 hex4_inj)
  also have "\<dots> \<longleftrightarrow> prefix56 g = prefix56 h"
    using ipv6_group_bound [OF assms(1), of 3] ipv6_group_bound [OF assms(2), of 3]
    by (simp add: prefix56_def high_byte_eq)
  finally show ?thesis .
qed

lemma ipv6_example_groups:
  "ipv6Groups ''2001:db8:0:1200::1'' = Some [0x2001, 0xdb8, 0, 0x1200, 0, 0, 0, 1]"
  "ipv6Groups ''2001:DB8:0:12ff:a::'' = Some [0x2001, 0xdb8, 0, 0x12ff, 0xa, 0, 0, 0]"
  by code_simp+

lemma rateLimitKey_per_56_witness:
  "rateLimitKey (Some ''2001:db8:0:1200::1'') = rateLimitKey (Some ''2001:DB8:0:12ff:a::'')"
  using rateLimitKey_per_56 [OF ipv6_example_groups] by (simp add: is_mapped_def prefix56_def)

lemma is_dec_octet_digits: "n \<le> 255 \<Longrightarrow> is_dec_octet (to_digits 10 n)"
  using to_digits_val [of 10 n] length_to_digits [of 10 n 2] to_digits_head [of 10 n]
  by (simp add: is_dec_octet_def)

lemma no_dot_in_digits: "CHR ''.'' \<notin> set (to_digits 10 n)"
proof
  assume "CHR ''.'' \<in> set (to_digits 10 n)"
  then have "digit_in 10 (CHR ''.'')" by (rule to_digits_chars [rotated 2]) simp_all
  then show False by (simp add: digit_in_def digit_val_def)
qed

lemma is_ipv4_dotted: "g ! 6 \<le> 0xffff \<Longrightarrow> g ! 7 \<le> 0xffff \<Longrightarrow> is_ipv4 (dotted g)"
proof -
  assume g: "g ! 6 \<le> 0xffff" "g ! 7 \<le> 0xffff"
  have lo: "x AND 0xff \<le> 255" for x :: nat
    using take_bit_nat_less_exp [of 8 x] by (simp add: take_bit_eq_mask mask_eq_exp_minus_1)
  have "drop_bit 8 (g ! 6) \<le> 255" "drop_bit 8 (g ! 7) \<le> 255"
    using g by (simp_all add: drop_bit_eq_div)
  then show ?thesis using lo
    by (simp add: is_ipv4_def dotted_def split_on_sep split_on_other no_dot_in_digits is_dec_octet_digits)
qed

text \<open>
  A dual-stack spelling cannot buy an IPv4 client a second bucket: an IPv4-mapped IPv6 address
  is counted under the dotted address it wraps, which is itself an IPv4 address counted as itself;
  and an IPv6 bucket never coincides with the bucket of an unparseable or an IPv4 address.
\<close>

theorem rateLimitKey_mapped:
  assumes "ipv6Groups a = Some g"
  shows "if is_mapped g
    then rateLimitKey (Some a) = dotted g \<and> is_ipv4 (dotted g) \<and> rateLimitKey (Some (dotted g)) = dotted g
    else take 3 (rateLimitKey (Some a)) = ''v6:'' \<and> \<not> is_ipv4 (rateLimitKey (Some a))"
proof (cases "is_mapped g")
  case True
  have i: "is_ipv4 (dotted g)" using ipv6_group_bound [OF assms] by (simp add: is_ipv4_dotted)
  then have "rateLimitKey (Some (dotted g)) = dotted g" by (simp add: rateLimitKey_def isIP_def)
  moreover have "rateLimitKey (Some a) = dotted g"
    using True assms ipv6Groups_ok [OF assms] by (simp add: rateLimitKey_def Let_def)
  ultimately show ?thesis using True i by simp
next
  case False
  note key = rateLimitKey_v6 [OF assms False]
  have "\<not> is_ipv4 (''v6:'' @ s)" for s
  proof
    assume "is_ipv4 (''v6:'' @ s)"
    then have "is_dec_octet (hd (split_on (CHR ''.'') (''v6:'' @ s)))"
      by (cases "split_on (CHR ''.'') (''v6:'' @ s)") (simp_all add: is_ipv4_def Let_def)
    moreover obtain w ws where "split_on (CHR ''.'') s = w # ws"
      by (cases s; cases "split_on (CHR ''.'') s") (auto split: list.splits if_splits)
    ultimately show False by (simp add: is_dec_octet_def all_digits_def digit_in_def digit_val_def)
  qed
  then show ?thesis using False by (simp add: key)
qed

lemma rateLimitKey_mapped_witness:
  "rateLimitKey (Some ''::ffff:1.2.3.4'') = ''1.2.3.4''"
proof -
  have g: "ipv6Groups ''::ffff:1.2.3.4'' = Some [0, 0, 0, 0, 0, 0xffff, 0x102, 0x304]" by code_simp
  have "dotted [0, 0, 0, 0, 0, 0xffff, 0x102, 0x304] = ''1.2.3.4''" by code_simp
  with rateLimitKey_mapped [OF g] show ?thesis by (simp add: is_mapped_def)
qed

end
