(* ===== verification/SubmitProof.thy ===== *)
theory SubmitProof
  imports Preflight RateLimit
begin

text \<open>
  The two money-handling routes of the relayer, relayer/src/api.js: \<open>handleSubmit\<close> of
  POST /submit_proof and GET /fee_quote. A route either replies early, raises (and the handler's
  catch classifies the message) or goes on. Everything outside the process is a field of the
  record \<open>env\<close>: parsing of addresses, account lookups, the fee and rent RPCs, the balance,
  the hash, the proof verifier and the network of \<open>TxBuild\<close>.
\<close>

datatype response = RespErr nat string | RespOk string int

datatype 'a route = Reply response | Raise string | Go 'a

definition route_bind :: "'a route \<Rightarrow> ('a \<Rightarrow> 'b route) \<Rightarrow> 'b route" where
  "route_bind m f = (case m of Reply r \<Rightarrow> Reply r | Raise e \<Rightarrow> Raise e | Go x \<Rightarrow> f x)"

definition awaiting :: "'a js \<Rightarrow> 'a route" where
  "awaiting m = (case m of Throws e \<Rightarrow> Raise e | Returns x \<Rightarrow> Go x)"

definition refuse_if :: "bool \<Rightarrow> nat \<Rightarrow> string \<Rightarrow> unit route" where
  "refuse_if b status err = (if b then Reply (RespErr status err) else Go ())"

lemma route_bind_Go: "route_bind m f = Go y \<longleftrightarrow> (\<exists>x. m = Go x \<and> f x = Go y)"
  by (cases m) (simp_all add: route_bind_def)

lemma refuse_if_Go: "refuse_if b s e = Go u \<longleftrightarrow> \<not> b"
  by (simp add: refuse_if_def)

lemma awaiting_Go: "awaiting m = Go x \<longleftrightarrow> m = Returns x"
  by (cases m) (simp_all add: awaiting_def)

lemmas route_simps = route_bind_Go refuse_if_Go awaiting_Go

record env =
  env_pubkey :: "json \<Rightarrow> pubkey js"
  env_account :: "pubkey \<Rightarrow> account_info option js"
  env_fees :: "pubkey list \<Rightarrow> int list option js"
  env_now1 :: int
  env_rent :: "int js"
  env_now2 :: int
  env_balance :: "int js"
  env_poseidon :: "int list \<Rightarrow> int"
  env_verify :: "json \<Rightarrow> json \<Rightarrow> bool js"
  env_net :: net
  env_relayer :: pubkey
  env_programId :: pubkey

subsection \<open>Parsing and validating the body\<close>

record submit_req =
  rq_proof :: json
  rq_signals :: json
  rq_pool :: pubkey
  rq_recipient :: pubkey
  rq_feeMax :: int

text \<open>The regular expression for a decimal without leading zeros of at most twenty digits.\<close>

definition is_decimal_u64_text :: "string \<Rightarrow> bool" where
  "is_decimal_u64_text s \<longleftrightarrow>
     s = ''0'' \<or> (s \<noteq> [] \<and> hd s \<noteq> CHR ''0'' \<and> all_digits 10 s \<and> length s \<le> 20)"

definition U64_MAX :: int where "U64_MAX = 0xffffffffffffffff"

definition parse_fee_max :: "json \<Rightarrow> int route" where
  "parse_fee_max j =
     (case j of
        JStr s \<Rightarrow>
          if \<not> is_decimal_u64_text s then Reply (RespErr 400 ''InvalidRelayerFeeMax'')
          else route_bind (awaiting (string_bigint_js s)) (\<lambda>feeMax.
               route_bind (refuse_if (U64_MAX < feeMax) 400 ''InvalidRelayerFeeMax'') (\<lambda>_. Go feeMax))
      | _ \<Rightarrow> Reply (RespErr 400 ''InvalidRelayerFeeMax''))"

definition parse_address :: "env \<Rightarrow> json \<Rightarrow> pubkey route" where
  "parse_address E j = (case env_pubkey E j of
       Throws _ \<Rightarrow> Reply (RespErr 400 ''InvalidAddress'') | Returns k \<Rightarrow> Go k)"

definition parse_submit :: "env \<Rightarrow> json \<Rightarrow> submit_req route" where
  "parse_submit E body =
     (if body = JUndef \<or> body = JNull then Raise ''Cannot destructure property'' else
      let pf = js_get body ''proof''; ps = js_get body ''publicSignals'';
          poolAddress = js_get body ''poolAddress''; recipient = js_get body ''recipient'' in
      route_bind (refuse_if (\<not> js_truthy pf \<or> \<not> js_truthy ps \<or> \<not> js_truthy poolAddress \<or> \<not> js_truthy recipient)
        400 ''MissingFields'') (\<lambda>_.
      route_bind (refuse_if (case ps of JArr xs \<Rightarrow> length xs \<noteq> 3 | _ \<Rightarrow> True) 400 ''InvalidPublicSignals'') (\<lambda>_.
      route_bind (parse_fee_max (js_get body ''relayerFeeMax'')) (\<lambda>feeMax.
      route_bind (parse_address E poolAddress) (\<lambda>pk.
      route_bind (parse_address E recipient) (\<lambda>rk.
      Go \<lparr>rq_proof = pf, rq_signals = ps, rq_pool = pk, rq_recipient = rk, rq_feeMax = feeMax\<rparr>))))))"

subsection \<open>The pool and the ceiling\<close>

definition load_pool_route :: "env \<Rightarrow> pubkey \<Rightarrow> pool_view route" where
  "load_pool_route E k =
     route_bind (awaiting (loadPool (env_account E k) (env_programId E))) (\<lambda>r. case r of
       PoolRefused status err \<Rightarrow> Reply (RespErr status err)
     | PoolLoaded v \<Rightarrow> Go v)"

definition load_submit_pool :: "env \<Rightarrow> submit_req \<Rightarrow> pool_view route" where
  "load_submit_pool E rq =
     route_bind (load_pool_route E (rq_pool rq)) (\<lambda>pool.
     let onChainCap = pv_denomination pool sdiv 50 in
     route_bind (refuse_if (onChainCap < rq_feeMax rq) 400 ''RelayerFeeMaxTooHigh'') (\<lambda>_. Go pool))"

definition submit_rent :: "env \<Rightarrow> unit rent_cache \<Rightarrow> int \<times> unit rent_cache" where
  "submit_rent E cache = getNullifierRent cache () (env_now1 E) (env_rent E) (env_now2 E)"

record submit_plan =
  sp_fee :: int
  sp_perCU :: int

definition MIN_BALANCE :: int where "MIN_BALANCE = 10000000"

definition price_submit :: "env \<Rightarrow> submit_req \<Rightarrow> int \<Rightarrow> submit_plan route" where
  "price_submit E rq rent =
     (let minimum = rnd (BASE_FEE + rent) in
      route_bind (refuse_if (rq_feeMax rq < minimum) 400 ''RelayerFeeBelowCost'') (\<lambda>_.
      route_bind (awaiting (findVaultPda (net_pda (env_net E)) (rq_pool rq) (env_programId E))) (\<lambda>vault.
      let estimated = getPriorityFeePerCU (env_fees E [vault, env_relayer E]);
          plan = planFee (rq_feeMax rq) rent estimated in
      route_bind (refuse_if (0 < subsidy plan) 400 ''RelayerFeeBelowCost'') (\<lambda>_.
      route_bind (awaiting (env_balance E)) (\<lambda>balance.
      route_bind (refuse_if (balance < MIN_BALANCE) 503 ''RelayerBusy'') (\<lambda>_.
      Go \<lparr>sp_fee = actualFee plan, sp_perCU = appliedPriorityPerCU plan\<rparr>))))))"

subsection \<open>The doomed and the invalid\<close>

definition submit_chain :: "env \<Rightarrow> chain" where
  "submit_chain E = \<lparr>ch_pda = net_pda (env_net E), ch_account = env_account E\<rparr>"

definition check_submit :: "env \<Rightarrow> submit_req \<Rightarrow> pool_view \<Rightarrow> unit route" where
  "check_submit E rq pool =
     route_bind (awaiting (preflight (env_poseidon E) (pv_data pool) (rq_signals rq) (env_relayer E)
        (rq_recipient rq) (rq_feeMax rq) (Some (submit_chain E, env_programId E, rq_pool rq)))) (\<lambda>pf.
     case pf of
       PfFail err \<Rightarrow> Reply (RespErr 400 err)
     | PfOk \<Rightarrow>
         (case env_verify E (rq_proof rq) (rq_signals rq) of
            Throws _ \<Rightarrow> Reply (RespErr 400 ''InvalidProof'')
          | Returns valid \<Rightarrow> refuse_if (\<not> valid) 400 ''InvalidProof''))"

definition submit_entry :: "env \<Rightarrow> json \<Rightarrow> (submit_req \<times> pool_view) route" where
  "submit_entry E body =
     route_bind (parse_submit E body) (\<lambda>rq. route_bind (load_submit_pool E rq) (\<lambda>pool. Go (rq, pool)))"

text \<open>Everything before \<open>submitWithdraw\<close>, with the rent cache it leaves behind.\<close>

definition submit_checks ::
  "env \<Rightarrow> unit rent_cache \<Rightarrow> json \<Rightarrow> (submit_req \<times> pool_view \<times> submit_plan) route \<times> unit rent_cache" where
  "submit_checks E cache body =
     (case submit_entry E body of
        Reply r \<Rightarrow> (Reply r, cache)
      | Raise e \<Rightarrow> (Raise e, cache)
      | Go (rq, pool) \<Rightarrow>
          (let (rent, cache') = submit_rent E cache in
             (route_bind (price_submit E rq rent) (\<lambda>plan.
              route_bind (check_submit E rq pool) (\<lambda>_. Go (rq, pool, plan))), cache')))"

subsection \<open>Classifying failures\<close>

definition error_table :: "(string list \<times> nat \<times> string) list" where
  "error_table =
     [([''NullifierAlreadySpent'', ''0x1774''], 400, ''NullifierSpent''),
      ([''RootNotFound'', ''0x1773''], 400, ''StaleRoot''),
      ([''InvalidProof'', ''0x1775'', ''0x1776''], 400, ''InvalidProof''),
      ([''InvalidWithdrawalCommitment'', ''0x1777''], 400, ''InvalidWithdrawalCommitment''),
      ([''RelayerFeeExceedsMax'', ''0x1778''], 400, ''RelayerFeeExceedsMax''),
      ([''FeeInvariantViolated'', ''0x1779''], 400, ''FeeInvariantViolated''),
      ([''insufficient funds'', ''InsufficientFunds''], 503, ''RelayerInsufficientFunds''),
      ([''blockhash'', ''BlockhashNotFound''], 503, ''BlockhashExpired''),
      ([''AccountNotFound'', ''account does not exist''], 400, ''AccountNotFound''),
      ([''Simulation failed'', ''Transaction simulation failed''], 400, ''SimulationFailed'')]"

definition classify_error :: "string \<Rightarrow> response" where
  "classify_error msg =
     (case find (\<lambda>(pats, _, _). list_ex (str_includes msg) pats) error_table of
        Some (_, status, err) \<Rightarrow> RespErr status err
      | None \<Rightarrow> RespErr 500 ''InternalError'')"

subsection \<open>The handler\<close>

text \<open>The response, the transaction handed to the network if any, and the rent cache.\<close>

definition run_submit :: "env \<Rightarrow> submit_req \<Rightarrow> pool_view \<Rightarrow> submit_plan \<Rightarrow> response \<times> withdraw_tx option" where
  "run_submit E rq pool plan =
     (case build_withdraw (env_net E) (env_relayer E) (env_programId E) (rq_pool rq) (rq_recipient rq)
          (pv_treasury pool) (rq_proof rq) (rq_signals rq) (rq_feeMax rq) (sp_fee plan) (sp_perCU plan) of
        Throws e \<Rightarrow> (classify_error e, None)
      | Returns (tx, _) \<Rightarrow>
          (case submitWithdraw (env_net E) (env_relayer E) (env_programId E) (rq_pool rq) (rq_recipient rq)
              (pv_treasury pool) (rq_proof rq) (rq_signals rq) (rq_feeMax rq) (sp_fee plan) (sp_perCU plan) of
             Throws e \<Rightarrow> (classify_error e, Some tx)
           | Returns sig \<Rightarrow> (RespOk sig (sp_fee plan), Some tx)))"

definition handleSubmit ::
  "env \<Rightarrow> unit rent_cache \<Rightarrow> json \<Rightarrow> response \<times> withdraw_tx option \<times> unit rent_cache" where
  "handleSubmit E cache body =
     (case submit_checks E cache body of
        (Reply r, cache') \<Rightarrow> (r, None, cache')
      | (Raise e, cache') \<Rightarrow> (classify_error e, None, cache')
      | (Go (rq, pool, plan), cache') \<Rightarrow>
          (let (r, sent) = run_submit E rq pool plan in (r, sent, cache')))"

subsection \<open>What each phase guarantees\<close>

lemma parse_fee_max_Go:
  "parse_fee_max j = Go m \<longleftrightarrow>
     (\<exists>s. j = JStr s \<and> is_decimal_u64_text s \<and> string_to_bigint s = Some m \<and> m \<le> U64_MAX)"
  by (cases j) (auto simp: parse_fee_max_def string_bigint_js_def route_simps split: option.splits)

lemma decimal_text_value:
  "is_decimal_u64_text s \<Longrightarrow> string_to_bigint s = Some (int (digits_val 10 s))"
proof -
  assume a: "is_decimal_u64_text s"
  have "all_digits 10 ''0''" by code_simp
  then have "s \<noteq> []" "all_digits 10 s" using a by (auto simp: is_decimal_u64_text_def)
  then show ?thesis by (rule string_to_bigint_digits)
qed

lemma parse_fee_max_bounds: "parse_fee_max j = Go m \<Longrightarrow> 0 \<le> m \<and> m \<le> U64_MAX"
  by (auto simp: parse_fee_max_Go decimal_text_value)

lemma parse_address_Go: "parse_address E j = Go k \<longleftrightarrow> env_pubkey E j = Returns k"
  by (simp add: parse_address_def split: js.splits)

lemma parse_submit_Go:
  "parse_submit E body = Go rq \<longleftrightarrow>
     (\<exists>xs. js_get body ''publicSignals'' = JArr xs \<and> length xs = 3 \<and> rq_signals rq = JArr xs)
     \<and> js_truthy (js_get body ''proof'') \<and> rq_proof rq = js_get body ''proof''
     \<and> js_truthy (js_get body ''poolAddress'') \<and> env_pubkey E (js_get body ''poolAddress'') = Returns (rq_pool rq)
     \<and> js_truthy (js_get body ''recipient'') \<and> env_pubkey E (js_get body ''recipient'') = Returns (rq_recipient rq)
     \<and> parse_fee_max (js_get body ''relayerFeeMax'') = Go (rq_feeMax rq)"
  (is "?l \<longleftrightarrow> ?r")
proof (cases "body = JUndef \<or> body = JNull")
  case True
  then show ?thesis by (auto simp: parse_submit_def js_get_def)
next
  case False
  have t: "js_truthy (JArr xs)" for xs by (simp add: js_truthy_def)
  show ?thesis
  proof
    assume ?l
    then show ?r using False
      by (auto simp: parse_submit_def Let_def route_simps parse_address_Go split: json.splits)
  next
    assume ?r
    then show ?l using False t
      by (cases rq) (auto simp: parse_submit_def Let_def route_simps parse_address_Go)
  qed
qed

lemma load_pool_route_Go:
  "load_pool_route E k = Go v \<longleftrightarrow>
     (\<exists>info. env_account E k = Returns (Some info) \<and> is_pool (env_programId E) info \<and> v = view_of (acc_data info))"
proof -
  have c: "(case r of PoolRefused status err \<Rightarrow> Reply (RespErr status err) | PoolLoaded w \<Rightarrow> Go w) = Go v
      \<longleftrightarrow> r = PoolLoaded v" for r
    by (cases r) auto
  have "load_pool_route E k = Go v \<longleftrightarrow> loadPool (env_account E k) (env_programId E) = Returns (PoolLoaded v)"
    by (auto simp: load_pool_route_def route_simps c)
  also have "\<dots> \<longleftrightarrow> (\<exists>info. env_account E k = Returns (Some info) \<and> is_pool (env_programId E) info \<and> v = view_of (acc_data info))"
  proof (cases "env_account E k")
    case (Returns r)
    then show ?thesis
      by (cases r) (simp_all only: loadPool_loaded_iff, auto simp: loadPool_def)
  qed (simp add: loadPool_def)
  finally show ?thesis .
qed

lemma load_submit_pool_Go:
  "load_submit_pool E rq = Go v \<longleftrightarrow>
     (\<exists>info. env_account E (rq_pool rq) = Returns (Some info) \<and> is_pool (env_programId E) info
        \<and> v = view_of (acc_data info)) \<and> rq_feeMax rq \<le> pv_denomination v sdiv 50"
  by (auto simp: load_submit_pool_def route_simps load_pool_route_Go Let_def)

lemma price_submit_Go:
  "price_submit E rq rent' = Go plan \<longleftrightarrow>
     rnd (BASE_FEE + rent') \<le> rq_feeMax rq
     \<and> (\<exists>vault balance. findVaultPda (net_pda (env_net E)) (rq_pool rq) (env_programId E) = Returns vault
        \<and> env_balance E = Returns balance \<and> MIN_BALANCE \<le> balance
        \<and> (let p = planFee (rq_feeMax rq) rent' (getPriorityFeePerCU (env_fees E [vault, env_relayer E]))
           in subsidy p \<le> 0 \<and> plan = \<lparr>sp_fee = actualFee p, sp_perCU = appliedPriorityPerCU p\<rparr>))"
  by (auto simp: price_submit_def Let_def route_simps not_less)

lemma check_submit_Go:
  "check_submit E rq pool = Go u \<longleftrightarrow>
     preflight (env_poseidon E) (pv_data pool) (rq_signals rq) (env_relayer E) (rq_recipient rq) (rq_feeMax rq)
        (Some (submit_chain E, env_programId E, rq_pool rq)) = Returns PfOk
     \<and> env_verify E (rq_proof rq) (rq_signals rq) = Returns True"
proof -
  have c: "(case pf of PfFail err \<Rightarrow> Reply (RespErr 400 err) | PfOk \<Rightarrow> X) = Go u \<longleftrightarrow> pf = PfOk \<and> X = Go u" for pf X and u :: unit
    by (cases pf) auto
  have d: "(case v of Throws _ \<Rightarrow> Reply (RespErr 400 ''InvalidProof'') | Returns b \<Rightarrow> refuse_if (\<not> b) 400 ''InvalidProof'') = Go u
      \<longleftrightarrow> v = Returns True" for v and u :: unit
    by (cases v) (auto simp: refuse_if_Go)
  show ?thesis by (auto simp: check_submit_def route_simps c d)
qed

lemma submit_checks_Go:
  "fst (submit_checks E cache body) = Go (rq, pool, plan) \<longleftrightarrow>
     parse_submit E body = Go rq \<and> load_submit_pool E rq = Go pool
     \<and> price_submit E rq (fst (submit_rent E cache)) = Go plan \<and> check_submit E rq pool = Go ()"
proof -
  have m: "submit_entry E body = Go (a, b) \<longleftrightarrow> parse_submit E body = Go a \<and> load_submit_pool E a = Go b" for a b
    by (auto simp: submit_entry_def route_simps)
  show ?thesis
  proof (cases "submit_entry E body")
    case (Go x)
    obtain a b where x: "x = (a, b)" by (cases x)
    have "fst (submit_checks E cache body) =
        route_bind (price_submit E a (fst (submit_rent E cache))) (\<lambda>plan.
          route_bind (check_submit E a b) (\<lambda>_. Go (a, b, plan)))"
      by (simp add: submit_checks_def Go x Let_def case_prod_beta)
    moreover have "parse_submit E body = Go rq \<and> load_submit_pool E rq = Go pool \<longleftrightarrow> a = rq \<and> b = pool"
      using m [of rq pool] by (auto simp: Go x)
    ultimately show ?thesis by (auto simp: route_simps)
  next
    case (Reply r)
    then show ?thesis using m [of rq pool] by (auto simp: submit_checks_def)
  next
    case (Raise e)
    then show ?thesis using m [of rq pool] by (auto simp: submit_checks_def)
  qed
qed

lemma run_submit_sent:
  "run_submit E rq pool plan = (r, Some tx) \<Longrightarrow>
    \<exists>lv. build_withdraw (env_net E) (env_relayer E) (env_programId E) (rq_pool rq) (rq_recipient rq)
          (pv_treasury pool) (rq_proof rq) (rq_signals rq) (rq_feeMax rq) (sp_fee plan) (sp_perCU plan) = Returns (tx, lv)"
  by (auto simp: run_submit_def split: js.splits)

lemma handleSubmit_sent:
  assumes "handleSubmit E cache body = (r, Some tx, cache')"
  obtains rq pool plan lv where
    "parse_submit E body = Go rq" "load_submit_pool E rq = Go pool"
    "price_submit E rq (fst (submit_rent E cache)) = Go plan" "check_submit E rq pool = Go ()"
    "build_withdraw (env_net E) (env_relayer E) (env_programId E) (rq_pool rq) (rq_recipient rq)
       (pv_treasury pool) (rq_proof rq) (rq_signals rq) (rq_feeMax rq) (sp_fee plan) (sp_perCU plan) = Returns (tx, lv)"
    "run_submit E rq pool plan = (r, Some tx)"
proof -
  obtain rq pool plan where g: "fst (submit_checks E cache body) = Go (rq, pool, plan)"
    and rn: "run_submit E rq pool plan = (r, Some tx)"
    using assms by (auto simp: handleSubmit_def Let_def split: prod.splits route.splits)
  show thesis
    using that g rn run_submit_sent [OF rn] unfolding submit_checks_Go by blast
qed

subsection \<open>What is in the transaction\<close>

definition attached_price :: "withdraw_tx \<Rightarrow> int" where
  "attached_price tx = (case tx_budget tx of [_, SetComputeUnitPrice p] \<Rightarrow> p | _ \<Rightarrow> 0)"

lemma attached_price_budget: "0 \<le> p \<Longrightarrow> tx_budget tx = budget_ixs p \<Longrightarrow> attached_price tx = p"
  by (simp add: attached_price_def budget_ixs_def)

lemma build_withdraw_fields:
  assumes "build_withdraw N relayer programId pool recipient treasury pf ps feeMax feeTaken perCU = Returns (tx, lv)"
  shows "tx_payer tx = relayer" "tx_budget tx = budget_ixs perCU"
    and "wa_relayerFeeMax (tx_args tx) = feeMax" "wa_relayerFeeTaken (tx_args tx) = feeTaken"
    and "ac_pool (tx_accounts tx) = pool" "ac_recipient (tx_accounts tx) = recipient"
    and "ac_treasury (tx_accounts tx) = treasury" "ac_relayer (tx_accounts tx) = relayer"
    and "\<exists>n rt wc. json_bigint (js_index ps 0) = Returns n \<and> json_bigint (js_index ps 1) = Returns rt
          \<and> json_bigint (js_index ps 2) = Returns wc
          \<and> wa_nullifierHash (tx_args tx) = bigIntToBytes32 n \<and> wa_root (tx_args tx) = bigIntToBytes32 rt
          \<and> wa_withdrawalCommitment (tx_args tx) = bigIntToBytes32 wc
          \<and> net_pda N (nullifier_seeds pool (bigIntToBytes32 n)) programId = Returns (ac_nullifierPda (tx_accounts tx))
          \<and> findVaultPda (net_pda N) pool programId = Returns (ac_vault (tx_accounts tx))
          \<and> snarkjsProofToBytes pf = Returns (wa_proof (tx_args tx))"
  using assms
  by (auto simp: build_withdraw_def js_bind_eq_Returns Let_def findNullifierPda_def split: prod.splits)

lemma estimate_nonneg:
  assumes "\<forall>fs. r = Returns (Some fs) \<longrightarrow> (\<forall>x\<in>set fs. 0 \<le> x)"
  shows "0 \<le> getPriorityFeePerCU r"
proof (cases r)
  case (Returns q)
  show ?thesis
  proof (cases q)
    case (Some fs)
    have "sort fs ! i \<in> set fs" if "i < length fs" for i
      using that nth_mem [of i "sort fs"] by simp
    then show ?thesis using assms Returns Some by (auto simp: getPriorityFeePerCU_def Let_def)
  qed (simp add: getPriorityFeePerCU_def Returns)
qed (simp add: getPriorityFeePerCU_def)

lemma sent_fees:
  assumes sent: "handleSubmit E cache body = (r, Some tx, cache')"
    and rent: "0 \<le> fst (submit_rent E cache)" "fst (submit_rent E cache) \<le> SAFE_LAMPORTS"
    and fees: "\<forall>ks fs. env_fees E ks = Returns (Some fs) \<longrightarrow> (\<forall>x\<in>set fs. 0 \<le> x)"
    and small: "wa_relayerFeeMax (tx_args tx) \<le> SAFE_LAMPORTS"
  shows "wa_relayerFeeTaken (tx_args tx)
           = BASE_FEE + fst (submit_rent E cache) + priorityFeeLamports (attached_price tx)"
    and "wa_relayerFeeTaken (tx_args tx) \<le> wa_relayerFeeMax (tx_args tx)" and "0 \<le> attached_price tx"
    and "0 \<le> wa_relayerFeeMax (tx_args tx)"
proof -
  obtain rq pool plan lv where g: "parse_submit E body = Go rq" "load_submit_pool E rq = Go pool"
    "price_submit E rq (fst (submit_rent E cache)) = Go plan" and b: "build_withdraw (env_net E) (env_relayer E) (env_programId E) (rq_pool rq) (rq_recipient rq)
       (pv_treasury pool) (rq_proof rq) (rq_signals rq) (rq_feeMax rq) (sp_fee plan) (sp_perCU plan) = Returns (tx, lv)"
    by (rule handleSubmit_sent [OF sent])
  note tx = build_withdraw_fields [OF b]
  let ?rent = "fst (submit_rent E cache)"
  have r: "rnd (BASE_FEE + ?rent) = BASE_FEE + ?rent"
    using rent by (intro rnd_exact) (simp add: fee_consts)
  obtain vault where p: "BASE_FEE + ?rent \<le> rq_feeMax rq"
      "plan = \<lparr>sp_fee = actualFee (planFee (rq_feeMax rq) ?rent (getPriorityFeePerCU (env_fees E [vault, env_relayer E]))),
        sp_perCU = appliedPriorityPerCU (planFee (rq_feeMax rq) ?rent (getPriorityFeePerCU (env_fees E [vault, env_relayer E])))\<rparr>"
    using g(3) by (auto simp: price_submit_Go r Let_def)
  have "0 \<le> getPriorityFeePerCU (env_fees E [vault, env_relayer E])"
    using fees by (intro estimate_nonneg) blast
  then have pl: "sp_fee plan = BASE_FEE + ?rent + priorityFeeLamports (sp_perCU plan)" "sp_fee plan \<le> rq_feeMax rq"
      "0 \<le> sp_perCU plan"
    using planFee_charges [OF rent(1) p(1)] small by (simp_all add: p(2) tx)
  moreover from pl have "attached_price tx = sp_perCU plan" by (intro attached_price_budget) (simp_all add: tx)
  moreover have "0 \<le> rq_feeMax rq" using g(1) parse_fee_max_bounds by (auto simp: parse_submit_Go)
  ultimately show "wa_relayerFeeTaken (tx_args tx) = BASE_FEE + fst (submit_rent E cache) + priorityFeeLamports (attached_price tx)"
    "wa_relayerFeeTaken (tx_args tx) \<le> wa_relayerFeeMax (tx_args tx)" "0 \<le> attached_price tx" "0 \<le> wa_relayerFeeMax (tx_args tx)"
    by (simp_all add: tx)
qed

text \<open>
  C15. The relayer never signs a withdrawal that costs it more than it is paid. Whenever
  \<open>handleSubmit\<close> hands a transaction to the network, the fee it takes equals the signature fee
  plus the nullifier rent plus what the attached compute-unit price costs, that fee is within the
  ceiling the proof binds, and the ceiling is within the program's cap of one fiftieth of the
  denomination read from a genuine pool of this program. This holds for any congestion estimate and
  any content of the request, for ceilings up to 9,007,199,254 lamports (all pools up to 450 SOL).
\<close>

theorem submit_never_unreimbursed:
  assumes sent: "handleSubmit E cache body = (r, Some tx, cache')"
    and rent: "0 \<le> fst (submit_rent E cache)" "fst (submit_rent E cache) \<le> SAFE_LAMPORTS"
    and fees: "\<forall>ks fs. env_fees E ks = Returns (Some fs) \<longrightarrow> (\<forall>x\<in>set fs. 0 \<le> x)"
    and small: "wa_relayerFeeMax (tx_args tx) \<le> SAFE_LAMPORTS"
  shows "wa_relayerFeeTaken (tx_args tx)
           = BASE_FEE + fst (submit_rent E cache) + priorityFeeLamports (attached_price tx)
    \<and> wa_relayerFeeTaken (tx_args tx) \<le> wa_relayerFeeMax (tx_args tx)
    \<and> (\<exists>info. env_account E (ac_pool (tx_accounts tx)) = Returns (Some info)
         \<and> is_pool (env_programId E) info
         \<and> wa_relayerFeeMax (tx_args tx) \<le> le_int (subarray (acc_data info) 72 80) div 50)"
proof -
  obtain rq pool plan lv where g: "load_submit_pool E rq = Go pool" "price_submit E rq (fst (submit_rent E cache)) = Go plan"
    and b: "build_withdraw (env_net E) (env_relayer E) (env_programId E) (rq_pool rq) (rq_recipient rq)
       (pv_treasury pool) (rq_proof rq) (rq_signals rq) (rq_feeMax rq) (sp_fee plan) (sp_perCU plan) = Returns (tx, lv)"
    by (rule handleSubmit_sent [OF sent])
  note tx = build_withdraw_fields [OF b]
  have "\<exists>info. env_account E (rq_pool rq) = Returns (Some info) \<and> is_pool (env_programId E) info
      \<and> rq_feeMax rq \<le> le_int (subarray (acc_data info) 72 80) div 50"
    using g(1) le_int_bounds(1) by (auto simp: load_submit_pool_Go view_of_def sdiv_nonneg)
  then show ?thesis using sent_fees [OF assms] by (simp add: tx)
qed

subsection \<open>A concrete submission\<close>

definition example_env :: env where
  "example_env =
    \<lparr>env_pubkey = \<lambda>j. Returns (if j = JStr ''pool'' then [1] else [3]),
     env_account = \<lambda>k. Returns (if k = [1] then Some \<lparr>acc_owner = [9], acc_data = example_pool_data, acc_lamports = 5\<rparr> else None),
     env_fees = \<lambda>ks. Returns (Some [1000]), env_now1 = 0, env_rent = Returns 1056640, env_now2 = 1,
     env_balance = Returns 10000000000, env_poseidon = \<lambda>xs. 42, env_verify = \<lambda>pf ps. Returns True,
     env_net = \<lparr>net_pda = \<lambda>seeds k. Returns [2], net_blockhash = Returns (''bh'', 100),
        net_send = \<lambda>tx. Returns ''sig'', net_confirm = \<lambda>s b n. Returns None\<rparr>,
     env_relayer = [4], env_programId = [9]\<rparr>"

definition example_body :: json where
  "example_body = JObj
    [(''proof'', JObj [(''pi_a'', JArr [JStr ''1'', JStr ''2'']),
       (''pi_b'', JArr [JArr [JStr ''3'', JStr ''4''], JArr [JStr ''5'', JStr ''6'']]),
       (''pi_c'', JArr [JStr ''7'', JStr ''8''])]),
     (''publicSignals'', JArr [JStr ''5'', JStr ''7'', JStr ''42'']),
     (''poolAddress'', JStr ''pool''), (''recipient'', JStr ''dest''), (''relayerFeeMax'', JStr ''1600000'')]"

lemma handleSubmit_success:
  assumes "fst (submit_checks E cache body) = Go (rq, pool, plan)"
    and "build_withdraw (env_net E) (env_relayer E) (env_programId E) (rq_pool rq) (rq_recipient rq)
          (pv_treasury pool) (rq_proof rq) (rq_signals rq) (rq_feeMax rq) (sp_fee plan) (sp_perCU plan) = Returns (tx, lv)"
    and "net_send (env_net E) tx = Returns sig" "net_confirm (env_net E) sig (tx_blockhash tx) lv = Returns None"
  shows "handleSubmit E cache body = (RespOk sig (sp_fee plan), Some tx, snd (submit_checks E cache body))"
  using assms
  by (cases "submit_checks E cache body") (simp add: handleSubmit_def run_submit_def submitWithdraw_def)

lemma example_signals:
  "json_bigint (JStr ''5'') = Returns 5" "json_bigint (JStr ''7'') = Returns 7" "json_bigint (JStr ''42'') = Returns 42"
  by code_simp+

lemma example_proof_bytes:
  "\<exists>pb. snarkjsProofToBytes (js_get example_body ''proof'') = Returns pb"
proof -
  have "json_bigint (JStr ''1'') = Returns 1" "json_bigint (JStr ''2'') = Returns 2" "json_bigint (JStr ''3'') = Returns 3"
    "json_bigint (JStr ''4'') = Returns 4" "json_bigint (JStr ''6'') = Returns 6" "json_bigint (JStr ''8'') = Returns 8"
    by code_simp+
  then show ?thesis using example_signals
    by (simp add: snarkjsProofToBytes_def proof_coord_def proof_coord2_def js_member_def js_get_def js_index_def example_body_def)
qed

lemma example_plan: "actualFee (planFee 1600000 1056640 1000) = 1061840"
    "appliedPriorityPerCU (planFee 1600000 1056640 1000) = 1000" "subsidy (planFee 1600000 1056640 1000) = 0"
  using planFee_eq [of 1600000 1056640 1000] by (simp_all add: priorityFeeLamports_eq fee_consts)

definition example_req :: submit_req where
  "example_req = \<lparr>rq_proof = js_get example_body ''proof'', rq_signals = JArr [JStr ''5'', JStr ''7'', JStr ''42''],
     rq_pool = [1], rq_recipient = [3], rq_feeMax = 1600000\<rparr>"

lemma example_rent: "submit_rent example_env Map.empty = (1056640, [() \<mapsto> \<lparr>rent_val = 1056640, rent_at = 1\<rparr>])"
  by (simp add: submit_rent_def getNullifierRent_def example_env_def)

lemma example_parsed: "parse_submit example_env example_body = Go example_req"
proof -
  have "is_decimal_u64_text ''1600000'' \<and> string_to_bigint ''1600000'' = Some 1600000" by code_simp
  then have "parse_fee_max (JStr ''1600000'') = Go 1600000" by (simp add: parse_fee_max_Go U64_MAX_def)
  then show ?thesis
    by (simp add: parse_submit_Go example_body_def js_get_def js_truthy_def example_req_def example_env_def)
qed

lemma example_pool: "is_pool [9] \<lparr>acc_owner = [9], acc_data = example_pool_data, acc_lamports = 5\<rparr>"
  by (simp add: is_pool_def example_pool_data_props)

lemma example_loaded: "load_submit_pool example_env example_req = Go (view_of example_pool_data)"
  using example_pool
  by (simp add: load_submit_pool_Go example_env_def example_req_def view_of_def example_pool_data_props sdiv_nonneg)

lemma example_priced:
  "price_submit example_env example_req 1056640 = Go \<lparr>sp_fee = 1061840, sp_perCU = 1000\<rparr>"
proof -
  have "getPriorityFeePerCU (Returns (Some [1000])) = 1000"
    using percentile_index_less [of 1] by (simp add: getPriorityFeePerCU_def)
  then show ?thesis using example_plan
    by (simp add: price_submit_Go example_env_def example_req_def fee_consts rnd_exact MIN_BALANCE_def findVaultPda_def Let_def)
qed

lemma example_checked: "check_submit example_env example_req (view_of example_pool_data) = Go ()"
  using example_signals example_pool_data_props
  by (auto simp: check_submit_Go preflight_ok_iff example_req_def js_index_def example_env_def view_of_def
      spent_check_def nullifier_lookup_def submit_chain_def)

lemma example_submission:
  obtains tx cache' where "handleSubmit example_env Map.empty example_body = (RespOk ''sig'' 1061840, Some tx, cache')"
    "wa_relayerFeeMax (tx_args tx) = 1600000" "tx_payer tx = [4]"
proof -
  obtain pb where pb: "snarkjsProofToBytes (js_get example_body ''proof'') = Returns pb"
    using example_proof_bytes by blast
  have go: "fst (submit_checks example_env Map.empty example_body)
      = Go (example_req, view_of example_pool_data, \<lparr>sp_fee = 1061840, sp_perCU = 1000\<rparr>)"
    using example_parsed example_loaded example_priced example_checked by (simp add: submit_checks_Go example_rent)
  obtain tx where b: "build_withdraw (env_net example_env) (env_relayer example_env) (env_programId example_env)
      (rq_pool example_req) (rq_recipient example_req) (pv_treasury (view_of example_pool_data)) (rq_proof example_req)
      (rq_signals example_req) (rq_feeMax example_req) 1061840 1000 = Returns (tx, 100)"
    using pb example_signals
    by (auto simp: build_withdraw_def example_env_def example_req_def js_index_def findNullifierPda_def findVaultPda_def Let_def)
  note f = build_withdraw_fields [OF b]
  have "handleSubmit example_env Map.empty example_body
      = (RespOk ''sig'' 1061840, Some tx, snd (submit_checks example_env Map.empty example_body))"
    using handleSubmit_success [OF go, of tx 100 "''sig''"] b by (simp add: example_env_def)
  then show ?thesis using that f by (simp add: example_req_def example_env_def)
qed

lemma submit_never_unreimbursed_witness:
  "\<exists>tx cache'. handleSubmit example_env Map.empty example_body = (RespOk ''sig'' 1061840, Some tx, cache')
     \<and> wa_relayerFeeTaken (tx_args tx) \<le> 1600000"
proof -
  obtain tx c where h: "handleSubmit example_env Map.empty example_body = (RespOk ''sig'' 1061840, Some tx, c)"
      "wa_relayerFeeMax (tx_args tx) = 1600000" "tx_payer tx = [4]"
    by (rule example_submission)
  have f: "\<forall>ks fs. env_fees example_env ks = Returns (Some fs) \<longrightarrow> (\<forall>x\<in>set fs. 0 \<le> x)"
    by (auto simp: example_env_def)
  show ?thesis
    using submit_never_unreimbursed [OF h(1) _ _ f] h by (auto simp: example_rent)
qed

text \<open>
  C16. Nothing doomed, forged or misdirected is ever paid for. Whenever \<open>handleSubmit\<close> hands
  a transaction to the network: the proof verified; the pool is a genuine pool of the program, and the
  ceiling is within a fiftieth of its denomination and covers the signature fee and the nullifier
  rent; the relayer's balance was read and is at least 0.01 SOL; the root in the transaction is a
  non-zero entry of that pool's ring; the commitment is the hash of THIS relayer, the ceiling in the
  transaction and the recipient in the transaction; the treasury account is the pool's own; the
  nullifier hash in the transaction is the first public signal; and if that signal is a field element,
  as it is in every proof the verifier accepts, the nullifier account the transaction would create
  held no data when it could be read.
\<close>

theorem submit_only_after_all_checks:
  assumes sent: "handleSubmit E cache body = (r, Some tx, cache')"
  shows "env_verify E (js_get body ''proof'') (js_get body ''publicSignals'') = Returns True
    \<and> (\<exists>info rt. env_account E (ac_pool (tx_accounts tx)) = Returns (Some info) \<and> is_pool (env_programId E) info
         \<and> rt \<noteq> 0 \<and> rt \<in> set (ring_roots (acc_data info)) \<and> wa_root (tx_args tx) = bigIntToBytes32 rt
         \<and> ac_treasury (tx_accounts tx) = subarray (acc_data info) 96 128
         \<and> wa_relayerFeeMax (tx_args tx) \<le> le_int (subarray (acc_data info) 72 80) div 50)
    \<and> rnd (BASE_FEE + fst (submit_rent E cache)) \<le> wa_relayerFeeMax (tx_args tx)
    \<and> (\<exists>balance. env_balance E = Returns balance \<and> 10000000 \<le> balance)
    \<and> wa_withdrawalCommitment (tx_args tx) = bigIntToBytes32 (env_poseidon E
         [pubkeyToField (env_poseidon E) (ac_relayer (tx_accounts tx)), wa_relayerFeeMax (tx_args tx),
          pubkeyToField (env_poseidon E) (ac_recipient (tx_accounts tx))])
    \<and> ac_relayer (tx_accounts tx) = env_relayer E
    \<and> (\<exists>n. json_bigint (js_index (js_get body ''publicSignals'') 0) = Returns n
         \<and> wa_nullifierHash (tx_args tx) = bigIntToBytes32 n
         \<and> (0 \<le> n \<and> n < BN254_Fr \<longrightarrow>
             (\<forall>a. env_account E (ac_nullifierPda (tx_accounts tx)) = Returns (Some a) \<longrightarrow> acc_data a = [])))"
  using sent
proof (rule handleSubmit_sent)
  fix rq pool plan lv
  assume g: "parse_submit E body = Go rq" "load_submit_pool E rq = Go pool" "price_submit E rq (fst (submit_rent E cache)) = Go plan"
      "check_submit E rq pool = Go ()"
    and b: "build_withdraw (env_net E) (env_relayer E) (env_programId E) (rq_pool rq) (rq_recipient rq)
       (pv_treasury pool) (rq_proof rq) (rq_signals rq) (rq_feeMax rq) (sp_fee plan) (sp_perCU plan) = Returns (tx, lv)"
  note tx = build_withdraw_fields [OF b]
  have ps: "rq_signals rq = js_get body ''publicSignals''" "rq_proof rq = js_get body ''proof''"
    using g(1) by (auto simp: parse_submit_Go)
  obtain info where info: "env_account E (rq_pool rq) = Returns (Some info)" "is_pool (env_programId E) info"
      "pool = view_of (acc_data info)" "rq_feeMax rq \<le> le_int (subarray (acc_data info) 72 80) div 50"
    using g(2) le_int_bounds(1) by (auto simp: load_submit_pool_Go view_of_def sdiv_nonneg)
  have len: "POOL_ACCOUNT_LEN \<le> length (acc_data info)" using info(2) by (simp add: is_pool_def)
  have money: "rnd (BASE_FEE + fst (submit_rent E cache)) \<le> rq_feeMax rq" "\<exists>balance. env_balance E = Returns balance \<and> 10000000 \<le> balance"
    using g(3) by (auto simp: price_submit_Go MIN_BALANCE_def)
  obtain rt where pf: "json_bigint (js_index (rq_signals rq) 1) = Returns rt" "rt \<noteq> 0" "rt \<in> set (ring_roots (acc_data info))"
      "json_bigint (js_index (rq_signals rq) 2) = Returns (env_poseidon E
         [pubkeyToField (env_poseidon E) (env_relayer E), rq_feeMax rq, pubkeyToField (env_poseidon E) (rq_recipient rq)])"
      "spent_check (Some (submit_chain E, env_programId E, rq_pool rq)) (js_index (rq_signals rq) 0) = PfOk"
      "env_verify E (rq_proof rq) (rq_signals rq) = Returns True"
    using g(4) len by (auto simp: check_submit_Go preflight_ok_iff info(3) view_of_def)
  obtain n where n: "json_bigint (js_index (rq_signals rq) 0) = Returns n" "wa_nullifierHash (tx_args tx) = bigIntToBytes32 n"
      "ch_pda (submit_chain E) (nullifier_seeds (rq_pool rq) (bigIntToBytes32 n)) (env_programId E) = Returns (ac_nullifierPda (tx_accounts tx))"
    using tx(9) by (auto simp: submit_chain_def)
  have "acc_data a = []" if "0 \<le> n" "n < BN254_Fr" "env_account E (ac_nullifierPda (tx_accounts tx)) = Returns (Some a)" for a
    using pf(5) spent_check_seed [OF n(1) that(1,2) n(3)] that(3) by (simp add: submit_chain_def)
  then show ?thesis
    using tx pf info money n by (auto simp: ps view_of_def)
qed

lemma submit_only_after_all_checks_witness:
  "\<exists>tx cache'. handleSubmit example_env Map.empty example_body = (RespOk ''sig'' 1061840, Some tx, cache')
     \<and> wa_nullifierHash (tx_args tx) = bigIntToBytes32 5 \<and> rnd (BASE_FEE + 1056640) \<le> wa_relayerFeeMax (tx_args tx)"
proof -
  obtain tx c where h: "handleSubmit example_env Map.empty example_body = (RespOk ''sig'' 1061840, Some tx, c)"
    by (rule example_submission)
  have n: "json_bigint (js_index (js_get example_body ''publicSignals'') 0) = Returns 5"
    using example_signals by (simp add: example_body_def js_get_def js_index_def)
  have "fst (submit_rent example_env Map.empty) = 1056640" by (simp add: example_rent)
  then show ?thesis
    using submit_only_after_all_checks [OF h] h n by auto
qed

text \<open>The checks never reply with success.\<close>

lemma route_bind_Reply: "route_bind m f = Reply r \<longleftrightarrow> m = Reply r \<or> (\<exists>x. m = Go x \<and> f x = Reply r)"
  by (cases m) (simp_all add: route_bind_def)

lemma awaiting_no_reply: "awaiting m \<noteq> Reply r"
  by (simp add: awaiting_def split: js.splits)

lemma refuse_no_ok: "refuse_if b st e \<noteq> Reply (RespOk sig fee)"
  by (simp add: refuse_if_def)

lemmas no_ok_simps = route_bind_Reply awaiting_no_reply refuse_no_ok

lemma phases_no_ok:
  "parse_submit E body \<noteq> Reply (RespOk sig fee)"
  "load_submit_pool E rq \<noteq> Reply (RespOk sig fee)"
  "price_submit E rq rn \<noteq> Reply (RespOk sig fee)"
  "check_submit E rq pool \<noteq> Reply (RespOk sig fee)"
proof -
  have f: "parse_fee_max j \<noteq> Reply (RespOk sig fee)" for j
    by (cases j) (auto simp: parse_fee_max_def no_ok_simps)
  have a: "parse_address E j \<noteq> Reply (RespOk sig fee)" for j
    by (auto simp: parse_address_def split: js.splits)
  show "parse_submit E body \<noteq> Reply (RespOk sig fee)"
    by (simp add: parse_submit_def Let_def no_ok_simps f a)
  have "load_pool_route E k \<noteq> Reply (RespOk sig fee)" for k
    by (auto simp: load_pool_route_def no_ok_simps split: pool_load.splits)
  then show "load_submit_pool E rq \<noteq> Reply (RespOk sig fee)"
    by (simp add: load_submit_pool_def Let_def no_ok_simps)
  show "price_submit E rq rn \<noteq> Reply (RespOk sig fee)"
    by (simp add: price_submit_def Let_def no_ok_simps)
  show "check_submit E rq pool \<noteq> Reply (RespOk sig fee)"
    by (auto simp: check_submit_def no_ok_simps split: js.splits pf_result.splits)
qed

lemma submit_checks_no_ok: "fst (submit_checks E cache body) \<noteq> Reply (RespOk sig fee)"
proof (cases "submit_entry E body")
  case (Reply r)
  moreover have "submit_entry E body \<noteq> Reply (RespOk sig fee)"
    using phases_no_ok(1,2) by (simp add: submit_entry_def route_bind_Reply)
  ultimately show ?thesis by (simp add: submit_checks_def)
next
  case (Go x)
  then show ?thesis
    using phases_no_ok(3,4) by (cases x) (simp add: submit_checks_def Let_def case_prod_beta route_bind_Reply)
qed (simp add: submit_checks_def)

text \<open>
  A success reply is never a reverted transaction: the route answers with a signature only if
  that transaction was sent, its confirmation resolved without an error, and the fee reported is
  the fee in the transaction; a confirmation that carries an error always becomes an error reply.
\<close>

theorem submit_reply_honest:
  assumes h: "handleSubmit E cache body = (r, sent, cache')"
  shows "(\<forall>sig fee. r = RespOk sig fee \<longrightarrow>
      (\<exists>tx lv. sent = Some tx \<and> net_send (env_net E) tx = Returns sig
         \<and> net_confirm (env_net E) sig (tx_blockhash tx) lv = Returns None
         \<and> fee = wa_relayerFeeTaken (tx_args tx)))
    \<and> (\<forall>tx sig e. sent = Some tx \<and> net_send (env_net E) tx = Returns sig
         \<and> (\<forall>lv. net_confirm (env_net E) sig (tx_blockhash tx) lv = Returns (Some e))
         \<longrightarrow> r = classify_error (revert_message e))"
proof (intro conjI allI impI)
  fix sig fee
  assume r: "r = RespOk sig fee"
  have ne: "classify_error m \<noteq> RespOk s f" for m s f
    by (auto simp: classify_error_def split: option.splits)
  have "\<nexists>c. submit_checks E cache body = (Reply (RespOk sig fee), c)"
    using submit_checks_no_ok [of E cache body sig fee] by force
  then obtain rq pool plan where g: "run_submit E rq pool plan = (RespOk sig fee, sent)"
    using h r ne by (auto simp: handleSubmit_def Let_def split: prod.splits route.splits)
  then obtain tx lv where b: "build_withdraw (env_net E) (env_relayer E) (env_programId E) (rq_pool rq) (rq_recipient rq)
       (pv_treasury pool) (rq_proof rq) (rq_signals rq) (rq_feeMax rq) (sp_fee plan) (sp_perCU plan) = Returns (tx, lv)"
      "sent = Some tx"
    using ne by (auto simp: run_submit_def split: js.splits prod.splits)
  show "\<exists>tx lv. sent = Some tx \<and> net_send (env_net E) tx = Returns sig
         \<and> net_confirm (env_net E) sig (tx_blockhash tx) lv = Returns None
         \<and> fee = wa_relayerFeeTaken (tx_args tx)"
    using g b ne build_withdraw_fields(4) [OF b(1)]
    by (intro exI [of _ tx] exI [of _ lv])
       (auto simp: run_submit_def submitWithdraw_def js_bind_eq_Returns split: js.splits option.splits)
next
  fix tx sig e
  assume a: "sent = Some tx \<and> net_send (env_net E) tx = Returns sig
         \<and> (\<forall>lv. net_confirm (env_net E) sig (tx_blockhash tx) lv = Returns (Some e))"
  with h have "handleSubmit E cache body = (r, Some tx, cache')" by simp
  then show "r = classify_error (revert_message e)"
  proof (rule handleSubmit_sent)
    fix rq pool plan lv
    assume "build_withdraw (env_net E) (env_relayer E) (env_programId E) (rq_pool rq) (rq_recipient rq)
       (pv_treasury pool) (rq_proof rq) (rq_signals rq) (rq_feeMax rq) (sp_fee plan) (sp_perCU plan) = Returns (tx, lv)"
      and "run_submit E rq pool plan = (r, Some tx)"
    then show ?thesis using a by (auto simp: run_submit_def submitWithdraw_def)
  qed
qed

lemma submit_reply_honest_witness:
  "\<exists>tx lv. net_send (env_net example_env) tx = Returns ''sig''
      \<and> net_confirm (env_net example_env) ''sig'' (tx_blockhash tx) lv = Returns None
      \<and> wa_relayerFeeTaken (tx_args tx) = 1061840"
proof -
  obtain tx c where h: "handleSubmit example_env Map.empty example_body = (RespOk ''sig'' 1061840, Some tx, c)"
    by (rule example_submission)
  show ?thesis using submit_reply_honest [OF h] by metis
qed

subsection \<open>What a reverted transaction is reported as\<close>

text \<open>
  The two halves of the error path agree: each program error a withdrawal can revert with
  (RootNotFound 6003 to FeeInvariantViolated 6009), reported by the network as a decimal custom
  code on the withdraw instruction (second or third in the transaction), is printed by
  \<open>submitWithdraw\<close> and recognised by the route as exactly the client-facing error of that
  name; so are an expired blockhash and a relayer without funds.
\<close>

theorem reverted_errors_classified:
  "map (\<lambda>c. map (\<lambda>i. classify_error (revert_message (InstructionCustom i c))) [1, 2]) [6003, 6004, 6005, 6006, 6007, 6008, 6009]
     = map (\<lambda>e. [RespErr 400 e, RespErr 400 e])
        [''StaleRoot'', ''NullifierSpent'', ''InvalidProof'', ''InvalidProof'', ''InvalidWithdrawalCommitment'',
         ''RelayerFeeExceedsMax'', ''FeeInvariantViolated'']
   \<and> classify_error (revert_message (TransactionErr ''BlockhashNotFound'')) = RespErr 503 ''BlockhashExpired''
   \<and> classify_error (revert_message (TransactionErr ''InsufficientFundsForFee'')) = RespErr 503 ''RelayerInsufficientFunds''"
  by (intro conjI; code_simp)

subsection \<open>GET /fee_quote\<close>

record quote =
  q_relayer :: pubkey
  q_feeMax :: int
  q_validUntil :: int
  q_receives :: int
  q_treasury :: int
  q_denomination :: int

datatype quote_reply = QuoteErr nat string | QuoteOk quote

definition quote_pool :: "env \<Rightarrow> json \<Rightarrow> (pubkey \<times> pool_view) route" where
  "quote_pool E poolAddr =
     route_bind (refuse_if (\<not> js_truthy poolAddr) 400 ''MissingPoolAddress'') (\<lambda>_.
     route_bind (case env_pubkey E poolAddr of
         Throws _ \<Rightarrow> Reply (RespErr 400 ''InvalidPoolAddress'') | Returns k \<Rightarrow> Go k) (\<lambda>k.
     route_bind (load_pool_route E k) (\<lambda>pool. Go (k, pool))))"

definition price_quote :: "env \<Rightarrow> int \<Rightarrow> int \<Rightarrow> pool_view \<Rightarrow> quote_reply" where
  "price_quote E now relayerCost pool =
     (let denomination = pv_denomination pool;
          treasuryFee = computeTreasuryFee denomination;
          onChainCap = denomination sdiv 50
      in if onChainCap < relayerCost then QuoteErr 503 ''FeeAbovePoolCap''
         else let withMargin = feeMaxFromCost relayerCost;
                  relayerFeeMax = (if withMargin \<le> onChainCap then withMargin else onChainCap);
                  estimatedUserReceives = computeMinUserReceives denomination relayerFeeMax
              in QuoteOk \<lparr>q_relayer = env_relayer E, q_feeMax = relayerFeeMax, q_validUntil = rnd (now + 30000),
                   q_receives = estimatedUserReceives, q_treasury = treasuryFee, q_denomination = denomination\<rparr>)"

definition fee_quote :: "env \<Rightarrow> unit rent_cache \<Rightarrow> int \<Rightarrow> json \<Rightarrow> quote_reply \<times> unit rent_cache" where
  "fee_quote E cache now poolAddr =
     (case quote_pool E poolAddr of
        Reply (RespErr st e) \<Rightarrow> (QuoteErr st e, cache)
      | Reply (RespOk _ _) \<Rightarrow> (QuoteErr 500 ''InternalError'', cache)
      | Raise _ \<Rightarrow> (QuoteErr 500 ''InternalError'', cache)
      | Go (k, pool) \<Rightarrow>
          (case findVaultPda (net_pda (env_net E)) k (env_programId E) of
             Throws _ \<Rightarrow> (QuoteErr 500 ''InternalError'', cache)
           | Returns vault \<Rightarrow>
               (let (cost, cache') = computeRelayerCost cache () (env_fees E [vault, env_relayer E]) (env_now1 E) (env_rent E) (env_now2 E)
                in (price_quote E now cost pool, cache'))))"

lemma price_quote_ok:
  assumes q: "price_quote E now (relayer_cost p rn) pool = QuoteOk q"
    and b: "0 \<le> p" "p \<le> 45035996273" "0 \<le> rn" "rn \<le> SAFE_LAMPORTS" and d: "0 \<le> pv_denomination pool"
  shows "BASE_FEE + rn \<le> q_feeMax q" "relayer_cost p rn \<le> q_feeMax q" "q_feeMax q \<le> pv_denomination pool div 50"
    "q_feeMax q = min ((3 * relayer_cost p rn + 1) div 2) (pv_denomination pool div 50)"
    "q_treasury q + q_receives q + q_feeMax q = q_denomination q" "q_denomination q = pv_denomination pool"
    "q_treasury q = pv_denomination pool div 500"
proof -
  let ?c = "relayer_cost p rn"
  have c: "?c = BASE_FEE + rn + (p + 4) div 5" using b by (simp add: relayer_cost_eq)
  have "0 \<le> (p + 4) div 5" "(p + 4) div 5 \<le> 9007199255" using b by presburger+
  then have r: "BASE_FEE + rn \<le> ?c" "0 \<le> ?c" "?c \<le> 3000000000000000"
    using b by (simp_all add: c fee_consts)
  have m: "?c \<le> (3 * ?c + 1) div 2" using r(2) by presburger
  have s: "pv_denomination pool sdiv 50 = pv_denomination pool div 50"
    "pv_denomination pool sdiv 500 = pv_denomination pool div 500" using d by (simp_all add: sdiv_nonneg)
  have cap: "?c \<le> pv_denomination pool div 50"
    using q by (simp add: price_quote_def Let_def s not_less split: if_splits)
  then show "q_feeMax q = min ((3 * ?c + 1) div 2) (pv_denomination pool div 50)"
    using q r by (auto simp: price_quote_def Let_def s feeMaxFromCost_eq)
  then show "?c \<le> q_feeMax q" "q_feeMax q \<le> pv_denomination pool div 50" "BASE_FEE + rn \<le> q_feeMax q"
    using m cap r by simp_all
  show "q_treasury q + q_receives q + q_feeMax q = q_denomination q" "q_denomination q = pv_denomination pool"
    "q_treasury q = pv_denomination pool div 500"
    using q by (auto simp: price_quote_def Let_def s computeMinUserReceives_def computeTreasuryFee_def split: if_splits)
qed

text \<open>
  A quote can be honoured by the submit route that receives it: the quoted ceiling covers the
  relayer's exact cost, stays within the program's cap, is the smaller of cost plus half and the cap,
  and splits the denomination without remainder; and a request for the same pool that carries that
  ceiling, while the rent has not risen, passes the cap check and the cost floor of
  \<open>handleSubmit\<close>.
\<close>

theorem quote_honoured:
  assumes q: "price_quote E now (relayer_cost p rn) pool = QuoteOk q"
    and b: "0 \<le> p" "p \<le> 45035996273" "0 \<le> rn" "rn \<le> SAFE_LAMPORTS"
    and pool: "load_pool_route E (rq_pool rq) = Go pool"
    and req: "rq_feeMax rq = q_feeMax q" and later: "0 \<le> rn'" "rn' \<le> rn"
  shows "relayer_cost p rn \<le> q_feeMax q
    \<and> q_feeMax q = min ((3 * relayer_cost p rn + 1) div 2) (q_denomination q div 50)
    \<and> q_denomination q div 500 + q_receives q + q_feeMax q = q_denomination q
    \<and> load_submit_pool E rq = Go pool
    \<and> \<not> rq_feeMax rq < rnd (BASE_FEE + rn')"
proof -
  have d: "0 \<le> pv_denomination pool"
    using pool by (auto simp: load_pool_route_Go view_of_def le_int_bounds)
  note f = price_quote_ok [OF q b d]
  have "load_submit_pool E rq = Go pool"
    using pool f(3) d by (simp add: load_submit_pool_def route_bind_def refuse_if_def req sdiv_nonneg not_less)
  moreover have "BASE_FEE + rn' \<le> q_feeMax q" using f(1) later by simp
  moreover have "rnd (BASE_FEE + rn') = BASE_FEE + rn'" using later b by (intro rnd_exact) (simp add: fee_consts)
  ultimately show ?thesis
    unfolding req f(6) using f(2,4,5) by (simp only: f(6,7) not_less)
qed

lemma quote_honoured_witness:
  "\<exists>q. price_quote example_env 0 (relayer_cost 1000 1056640) (view_of example_pool_data) = QuoteOk q
     \<and> q_feeMax q = 1592760 \<and> relayer_cost 1000 1056640 \<le> q_feeMax q"
proof -
  have c: "relayer_cost 1000 1056640 = 1061840" by (simp add: relayer_cost_eq fee_consts)
  have d: "pv_denomination (view_of example_pool_data) = 1000000000"
    by (simp add: view_of_def example_pool_data_props)
  obtain q where q: "price_quote example_env 0 (relayer_cost 1000 1056640) (view_of example_pool_data) = QuoteOk q"
      "q_denomination q = 1000000000"
    by (auto simp: price_quote_def Let_def c d sdiv_nonneg)
  have p: "load_pool_route example_env (rq_pool (example_req\<lparr>rq_feeMax := q_feeMax q\<rparr>)) = Go (view_of example_pool_data)"
    using example_pool by (simp add: load_pool_route_Go example_env_def example_req_def)
  show ?thesis
    using quote_honoured [OF q(1) _ _ _ _ p, of 1056640] q by (auto simp: c)
qed

end
