(* ===== verification/PendingGuard.thy ===== *)
theory PendingGuard
  imports SubmitProof
begin

text \<open>
  POST /submit_proof under concurrency, relayer/src/api.js. Node runs one callback at a time, so the
  test of \<open>pendingNullifiers\<close> and its insertion are one atomic step, and handlers interleave
  only where they await. The machine below keeps the set, the requests in flight and the transactions
  they have sent; any number of requests may arrive, send and finish in any order.
\<close>

subsection \<open>The lock interface\<close>

text \<open>What the route relies on: a set of held keys, taking one only when free, releasing one.\<close>

locale keyed_lock =
  fixes enter :: "'k \<Rightarrow> 's \<Rightarrow> 's option" and leave :: "'k \<Rightarrow> 's \<Rightarrow> 's" and held :: "'s \<Rightarrow> 'k \<Rightarrow> bool"
  assumes enter_free: "enter k s = Some s' \<Longrightarrow> \<not> held s k"
    and enter_held: "enter k s = Some s' \<Longrightarrow> held s' j \<longleftrightarrow> j = k \<or> held s j"
    and enter_busy: "enter k s = None \<longleftrightarrow> held s k"
    and leave_held: "held (leave k s) j \<longleftrightarrow> j \<noteq> k \<and> held s j"
begin

lemma enter_twice: "enter k s = Some s' \<Longrightarrow> enter k s' = None"
  by (simp add: enter_busy enter_held)

lemma enter_after_leave: "\<exists>s'. enter k (leave k s) = Some s'"
  using enter_busy [of k "leave k s"] leave_held [of k s k] by (cases "enter k (leave k s)") auto

end

definition guard_enter :: "string \<Rightarrow> string set \<Rightarrow> string set option" where
  "guard_enter key pending = (if key \<in> pending then None else Some (insert key pending))"

definition guard_leave :: "string \<Rightarrow> string set \<Rightarrow> string set" where
  "guard_leave key pending = pending - {key}"

interpretation pending_lock: keyed_lock guard_enter guard_leave "\<lambda>s k. k \<in> s"
  by unfold_locales (auto simp: guard_enter_def guard_leave_def split: if_splits)

subsection \<open>The route\<close>

definition pendingKey :: "json \<Rightarrow> string" where
  "pendingKey body = nullifierKey (js_index (js_get body ''publicSignals'') 0)"

definition guarded :: "json \<Rightarrow> bool" where
  "guarded body \<longleftrightarrow> pendingKey body \<noteq> invalid_key"

text \<open>Up to the call of \<open>handleSubmit\<close>: None is the 409 reply.\<close>

definition submit_arrive :: "json \<Rightarrow> string set \<Rightarrow> string set option" where
  "submit_arrive body pending = (if guarded body then guard_enter (pendingKey body) pending else Some pending)"

text \<open>The \<open>finally\<close> block, run whatever the handler did.\<close>

definition submit_finally :: "json \<Rightarrow> string set \<Rightarrow> string set" where
  "submit_finally body pending = (if guarded body then guard_leave (pendingKey body) pending else pending)"

record server =
  pendingNullifiers :: "string set"
  inflight :: "nat \<rightharpoonup> json"
  sent_by :: "nat \<rightharpoonup> withdraw_tx"

definition idle :: server where
  "idle = \<lparr>pendingNullifiers = {}, inflight = Map.empty, sent_by = Map.empty\<rparr>"

datatype server_event = Arrives nat json | Refused409 json | Sends nat withdraw_tx | Finishes nat

text \<open>
  A request sends what \<open>handleSubmit\<close> makes it send, for whatever the outside world answered
  while it was awaiting.
\<close>

inductive server_step :: "server \<Rightarrow> server_event \<Rightarrow> server \<Rightarrow> bool" where
  arrive: "inflight s i = None \<Longrightarrow> submit_arrive body (pendingNullifiers s) = Some p \<Longrightarrow>
    server_step s (Arrives i body)
      (s\<lparr>pendingNullifiers := p, inflight := (inflight s)(i \<mapsto> body), sent_by := (sent_by s)(i := None)\<rparr>)"
| refuse: "submit_arrive body (pendingNullifiers s) = None \<Longrightarrow> server_step s (Refused409 body) s"
| send: "inflight s i = Some body \<Longrightarrow> handleSubmit E cache body = (r, Some tx, cache') \<Longrightarrow>
    server_step s (Sends i tx) (s\<lparr>sent_by := (sent_by s)(i \<mapsto> tx)\<rparr>)"
| finish: "inflight s i = Some body \<Longrightarrow>
    server_step s (Finishes i)
      (s\<lparr>pendingNullifiers := submit_finally body (pendingNullifiers s), inflight := (inflight s)(i := None),
         sent_by := (sent_by s)(i := None)\<rparr>)"

inductive_cases server_step_cases: "server_step s e s'"

inductive server_reach :: "server \<Rightarrow> bool" where
  start: "server_reach idle"
| step: "server_reach s \<Longrightarrow> server_step s e s' \<Longrightarrow> server_reach s'"

subsection \<open>The invariant\<close>

definition guard_inv :: "server \<Rightarrow> bool" where
  "guard_inv s \<longleftrightarrow>
     pendingNullifiers s = {pendingKey b | i b. inflight s i = Some b \<and> guarded b}
     \<and> (\<forall>i j b c. inflight s i = Some b \<and> inflight s j = Some c \<and> guarded b
          \<and> pendingKey b = pendingKey c \<longrightarrow> i = j)
     \<and> (\<forall>i tx. sent_by s i = Some tx \<longrightarrow>
          (\<exists>b E cache r cache'. inflight s i = Some b \<and> handleSubmit E cache b = (r, Some tx, cache')))"

lemma guard_invI:
  "pendingNullifiers s = P \<Longrightarrow> inflight s = I \<Longrightarrow> sent_by s = S \<Longrightarrow>
   P = {pendingKey b | i b. I i = Some b \<and> guarded b} \<Longrightarrow>
   \<forall>i j b c. I i = Some b \<and> I j = Some c \<and> guarded b \<and> pendingKey b = pendingKey c \<longrightarrow> i = j \<Longrightarrow>
   \<forall>i tx. S i = Some tx \<longrightarrow> (\<exists>b E cache r cache'. I i = Some b \<and> handleSubmit E cache b = (r, Some tx, cache')) \<Longrightarrow>
   guard_inv s"
  unfolding guard_inv_def by blast

lemma guarded_key: "guarded b \<Longrightarrow> pendingKey b = pendingKey c \<Longrightarrow> guarded c"
  by (simp add: guarded_def)

lemma guard_inv_arrive:
  assumes inv: "guard_inv s" and new: "inflight s i = None" and a: "submit_arrive body (pendingNullifiers s) = Some p"
  shows "guard_inv (s\<lparr>pendingNullifiers := p, inflight := (inflight s)(i \<mapsto> body), sent_by := (sent_by s)(i := None)\<rparr>)"
proof -
  have p: "p = (if guarded body then insert (pendingKey body) (pendingNullifiers s) else pendingNullifiers s)"
    and free: "guarded body \<longrightarrow> pendingKey body \<notin> pendingNullifiers s"
    using a pending_lock.enter_free [of "pendingKey body"]
    by (auto simp: submit_arrive_def guard_enter_def split: if_splits)
  have held: "pendingNullifiers s = {pendingKey b | i b. inflight s i = Some b \<and> guarded b}"
    using inv by (simp add: guard_inv_def)
  have fresh: "pendingKey b \<noteq> pendingKey body" if "inflight s j = Some b" "guarded body" for j b
    using free held that guarded_key [of body b] by auto
  have set: "p = {pendingKey b | j b. ((inflight s)(i \<mapsto> body)) j = Some b \<and> guarded b}"
    using new unfolding p held by (auto split: if_splits) (metis option.distinct(1))+
  have "j = k" if "((inflight s)(i \<mapsto> body)) j = Some b" "((inflight s)(i \<mapsto> body)) k = Some c"
      "guarded b" "pendingKey b = pendingKey c" for j k b c
    using that inv fresh guarded_key [of b c] by (auto simp: guard_inv_def split: if_splits)
  then have excl: "\<forall>j k b c. ((inflight s)(i \<mapsto> body)) j = Some b \<and> ((inflight s)(i \<mapsto> body)) k = Some c
      \<and> guarded b \<and> pendingKey b = pendingKey c \<longrightarrow> j = k" by blast
  have snt: "\<forall>j tx. ((sent_by s)(i := None)) j = Some tx \<longrightarrow>
      (\<exists>b E cache r cache'. ((inflight s)(i \<mapsto> body)) j = Some b \<and> handleSubmit E cache b = (r, Some tx, cache'))"
    using inv by (simp add: guard_inv_def)
  show ?thesis by (rule guard_invI [OF _ _ _ set excl snt]) (simp_all add: fun_upd_def)
qed

lemma guard_inv_finish:
  assumes inv: "guard_inv s" and i: "inflight s i = Some body"
  shows "guard_inv (s\<lparr>pendingNullifiers := submit_finally body (pendingNullifiers s), inflight := (inflight s)(i := None),
         sent_by := (sent_by s)(i := None)\<rparr>)"
proof -
  have held: "pendingNullifiers s = {pendingKey b | i b. inflight s i = Some b \<and> guarded b}"
    and excl: "\<And>j k b c. inflight s j = Some b \<Longrightarrow> inflight s k = Some c \<Longrightarrow> guarded b
          \<Longrightarrow> pendingKey b = pendingKey c \<Longrightarrow> j = k"
    using inv by (auto simp: guard_inv_def)
  have "submit_finally body (pendingNullifiers s)
      = {pendingKey b | j b. ((inflight s)(i := None)) j = Some b \<and> guarded b}"
  proof (cases "guarded body")
    case True
    have "pendingKey b = pendingKey body \<longleftrightarrow> j = i" if "inflight s j = Some b" for j b
      using excl [OF i that True] that i by auto
    then show ?thesis
      unfolding submit_finally_def guard_leave_def held using True i
      by (auto split: if_splits)
  next
    case False
    have "j \<noteq> i" if "inflight s j = Some b" "guarded b" for j b
      using that False i by auto
    then show ?thesis
      unfolding submit_finally_def held using False by (auto split: if_splits)
  qed
  moreover have "\<forall>j k b c. ((inflight s)(i := None)) j = Some b \<and> ((inflight s)(i := None)) k = Some c
      \<and> guarded b \<and> pendingKey b = pendingKey c \<longrightarrow> j = k"
    using excl by (auto split: if_splits)
  moreover have "\<forall>j tx. ((sent_by s)(i := None)) j = Some tx \<longrightarrow>
      (\<exists>b E cache r cache'. ((inflight s)(i := None)) j = Some b \<and> handleSubmit E cache b = (r, Some tx, cache'))"
    using inv by (auto simp: guard_inv_def)
  ultimately show ?thesis by (simp add: guard_inv_def)
qed

lemma guard_inv_step: "server_step s e s' \<Longrightarrow> guard_inv s \<Longrightarrow> guard_inv s'"
proof (induction rule: server_step.induct)
  case (arrive s i body p)
  then show ?case by (intro guard_inv_arrive)
next
  case (send s i body E cache r tx cache')
  then show ?case by (auto simp: guard_inv_def)
next
  case (finish s i body)
  then show ?case by (intro guard_inv_finish)
qed simp

lemma guard_inv_reach: "server_reach s \<Longrightarrow> guard_inv s"
  by (induction rule: server_reach.induct) (simp add: guard_inv_def idle_def, rule guard_inv_step)

subsection \<open>What follows\<close>

lemma guarded_signal:
  assumes "guarded b"
  obtains n where "json_bigint (js_index (js_get b ''publicSignals'') 0) = Returns n" "0 \<le> n" "n < BN254_Fr"
    "pendingKey b = big_to_string 10 n"
proof -
  obtain t n where "js_index (js_get b ''publicSignals'') 0 = JStr t" "string_to_bigint t = Some n" "0 \<le> n" "n < BN254_Fr"
      "pendingKey b = big_to_string 10 n"
    using assms nullifierKey_valid [of "js_index (js_get b ''publicSignals'') 0"]
    by (auto simp: guarded_def pendingKey_def)
  then show thesis using that by (auto simp: json_bigint_JStr string_bigint_js_def)
qed

lemma sent_nullifier:
  assumes "handleSubmit E cache b = (r, Some tx, cache')" "json_bigint (js_index (js_get b ''publicSignals'') 0) = Returns n"
  shows "wa_nullifierHash (tx_args tx) = bigIntToBytes32 n"
  using assms(1)
proof (rule handleSubmit_sent)
  fix rq pool plan lv
  assume "parse_submit E b = Go rq"
    and b: "build_withdraw (env_net E) (env_relayer E) (env_programId E) (rq_pool rq) (rq_recipient rq)
       (pv_treasury pool) (rq_proof rq) (rq_signals rq) (rq_feeMax rq) (sp_fee plan) (sp_perCU plan) = Returns (tx, lv)"
  then show ?thesis using build_withdraw_fields(9) [OF b] assms(2) by (auto simp: parse_submit_Go)
qed

text \<open>
  A request that names a note as every client of the repository does: its first signal is the text of a
  field element, of at most 80 characters, in any spelling \<open>BigInt\<close> reads.
\<close>

definition names_note :: "json \<Rightarrow> int \<Rightarrow> bool" where
  "names_note body n \<longleftrightarrow> (\<exists>t. js_index (js_get body ''publicSignals'') 0 = JStr t \<and> t \<noteq> [] \<and> length t \<le> 80
     \<and> string_to_bigint t = Some n \<and> 0 \<le> n \<and> n < BN254_Fr)"

lemma names_note_key: "names_note b n \<Longrightarrow> guarded b \<and> pendingKey b = big_to_string 10 n"
  using decimal_not_invalid by (auto simp: names_note_def guarded_def pendingKey_def nullifierKey_def)

lemma names_note_signal: "names_note b n \<Longrightarrow> json_bigint (js_index (js_get b ''publicSignals'') 0) = Returns n \<and> 0 \<le> n \<and> n < BN254_Fr"
  by (auto simp: names_note_def json_bigint_JStr string_bigint_js_def)

lemma guarded_names_note: "guarded b \<longleftrightarrow> (\<exists>n. names_note b n)"
proof
  assume "guarded b"
  then show "\<exists>n. names_note b n" using nullifierKey_valid [of "js_index (js_get b ''publicSignals'') 0"]
    by (auto simp: names_note_def guarded_def pendingKey_def)
qed (use names_note_key in blast)

lemma names_note_keys:
  "{pendingKey b | i b. I i = Some b \<and> guarded b} = {big_to_string 10 n | i b n. I i = Some b \<and> names_note b n}"
proof (intro set_eqI iffI)
  fix k
  assume "k \<in> {pendingKey b | i b. I i = Some b \<and> guarded b}"
  then obtain i b n where "I i = Some b" "k = pendingKey b" "names_note b n" using guarded_names_note by blast
  then show "k \<in> {big_to_string 10 n | i b n. I i = Some b \<and> names_note b n}" using names_note_key [of b n] by blast
next
  fix k
  assume "k \<in> {big_to_string 10 n | i b n. I i = Some b \<and> names_note b n}"
  then obtain i b n where "I i = Some b" "k = big_to_string 10 n" "names_note b n" by blast
  then show "k \<in> {pendingKey b | i b. I i = Some b \<and> guarded b}" using names_note_key [of b n] by force
qed

lemma same_note_same_request:
  assumes "guard_inv s" "inflight s i = Some b" "inflight s j = Some c" "names_note b n" "names_note c n"
  shows "i = j"
proof -
  have "guarded b" "pendingKey b = pendingKey c" using assms names_note_key by simp_all
  then show ?thesis using assms(1-3) unfolding guard_inv_def by blast
qed

text \<open>
  C20. In every state the route can reach, by any interleaving of arrivals, sends and completions, the
  pending set holds exactly the canonical keys of the requests in flight whose nullifier is the text of
  a field element in at most 80 characters, so no key leaks and none is released early; no two such
  requests for one field element are in flight at once, however they spell it and whatever they have
  done so far; and no two of them have sent transactions with the same nullifier hash. Nothing is
  claimed of longer spellings, which the route does not guard.
\<close>

theorem pending_guard_exclusive:
  assumes "server_reach s"
  shows "pendingNullifiers s = {big_to_string 10 n | i b n. inflight s i = Some b \<and> names_note b n}
    \<and> (\<forall>i j b c n. inflight s i = Some b \<and> inflight s j = Some c \<and> names_note b n \<and> names_note c n \<longrightarrow> i = j)
    \<and> (\<forall>i j b c m n tx ty. inflight s i = Some b \<and> inflight s j = Some c \<and> names_note b m \<and> names_note c n
         \<and> sent_by s i = Some tx \<and> sent_by s j = Some ty
         \<and> wa_nullifierHash (tx_args tx) = wa_nullifierHash (tx_args ty) \<longrightarrow> i = j)"
proof (intro conjI allI impI)
  note inv = guard_inv_reach [OF assms]
  show "pendingNullifiers s = {big_to_string 10 n | i b n. inflight s i = Some b \<and> names_note b n}"
    using inv unfolding guard_inv_def names_note_keys [symmetric] by blast
  have excl: "i = j" if "inflight s i = Some b" "inflight s j = Some c" "names_note b n" "names_note c n" for i j b c n
    by (rule same_note_same_request [OF inv that])
  fix i j b c n
  show "inflight s i = Some b \<and> inflight s j = Some c \<and> names_note b n \<and> names_note c n \<Longrightarrow> i = j" using excl by blast
next
  note inv = guard_inv_reach [OF assms]
  fix i j b c m n tx ty
  assume a: "inflight s i = Some b \<and> inflight s j = Some c \<and> names_note b m \<and> names_note c n
         \<and> sent_by s i = Some tx \<and> sent_by s j = Some ty
         \<and> wa_nullifierHash (tx_args tx) = wa_nullifierHash (tx_args ty)"
  have hash: "wa_nullifierHash (tx_args t) = bigIntToBytes32 v"
    if "inflight s k = Some d" "sent_by s k = Some t" "names_note d v" for k d t v
  proof -
    note k = that
    obtain E cache r cache' where "handleSubmit E cache d = (r, Some t, cache')"
      using inv k(1,2) unfolding guard_inv_def by (metis option.inject)
    then show ?thesis using names_note_signal [OF k(3)] sent_nullifier by blast
  qed
  have "bigIntToBytes32 m = bigIntToBytes32 n" using a hash by metis
  then have "m = n" using a names_note_signal BN254_less(1) bytes32.enc_inj [of m n] by force
  then show "i = j" using same_note_same_request [OF inv, of i b j c m] a by blast
qed

lemma server_run_example:
  "\<exists>s tx. server_reach s \<and> inflight s 0 = Some example_body \<and> sent_by s 0 = Some tx
     \<and> pendingNullifiers s = {''5''} \<and> submit_arrive example_body (pendingNullifiers s) = None"
proof -
  obtain tx c where h: "handleSubmit example_env Map.empty example_body = (RespOk ''sig'' 1061840, Some tx, c)"
    by (rule example_submission)
  have k: "pendingKey example_body = ''5''" by code_simp
  have g: "guarded example_body" by (simp add: guarded_def k invalid_key_def)
  let ?s1 = "idle\<lparr>pendingNullifiers := {''5''}, inflight := [0 \<mapsto> example_body], sent_by := Map.empty\<rparr>"
  have "server_step idle (Arrives 0 example_body)
      (idle\<lparr>pendingNullifiers := {''5''}, inflight := (inflight idle)(0 \<mapsto> example_body), sent_by := (sent_by idle)(0 := None)\<rparr>)"
    by (rule server_step.arrive) (simp_all add: idle_def submit_arrive_def g k guard_enter_def)
  then have r1: "server_reach ?s1" using server_reach.step [OF server_reach.start] by (simp add: idle_def fun_upd_idem)
  have "server_step ?s1 (Sends 0 tx) (?s1\<lparr>sent_by := (sent_by ?s1)(0 \<mapsto> tx)\<rparr>)"
    by (rule server_step.send [OF _ h]) simp
  then have "server_reach (?s1\<lparr>sent_by := (sent_by ?s1)(0 \<mapsto> tx)\<rparr>)"
    using server_reach.step [OF r1] by blast
  then show ?thesis
    by (intro exI conjI) (auto simp: submit_arrive_def g k guard_enter_def)
qed

lemma pending_guard_exclusive_witness:
  "\<exists>s. server_reach s \<and> inflight s 0 = Some example_body \<and> pendingNullifiers s = {''5''}
     \<and> (\<forall>j c. inflight s j = Some c \<and> names_note c 5 \<longrightarrow> j = 0)"
proof -
  obtain s where s: "server_reach s" "pendingNullifiers s = {''5''}" "inflight s 0 = Some example_body"
    using server_run_example by blast
  have "string_to_bigint ''5'' = Some 5" by code_simp
  then have "names_note example_body 5" by (simp add: names_note_def example_body_def js_get_def js_index_def BN254_Fr_def)
  then have "\<forall>j c. inflight s j = Some c \<and> names_note c 5 \<longrightarrow> j = 0"
    using pending_guard_exclusive [OF s(1)] s(3) by blast
  then show ?thesis using s by blast
qed

text \<open>
  What the route does not guard: with 80 zeros in front, the same nullifier is not a key, although the
  handler checks and sends it like any other. Two such requests for one note are both in flight, and
  both have sent a transaction that spends it.
\<close>

definition long_text :: string where "long_text = replicate 80 (CHR ''0'') @ ''5''"

definition long_body :: json where
  "long_body = JObj
    [(''proof'', js_get example_body ''proof''), (''publicSignals'', JArr [JStr long_text, JStr ''7'', JStr ''42'']),
     (''poolAddress'', JStr ''pool''), (''recipient'', JStr ''dest''), (''relayerFeeMax'', JStr ''1600000'')]"

lemma long_signal: "json_bigint (JStr long_text) = Returns 5"
  by code_simp

lemma long_submission:
  obtains tx cache' where "handleSubmit example_env Map.empty long_body = (RespOk ''sig'' 1061840, Some tx, cache')"
    "wa_nullifierHash (tx_args tx) = bigIntToBytes32 5"
proof -
  let ?rq = "example_req\<lparr>rq_signals := JArr [JStr long_text, JStr ''7'', JStr ''42'']\<rparr>"
  have m: "parse_fee_max (JStr ''1600000'') = Go 1600000"
  proof -
    have "is_decimal_u64_text ''1600000'' \<and> string_to_bigint ''1600000'' = Some 1600000" by code_simp
    then show ?thesis by (simp add: parse_fee_max_Go U64_MAX_def)
  qed
  have p: "parse_submit example_env long_body = Go ?rq"
    using m by (simp add: parse_submit_Go long_body_def example_body_def js_get_def js_truthy_def example_req_def example_env_def)
  have l: "load_submit_pool example_env ?rq = Go (view_of example_pool_data)"
    using example_loaded by (simp add: load_submit_pool_def)
  have c: "check_submit example_env ?rq (view_of example_pool_data) = Go ()"
    using example_signals long_signal example_pool_data_props
    by (auto simp: check_submit_Go preflight_ok_iff example_req_def js_index_def example_env_def view_of_def
        spent_check_def nullifier_lookup_def submit_chain_def)
  have r: "price_submit example_env ?rq 1056640 = Go \<lparr>sp_fee = 1061840, sp_perCU = 1000\<rparr>"
    using example_priced by (simp add: price_submit_def)
  have go: "fst (submit_checks example_env Map.empty long_body)
      = Go (?rq, view_of example_pool_data, \<lparr>sp_fee = 1061840, sp_perCU = 1000\<rparr>)"
    using p l c r by (simp add: submit_checks_Go example_rent)
  obtain pb where pb: "snarkjsProofToBytes (js_get example_body ''proof'') = Returns pb"
    using example_proof_bytes by blast
  obtain tx where b: "build_withdraw (env_net example_env) (env_relayer example_env) (env_programId example_env)
      (rq_pool ?rq) (rq_recipient ?rq) (pv_treasury (view_of example_pool_data)) (rq_proof ?rq)
      (rq_signals ?rq) (rq_feeMax ?rq) 1061840 1000 = Returns (tx, 100)"
    using pb example_signals long_signal
    by (auto simp: build_withdraw_def example_env_def example_req_def js_index_def findNullifierPda_def findVaultPda_def Let_def)
  have "handleSubmit example_env Map.empty long_body
      = (RespOk ''sig'' 1061840, Some tx, snd (submit_checks example_env Map.empty long_body))"
    using handleSubmit_success [OF go, of tx 100 "''sig''"] b by (simp add: example_env_def)
  moreover have "wa_nullifierHash (tx_args tx) = bigIntToBytes32 5"
    using build_withdraw_fields(9) [OF b] long_signal by (auto simp: js_index_def)
  ultimately show ?thesis using that by blast
qed

lemma long_nullifier_unguarded:
  "\<exists>s tx. server_reach s \<and> inflight s 0 = Some long_body \<and> inflight s 1 = Some long_body \<and> pendingNullifiers s = {}
     \<and> sent_by s 0 = Some tx \<and> sent_by s 1 = Some tx \<and> wa_nullifierHash (tx_args tx) = bigIntToBytes32 5"
proof -
  obtain tx c where h: "handleSubmit example_env Map.empty long_body = (RespOk ''sig'' 1061840, Some tx, c)"
      "wa_nullifierHash (tx_args tx) = bigIntToBytes32 5"
    by (rule long_submission)
  have "nullifierKey (JStr long_text) = invalid_key" by code_simp
  then have g: "\<not> guarded long_body" by (simp add: guarded_def pendingKey_def long_body_def js_get_def js_index_def)
  let ?s1 = "idle\<lparr>inflight := [0 \<mapsto> long_body]\<rparr>" and ?s2 = "idle\<lparr>inflight := [0 \<mapsto> long_body, 1 \<mapsto> long_body]\<rparr>"
  have "server_step idle (Arrives 0 long_body)
      (idle\<lparr>pendingNullifiers := {}, inflight := (inflight idle)(0 \<mapsto> long_body), sent_by := (sent_by idle)(0 := None)\<rparr>)"
    by (rule server_step.arrive) (simp_all add: idle_def submit_arrive_def g)
  then have r1: "server_reach ?s1" using server_reach.step [OF server_reach.start] by (simp add: idle_def fun_upd_idem)
  have "server_step ?s1 (Arrives 1 long_body)
      (?s1\<lparr>pendingNullifiers := {}, inflight := (inflight ?s1)(1 \<mapsto> long_body), sent_by := (sent_by ?s1)(1 := None)\<rparr>)"
    by (rule server_step.arrive) (simp_all add: idle_def submit_arrive_def g)
  then have r2: "server_reach ?s2" using server_reach.step [OF r1] by (simp add: idle_def fun_upd_idem)
  have "server_step ?s2 (Sends 0 tx) (?s2\<lparr>sent_by := (sent_by ?s2)(0 \<mapsto> tx)\<rparr>)"
    by (rule server_step.send [OF _ h(1)]) simp
  then have r3: "server_reach (?s2\<lparr>sent_by := [0 \<mapsto> tx]\<rparr>)" using server_reach.step [OF r2] by (simp add: idle_def)
  have "server_step (?s2\<lparr>sent_by := [0 \<mapsto> tx]\<rparr>) (Sends 1 tx) (?s2\<lparr>sent_by := [0 \<mapsto> tx]\<rparr>\<lparr>sent_by := (sent_by (?s2\<lparr>sent_by := [0 \<mapsto> tx]\<rparr>))(1 \<mapsto> tx)\<rparr>)"
    by (rule server_step.send [OF _ h(1)]) simp
  then have "server_reach (?s2\<lparr>sent_by := [0 \<mapsto> tx, 1 \<mapsto> tx]\<rparr>)" using server_reach.step [OF r3] by simp
  then show ?thesis using h(2) by (intro exI conjI) (auto simp: idle_def)
qed

text \<open>
  The guard refuses exactly the duplicates: in every reachable state a guarded request gets the
  409 reply if and only if a request for the same field element is in flight, and once that one
  finishes, whatever its outcome, the next request for the note is accepted.
\<close>

theorem pending_guard_live:
  assumes "server_reach s" "guarded body"
  shows "(submit_arrive body (pendingNullifiers s) = None
           \<longleftrightarrow> (\<exists>i b. inflight s i = Some b \<and> guarded b \<and> pendingKey b = pendingKey body))
    \<and> (\<forall>i b s'. inflight s i = Some b \<and> pendingKey b = pendingKey body \<and> server_step s (Finishes i) s'
         \<longrightarrow> submit_arrive body (pendingNullifiers s') \<noteq> None)"
proof (intro conjI allI impI)
  have inv: "guard_inv s" using assms by (simp add: guard_inv_reach)
  show "submit_arrive body (pendingNullifiers s) = None
           \<longleftrightarrow> (\<exists>i b. inflight s i = Some b \<and> guarded b \<and> pendingKey b = pendingKey body)"
    using inv assms(2) by (auto simp: submit_arrive_def pending_lock.enter_busy guard_inv_def) metis+
  fix i b s'
  assume a: "inflight s i = Some b \<and> pendingKey b = pendingKey body \<and> server_step s (Finishes i) s'"
  then have "pendingNullifiers s' = guard_leave (pendingKey body) (pendingNullifiers s)"
    using assms(2) guarded_key [of body b]
    by (auto elim!: server_step_cases simp: submit_finally_def)
  then show "submit_arrive body (pendingNullifiers s') \<noteq> None"
    using assms(2) pending_lock.enter_after_leave [of "pendingKey body" "pendingNullifiers s"]
    by (auto simp: submit_arrive_def)
qed

lemma pending_guard_live_witness:
  "\<exists>s. server_reach s \<and> submit_arrive example_body (pendingNullifiers s) \<noteq> None"
proof -
  have g: "guarded example_body" by code_simp
  show ?thesis using pending_guard_live [OF server_reach.start g] server_reach.start
    by (intro exI [of _ idle]) (auto simp: idle_def)
qed

end
