(* ===== verification/Note.thy ===== *)
theory Note
  imports TxBuild
begin

text \<open>
  Secret notes, sdk/src/note.js: sampling field elements, the note string and its parser. The
  random bytes, and the base58 text of a public key with its parser, are parameters.
\<close>

subsection \<open>Sampling\<close>

text \<open>\<open>let n = 0n; for (const b of bytes) n = (n << 8n) | BigInt(b)\<close> is \<open>be_int\<close>.\<close>

primrec sample_from :: "(nat \<Rightarrow> bytes) \<Rightarrow> nat \<Rightarrow> nat \<Rightarrow> int js" where
  "sample_from rng attempt 0 = Throws ''Failed to sample a field element in 128 attempts''"
| "sample_from rng attempt (Suc left) =
     (let n = be_int (rng attempt) in if n < BN254_Fr then Returns n else sample_from rng (attempt + 1) left)"

definition randomFieldElement :: "(nat \<Rightarrow> bytes) \<Rightarrow> int js" where
  "randomFieldElement rng = sample_from rng 0 128"

lemma sample_from_spec:
  "sample_from rng k left = (case find (\<lambda>i. be_int (rng i) < BN254_Fr) [k..<k + left] of
      None \<Rightarrow> Throws ''Failed to sample a field element in 128 attempts'' | Some i \<Rightarrow> Returns (be_int (rng i)))"
proof (induction left arbitrary: k)
  case (Suc left)
  have "[k..<k + Suc left] = k # [Suc k..<Suc k + left]" by (simp add: upt_conv_Cons)
  then show ?case using Suc [of "Suc k"] by (simp del: upt_Suc)
qed simp

text \<open>
  Sampling is unbiased and fails closed: the result is the first of at most 128 random blocks
  below the field order, so always a field element, and an error only when all 128 blocks were
  rejected; and each field element is the value of exactly one 32-byte block, so accepted uniform
  blocks give uniform field elements.
\<close>

theorem sampling_unbiased:
  "(case randomFieldElement rng of
      Returns v \<Rightarrow> (\<exists>i<128. v = be_int (rng i) \<and> 0 \<le> v \<and> v < BN254_Fr \<and> (\<forall>j\<in>{..<i}. BN254_Fr \<le> be_int (rng j)))
    | Throws _ \<Rightarrow> (\<forall>i\<in>{..<128}. BN254_Fr \<le> be_int (rng i)))
   \<and> (0 \<le> x \<and> x < BN254_Fr \<longrightarrow> (\<exists>!b. length b = 32 \<and> be_int b = x))"
proof
  show "case randomFieldElement rng of
      Returns v \<Rightarrow> (\<exists>i<128. v = be_int (rng i) \<and> 0 \<le> v \<and> v < BN254_Fr \<and> (\<forall>j\<in>{..<i}. BN254_Fr \<le> be_int (rng j)))
    | Throws _ \<Rightarrow> (\<forall>i\<in>{..<128}. BN254_Fr \<le> be_int (rng i))"
  proof (cases "find (\<lambda>i. be_int (rng i) < BN254_Fr) [0..<0 + 128]")
    case None
    then have "\<forall>i\<in>{..<128}. BN254_Fr \<le> be_int (rng i)"
      by (auto simp: find_None_iff not_less simp del: upt_Suc) (metis not_less)
    then show ?thesis unfolding randomFieldElement_def sample_from_spec None by simp
  next
    case (Some i)
    then obtain k where "k < 128" "i = k" "be_int (rng k) < BN254_Fr" "\<forall>j<k. \<not> be_int (rng j) < BN254_Fr"
      by (auto simp: find_Some_iff simp del: upt_Suc)
    then show ?thesis unfolding randomFieldElement_def sample_from_spec Some by (auto simp: not_less)
  qed
  show "0 \<le> x \<and> x < BN254_Fr \<longrightarrow> (\<exists>!b. length b = 32 \<and> be_int b = x)"
  proof
    assume x: "0 \<le> x \<and> x < BN254_Fr"
    then have "be_int (be_bytes 32 x) = x" using BN254_less(1) by (simp add: be_int_be_bytes)
    then show "\<exists>!b. length b = 32 \<and> be_int b = x"
      by (metis be_bytes_be_int length_be_bytes)
  qed
qed

lemma sampling_unbiased_witness: "\<exists>!b. length b = 32 \<and> be_int b = 5"
  using sampling_unbiased [of "\<lambda>i. []" 5] by (simp add: BN254_Fr_def)

subsection \<open>Hex fields\<close>

definition bigintToHex64 :: "int \<Rightarrow> string" where
  "bigintToHex64 n = padStart 64 (CHR ''0'') (big_to_string 16 n)"

definition hex64ToBigint :: "string \<Rightarrow> int js" where
  "hex64ToBigint hex = (if length hex \<noteq> 64 then Throws ''Invalid hex length'' else string_bigint_js (''0x'' @ hex))"

text \<open>\<open>/^[0-9a-f]+$/.test(s)\<close>.\<close>

definition lower_hex_char :: "char \<Rightarrow> bool" where
  "lower_hex_char c = (let n = (of_char c :: nat) in (48 \<le> n \<and> n \<le> 57) \<or> (97 \<le> n \<and> n \<le> 102))"

definition lower_hex :: "string \<Rightarrow> bool" where
  "lower_hex s \<longleftrightarrow> s \<noteq> [] \<and> list_all lower_hex_char s"

lemma lower_hex_char_digit: "lower_hex_char c \<longleftrightarrow> digit_in 16 c \<and> digit_char (the (digit_val c)) = c"
proof
  assume a: "lower_hex_char c"
  let ?n = "of_char c :: nat"
  consider "48 \<le> ?n" "?n \<le> 57" | "97 \<le> ?n" "?n \<le> 102"
    using a by (auto simp: lower_hex_char_def Let_def)
  then show "digit_in 16 c \<and> digit_char (the (digit_val c)) = c"
    by cases (auto simp: digit_in_def digit_val_def digit_char_def Let_def)
next
  assume a: "digit_in 16 c \<and> digit_char (the (digit_val c)) = c"
  then obtain d where d: "d < 16" "c = digit_char d"
    by (auto simp: digit_in_def split: option.splits)
  then show "lower_hex_char c" by (auto simp: lower_hex_char_def digit_char_def Let_def)
qed

lemma lower_hex_digits: "lower_hex s \<Longrightarrow> all_digits 16 s"
  by (auto simp: lower_hex_def lower_hex_char_digit all_digits_def list_all_iff)

lemma lower_hex_to_digits: "list_all lower_hex_char (to_digits 16 n)"
proof (induction n rule: less_induct)
  case (less n)
  have d: "lower_hex_char (digit_char k)" if "k < 16" for k
    using that by (simp add: lower_hex_char_digit)
  show ?case
  proof (cases "n < 16")
    case True
    then show ?thesis using d by (subst to_digits.simps) simp
  next
    case False
    then have "list_all lower_hex_char (to_digits 16 (n div 16))" using less by simp
    then show ?thesis using d False by (subst to_digits.simps) simp
  qed
qed

text \<open>A string of lower-case hex digits is the zero-padded print of its own value.\<close>

lemma padStart_digits_val:
  assumes "list_all lower_hex_char s" "s \<noteq> []"
  shows "padStart (length s) (CHR ''0'') (to_digits 16 (digits_val 16 s)) = s"
  using assms
proof (induction s)
  case (Cons c s)
  show ?case
  proof (cases "c = CHR ''0'' \<and> s \<noteq> []")
    case True
    have IH: "padStart (length s) (CHR ''0'') (to_digits 16 (digits_val 16 s)) = s" using Cons True by simp
    have c: "c = CHR ''0''" using True by simp
    have v: "digits_val 16 (CHR ''0'' # s) = digits_val 16 s"
      using digits_val_zeros [of 16 1 s] by simp
    have "length (to_digits 16 (digits_val 16 s)) \<le> length s"
      using IH by (metis add_diff_cancel_right' diff_le_self length_append length_replicate nat_le_linear
          padStart_def append_Nil diff_is_0_eq' replicate_0)
    then have "padStart (length (c # s)) (CHR ''0'') (to_digits 16 (digits_val 16 s))
        = CHR ''0'' # padStart (length s) (CHR ''0'') (to_digits 16 (digits_val 16 s))"
      by (simp add: padStart_def Suc_diff_le)
    then show ?thesis using IH by (simp add: v c)
  next
    case False
    have "to_digits 16 (digits_val 16 (c # s)) = c # s"
      using Cons.prems False by (intro to_digits_digits_val) (auto simp: lower_hex_char_digit)
    then show ?thesis by (simp add: padStart_def)
  qed
qed simp

lemma string_bigint_hex: "lower_hex s \<Longrightarrow> string_bigint_js (''0x'' @ s) = Returns (int (digits_val 16 s))"
proof -
  assume s: "lower_hex s"
  have "\<not> is_space (last s)"
  proof -
    have "lower_hex_char (last s)" using s last_in_set [of s] by (simp add: lower_hex_def list_all_iff)
    then show ?thesis by (auto simp: lower_hex_char_def is_space_def Let_def)
  qed
  moreover have "\<not> is_space (CHR ''0'')" by code_simp
  moreover have "s \<noteq> []" using s by (simp add: lower_hex_def)
  ultimately have "trim (''0x'' @ s) = ''0x'' @ s" by (intro trim_id) simp_all
  then show ?thesis
    using s lower_hex_digits [OF s] by (simp add: string_bigint_js_def string_to_bigint.simps parse_digits_def lower_hex_def)
qed

text \<open>A fixed-width hex field: the printer pads, the reader checks width and alphabet.\<close>

definition hex_field :: "nat \<Rightarrow> int \<Rightarrow> string" where
  "hex_field w n = padStart w (CHR ''0'') (big_to_string 16 n)"

definition read_hex_field :: "nat \<Rightarrow> string \<Rightarrow> int option" where
  "read_hex_field w s = (if length s = w \<and> lower_hex s then Some (int (digits_val 16 s)) else None)"

lemma hex_field_props:
  assumes "0 < w" "0 \<le> n" "n < 16 ^ w"
  shows "length (hex_field w n) = w" "lower_hex (hex_field w n)" "digits_val 16 (hex_field w n) = nat n"
proof -
  obtain k where w: "w = Suc k" using assms(1) by (cases w) auto
  have "nat n < 16 ^ Suc k" using assms w by (simp add: nat_less_iff)
  then have "length (to_digits 16 (nat n)) \<le> w" unfolding w by (rule length_to_digits [rotated]) simp
  moreover have "lower_hex_char (CHR ''0'')" by code_simp
  ultimately show "length (hex_field w n) = w" "lower_hex (hex_field w n)" "digits_val 16 (hex_field w n) = nat n"
    using assms(2) lower_hex_to_digits [of "nat n"]
    by (auto simp: hex_field_def padStart_def big_to_string_def lower_hex_def digits_val_zeros to_digits_val list_all_iff)
qed

interpretation hexw: canonical_codec "hex_field w" "read_hex_field w" "\<lambda>n. 0 < w \<and> 0 \<le> n \<and> n < 16 ^ w" for w
proof unfold_locales
  fix w :: nat and n :: int assume "0 < w \<and> 0 \<le> n \<and> n < 16 ^ w"
  then show "read_hex_field w (hex_field w n) = Some n" by (simp add: read_hex_field_def hex_field_props)
next
  fix w :: nat and s :: string and n :: int assume "read_hex_field w s = Some n"
  then have "length s = w" "lower_hex s" "n = int (digits_val 16 s)"
    by (auto simp: read_hex_field_def split: if_splits)
  then show "hex_field w n = s"
    using padStart_digits_val [of s] by (auto simp: hex_field_def big_to_string_def lower_hex_def)
qed

lemma read_hex_bound: "read_hex_field w s = Some n \<Longrightarrow> 0 \<le> n \<and> n < 16 ^ w"
proof -
  assume "read_hex_field w s = Some n"
  then have s: "length s = w" "lower_hex s" "n = int (digits_val 16 s)"
    by (auto simp: read_hex_field_def split: if_splits)
  then have "digits_val 16 s < 16 ^ w" using digits_val_bound [OF lower_hex_digits [OF s(2)]] by simp
  then show ?thesis using s(3) by (metis of_nat_0_le_iff of_nat_less_iff of_nat_numeral of_nat_power)
qed

subsection \<open>The note string\<close>

record secret_note =
  sn_nullifier :: int
  sn_secret :: int
  sn_denomination :: int
  sn_poolAddress :: pubkey

definition NOTE_PREFIX :: string where "NOTE_PREFIX = ''sndo_''"

definition generateNote :: "(nat \<Rightarrow> bytes) \<Rightarrow> (nat \<Rightarrow> bytes) \<Rightarrow> int \<Rightarrow> pubkey \<Rightarrow> secret_note js" where
  "generateNote rng1 rng2 denomination poolAddress =
     (if denomination < 500 then Throws ''Denomination must be >= 500 lamports (BF-14)''
      else js_bind (randomFieldElement rng1) (\<lambda>nullifier.
           js_bind (randomFieldElement rng2) (\<lambda>secret.
           Returns \<lparr>sn_nullifier = nullifier, sn_secret = secret, sn_denomination = denomination,
                    sn_poolAddress = poolAddress\<rparr>)))"

definition encodeNote :: "(pubkey \<Rightarrow> string) \<Rightarrow> secret_note \<Rightarrow> string" where
  "encodeNote toBase58 note =
     (let poolB58 = toBase58 (sn_poolAddress note);
          denomHex = padStart 16 (CHR ''0'') (big_to_string 16 (sn_denomination note));
          nullHex = bigintToHex64 (sn_nullifier note);
          secretHex = bigintToHex64 (sn_secret note)
      in NOTE_PREFIX @ poolB58 @ ''_'' @ denomHex @ ''_'' @ nullHex @ secretHex)"

definition decodeNote :: "(string \<Rightarrow> pubkey js) \<Rightarrow> string \<Rightarrow> secret_note js" where
  "decodeNote parse encoded =
     (if \<not> starts_with encoded NOTE_PREFIX then Throws (''Invalid note: must start with '' @ [char_of (39 :: nat)] @ ''sndo_'' @ [char_of (39 :: nat)])
      else let body = drop (length NOTE_PREFIX) encoded; parts = split_on (CHR ''_'') body in
        if length parts \<noteq> 3 then Throws ''Invalid note format: expected sndo_<pool>_<denom>_<preimage>''
        else let poolB58 = parts ! 0; denomHex = parts ! 1; preimage = parts ! 2 in
        (case parse poolB58 of
           Throws _ \<Rightarrow> Throws ''Invalid note: malformed pool address''
         | Returns poolAddress \<Rightarrow>
             if length denomHex \<noteq> 16 \<or> \<not> lower_hex denomHex
             then Throws ''Invalid note: denomination must be 16 lowercase hex chars''
             else js_bind (string_bigint_js (''0x'' @ denomHex)) (\<lambda>denomination.
               if length preimage \<noteq> 128 then Throws ''Invalid note: preimage must be 128 hex chars''
               else if \<not> lower_hex preimage then Throws ''Invalid note: preimage must be lowercase hex''
               else js_bind (hex64ToBigint (take 64 preimage)) (\<lambda>nullifier.
                    js_bind (hex64ToBigint (drop 64 preimage)) (\<lambda>secret.
                    if BN254_Fr \<le> nullifier then Throws ''Invalid note: nullifier exceeds BN254 field order''
                    else if BN254_Fr \<le> secret then Throws ''Invalid note: secret exceeds BN254 field order''
                    else Returns \<lparr>sn_nullifier = nullifier, sn_secret = secret, sn_denomination = denomination,
                                  sn_poolAddress = poolAddress\<rparr>)))))"

definition valid_note :: "secret_note \<Rightarrow> bool" where
  "valid_note n \<longleftrightarrow> 0 \<le> sn_nullifier n \<and> sn_nullifier n < BN254_Fr \<and> 0 \<le> sn_secret n \<and> sn_secret n < BN254_Fr
     \<and> 0 \<le> sn_denomination n \<and> sn_denomination n < 2 ^ 64"

text \<open>
  What the code relies on of base58 public keys: reading the printed key gives it back, a key is read
  only from its own print, and the alphabet has no underscore.
\<close>

definition base58_ok :: "(pubkey \<Rightarrow> string) \<Rightarrow> (string \<Rightarrow> pubkey js) \<Rightarrow> bool" where
  "base58_ok toBase58 parse \<longleftrightarrow> (\<forall>k. CHR ''_'' \<notin> set (toBase58 k))
     \<and> (\<forall>s k. parse s = Returns k \<longleftrightarrow> s = toBase58 k)"

lemma hex64_field: "bigintToHex64 = hex_field 64"
  by (intro ext) (simp add: bigintToHex64_def hex_field_def)

lemma hex64_read: "hex64ToBigint s = Returns n \<longleftrightarrow> read_hex_field 64 s = Some n" if "lower_hex s"
  using that string_bigint_hex [OF that] by (simp add: hex64ToBigint_def read_hex_field_def)

lemma lower_hex_no_underscore: "lower_hex s \<Longrightarrow> CHR ''_'' \<notin> set s"
  by (auto simp: lower_hex_def list_all_iff lower_hex_char_def Let_def)

lemma lower_hex_append: "lower_hex s \<Longrightarrow> lower_hex t \<Longrightarrow> lower_hex (s @ t)"
  by (simp add: lower_hex_def)

lemma lower_hex_part: "lower_hex s \<Longrightarrow> 0 < k \<Longrightarrow> k < length s \<Longrightarrow> lower_hex (take k s) \<and> lower_hex (drop k s)"
  by (auto simp: lower_hex_def list_all_iff dest: in_set_takeD in_set_dropD)

lemma BN254_hex: "n < BN254_Fr \<Longrightarrow> n < 16 ^ 64"
  using BN254_less(1) by simp

lemma decodeNote_iff:
  "decodeNote parse s = Returns n \<longleftrightarrow>
    (\<exists>p dh pre. s = NOTE_PREFIX @ p @ ''_'' @ dh @ ''_'' @ pre \<and> CHR ''_'' \<notin> set p
       \<and> parse p = Returns (sn_poolAddress n) \<and> read_hex_field 16 dh = Some (sn_denomination n)
       \<and> lower_hex pre \<and> length pre = 128
       \<and> read_hex_field 64 (take 64 pre) = Some (sn_nullifier n) \<and> sn_nullifier n < BN254_Fr
       \<and> read_hex_field 64 (drop 64 pre) = Some (sn_secret n) \<and> sn_secret n < BN254_Fr)"
  (is "_ \<longleftrightarrow> ?r")
proof
  assume a: "decodeNote parse s = Returns n"
  then obtain body where s: "s = NOTE_PREFIX @ body"
    by (auto simp: decodeNote_def starts_with_iff split: if_splits)
  obtain p dh pre where parts: "split_on (CHR ''_'') body = [p, dh, pre]"
    using a by (auto simp: decodeNote_def Let_def s length_Suc_conv numeral_3_eq_3 split: if_splits)
  have join: "body = p @ ''_'' @ dh @ ''_'' @ pre \<and> CHR ''_'' \<notin> set p \<and> CHR ''_'' \<notin> set dh"
    using split_on_three [OF parts] by simp
  obtain k where k: "parse p = Returns k" "length dh = 16" "lower_hex dh" "length pre = 128" "lower_hex pre"
      and rest: "js_bind (string_bigint_js (''0x'' @ dh)) (\<lambda>denomination.
         js_bind (hex64ToBigint (take 64 pre)) (\<lambda>nullifier.
         js_bind (hex64ToBigint (drop 64 pre)) (\<lambda>secret.
         if BN254_Fr \<le> nullifier then Throws ''Invalid note: nullifier exceeds BN254 field order''
         else if BN254_Fr \<le> secret then Throws ''Invalid note: secret exceeds BN254 field order''
         else Returns \<lparr>sn_nullifier = nullifier, sn_secret = secret, sn_denomination = denomination, sn_poolAddress = k\<rparr>))) = Returns n"
    using a unfolding s
    by (auto simp: decodeNote_def Let_def parts js_bind_eq_Returns split: if_splits js.splits)
  obtain m t where mt: "hex64ToBigint (take 64 pre) = Returns m" "hex64ToBigint (drop 64 pre) = Returns t"
      "m < BN254_Fr" "t < BN254_Fr"
      "n = \<lparr>sn_nullifier = m, sn_secret = t, sn_denomination = int (digits_val 16 dh), sn_poolAddress = k\<rparr>"
    using rest unfolding string_bigint_hex [OF k(3)]
    by (auto simp: js_bind_eq_Returns split: if_splits)
  have l: "lower_hex (take 64 pre)" "lower_hex (drop 64 pre)" using lower_hex_part [OF k(5), of 64] k(4) by simp_all
  show ?r
    using join k mt(3-5) mt(1,2) [unfolded hex64_read [OF l(1)] hex64_read [OF l(2)]]
    by (intro exI [of _ p] exI [of _ dh] exI [of _ pre]) (simp add: s read_hex_field_def [of 16])
next
  assume ?r
  then obtain p dh pre where r: "s = NOTE_PREFIX @ p @ ''_'' @ dh @ ''_'' @ pre" "CHR ''_'' \<notin> set p"
      "parse p = Returns (sn_poolAddress n)" "read_hex_field 16 dh = Some (sn_denomination n)"
      "lower_hex pre" "length pre = 128"
      "read_hex_field 64 (take 64 pre) = Some (sn_nullifier n)" "sn_nullifier n < BN254_Fr"
      "read_hex_field 64 (drop 64 pre) = Some (sn_secret n)" "sn_secret n < BN254_Fr"
    by blast
  have dh: "lower_hex dh" "length dh = 16" "sn_denomination n = int (digits_val 16 dh)"
    using r(4) by (auto simp: read_hex_field_def split: if_splits)
  have "split_on (CHR ''_'') (p @ ''_'' @ dh @ ''_'' @ pre) = [p, dh, pre]"
    using r(2) lower_hex_no_underscore [OF dh(1)] lower_hex_no_underscore [OF r(5)]
    by (simp add: split_on_sep split_on_other)
  moreover have "hex64ToBigint (take 64 pre) = Returns (sn_nullifier n)" "hex64ToBigint (drop 64 pre) = Returns (sn_secret n)"
    using r(5-10) lower_hex_part [of pre 64] by (simp_all add: hex64_read)
  ultimately show "decodeNote parse s = Returns n"
    using r dh string_bigint_hex [OF dh(1)] by (simp add: decodeNote_def starts_with_iff Let_def)
qed

lemma decode_encode:
  assumes b: "base58_ok toBase58 parse" and v: "valid_note n"
  shows "decodeNote parse (encodeNote toBase58 n) = Returns n"
proof -
  note f = v [unfolded valid_note_def]
  let ?d = "hex_field 16 (sn_denomination n)" and ?n = "hex_field 64 (sn_nullifier n)" and ?s = "hex_field 64 (sn_secret n)"
  have nd: "0 < (16 :: nat) \<and> 0 \<le> sn_denomination n \<and> sn_denomination n < 16 ^ 16"
    and nn: "0 < (64 :: nat) \<and> 0 \<le> sn_nullifier n \<and> sn_nullifier n < 16 ^ 64"
    and ns: "0 < (64 :: nat) \<and> 0 \<le> sn_secret n \<and> sn_secret n < 16 ^ 64"
    using f BN254_hex by auto
  note rd = hexw.dec_enc [OF nd] hexw.dec_enc [OF nn] hexw.dec_enc [OF ns]
  have pn: "length ?n = 64" "lower_hex ?n" and ps: "length ?s = 64" "lower_hex ?s"
    using hex_field_props nn ns by blast+
  have "encodeNote toBase58 n = NOTE_PREFIX @ toBase58 (sn_poolAddress n) @ ''_'' @ ?d @ ''_'' @ ?n @ ?s"
    by (simp add: encodeNote_def hex64_field hex_field_def)
  then show ?thesis
    using b f rd pn ps lower_hex_append [OF pn(2) ps(2)] unfolding decodeNote_iff base58_ok_def
    by (intro exI [of _ "toBase58 (sn_poolAddress n)"] exI [of _ ?d] exI [of _ "?n @ ?s"]) simp
qed

text \<open>
  C34. Backups are exact. Every well-formed note decodes from its own text to the same note; and the
  parser accepts nothing else: a text that decodes is the text of the note it decodes to, and that
  note has both secrets in the field and a u64 denomination, so no note has two spellings and no
  accepted text can carry an aliased (reduced) secret.
\<close>

theorem note_roundtrip:
  assumes b: "base58_ok toBase58 parse"
  shows "(valid_note n \<longrightarrow> decodeNote parse (encodeNote toBase58 n) = Returns n)
    \<and> (decodeNote parse s = Returns n \<longrightarrow> valid_note n \<and> encodeNote toBase58 n = s)"
proof (intro conjI impI)
  assume "valid_note n"
  then show "decodeNote parse (encodeNote toBase58 n) = Returns n" by (rule decode_encode [OF b])
next
  assume "decodeNote parse s = Returns n"
  then obtain p dh pre where r: "s = NOTE_PREFIX @ p @ ''_'' @ dh @ ''_'' @ pre"
      "parse p = Returns (sn_poolAddress n)" "read_hex_field 16 dh = Some (sn_denomination n)"
      "read_hex_field 64 (take 64 pre) = Some (sn_nullifier n)" "sn_nullifier n < BN254_Fr"
      "read_hex_field 64 (drop 64 pre) = Some (sn_secret n)" "sn_secret n < BN254_Fr"
    unfolding decodeNote_iff by blast
  show "valid_note n"
    using read_hex_bound [OF r(3)] read_hex_bound [OF r(4)] read_hex_bound [OF r(6)] r(5,7) by (simp add: valid_note_def)
  have "hex_field 64 (sn_nullifier n) @ hex_field 64 (sn_secret n) = pre"
    using hexw.enc_dec [OF r(4)] hexw.enc_dec [OF r(6)] by simp
  then show "encodeNote toBase58 n = s"
    using r(1,2) b hexw.enc_dec [OF r(3)] by (simp add: encodeNote_def hex64_field hex_field_def base58_ok_def)
qed

text \<open>A text for keys that meets the contract, for the witness: two hex digits per byte.\<close>

definition hex_key :: "pubkey \<Rightarrow> string" where
  "hex_key k = concat (map (\<lambda>b. [digit_char (unat b div 16), digit_char (unat b mod 16)]) k)"

definition parse_hex_key :: "string \<Rightarrow> pubkey js" where
  "parse_hex_key s = (if list_all lower_hex_char s \<and> even (length s) then Returns (hex_buffer s) else Throws ''bad key'')"

lemma byte_digits: "unat (b :: byte) < 256"
proof -
  have "unat b < 2 ^ LENGTH(8)" by (rule unsigned_less)
  then show ?thesis by simp
qed

lemma hex_key_lower: "list_all lower_hex_char (hex_key k) \<and> even (length (hex_key k))"
proof (induction k)
  case (Cons b k)
  have "unat b div 16 < 16" "unat b mod 16 < 16" using byte_digits [of b] by simp_all
  then show ?case using Cons by (simp add: hex_key_def lower_hex_char_digit)
qed (simp add: hex_key_def)

lemma hex_buffer_hex_key: "hex_buffer (hex_key k) = k"
proof (induction k)
  case (Cons b k)
  have d: "unat b div 16 < 16" "unat b mod 16 < 16" using byte_digits [of b] by simp_all
  have "digits_val 16 [digit_char (unat b div 16), digit_char (unat b mod 16)] = 16 * (unat b div 16) + unat b mod 16"
    using d by (simp add: digits_val_def digits_step_def)
  then have "digits_val 16 [digit_char (unat b div 16), digit_char (unat b mod 16)] = unat b" by simp
  then show ?case using Cons d by (simp add: hex_key_def)
qed (simp add: hex_key_def)

lemma hex_key_hex_buffer: "list_all lower_hex_char s \<Longrightarrow> even (length s) \<Longrightarrow> hex_key (hex_buffer s) = s"
proof (induction s rule: hex_buffer.induct)
  case (1 a b s)
  obtain c where c: "c < 16" "a = digit_char c" using 1(2) by (auto simp: lower_hex_char_digit digit_in_def split: option.splits)
  obtain d where d: "d < 16" "b = digit_char d" using 1(2) by (auto simp: lower_hex_char_digit digit_in_def split: option.splits)
  have v: "digits_val 16 [a, b] = 16 * c + d" using c d by (simp add: digits_val_def digits_step_def)
  have "unat (of_nat (16 * c + d) :: byte) = 16 * c + d"
    using c(1) d(1) by (simp only: unat_of_nat) (simp add: take_bit_nat_eq_self_iff)
  then have "unat (word_of_int (int (digits_val 16 [a, b])) :: byte) = 16 * c + d"
    by (simp only: v of_int_of_nat_eq)
  then show ?case using 1 c d by (simp add: hex_key_def lower_hex_char_digit)
qed (auto simp: hex_key_def)

lemma hex_key_ok: "base58_ok hex_key parse_hex_key"
proof -
  have "\<not> lower_hex_char (CHR ''_'')" by code_simp
  then have "CHR ''_'' \<notin> set (hex_key k)" for k
    using hex_key_lower [of k] by (auto simp: list_all_iff)
  then show ?thesis
    using hex_key_lower hex_buffer_hex_key hex_key_hex_buffer
    by (auto simp: base58_ok_def parse_hex_key_def)
qed

lemma note_roundtrip_witness:
  "decodeNote parse_hex_key (encodeNote hex_key \<lparr>sn_nullifier = 5, sn_secret = 6, sn_denomination = 500, sn_poolAddress = [1, 255]\<rparr>)
     = Returns \<lparr>sn_nullifier = 5, sn_secret = 6, sn_denomination = 500, sn_poolAddress = [1, 255]\<rparr>"
  using note_roundtrip [OF hex_key_ok] by (simp add: valid_note_def BN254_Fr_def)

end
