(* ===== verification/SdkNote.thy ===== *)
theory SdkNote
  imports Note
begin

text \<open>
  Secret notes as the TypeScript source has them, sdk/src/note.ts: random bytes come from Web Crypto, which
  may be missing, and a note carries its own text. Base58 keys are parameters, as is the random source: the
  bytes its \<open>k\<close>-th call writes. What is proved: a note is never made without Web Crypto, and what is made
  decodes from its own text.
\<close>

subsection \<open>Random bytes\<close>

record random_source =
  rs_crypto :: bool
  rs_getRandomValues :: bool
  rs_fill :: "nat \<Rightarrow> nat \<Rightarrow> bytes"

text \<open>\<open>secureRandomBytes\<close>, given the number of calls made so far: the bytes and the number after it.\<close>

definition secureRandomBytes :: "random_source \<Rightarrow> nat \<Rightarrow> nat \<Rightarrow> (bytes \<times> nat) js" where
  "secureRandomBytes g len k =
     (if \<not> rs_crypto g \<or> \<not> rs_getRandomValues g then Throws ''No cryptographically secure random number generator available.''
      else Returns (rs_fill g k len, k + 1))"

primrec ts_sample :: "random_source \<Rightarrow> nat \<Rightarrow> nat \<Rightarrow> (int \<times> nat) js" where
  "ts_sample g 0 k = Throws ''Failed to sample a field element in 128 attempts''"
| "ts_sample g (Suc left) k =
     js_bind (secureRandomBytes g 32 k) (\<lambda>(bytes, k).
     let n = foldl be_step 0 bytes in
     if n < BN254_Fr then Returns (n, k) else ts_sample g left k)"

definition ts_randomFieldElement :: "random_source \<Rightarrow> nat \<Rightarrow> (int \<times> nat) js" where
  "ts_randomFieldElement g k = ts_sample g 128 k"

subsection \<open>The note\<close>

definition ts_bigintToHex64 :: "int \<Rightarrow> string" where
  "ts_bigintToHex64 n = padStart 64 (CHR ''0'') (big_to_string 16 n)"

definition ts_hex64ToBigint :: "string \<Rightarrow> int js" where
  "ts_hex64ToBigint hex = (if length hex \<noteq> 64 then Throws ''Invalid hex length'' else string_bigint_js (''0x'' @ hex))"

record SecretNote = secret_note +
  sn_encoded :: string

definition ts_encodeNote :: "(pubkey \<Rightarrow> string) \<Rightarrow> 'a secret_note_scheme \<Rightarrow> string" where
  "ts_encodeNote toBase58 note =
     NOTE_PREFIX @ toBase58 (sn_poolAddress note) @ ''_''
     @ padStart 16 (CHR ''0'') (big_to_string 16 (sn_denomination note)) @ ''_''
     @ ts_bigintToHex64 (sn_nullifier note) @ ts_bigintToHex64 (sn_secret note)"

definition ts_generateNote :: "random_source \<Rightarrow> (pubkey \<Rightarrow> string) \<Rightarrow> int \<Rightarrow> pubkey \<Rightarrow> nat \<Rightarrow> (SecretNote \<times> nat) js" where
  "ts_generateNote g toBase58 denomination poolAddress k =
     (if denomination < 500 then Throws ''Denomination must be >= 500 lamports (BF-14)''
      else js_bind (ts_randomFieldElement g k) (\<lambda>(nullifier, k).
           js_bind (ts_randomFieldElement g k) (\<lambda>(secret, k).
           let n = \<lparr>sn_nullifier = nullifier, sn_secret = secret, sn_denomination = denomination,
                    sn_poolAddress = poolAddress, sn_encoded = []\<rparr>
           in Returns (n\<lparr>sn_encoded := ts_encodeNote toBase58 n\<rparr>, k))))"

definition ts_decodeNote :: "(string \<Rightarrow> pubkey js) \<Rightarrow> string \<Rightarrow> SecretNote js" where
  "ts_decodeNote parse encoded =
     (if \<not> starts_with encoded NOTE_PREFIX then Throws (''Invalid note: must start with '' @ [char_of (39 :: nat)] @ ''sndo_'' @ [char_of (39 :: nat)])
      else case split_on (CHR ''_'') (drop (length NOTE_PREFIX) encoded) of
        [poolB58, denomHex, preimage] \<Rightarrow>
          (case parse poolB58 of
             Throws _ \<Rightarrow> Throws ''Invalid note: malformed pool address''
           | Returns poolAddress \<Rightarrow>
               if length denomHex \<noteq> 16 \<or> \<not> lower_hex denomHex
               then Throws ''Invalid note: denomination must be 16 lowercase hex chars''
               else js_bind (string_bigint_js (''0x'' @ denomHex)) (\<lambda>denomination.
                 if length preimage \<noteq> 128 then Throws ''Invalid note: preimage must be 128 hex chars''
                 else if \<not> lower_hex preimage then Throws ''Invalid note: preimage must be lowercase hex''
                 else js_bind (ts_hex64ToBigint (take 64 preimage)) (\<lambda>nullifier.
                      js_bind (ts_hex64ToBigint (drop 64 preimage)) (\<lambda>secret.
                      if BN254_Fr \<le> nullifier then Throws ''Invalid note: nullifier exceeds BN254 field order''
                      else if BN254_Fr \<le> secret then Throws ''Invalid note: secret exceeds BN254 field order''
                      else Returns \<lparr>sn_nullifier = nullifier, sn_secret = secret, sn_denomination = denomination,
                                    sn_poolAddress = poolAddress, sn_encoded = encoded\<rparr>))))
      | _ \<Rightarrow> Throws ''Invalid note format: expected sndo_<pool>_<denom>_<preimage>'')"

subsection \<open>It is the published build with the text attached\<close>

lemma ts_hex64_build: "ts_bigintToHex64 = bigintToHex64" "ts_hex64ToBigint = hex64ToBigint"
  by (simp_all add: fun_eq_iff ts_bigintToHex64_def bigintToHex64_def ts_hex64ToBigint_def hex64ToBigint_def)

definition bare_note :: "'a secret_note_scheme \<Rightarrow> secret_note" where
  "bare_note n = \<lparr>sn_nullifier = sn_nullifier n, sn_secret = sn_secret n, sn_denomination = sn_denomination n, sn_poolAddress = sn_poolAddress n\<rparr>"

definition with_text :: "string \<Rightarrow> secret_note \<Rightarrow> SecretNote" where
  "with_text s n = \<lparr>sn_nullifier = sn_nullifier n, sn_secret = sn_secret n, sn_denomination = sn_denomination n,
     sn_poolAddress = sn_poolAddress n, sn_encoded = s\<rparr>"

lemma ts_encode_build: "ts_encodeNote toBase58 n = encodeNote toBase58 (bare_note n)"
  by (simp add: ts_encodeNote_def encodeNote_def ts_hex64_build bare_note_def)

lemma ts_decode_build: "ts_decodeNote parse s = js_bind (decodeNote parse s) (\<lambda>n. Returns (with_text s n))"
proof (cases "starts_with s NOTE_PREFIX")
  case True
  let ?parts = "split_on (CHR ''_'') (drop (length NOTE_PREFIX) s)"
  show ?thesis
  proof (cases "length ?parts = 3")
    case True
    then obtain p d pre where parts: "?parts = [p, d, pre]" by (auto simp: length_Suc_conv numeral_3_eq_3)
    show ?thesis using \<open>starts_with s NOTE_PREFIX\<close>
      by (auto simp: ts_decodeNote_def decodeNote_def Let_def parts ts_hex64_build with_text_def js_bind_def split: js.splits)
  next
    case False
    then show ?thesis using \<open>starts_with s NOTE_PREFIX\<close>
      by (auto simp: ts_decodeNote_def decodeNote_def Let_def split: list.splits)
  qed
qed (simp add: ts_decodeNote_def decodeNote_def)

lemma ts_sample_Returns:
  "ts_sample g n k = Returns (v, k') \<Longrightarrow> rs_crypto g \<and> rs_getRandomValues g \<and> v < BN254_Fr
     \<and> (\<exists>i\<ge>k. k' = i + 1 \<and> v = be_int (rs_fill g i 32) \<and> (\<forall>j\<in>{k..<i}. BN254_Fr \<le> be_int (rs_fill g j 32)))"
proof (induction n arbitrary: k)
  case (Suc n)
  let ?n = "be_int (rs_fill g k 32)"
  have g: "rs_crypto g" "rs_getRandomValues g" using Suc.prems by (auto simp: secureRandomBytes_def split: if_splits)
  show ?case
  proof (cases "?n < BN254_Fr")
    case True
    then show ?thesis using Suc.prems g by (auto simp: secureRandomBytes_def be_int_def Let_def)
  next
    case False
    then have "ts_sample g n (k + 1) = Returns (v, k')" using Suc.prems g by (simp add: secureRandomBytes_def be_int_def Let_def)
    then obtain i where i: "i \<ge> k + 1" "k' = i + 1" "v = be_int (rs_fill g i 32)" "v < BN254_Fr"
        "\<forall>j\<in>{k + 1..<i}. BN254_Fr \<le> be_int (rs_fill g j 32)"
      using Suc.IH by blast
    have "BN254_Fr \<le> be_int (rs_fill g j 32)" if "j \<in> {k..<i}" for j
      using that i(5) False by (cases "j = k") auto
    then show ?thesis using i g by (metis Suc_eq_plus1 Suc_leD)
  qed
qed simp

lemma ts_sample_Throws:
  "ts_sample g n k = Throws e \<Longrightarrow> rs_crypto g \<Longrightarrow> rs_getRandomValues g \<Longrightarrow> j \<in> {k..<k + n} \<Longrightarrow> BN254_Fr \<le> be_int (rs_fill g j 32)"
proof (induction n arbitrary: k)
  case (Suc n)
  have k: "\<not> be_int (rs_fill g k 32) < BN254_Fr" "ts_sample g n (k + 1) = Throws e"
    using Suc.prems by (auto simp: secureRandomBytes_def be_int_def Let_def split: if_splits)
  show ?case using Suc.IH [OF k(2) Suc.prems(2,3)] Suc.prems(4) k(1) by (cases "j = k") auto
qed simp

lemma ts_random_Returns:
  "ts_randomFieldElement g k = Returns (v, k') \<Longrightarrow> rs_crypto g \<and> rs_getRandomValues g \<and> 0 \<le> v \<and> v < BN254_Fr
     \<and> (\<exists>i\<ge>k. k' = i + 1 \<and> v = be_int (rs_fill g i 32))"
  unfolding ts_randomFieldElement_def by (drule ts_sample_Returns) (use be_int_nonneg in auto)

lemma ts_random_first:
  "rs_crypto g \<Longrightarrow> rs_getRandomValues g \<Longrightarrow> be_int (rs_fill g k 32) < BN254_Fr \<Longrightarrow>
    ts_randomFieldElement g k = Returns (be_int (rs_fill g k 32), k + 1)"
  by (simp add: ts_randomFieldElement_def secureRandomBytes_def be_int_def Let_def ts_sample.simps(2) [of g 127, simplified])

text \<open>
  C32. A generated note can be trusted as a backup. Whatever the random source, \<open>generateNote\<close> either throws,
  and then the denomination was refused, Web Crypto was missing, or 128 blocks in a row were outside the field,
  or it returns a note whose own text decodes to exactly that note, text included, and whose two secrets are
  field elements read from two different blocks, drawn by this call and by no other.
\<close>

theorem generated_note_is_its_backup:
  assumes b: "base58_ok toBase58 parse" and d: "d < 2 ^ 64"
  shows "case ts_generateNote g toBase58 d K k of
      Throws _ \<Rightarrow> d < 500 \<or> \<not> rs_crypto g \<or> \<not> rs_getRandomValues g
        \<or> (\<exists>m\<ge>k. \<forall>j\<in>{m..<m + 128}. BN254_Fr \<le> be_int (rs_fill g j 32))
    | Returns (n, k') \<Rightarrow> ts_decodeNote parse (sn_encoded n) = Returns n \<and> sn_poolAddress n = K \<and> sn_denomination n = d
        \<and> 500 \<le> d \<and> rs_crypto g \<and> rs_getRandomValues g
        \<and> (\<exists>i j. k \<le> i \<and> i < j \<and> k' = j + 1 \<and> sn_nullifier n = be_int (rs_fill g i 32) \<and> sn_secret n = be_int (rs_fill g j 32))"
proof (cases "d < 500")
  case True
  then show ?thesis by (simp add: ts_generateNote_def)
next
  case False
  have stuck: "\<not> rs_crypto g \<or> \<not> rs_getRandomValues g \<or> (\<forall>j\<in>{m..<m + 128}. BN254_Fr \<le> be_int (rs_fill g j 32))"
    if "ts_randomFieldElement g m = Throws e" for m e
    using ts_sample_Throws [OF that [unfolded ts_randomFieldElement_def]] by blast
  show ?thesis
  proof (cases "ts_randomFieldElement g k")
    case (Throws e)
    then show ?thesis using stuck [OF Throws] False by (auto simp: ts_generateNote_def)
  next
    case (Returns r)
    obtain v k1 where r: "r = (v, k1)" by (cases r)
    then obtain i where i: "k \<le> i" "k1 = i + 1" "v = be_int (rs_fill g i 32)" "0 \<le> v" "v < BN254_Fr" "rs_crypto g" "rs_getRandomValues g"
      using ts_random_Returns Returns by blast
    show ?thesis
    proof (cases "ts_randomFieldElement g k1")
      case (Throws e)
      then show ?thesis using stuck [OF Throws] False i(1,2) Returns r by (auto simp: ts_generateNote_def intro: exI [of _ k1])
    next
      case (Returns r')
      obtain w k2 where r': "r' = (w, k2)" by (cases r')
      then obtain j where j: "k1 \<le> j" "k2 = j + 1" "w = be_int (rs_fill g j 32)" "0 \<le> w" "w < BN254_Fr"
        using ts_random_Returns Returns by blast
      let ?n = "\<lparr>sn_nullifier = v, sn_secret = w, sn_denomination = d, sn_poolAddress = K, sn_encoded = []\<rparr> :: SecretNote"
      let ?m = "?n\<lparr>sn_encoded := ts_encodeNote toBase58 ?n\<rparr>"
      have x: "ts_generateNote g toBase58 d K k = Returns (?m, k2)"
        using False \<open>ts_randomFieldElement g k = Returns r\<close> Returns r r' by (simp add: ts_generateNote_def Let_def)
      have "valid_note (bare_note ?n)" using i j False d by (simp add: valid_note_def bare_note_def)
      from decode_encode [OF b this] have "ts_decodeNote parse (sn_encoded ?m) = Returns ?m"
        by (simp add: ts_decode_build ts_encode_build with_text_def bare_note_def)
      then show ?thesis unfolding x using False i j by auto
    qed
  qed
qed

text \<open>A source whose blocks are 1, 2, 3, ...\<close>

definition counting_source :: random_source where
  "counting_source = \<lparr>rs_crypto = True, rs_getRandomValues = True, rs_fill = \<lambda>k len. be_bytes len (int k + 1)\<rparr>"

lemma generated_note_is_its_backup_witness:
  "(\<exists>n. ts_generateNote counting_source hex_key 500 [1, 255] 0 = Returns (n, 2)
      \<and> ts_decodeNote parse_hex_key (sn_encoded n) = Returns n)"
proof -
  have "be_int (be_bytes 32 1) = 1" "be_int (be_bytes 32 2) = 2" by (simp_all add: be_int_be_bytes)
  then have "ts_randomFieldElement counting_source 0 = Returns (1, 1)" "ts_randomFieldElement counting_source 1 = Returns (2, 2)"
    using ts_random_first [of counting_source 0] ts_random_first [of counting_source 1]
    by (simp_all add: counting_source_def BN254_Fr_def)
  then show ?thesis
    using generated_note_is_its_backup [OF hex_key_ok, where d = 500 and g = counting_source and K = "[1, 255]" and k = 0]
    by (simp add: ts_generateNote_def Let_def)
qed

end
