(* ===== verification/MonitorChecks.thy ===== *)
theory MonitorChecks
  imports PoolAccount
begin

text \<open>
  The watcher's rules, monitor/src/checks.js: pure functions from an observed pool to findings. A
  finding carries its severity, code and pool label; the message text is not modelled.
\<close>

datatype severity = CRITICAL | WARNING | INFO

record finding =
  f_severity :: severity
  f_code :: string
  f_pool :: "string option"

definition raise_finding :: "severity \<Rightarrow> string \<Rightarrow> string option \<Rightarrow> finding" where
  "raise_finding sev code pool = \<lparr>f_severity = sev, f_code = code, f_pool = pool\<rparr>"

record pool_obs =
  po_label :: string
  po_denomination :: int
  po_deposits :: int
  po_vaultLamports :: int
  po_vaultRent :: int
  po_isPaused :: bool
  po_admin :: string
  po_treasury :: string

subsection \<open>The integrity rule\<close>

definition checkVaultIntegrity :: "pool_obs \<Rightarrow> finding list" where
  "checkVaultIntegrity p =
     (let denomination = po_denomination p; deposits = po_deposits p;
          vaultLamports = po_vaultLamports p; vaultRent = po_vaultRent p; label = Some (po_label p) in
      if denomination \<le> 0 then [raise_finding CRITICAL ''BAD_DENOMINATION'' label]
      else if vaultLamports < vaultRent then [raise_finding CRITICAL ''WITHDRAWALS_EXCEED_DEPOSITS'' label]
      else let numerator = vaultRent + deposits * denomination - vaultLamports in
        if numerator < 0 then [raise_finding WARNING ''VAULT_SURPLUS'' label]
        else if numerator smod denomination \<noteq> 0 then [raise_finding CRITICAL ''INTEGRITY_REMAINDER'' label]
        else let impliedWithdrawals = numerator sdiv denomination in
          if deposits < impliedWithdrawals then [raise_finding CRITICAL ''INVARIANT_LOGIC_ERROR'' label]
          else [])"

lemma smod_nonneg: "0 \<le> a \<Longrightarrow> 0 < b \<Longrightarrow> a smod b = a mod b" for a b :: int
  by (cases "a = 0") (simp_all add: signed_modulo_int_def)

text \<open>The statement the rule is about: the balance is explained by some number of withdrawals.\<close>

definition explained :: "pool_obs \<Rightarrow> bool" where
  "explained p \<longleftrightarrow> (\<exists>w. 0 \<le> w \<and> w \<le> po_deposits p
     \<and> po_vaultLamports p = po_vaultRent p + (po_deposits p - w) * po_denomination p)"

lemma integrity_cases:
  assumes "0 < po_denomination p"
  shows "checkVaultIntegrity p =
    (let num = po_vaultRent p + po_deposits p * po_denomination p - po_vaultLamports p in
     if po_vaultLamports p < po_vaultRent p then [raise_finding CRITICAL ''WITHDRAWALS_EXCEED_DEPOSITS'' (Some (po_label p))]
     else if num < 0 then [raise_finding WARNING ''VAULT_SURPLUS'' (Some (po_label p))]
     else if num mod po_denomination p \<noteq> 0 then [raise_finding CRITICAL ''INTEGRITY_REMAINDER'' (Some (po_label p))]
     else [])"
proof -
  let ?D = "po_denomination p" and ?num = "po_vaultRent p + po_deposits p * po_denomination p - po_vaultLamports p"
  have "?num sdiv ?D \<le> po_deposits p" if "\<not> po_vaultLamports p < po_vaultRent p" "0 \<le> ?num"
  proof -
    have "?num \<le> po_deposits p * ?D" using that by simp
    then have "?num div ?D \<le> po_deposits p * ?D div ?D" using assms by (intro zdiv_mono1) auto
    then show ?thesis using assms that by (simp add: sdiv_nonneg)
  qed
  then show ?thesis
    using assms by (auto simp: checkVaultIntegrity_def Let_def smod_nonneg not_less)
qed

lemma integrity_silent:
  assumes "0 < po_denomination p" "po_vaultRent p \<le> po_vaultLamports p" "0 \<le> w"
    and "po_vaultRent p + po_deposits p * po_denomination p - po_vaultLamports p = w * po_denomination p"
  shows "checkVaultIntegrity p = []"
proof -
  have "0 \<le> w * po_denomination p" using assms by simp
  then show ?thesis using assms(2) unfolding integrity_cases [OF assms(1)] Let_def assms(4) by simp
qed

lemma integrity_silentD:
  assumes "0 < po_denomination p" "checkVaultIntegrity p = []"
  obtains w where "0 \<le> w" "po_vaultRent p \<le> po_vaultLamports p"
    "po_vaultRent p + po_deposits p * po_denomination p - po_vaultLamports p = w * po_denomination p"
proof -
  let ?num = "po_vaultRent p + po_deposits p * po_denomination p - po_vaultLamports p"
  have a: "po_vaultRent p \<le> po_vaultLamports p" "0 \<le> ?num" "?num mod po_denomination p = 0"
    using assms(2) unfolding integrity_cases [OF assms(1)] Let_def by (simp_all split: if_splits)
  show thesis
  proof (rule that [of "?num div po_denomination p"])
    show "0 \<le> ?num div po_denomination p" using a(2) assms(1) by (simp add: pos_imp_zdiv_nonneg_iff)
    show "?num = ?num div po_denomination p * po_denomination p" using a(3) by (metis add.right_neutral div_mult_mod_eq)
  qed (rule a(1))
qed

text \<open>
  C36. The integrity rule is sound and complete for what it states: on a pool with a positive
  denomination it stays silent exactly when the vault balance equals its rent plus a whole number
  of denominations between zero and the deposits; it reports at most one finding; a vault below its
  rent is always reported as withdrawals exceeding deposits; and the branch marked unreachable in
  the source is unreachable.
\<close>

theorem integrity_exact:
  assumes "0 < po_denomination p" "0 \<le> po_deposits p"
  shows "(checkVaultIntegrity p = [] \<longleftrightarrow> explained p)
    \<and> length (checkVaultIntegrity p) \<le> 1
    \<and> (po_vaultLamports p < po_vaultRent p \<longrightarrow>
         checkVaultIntegrity p = [raise_finding CRITICAL ''WITHDRAWALS_EXCEED_DEPOSITS'' (Some (po_label p))])
    \<and> (\<forall>f\<in>set (checkVaultIntegrity p). f_code f \<noteq> ''INVARIANT_LOGIC_ERROR'' \<and> f_code f \<noteq> ''BAD_DENOMINATION'')"
proof -
  let ?D = "po_denomination p" and ?num = "po_vaultRent p + po_deposits p * po_denomination p - po_vaultLamports p"
  have "explained p \<longleftrightarrow> po_vaultRent p \<le> po_vaultLamports p \<and> 0 \<le> ?num \<and> ?num mod ?D = 0"
  proof
    assume "explained p"
    then obtain w where w: "0 \<le> w" "w \<le> po_deposits p"
        "po_vaultLamports p = po_vaultRent p + (po_deposits p - w) * ?D" by (auto simp: explained_def)
    then have "?num = w * ?D" by (simp add: algebra_simps)
    moreover have "0 \<le> (po_deposits p - w) * ?D" using w assms by simp
    ultimately show "po_vaultRent p \<le> po_vaultLamports p \<and> 0 \<le> ?num \<and> ?num mod ?D = 0"
      using w assms by simp
  next
    assume a: "po_vaultRent p \<le> po_vaultLamports p \<and> 0 \<le> ?num \<and> ?num mod ?D = 0"
    define w where "w = ?num div ?D"
    have num: "?num = w * ?D" using a by (auto simp: w_def)
    have "0 \<le> w" using a assms by (simp add: w_def pos_imp_zdiv_nonneg_iff)
    moreover have "w * ?D \<le> po_deposits p * ?D" using num a by simp
    then have "w \<le> po_deposits p" using assms by simp
    moreover have "po_vaultLamports p = po_vaultRent p + (po_deposits p - w) * ?D"
      using num by (simp add: algebra_simps)
    ultimately show "explained p" by (auto simp: explained_def)
  qed
  then show ?thesis
    by (auto simp: integrity_cases [OF assms(1)] Let_def raise_finding_def not_less)
qed

definition example_obs :: pool_obs where
  "example_obs = \<lparr>po_label = ''1 SOL'', po_denomination = 1000, po_deposits = 5, po_vaultLamports = 3900, po_vaultRent = 900,
     po_isPaused = False, po_admin = ''A'', po_treasury = ''T''\<rparr>"

lemma integrity_exact_witness: "checkVaultIntegrity example_obs = []"
proof -
  have "explained example_obs" by (auto simp: explained_def example_obs_def intro: exI [of _ 2])
  then show ?thesis using integrity_exact [of example_obs] by (simp add: example_obs_def)
qed

text \<open>
  What the rule does not see: from any balance the rule accepts, draining any whole number of
  denominations that the vault still holds above its rent leaves a balance it accepts too. The
  comment in the source presents the rule as detecting withdrawals minted without deposits; such
  withdrawals are reported only once they push the vault below its rent reserve.
\<close>

theorem whole_denomination_drain_silent:
  assumes "0 < po_denomination p" "0 \<le> po_deposits p" "checkVaultIntegrity p = []"
    and "0 \<le> k" "po_vaultRent p \<le> po_vaultLamports p - k * po_denomination p"
  shows "checkVaultIntegrity (p\<lparr>po_vaultLamports := po_vaultLamports p - k * po_denomination p\<rparr>) = []"
proof -
  obtain w where w: "0 \<le> w"
      "po_vaultRent p + po_deposits p * po_denomination p - po_vaultLamports p = w * po_denomination p"
    using integrity_silentD [OF assms(1,3)] by blast
  show ?thesis
    using assms w by (intro integrity_silent [of _ "w + k"]) (simp_all add: algebra_simps)
qed

lemma whole_denomination_drain_silent_witness:
  "checkVaultIntegrity (example_obs\<lparr>po_vaultLamports := 900\<rparr>) = []"
proof -
  have s: "checkVaultIntegrity example_obs = []"
    by (simp add: integrity_cases example_obs_def)
  show ?thesis
    using whole_denomination_drain_silent [of example_obs 3] s by (simp add: example_obs_def)
qed

subsection \<open>Honest histories\<close>

text \<open>
  What the program does to a vault: it is created with its rent, each deposit moves one denomination
  in and advances next\_index, each withdrawal moves one denomination out (recipient, relayer and
  treasury together) and requires the vault to stay at or above its rent; deposits and withdrawals
  interleave in any order.
\<close>

datatype vault_event = Deposited | Withdrawn

definition vault_step :: "int \<Rightarrow> int \<Rightarrow> int \<times> int \<Rightarrow> vault_event \<Rightarrow> int \<times> int" where
  "vault_step rent denom s ev =
     (case ev of
        Deposited \<Rightarrow> (fst s + denom, snd s + 1)
      | Withdrawn \<Rightarrow> if fst s - denom < rent then s else (fst s - denom, snd s))"

definition vault_run :: "int \<Rightarrow> int \<Rightarrow> vault_event list \<Rightarrow> int \<times> int" where
  "vault_run rent denom evs = foldl (vault_step rent denom) (rent, 0) evs"

lemma vault_run_inv:
  assumes "0 < denom"
  shows "\<exists>w. 0 \<le> w \<and> w \<le> snd (vault_run rent denom evs)
    \<and> fst (vault_run rent denom evs) = rent + (snd (vault_run rent denom evs) - w) * denom"
proof (induction evs rule: rev_induct)
  case Nil
  then show ?case by (auto simp: vault_run_def)
next
  case (snoc e evs)
  let ?s = "vault_run rent denom evs"
  obtain w where w: "0 \<le> w" "w \<le> snd ?s" "fst ?s = rent + (snd ?s - w) * denom" using snoc by blast
  have s: "vault_run rent denom (evs @ [e]) = vault_step rent denom ?s e" by (simp add: vault_run_def)
  show ?case
  proof (cases e)
    case Deposited
    then show ?thesis using w s by (intro exI [of _ w]) (simp add: vault_step_def algebra_simps)
  next
    case Withdrawn
    show ?thesis
    proof (cases "fst ?s - denom < rent")
      case True
      then show ?thesis using w s Withdrawn by (intro exI [of _ w]) (simp add: vault_step_def)
    next
      case False
      then have "1 * denom \<le> (snd ?s - w) * denom" using w(3) by simp
      then have "1 \<le> snd ?s - w" using assms by (metis mult_right_le_imp_le)
      then show ?thesis using w s Withdrawn False
        by (intro exI [of _ "w + 1"]) (simp add: vault_step_def algebra_simps)
    qed
  qed
qed

text \<open>
  No false alarm: whatever sequence of deposits and withdrawals a pool goes through, the
  integrity rule is silent on the resulting balance and count.
\<close>

theorem honest_pool_silent:
  assumes "0 < po_denomination p" "po_vaultLamports p = fst (vault_run (po_vaultRent p) (po_denomination p) evs)"
    and "po_deposits p = snd (vault_run (po_vaultRent p) (po_denomination p) evs)"
  shows "checkVaultIntegrity p = []"
proof -
  obtain w where w: "0 \<le> w" "w \<le> po_deposits p"
      "po_vaultLamports p = po_vaultRent p + (po_deposits p - w) * po_denomination p"
    using vault_run_inv [OF assms(1), of "po_vaultRent p" evs] assms(2,3) by auto
  have "0 \<le> (po_deposits p - w) * po_denomination p" using w assms(1) by simp
  then show ?thesis
    using w by (intro integrity_silent [OF assms(1) _ w(1)]) (simp_all add: algebra_simps)
qed

lemma honest_pool_silent_witness:
  "checkVaultIntegrity (example_obs\<lparr>po_vaultLamports := 1900, po_deposits := 2\<rparr>) = []"
  by (rule honest_pool_silent [of _ "[Deposited, Deposited, Withdrawn]"])
     (simp_all add: example_obs_def vault_run_def vault_step_def)

subsection \<open>The other rules\<close>

record pool_fields =
  pf_admin :: string
  pf_treasury :: string
  pf_denomination :: string

record authority_pool =
  ap_label :: string
  ap_baseline :: "pool_fields option"
  ap_current :: "pool_fields option"

text \<open>\<open>baseline?.[field]\<close> is undefined when there is no baseline.\<close>

definition field_changed :: "(pool_fields \<Rightarrow> string) \<Rightarrow> authority_pool \<Rightarrow> bool" where
  "field_changed field ap =
     (case (ap_baseline ap, ap_current ap) of (Some b, Some c) \<Rightarrow> field b \<noteq> field c | _ \<Rightarrow> False)"

definition checkAuthorities :: "string option \<Rightarrow> string option option \<Rightarrow> authority_pool list \<Rightarrow> finding list" where
  "checkAuthorities expected actual pools =
     (case expected of
        None \<Rightarrow> []
      | Some e \<Rightarrow>
          (if actual = Some None then [raise_finding INFO ''PROGRAM_IMMUTABLE'' None]
           else if actual \<noteq> Some (Some e) then [raise_finding CRITICAL ''UPGRADE_AUTHORITY_CHANGED'' None]
           else []))
     @ concat (map (\<lambda>ap. concat (map (\<lambda>field.
          if field_changed field ap then [raise_finding CRITICAL ''IMMUTABLE_FIELD_CHANGED'' (Some (ap_label ap))] else [])
          [pf_admin, pf_treasury, pf_denomination])) pools)"

text \<open>
  The stored previous observation, as JSON: the balance is a decimal string. BigInt division by a
  zero denomination raises a RangeError.
\<close>

record prev_obs =
  seen_vaultLamports :: "string option"
  seen_isPaused :: "bool option"

definition bigint_div :: "int \<Rightarrow> int \<Rightarrow> int js" where
  "bigint_div a b = (if b = 0 then Throws ''Division by zero'' else Returns (a sdiv b))"

definition checkOutflowRate :: "pool_obs \<Rightarrow> prev_obs option \<Rightarrow> int \<Rightarrow> finding list js" where
  "checkOutflowRate p previous maxDenomsPerWindow =
     (case previous of
        None \<Rightarrow> Returns []
      | Some q \<Rightarrow> case seen_vaultLamports q of
          None \<Rightarrow> Returns []
        | Some s \<Rightarrow>
            js_bind (string_bigint_js s) (\<lambda>before.
            let drop = before - po_vaultLamports p in
            if drop \<le> 0 then Returns []
            else js_bind (bigint_div drop (po_denomination p)) (\<lambda>denoms. Returns
              (if maxDenomsPerWindow \<le> denoms then [raise_finding WARNING ''FAST_OUTFLOW'' (Some (po_label p))] else []))))"

definition SATURATION_THRESHOLD :: int where "SATURATION_THRESHOLD = 950000"

definition checkSaturation :: "pool_obs \<Rightarrow> int \<Rightarrow> finding list" where
  "checkSaturation p threshold =
     (if threshold \<le> po_deposits p then [raise_finding WARNING ''POOL_SATURATED'' (Some (po_label p))]
      else if threshold - 1000 \<le> po_deposits p then [raise_finding WARNING ''POOL_NEAR_SATURATION'' (Some (po_label p))]
      else [])"

definition checkRelayerBalance :: "int option \<Rightarrow> int \<Rightarrow> int \<Rightarrow> finding list" where
  "checkRelayerBalance balance criticalLamports warnLamports =
     (case balance of
        None \<Rightarrow> []
      | Some b \<Rightarrow> if b < criticalLamports then [raise_finding CRITICAL ''RELAYER_INSOLVENT'' None]
                  else if b < warnLamports then [raise_finding WARNING ''RELAYER_LOW'' None] else [])"

definition checkPauseState :: "pool_obs \<Rightarrow> prev_obs option \<Rightarrow> finding list" where
  "checkPauseState p previous =
     (case previous of
        None \<Rightarrow> []
      | Some q \<Rightarrow>
          if seen_isPaused q = None \<or> seen_isPaused q = Some (po_isPaused p) then []
          else [raise_finding INFO (if po_isPaused p then ''POOL_PAUSED'' else ''POOL_UNPAUSED'') (Some (po_label p))])"

definition runPoolChecks :: "pool_obs \<Rightarrow> prev_obs option \<Rightarrow> finding list js" where
  "runPoolChecks pool previous =
     (let integrity = checkVaultIntegrity pool in
      js_bind (checkOutflowRate pool previous 5) (\<lambda>outflow.
      Returns (integrity @ outflow @ checkSaturation pool SATURATION_THRESHOLD @ checkPauseState pool previous)))"

text \<open>On a pool with a positive denomination no rule raises, whatever balance was stored.\<close>

lemma runPoolChecks_total:
  assumes "po_denomination pool \<noteq> 0"
    and "\<And>q s. previous = Some q \<Longrightarrow> seen_vaultLamports q = Some s \<Longrightarrow> string_to_bigint s \<noteq> None"
  shows "\<exists>out. runPoolChecks pool previous = Returns (checkVaultIntegrity pool @ out
      @ checkSaturation pool SATURATION_THRESHOLD @ checkPauseState pool previous)
    \<and> (\<forall>f\<in>set out. f = raise_finding WARNING ''FAST_OUTFLOW'' (Some (po_label pool)))"
proof (cases previous)
  case None
  then show ?thesis by (simp add: runPoolChecks_def checkOutflowRate_def Let_def)
next
  case (Some q)
  show ?thesis
  proof (cases "seen_vaultLamports q")
    case None
    then show ?thesis using Some by (simp add: runPoolChecks_def checkOutflowRate_def Let_def)
  next
    case (Some s)
    then obtain n where n: "string_to_bigint s = Some n" using assms(2) [OF \<open>previous = Some q\<close>] by blast
    then show ?thesis using Some \<open>previous = Some q\<close> assms(1)
      by (simp add: runPoolChecks_def checkOutflowRate_def Let_def string_bigint_js_def bigint_div_def)
  qed
qed

lemma immutable_finding:
  "raise_finding CRITICAL ''IMMUTABLE_FIELD_CHANGED'' (Some l) \<in> set (checkAuthorities expected actual pools)
     \<longleftrightarrow> (\<exists>ap\<in>set pools. ap_label ap = l
         \<and> (\<exists>b c. ap_baseline ap = Some b \<and> ap_current ap = Some c \<and> b \<noteq> c))"
proof -
  have f: "(field_changed pf_admin ap \<or> field_changed pf_treasury ap \<or> field_changed pf_denomination ap)
      \<longleftrightarrow> (\<exists>b c. ap_baseline ap = Some b \<and> ap_current ap = Some c \<and> b \<noteq> c)" for ap
    by (auto simp: field_changed_def split: option.splits)
  have "raise_finding CRITICAL ''IMMUTABLE_FIELD_CHANGED'' (Some l) \<in> set (checkAuthorities expected actual pools)
     \<longleftrightarrow> (\<exists>ap\<in>set pools. ap_label ap = l
        \<and> (field_changed pf_admin ap \<or> field_changed pf_treasury ap \<or> field_changed pf_denomination ap))"
    by (auto simp: checkAuthorities_def raise_finding_def split: option.splits if_splits)
  then show ?thesis by (simp only: f)
qed

text \<open>
  Authority drift is never missed and never invented: with an expected upgrade authority
  configured, a critical finding appears exactly when the authority read is neither that one nor
  none (an unreadable authority included), an immutable program is reported as information, and an
  immutable-field finding for a label appears exactly when some pool of that label has a current
  admin, treasury or denomination different from its baseline.
\<close>

theorem authority_drift_exact:
  "(raise_finding CRITICAL ''UPGRADE_AUTHORITY_CHANGED'' None \<in> set (checkAuthorities expected actual pools)
      \<longleftrightarrow> expected \<noteq> None \<and> actual \<noteq> Some None \<and> actual \<noteq> Some expected)
   \<and> (raise_finding INFO ''PROGRAM_IMMUTABLE'' None \<in> set (checkAuthorities expected actual pools)
      \<longleftrightarrow> expected \<noteq> None \<and> actual = Some None)
   \<and> (raise_finding CRITICAL ''IMMUTABLE_FIELD_CHANGED'' (Some l) \<in> set (checkAuthorities expected actual pools)
      \<longleftrightarrow> (\<exists>ap\<in>set pools. ap_label ap = l
         \<and> (\<exists>b c. ap_baseline ap = Some b \<and> ap_current ap = Some c \<and> b \<noteq> c)))"
  unfolding immutable_finding
  by (auto simp: checkAuthorities_def raise_finding_def split: option.splits if_splits)

end
