(* ===== verification/MonitorStats.thy ===== *)
theory MonitorStats
  imports MonitorChecks
begin

text \<open>
  The usage counts: monitor/src/stats.js (which instructions of a confirmed transaction are pool
  actions, and the totals over a set of transactions) and monitor/src/stats-cli.js (option and list
  parsing, retries, paging through a pool's signatures, fetching each transaction once). The base58
  decoder, the RPC and the date parser are parameters; printing is not modelled.
\<close>

subsection \<open>The actions of a transaction\<close>

definition DEPOSIT_DISCRIMINATOR :: bytes where
  "DEPOSIT_DISCRIMINATOR = [242, 35, 198, 137, 82, 225, 242, 182]"

definition WITHDRAW_DISCRIMINATOR :: bytes where
  "WITHDRAW_DISCRIMINATOR = [183, 18, 70, 156, 148, 109, 161, 34]"

definition data_starts :: "bytes \<Rightarrow> bytes \<Rightarrow> bool" where
  "data_starts data prefix \<longleftrightarrow> length prefix \<le> length data \<and> take (length prefix) data = prefix"

record tx_instruction =
  ti_programIdIndex :: nat
  ti_data :: string
  ti_accounts :: "nat list"

record json_tx =
  jt_err :: bool
  jt_accountKeys :: "string list"
  jt_writable :: "string list"
  jt_readonly :: "string list"
  jt_instructions :: "tx_instruction list"
  jt_inner :: "tx_instruction list list"

text \<open>An index past the end of the account list gives undefined.\<close>

definition key_at :: "string list \<Rightarrow> nat \<Rightarrow> string option" where
  "key_at keys i = (if i < length keys then Some (keys ! i) else None)"

datatype pool_action = DepositBy "string option" "string option" | WithdrawFrom "string option"

definition instruction_action :: "string list \<Rightarrow> string \<Rightarrow> (string \<Rightarrow> bytes js) \<Rightarrow> tx_instruction \<Rightarrow> pool_action list js" where
  "instruction_action keys programId decode ix =
     (if key_at keys (ti_programIdIndex ix) \<noteq> Some programId then Returns []
      else js_bind (decode (ti_data ix)) (\<lambda>data.
        let accounts = map (key_at keys) (ti_accounts ix) in Returns
        (if data_starts data DEPOSIT_DISCRIMINATOR \<and> 3 \<le> length accounts then [DepositBy (accounts ! 0) (accounts ! 2)]
         else if data_starts data WITHDRAW_DISCRIMINATOR \<and> 1 \<le> length accounts then [WithdrawFrom (accounts ! 0)]
         else [])))"

fun instructions_actions :: "string list \<Rightarrow> string \<Rightarrow> (string \<Rightarrow> bytes js) \<Rightarrow> tx_instruction list \<Rightarrow> pool_action list js" where
  "instructions_actions keys programId decode [] = Returns []"
| "instructions_actions keys programId decode (ix # rest) =
     js_bind (instruction_action keys programId decode ix) (\<lambda>here.
     js_bind (instructions_actions keys programId decode rest) (\<lambda>out. Returns (here @ out)))"

definition actionsInTransaction :: "json_tx option \<Rightarrow> string \<Rightarrow> (string \<Rightarrow> bytes js) \<Rightarrow> pool_action list js" where
  "actionsInTransaction tx programId decode =
     (case tx of
        None \<Rightarrow> Returns []
      | Some t \<Rightarrow>
          if jt_err t then Returns []
          else instructions_actions (jt_accountKeys t @ jt_writable t @ jt_readonly t) programId decode
                 (jt_instructions t @ concat (jt_inner t)))"

subsection \<open>Totals\<close>

record pool_row =
  rw_deposits :: nat
  rw_withdrawals :: nat
  rw_wallets :: "string option list"

record tally_state =
  ts_rows :: "string \<rightharpoonup> pool_row"
  ts_all :: "string option list"
  ts_excluded :: nat

definition set_add :: "'a \<Rightarrow> 'a list \<Rightarrow> 'a list" where
  "set_add x xs = (if x \<in> set xs then xs else xs @ [x])"

text \<open>A property name: undefined is the text undefined.\<close>

definition pool_key :: "string option \<Rightarrow> string" where
  "pool_key p = (case p of None \<Rightarrow> ''undefined'' | Some s \<Rightarrow> s)"

definition tally_action :: "string list \<Rightarrow> tally_state \<Rightarrow> pool_action \<Rightarrow> tally_state" where
  "tally_action skip st a =
     (case a of
        WithdrawFrom pool \<Rightarrow>
          (case ts_rows st (pool_key pool) of
             None \<Rightarrow> st
           | Some row \<Rightarrow> st\<lparr>ts_rows := (ts_rows st)(pool_key pool \<mapsto> row\<lparr>rw_withdrawals := rw_withdrawals row + 1\<rparr>)\<rparr>)
      | DepositBy pool depositor \<Rightarrow>
          (case ts_rows st (pool_key pool) of
             None \<Rightarrow> st
           | Some row \<Rightarrow>
               if depositor \<in> Some ` set skip then st\<lparr>ts_excluded := ts_excluded st + 1\<rparr>
               else st\<lparr>ts_rows := (ts_rows st)(pool_key pool \<mapsto> row\<lparr>rw_deposits := rw_deposits row + 1,
                           rw_wallets := set_add depositor (rw_wallets row)\<rparr>),
                       ts_all := set_add depositor (ts_all st)\<rparr>))"

definition in_window :: "int \<Rightarrow> int option \<Rightarrow> int \<Rightarrow> bool" where
  "in_window since until_t t \<longleftrightarrow> \<not> (t < since \<or> (case until_t of None \<Rightarrow> False | Some u \<Rightarrow> u \<le> t))"

definition tally_tx :: "string list \<Rightarrow> int \<Rightarrow> int option \<Rightarrow> tally_state \<Rightarrow> int \<times> pool_action list \<Rightarrow> tally_state" where
  "tally_tx skip since until_t st tx =
     (if in_window since until_t (fst tx) then foldl (tally_action skip) st (snd tx) else st)"

definition empty_row :: pool_row where
  "empty_row = \<lparr>rw_deposits = 0, rw_withdrawals = 0, rw_wallets = []\<rparr>"

definition tally_start :: "(string \<times> string) list \<Rightarrow> tally_state" where
  "tally_start pools =
     \<lparr>ts_rows = (\<lambda>p. if p \<in> fst ` set pools then Some empty_row else None), ts_all = [], ts_excluded = 0\<rparr>"

record tally_row =
  tr_pool :: string
  tr_label :: string
  tr_deposits :: nat
  tr_withdrawals :: nat
  tr_wallets :: nat

record tally_result =
  tt_rows :: "tally_row list"
  tt_deposits :: nat
  tt_withdrawals :: nat
  tt_wallets :: nat
  tt_excluded :: nat

text \<open>The pools object as an association list, in key order, its keys distinct.\<close>

definition row_of :: "tally_state \<Rightarrow> string \<times> string \<Rightarrow> tally_row" where
  "row_of st p =
     (let r = (case ts_rows st (fst p) of None \<Rightarrow> empty_row | Some r \<Rightarrow> r) in
      \<lparr>tr_pool = fst p, tr_label = snd p, tr_deposits = rw_deposits r, tr_withdrawals = rw_withdrawals r,
       tr_wallets = length (rw_wallets r)\<rparr>)"

definition tally :: "(int \<times> pool_action list) list \<Rightarrow> (string \<times> string) list \<Rightarrow> int \<Rightarrow> int option \<Rightarrow> string list \<Rightarrow> tally_result" where
  "tally txs pools since until_t exclude =
     (let st = foldl (tally_tx exclude since until_t) (tally_start pools) txs;
          rows = map (row_of st) pools in
      \<lparr>tt_rows = rows, tt_deposits = sum_list (map tr_deposits rows), tt_withdrawals = sum_list (map tr_withdrawals rows),
       tt_wallets = length (ts_all st), tt_excluded = ts_excluded st\<rparr>)"

subsection \<open>The command line\<close>

text \<open>\<open>(s || "").split(",").map(trim).filter(Boolean)\<close>; also how the watcher reads POOLS.\<close>

definition env_list :: "string option \<Rightarrow> string list" where
  "env_list s = filter (\<lambda>x. x \<noteq> []) (map trim (split_on (CHR '','') (case s of None \<Rightarrow> [] | Some t \<Rightarrow> t)))"

fun index_from :: "string \<Rightarrow> string list \<Rightarrow> nat option" where
  "index_from x [] = None"
| "index_from x (y # ys) = (if x = y then Some 0 else map_option Suc (index_from x ys))"

definition opt_value :: "string list \<Rightarrow> string \<Rightarrow> string option" where
  "opt_value args name =
     (case index_from (''--'' @ name) args of None \<Rightarrow> None | Some i \<Rightarrow> if Suc i < length args then Some (args ! Suc i) else None)"

definition is_date_text :: "string \<Rightarrow> bool" where
  "is_date_text s \<longleftrightarrow> length s = 10 \<and> s ! 4 = CHR ''-'' \<and> s ! 7 = CHR ''-''
     \<and> all_digits 10 (take 4 s) \<and> all_digits 10 (subarray s 5 7) \<and> all_digits 10 (subarray s 8 10)"

text \<open>\<open>Date.parse\<close> is a parameter: milliseconds, or None for NaN.\<close>

definition toUnix :: "(string \<Rightarrow> int option) \<Rightarrow> string option \<Rightarrow> int option js" where
  "toUnix dateParse s =
     (case s of
        None \<Rightarrow> Returns None
      | Some t \<Rightarrow>
          if t = [] then Returns None
          else case dateParse (if is_date_text t then t @ ''T00:00:00Z'' else t) of
              None \<Rightarrow> Throws ''must be a date (2026-10-06) or an ISO time''
            | Some ms \<Rightarrow> Returns (Some (ms div 1000)))"

text \<open>Five attempts; \<open>answer i\<close> is the outcome of attempt i, the waits between them are not modelled.\<close>

fun rpc_attempts :: "nat \<Rightarrow> nat \<Rightarrow> (nat \<Rightarrow> 'a js) \<Rightarrow> 'a js" where
  "rpc_attempts left i answer =
     (case answer i of
        Returns x \<Rightarrow> Returns x
      | Throws e \<Rightarrow> (case left of 0 \<Rightarrow> Throws e | Suc k \<Rightarrow> rpc_attempts k (Suc i) answer))"

declare rpc_attempts.simps [simp del]

definition rpc :: "(nat \<Rightarrow> 'a js) \<Rightarrow> 'a js" where
  "rpc answer = rpc_attempts 4 0 answer"

record sig_info =
  sg_signature :: string
  sg_blockTime :: "int option"
  sg_err :: bool

text \<open>One page: the collected signatures, and whether an entry older than \<open>since\<close> ended the scan.\<close>

fun scan_page :: "int option \<Rightarrow> int option \<Rightarrow> string list \<Rightarrow> sig_info list \<Rightarrow> string list \<times> bool" where
  "scan_page since until_t out [] = (out, False)"
| "scan_page since until_t out (s # rest) =
     (if (case (since, sg_blockTime s) of (Some a, Some t) \<Rightarrow> t < a | _ \<Rightarrow> False) then (out, True)
      else scan_page since until_t
        (if \<not> sg_err s \<and> (case (until_t, sg_blockTime s) of (Some u, Some t) \<Rightarrow> t < u | _ \<Rightarrow> True)
         then out @ [sg_signature s] else out) rest)"

definition PAGE_LIMIT :: nat where "PAGE_LIMIT = 1000"

text \<open>The paging loop ends only when the RPC says so, so it runs on fuel: None is out of fuel.\<close>

fun signatures_loop :: "nat \<Rightarrow> (string option \<Rightarrow> sig_info list js) \<Rightarrow> int option \<Rightarrow> int option
    \<Rightarrow> string option \<Rightarrow> string list \<Rightarrow> string list js option" where
  "signatures_loop 0 getPage since until_t before out = None"
| "signatures_loop (Suc fuel) getPage since until_t before out =
     (case getPage before of
        Throws e \<Rightarrow> Some (Throws e)
      | Returns page \<Rightarrow>
          (let (out', stop) = scan_page since until_t out page in
           if stop then Some (Returns out')
           else if length page < PAGE_LIMIT then Some (Returns out')
           else signatures_loop fuel getPage since until_t (Some (sg_signature (last page))) out'))"

definition signatures :: "nat \<Rightarrow> (string option \<Rightarrow> sig_info list js) \<Rightarrow> int option \<Rightarrow> int option \<Rightarrow> string list js option" where
  "signatures fuel getPage since until_t = signatures_loop fuel getPage since until_t None []"

text \<open>\<open>filter((s) => !seen.has(s) && seen.add(s))\<close>, over the pools in order.\<close>

definition unseen :: "string list list \<Rightarrow> string list" where
  "unseen perPool = foldl (foldl (\<lambda>seen s. set_add s seen)) [] perPool"

subsection \<open>The totals are the counts\<close>

lemma set_add_props [simp]: "set (set_add x xs) = insert x (set xs)" "distinct (set_add x xs) = distinct xs"
  by (auto simp: set_add_def)

definition counted_deposit :: "string list \<Rightarrow> string \<Rightarrow> pool_action \<Rightarrow> bool" where
  "counted_deposit skip p a = (case a of DepositBy q d \<Rightarrow> pool_key q = p \<and> d \<notin> Some ` set skip | _ \<Rightarrow> False)"

definition counted_withdrawal :: "string \<Rightarrow> pool_action \<Rightarrow> bool" where
  "counted_withdrawal p a = (case a of WithdrawFrom q \<Rightarrow> pool_key q = p | _ \<Rightarrow> False)"

definition skipped_deposit :: "string list \<Rightarrow> string set \<Rightarrow> pool_action \<Rightarrow> bool" where
  "skipped_deposit skip listed a = (case a of DepositBy q d \<Rightarrow> pool_key q \<in> listed \<and> d \<in> Some ` set skip | _ \<Rightarrow> False)"

primrec depositor :: "pool_action \<Rightarrow> string option" where
  "depositor (DepositBy q d) = d"
| "depositor (WithdrawFrom q) = None"

lemma counted_simps [simp]:
  "counted_deposit skip p (DepositBy q d) \<longleftrightarrow> pool_key q = p \<and> d \<notin> Some ` set skip"
  "counted_deposit skip p (WithdrawFrom q) \<longleftrightarrow> False"
  "counted_withdrawal p (WithdrawFrom q) \<longleftrightarrow> pool_key q = p"
  "counted_withdrawal p (DepositBy q d) \<longleftrightarrow> False"
  "skipped_deposit skip listed (DepositBy q d) \<longleftrightarrow> pool_key q \<in> listed \<and> d \<in> Some ` set skip"
  "skipped_deposit skip listed (WithdrawFrom q) \<longleftrightarrow> False"
  by (simp_all add: counted_deposit_def counted_withdrawal_def skipped_deposit_def)

definition window_actions :: "int \<Rightarrow> int option \<Rightarrow> (int \<times> pool_action list) list \<Rightarrow> pool_action list" where
  "window_actions since until_t txs = concat (map snd (filter (\<lambda>tx. in_window since until_t (fst tx)) txs))"

lemma tally_flat: "foldl (tally_tx skip since until_t) st txs = foldl (tally_action skip) st (window_actions since until_t txs)"
  by (induction txs arbitrary: st) (simp_all add: tally_tx_def window_actions_def)

definition tally_inv :: "string list \<Rightarrow> string set \<Rightarrow> pool_action list \<Rightarrow> tally_state \<Rightarrow> bool" where
  "tally_inv skip listed acts st \<longleftrightarrow>
     dom (ts_rows st) = listed
   \<and> (\<forall>p r. ts_rows st p = Some r \<longrightarrow>
        rw_deposits r = length (filter (counted_deposit skip p) acts)
      \<and> rw_withdrawals r = length (filter (counted_withdrawal p) acts)
      \<and> distinct (rw_wallets r) \<and> set (rw_wallets r) = depositor ` set (filter (counted_deposit skip p) acts))
   \<and> ts_excluded st = length (filter (skipped_deposit skip listed) acts)
   \<and> distinct (ts_all st) \<and> set (ts_all st) = (\<Union>p\<in>listed. depositor ` set (filter (counted_deposit skip p) acts))"

lemma tally_inv_step:
  assumes "tally_inv skip listed acts st"
  shows "tally_inv skip listed (acts @ [a]) (tally_action skip st a)"
proof (cases a)
  case (DepositBy q d)
  show ?thesis
  proof (cases "ts_rows st (pool_key q)")
    case None
    then have "pool_key q \<notin> listed" using assms by (auto simp: tally_inv_def)
    then show ?thesis using assms None DepositBy
      by (auto simp: tally_inv_def tally_action_def split: if_splits)
  next
    case (Some row)
    then have "pool_key q \<in> listed" using assms by (auto simp: tally_inv_def)
    then show ?thesis using assms Some DepositBy
      by (auto simp: tally_inv_def tally_action_def split: if_splits)
  qed
next
  case (WithdrawFrom q)
  then show ?thesis using assms
    by (cases "ts_rows st (pool_key q)") (auto simp: tally_inv_def tally_action_def split: if_splits)
qed

lemma tally_inv_run: "tally_inv skip (fst ` set pools) acts (foldl (tally_action skip) (tally_start pools) acts)"
proof (induction acts rule: rev_induct)
  case Nil
  then show ?case by (force simp: tally_inv_def tally_start_def empty_row_def split: if_splits)
next
  case (snoc a acts)
  then show ?case using tally_inv_step [OF snoc] by simp
qed

text \<open>
  The totals are the counts: each pool's row counts exactly the in-window deposit instructions
  for it from wallets that are not excluded, the in-window withdrawals, and the distinct wallets
  among those deposits; the total of wallets counts a wallet once even when it used several pools;
  and excluded deposits are counted apart, on listed pools only.
\<close>

theorem tally_exact:
  "let acts = window_actions since until_t txs; r = tally txs pools since until_t exclude in
     tt_rows r = map (\<lambda>p. \<lparr>tr_pool = fst p, tr_label = snd p,
       tr_deposits = length (filter (counted_deposit exclude (fst p)) acts),
       tr_withdrawals = length (filter (counted_withdrawal (fst p)) acts),
       tr_wallets = card (depositor ` set (filter (counted_deposit exclude (fst p)) acts))\<rparr>) pools
   \<and> tt_wallets r = card (\<Union>p\<in>set pools. depositor ` set (filter (counted_deposit exclude (fst p)) acts))
   \<and> tt_excluded r = length (filter (skipped_deposit exclude (fst ` set pools)) acts)"
proof -
  define acts where "acts = window_actions since until_t txs"
  define st where "st = foldl (tally_action exclude) (tally_start pools) acts"
  have inv: "tally_inv exclude (fst ` set pools) acts st" unfolding st_def by (rule tally_inv_run)
  have row: "row_of st p = \<lparr>tr_pool = fst p, tr_label = snd p,
       tr_deposits = length (filter (counted_deposit exclude (fst p)) acts),
       tr_withdrawals = length (filter (counted_withdrawal (fst p)) acts),
       tr_wallets = card (depositor ` set (filter (counted_deposit exclude (fst p)) acts))\<rparr>" if "p \<in> set pools" for p
  proof -
    have "fst p \<in> dom (ts_rows st)" using inv that by (simp add: tally_inv_def)
    then obtain r where r: "ts_rows st (fst p) = Some r" by blast
    from inv r have "distinct (rw_wallets r)"
        and w: "set (rw_wallets r) = depositor ` set (filter (counted_deposit exclude (fst p)) acts)"
      unfolding tally_inv_def by blast+
    then have "length (rw_wallets r) = card (depositor ` set (filter (counted_deposit exclude (fst p)) acts))"
      by (metis distinct_card)
    then show ?thesis using inv r unfolding tally_inv_def row_of_def Let_def by simp
  qed
  from inv have "distinct (ts_all st)"
      and "set (ts_all st) = (\<Union>p\<in>fst ` set pools. depositor ` set (filter (counted_deposit exclude p) acts))"
    unfolding tally_inv_def by blast+
  then have "length (ts_all st) = card (\<Union>p\<in>fst ` set pools. depositor ` set (filter (counted_deposit exclude p) acts))"
    by (metis distinct_card)
  then show ?thesis
    using inv row unfolding tally_def Let_def tally_flat acts_def [symmetric] st_def [symmetric]
    by (simp add: tally_inv_def)
qed

subsection \<open>Paging reads the whole history\<close>

text \<open>
  What the code relies on of \<open>getSignaturesForAddress\<close>: over a history, newest first, it returns the
  next entries after the given signature, at most the limit.
\<close>

definition older_than :: "string option \<Rightarrow> sig_info list \<Rightarrow> sig_info list" where
  "older_than before hist =
     (case before of None \<Rightarrow> hist | Some s \<Rightarrow> tl (dropWhile (\<lambda>x. sg_signature x \<noteq> s) hist))"

definition too_old :: "int option \<Rightarrow> sig_info \<Rightarrow> bool" where
  "too_old since s = (case (since, sg_blockTime s) of (Some a, Some t) \<Rightarrow> t < a | _ \<Rightarrow> False)"

definition kept :: "int option \<Rightarrow> sig_info \<Rightarrow> bool" where
  "kept until_t s \<longleftrightarrow> \<not> sg_err s \<and> (case (until_t, sg_blockTime s) of (Some u, Some t) \<Rightarrow> t < u | _ \<Rightarrow> True)"

definition wanted :: "int option \<Rightarrow> int option \<Rightarrow> sig_info list \<Rightarrow> string list" where
  "wanted since until_t xs = map sg_signature (filter (kept until_t) (takeWhile (\<lambda>s. \<not> too_old since s) xs))"

lemma scan_page_eq:
  "scan_page since until_t out xs = (out @ wanted since until_t xs, \<exists>s\<in>set xs. too_old since s)"
  by (induction xs arbitrary: out) (auto simp: wanted_def too_old_def kept_def)

lemma older_than_append:
  assumes "distinct (map sg_signature (pre @ rest))" "pre \<noteq> []"
  shows "older_than (Some (sg_signature (last pre))) (pre @ rest) = rest"
proof -
  obtain ys y where p: "pre = ys @ [y]" using assms(2) by (cases pre rule: rev_cases) auto
  have "\<forall>x\<in>set ys. sg_signature x \<noteq> sg_signature y"
    using assms(1) p by (auto simp: image_iff)
  then have "dropWhile (\<lambda>x. sg_signature x \<noteq> sg_signature y) (ys @ y # rest) = y # rest"
    by (simp add: dropWhile_append2)
  then show ?thesis using p by (simp add: older_than_def)
qed

lemma wanted_append:
  "\<not> (\<exists>s\<in>set xs. too_old since s) \<Longrightarrow> wanted since until_t (xs @ ys) = wanted since until_t xs @ wanted since until_t ys"
proof -
  assume "\<not> (\<exists>s\<in>set xs. too_old since s)"
  then have "takeWhile (\<lambda>s. \<not> too_old since s) (xs @ ys) = xs @ takeWhile (\<lambda>s. \<not> too_old since s) ys"
      "takeWhile (\<lambda>s. \<not> too_old since s) xs = xs"
    by (simp, simp only: takeWhile_eq_all_conv) blast
  then show ?thesis by (simp only: wanted_def filter_append map_append)
qed

lemma wanted_stop:
  "\<exists>s\<in>set xs. too_old since s \<Longrightarrow> wanted since until_t (xs @ ys) = wanted since until_t xs"
proof -
  assume "\<exists>s\<in>set xs. too_old since s"
  then obtain s where "s \<in> set xs" "\<not> \<not> too_old since s" by blast
  then have "takeWhile (\<lambda>s. \<not> too_old since s) (xs @ ys) = takeWhile (\<lambda>s. \<not> too_old since s) xs"
    by (rule takeWhile_append1)
  then show ?thesis by (simp add: wanted_def)
qed

lemma signatures_loop_complete:
  assumes pages: "\<And>before. getPage before = Returns (take PAGE_LIMIT (older_than before hist))"
    and "distinct (map sg_signature hist)" "hist = pre @ rest" "length rest < PAGE_LIMIT * fuel"
    and "before = (if pre = [] then None else Some (sg_signature (last pre)))"
  shows "signatures_loop fuel getPage since until_t before out = Some (Returns (out @ wanted since until_t rest))"
  using assms(3-)
proof (induction fuel arbitrary: pre rest before out)
  case (Suc fuel)
  let ?page = "take PAGE_LIMIT rest" and ?more = "drop PAGE_LIMIT rest"
  have "older_than before hist = rest"
    using Suc.prems(1,3) older_than_append [of pre rest] assms(2) by (auto simp: older_than_def)
  then have pg: "getPage before = Returns ?page" by (simp add: pages)
  show ?case
  proof (cases "\<exists>s\<in>set ?page. too_old since s")
    case True
    then show ?thesis using wanted_stop [OF True, of until_t ?more] pg by (simp add: scan_page_eq)
  next
    case fresh: False
    show ?thesis
    proof (cases "length rest < PAGE_LIMIT")
      case True
      then show ?thesis using pg fresh by (simp add: scan_page_eq)
    next
      case False
      have ne: "?page \<noteq> []" using False by (auto simp: PAGE_LIMIT_def)
      have "signatures_loop fuel getPage since until_t (Some (sg_signature (last ?page))) (out @ wanted since until_t ?page)
          = Some (Returns ((out @ wanted since until_t ?page) @ wanted since until_t ?more))"
      proof (rule Suc.IH [of "pre @ ?page"])
        show "length ?more < PAGE_LIMIT * fuel" using Suc.prems(2) False by simp
      qed (use Suc.prems(1) ne in auto)
      then show ?thesis
        using pg fresh False wanted_append [OF fresh, of until_t ?more] by (simp add: scan_page_eq)
    qed
  qed
qed simp

text \<open>
  Paging terminates and reads everything: against an RPC that pages through a history of distinct
  signatures, the loop ends within one page more than the history holds, and returns, in order,
  every successful signature before the end of the window, down to the first entry older than its
  start.
\<close>

theorem signatures_complete:
  assumes "\<And>before. getPage before = Returns (take PAGE_LIMIT (older_than before hist))"
    and "distinct (map sg_signature hist)" "length hist < PAGE_LIMIT * fuel"
  shows "signatures fuel getPage since until_t = Some (Returns
    (map sg_signature (filter (kept until_t) (takeWhile (\<lambda>s. \<not> too_old since s) hist))))"
  using signatures_loop_complete [OF assms(1,2), of "[]" hist fuel None since until_t "[]"] assms(3)
  by (simp add: signatures_def wanted_def)

definition example_history :: "sig_info list" where
  "example_history = [\<lparr>sg_signature = ''c'', sg_blockTime = Some 30, sg_err = False\<rparr>,
     \<lparr>sg_signature = ''b'', sg_blockTime = Some 20, sg_err = True\<rparr>,
     \<lparr>sg_signature = ''a'', sg_blockTime = Some 10, sg_err = False\<rparr>]"

lemma signatures_complete_witness:
  "signatures 1 (\<lambda>before. Returns (take PAGE_LIMIT (older_than before example_history))) (Some 15) None = Some (Returns [''c''])"
proof -
  have "distinct (map sg_signature example_history)" "length example_history < PAGE_LIMIT * 1"
    by (simp_all add: example_history_def PAGE_LIMIT_def)
  moreover have "map sg_signature (filter (kept None) (takeWhile (\<lambda>s. \<not> too_old (Some 15) s) example_history)) = [''c'']"
    by code_simp
  ultimately show ?thesis
    using signatures_complete [of "\<lambda>before. Returns (take PAGE_LIMIT (older_than before example_history))" example_history 1 "Some 15" None]
    by simp
qed

lemma unseen_run: "distinct (seen :: string list) \<Longrightarrow>
    distinct (foldl (foldl (\<lambda>seen s. set_add s seen)) seen perPool)
    \<and> set (foldl (foldl (\<lambda>seen s. set_add s seen)) seen perPool) = set seen \<union> (\<Union>sigs\<in>set perPool. set sigs)"
proof (induction perPool arbitrary: seen)
  case (Cons sigs rest)
  have "distinct (foldl (\<lambda>seen s. set_add s seen) xs sigs) = distinct xs
      \<and> set (foldl (\<lambda>seen s. set_add s seen) xs sigs) = set xs \<union> set sigs" for xs :: "string list"
    by (induction sigs arbitrary: xs) auto
  then show ?case using Cons.IH [of "foldl (\<lambda>seen s. set_add s seen) seen sigs"] Cons.prems by auto
qed simp

text \<open>
  A transaction that touches several pools is fetched and counted once, and none is lost; and an
  RPC call fails only after five failed attempts, each successful answer within them being returned.
\<close>

theorem each_transaction_once:
  "distinct (unseen perPool) \<and> set (unseen perPool) = (\<Union>sigs\<in>set perPool. set sigs)
   \<and> (\<exists>x. rpc answer = Returns x) = (\<exists>i<5. \<exists>x. answer i = Returns x)"
proof -
  have r: "(\<exists>x. rpc_attempts k i answer = Returns x) = (\<exists>j\<le>k. \<exists>x. answer (i + j) = Returns x)" for k i
  proof (induction k arbitrary: i)
    case 0
    then show ?case by (subst rpc_attempts.simps) (auto split: js.split)
  next
    case (Suc k)
    show ?case
    proof (cases "answer i")
      case (Returns x)
      then show ?thesis by (subst rpc_attempts.simps) (auto intro!: exI [of _ 0])
    next
      case (Throws e)
      have "(\<exists>j\<le>Suc k. \<exists>x. answer (i + j) = Returns x) = (\<exists>j\<le>k. \<exists>x. answer (Suc i + j) = Returns x)"
      proof
        assume "\<exists>j\<le>Suc k. \<exists>x. answer (i + j) = Returns x"
        then obtain j x where j: "j \<le> Suc k" "answer (i + j) = Returns x" by blast
        then obtain j' where "j = Suc j'" using Throws by (cases j) auto
        then show "\<exists>j\<le>k. \<exists>x. answer (Suc i + j) = Returns x" using j by auto
      next
        assume "\<exists>j\<le>k. \<exists>x. answer (Suc i + j) = Returns x"
        then obtain j x where "j \<le> k" "answer (Suc i + j) = Returns x" by blast
        then show "\<exists>j\<le>Suc k. \<exists>x. answer (i + j) = Returns x" by (intro exI [of _ "Suc j"]) auto
      qed
      then show ?thesis using Throws Suc by (subst rpc_attempts.simps) simp
    qed
  qed
  have "(\<exists>x. rpc answer = Returns x) = (\<exists>i<5. \<exists>x. answer i = Returns x)"
    unfolding rpc_def r by (simp add: less_eq_Suc_le [symmetric] numeral_eq_Suc less_Suc_eq_le)
  then show ?thesis using unseen_run [of "[]" perPool] by (simp add: unseen_def)
qed

end
