(* ===== verification/JsNumberText.thy ===== *)
theory JsNumberText
  imports JsText JsNumber
begin

text \<open>
  \<open>Number(text)\<close>: the grammar of numeric strings, read to the nearest double, with NaN and the
  infinities as values, and the order on Numbers. The facts say that a plain decimal is read to the
  double nearest to its exact value.
\<close>

subsection \<open>Number(text)\<close>

datatype js_num = NaN | PosInf | NegInf | Finite rat

text \<open>\<open>a <= b\<close> on Numbers: every comparison with NaN is false.\<close>

definition js_le :: "js_num \<Rightarrow> js_num \<Rightarrow> bool" where
  "js_le a b =
     (case (a, b) of
        (NaN, _) \<Rightarrow> False
      | (_, NaN) \<Rightarrow> False
      | (NegInf, _) \<Rightarrow> True
      | (_, PosInf) \<Rightarrow> True
      | (Finite x, Finite y) \<Rightarrow> x \<le> y
      | _ \<Rightarrow> False)"

definition span_digits :: "string \<Rightarrow> string \<times> string" where
  "span_digits s = (takeWhile (digit_in 10) s, dropWhile (digit_in 10) s)"

definition exponent_part :: "string \<Rightarrow> int option" where
  "exponent_part s =
     (case s of
        [] \<Rightarrow> Some 0
      | c # t \<Rightarrow>
          if c \<notin> {CHR ''e'', CHR ''E''} then None
          else case t of
              [] \<Rightarrow> None
            | d # u \<Rightarrow>
                if d = CHR ''-'' then map_option (\<lambda>n. - int n) (parse_digits 10 u)
                else if d = CHR ''+'' then map_option int (parse_digits 10 u)
                else map_option int (parse_digits 10 t))"

definition decimal_literal :: "string \<Rightarrow> rat option" where
  "decimal_literal s =
     (let (ip, r) = span_digits s;
          (fp, r') = (if r \<noteq> [] \<and> hd r = CHR ''.'' then span_digits (tl r) else ([], r)) in
      if ip = [] \<and> fp = [] then None
      else map_option (\<lambda>e. of_nat (digits_val 10 (ip @ fp)) * 10 powi (e - int (length fp))) (exponent_part r'))"

text \<open>Magnitudes above the largest double become infinite; subnormal rounding is not modelled.\<close>

definition to_double :: "rat \<Rightarrow> js_num" where
  "to_double x = (if 2 ^ 1024 \<le> fl x then PosInf else if fl x \<le> - (2 ^ 1024) then NegInf else Finite (fl x))"

definition signed_literal :: "rat \<Rightarrow> string \<Rightarrow> js_num" where
  "signed_literal sign s =
     (if s = ''Infinity'' then (if sign < 0 then NegInf else PosInf)
      else case decimal_literal s of None \<Rightarrow> NaN | Some x \<Rightarrow> to_double (sign * x))"

definition js_Number :: "string \<Rightarrow> js_num" where
  "js_Number s =
     (let t = trim s in
      case t of
        [] \<Rightarrow> Finite 0
      | c # u \<Rightarrow>
          if c = CHR ''0'' \<and> u \<noteq> [] \<and> hd u \<in> {CHR ''x'', CHR ''X'', CHR ''o'', CHR ''O'', CHR ''b'', CHR ''B''}
          then (case string_to_bigint t of None \<Rightarrow> NaN | Some n \<Rightarrow> to_double (of_int n))
          else if c = CHR ''-'' then signed_literal (- 1) u
          else if c = CHR ''+'' then signed_literal 1 u
          else signed_literal 1 t)"

lemma to_double_safe:
  assumes "\<bar>n\<bar> \<le> 9007199254740992" shows "to_double (of_int n) = Finite (of_int n)"
proof -
  have e: "fl (of_int n) = of_int n" using assms by (intro fl_of_int) simp
  have "n \<le> 9007199254740992" "- 9007199254740992 \<le> n" using assms by linarith+
  then have "(of_int n :: rat) \<le> 9007199254740992" "- 9007199254740992 \<le> (of_int n :: rat)"
    by (metis of_int_le_iff of_int_numeral, metis of_int_le_iff of_int_minus of_int_numeral)
  moreover have "(9007199254740992 :: rat) < 2 ^ 1024" by simp
  ultimately have "\<not> 2 ^ 1024 \<le> (of_int n :: rat)" "\<not> of_int n \<le> - (2 ^ 1024 :: rat)" by linarith+
  then show ?thesis unfolding to_double_def e by simp
qed

subsection \<open>Plain decimals\<close>

lemma fl_rel_error:
  assumes "0 < x" shows "\<bar>fl x - x\<bar> \<le> x / 2 ^ 53"
proof -
  have "ulp x = 2 powi exp2 x / 2 ^ 52" using assms by (simp add: ulp_def power_int_diff)
  also have "\<dots> \<le> x / 2 ^ 52" using exp2_bounds(1) [OF assms] by (simp add: divide_right_mono)
  finally have "ulp x / 2 \<le> x / 2 ^ 53" by simp
  then show ?thesis using fl_error [of x] by linarith
qed

lemma takeWhile_all: "(\<And>c. c \<in> set s \<Longrightarrow> P c) \<Longrightarrow> r = [] \<or> \<not> P (hd r) \<Longrightarrow> takeWhile P (s @ r) = s \<and> dropWhile P (s @ r) = r"
  by (cases r) (auto simp: takeWhile_append dropWhile_append)

lemma decimal_literal_point:
  assumes "all_digits 10 ip" "all_digits 10 fp" "ip \<noteq> []"
  shows "decimal_literal (ip @ ''.'' @ fp) = Some (of_nat (digits_val 10 (ip @ fp)) / 10 ^ length fp)"
proof -
  have d: "\<not> digit_in 10 (CHR ''.'')" by code_simp
  have "span_digits (ip @ ''.'' @ fp) = (ip, ''.'' @ fp)"
    using takeWhile_all [of ip "digit_in 10" "''.'' @ fp"] assms(1) d by (auto simp: span_digits_def all_digits_def list_all_iff)
  moreover have "span_digits fp = (fp, [])"
    using takeWhile_all [of fp "digit_in 10" "[]"] assms(2) by (auto simp: span_digits_def all_digits_def list_all_iff)
  moreover have "(of_nat n :: rat) * 10 powi - int k = of_nat n / 10 ^ k" for n k
    by (simp add: power_int_minus divide_inverse)
  ultimately show ?thesis using assms(3) by (simp add: decimal_literal_def exponent_part_def)
qed

lemma js_Number_point:
  assumes "all_digits 10 ip" "all_digits 10 fp" "ip \<noteq> []"
  shows "js_Number (ip @ ''.'' @ fp) = to_double (of_nat (digits_val 10 (ip @ fp)) / 10 ^ length fp)"
proof -
  obtain c ip' where ip: "ip = c # ip'" using assms(3) by (cases ip) auto
  have c: "digit_in 10 c" using assms(1) ip by (simp add: all_digits_def list_all_iff)
  have sp: "\<not> is_space x" if "digit_in 10 x \<or> x = CHR ''.''" for x
  proof (cases "x = CHR ''.''")
    case True
    then show ?thesis by (simp add: is_space_def)
  next
    case False
    then show ?thesis using that digit_in_props [of 10 x] by simp
  qed
  have l: "last (ip @ ''.'' @ fp) \<in> set fp \<union> {CHR ''.''}" by (cases fp rule: rev_cases) auto
  have t: "trim (ip @ ''.'' @ fp) = ip @ ''.'' @ fp"
  proof (rule trim_id)
    show "\<not> is_space (hd (ip @ ''.'' @ fp))" using c ip sp by simp
    show "\<not> is_space (last (ip @ ''.'' @ fp))" using l sp assms(2) by (auto simp: all_digits_def list_all_iff)
  qed simp
  have h: "hd (ip' @ ''.'' @ fp) \<notin> {CHR ''x'', CHR ''X'', CHR ''o'', CHR ''O'', CHR ''b'', CHR ''B''}"
  proof (cases ip')
    case (Cons d ds)
    then have "digit_in 10 d" using assms(1) ip by (simp add: all_digits_def list_all_iff)
    then show ?thesis using Cons digit_in_props [of 10 d] by simp
  qed simp
  have "\<not> digit_in 10 (CHR ''I'')" by code_simp
  then have n: "c \<noteq> CHR ''-''" "c \<noteq> CHR ''+''" "c \<noteq> CHR ''I''"
    using c digit_in_props [OF c] by auto
  have "js_Number (ip @ ''.'' @ fp) = signed_literal 1 (ip @ ''.'' @ fp)"
  proof -
    let ?s = "ip @ ''.'' @ fp" and ?u = "ip' @ ''.'' @ fp"
    have e: "?s = c # ?u" by (simp add: ip)
    have "js_Number ?s = (case ?s of [] \<Rightarrow> Finite 0 | c # u \<Rightarrow>
          if c = CHR ''0'' \<and> u \<noteq> [] \<and> hd u \<in> {CHR ''x'', CHR ''X'', CHR ''o'', CHR ''O'', CHR ''b'', CHR ''B''}
          then (case string_to_bigint ?s of None \<Rightarrow> NaN | Some n \<Rightarrow> to_double (of_int n))
          else if c = CHR ''-'' then signed_literal (- 1) u
          else if c = CHR ''+'' then signed_literal 1 u
          else signed_literal 1 ?s)"
      by (simp only: js_Number_def Let_def t)
    also have "\<dots> = signed_literal 1 ?s"
      unfolding e list.case using h n(1,2) by (simp only: if_False simp_thms)
    finally show ?thesis .
  qed
  also have "\<dots> = to_double (of_nat (digits_val 10 (ip @ fp)) / 10 ^ length fp)"
    using n(3) decimal_literal_point [OF assms] by (simp add: signed_literal_def ip)
  finally show ?thesis .
qed

end
