(* ===== verification/Startup.thy ===== *)
theory Startup
  imports PoolAccount JsNumberText
begin

text \<open>
  Starting the relayer: relayer/src/startup.js (which key it signs with), relayer/src/health.js
  (balance thresholds and the periodic check), relayer/src/verify.js (the verifying key) and the
  order in which relayer/src/index.js runs them. File reads, RPC answers and the web3.js key
  constructors are parameters.
\<close>

subsection \<open>The signing key (startup.js)\<close>

definition UPGRADEABLE_LOADER :: pubkey where
  "UPGRADEABLE_LOADER = [2, 168, 246, 145, 78, 136, 161, 176, 226, 16, 21, 62, 247, 99, 174, 43,
     0, 194, 185, 61, 22, 193, 36, 210, 192, 83, 122, 16, 4, 128, 0, 0]"

definition KEY_ERROR :: string where "KEY_ERROR = ''RelayerKeyError''"

definition loadRelayerKeypair :: "string option \<Rightarrow> (string \<Rightarrow> bytes js) \<Rightarrow> (bytes \<Rightarrow> pubkey js) \<Rightarrow> pubkey js" where
  "loadRelayerKeypair path read fromSecretKey =
     (case path of
        None \<Rightarrow> Throws KEY_ERROR
      | Some p \<Rightarrow>
          if p = '''' then Throws KEY_ERROR
          else case read p of Throws _ \<Rightarrow> Throws KEY_ERROR | Returns bs \<Rightarrow> fromSecretKey bs)"

definition read_u32_le :: "bytes \<Rightarrow> int" where
  "read_u32_le d = le_int (subarray d 0 4)"

text \<open>Reading the ProgramData account: None when the program is immutable.\<close>

definition program_data_authority :: "(bytes \<Rightarrow> pubkey js) \<Rightarrow> account_info option \<Rightarrow> pubkey option js" where
  "program_data_authority newKey pd =
     (case pd of
        None \<Rightarrow> Throws KEY_ERROR
      | Some d \<Rightarrow>
          if length (acc_data d) < 13 \<or> read_u32_le (acc_data d) \<noteq> 3 then Throws KEY_ERROR
          else if acc_data d ! 12 = 0 then Returns None
          else js_bind (newKey (subarray (acc_data d) 13 45)) (\<lambda>k. Returns (Some k)))"

definition upgradeAuthority :: "(pubkey \<Rightarrow> account_info option js) \<Rightarrow> (bytes \<Rightarrow> pubkey js) \<Rightarrow> pubkey \<Rightarrow> pubkey option js" where
  "upgradeAuthority account newKey programId =
     js_bind (account programId) (\<lambda>program. case program of
       None \<Rightarrow> Throws KEY_ERROR
     | Some a \<Rightarrow>
         if acc_owner a \<noteq> UPGRADEABLE_LOADER \<or> length (acc_data a) < 36 then Throws KEY_ERROR
         else if read_u32_le (acc_data a) \<noteq> 2 then Throws KEY_ERROR
         else js_bind (newKey (subarray (acc_data a) 4 36)) (\<lambda>programData.
              js_bind (account programData) (program_data_authority newKey)))"

definition assertNotUpgradeAuthority :: "(pubkey \<Rightarrow> account_info option js) \<Rightarrow> (bytes \<Rightarrow> pubkey js) \<Rightarrow> pubkey \<Rightarrow> pubkey \<Rightarrow> unit js" where
  "assertNotUpgradeAuthority account newKey programId relayer =
     js_bind (upgradeAuthority account newKey programId) (\<lambda>authority.
     case authority of
       Some k \<Rightarrow> if k = relayer then Throws KEY_ERROR else Returns ()
     | None \<Rightarrow> Returns ())"

subsection \<open>Balance alerts (health.js)\<close>

definition ALERT_THRESHOLD_LAMPORTS :: int where "ALERT_THRESHOLD_LAMPORTS = 5000000000"
definition CRITICAL_THRESHOLD_LAMPORTS :: int where "CRITICAL_THRESHOLD_LAMPORTS = 1000000000"

definition math_round :: "rat \<Rightarrow> int" where
  "math_round x = \<lfloor>x + 1/2\<rfloor>"

definition read_threshold :: "string option \<Rightarrow> int \<Rightarrow> int js" where
  "read_threshold raw fallback =
     (case raw of
        None \<Rightarrow> Returns fallback
      | Some s \<Rightarrow>
          if s = '''' then Returns fallback
          else case js_Number s of
              Finite sol \<Rightarrow> if sol \<le> 0 then Throws ''must be a positive number of SOL''
                            else Returns (math_round (fl (sol * 1000000000)))
            | _ \<Rightarrow> Throws ''must be a positive number of SOL'')"

record thresholds =
  alertThreshold :: int
  criticalThreshold :: int

definition thresholdsFromEnv :: "string option \<Rightarrow> string option \<Rightarrow> thresholds js" where
  "thresholdsFromEnv alertSol criticalSol =
     js_bind (read_threshold alertSol ALERT_THRESHOLD_LAMPORTS) (\<lambda>alert.
     js_bind (read_threshold criticalSol CRITICAL_THRESHOLD_LAMPORTS) (\<lambda>critical.
     if alert < critical then Throws ''RELAYER_CRITICAL_SOL must not be above RELAYER_ALERT_SOL''
     else Returns \<lparr>alertThreshold = alert, criticalThreshold = critical\<rparr>))"

datatype alert_level = AlertCritical | AlertWarning

text \<open>One tick of the timer; a failed balance read is logged and raises no alert.\<close>

definition health_tick :: "thresholds \<Rightarrow> int js \<Rightarrow> alert_level option" where
  "health_tick th balance =
     (case balance of
        Throws _ \<Rightarrow> None
      | Returns b \<Rightarrow> if b < criticalThreshold th then Some AlertCritical
                     else if b < alertThreshold th then Some AlertWarning else None)"

subsection \<open>The verifying key (verify.js)\<close>

text \<open>What the file parses to: its truthiness, its nPublic and the rest. null has no properties.\<close>

record vk_file =
  vk_null :: bool
  vk_truthy :: bool
  vk_nPublic :: json
  vk_body :: string

definition loadVerificationKey :: "vk_file js \<Rightarrow> vk_file option \<Rightarrow> vk_file js \<times> vk_file option" where
  "loadVerificationKey file cached =
     (if (case cached of Some k \<Rightarrow> vk_truthy k | None \<Rightarrow> False) then (Returns (the cached), cached)
      else case file of
          Throws _ \<Rightarrow> (Throws ''Cannot load the withdraw verifying key'', cached)
        | Returns k \<Rightarrow>
            if vk_null k then (Throws ''TypeError'', Some k)
            else if vk_nPublic k \<noteq> JInt 3 then (Throws ''wrong or stale key'', Some k)
            else (Returns k, Some k))"

text \<open>The verifier itself is snarkjs; the argument \<open>verify\<close> is what it answers.\<close>

definition verifyProofOffChain :: "(vk_file \<Rightarrow> json \<Rightarrow> json \<Rightarrow> bool js) \<Rightarrow> vk_file js \<Rightarrow> vk_file option
    \<Rightarrow> json \<Rightarrow> json \<Rightarrow> bool js \<times> vk_file option" where
  "verifyProofOffChain verify file cached pf signals =
     (case loadVerificationKey file cached of
        (Throws e, c) \<Rightarrow> (Throws e, c)
      | (Returns vk, c) \<Rightarrow> (verify vk signals pf, c))"

subsection \<open>The entry point (index.js)\<close>

record boot_env =
  bt_keypair_path :: "string option"
  bt_read :: "string \<Rightarrow> bytes js"
  bt_fromSecretKey :: "bytes \<Rightarrow> pubkey js"
  bt_newKey :: "bytes \<Rightarrow> pubkey js"
  bt_account :: "pubkey \<Rightarrow> account_info option js"
  bt_program :: pubkey
  bt_alertSol :: "string option"
  bt_criticalSol :: "string option"

datatype boot = Exited nat | Serving pubkey thresholds

definition start_relayer :: "boot_env \<Rightarrow> boot" where
  "start_relayer E =
     (case js_bind (loadRelayerKeypair (bt_keypair_path E) (bt_read E) (bt_fromSecretKey E)) (\<lambda>relayer.
           js_bind (assertNotUpgradeAuthority (bt_account E) (bt_newKey E) (bt_program E) relayer) (\<lambda>_. Returns relayer)) of
        Throws _ \<Rightarrow> Exited 1
      | Returns relayer \<Rightarrow>
          (case thresholdsFromEnv (bt_alertSol E) (bt_criticalSol E) of
             Throws _ \<Rightarrow> Exited 1
           | Returns th \<Rightarrow> Serving relayer th))"

subsection \<open>What a running relayer has established\<close>

text \<open>The ProgramData account of an upgradeable program and the authority it names.\<close>

definition names_authority :: "(pubkey \<Rightarrow> account_info option js) \<Rightarrow> (bytes \<Rightarrow> pubkey js) \<Rightarrow> pubkey \<Rightarrow> pubkey option \<Rightarrow> bool" where
  "names_authority account newKey programId authority \<longleftrightarrow>
     (\<exists>a pd d. account programId = Returns (Some a) \<and> acc_owner a = UPGRADEABLE_LOADER
        \<and> 36 \<le> length (acc_data a) \<and> le_int (take 4 (acc_data a)) = 2
        \<and> newKey (subarray (acc_data a) 4 36) = Returns pd
        \<and> account pd = Returns (Some d) \<and> 13 \<le> length (acc_data d) \<and> le_int (take 4 (acc_data d)) = 3
        \<and> (case authority of
             None \<Rightarrow> acc_data d ! 12 = 0
           | Some k \<Rightarrow> acc_data d ! 12 \<noteq> 0 \<and> newKey (subarray (acc_data d) 13 45) = Returns k))"

lemma program_data_authority_iff:
  "program_data_authority newKey pd = Returns authority
   \<longleftrightarrow> (\<exists>d. pd = Some d \<and> 13 \<le> length (acc_data d) \<and> le_int (take 4 (acc_data d)) = 3
        \<and> (case authority of
             None \<Rightarrow> acc_data d ! 12 = 0
           | Some k \<Rightarrow> acc_data d ! 12 \<noteq> 0 \<and> newKey (subarray (acc_data d) 13 45) = Returns k))"
  by (cases pd; cases authority)
     (auto simp: program_data_authority_def read_u32_le_def subarray_def js_bind_eq_Returns not_less split: if_splits)

lemma upgradeAuthority_iff:
  "upgradeAuthority account newKey programId = Returns authority \<longleftrightarrow> names_authority account newKey programId authority"
proof -
  have "upgradeAuthority account newKey programId = Returns authority \<longleftrightarrow>
    (\<exists>a pd d. account programId = Returns (Some a) \<and> acc_owner a = UPGRADEABLE_LOADER
        \<and> 36 \<le> length (acc_data a) \<and> read_u32_le (acc_data a) = 2
        \<and> newKey (subarray (acc_data a) 4 36) = Returns pd \<and> account pd = Returns d
        \<and> program_data_authority newKey d = Returns authority)"
  proof (cases "account programId")
    case (Returns program)
    then show ?thesis
      by (cases program) (auto simp: upgradeAuthority_def js_bind_eq_Returns not_less)
  qed (simp add: upgradeAuthority_def)
  then show ?thesis
    by (simp add: program_data_authority_iff names_authority_def read_u32_le_def subarray_def [of _ 0]) blast
qed

lemma assertNotUpgradeAuthority_iff:
  "assertNotUpgradeAuthority account newKey programId relayer = Returns u
     \<longleftrightarrow> (\<exists>authority. names_authority account newKey programId authority \<and> authority \<noteq> Some relayer)"
proof -
  have "assertNotUpgradeAuthority account newKey programId relayer = Returns u
     \<longleftrightarrow> (\<exists>authority. upgradeAuthority account newKey programId = Returns authority \<and> authority \<noteq> Some relayer)"
    unfolding assertNotUpgradeAuthority_def js_bind_eq_Returns
    by (rule ex_cong1) (simp split: option.split)
  then show ?thesis by (simp only: upgradeAuthority_iff)
qed

lemma read_threshold_nonneg:
  assumes "read_threshold raw fallback = Returns n" "0 \<le> fallback"
  shows "0 \<le> n"
proof -
  have "0 \<le> math_round (fl (x * 1000000000))" if "\<not> x \<le> 0" for x
  proof -
    have "0 \<le> fl (x * 1000000000)" using that by (intro fl_nonneg) simp
    then show ?thesis by (simp add: math_round_def)
  qed
  then show ?thesis using assms by (auto simp: read_threshold_def split: option.splits if_splits js_num.splits)
qed

text \<open>
  C37. What a serving relayer has established: its key came from the explicitly configured file, the
  chain named the program's upgrade authority (through well-formed Program and ProgramData accounts
  of the upgradeable loader) and it is another key or none, and the balance thresholds are ordered.
  Anything else, an unreadable account included, exits with 1 before anything is served.
\<close>

theorem serving_relayer_is_safe:
  "start_relayer E = Serving k th \<longleftrightarrow>
     (\<exists>p bs. bt_keypair_path E = Some p \<and> p \<noteq> [] \<and> bt_read E p = Returns bs \<and> bt_fromSecretKey E bs = Returns k)
   \<and> (\<exists>authority. names_authority (bt_account E) (bt_newKey E) (bt_program E) authority \<and> authority \<noteq> Some k)
   \<and> (\<exists>a c. read_threshold (bt_alertSol E) ALERT_THRESHOLD_LAMPORTS = Returns a
        \<and> read_threshold (bt_criticalSol E) CRITICAL_THRESHOLD_LAMPORTS = Returns c
        \<and> c \<le> a \<and> th = \<lparr>alertThreshold = a, criticalThreshold = c\<rparr>)"
proof -
  have k: "loadRelayerKeypair path read secret = Returns k \<longleftrightarrow>
      (\<exists>p bs. path = Some p \<and> p \<noteq> [] \<and> read p = Returns bs \<and> secret bs = Returns k)" for path read secret
    by (auto simp: loadRelayerKeypair_def split: option.splits js.splits)
  have t: "thresholdsFromEnv x y = Returns th \<longleftrightarrow>
      (\<exists>a c. read_threshold x ALERT_THRESHOLD_LAMPORTS = Returns a \<and> read_threshold y CRITICAL_THRESHOLD_LAMPORTS = Returns c
        \<and> c \<le> a \<and> th = \<lparr>alertThreshold = a, criticalThreshold = c\<rparr>)" for x y
    by (auto simp: thresholdsFromEnv_def js_bind_eq_Returns not_less split: if_splits)
  let ?ok = "js_bind (loadRelayerKeypair (bt_keypair_path E) (bt_read E) (bt_fromSecretKey E)) (\<lambda>relayer.
      js_bind (assertNotUpgradeAuthority (bt_account E) (bt_newKey E) (bt_program E) relayer) (\<lambda>_. Returns relayer))"
  have "start_relayer E = Serving k th \<longleftrightarrow> ?ok = Returns k \<and> thresholdsFromEnv (bt_alertSol E) (bt_criticalSol E) = Returns th"
    by (auto simp: start_relayer_def split: js.splits)
  moreover have "?ok = Returns k \<longleftrightarrow> loadRelayerKeypair (bt_keypair_path E) (bt_read E) (bt_fromSecretKey E) = Returns k
      \<and> assertNotUpgradeAuthority (bt_account E) (bt_newKey E) (bt_program E) k = Returns ()"
    by (auto simp: js_bind_eq_Returns)
  ultimately show ?thesis unfolding k t assertNotUpgradeAuthority_iff by blast
qed

subsection \<open>Thresholds are the lamports the operator wrote\<close>

lemma sol_round_trip:
  assumes "0 < n" "n < 2 ^ 49"
  shows "math_round (fl (fl (of_int n / 1000000000) * 1000000000)) = n"
proof -
  define x :: rat where "x = of_int n / 1000000000"
  define y where "y = fl x * 1000000000"
  have n: "0 < (of_int n :: rat)" "(of_int n :: rat) < 2 ^ 49"
    using assms by (simp_all only: of_int_0_less_iff) (metis assms(2) of_int_less_iff of_int_numeral of_int_power)
  have x: "0 < x" using n by (simp add: x_def)
  have "\<bar>fl x - x\<bar> \<le> x / 2 ^ 53" by (rule fl_rel_error [OF x])
  then have "\<bar>fl x - x\<bar> * 1000000000 \<le> x / 2 ^ 53 * 1000000000" by (rule mult_right_mono) simp
  moreover have "\<bar>fl x - x\<bar> * 1000000000 = \<bar>y - of_int n\<bar>"
    by (simp add: y_def x_def abs_mult [symmetric, of _ "1000000000 :: rat", simplified] left_diff_distrib)
  ultimately have d: "\<bar>y - of_int n\<bar> \<le> of_int n / 2 ^ 53" by (simp add: x_def)
  have s: "of_int n / 2 ^ 53 < (1 :: rat) / 16" using n by simp
  have "\<bar>y - of_int n\<bar> < 1 / 16" using d s by (rule order_le_less_trans)
  moreover have "1 \<le> (of_int n :: rat)" using assms(1) by simp
  moreover have "(of_int n :: rat) < 562949953421312" using n(2) by simp
  ultimately have "0 < y" "y < 1125899906842624" by linarith+
  then have y0: "0 < y" and y1: "y < 2 ^ 50" by simp_all
  have "\<bar>fl y - y\<bar> \<le> y / 2 ^ 53" by (rule fl_rel_error [OF y0])
  moreover have "y / 2 ^ 53 < 1 / 8" using y1 by simp
  ultimately have "\<bar>fl y - of_int n\<bar> < 1 / 4" using d s by linarith
  then have "of_int n \<le> fl y + 1 / 2" "fl y + 1 / 2 < of_int n + 1" by linarith+
  then have "\<lfloor>fl y + 1 / 2\<rfloor> = n" by (simp add: floor_eq_iff)
  then show ?thesis by (simp add: math_round_def y_def x_def)
qed

text \<open>
  A threshold written as a decimal number of SOL is read as exactly that many lamports: for a
  text with at most nine decimals and a value below 2 to the 49 lamports (about 560,000 SOL), the
  parse, the multiplication by 1e9 in doubles and the rounding lose nothing; and the check then
  alerts exactly below the written amounts, critical first.
\<close>

theorem written_threshold_exact:
  assumes "all_digits 10 ip" "all_digits 10 fp" "ip \<noteq> []" "length fp \<le> 9"
    and "lamports = int (digits_val 10 (ip @ fp)) * 10 ^ (9 - length fp)" "0 < lamports" "lamports < 2 ^ 49"
  shows "read_threshold (Some (ip @ ''.'' @ fp)) fallback = Returns lamports
    \<and> (health_tick \<lparr>alertThreshold = lamports, criticalThreshold = c\<rparr> (Returns b) = None \<longleftrightarrow> lamports \<le> b \<and> c \<le> b)
    \<and> (health_tick \<lparr>alertThreshold = a, criticalThreshold = lamports\<rparr> (Returns b) = Some AlertCritical \<longleftrightarrow> b < lamports)"
proof -
  let ?x = "of_nat (digits_val 10 (ip @ fp)) / 10 ^ length fp :: rat"
  have "(10 :: rat) ^ (9 - length fp) * 10 ^ length fp = 10 ^ 9"
    using assms(4) by (simp only: power_add [symmetric]) simp
  then have "(10 :: rat) ^ (9 - length fp) / 1000000000 = 1 / 10 ^ length fp"
    by (simp add: field_simps)
  then have p10: "(10 :: rat) ^ (9 - length fp) / 1000000000 = 1 / 10 ^ length fp" .
  have "(of_int lamports :: rat) / 1000000000 = of_nat (digits_val 10 (ip @ fp)) * (10 ^ (9 - length fp) / 1000000000)"
    unfolding assms(5) by simp
  then have x: "?x = of_int lamports / 1000000000" unfolding p10 by simp
  have l: "(of_int lamports :: rat) < 2 ^ 49" using assms(7) by (metis of_int_less_iff of_int_numeral of_int_power)
  have l0: "0 < (of_int lamports :: rat)" using assms(6) by simp
  have "0 < ?x" unfolding x using l0 by simp
  then have e: "\<bar>fl ?x - ?x\<bar> \<le> ?x / 2 ^ 53" by (rule fl_rel_error)
  have "?x < 2 ^ 49" unfolding x using l l0 by simp
  moreover have "?x / 2 ^ 53 < ?x" using \<open>0 < ?x\<close> by simp
  moreover have "(2 :: rat) ^ 49 * 2 = 2 ^ 50" by simp
  ultimately have p: "0 < fl ?x" "fl ?x < 2 ^ 50" using e \<open>0 < ?x\<close> by linarith+
  have "(2 :: rat) ^ 50 \<le> 2 ^ 1024" by (rule power_increasing) simp_all
  then have "\<not> 2 ^ 1024 \<le> fl ?x" "\<not> fl ?x \<le> - (2 ^ 1024)" using p by linarith+
  then have "js_Number (ip @ ''.'' @ fp) = Finite (fl ?x)"
    using js_Number_point [OF assms(1-3)] by (simp add: to_double_def)
  moreover have "math_round (fl (fl ?x * 1000000000)) = lamports"
    unfolding x by (rule sol_round_trip [OF assms(6,7)])
  ultimately have "read_threshold (Some (ip @ ''.'' @ fp)) fallback = Returns lamports"
    using p(1) by (simp add: read_threshold_def not_le)
  then show ?thesis by (auto simp: health_tick_def)
qed

lemma written_threshold_exact_witness: "read_threshold (Some ''0.15'') 7 = Returns 150000000"
proof -
  have "all_digits 10 ''0''" "all_digits 10 ''15''" "int (digits_val 10 (''0'' @ ''15'')) * 10 ^ (9 - length ''15'') = 150000000"
    by code_simp+
  then show ?thesis using written_threshold_exact [of "''0''" "''15''" 150000000 7] by simp
qed

subsection \<open>The cached verifying key\<close>

text \<open>
  The verifying key, once loaded and accepted, is the one every later verification uses, whatever
  the file becomes. But the cache is filled before the check on the number of public inputs: a file
  with the wrong number is refused once, and every later call uses that key without complaint.
\<close>

theorem verifying_key_cached:
  assumes "vk_truthy k" "\<not> vk_null k"
  shows "snd (loadVerificationKey (Returns k) None) = Some k
    \<and> (fst (loadVerificationKey (Returns k) None) = Returns k \<longleftrightarrow> vk_nPublic k = JInt 3)
    \<and> loadVerificationKey file (snd (loadVerificationKey (Returns k) None)) = (Returns k, Some k)
    \<and> verifyProofOffChain verify file (snd (verifyProofOffChain verify (Returns k) None pf ps)) pf' ps'
        = (verify k ps' pf', Some k)"
  using assms by (auto simp: loadVerificationKey_def verifyProofOffChain_def)

lemma verifying_key_cached_witness:
  "fst (loadVerificationKey (Throws ''ENOENT'') (snd (loadVerificationKey
     (Returns \<lparr>vk_null = False, vk_truthy = True, vk_nPublic = JInt 2, vk_body = ''old''\<rparr>) None)))
   = Returns \<lparr>vk_null = False, vk_truthy = True, vk_nPublic = JInt 2, vk_body = ''old''\<rparr>"
proof -
  let ?k = "\<lparr>vk_null = False, vk_truthy = True, vk_nPublic = JInt 2, vk_body = ''old''\<rparr>"
  have "vk_truthy ?k" "\<not> vk_null ?k" by simp_all
  from verifying_key_cached [OF this, THEN conjunct2, THEN conjunct2, THEN conjunct1] show ?thesis by simp
qed

end
