(* ===== verification/SdkFees.thy ===== *)
theory SdkFees
  imports SubmitProof JsNumberText
begin

text \<open>
  The client's side of a fee quote, sdk/src/fees.ts: the fee formulas, the checks made on a quote
  before a proof is bound to it, and reading the relayer's reply. The reply's fields are JSON, the
  HTTP call and the public key constructor are parameters.
\<close>

subsection \<open>The formulas\<close>

definition client_treasury_fee :: "int \<Rightarrow> int js" where
  "client_treasury_fee denomination =
     (if denomination < 500 then Throws ''Denomination must be >= 500 (BF-14)'' else Returns (denomination sdiv 500))"

definition client_min_receives :: "int \<Rightarrow> int \<Rightarrow> int js" where
  "client_min_receives denomination relayerFeeMax =
     js_bind (client_treasury_fee denomination) (\<lambda>treasuryFee. Returns (denomination - treasuryFee - relayerFeeMax))"

definition MAX_RELAYER_FEE_DIVISOR :: int where "MAX_RELAYER_FEE_DIVISOR = 50"

subsection \<open>Checking a quote\<close>

record client_quote =
  cq_relayerAddress :: pubkey
  cq_relayerFeeMax :: int
  cq_validUntil :: js_num
  cq_estimatedUserReceives :: "int option"

record fee_breakdown =
  fb_denomination :: int
  fb_treasuryFee :: int
  fb_relayerFeeMax :: int
  fb_userReceivesMin :: int
  fb_relayerFeePct :: rat

definition validateFeeQuote :: "int \<Rightarrow> client_quote \<Rightarrow> int option \<Rightarrow> js_num \<Rightarrow> fee_breakdown js" where
  "validateFeeQuote denomination q maxRelayerFee now =
     (if js_le (cq_validUntil q) now then Throws ''Fee quote has expired''
      else if cq_relayerFeeMax q < 0 then Throws ''Relayer fee quote is negative''
      else js_bind (client_treasury_fee denomination) (\<lambda>treasuryFee.
        let cap = (case maxRelayerFee of Some m \<Rightarrow> m | None \<Rightarrow> denomination sdiv MAX_RELAYER_FEE_DIVISOR) in
        if cap < cq_relayerFeeMax q then Throws ''Relayer fee exceeds the maximum''
        else let userReceivesMin = denomination - treasuryFee - cq_relayerFeeMax q in
          if userReceivesMin \<le> 0 then Throws ''Fees would consume the entire withdrawal''
          else if cq_estimatedUserReceives q \<noteq> None \<and> cq_estimatedUserReceives q \<noteq> Some userReceivesMin
            then Throws ''Relayer quote is inconsistent''
          else Returns \<lparr>fb_denomination = denomination, fb_treasuryFee = treasuryFee,
                 fb_relayerFeeMax = cq_relayerFeeMax q, fb_userReceivesMin = userReceivesMin,
                 fb_relayerFeePct = fl (fl (fl (of_int (cq_relayerFeeMax q)) / fl (of_int denomination)) * 100)\<rparr>))"

subsection \<open>Fetching a quote\<close>

text \<open>The field validUntil of the reply, as \<open>Number(...)\<close> sees it.\<close>

datatype number_field = FieldMissing | FieldNumber rat | FieldText string

definition field_number :: "number_field \<Rightarrow> js_num" where
  "field_number f = (case f of FieldMissing \<Rightarrow> NaN | FieldNumber x \<Rightarrow> to_double x | FieldText s \<Rightarrow> js_Number s)"

record quote_body =
  qb_relayerAddress :: json
  qb_relayerFeeMax :: json
  qb_validUntil :: number_field
  qb_estimatedUserReceives :: json

datatype http_reply = HttpRefused nat string | HttpOk quote_body

definition parse_quote :: "(json \<Rightarrow> pubkey js) \<Rightarrow> quote_body \<Rightarrow> client_quote js" where
  "parse_quote newKey d =
     js_bind (newKey (qb_relayerAddress d)) (\<lambda>relayer.
     js_bind (json_bigint (qb_relayerFeeMax d)) (\<lambda>feeMax.
     js_bind (json_bigint (qb_estimatedUserReceives d)) (\<lambda>receives.
     Returns \<lparr>cq_relayerAddress = relayer, cq_relayerFeeMax = feeMax,
       cq_validUntil = field_number (qb_validUntil d), cq_estimatedUserReceives = Some receives\<rparr>)))"

text \<open>\<open>url.replace(/[slash]+$/, "")\<close> drops the trailing slashes of the relayer's address.\<close>

definition quote_url :: "string \<Rightarrow> string \<Rightarrow> string" where
  "quote_url relayerUrl pool =
     rev (dropWhile (\<lambda>c. c = CHR ''/'') (rev relayerUrl)) @ ''/fee_quote?pool='' @ pool"

definition getFeeQuote :: "(string \<Rightarrow> http_reply js) \<Rightarrow> (json \<Rightarrow> pubkey js) \<Rightarrow> js_num \<Rightarrow> string \<Rightarrow> string \<Rightarrow> client_quote js" where
  "getFeeQuote fetch newKey now relayerUrl pool =
     js_bind (fetch (quote_url relayerUrl pool)) (\<lambda>res. case res of
       HttpRefused status err \<Rightarrow> Throws (''Relayer fee_quote failed: '' @ err)
     | HttpOk d \<Rightarrow>
         js_bind (parse_quote newKey d) (\<lambda>q.
         if js_le (cq_validUntil q) now then Throws ''Fee quote already expired'' else Returns q))"

subsection \<open>What an accepted quote guarantees\<close>

lemma client_treasury_fee_eq: "client_treasury_fee d = Returns t \<longleftrightarrow> 500 \<le> d \<and> t = d div 500"
  by (auto simp: client_treasury_fee_def sdiv_nonneg)

text \<open>
  Exactly which quotes the client accepts under the default cap, and what it shows: the quote is
  not past its expiry, the ceiling is between zero and 2% of the denomination, the relayer's own
  estimate agrees, and the breakdown adds up to the denomination with a positive amount for the
  user.
\<close>

theorem validateFeeQuote_characterised:
  "((\<exists>b. validateFeeQuote d q None now = Returns b) \<longleftrightarrow>
     \<not> js_le (cq_validUntil q) now \<and> 0 \<le> cq_relayerFeeMax q \<and> 500 \<le> d \<and> cq_relayerFeeMax q \<le> d div 50
     \<and> cq_estimatedUserReceives q \<in> {None, Some (d - d div 500 - cq_relayerFeeMax q)})
   \<and> (\<forall>b. validateFeeQuote d q None now = Returns b \<longrightarrow>
        fb_treasuryFee b = d div 500 \<and> fb_relayerFeeMax b = cq_relayerFeeMax q \<and> 0 < fb_userReceivesMin b
        \<and> fb_treasuryFee b + fb_relayerFeeMax b + fb_userReceivesMin b = d)"
proof (cases "500 \<le> d")
  case False
  then show ?thesis by (auto simp: validateFeeQuote_def client_treasury_fee_def)
next
  case True
  then have t: "client_treasury_fee d = Returns (d div 500)" and c: "d sdiv MAX_RELAYER_FEE_DIVISOR = d div 50"
    by (simp_all add: client_treasury_fee_def MAX_RELAYER_FEE_DIVISOR_def sdiv_nonneg)
  have "d div 500 * 500 \<le> d" "d div 50 * 50 \<le> d" by (metis div_mult_mod_eq le_add_same_cancel1 pos_mod_sign zero_less_numeral)+
  then have pos: "m \<le> d div 50 \<Longrightarrow> \<not> d - d div 500 - m \<le> 0" for m using True by linarith
  have v: "validateFeeQuote d q None now =
     (if js_le (cq_validUntil q) now then Throws ''Fee quote has expired''
      else if cq_relayerFeeMax q < 0 then Throws ''Relayer fee quote is negative''
      else if d div 50 < cq_relayerFeeMax q then Throws ''Relayer fee exceeds the maximum''
      else if cq_estimatedUserReceives q \<notin> {None, Some (d - d div 500 - cq_relayerFeeMax q)}
      then Throws ''Relayer quote is inconsistent''
      else Returns \<lparr>fb_denomination = d, fb_treasuryFee = d div 500,
                 fb_relayerFeeMax = cq_relayerFeeMax q, fb_userReceivesMin = d - d div 500 - cq_relayerFeeMax q,
                 fb_relayerFeePct = fl (fl (fl (of_int (cq_relayerFeeMax q)) / fl (of_int d)) * 100)\<rparr>)"
    using pos [of "cq_relayerFeeMax q"] by (simp add: validateFeeQuote_def Let_def t c)
  have "0 < d - d div 500 - m" if "m \<le> d div 50" for m using pos [OF that] by simp
  then show ?thesis
    unfolding v using True by (simp add: not_less)
qed

text \<open>The reply the relayer sends for a quote: \<open>res.json\<close> of api.js.\<close>

definition reply_of :: "quote \<Rightarrow> (pubkey \<Rightarrow> json) \<Rightarrow> quote_body" where
  "reply_of q show_key = \<lparr>qb_relayerAddress = show_key (q_relayer q), qb_relayerFeeMax = JStr (big_to_string 10 (q_feeMax q)),
     qb_validUntil = FieldNumber (of_int (q_validUntil q)), qb_estimatedUserReceives = JStr (big_to_string 10 (q_receives q))\<rparr>"

text \<open>
  The two ends agree: a quote this relayer prints, sent as its JSON reply, is read back by the
  client and passes its checks until it expires, with the amounts the relayer printed.
\<close>

theorem relayer_quote_accepted:
  assumes "price_quote E sent_at (relayer_cost p rn) pool = QuoteOk q"
    and "0 \<le> p" "p \<le> 45035996273" "0 \<le> rn" "rn \<le> SAFE_LAMPORTS" "500 \<le> pv_denomination pool"
    and key: "newKey (show_key (q_relayer q)) = Returns k"
    and clock: "\<bar>q_validUntil q\<bar> \<le> 9007199254740992" "now < q_validUntil q"
  shows "\<exists>cq b. parse_quote newKey (reply_of q show_key) = Returns cq \<and> cq_relayerAddress cq = k
    \<and> validateFeeQuote (pv_denomination pool) cq None (Finite (of_int now)) = Returns b
    \<and> fb_relayerFeeMax b = q_feeMax q \<and> fb_treasuryFee b = q_treasury q \<and> fb_userReceivesMin b = q_receives q"
proof -
  let ?d = "pv_denomination pool"
  let ?cq = "\<lparr>cq_relayerAddress = k, cq_relayerFeeMax = q_feeMax q, cq_validUntil = Finite (of_int (q_validUntil q)),
     cq_estimatedUserReceives = Some (q_receives q)\<rparr>"
  have f: "relayer_cost p rn \<le> q_feeMax q" "q_feeMax q \<le> ?d div 50"
      "q_treasury q + q_receives q + q_feeMax q = q_denomination q" "q_denomination q = ?d" "q_treasury q = ?d div 500"
    using price_quote_ok(2,3,5,6,7) [OF assms(1-5)] assms(6) by simp_all
  have "relayer_cost p rn = BASE_FEE + rn + (p + 4) div 5" using assms(2-5) by (simp add: relayer_cost_eq)
  moreover have "0 \<le> (p + 4) div 5" using assms(2) by presburger
  ultimately have "0 \<le> q_feeMax q" using f(1) assms(4) by (simp add: fee_consts)
  moreover have r: "q_receives q = ?d - ?d div 500 - q_feeMax q" using f by linarith
  moreover have "\<not> js_le (cq_validUntil ?cq) (Finite (of_int now))" using clock by (simp add: js_le_def)
  ultimately have "\<exists>b. validateFeeQuote ?d ?cq None (Finite (of_int now)) = Returns b"
    using f(2) assms(6) by (subst validateFeeQuote_characterised [THEN conjunct1]) simp
  then obtain b where b: "validateFeeQuote ?d ?cq None (Finite (of_int now)) = Returns b" by blast
  have "fb_treasuryFee b = ?d div 500" "fb_relayerFeeMax b = q_feeMax q" "fb_treasuryFee b + fb_relayerFeeMax b + fb_userReceivesMin b = ?d"
    using validateFeeQuote_characterised [THEN conjunct2, rule_format, OF b] by simp_all
  moreover have "to_double (of_int (q_validUntil q)) = Finite (of_int (q_validUntil q))"
    using clock(1) by (rule to_double_safe)
  then have "parse_quote newKey (reply_of q show_key) = Returns ?cq"
    by (simp add: parse_quote_def reply_of_def key field_number_def)
  ultimately show ?thesis using b f by (intro exI [of _ ?cq] exI [of _ b]) simp
qed

lemma relayer_quote_accepted_witness:
  "\<exists>q cq b. price_quote example_env 1000 (relayer_cost 1000 1056640) (view_of example_pool_data) = QuoteOk q
     \<and> parse_quote (\<lambda>j. Returns [7]) (reply_of q (\<lambda>k. JStr ''r'')) = Returns cq
     \<and> validateFeeQuote 1000000000 cq None (Finite 2000) = Returns b \<and> fb_relayerFeeMax b = 1592760"
proof -
  have c: "relayer_cost 1000 1056640 = 1061840" by (simp add: relayer_cost_eq fee_consts)
  have d: "pv_denomination (view_of example_pool_data) = 1000000000"
    by (simp add: view_of_def example_pool_data_props)
  obtain q where q: "price_quote example_env 1000 (relayer_cost 1000 1056640) (view_of example_pool_data) = QuoteOk q"
      "q_feeMax q = 1592760" "q_validUntil q = 31000"
    unfolding c by (simp add: price_quote_def Let_def d feeMaxFromCost_eq sdiv_nonneg rnd_exact)
  show ?thesis
    using relayer_quote_accepted [OF q(1), of "\<lambda>j. Returns [7]" "\<lambda>k. JStr ''r''" "[7]" 2000] q(2,3) d q(1)
    by (auto simp: fee_consts)
qed

text \<open>
  A quote without an expiry never expires: if the reply has no validUntil field, or one that is
  not a number, the value is NaN, the comparison with the clock is false, and both the fetch and the
  check accept the quote at any time.
\<close>

theorem missing_expiry_never_expires:
  assumes "qb_validUntil d = FieldMissing \<or> (\<exists>s. qb_validUntil d = FieldText s \<and> js_Number s = NaN)"
    and "parse_quote newKey d = Returns q" "fetch (quote_url relayerUrl pool) = Returns (HttpOk d)"
  shows "getFeeQuote fetch newKey now relayerUrl pool = Returns q
    \<and> validateFeeQuote denom q cap now = validateFeeQuote denom q cap NegInf"
proof -
  have "cq_validUntil q = NaN"
    using assms(1,2) by (auto simp: parse_quote_def js_bind_eq_Returns field_number_def)
  then have "\<not> js_le (cq_validUntil q) t" for t by (simp add: js_le_def)
  then show ?thesis using assms(2,3) by (simp add: getFeeQuote_def validateFeeQuote_def)
qed

lemma missing_expiry_never_expires_witness:
  "\<exists>q. getFeeQuote (\<lambda>u. Returns (HttpOk \<lparr>qb_relayerAddress = JStr ''r'', qb_relayerFeeMax = JStr ''9'',
       qb_validUntil = FieldMissing, qb_estimatedUserReceives = JStr ''1''\<rparr>)) (\<lambda>j. Returns [7]) (Finite 5) ''u'' ''p'' = Returns q"
proof -
  let ?d = "\<lparr>qb_relayerAddress = JStr ''r'', qb_relayerFeeMax = JStr ''9'', qb_validUntil = FieldMissing,
     qb_estimatedUserReceives = JStr ''1''\<rparr>"
  have "parse_quote (\<lambda>j. Returns [7]) ?d = Returns \<lparr>cq_relayerAddress = [7], cq_relayerFeeMax = 9, cq_validUntil = NaN,
     cq_estimatedUserReceives = Some 1\<rparr>" by code_simp
  from missing_expiry_never_expires [of ?d "\<lambda>j. Returns [7]" _ "\<lambda>u. Returns (HttpOk ?d)" "''u''" "''p''", OF _ this] show ?thesis
    by auto
qed

end
