(* ===== verification/MerkleSpec.thy ===== *)
theory MerkleSpec
  imports SC_Prelude
begin

text \<open>
  What every commitment tree of the repository must compute: the root of the complete binary tree
  of a fixed depth over the inserted leaves, empty positions holding zero, with the two-to-one hash
  as a parameter. The interface \<open>commitment_tree\<close> is what the prover, the fixtures and the
  program rely on; the implementations are interpreted in \<open>MerkleTree\<close>.
\<close>

type_synonym hash2 = "int \<Rightarrow> int \<Rightarrow> int"

primrec zero_node :: "hash2 \<Rightarrow> nat \<Rightarrow> int" where
  "zero_node h 0 = 0"
| "zero_node h (Suc l) = h (zero_node h l) (zero_node h l)"

primrec spec_node :: "hash2 \<Rightarrow> int list \<Rightarrow> nat \<Rightarrow> nat \<Rightarrow> int" where
  "spec_node h ls 0 i = (if i < length ls then ls ! i else 0)"
| "spec_node h ls (Suc l) i = h (spec_node h ls l (2 * i)) (spec_node h ls l (2 * i + 1))"

definition spec_root :: "hash2 \<Rightarrow> nat \<Rightarrow> int list \<Rightarrow> int" where
  "spec_root h d ls = spec_node h ls d 0"

text \<open>The number of nodes of a level that have a leaf below them.\<close>

definition occupied :: "nat \<Rightarrow> nat \<Rightarrow> nat" where
  "occupied l n = (n + 2 ^ l - 1) div 2 ^ l"

lemma div_pow_Suc: "n div 2 ^ Suc l = n div 2 ^ l div 2" for n :: nat
  by (simp add: power_Suc2 div_mult2_eq del: power_Suc)

lemma spec_node_empty: "length ls \<le> i * 2 ^ l \<Longrightarrow> spec_node h ls l i = zero_node h l"
  by (induction l arbitrary: i) (simp_all add: algebra_simps)

lemma occupied_le: "occupied l n \<le> i \<Longrightarrow> n \<le> i * 2 ^ l"
proof -
  assume "occupied l n \<le> i"
  then have "(n + 2 ^ l - 1) div 2 ^ l < i + 1" by (simp add: occupied_def)
  then have "n + 2 ^ l - 1 < (i + 1) * 2 ^ l" by (simp add: div_less_iff_less_mult)
  then show ?thesis by simp
qed

lemma occupied_Suc: "occupied l (Suc n) = n div 2 ^ l + 1"
  by (simp add: occupied_def)

lemma occupied_cases: "occupied l n = n div 2 ^ l \<or> occupied l n = n div 2 ^ l + 1"
proof -
  have "(n + 2 ^ l - 1) div 2 ^ l \<le> (n + 2 ^ l) div 2 ^ l" "n div 2 ^ l \<le> (n + 2 ^ l - 1) div 2 ^ l"
    using one_le_power [of "2 :: nat" l] by (intro div_le_mono; linarith)+
  then show ?thesis by (auto simp: occupied_def)
qed

lemma spec_node_snoc_other:
  "i \<noteq> length ls div 2 ^ l \<Longrightarrow> spec_node h (ls @ [x]) l i = spec_node h ls l i"
proof (induction l arbitrary: i)
  case 0
  then show ?case by (auto simp: nth_append)
next
  case (Suc l)
  have "2 * i \<noteq> length ls div 2 ^ l" "2 * i + 1 \<noteq> length ls div 2 ^ l"
    using Suc.prems unfolding div_pow_Suc by auto
  then show ?case using Suc.IH by simp
qed

lemma spec_node_zero_right:
  "length ls div 2 ^ l < i \<Longrightarrow> spec_node h (ls @ [x]) l i = zero_node h l"
proof -
  assume "length ls div 2 ^ l < i"
  then have "length ls < i * 2 ^ l" by (simp add: div_less_iff_less_mult)
  then show ?thesis by (intro spec_node_empty) simp
qed

subsection \<open>Membership paths\<close>

text \<open>What the withdraw circuit recomputes from a leaf and its path, lowest level first.\<close>

definition path_step :: "hash2 \<Rightarrow> int \<Rightarrow> int \<times> nat \<Rightarrow> int" where
  "path_step h cur p = (if snd p = 1 then h (fst p) cur else h cur (fst p))"

definition path_root :: "hash2 \<Rightarrow> int \<Rightarrow> (int \<times> nat) list \<Rightarrow> int" where
  "path_root h leaf ps = foldl (path_step h) leaf ps"

definition sibling :: "nat \<Rightarrow> nat" where
  "sibling i = (if odd i then i - 1 else i + 1)"

definition spec_path :: "hash2 \<Rightarrow> int list \<Rightarrow> nat \<Rightarrow> nat \<Rightarrow> (int \<times> nat) list" where
  "spec_path h ls d i = map (\<lambda>l. (spec_node h ls l (sibling (i div 2 ^ l)), (i div 2 ^ l) mod 2)) [0..<d]"

lemma path_step_spec:
  "path_step h (spec_node h ls l j) (spec_node h ls l (sibling j), j mod 2) = spec_node h ls (Suc l) (j div 2)"
proof (cases "odd j")
  case True
  then have "j = 2 * (j div 2) + 1" by (metis odd_two_times_div_two_succ)
  then show ?thesis using True by (simp add: path_step_def sibling_def odd_iff_mod_2_eq_one)
next
  case False
  then have "j = 2 * (j div 2)" by simp
  then show ?thesis using False by (simp add: path_step_def sibling_def even_iff_mod_2_eq_zero)
qed

lemma spec_path_root: "path_root h (spec_node h ls 0 i) (spec_path h ls d i) = spec_node h ls d (i div 2 ^ d)"
proof (induction d)
  case 0
  then show ?case by (simp add: path_root_def spec_path_def)
next
  case (Suc d)
  have "path_root h (spec_node h ls 0 i) (spec_path h ls (Suc d) i)
      = path_step h (path_root h (spec_node h ls 0 i) (spec_path h ls d i))
          (spec_node h ls d (sibling (i div 2 ^ d)), (i div 2 ^ d) mod 2)"
    by (simp add: path_root_def spec_path_def)
  also have "\<dots> = spec_node h ls (Suc d) (i div 2 ^ d div 2)"
    unfolding Suc.IH by (rule path_step_spec)
  finally show ?case unfolding div_pow_Suc .
qed

lemma spec_path_member:
  "i < length ls \<Longrightarrow> i < 2 ^ d \<Longrightarrow> path_root h (ls ! i) (spec_path h ls d i) = spec_root h d ls"
  using spec_path_root [of h ls i d] by (simp add: spec_root_def)

subsection \<open>The tree interface\<close>

locale commitment_tree =
  fixes h :: hash2 and d :: nat
    and empty_tree :: 't and insert_leaf :: "'t \<Rightarrow> int \<Rightarrow> 't" and tree_root :: "'t \<Rightarrow> int"
    and represents :: "'t \<Rightarrow> int list \<Rightarrow> bool"
  assumes represents_empty: "represents empty_tree []"
    and represents_insert: "represents t ls \<Longrightarrow> length ls < 2 ^ d \<Longrightarrow> represents (insert_leaf t x) (ls @ [x])"
    and represents_root: "represents t ls \<Longrightarrow> length ls \<le> 2 ^ d \<Longrightarrow> tree_root t = spec_root h d ls"
begin

lemma represents_fold:
  "represents t ls \<Longrightarrow> length ls + length xs \<le> 2 ^ d \<Longrightarrow> represents (foldl insert_leaf t xs) (ls @ xs)"
proof (induction xs arbitrary: t ls)
  case (Cons x xs)
  then have "represents (insert_leaf t x) (ls @ [x])" by (intro represents_insert) auto
  then show ?case using Cons.IH [of "insert_leaf t x" "ls @ [x]"] Cons.prems by simp
qed simp

lemma built_root: "length xs \<le> 2 ^ d \<Longrightarrow> tree_root (foldl insert_leaf empty_tree xs) = spec_root h d xs"
  using represents_fold [OF represents_empty, of xs] by (intro represents_root) simp_all

end

text \<open>A tree that also hands out membership paths.\<close>

locale proving_tree = commitment_tree +
  fixes tree_path :: "'a \<Rightarrow> nat \<Rightarrow> (int \<times> nat) list"
  assumes represents_path: "represents t ls \<Longrightarrow> i < length ls \<Longrightarrow> tree_path t i = spec_path h ls d i"
begin

lemma built_path_proves:
  "length xs \<le> 2 ^ d \<Longrightarrow> i < length xs \<Longrightarrow>
    path_root h (xs ! i) (tree_path (foldl insert_leaf empty_tree xs) i) = tree_root (foldl insert_leaf empty_tree xs)"
proof -
  assume l: "length xs \<le> 2 ^ d" and i: "i < length xs"
  have r: "represents (foldl insert_leaf empty_tree xs) xs"
    using represents_fold [OF represents_empty, of xs] l by simp
  have "path_root h (xs ! i) (spec_path h xs d i) = spec_root h d xs"
    using l i by (intro spec_path_member) auto
  then show ?thesis using represents_path [OF r i] built_root [OF l] by simp
qed

end

end
