(* ===== verification/MerkleTree.thy ===== *)
theory MerkleTree
  imports MerkleSpec
begin

text \<open>
  The commitment trees the JavaScript code builds: the layered \<open>MerkleTree\<close> of
  sdk/src/proof.js, its copies in scripts/devnet_verify.js and scripts/gen_fuzz_fixtures.js, and the
  incremental tree of scripts/devnet_e2e.js. The Poseidon hash of two inputs is a parameter. Array
  stores are written out: an index at the end appends.
\<close>

subsection \<open>The layered tree of the SDK\<close>

record merkle_tree =
  mt_depth :: nat
  mt_zeros :: "int list"
  mt_layers :: "int list list"

definition buildZeros :: "hash2 \<Rightarrow> nat \<Rightarrow> int list" where
  "buildZeros h depth = fold (\<lambda>i zs. zs @ [h (zs ! (i - 1)) (zs ! (i - 1))]) [1..<depth + 1] [0]"

definition new_tree :: "hash2 \<Rightarrow> nat \<Rightarrow> merkle_tree" where
  "new_tree h depth = \<lparr>mt_depth = depth, mt_zeros = buildZeros h depth, mt_layers = replicate (depth + 1) []\<rparr>"

definition nextIndex :: "merkle_tree \<Rightarrow> nat" where
  "nextIndex t = length (mt_layers t ! 0)"

definition nodeAt :: "merkle_tree \<Rightarrow> nat \<Rightarrow> nat \<Rightarrow> int" where
  "nodeAt t level index =
     (if index < length (mt_layers t ! level) then mt_layers t ! level ! index else mt_zeros t ! level)"

definition root_of :: "merkle_tree \<Rightarrow> int" where
  "root_of t = (if length (mt_layers t ! 0) = 0 then mt_zeros t ! mt_depth t else nodeAt t (mt_depth t) 0)"

definition store_or_push :: "'a list \<Rightarrow> nat \<Rightarrow> 'a \<Rightarrow> 'a list" where
  "store_or_push xs i v = (if i < length xs then xs[i := v] else xs @ [v])"

definition insert_level :: "hash2 \<Rightarrow> nat \<Rightarrow> merkle_tree \<times> nat \<Rightarrow> merkle_tree \<times> nat" where
  "insert_level h level tc =
     (let (t, currentIndex) = tc;
          parentIndex = drop_bit 1 currentIndex;
          leftChild = nodeAt t (level - 1) (parentIndex * 2);
          rightChild = nodeAt t (level - 1) (parentIndex * 2 + 1);
          parent = h leftChild rightChild
      in (t\<lparr>mt_layers := (mt_layers t)[level := store_or_push (mt_layers t ! level) parentIndex parent]\<rparr>, parentIndex))"

definition mt_insert :: "hash2 \<Rightarrow> merkle_tree \<Rightarrow> int \<Rightarrow> merkle_tree \<times> nat" where
  "mt_insert h t leaf =
     (let index = length (mt_layers t ! 0);
          t0 = t\<lparr>mt_layers := (mt_layers t)[0 := mt_layers t ! 0 @ [leaf]]\<rparr>
      in (fst (fold (insert_level h) [1..<mt_depth t + 1] (t0, index)), index))"

record merkle_proof =
  mp_pathElements :: "int list"
  mp_pathIndices :: "nat list"
  mp_root :: int
  mp_leafIndex :: nat

definition proof_level :: "merkle_tree \<Rightarrow> nat \<Rightarrow> (int list \<times> nat list \<times> nat) \<Rightarrow> (int list \<times> nat list \<times> nat)" where
  "proof_level t level st =
     (let (els, idxs, cur) = st;
          isRight = (cur mod 2 = 1);
          siblingIndex = (if isRight then cur - 1 else cur + 1)
      in (els @ [nodeAt t level siblingIndex], idxs @ [if isRight then 1 else 0], drop_bit 1 cur))"

text \<open>\<open>getProof\<close>; None is the RangeError-like throw. A negative index cannot be written here.\<close>

definition getProof :: "merkle_tree \<Rightarrow> nat \<Rightarrow> merkle_proof option" where
  "getProof t leafIndex =
     (if length (mt_layers t ! 0) \<le> leafIndex then None
      else let (els, idxs, _) = fold (proof_level t) [0..<mt_depth t] ([], [], leafIndex)
           in Some \<lparr>mp_pathElements = els, mp_pathIndices = idxs, mp_root = root_of t, mp_leafIndex = leafIndex\<rparr>)"

text \<open>\<open>indexOf\<close>: None stands for -1.\<close>

fun index_of :: "int list \<Rightarrow> int \<Rightarrow> nat option" where
  "index_of [] x = None"
| "index_of (y # ys) x = (if y = x then Some 0 else map_option Suc (index_of ys x))"

definition findLeaf :: "merkle_tree \<Rightarrow> int \<Rightarrow> nat option" where
  "findLeaf t leaf = index_of (mt_layers t ! 0) leaf"

definition findAllLeaves :: "merkle_tree \<Rightarrow> int \<Rightarrow> nat list" where
  "findAllLeaves t leaf =
     fold (\<lambda>i out. if mt_layers t ! 0 ! i = leaf then out @ [i] else out) [0..<length (mt_layers t ! 0)] []"

definition hasLeaf :: "merkle_tree \<Rightarrow> int \<Rightarrow> bool" where
  "hasLeaf t leaf = (findLeaf t leaf \<noteq> None)"

subsection \<open>Its invariant\<close>

definition layers_of :: "hash2 \<Rightarrow> int list \<Rightarrow> nat \<Rightarrow> int list" where
  "layers_of h ls l = map (spec_node h ls l) [0..<occupied l (length ls)]"

definition tree_inv :: "hash2 \<Rightarrow> nat \<Rightarrow> merkle_tree \<Rightarrow> int list \<Rightarrow> bool" where
  "tree_inv h d t ls \<longleftrightarrow> mt_depth t = d \<and> mt_zeros t = map (zero_node h) [0..<d + 1]
     \<and> mt_layers t = map (layers_of h ls) [0..<d + 1]"

lemma buildZeros_eq: "buildZeros h d = map (zero_node h) [0..<d + 1]"
  unfolding buildZeros_def
  by (induction d) (simp_all add: nth_append)

lemma occupied_0 [simp]: "occupied l 0 = 0" "occupied 0 n = n"
  by (simp_all add: occupied_def)

lemma layers_of_leaves: "layers_of h ls 0 = ls"
  by (rule nth_equalityI) (simp_all add: layers_of_def)

lemma tree_inv_new: "tree_inv h d (new_tree h d) []"
proof -
  have "replicate (d + 1) [] = map (layers_of h []) [0..<d + 1]"
    by (rule nth_equalityI) (simp_all add: layers_of_def del: upt_Suc replicate_Suc)
  then show ?thesis
    by (simp add: tree_inv_def new_tree_def buildZeros_eq del: upt_Suc replicate_Suc)
qed

lemma nodeAt_layer:
  assumes "mt_zeros t = map (zero_node h) [0..<d + 1]" "l \<le> d" "mt_layers t ! l = layers_of h ls l"
  shows "nodeAt t l i = spec_node h ls l i"
proof (cases "i < occupied l (length ls)")
  case True
  then show ?thesis using assms by (simp add: nodeAt_def layers_of_def)
next
  case False
  then have "spec_node h ls l i = zero_node h l"
    by (intro spec_node_empty occupied_le) simp
  then show ?thesis using assms False by (simp add: nodeAt_def layers_of_def del: upt_Suc)
qed

lemma store_or_push_layer:
  "store_or_push (layers_of h ls l) (length ls div 2 ^ l) (spec_node h (ls @ [x]) l (length ls div 2 ^ l))
     = layers_of h (ls @ [x]) l"
proof -
  let ?p = "length ls div 2 ^ l"
  have o: "occupied l (length ls) = ?p \<or> occupied l (length ls) = ?p + 1" by (rule occupied_cases)
  have len: "length (layers_of h (ls @ [x]) l) = ?p + 1" by (simp add: layers_of_def occupied_Suc)
  have n: "spec_node h (ls @ [x]) l i = spec_node h ls l i" if "i < ?p" for i
    using that by (intro spec_node_snoc_other) simp
  show ?thesis
  proof (rule nth_equalityI)
    show "length (store_or_push (layers_of h ls l) ?p (spec_node h (ls @ [x]) l ?p)) = length (layers_of h (ls @ [x]) l)"
      using o len by (auto simp: store_or_push_def layers_of_def)
    fix i assume "i < length (store_or_push (layers_of h ls l) ?p (spec_node h (ls @ [x]) l ?p))"
    then have "i < ?p + 1" using o by (auto simp: store_or_push_def layers_of_def split: if_splits)
    then show "store_or_push (layers_of h ls l) ?p (spec_node h (ls @ [x]) l ?p) ! i = layers_of h (ls @ [x]) l ! i"
      using o n by (auto simp: store_or_push_def layers_of_def occupied_Suc nth_append less_Suc_eq nth_list_update)
  qed
qed

text \<open>Halfway: levels below k already hold the new leaf, the others not yet.\<close>

definition half_inv :: "hash2 \<Rightarrow> nat \<Rightarrow> merkle_tree \<Rightarrow> int list \<Rightarrow> int \<Rightarrow> nat \<Rightarrow> bool" where
  "half_inv h d t ls x k \<longleftrightarrow> mt_depth t = d \<and> mt_zeros t = map (zero_node h) [0..<d + 1]
     \<and> length (mt_layers t) = d + 1
     \<and> (\<forall>l\<le>d. mt_layers t ! l = layers_of h (if l < k then ls @ [x] else ls) l)"

lemma insert_level_step:
  assumes inv: "half_inv h d t ls x k" and k: "0 < k" "k \<le> d" and c: "c = length ls div 2 ^ (k - 1)"
  shows "half_inv h d (fst (insert_level h k (t, c))) ls x (Suc k)"
    and "snd (insert_level h k (t, c)) = length ls div 2 ^ k"
proof -
  obtain j where j: "k = Suc j" using k by (cases k) auto
  have p: "drop_bit 1 c = length ls div 2 ^ k"
    unfolding c j by (simp add: drop_bit_eq_div div_pow_Suc del: power_Suc)
  have n: "nodeAt t j i = spec_node h (ls @ [x]) j i" for i
    using inv k j by (intro nodeAt_layer [where d = d]) (auto simp: half_inv_def)
  have v: "h (nodeAt t (k - 1) (drop_bit 1 c * 2)) (nodeAt t (k - 1) (drop_bit 1 c * 2 + 1))
      = spec_node h (ls @ [x]) k (length ls div 2 ^ k)"
    unfolding p by (simp add: j n mult.commute)
  have "mt_layers t ! k = layers_of h ls k" using inv k by (simp add: half_inv_def)
  then have s: "store_or_push (mt_layers t ! k) (drop_bit 1 c)
        (h (nodeAt t (k - 1) (drop_bit 1 c * 2)) (nodeAt t (k - 1) (drop_bit 1 c * 2 + 1)))
      = layers_of h (ls @ [x]) k"
    unfolding v unfolding p by (simp only: store_or_push_layer)
  moreover have "k < length (mt_layers t)" using inv k by (simp add: half_inv_def)
  ultimately show "half_inv h d (fst (insert_level h k (t, c))) ls x (Suc k)"
    using inv k unfolding insert_level_def Let_def half_inv_def
    by (auto simp: nth_list_update less_Suc_eq)
  show "snd (insert_level h k (t, c)) = length ls div 2 ^ k"
    using p by (simp add: insert_level_def Let_def)
qed

lemma insert_levels:
  assumes "half_inv h d t ls x 1" "k \<le> d"
  shows "half_inv h d (fst (fold (insert_level h) [1..<k + 1] (t, length ls))) ls x (k + 1)
    \<and> snd (fold (insert_level h) [1..<k + 1] (t, length ls)) = length ls div 2 ^ k"
  using assms(2)
proof (induction k)
  case 0
  then show ?case using assms by simp
next
  case (Suc k)
  let ?s = "fold (insert_level h) [1..<k + 1] (t, length ls)"
  have IH: "half_inv h d (fst ?s) ls x (k + 1)" "snd ?s = length ls div 2 ^ k" using Suc by simp_all
  have "[1..<Suc k + 1] = [1..<k + 1] @ [k + 1]" by simp
  then have e: "fold (insert_level h) [1..<Suc k + 1] (t, length ls) = insert_level h (k + 1) (fst ?s, snd ?s)"
    by (simp del: upt_Suc)
  show ?case
    unfolding e using insert_level_step [OF IH(1), of "snd ?s"] IH(2) Suc.prems by (simp del: upt_Suc power_Suc)
qed

lemma mt_insert_inv:
  assumes "tree_inv h d t ls"
  shows "tree_inv h d (fst (mt_insert h t x)) (ls @ [x])" and "snd (mt_insert h t x) = length ls"
proof -
  have l0: "mt_layers t ! 0 = ls" and dep: "mt_depth t = d"
    using assms by (simp_all add: tree_inv_def layers_of_leaves del: upt_Suc)
  define t0 where "t0 = t\<lparr>mt_layers := (mt_layers t)[0 := mt_layers t ! 0 @ [x]]\<rparr>"
  have "half_inv h d t0 ls x 1"
    using assms l0 unfolding half_inv_def tree_inv_def t0_def
    by (auto simp: nth_list_update layers_of_leaves simp del: upt_Suc)
  then have "half_inv h d (fst (fold (insert_level h) [1..<d + 1] (t0, length ls))) ls x (d + 1)"
    using insert_levels by blast
  then have "half_inv h d (fst (mt_insert h t x)) ls x (d + 1)"
    by (simp add: mt_insert_def Let_def l0 dep t0_def)
  then show "tree_inv h d (fst (mt_insert h t x)) (ls @ [x])"
    by (auto simp: half_inv_def tree_inv_def intro!: nth_equalityI simp del: upt_Suc)
  show "snd (mt_insert h t x) = length ls" by (simp add: mt_insert_def Let_def l0)
qed

lemma root_of_inv:
  assumes "tree_inv h d t ls"
  shows "root_of t = spec_root h d ls"
proof -
  have n: "nodeAt t d 0 = spec_node h ls d 0"
    using assms by (intro nodeAt_layer [where d = d]) (auto simp: tree_inv_def simp del: upt_Suc)
  have "mt_layers t ! 0 = ls" "mt_depth t = d" "mt_zeros t ! d = zero_node h d"
    using assms by (simp_all add: tree_inv_def layers_of_leaves nth_append del: upt_Suc)
  then show ?thesis
    using n spec_node_empty [of "[]" 0 d h] by (auto simp: root_of_def spec_root_def)
qed

subsection \<open>Its proofs\<close>

definition proof_path :: "merkle_proof \<Rightarrow> (int \<times> nat) list" where
  "proof_path p = zip (mp_pathElements p) (mp_pathIndices p)"

lemma proof_levels:
  assumes "tree_inv h d t ls" "k \<le> d"
  shows "fold (proof_level t) [0..<k] ([], [], i)
    = (map (\<lambda>l. spec_node h ls l (sibling (i div 2 ^ l))) [0..<k], map (\<lambda>l. (i div 2 ^ l) mod 2) [0..<k], i div 2 ^ k)"
  using assms(2)
proof (induction k)
  case (Suc k)
  have "nodeAt t k j = spec_node h ls k j" for j
    using assms(1) Suc.prems by (intro nodeAt_layer [where d = d]) (auto simp: tree_inv_def simp del: upt_Suc)
  then show ?case using Suc
    by (simp add: proof_level_def sibling_def drop_bit_eq_div div_pow_Suc odd_iff_mod_2_eq_one del: power_Suc)
qed simp

lemma getProof_inv:
  assumes "tree_inv h d t ls" "i < length ls"
  obtains p where "getProof t i = Some p" "proof_path p = spec_path h ls d i" "mp_root p = spec_root h d ls"
    "mp_leafIndex p = i" "length (mp_pathElements p) = d" "length (mp_pathIndices p) = d"
proof -
  have l0: "mt_layers t ! 0 = ls" and dep: "mt_depth t = d"
    using assms by (simp_all add: tree_inv_def layers_of_leaves del: upt_Suc)
  let ?p = "\<lparr>mp_pathElements = map (\<lambda>l. spec_node h ls l (sibling (i div 2 ^ l))) [0..<d],
    mp_pathIndices = map (\<lambda>l. (i div 2 ^ l) mod 2) [0..<d], mp_root = root_of t, mp_leafIndex = i\<rparr>"
  have "getProof t i = Some ?p"
    using assms(2) by (simp add: getProof_def l0 dep proof_levels [OF assms(1) order_refl])
  moreover have "proof_path ?p = spec_path h ls d i"
    by (simp add: proof_path_def spec_path_def zip_map_map zip_same_conv_map)
  ultimately show thesis using that root_of_inv [OF assms(1)] by fastforce
qed

lemma index_of_Some: "index_of xs x = Some i \<Longrightarrow> i < length xs \<and> xs ! i = x \<and> (\<forall>j<i. xs ! j \<noteq> x)"
proof (induction xs arbitrary: i)
  case (Cons y ys)
  then show ?case by (auto split: if_splits simp: nth_Cons split: nat.splits)
qed simp

lemma index_of_None: "index_of xs x = None \<longleftrightarrow> x \<notin> set xs"
  by (induction xs) auto

lemma findAllLeaves_eq:
  "findAllLeaves t leaf = filter (\<lambda>i. mt_layers t ! 0 ! i = leaf) [0..<length (mt_layers t ! 0)]"
proof -
  have "fold (\<lambda>i out. if P i then out @ [i] else out) is acc = acc @ filter P is" for P :: "nat \<Rightarrow> bool" and "is" acc
    by (induction "is" arbitrary: acc) auto
  then show ?thesis by (simp add: findAllLeaves_def)
qed

subsection \<open>The interface, provided by the layered tree\<close>

interpretation sdk_tree: proving_tree h d "new_tree h d" "\<lambda>t x. fst (mt_insert h t x)" root_of "tree_inv h d"
    "\<lambda>t i. proof_path (the (getProof t i))" for h d
proof unfold_locales
  show "tree_inv h d (new_tree h d) []" by (rule tree_inv_new)
next
  fix t ls x assume "tree_inv h d t ls"
  then show "tree_inv h d (fst (mt_insert h t x)) (ls @ [x])" by (rule mt_insert_inv)
next
  fix t ls assume "tree_inv h d t ls"
  then show "root_of t = spec_root h d ls" by (rule root_of_inv)
next
  fix t ls i assume "tree_inv h d t ls" "i < length ls"
  then show "proof_path (the (getProof t i)) = spec_path h ls d i" by (metis getProof_inv option.sel)
qed

definition build_tree :: "hash2 \<Rightarrow> nat \<Rightarrow> int list \<Rightarrow> merkle_tree" where
  "build_tree h d xs = foldl (\<lambda>t x. fst (mt_insert h t x)) (new_tree h d) xs"

lemma build_tree_inv: "tree_inv h d (build_tree h d xs) xs"
proof (induction xs rule: rev_induct)
  case Nil
  then show ?case by (simp add: build_tree_def tree_inv_new)
next
  case (snoc x xs)
  then show ?case by (simp add: build_tree_def mt_insert_inv)
qed

text \<open>
  C21. The prover's tree computes the right root and its proofs verify: after inserting any leaves
  that fit, the root is that of the complete tree over them (empty positions zero), each insertion
  returned the position of its leaf, and for every leaf the proof handed to the circuit has one
  element and one bit per level and recomputes exactly that root from the leaf.
\<close>

theorem sdk_tree_proofs_verify:
  assumes "length xs \<le> 2 ^ d" "i < length xs"
  shows "root_of (build_tree h d xs) = spec_root h d xs
    \<and> snd (mt_insert h (build_tree h d xs) x) = length xs
    \<and> (\<exists>p. getProof (build_tree h d xs) i = Some p \<and> mp_root p = spec_root h d xs \<and> mp_leafIndex p = i
         \<and> length (mp_pathElements p) = d \<and> length (mp_pathIndices p) = d
         \<and> path_root h (xs ! i) (proof_path p) = mp_root p)"
proof -
  have inv: "tree_inv h d (build_tree h d xs) xs" by (rule build_tree_inv)
  obtain p where p: "getProof (build_tree h d xs) i = Some p" "proof_path p = spec_path h xs d i"
      "mp_root p = spec_root h d xs" "mp_leafIndex p = i" "length (mp_pathElements p) = d" "length (mp_pathIndices p) = d"
    using getProof_inv [OF inv assms(2)] by blast
  have "path_root h (xs ! i) (proof_path p) = mp_root p"
    using sdk_tree.built_path_proves [OF assms, of h] p sdk_tree.built_root [OF assms(1), of h]
    by (simp add: build_tree_def)
  then show ?thesis
    using p root_of_inv [OF inv] mt_insert_inv(2) [OF inv] by blast
qed

lemma sdk_tree_proofs_verify_witness:
  "\<exists>p. getProof (build_tree (\<lambda>a b. 3 * a + 5 * b + 1) 2 [7, 8, 9]) 1 = Some p
     \<and> path_root (\<lambda>a b. 3 * a + 5 * b + 1) 8 (proof_path p) = mp_root p"
  using sdk_tree_proofs_verify [of "[7, 8, 9]" 2 1 "\<lambda>a b. 3 * a + 5 * b + 1" 0] by auto

text \<open>
  Looking a commitment up is exact: \<open>findLeaf\<close> answers the first position holding it and
  -1 only when it is absent, \<open>hasLeaf\<close> agrees, and \<open>findAllLeaves\<close> lists every position
  of a duplicated commitment in order and nothing else.
\<close>

theorem leaf_lookup_exact:
  "(case findLeaf (build_tree h d xs) x of
      None \<Rightarrow> x \<notin> set xs
    | Some i \<Rightarrow> i < length xs \<and> xs ! i = x \<and> x \<notin> set (take i xs))
   \<and> hasLeaf (build_tree h d xs) x = (x \<in> set xs)
   \<and> findAllLeaves (build_tree h d xs) x = filter (\<lambda>i. xs ! i = x) [0..<length xs]"
proof -
  have l0: "mt_layers (build_tree h d xs) ! 0 = xs"
    using build_tree_inv [of h d xs] by (simp add: tree_inv_def layers_of_leaves del: upt_Suc)
  show ?thesis
    using index_of_Some [of xs x] index_of_None [of xs x]
    by (auto simp: findLeaf_def hasLeaf_def findAllLeaves_eq l0 in_set_conv_nth split: option.splits)
qed

end
