(* ===== verification/WithdrawProof.thy ===== *)
theory WithdrawProof
  imports Preflight MerkleTree Note JsNumber
begin

text \<open>
  The prover, sdk/src/proof.ts: reading the pool's tree state, checking a rebuilt tree against it,
  assembling the inputs of the withdraw circuit and reading the prover's signals. The hash and the
  Groth16 prover are parameters. What is proved: the file's own encoding of public keys is the
  relayer's; a tree that passes the check yields inputs that satisfy the circuit's statement; and the
  signals that \<open>generateWithdrawProof\<close> returns are accepted by the relayer's preflight.
\<close>

subsection \<open>Pool tree state\<close>

definition POOL_NEXT_INDEX_OFFSET :: nat where "POOL_NEXT_INDEX_OFFSET = 8 + 80"
definition POOL_CURRENT_ROOT_INDEX_OFFSET :: nat where "POOL_CURRENT_ROOT_INDEX_OFFSET = 8 + 128"
definition POOL_MIN_LEN :: nat where "POOL_MIN_LEN = 8 + 136 + ROOT_HISTORY_SIZE * 32"

lemmas tree_offsets = POOL_NEXT_INDEX_OFFSET_def POOL_CURRENT_ROOT_INDEX_OFFSET_def POOL_MIN_LEN_def ROOT_HISTORY_SIZE_def

record pool_tree_state =
  pt_nextIndex :: int
  pt_currentRootIndex :: int
  pt_roots :: "int list"

text \<open>The bytes from the last to the first, then \<open>Number(v)\<close>, which rounds above 2 to the 53.\<close>

definition readU64LE :: "bytes \<Rightarrow> nat \<Rightarrow> int" where
  "readU64LE data off = rnd (fold (\<lambda>i v. be_step v (data ! (off + i))) [7, 6, 5, 4, 3, 2, 1, 0] 0)"

definition readPoolTreeState :: "bytes \<Rightarrow> pool_tree_state js" where
  "readPoolTreeState poolData =
     (if length poolData < POOL_MIN_LEN then Throws ''Pool account too small''
      else js_bind (readRootHistory poolData) (\<lambda>roots.
        Returns \<lparr>pt_nextIndex = readU64LE poolData POOL_NEXT_INDEX_OFFSET,
          pt_currentRootIndex = readU64LE poolData POOL_CURRENT_ROOT_INDEX_OFFSET, pt_roots = roots\<rparr>))"

record tree_match =
  tm_root :: int
  tm_leafCount :: nat
  tm_rootIndex :: nat

definition verifyTreeMatchesPool :: "merkle_tree \<Rightarrow> bytes \<Rightarrow> tree_match js" where
  "verifyTreeMatchesPool tree poolData =
     js_bind (readPoolTreeState poolData) (\<lambda>state.
     let leafCount = nextIndex tree in
     if int leafCount \<noteq> pt_nextIndex state then Throws ''Merkle tree is incomplete''
     else let rt = root_of tree in
       case index_of (pt_roots state) rt of
         None \<Rightarrow> Throws ''Rebuilt Merkle root does not match''
       | Some rootIndex \<Rightarrow> Returns \<lparr>tm_root = rt, tm_leafCount = leafCount, tm_rootIndex = rootIndex\<rparr>)"

lemma readU64LE_eq:
  assumes "off + 8 \<le> length d"
  shows "readU64LE d off = rnd (le_int (subarray d off (off + 8)))"
proof -
  have "subarray d off (off + 8) = map (\<lambda>i. d ! (off + i)) [0..<8]"
    using assms by (intro nth_equalityI) (simp_all add: subarray_def)
  also have "\<dots> = [d ! off, d ! (off + 1), d ! (off + 2), d ! (off + 3), d ! (off + 4), d ! (off + 5), d ! (off + 6), d ! (off + 7)]"
    by (simp add: upt_conv_Cons eval_nat_numeral)
  finally show ?thesis by (simp add: readU64LE_def le_int_def be_int_def)
qed

lemma readPoolTreeState_eq:
  assumes "POOL_MIN_LEN \<le> length d"
  shows "readPoolTreeState d = Returns \<lparr>pt_nextIndex = rnd (le_int (subarray d 88 96)),
    pt_currentRootIndex = rnd (le_int (subarray d 136 144)), pt_roots = ring_roots d\<rparr>"
  using assms by (simp add: readPoolTreeState_def readU64LE_eq tree_offsets readRootHistory_long)

text \<open>
  Exactly which rebuilt trees are accepted, and against what: the leaf count equals the pool's
  next\_index as a Number, and the tree's root is in the pool's ring, at the first position that holds
  it.
\<close>

theorem verifyTreeMatchesPool_exact:
  assumes "POOL_MIN_LEN \<le> length d"
  shows "verifyTreeMatchesPool t d = Returns m \<longleftrightarrow>
      int (nextIndex t) = rnd (le_int (subarray d 88 96))
      \<and> m = \<lparr>tm_root = root_of t, tm_leafCount = nextIndex t, tm_rootIndex = tm_rootIndex m\<rparr>
      \<and> tm_rootIndex m < 256 \<and> ring_roots d ! tm_rootIndex m = root_of t
      \<and> root_of t \<notin> set (take (tm_rootIndex m) (ring_roots d))"
proof -
  have i: "index_of xs x = Some i \<longleftrightarrow> i < length xs \<and> xs ! i = x \<and> x \<notin> set (take i xs)" for xs x i
  proof (induction xs arbitrary: i)
    case (Cons y ys)
    then show ?case by (cases i) auto
  qed simp
  have c: "(case r of None \<Rightarrow> Throws e | Some j \<Rightarrow> Returns \<lparr>tm_root = x, tm_leafCount = n, tm_rootIndex = j\<rparr>) = Returns m
      \<longleftrightarrow> r = Some (tm_rootIndex m) \<and> m = \<lparr>tm_root = x, tm_leafCount = n, tm_rootIndex = tm_rootIndex m\<rparr>" for r e x n
    by (cases r; cases m) auto
  show ?thesis
    by (auto simp: verifyTreeMatchesPool_def readPoolTreeState_eq [OF assms] Let_def c i)
qed

subsection \<open>The circuit inputs\<close>

record circuit_inputs =
  ci_nullifierHash :: string
  ci_root :: string
  ci_withdrawalCommitment :: string
  ci_nullifier :: string
  ci_secret :: string
  ci_denomination :: string
  ci_pathElements :: "string list"
  ci_pathIndices :: "string list"
  ci_recipient :: string
  ci_relayerAddress :: string
  ci_relayerFeeMax :: string

record withdraw_proof =
  wp_proof :: json
  wp_signals :: "int list"

definition show_int :: "int \<Rightarrow> string" where
  "show_int = big_to_string 10"

text \<open>The hasher is absent before \<open>initPoseidon\<close>; the encoding of a public key is this file's own.\<close>

type_synonym hasher = "(int list \<Rightarrow> int) option"

definition ts_poseidonHash :: "hasher \<Rightarrow> int list \<Rightarrow> int js" where
  "ts_poseidonHash P inputs = (case P of None \<Rightarrow> Throws ''Call initPoseidon() first'' | Some H \<Rightarrow> Returns (H inputs))"

definition ts_pubkeyToField :: "hasher \<Rightarrow> pubkey \<Rightarrow> int js" where
  "ts_pubkeyToField P bytes =
     (let hi = fold (\<lambda>i hi. be_step hi (bytes ! i)) [0..<16] 0;
          lo = fold (\<lambda>i lo. be_step lo (bytes ! i)) [16..<32] 0
      in if P = None then Throws ''Call initPoseidon() first'' else ts_poseidonHash P [hi, lo])"

lemma ts_pubkeyToField_build [simp]:
  "ts_pubkeyToField (Some H) k = Returns (pubkeyToField H k)"
  "ts_pubkeyToField None k = Throws ''Call initPoseidon() first''"
  by (simp_all add: ts_pubkeyToField_def ts_poseidonHash_def pubkeyToField_def pubkey_halves_def)

definition withdraw_inputs :: "(int list \<Rightarrow> int) \<Rightarrow> secret_note \<Rightarrow> pubkey \<Rightarrow> int \<Rightarrow> pubkey \<Rightarrow> merkle_tree \<Rightarrow> circuit_inputs js" where
  "withdraw_inputs H note relayer feeMax recipient tree =
     (let commitment = H [sn_nullifier note, sn_secret note, sn_denomination note] in
      case findLeaf tree commitment of
        None \<Rightarrow> Throws ''Commitment not found in Merkle tree''
      | Some leafIndex \<Rightarrow>
          (case getProof tree leafIndex of
             None \<Rightarrow> Throws ''Leaf index out of range''
           | Some p \<Rightarrow>
               js_bind (ts_pubkeyToField (Some H) relayer) (\<lambda>relayerField.
               js_bind (ts_pubkeyToField (Some H) recipient) (\<lambda>recipientField.
               Returns \<lparr>ci_nullifierHash = show_int (H [sn_nullifier note]), ci_root = show_int (mp_root p),
                 ci_withdrawalCommitment = show_int (H [relayerField, feeMax, recipientField]),
                 ci_nullifier = show_int (sn_nullifier note), ci_secret = show_int (sn_secret note),
                 ci_denomination = show_int (sn_denomination note),
                 ci_pathElements = map show_int (mp_pathElements p),
                 ci_pathIndices = map (\<lambda>i. show_int (int i)) (mp_pathIndices p),
                 ci_recipient = show_int recipientField, ci_relayerAddress = show_int relayerField,
                 ci_relayerFeeMax = show_int feeMax\<rparr>))))"

definition bigint_at :: "string list \<Rightarrow> nat \<Rightarrow> int js" where
  "bigint_at xs i = (if i < length xs then string_bigint_js (xs ! i) else Throws ''Cannot convert undefined to a BigInt'')"

definition generateWithdrawProof :: "(int list \<Rightarrow> int) \<Rightarrow> (circuit_inputs \<Rightarrow> (json \<times> string list) js)
    \<Rightarrow> secret_note \<Rightarrow> pubkey \<Rightarrow> int \<Rightarrow> pubkey \<Rightarrow> merkle_tree \<Rightarrow> withdraw_proof js" where
  "generateWithdrawProof H fullProve note relayer feeMax recipient tree =
     js_bind (withdraw_inputs H note relayer feeMax recipient tree) (\<lambda>inputs.
     js_bind (fullProve inputs) (\<lambda>(pf, signals).
     js_bind (bigint_at signals 0) (\<lambda>a. js_bind (bigint_at signals 1) (\<lambda>b. js_bind (bigint_at signals 2) (\<lambda>c.
     Returns \<lparr>wp_proof = pf, wp_signals = [a, b, c]\<rparr>)))))"

subsection \<open>The inputs satisfy the circuit's statement\<close>

text \<open>What withdraw.circom constrains, read on the decimal strings it is given.\<close>

definition circuit_statement :: "(int list \<Rightarrow> int) \<Rightarrow> nat \<Rightarrow> circuit_inputs \<Rightarrow> bool" where
  "circuit_statement H depth ci \<longleftrightarrow>
     (\<exists>nullifier secret denom feeMax relayer recipient path.
        ci_nullifier ci = show_int nullifier \<and> ci_secret ci = show_int secret \<and> ci_denomination ci = show_int denom
      \<and> ci_relayerFeeMax ci = show_int feeMax \<and> ci_relayerAddress ci = show_int relayer \<and> ci_recipient ci = show_int recipient
      \<and> length path = depth \<and> ci_pathElements ci = map (show_int \<circ> fst) path
      \<and> ci_pathIndices ci = map (show_int \<circ> int \<circ> snd) path
      \<and> ci_nullifierHash ci = show_int (H [nullifier])
      \<and> ci_root ci = show_int (path_root (\<lambda>a b. H [a, b]) (H [nullifier, secret, denom]) path)
      \<and> ci_withdrawalCommitment ci = show_int (H [relayer, feeMax, recipient]))"

lemma withdraw_inputs_sound:
  assumes "length xs \<le> 2 ^ d"
    and "withdraw_inputs H note relayer feeMax recipient (build_tree (\<lambda>a b. H [a, b]) d xs) = Returns ci"
  shows "circuit_statement H d ci" and "ci_root ci = show_int (spec_root (\<lambda>a b. H [a, b]) d xs)"
    and "ci_nullifierHash ci = show_int (H [sn_nullifier note])"
    and "ci_withdrawalCommitment ci = show_int (H [pubkeyToField H relayer, feeMax, pubkeyToField H recipient])"
proof -
  let ?h = "\<lambda>a b. H [a, b]" and ?c = "H [sn_nullifier note, sn_secret note, sn_denomination note]"
  let ?t = "build_tree ?h d xs"
  have inv: "tree_inv ?h d ?t xs" by (rule build_tree_inv)
  have l0: "mt_layers ?t ! 0 = xs" using inv by (simp add: tree_inv_def layers_of_leaves del: upt_Suc)
  obtain i where i: "findLeaf ?t ?c = Some i" using assms(2) by (auto simp: withdraw_inputs_def Let_def split: option.splits)
  then have ix: "i < length xs" "xs ! i = ?c" using index_of_Some [of xs ?c i] by (simp_all add: findLeaf_def l0)
  obtain p where p: "getProof ?t i = Some p" "proof_path p = spec_path ?h xs d i"
      "mp_root p = spec_root ?h d xs" "length (mp_pathElements p) = d" "length (mp_pathIndices p) = d"
    using getProof_inv [OF inv ix(1)] by blast
  have rt: "path_root ?h ?c (proof_path p) = mp_root p"
    using spec_path_member [OF ix(1), of d ?h] ix assms(1) p(2,3) by (simp add: ix(2))
  have m: "mp_pathElements p = map fst (proof_path p)" "mp_pathIndices p = map snd (proof_path p)" "length (proof_path p) = d"
    using p(4,5) by (simp_all add: proof_path_def)
  have ci: "ci = \<lparr>ci_nullifierHash = show_int (H [sn_nullifier note]), ci_root = show_int (mp_root p),
                 ci_withdrawalCommitment = show_int (H [pubkeyToField H relayer, feeMax, pubkeyToField H recipient]),
                 ci_nullifier = show_int (sn_nullifier note), ci_secret = show_int (sn_secret note),
                 ci_denomination = show_int (sn_denomination note),
                 ci_pathElements = map show_int (mp_pathElements p),
                 ci_pathIndices = map (\<lambda>i. show_int (int i)) (mp_pathIndices p),
                 ci_recipient = show_int (pubkeyToField H recipient), ci_relayerAddress = show_int (pubkeyToField H relayer),
                 ci_relayerFeeMax = show_int feeMax\<rparr>"
    using assms(2) i p(1) by (simp add: withdraw_inputs_def Let_def)
  show "ci_root ci = show_int (spec_root ?h d xs)" "ci_nullifierHash ci = show_int (H [sn_nullifier note])"
    "ci_withdrawalCommitment ci = show_int (H [pubkeyToField H relayer, feeMax, pubkeyToField H recipient])"
    unfolding ci by (simp_all add: p(3))
  show "circuit_statement H d ci"
    unfolding circuit_statement_def ci using rt
    by (intro exI [of _ "sn_nullifier note"] exI [of _ "sn_secret note"] exI [of _ "sn_denomination note"] exI [of _ feeMax]
        exI [of _ "pubkeyToField H relayer"] exI [of _ "pubkeyToField H recipient"] exI [of _ "proof_path p"])
       (simp add: m o_def)
qed

text \<open>What the prover was given, read off the proof it returned.\<close>

lemma generateWithdrawProof_terms:
  assumes "generateWithdrawProof H fullProve note relayer feeMax recipient tree = Returns w"
  obtains ci sigs where "fullProve ci = Returns (wp_proof w, sigs)"
    "list_all2 (\<lambda>t n. string_bigint_js t = Returns n) (take 3 sigs) (wp_signals w)" "length (wp_signals w) = 3"
    "ci_nullifierHash ci = show_int (H [sn_nullifier note])" "ci_nullifier ci = show_int (sn_nullifier note)"
    "ci_secret ci = show_int (sn_secret note)" "ci_denomination ci = show_int (sn_denomination note)"
    "ci_recipient ci = show_int (pubkeyToField H recipient)" "ci_relayerAddress ci = show_int (pubkeyToField H relayer)"
    "ci_relayerFeeMax ci = show_int feeMax"
    "ci_withdrawalCommitment ci = show_int (H [pubkeyToField H relayer, feeMax, pubkeyToField H recipient])"
proof -
  obtain ci sigs pf a b c where g: "withdraw_inputs H note relayer feeMax recipient tree = Returns ci" "fullProve ci = Returns (pf, sigs)"
      "bigint_at sigs 0 = Returns a" "bigint_at sigs 1 = Returns b" "bigint_at sigs 2 = Returns c" "w = \<lparr>wp_proof = pf, wp_signals = [a, b, c]\<rparr>"
    using assms by (auto simp: generateWithdrawProof_def js_bind_eq_Returns)
  have ci: "ci_nullifierHash ci = show_int (H [sn_nullifier note])" "ci_nullifier ci = show_int (sn_nullifier note)"
    "ci_secret ci = show_int (sn_secret note)" "ci_denomination ci = show_int (sn_denomination note)"
    "ci_recipient ci = show_int (pubkeyToField H recipient)" "ci_relayerAddress ci = show_int (pubkeyToField H relayer)"
    "ci_relayerFeeMax ci = show_int feeMax"
    "ci_withdrawalCommitment ci = show_int (H [pubkeyToField H relayer, feeMax, pubkeyToField H recipient])"
    using g(1) by (auto simp: withdraw_inputs_def Let_def split: option.splits)
  obtain x y z r where "sigs = x # y # z # r"
    using g(5) by (cases sigs; cases "tl sigs"; cases "tl (tl sigs)") (auto simp: bigint_at_def split: if_splits)
  then have "list_all2 (\<lambda>t n. string_bigint_js t = Returns n) (take 3 sigs) (wp_signals w)"
    using g(3-6) by (simp add: bigint_at_def eval_nat_numeral)
  then show thesis using that [of ci sigs] g(2,6) ci by simp
qed

text \<open>
  What is asked of the prover: for inputs that satisfy the circuit's statement and are field elements,
  with bits for the path, it returns a proof and the public inputs in the order of the circuit.
\<close>

definition is_Fr :: "int \<Rightarrow> bool" where "is_Fr n \<longleftrightarrow> 0 \<le> n \<and> n < BN254_Fr"

definition circuit_domain :: "circuit_inputs \<Rightarrow> bool" where
  "circuit_domain ci \<longleftrightarrow> (\<forall>s \<in> set ([ci_nullifierHash ci, ci_root ci, ci_withdrawalCommitment ci, ci_nullifier ci, ci_secret ci,
        ci_denomination ci, ci_recipient ci, ci_relayerAddress ci, ci_relayerFeeMax ci] @ ci_pathElements ci). \<exists>n. is_Fr n \<and> s = show_int n)
     \<and> set (ci_pathIndices ci) \<subseteq> {show_int 0, show_int 1}"

definition honest_prover :: "(int list \<Rightarrow> int) \<Rightarrow> nat \<Rightarrow> (circuit_inputs \<Rightarrow> (json \<times> string list) js) \<Rightarrow> bool" where
  "honest_prover H depth fullProve \<longleftrightarrow> (\<forall>ci. circuit_statement H depth ci \<and> circuit_domain ci
     \<longrightarrow> (\<exists>pf. fullProve ci = Returns (pf, [ci_nullifierHash ci, ci_root ci, ci_withdrawalCommitment ci])))"

lemma spec_node_Fr: "\<forall>x\<in>set ls. is_Fr x \<Longrightarrow> \<forall>a b. is_Fr (h a b) \<Longrightarrow> is_Fr (spec_node h ls l i)"
  by (induction l arbitrary: i) (auto simp: is_Fr_def BN254_Fr_def)

lemma withdraw_inputs_domain:
  assumes "length xs \<le> 2 ^ d" "H [sn_nullifier note, sn_secret note, sn_denomination note] \<in> set xs"
    and "\<forall>x\<in>set xs. is_Fr x" "\<forall>zs. is_Fr (H zs)" "\<forall>z\<in>{sn_nullifier note, sn_secret note, sn_denomination note, feeMax}. is_Fr z"
  obtains ci where "withdraw_inputs H note relayer feeMax recipient (build_tree (\<lambda>a b. H [a, b]) d xs) = Returns ci" "circuit_domain ci"
proof -
  let ?h = "\<lambda>a b. H [a, b]" and ?c = "H [sn_nullifier note, sn_secret note, sn_denomination note]"
  let ?t = "build_tree ?h d xs"
  have inv: "tree_inv ?h d ?t xs" by (rule build_tree_inv)
  have l0: "mt_layers ?t ! 0 = xs" using inv by (simp add: tree_inv_def layers_of_leaves del: upt_Suc)
  obtain i where i: "findLeaf ?t ?c = Some i" using assms(2) index_of_None [of xs ?c] by (auto simp: findLeaf_def l0)
  then have "i < length xs" using index_of_Some [of xs ?c i] by (simp add: findLeaf_def l0)
  then obtain p where p: "getProof ?t i = Some p" "proof_path p = spec_path ?h xs d i"
      "mp_root p = spec_root ?h d xs" "length (mp_pathElements p) = d" "length (mp_pathIndices p) = d"
    using getProof_inv [OF inv] by blast
  have m: "mp_pathElements p = map fst (spec_path ?h xs d i)" "mp_pathIndices p = map snd (spec_path ?h xs d i)"
    unfolding p(2) [symmetric] using p(4,5) by (simp_all add: proof_path_def)
  have node: "is_Fr (spec_node ?h xs l j)" for l j using assms(3,4) by (intro spec_node_Fr) auto
  then have els: "\<forall>x\<in>set (mp_pathElements p). is_Fr x" by (auto simp: m spec_path_def)
  have bit: "show_int (int (j mod 2)) \<in> {show_int 0, show_int 1}" for j :: nat
    by (cases "j mod 2 = 0") (simp_all add: mod2_eq_if)
  have idxs: "set (map (\<lambda>i. show_int (int i)) (mp_pathIndices p)) \<subseteq> {show_int 0, show_int 1}"
    unfolding m spec_path_def using bit by auto
  obtain ci where w: "withdraw_inputs H note relayer feeMax recipient ?t = Returns ci"
    using i p(1) by (simp add: withdraw_inputs_def Let_def)
  have ci: "ci_nullifierHash ci = show_int (H [sn_nullifier note])" "ci_root ci = show_int (mp_root p)"
      "ci_withdrawalCommitment ci = show_int (H [pubkeyToField H relayer, feeMax, pubkeyToField H recipient])"
      "ci_nullifier ci = show_int (sn_nullifier note)" "ci_secret ci = show_int (sn_secret note)" "ci_denomination ci = show_int (sn_denomination note)"
      "ci_recipient ci = show_int (pubkeyToField H recipient)" "ci_relayerAddress ci = show_int (pubkeyToField H relayer)"
      "ci_relayerFeeMax ci = show_int feeMax" "ci_pathElements ci = map show_int (mp_pathElements p)"
      "ci_pathIndices ci = map (\<lambda>i. show_int (int i)) (mp_pathIndices p)"
    using w i p(1) by (auto simp: withdraw_inputs_def Let_def)
  have "is_Fr (mp_root p)" unfolding p(3) spec_root_def by (rule node)
  moreover have "is_Fr (pubkeyToField H k)" for k using assms(4) by (simp add: pubkeyToField_def split: prod.split)
  ultimately have "circuit_domain ci"
    unfolding circuit_domain_def ci using assms(4,5) els idxs by auto
  then show thesis using that w by blast
qed

text \<open>
  C19. End to end, an unspent note in a verified tree can be withdrawn: if the rebuilt tree holds the
  note's commitment and passes the check against the pool with a non-zero root, \<open>generateWithdrawProof\<close>
  returns, the inputs it gave the prover satisfy the circuit's statement, and the signals it returns,
  sent as decimal strings with the same relayer, ceiling and recipient, are accepted by the relayer's
  preflight on that pool. The hypotheses: the prover proves true statements about field elements and
  returns their public inputs in the circuit's order; the hash, the leaves, the note's numbers and the
  ceiling are field elements; and the note's nullifier account holds no data.
\<close>

theorem honest_withdrawal_passes_preflight:
  assumes "POOL_ACCOUNT_LEN \<le> length d" "length xs \<le> 2 ^ depth"
    and "verifyTreeMatchesPool (build_tree (\<lambda>a b. H [a, b]) depth xs) d = Returns m" "tm_root m \<noteq> 0"
    and "H [sn_nullifier note, sn_secret note, sn_denomination note] \<in> set xs"
    and "honest_prover H depth fullProve" "\<forall>zs. is_Fr (H zs)" "\<forall>x\<in>set xs. is_Fr x"
    and "\<forall>z\<in>{sn_nullifier note, sn_secret note, sn_denomination note, feeMax}. is_Fr z"
    and "ch_pda ch (nullifier_seeds pool (bigIntToBytes32 (H [sn_nullifier note]))) programId = Returns pda"
    and "\<And>a. ch_account ch pda = Returns (Some a) \<Longrightarrow> acc_data a = []"
  shows "\<exists>w ci. generateWithdrawProof H fullProve note relayer feeMax recipient (build_tree (\<lambda>a b. H [a, b]) depth xs) = Returns w
    \<and> circuit_statement H depth ci \<and> fullProve ci = Returns (wp_proof w, map show_int (wp_signals w))
    \<and> preflight H d (JArr (map (JStr \<circ> show_int) (wp_signals w))) relayer recipient feeMax (Some (ch, programId, pool)) = Returns PfOk"
proof -
  let ?h = "\<lambda>a b. H [a, b]" and ?wc = "H [pubkeyToField H relayer, feeMax, pubkeyToField H recipient]"
  have len: "POOL_MIN_LEN \<le> length d" using assms(1) by (simp add: tree_offsets POOL_ACCOUNT_LEN_def)
  obtain ci where ci: "withdraw_inputs H note relayer feeMax recipient (build_tree ?h depth xs) = Returns ci" "circuit_domain ci"
    by (rule withdraw_inputs_domain [OF assms(2,5,8,7,9)])
  note w = withdraw_inputs_sound [OF assms(2) ci(1)]
  obtain pf where pf: "fullProve ci = Returns (pf, [ci_nullifierHash ci, ci_root ci, ci_withdrawalCommitment ci])"
    using assms(6) w(1) ci(2) unfolding honest_prover_def by blast
  let ?w = "\<lparr>wp_proof = pf, wp_signals = [H [sn_nullifier note], spec_root ?h depth xs, ?wc]\<rparr>"
  have g: "generateWithdrawProof H fullProve note relayer feeMax recipient (build_tree ?h depth xs) = Returns ?w"
    by (simp add: generateWithdrawProof_def ci(1) pf bigint_at_def w(2-4) show_int_def string_bigint_js_def)
  have rt: "root_of (build_tree ?h depth xs) = spec_root ?h depth xs" by (rule root_of_inv [OF build_tree_inv])
  have v: "tm_root m = spec_root ?h depth xs" "spec_root ?h depth xs \<in> set (ring_roots d)"
    using assms(3) unfolding verifyTreeMatchesPool_exact [OF len] rt
    by (metis tree_match.select_convs(1), metis length_ring_roots nth_mem)
  let ?ps = "JArr (map (JStr \<circ> show_int) (wp_signals ?w))"
  have ps: "json_bigint (js_index ?ps 0) = Returns (H [sn_nullifier note])"
      "json_bigint (js_index ?ps 1) = Returns (spec_root ?h depth xs)" "json_bigint (js_index ?ps 2) = Returns ?wc"
    by (simp_all add: js_index_def show_int_def)
  have "0 \<le> H [sn_nullifier note]" "H [sn_nullifier note] < BN254_Fr" using assms(7) by (simp_all add: is_Fr_def)
  then have "spent_check (Some (ch, programId, pool)) (js_index ?ps 0) = PfOk"
    using spent_check_seed [OF ps(1) _ _ assms(10)] assms(11) by blast
  then have "preflight H d ?ps relayer recipient feeMax (Some (ch, programId, pool)) = Returns PfOk"
    unfolding preflight_ok_iff [OF assms(1)] using ps v assms(4) by auto
  then show ?thesis using g w(1) pf by (intro exI [of _ ?w] exI [of _ ci]) (simp add: w(2-4))
qed

lemma index_of_first: "xs \<noteq> [] \<Longrightarrow> xs ! 0 = x \<Longrightarrow> index_of xs x = Some 0"
  by (cases xs) auto

text \<open>A pool account with one deposit whose ring holds the root 7 in its first slot.\<close>

definition one_deposit_pool :: bytes where
  "one_deposit_pool = replicate 88 0 @ [1] @ replicate 86 0 @ [7] @ replicate 8800 0"

lemma one_deposit_pool_props:
  "length one_deposit_pool = 8976" "subarray one_deposit_pool 88 96 = 1 # replicate 7 0"
  "ring_roots one_deposit_pool ! 0 = 7"
proof -
  have r: "take n (replicate m x) = replicate (min n m) x" for n m and x :: byte by (simp add: min.commute)
  have "subarray one_deposit_pool 144 176 = replicate 31 0 @ [7]"
    by (simp add: one_deposit_pool_def subarray_def r)
  moreover have "be_int (replicate n 0 @ [7]) = 7" for n by (induction n) (simp_all add: be_int_Cons)
  ultimately show "ring_roots one_deposit_pool ! 0 = 7" by (simp add: ring_roots_def)
  show "length one_deposit_pool = 8976" "subarray one_deposit_pool 88 96 = 1 # replicate 7 0"
    by (simp_all add: one_deposit_pool_def subarray_def r)
qed

lemma verifyTreeMatchesPool_exact_witness:
  "verifyTreeMatchesPool (build_tree (\<lambda>a b. 7) 2 [7]) one_deposit_pool = Returns \<lparr>tm_root = 7, tm_leafCount = 1, tm_rootIndex = 0\<rparr>"
proof -
  have "POOL_MIN_LEN \<le> length one_deposit_pool" by (simp add: one_deposit_pool_props tree_offsets)
  moreover have "le_int (1 # replicate 7 (0 :: byte)) = 1" "root_of (build_tree (\<lambda>a b. 7) 2 [7]) = 7"
      "nextIndex (build_tree (\<lambda>a b. 7) 2 [7]) = 1" by code_simp+
  ultimately show ?thesis
    using verifyTreeMatchesPool_exact [of one_deposit_pool "build_tree (\<lambda>a b. 7) 2 [7]" "\<lparr>tm_root = 7, tm_leafCount = 1, tm_rootIndex = 0\<rparr>"]
    by (simp add: one_deposit_pool_props rnd_exact)
qed

lemma honest_withdrawal_passes_preflight_witness:
  "\<exists>w. generateWithdrawProof (\<lambda>xs. 7) (\<lambda>ci. Returns (JNull, [ci_nullifierHash ci, ci_root ci, ci_withdrawalCommitment ci]))
       \<lparr>sn_nullifier = 1, sn_secret = 2, sn_denomination = 3, sn_poolAddress = [8]\<rparr> [1] 5 [2] (build_tree (\<lambda>a b. 7) 2 [7]) = Returns w
     \<and> preflight (\<lambda>xs. 7) one_deposit_pool (JArr (map (JStr \<circ> show_int) (wp_signals w)))
         [1] [2] 5 (Some (\<lparr>ch_pda = \<lambda>s p. Returns [3], ch_account = \<lambda>k. Returns None\<rparr>, [8], [9])) = Returns PfOk"
proof -
  let ?n = "\<lparr>sn_nullifier = 1, sn_secret = 2, sn_denomination = 3, sn_poolAddress = [8]\<rparr>"
  let ?H = "\<lambda>xs :: int list. 7 :: int"
  let ?P = "\<lambda>ci. Returns (JNull, [ci_nullifierHash ci, ci_root ci, ci_withdrawalCommitment ci])"
  have p: "POOL_ACCOUNT_LEN \<le> length one_deposit_pool" "POOL_MIN_LEN \<le> length one_deposit_pool"
    by (simp_all add: one_deposit_pool_props tree_offsets POOL_ACCOUNT_LEN_def)
  have ring_ne: "ring_roots one_deposit_pool \<noteq> []" by (metis length_ring_roots list.size(3) zero_neq_numeral)
  have e: "le_int (1 # replicate 7 (0 :: byte)) = 1" "root_of (build_tree (\<lambda>a b. 7) 2 [7]) = 7"
      "nextIndex (build_tree (\<lambda>a b. 7) 2 [7]) = 1" by code_simp+
  have v: "verifyTreeMatchesPool (build_tree (\<lambda>a b. ?H [a, b]) 2 [7]) one_deposit_pool
      = Returns \<lparr>tm_root = 7, tm_leafCount = 1, tm_rootIndex = 0\<rparr>"
    unfolding verifyTreeMatchesPool_def readPoolTreeState_eq [OF p(2)]
    using one_deposit_pool_props(3) by (simp add: e one_deposit_pool_props rnd_exact Let_def index_of_first ring_ne)
  have h: "honest_prover ?H 2 ?P" by (simp add: honest_prover_def)
  have pda: "ch_pda \<lparr>ch_pda = \<lambda>s p. Returns [3], ch_account = \<lambda>k. Returns None\<rparr> s q = Returns [3]" for s q by simp
  show ?thesis
    using honest_withdrawal_passes_preflight [OF p(1) _ v _ _ h, of ?n 5, OF _ _ _ _ _ _ pda [of "nullifier_seeds [9] (bigIntToBytes32 7)" "[8]"], of "[1]" "[2]"]
    by (auto simp: is_Fr_def BN254_Fr_def)
qed

end
