(* ===== verification/LeafCache.thy ===== *)
theory LeafCache
  imports Note
begin

text \<open>
  The browser's cache of a pool's leaves, app/src/utils/leafCache.ts. A stored entry is what
  \<open>JSON.parse\<close> makes of the text under the pool's key; reads and writes may fail, which the code
  treats as a cold cache.
\<close>

definition MAX_CACHED_LEAVES :: nat where "MAX_CACHED_LEAVES = 20000"

text \<open>A \<open>LeafCache\<close>: the leaves as hex text and the newest signature scanned, if any.\<close>

record leaf_cache =
  lc_leaves :: "string list"
  lc_lastSignature :: "string option"

definition cold_cache :: leaf_cache where
  "cold_cache = \<lparr>lc_leaves = [], lc_lastSignature = None\<rparr>"

definition cache_key :: "string \<Rightarrow> string \<Rightarrow> string" where
  "cache_key programId pool = ''sndo_leaves_v2_'' @ programId @ ''_'' @ pool"

definition toHex :: "int \<Rightarrow> string" where
  "toHex v = padStart 64 (CHR ''0'') (big_to_string 16 v)"

definition leafToBigInt :: "string \<Rightarrow> int js" where
  "leafToBigInt hex = string_bigint_js (''0x'' @ hex)"

definition is_leaf_text :: "json \<Rightarrow> bool" where
  "is_leaf_text l = (case l of JStr s \<Rightarrow> length s = 64 \<and> lower_hex s | _ \<Rightarrow> False)"

definition text_of :: "json \<Rightarrow> string" where
  "text_of j = (case j of JStr s \<Rightarrow> s | _ \<Rightarrow> [])"

text \<open>
  \<open>stored\<close>: None when there is no entry or it is empty; otherwise the parse of its text, which may
  raise. A lastSignature that is not a string is taken as absent.
\<close>

definition loadCache :: "json js option \<Rightarrow> leaf_cache" where
  "loadCache stored =
     (case stored of
        None \<Rightarrow> cold_cache
      | Some (Throws _) \<Rightarrow> cold_cache
      | Some (Returns parsed) \<Rightarrow>
          (case js_get parsed ''leaves'' of
             JArr ls \<Rightarrow>
               if list_all is_leaf_text ls
               then \<lparr>lc_leaves = map text_of ls,
                     lc_lastSignature = (case js_get parsed ''lastSignature'' of JStr s \<Rightarrow> Some s | _ \<Rightarrow> None)\<rparr>
               else cold_cache
           | _ \<Rightarrow> cold_cache))"

definition saveCache :: "bool \<Rightarrow> int list \<Rightarrow> string option \<Rightarrow> json js option \<Rightarrow> json js option" where
  "saveCache writable leaves lastSignature stored =
     (if MAX_CACHED_LEAVES < length leaves \<or> \<not> writable then stored
      else Some (Returns (JObj ((''leaves'', JArr (map (JStr \<circ> toHex) leaves))
        # (case lastSignature of None \<Rightarrow> [] | Some s \<Rightarrow> [(''lastSignature'', JStr s)])))))"

definition clearCache :: "bool \<Rightarrow> json js option \<Rightarrow> json js option" where
  "clearCache writable stored = (if writable then None else stored)"

text \<open>\<open>cached.leaves.map(leafToBigInt)\<close>; every text of a loaded cache is readable.\<close>

definition cached_leaves :: "leaf_cache \<Rightarrow> int list" where
  "cached_leaves c = map (\<lambda>s. returned (leafToBigInt s)) (lc_leaves c)"

lemma leafToBigInt_ok: "is_leaf_text l \<Longrightarrow> \<exists>n. leafToBigInt (text_of l) = Returns n \<and> 0 \<le> n \<and> n < 2 ^ 256"
proof -
  assume a: "is_leaf_text l"
  then obtain s where s: "l = JStr s" "length s = 64" "lower_hex s" by (cases l) (auto simp: is_leaf_text_def)
  have "int (digits_val 16 s) < 16 ^ 64"
    using read_hex_bound [of 64 s "int (digits_val 16 s)"] s by (simp add: read_hex_field_def)
  then show ?thesis using s string_bigint_hex [OF s(3)] by (simp add: leafToBigInt_def text_of_def)
qed

lemma loadCache_texts: "s \<in> set (lc_leaves (loadCache stored)) \<Longrightarrow> \<exists>l. is_leaf_text l \<and> s = text_of l"
  by (auto simp: loadCache_def cold_cache_def list_all_iff split: option.splits js.splits json.splits if_splits)

lemma loadCache_readable:
  "s \<in> set (lc_leaves (loadCache stored)) \<Longrightarrow> \<exists>n. leafToBigInt s = Returns n"
  using loadCache_texts leafToBigInt_ok by blast

lemma leaf_text_round_trip: "0 \<le> n \<Longrightarrow> n < 2 ^ 256 \<Longrightarrow> is_leaf_text (JStr (toHex n)) \<and> leafToBigInt (toHex n) = Returns n"
proof -
  assume n: "0 \<le> n" "n < 2 ^ 256"
  then have n': "0 < (64 :: nat) \<and> 0 \<le> n \<and> n < 16 ^ 64" by simp
  have h: "toHex n = hex_field 64 n" by (simp add: toHex_def hex_field_def)
  have p: "length (hex_field 64 n) = 64" "lower_hex (hex_field 64 n)" "digits_val 16 (hex_field 64 n) = nat n"
    using hex_field_props [of 64 n] n' by simp_all
  then show ?thesis using string_bigint_hex [OF p(2)] n by (simp add: h is_leaf_text_def leafToBigInt_def)
qed

text \<open>
  The leaf cache gives back what was saved: leaves that fit in 256 bits, at most the limit, are
  loaded as the same numbers with the same signature, whatever was stored before; an entry that was
  written by anything else is either a list of 64-digit lower-case hex texts or is ignored whole; and
  clearing or having no entry is a cold cache.
\<close>

theorem leaf_cache_round_trip:
  assumes "\<forall>n\<in>set leaves. 0 \<le> n \<and> n < 2 ^ 256" "length leaves \<le> MAX_CACHED_LEAVES"
  shows "cached_leaves (loadCache (saveCache True leaves sig stored)) = leaves
    \<and> lc_lastSignature (loadCache (saveCache True leaves sig stored)) = sig
    \<and> loadCache (clearCache True stored) = cold_cache
    \<and> (\<forall>s\<in>set (lc_leaves (loadCache anything)). length s = 64 \<and> lower_hex s)"
proof -
  let ?p = "JObj ((''leaves'', JArr (map (JStr \<circ> toHex) leaves)) # (case sig of None \<Rightarrow> [] | Some s \<Rightarrow> [(''lastSignature'', JStr s)]))"
  have s: "saveCache True leaves sig stored = Some (Returns ?p)" using assms(2) by (simp add: saveCache_def)
  have l: "list_all is_leaf_text (map (JStr \<circ> toHex) leaves)"
    using assms(1) leaf_text_round_trip by (auto simp: list_all_iff)
  have sg: "(case js_get ?p ''lastSignature'' of JStr s \<Rightarrow> Some s | _ \<Rightarrow> None) = sig"
    by (cases sig) (simp_all add: js_get_def)
  have "js_get ?p ''leaves'' = JArr (map (JStr \<circ> toHex) leaves)" by (simp add: js_get_def)
  then have c: "loadCache (Some (Returns ?p)) = \<lparr>lc_leaves = map toHex leaves, lc_lastSignature = sig\<rparr>"
    unfolding loadCache_def using l sg by (simp add: text_of_def o_def)
  have "map (\<lambda>n. returned (leafToBigInt (toHex n))) leaves = leaves"
    using assms(1) leaf_text_round_trip by (induction leaves) auto
  then have 1: "cached_leaves (loadCache (saveCache True leaves sig stored)) = leaves"
    unfolding cached_leaves_def s c by (simp add: o_def)
  have 2: "\<forall>t\<in>set (lc_leaves (loadCache anything)). length t = 64 \<and> lower_hex t"
    by (auto dest!: loadCache_texts simp: is_leaf_text_def text_of_def split: json.splits)
  have 3: "loadCache (clearCache True stored) = cold_cache" by (simp add: clearCache_def loadCache_def)
  have 4: "lc_lastSignature (loadCache (saveCache True leaves sig stored)) = sig" unfolding s c by simp
  show ?thesis using 1 2 3 4 by blast
qed

lemma leaf_cache_round_trip_witness: "cached_leaves (loadCache (saveCache True [5, 0] (Some ''s'') None)) = [5, 0]"
  using leaf_cache_round_trip [of "[5, 0]" "Some ''s''" None None] by (simp add: MAX_CACHED_LEAVES_def)

end
