(* ===== verification/TreeRebuild.thy ===== *)
theory TreeRebuild
  imports MonitorStats WithdrawProof LeafCache JsNumberText "HOL-Library.Product_Lexorder"
begin

text \<open>
  Rebuilding a pool's tree from its transaction history, app/src/utils/merkle.ts: which
  instructions of a transaction are deposits, pairing them with the events of its log, scanning the
  history with bounded concurrency, ordering the deposits that carry no index, filling the tree, and
  the outer loop over the leaf cache. The RPC, base58, the Anchor event parser and the hash are
  parameters. Whatever they answer, a tree is only returned after the check against the chain.
\<close>

subsection \<open>The deposits of a transaction\<close>

record raw_meta =
  rm_err :: bool
  rm_logs :: "string list"
  rm_inner :: "(nat \<times> tx_instruction list) list"
  rm_writable :: "string list"
  rm_readonly :: "string list"

record raw_tx =
  rx_slot :: "int option"
  rx_keys :: "string list"
  rx_instructions :: "tx_instruction list"
  rx_meta :: "raw_meta option"

definition bytesToBigInt :: "bytes \<Rightarrow> int" where
  "bytesToBigInt bs = foldl be_step 0 bs"

definition tx_keys :: "raw_tx \<Rightarrow> string list" where
  "tx_keys tx = rx_keys tx @ (case rx_meta tx of None \<Rightarrow> [] | Some m \<Rightarrow> rm_writable m @ rm_readonly m)"

text \<open>\<open>inner.set(group.index, group.instructions)\<close> for each group: the last group of an index counts.\<close>

definition inner_of :: "raw_tx \<Rightarrow> nat \<Rightarrow> tx_instruction list" where
  "inner_of tx i =
     (case rx_meta tx of
        None \<Rightarrow> []
      | Some m \<Rightarrow> (case map_of (rev (rm_inner m)) i of None \<Rightarrow> [] | Some ixs \<Rightarrow> ixs))"

text \<open>The deposit discriminator, which merkle.ts looks up in app/src/idl/solnadocash.json.\<close>

definition merkle_DEPOSIT_DISCRIMINATOR :: bytes where
  "merkle_DEPOSIT_DISCRIMINATOR = [242, 35, 198, 137, 82, 225, 242, 182]"

definition deposit_pool :: "string list \<Rightarrow> tx_instruction \<Rightarrow> string option" where
  "deposit_pool keys ix = (case ti_accounts ix of [] \<Rightarrow> None | a # _ \<Rightarrow> key_at keys a)"

definition consider_ix :: "(string \<Rightarrow> bytes js) \<Rightarrow> string \<Rightarrow> string list \<Rightarrow> tx_instruction \<Rightarrow> (string \<times> int) list js" where
  "consider_ix decode programKey keys ix =
     (if key_at keys (ti_programIdIndex ix) \<noteq> Some programKey then Returns []
      else js_bind (decode (ti_data ix)) (\<lambda>data.
        if length data < 40 then Returns []
        else if take 8 data \<noteq> merkle_DEPOSIT_DISCRIMINATOR then Returns []
        else case deposit_pool keys ix of
            None \<Rightarrow> Returns []
          | Some pool \<Rightarrow> Returns [(pool, bytesToBigInt (subarray data 8 40))]))"

text \<open>Execution order: each top-level instruction, then the inner instructions it invoked.\<close>

definition executed_ixs :: "raw_tx \<Rightarrow> tx_instruction list" where
  "executed_ixs tx = concat (map (\<lambda>(i, ix). ix # inner_of tx i) (enumerate 0 (rx_instructions tx)))"

definition depositInstructions :: "(string \<Rightarrow> bytes js) \<Rightarrow> raw_tx \<Rightarrow> string \<Rightarrow> (string \<times> int) list js" where
  "depositInstructions decode tx programKey =
     js_bind (js_map (consider_ix decode programKey (tx_keys tx)) (executed_ixs tx)) (\<lambda>found. Returns (concat found))"

subsection \<open>The events of a transaction\<close>

text \<open>
  A parsed event, its index under either spelling: absent, a number or a BigInt. The parser is a
  generator, so each event it yields may instead be a throw.
\<close>

datatype event_index = NoIndex | NumIndex js_num | BigIndex int

record parsed_event =
  pe_name :: string
  pe_leaf :: bytes
  pe_leaf_index :: event_index
  pe_leafIndex :: event_index

definition raw_index :: "parsed_event \<Rightarrow> event_index" where
  "raw_index e = (if pe_leaf_index e = NoIndex then pe_leafIndex e else pe_leaf_index e)"

text \<open>\<open>Number(rawIndex)\<close>, or None where the code throws: undefined, not an integer, negative.\<close>

definition usable_index :: "event_index \<Rightarrow> nat option" where
  "usable_index r =
     (case r of
        NoIndex \<Rightarrow> None
      | NumIndex (Finite q) \<Rightarrow> if of_int \<lfloor>q\<rfloor> = q \<and> 0 \<le> q then Some (nat \<lfloor>q\<rfloor>) else None
      | NumIndex _ \<Rightarrow> None
      | BigIndex n \<Rightarrow> if rnd n < 0 then None else Some (nat (rnd n)))"

definition deposit_event :: "parsed_event js \<Rightarrow> (int \<times> nat) list js" where
  "deposit_event ev =
     js_bind ev (\<lambda>e.
       if pe_name e \<noteq> ''DepositEvent'' \<and> pe_name e \<noteq> ''depositEvent'' then Returns []
       else case usable_index (raw_index e) of
           None \<Rightarrow> Throws ''Deposit event has an unusable leaf index''
         | Some i \<Rightarrow> Returns [(bytesToBigInt (pe_leaf e), i)])"

definition tx_events :: "(string list \<Rightarrow> parsed_event js list) \<Rightarrow> raw_meta \<Rightarrow> (int \<times> nat) list js" where
  "tx_events parseLogs m = js_bind (js_map deposit_event (parseLogs (rm_logs m))) (\<lambda>es. Returns (concat es))"

text \<open>Positional pairing, verified leaf by leaf.\<close>

definition aligned :: "(string \<times> int) list \<Rightarrow> (int \<times> nat) list \<Rightarrow> bool" where
  "aligned deposits events \<longleftrightarrow>
     length events \<le> length deposits \<and> list_all (\<lambda>(e, d). fst e = snd d) (zip events deposits)"

record unplaced =
  un_leaf :: int
  un_slot :: "int option"
  un_signature :: string
  un_order :: nat

definition paired :: "(string \<times> int) list \<Rightarrow> (int \<times> nat) list \<Rightarrow> nat \<Rightarrow> bool" where
  "paired deposits events k \<longleftrightarrow> aligned deposits events \<and> k < length events"

definition indexed_of :: "string \<Rightarrow> (string \<times> int) list \<Rightarrow> (int \<times> nat) list \<Rightarrow> (int \<times> nat) list" where
  "indexed_of poolKey deposits events =
     map (\<lambda>(k, pool, leaf). (leaf, snd (events ! k)))
       (filter (\<lambda>(k, pool, leaf). pool = poolKey \<and> paired deposits events k) (enumerate 0 deposits))"

definition unindexed_of :: "string \<Rightarrow> string \<Rightarrow> int option \<Rightarrow> (string \<times> int) list \<Rightarrow> (int \<times> nat) list \<Rightarrow> unplaced list" where
  "unindexed_of poolKey sig slot deposits events =
     map (\<lambda>(k, pool, leaf). \<lparr>un_leaf = leaf, un_slot = slot, un_signature = sig, un_order = k\<rparr>)
       (filter (\<lambda>(k, pool, leaf). pool = poolKey \<and> \<not> paired deposits events k) (enumerate 0 deposits))"

definition tx_deposits :: "(string \<Rightarrow> bytes js) \<Rightarrow> (string list \<Rightarrow> parsed_event js list) \<Rightarrow> string \<Rightarrow> string
    \<Rightarrow> string \<times> raw_tx option \<Rightarrow> ((int \<times> nat) list \<times> unplaced list) js" where
  "tx_deposits decode parseLogs programKey poolKey entry =
     (case snd entry of
        None \<Rightarrow> Returns ([], [])
      | Some tx \<Rightarrow>
          (case rx_meta tx of
             None \<Rightarrow> Returns ([], [])
           | Some m \<Rightarrow>
               if rm_err m then Returns ([], [])
               else js_bind (depositInstructions decode tx programKey) (\<lambda>deposits.
                 js_bind (tx_events parseLogs m) (\<lambda>events.
                 Returns (indexed_of poolKey deposits events,
                          unindexed_of poolKey (fst entry) (rx_slot tx) deposits events)))))"


subsection \<open>Bounded concurrency\<close>

text \<open>
  \<open>mapPool\<close>: the workers share the counter and the result array, and each is either about to take
  the next item, awaiting the call on an item, or finished. One step is the synchronous code of one
  worker between two awaits; the first rejection ends the whole map.
\<close>

datatype worker = Idle | Busy nat | Stopped

record 'b pool_run =
  pr_next :: nat
  pr_results :: "nat \<rightharpoonup> 'b"
  pr_completed :: nat
  pr_workers :: "worker list"

definition pool_start :: "nat \<Rightarrow> 'a list \<Rightarrow> 'b pool_run" where
  "pool_start limit items =
     \<lparr>pr_next = 0, pr_results = Map.empty, pr_completed = 0, pr_workers = replicate (min limit (length items)) Idle\<rparr>"

definition worker_step :: "('a \<Rightarrow> 'b js) \<Rightarrow> 'a list \<Rightarrow> nat \<Rightarrow> 'b pool_run \<Rightarrow> 'b pool_run js" where
  "worker_step f items w st =
     (case pr_workers st ! w of
        Idle \<Rightarrow>
          (let i = pr_next st in Returns (st\<lparr>pr_next := i + 1,
             pr_workers := (pr_workers st)[w := (if length items \<le> i then Stopped else Busy i)]\<rparr>))
      | Busy i \<Rightarrow>
          js_bind (f (items ! i)) (\<lambda>y. Returns (st\<lparr>pr_results := (pr_results st)(i \<mapsto> y),
             pr_completed := pr_completed st + 1, pr_workers := (pr_workers st)[w := Idle]\<rparr>))
      | Stopped \<Rightarrow> Returns st)"

inductive pool_reaches :: "('a \<Rightarrow> 'b js) \<Rightarrow> nat \<Rightarrow> 'a list \<Rightarrow> nat \<Rightarrow> 'b pool_run \<Rightarrow> bool" for f limit items where
  started: "pool_reaches f limit items 0 (pool_start limit items)"
| stepped: "pool_reaches f limit items n st \<Longrightarrow> w < length (pr_workers st) \<Longrightarrow> pr_workers st ! w \<noteq> Stopped
    \<Longrightarrow> worker_step f items w st = Returns st' \<Longrightarrow> pool_reaches f limit items (Suc n) st'"

definition FETCH_CONCURRENCY :: nat where "FETCH_CONCURRENCY = 8"

text \<open>What the map resolves to when nothing rejects; a rejection is reported for the first item in order.\<close>

definition mapPool :: "('a \<Rightarrow> 'b js) \<Rightarrow> 'a list \<Rightarrow> 'b list js" where
  "mapPool f items = js_map f items"

subsection \<open>Ordering the deposits that carry no index\<close>

definition add_sig :: "int \<Rightarrow> string \<Rightarrow> (int \<times> string list) list \<Rightarrow> (int \<times> string list) list" where
  "add_sig slot sig m =
     (if slot \<in> fst ` set m then map (\<lambda>(t, sigs). if t = slot then (t, set_add sig sigs) else (t, sigs)) m
      else m @ [(slot, [sig])])"

fun sigs_by_slot :: "(int \<times> string list) list \<Rightarrow> unplaced list \<Rightarrow> (int \<times> string list) list js" where
  "sigs_by_slot m [] = Returns m"
| "sigs_by_slot m (e # es) =
     (case un_slot e of
        None \<Rightarrow> Throws ''Cannot order deposit: the RPC did not report its slot.''
      | Some slot \<Rightarrow> sigs_by_slot (add_sig slot (un_signature e) m) es)"

definition slot_positions :: "(int \<Rightarrow> string list js) \<Rightarrow> int \<times> string list \<Rightarrow> (string \<times> nat) list js" where
  "slot_positions getBlock entry =
     (if length (snd entry) < 2 then Returns []
      else js_bind (getBlock (fst entry)) (\<lambda>block.
        js_map (\<lambda>s. case index_from s block of
            None \<Rightarrow> Throws ''Cannot order deposits in slot: not in the block.''
          | Some p \<Rightarrow> Returns (s, p)) (snd entry)))"

definition order_key :: "(string \<times> nat) list \<Rightarrow> unplaced \<Rightarrow> int \<times> nat \<times> nat" where
  "order_key positions e =
     (the (un_slot e), case map_of (rev positions) (un_signature e) of None \<Rightarrow> 0 | Some p \<Rightarrow> p, un_order e)"

definition chronological :: "(int \<Rightarrow> string list js) \<Rightarrow> unplaced list \<Rightarrow> int list js" where
  "chronological getBlock entries =
     js_bind (sigs_by_slot [] entries) (\<lambda>sets.
     js_bind (js_map (slot_positions getBlock) sets) (\<lambda>positions.
     Returns (map un_leaf (sort_key (order_key (concat positions)) entries))))"

subsection \<open>Scanning\<close>

datatype rpc_reply = RpcFailed string | RpcResult "raw_tx option"

text \<open>The RPC as one scan meets it: a page by its number, before and until; a transaction; a block.\<close>

record rebuild_rpc =
  rr_signatures :: "nat \<Rightarrow> string option \<Rightarrow> string option \<Rightarrow> sig_info list js"
  rr_transaction :: "string \<Rightarrow> rpc_reply js"
  rr_block :: "int \<Rightarrow> string list js"

record scan_result =
  sr_indexed :: "(int \<times> nat) list"
  sr_unindexed :: "int list"
  sr_newest :: "string option"

text \<open>The paging loop ends at an empty page, so it runs on fuel: None is out of fuel.\<close>

fun all_signatures :: "nat \<Rightarrow> rebuild_rpc \<Rightarrow> string option \<Rightarrow> nat \<Rightarrow> string option \<Rightarrow> sig_info list
    \<Rightarrow> sig_info list js option" where
  "all_signatures 0 net until_s k before acc = None"
| "all_signatures (Suc fuel) net until_s k before acc =
     (case rr_signatures net k before until_s of
        Throws e \<Rightarrow> Some (Throws e)
      | Returns [] \<Rightarrow> Some (Returns acc)
      | Returns (s # rest) \<Rightarrow>
          all_signatures fuel net until_s (Suc k) (Some (sg_signature (last (s # rest)))) (acc @ s # rest))"

definition fetch_tx :: "rebuild_rpc \<Rightarrow> sig_info \<Rightarrow> (string \<times> raw_tx option) js" where
  "fetch_tx net s =
     js_bind (rr_transaction net (sg_signature s)) (\<lambda>res.
       case res of
         RpcFailed msg \<Rightarrow> Throws (''getTransaction '' @ sg_signature s @ '' failed: '' @ msg)
       | RpcResult tx \<Rightarrow> Returns (sg_signature s, tx))"

record chain_codec =
  cc_decode :: "string \<Rightarrow> bytes js"
  cc_parseLogs :: "string list \<Rightarrow> parsed_event js list"

definition scan_transactions :: "chain_codec \<Rightarrow> (int \<Rightarrow> string list js) \<Rightarrow> string \<Rightarrow> string \<Rightarrow> string option
    \<Rightarrow> (string \<times> raw_tx option) list \<Rightarrow> scan_result js" where
  "scan_transactions cc getBlock programKey poolKey newest txs =
     js_bind (js_map (tx_deposits (cc_decode cc) (cc_parseLogs cc) programKey poolKey) txs) (\<lambda>found.
     js_bind (chronological getBlock (concat (map snd found))) (\<lambda>unindexed.
     Returns \<lparr>sr_indexed = concat (map fst found), sr_unindexed = unindexed, sr_newest = newest\<rparr>))"

definition scanDeposits :: "nat \<Rightarrow> chain_codec \<Rightarrow> rebuild_rpc \<Rightarrow> string \<Rightarrow> string \<Rightarrow> string option \<Rightarrow> scan_result js option" where
  "scanDeposits fuel cc net programKey poolKey until_s =
     map_option (\<lambda>sigs. js_bind sigs (\<lambda>all.
         js_bind (mapPool (fetch_tx net) (filter (\<lambda>s. \<not> sg_err s) (rev all))) (\<lambda>txs.
         scan_transactions cc (rr_block net) programKey poolKey
           (case all of [] \<Rightarrow> None | s # _ \<Rightarrow> Some (sg_signature s)) txs)))
       (all_signatures fuel net until_s 0 None [])"

subsection \<open>Filling the tree\<close>

definition placed :: "int list \<Rightarrow> (int \<times> nat) list \<Rightarrow> nat \<rightharpoonup> int" where
  "placed base indexed =
     foldl (\<lambda>m d. m(snd d \<mapsto> fst d)) (\<lambda>i. if i < length base then Some (base ! i) else None) indexed"

definition holes_of :: "(nat \<rightharpoonup> int) \<Rightarrow> nat \<Rightarrow> nat list" where
  "holes_of m n = filter (\<lambda>i. m i = None) [0..<n]"

definition fill_holes :: "(nat \<rightharpoonup> int) \<Rightarrow> nat \<Rightarrow> int list \<Rightarrow> nat \<rightharpoonup> int" where
  "fill_holes m n unindexed =
     (let holes = holes_of m n in
      if 0 < length holes \<and> length holes = length unindexed
      then foldl (\<lambda>m d. m(fst d \<mapsto> snd d)) m (zip holes unindexed) else m)"

definition assemble :: "int list \<Rightarrow> scan_result \<Rightarrow> nat \<Rightarrow> int list" where
  "assemble base scan n =
     (let m = fill_holes (placed base (sr_indexed scan)) n (sr_unindexed scan) in
      map the (takeWhile (\<lambda>x. x \<noteq> None) (map m [0..<n])))"

subsection \<open>The rebuild\<close>

definition buildTree :: "hash2 \<Rightarrow> int list \<Rightarrow> merkle_tree" where
  "buildTree h leaves = foldl (\<lambda>t x. fst (mt_insert h t x)) (new_tree h 20) leaves"

definition full_scan :: "nat \<Rightarrow> chain_codec \<Rightarrow> rebuild_rpc \<Rightarrow> string \<Rightarrow> string \<Rightarrow> nat
    \<Rightarrow> (int list \<times> string option) js option" where
  "full_scan fuel cc net programKey poolKey n =
     map_option (\<lambda>r. js_bind r (\<lambda>full. Returns (assemble [] full n, sr_newest full)))
       (scanDeposits fuel cc net programKey poolKey None)"

text \<open>
  The leaves before the check: the cache alone, the cache and what is new, or a full scan. The RPC
  may answer each of the up to three scans differently: \<open>nets j\<close> is the RPC the j-th scan meets.
\<close>

definition first_leaves :: "nat \<Rightarrow> chain_codec \<Rightarrow> (nat \<Rightarrow> rebuild_rpc) \<Rightarrow> string \<Rightarrow> string \<Rightarrow> bool \<Rightarrow> leaf_cache
    \<Rightarrow> pool_tree_state \<Rightarrow> json js option \<Rightarrow> ((int list \<times> string option) js \<times> json js option) option" where
  "first_leaves fuel cc nets programKey poolKey writable cached onChain stored =
     (let leaves = cached_leaves cached; n = nat (pt_nextIndex onChain) in
      if int (length leaves) = pt_nextIndex onChain then Some (Returns (leaves, lc_lastSignature cached), stored)
      else case scanDeposits fuel cc (nets 0) programKey poolKey (lc_lastSignature cached) of
          None \<Rightarrow> None
        | Some (Throws e) \<Rightarrow> Some (Throws e, stored)
        | Some (Returns scan) \<Rightarrow>
            (let newest = (case sr_newest scan of None \<Rightarrow> lc_lastSignature cached | Some s \<Rightarrow> Some s);
                 dense = assemble leaves scan n in
             if int (length dense) \<noteq> pt_nextIndex onChain
             then map_option (\<lambda>r. (r, clearCache writable stored)) (full_scan fuel cc (nets 1) programKey poolKey n)
             else Some (Returns (dense, newest), stored)))"

text \<open>The check against the chain, and one retry from a full scan when the cache held leaves.\<close>

definition verified_leaves :: "hash2 \<Rightarrow> nat \<Rightarrow> chain_codec \<Rightarrow> rebuild_rpc \<Rightarrow> string \<Rightarrow> string \<Rightarrow> bool \<Rightarrow> leaf_cache
    \<Rightarrow> bytes \<Rightarrow> nat \<Rightarrow> int list \<times> string option \<Rightarrow> json js option
    \<Rightarrow> ((merkle_tree \<times> int list \<times> string option) js \<times> json js option) option" where
  "verified_leaves h fuel cc net programKey poolKey writable cached poolData n first stored =
     (let tree = buildTree h (fst first) in
      case verifyTreeMatchesPool tree poolData of
        Returns m \<Rightarrow> Some (Returns (tree, first), stored)
      | Throws e \<Rightarrow>
          if lc_leaves cached = [] then Some (Throws e, stored)
          else map_option (\<lambda>r.
              (js_bind r (\<lambda>full. let tree' = buildTree h (fst full) in
                 js_bind (verifyTreeMatchesPool tree' poolData) (\<lambda>m. Returns (tree', full))), clearCache writable stored))
            (full_scan fuel cc net programKey poolKey n))"

text \<open>The result and what the storage holds afterwards, or None when a scan ran out of fuel.\<close>

definition rebuildMerkleTree :: "hash2 \<Rightarrow> nat \<Rightarrow> chain_codec \<Rightarrow> (nat \<Rightarrow> rebuild_rpc) \<Rightarrow> string \<Rightarrow> string \<Rightarrow> bool
    \<Rightarrow> account_info option js \<Rightarrow> json js option \<Rightarrow> (merkle_tree js \<times> json js option) option" where
  "rebuildMerkleTree h fuel cc nets programKey poolKey writable account stored =
     (case js_bind account (\<lambda>a. case a of
          None \<Rightarrow> Throws ''Pool account not found on-chain. Check the pool address in your note.''
        | Some info \<Rightarrow> js_bind (readPoolTreeState (acc_data info)) (\<lambda>onChain. Returns (acc_data info, onChain))) of
        Throws e \<Rightarrow> Some (Throws e, stored)
      | Returns (poolData, onChain) \<Rightarrow>
          (let cached = loadCache stored in
           case first_leaves fuel cc nets programKey poolKey writable cached onChain stored of
             None \<Rightarrow> None
           | Some (Throws e, stored') \<Rightarrow> Some (Throws e, stored')
           | Some (Returns first, stored') \<Rightarrow>
               (case verified_leaves h fuel cc (nets 2) programKey poolKey writable cached poolData
                   (nat (pt_nextIndex onChain)) first stored' of
                  None \<Rightarrow> None
                | Some (Throws e, stored'') \<Rightarrow> Some (Throws e, stored'')
                | Some (Returns (tree, leaves, newest), stored'') \<Rightarrow>
                    Some (Returns tree, saveCache writable leaves newest stored''))))"

subsection \<open>Only a verified tree is returned\<close>

lemma buildTree_eq: "buildTree h ls = build_tree h 20 ls"
  by (simp add: buildTree_def build_tree_def)

lemma nextIndex_build [simp]: "nextIndex (build_tree h d xs) = length xs"
  using build_tree_inv [of h d xs] by (auto simp: tree_inv_def nextIndex_def layers_of_leaves simp del: upt_Suc)

lemma verified_leaves_ok:
  assumes "verified_leaves h fuel cc net programKey poolKey w cached d n first st = Some (Returns (t, ls, s), st')"
  shows "t = build_tree h 20 ls \<and> (\<exists>m. verifyTreeMatchesPool t d = Returns m)"
proof (cases "verifyTreeMatchesPool (buildTree h (fst first)) d")
  case (Throws e)
  then show ?thesis
    using assms by (auto simp: verified_leaves_def buildTree_eq Let_def js_bind_eq_Returns split: if_splits)
next
  case (Returns m)
  then show ?thesis using assms by (auto simp: verified_leaves_def buildTree_eq Let_def)
qed

lemma rebuild_checked:
  assumes "rebuildMerkleTree h fuel cc nets programKey poolKey w account stored = Some (Returns t, stored')"
  shows "\<exists>info leaves sig st. account = Returns (Some info)
    \<and> t = build_tree h 20 leaves
    \<and> int (length leaves) = rnd (le_int (subarray (acc_data info) 88 96))
    \<and> root_of t \<in> set (ring_roots (acc_data info))
    \<and> stored' = saveCache w leaves sig st"
proof -
  obtain info oc where a: "account = Returns (Some info)" "readPoolTreeState (acc_data info) = Returns oc"
    using assms by (auto simp: rebuildMerkleTree_def js_bind_eq_Returns split: js.splits option.splits)
  obtain first st1 where f: "first_leaves fuel cc nets programKey poolKey w (loadCache stored) oc stored = Some (Returns first, st1)"
    using assms by (auto simp: rebuildMerkleTree_def a Let_def split: option.splits js.splits)
  obtain leaves sig st where v: "verified_leaves h fuel cc (nets 2) programKey poolKey w (loadCache stored) (acc_data info)
        (nat (pt_nextIndex oc)) first st1 = Some (Returns (t, leaves, sig), st)" "stored' = saveCache w leaves sig st"
    using assms by (auto simp: rebuildMerkleTree_def a f Let_def split: option.splits js.splits)
  have len: "POOL_MIN_LEN \<le> length (acc_data info)"
    using a(2) by (auto simp: readPoolTreeState_def split: if_splits)
  obtain m where m: "t = build_tree h 20 leaves" "verifyTreeMatchesPool t (acc_data info) = Returns m"
    using verified_leaves_ok [OF v(1)] by blast
  note ex = verifyTreeMatchesPool_exact [OF len, THEN iffD1, OF m(2)]
  have "root_of t \<in> set (ring_roots (acc_data info))" using ex by (metis length_ring_roots nth_mem)
  then show ?thesis using a(1) m(1) ex v(2) by auto
qed

text \<open>
  C17. Whatever the cache holds and whatever the RPC answers, the rebuild returns only a tree that was
  checked against the chain: it is the tree of exactly as many leaves as the pool's next\_index, its
  root is in the pool's ring of roots, and exactly those leaves are what is written back to the cache.
\<close>

theorem rebuild_returns_only_verified:
  assumes "rebuildMerkleTree h fuel cc nets programKey poolKey w account stored = Some (Returns t, stored')"
  shows "\<exists>info leaves sig st. account = Returns (Some info)
    \<and> t = build_tree h 20 leaves
    \<and> int (length leaves) = rnd (le_int (subarray (acc_data info) 88 96))
    \<and> root_of t \<in> set (ring_roots (acc_data info))
    \<and> stored' = saveCache w leaves sig st"
  using assms by (rule rebuild_checked)

text \<open>A pool with one deposit whose transaction carries no event, and its RPC.\<close>

definition silent_tx :: raw_tx where
  "silent_tx = \<lparr>rx_slot = Some 5, rx_keys = [''me'', ''prog'', ''pool''],
     rx_instructions = [\<lparr>ti_programIdIndex = 1, ti_data = ''d'', ti_accounts = [2, 0]\<rparr>],
     rx_meta = Some \<lparr>rm_err = False, rm_logs = [], rm_inner = [], rm_writable = [], rm_readonly = []\<rparr>\<rparr>"

definition silent_codec :: chain_codec where
  "silent_codec = \<lparr>cc_decode = (\<lambda>s. Returns (merkle_DEPOSIT_DISCRIMINATOR @ replicate 31 0 @ [7])), cc_parseLogs = (\<lambda>l. [])\<rparr>"

definition silent_history :: "sig_info list" where
  "silent_history = [\<lparr>sg_signature = ''s'', sg_blockTime = None, sg_err = False\<rparr>]"

definition silent_net :: rebuild_rpc where
  "silent_net = \<lparr>rr_signatures = (\<lambda>k before until_s. Returns (if before = None then silent_history else [])),
     rr_transaction = (\<lambda>s. Returns (RpcResult (Some silent_tx))), rr_block = (\<lambda>s. Returns [])\<rparr>"

lemma silent_scan: "scanDeposits 2 silent_codec silent_net ''prog'' ''pool'' until_s
    = Some (Returns \<lparr>sr_indexed = [], sr_unindexed = [7], sr_newest = Some ''s''\<rparr>)"
  by code_simp

definition silent_pool :: account_info where
  "silent_pool = \<lparr>acc_owner = [], acc_data = one_deposit_pool, acc_lamports = 0\<rparr>"

lemma silent_pool_tree: "verifyTreeMatchesPool (build_tree (\<lambda>a b. 7) 20 [7]) one_deposit_pool
    = Returns \<lparr>tm_root = 7, tm_leafCount = 1, tm_rootIndex = 0\<rparr>"
proof -
  have p: "POOL_MIN_LEN \<le> length one_deposit_pool" by (simp add: one_deposit_pool_props tree_offsets)
  have ring_ne: "ring_roots one_deposit_pool \<noteq> []" by (metis length_ring_roots list.size(3) zero_neq_numeral)
  have "le_int (1 # replicate 7 (0 :: byte)) = 1" "root_of (build_tree (\<lambda>a b. 7) 20 [7]) = 7" by code_simp+
  then show ?thesis
    unfolding verifyTreeMatchesPool_def readPoolTreeState_eq [OF p]
    using one_deposit_pool_props(3) by (simp add: one_deposit_pool_props rnd_exact Let_def index_of_first ring_ne)
qed

lemma silent_pool_state: "\<exists>oc. readPoolTreeState one_deposit_pool = Returns oc \<and> pt_nextIndex oc = 1"
proof -
  have p: "POOL_MIN_LEN \<le> length one_deposit_pool" by (simp add: one_deposit_pool_props tree_offsets)
  have "le_int (1 # replicate 7 (0 :: byte)) = 1" by code_simp
  then show ?thesis by (simp add: readPoolTreeState_eq [OF p] one_deposit_pool_props rnd_exact)
qed

lemma silent_rebuild:
  "rebuildMerkleTree (\<lambda>a b. 7) 2 silent_codec (\<lambda>j. silent_net) ''prog'' ''pool'' True (Returns (Some silent_pool)) None
     = Some (Returns (build_tree (\<lambda>a b. 7) 20 [7]), saveCache True [7] (Some ''s'') None)"
proof -
  obtain oc where oc: "readPoolTreeState one_deposit_pool = Returns oc" "pt_nextIndex oc = 1"
    using silent_pool_state by blast
  have as: "assemble [] \<lparr>sr_indexed = [], sr_unindexed = [7], sr_newest = Some ''s''\<rparr> 1 = [7]" by code_simp
  have "first_leaves 2 silent_codec (\<lambda>j. silent_net) ''prog'' ''pool'' True cold_cache oc None
      = Some (Returns ([7], Some ''s''), None)"
    by (simp add: first_leaves_def oc cold_cache_def cached_leaves_def silent_scan as [unfolded One_nat_def] Let_def)
  then show ?thesis
    by (simp add: rebuildMerkleTree_def silent_pool_def oc loadCache_def verified_leaves_def buildTree_eq silent_pool_tree)
qed

lemma rebuild_returns_only_verified_witness:
  "root_of (build_tree (\<lambda>a b. 7) 20 [7]) \<in> set (ring_roots one_deposit_pool)"
  using rebuild_returns_only_verified [OF silent_rebuild] by (auto simp: silent_pool_def)

subsection \<open>Concurrency does not change the result\<close>

definition busy :: "'b pool_run \<Rightarrow> nat \<Rightarrow> nat \<Rightarrow> bool" where
  "busy st w i \<longleftrightarrow> w < length (pr_workers st) \<and> pr_workers st ! w = Busy i"

definition pool_run_inv :: "('a \<Rightarrow> 'b js) \<Rightarrow> 'a list \<Rightarrow> 'b pool_run \<Rightarrow> bool" where
  "pool_run_inv f items st \<longleftrightarrow>
     (\<forall>i<length items. i < pr_next st \<longrightarrow> (\<exists>w. busy st w i) \<or> (\<exists>y. pr_results st i = Some y \<and> f (items ! i) = Returns y))
     \<and> (\<forall>i y. pr_results st i = Some y \<longrightarrow> i < length items \<and> i < pr_next st)
     \<and> pr_completed st = card (dom (pr_results st))
     \<and> (\<forall>w i. busy st w i \<longrightarrow> i < length items \<and> i < pr_next st \<and> pr_results st i = None)
     \<and> (\<forall>v w i. busy st v i \<longrightarrow> busy st w i \<longrightarrow> v = w)
     \<and> (Stopped \<in> set (pr_workers st) \<longrightarrow> length items \<le> pr_next st)"

lemma pool_run_invD:
  assumes "pool_run_inv f items st"
  shows "i < length items \<Longrightarrow> i < pr_next st \<Longrightarrow> (\<exists>w. busy st w i) \<or> (\<exists>y. pr_results st i = Some y \<and> f (items ! i) = Returns y)"
    and "pr_results st i = Some y \<Longrightarrow> i < length items \<and> i < pr_next st"
    and "pr_completed st = card (dom (pr_results st))"
    and "busy st w i \<Longrightarrow> i < length items \<and> i < pr_next st \<and> pr_results st i = None"
    and "busy st v i \<Longrightarrow> busy st w i \<Longrightarrow> v = w"
    and "Stopped \<in> set (pr_workers st) \<Longrightarrow> length items \<le> pr_next st"
  using assms unfolding pool_run_inv_def by blast+

lemma pool_run_invI:
  assumes "\<And>i. i < length items \<Longrightarrow> i < pr_next st \<Longrightarrow> (\<exists>w. busy st w i) \<or> (\<exists>y. pr_results st i = Some y \<and> f (items ! i) = Returns y)"
    and "\<And>i y. pr_results st i = Some y \<Longrightarrow> i < length items \<and> i < pr_next st"
    and "pr_completed st = card (dom (pr_results st))"
    and "\<And>w i. busy st w i \<Longrightarrow> i < length items \<and> i < pr_next st \<and> pr_results st i = None"
    and "\<And>v w i. busy st v i \<Longrightarrow> busy st w i \<Longrightarrow> v = w"
    and "Stopped \<in> set (pr_workers st) \<Longrightarrow> length items \<le> pr_next st"
  shows "pool_run_inv f items st"
  unfolding pool_run_inv_def using assms by blast

lemma pool_run_inv_start: "pool_run_inv f items (pool_start limit items)"
  by (rule pool_run_invI) (auto simp: pool_start_def busy_def split: if_splits)

lemma pool_run_inv_take:
  assumes inv: "pool_run_inv f items st" and "w < length (pr_workers st)" "pr_workers st ! w = Idle"
    and "worker_step f items w st = Returns st'"
  shows "pool_run_inv f items st'"
proof -
  let ?n = "pr_next st"
  have st': "st' = st\<lparr>pr_next := ?n + 1, pr_workers := (pr_workers st)[w := (if length items \<le> ?n then Stopped else Busy ?n)]\<rparr>"
    using assms(3,4) by (simp add: worker_step_def Let_def)
  have b: "busy st' v i \<longleftrightarrow> busy st v i \<or> (v = w \<and> i = ?n \<and> ?n < length items)" for v i
    using assms(2,3) by (auto simp: busy_def st' nth_list_update)
  note D = pool_run_invD [OF inv]
  show ?thesis
  proof (rule pool_run_invI)
    fix i assume i: "i < length items" "i < pr_next st'"
    show "(\<exists>v. busy st' v i) \<or> (\<exists>y. pr_results st' i = Some y \<and> f (items ! i) = Returns y)"
    proof (cases "i = ?n")
      case False
      then have "i < ?n" using i by (simp add: st')
      then show ?thesis using D(1) [OF i(1)] b by (auto simp: st')
    qed (use b i in blast)
  next
    fix i y assume "pr_results st' i = Some y"
    then show "i < length items \<and> i < pr_next st'" using D(2) [of i y] by (simp add: st')
  next
    show "pr_completed st' = card (dom (pr_results st'))" using D(3) by (simp add: st')
  next
    fix v i assume "busy st' v i"
    then show "i < length items \<and> i < pr_next st' \<and> pr_results st' i = None"
      using D(4) [of v i] D(2) [of ?n] b by (cases "pr_results st ?n") (auto simp: st')
  next
    fix u v i assume "busy st' u i" "busy st' v i"
    then show "u = v" using D(5) [of u i v] D(4) [of u ?n] D(4) [of v ?n] b by auto
  next
    assume "Stopped \<in> set (pr_workers st')"
    then show "length items \<le> pr_next st'"
      using D(6) set_update_subset_insert [of "pr_workers st" w] by (auto simp: st' split: if_splits)
  qed
qed

lemma pool_run_inv_finish:
  assumes inv: "pool_run_inv f items st" and "w < length (pr_workers st)" "pr_workers st ! w = Busy i"
    and "worker_step f items w st = Returns st'"
  shows "pool_run_inv f items st'"
proof -
  obtain y where y: "f (items ! i) = Returns y" and st':
      "st' = st\<lparr>pr_results := (pr_results st)(i \<mapsto> y), pr_completed := pr_completed st + 1, pr_workers := (pr_workers st)[w := Idle]\<rparr>"
    using assms(3,4) by (auto simp: worker_step_def js_bind_eq_Returns)
  note D = pool_run_invD [OF inv]
  have bw: "busy st w i" using assms(2,3) by (simp add: busy_def)
  note i = D(4) [OF bw]
  have b: "busy st' v j \<longleftrightarrow> busy st v j \<and> v \<noteq> w" for v j
    using assms(2) by (auto simp: busy_def st' nth_list_update)
  have bj: "busy st w j \<Longrightarrow> j = i" for j using assms(3) by (simp add: busy_def)
  have "dom (pr_results st) \<subseteq> {..<length items}" using D(2) by auto
  then have fin: "finite (dom (pr_results st))" by (rule finite_subset) simp
  have c: "card (dom ((pr_results st)(i \<mapsto> y))) = card (dom (pr_results st)) + 1"
    using fin i by (simp add: domIff)
  show ?thesis
  proof (rule pool_run_invI)
    fix j assume j: "j < length items" "j < pr_next st'"
    then have "(\<exists>v. busy st v j) \<or> (\<exists>y. pr_results st j = Some y \<and> f (items ! j) = Returns y)"
      using D(1) [OF j(1)] by (simp add: st')
    then show "(\<exists>v. busy st' v j) \<or> (\<exists>y. pr_results st' j = Some y \<and> f (items ! j) = Returns y)"
      using b bj y by (cases "j = i") (auto simp: st')
  next
    fix j z assume "pr_results st' j = Some z"
    then show "j < length items \<and> j < pr_next st'" using D(2) [of j z] i by (auto simp: st' split: if_splits)
  next
    show "pr_completed st' = card (dom (pr_results st'))" using D(3) c by (simp add: st')
  next
    fix v j assume v: "busy st' v j"
    then have "j \<noteq> i" using D(5) [of v i w] bw b by auto
    then show "j < length items \<and> j < pr_next st' \<and> pr_results st' j = None" using D(4) [of v j] v b by (simp add: st')
  next
    fix u v j assume "busy st' u j" "busy st' v j"
    then show "u = v" using D(5) b by blast
  next
    assume "Stopped \<in> set (pr_workers st')"
    then have "Stopped \<in> set (pr_workers st)" using set_update_subset_insert [of "pr_workers st" w Idle] by (auto simp: st')
    then show "length items \<le> pr_next st'" using D(6) by (simp add: st')
  qed
qed

lemma pool_run_inv_step:
  assumes "pool_run_inv f items st" "w < length (pr_workers st)" "pr_workers st ! w \<noteq> Stopped"
    and "worker_step f items w st = Returns st'"
  shows "pool_run_inv f items st'"
proof (cases "pr_workers st ! w")
  case Idle
  then show ?thesis using pool_run_inv_take assms by blast
next
  case (Busy i)
  then show ?thesis using pool_run_inv_finish assms by blast
qed (use assms in simp)

lemma pool_reaches_inv:
  "pool_reaches f limit items n st \<Longrightarrow> pool_run_inv f items st \<and> length (pr_workers st) = min limit (length items)"
proof (induction rule: pool_reaches.induct)
  case started
  then show ?case by (simp add: pool_run_inv_start) (simp add: pool_start_def)
next
  case (stepped n st w st')
  have "length (pr_workers st') = length (pr_workers st)"
    using stepped(4) by (auto simp: worker_step_def Let_def js_bind_eq_Returns split: worker.splits)
  then show ?case using stepped pool_run_inv_step [of f items st w st'] by simp
qed

primrec worker_work :: "worker \<Rightarrow> nat" where
  "worker_work Idle = 1"
| "worker_work (Busy i) = 2"
| "worker_work Stopped = 0"

definition pool_work :: "nat \<Rightarrow> 'b pool_run \<Rightarrow> nat" where
  "pool_work n st = 3 * (n - pr_next st) + sum_list (map worker_work (pr_workers st))"

lemma sum_list_update_nat: "i < length xs \<Longrightarrow> sum_list (map g (xs[i := y])) + g (xs ! i) = sum_list (map g xs) + (g y :: nat)"
  by (induction xs arbitrary: i) (auto split: nat.splits)

lemma pool_work_step:
  assumes "w < length (pr_workers st)" "pr_workers st ! w \<noteq> Stopped" "worker_step f items w st = Returns st'"
  shows "pool_work (length items) st' < pool_work (length items) st"
proof -
  note u = sum_list_update_nat [OF assms(1), of worker_work]
  show ?thesis
  proof (cases "pr_workers st ! w")
    case Idle
    let ?x = "if length items \<le> pr_next st then Stopped else Busy (pr_next st)"
    have "st' = st\<lparr>pr_next := pr_next st + 1, pr_workers := (pr_workers st)[w := ?x]\<rparr>"
      using assms(3) Idle by (simp add: worker_step_def Let_def)
    then show ?thesis using u [of ?x] Idle by (simp add: pool_work_def split: if_splits)
  next
    case (Busy i)
    then show ?thesis
      using assms(3) u [of Idle] by (auto simp: worker_step_def js_bind_eq_Returns pool_work_def)
  qed (use assms(2) in simp)
qed

lemma pool_reaches_bound: "pool_reaches f limit items n st \<Longrightarrow> n + pool_work (length items) st \<le> 4 * length items"
proof (induction rule: pool_reaches.induct)
  case started
  then show ?case by (simp add: pool_start_def pool_work_def sum_list_replicate)
next
  case (stepped n st w st')
  then show ?case using pool_work_step [of w st f items st'] by linarith
qed

text \<open>
  C25. Fetching with bounded concurrency, under every interleaving of the workers: a run takes at most
  four steps per item, no more than the limit of calls are in flight, and when every worker has
  finished and no call failed, the result array holds each item's answer at the item's own position
  and every item was counted once: the answer is that of the sequential loop.
\<close>

theorem mapPool_any_interleaving:
  assumes "pool_reaches f limit items n st" "0 < limit"
  shows "n \<le> 4 * length items \<and> length (pr_workers st) \<le> limit
    \<and> ((\<forall>w<length (pr_workers st). pr_workers st ! w = Stopped) \<longrightarrow>
        (\<exists>ys. mapPool f items = Returns ys \<and> map (pr_results st) [0..<length items] = map Some ys
           \<and> pr_completed st = length items))"
proof -
  note inv = pool_reaches_inv [OF assms(1)]
  have fin: "\<exists>ys. mapPool f items = Returns ys \<and> map (pr_results st) [0..<length items] = map Some ys
      \<and> pr_completed st = length items" if s: "\<forall>w<length (pr_workers st). pr_workers st ! w = Stopped"
  proof -
    have all: "length items \<le> pr_next st"
    proof (cases items)
      case (Cons x xs)
      then have "0 < length (pr_workers st)" using inv assms(2) by simp
      then have "Stopped \<in> set (pr_workers st)" using s by (metis nth_mem)
      then show ?thesis using pool_run_invD(6) [OF conjunct1 [OF inv]] by blast
    qed simp
    have r: "\<exists>y. pr_results st i = Some y \<and> f (items ! i) = Returns y" if "i < length items" for i
      using pool_run_invD(1) [OF conjunct1 [OF inv] that] s that all by (auto simp: busy_def)
    define ys where "ys = map (\<lambda>i. the (pr_results st i)) [0..<length items]"
    have "js_map f items = Returns ys"
      using r by (force simp: js_map_list_all2 list_all2_conv_all_nth ys_def)
    moreover have "map (pr_results st) [0..<length items] = map Some ys" using r by (force simp: ys_def)
    moreover have "dom (pr_results st) = {..<length items}"
      using r pool_run_invD(2) [OF conjunct1 [OF inv]] by (auto simp: dom_def) (metis r)
    ultimately show ?thesis using pool_run_invD(3) [OF conjunct1 [OF inv]] unfolding mapPool_def by auto
  qed
  then show ?thesis using inv pool_reaches_bound [OF assms(1)] by auto
qed

lemma mapPool_any_interleaving_witness:
  "\<exists>st. pool_reaches (\<lambda>x :: int. Returns (x + 1)) 1 [5] 3 st \<and> (\<exists>ys. map (pr_results st) [0..<1] = map Some ys \<and> mapPool (\<lambda>x. Returns (x + 1)) [5 :: int] = Returns ys)"
proof -
  let ?f = "\<lambda>x :: int. Returns (x + 1) :: int js"
  let ?e = "\<lparr>pr_next = 2, pr_results = [0 \<mapsto> 6], pr_completed = 1, pr_workers = [Stopped]\<rparr> :: int pool_run"
  have 1: "pool_reaches ?f 1 [5] 1 \<lparr>pr_next = 1, pr_results = Map.empty, pr_completed = 0, pr_workers = [Busy 0]\<rparr>"
    using pool_reaches.stepped [OF pool_reaches.started, of 0 1 "[5]" ?f] by (simp add: pool_start_def worker_step_def Let_def)
  have 2: "pool_reaches ?f 1 [5] 2 \<lparr>pr_next = 1, pr_results = [0 \<mapsto> 6], pr_completed = 1, pr_workers = [Idle]\<rparr>"
    using pool_reaches.stepped [OF 1, of 0] by (simp add: worker_step_def numeral_2_eq_2)
  have 3: "pool_reaches ?f 1 [5] 3 ?e"
    using pool_reaches.stepped [OF 2, of 0 ?e] by (simp add: worker_step_def Let_def)
  show ?thesis using mapPool_any_interleaving [OF 3] 3 by auto
qed

subsection \<open>Paging\<close>

definition scan_page_size :: nat where "scan_page_size = 1000"

lemma all_signatures_pages:
  assumes pages: "\<And>k before. rr_signatures net k before u = Returns (take scan_page_size (older_than before hist))"
    and "distinct (map sg_signature hist)" "hist = pre @ rest" "length rest < fuel"
    and "before = (if pre = [] then None else Some (sg_signature (last pre)))"
  shows "all_signatures fuel net u k before pre = Some (Returns hist)"
  using assms(3-)
proof (induction fuel arbitrary: pre rest before k)
  case (Suc fuel)
  have o: "older_than before hist = rest"
    using Suc.prems(1,3) older_than_append [of pre rest] assms(2) by (auto simp: older_than_def)
  show ?case
  proof (cases rest)
    case Nil
    then show ?thesis using pages [of k before] o Suc.prems(1) by simp
  next
    case (Cons s ss)
    define page where "page = take scan_page_size rest"
    obtain t ts where p: "page = t # ts" using Cons by (cases page) (auto simp: page_def scan_page_size_def)
    have "all_signatures fuel net u (Suc k) (Some (sg_signature (last page))) (pre @ page) = Some (Returns hist)"
    proof (rule Suc.IH [of _ "drop scan_page_size rest"])
      show "hist = (pre @ page) @ drop scan_page_size rest" using Suc.prems(1) by (simp add: page_def)
      show "length (drop scan_page_size rest) < fuel" using Suc.prems(2) Cons by (simp add: scan_page_size_def)
    qed (simp add: p)
    then show ?thesis using pages [of k before] o p by (simp add: page_def)
  qed
qed simp

subsection \<open>Filling the tree\<close>

lemma placed_lookup:
  "placed base ds i = (case map_of (rev (map (\<lambda>d. (snd d, fst d)) ds)) i of
      Some l \<Rightarrow> Some l | None \<Rightarrow> if i < length base then Some (base ! i) else None)"
proof (induction ds rule: rev_induct)
  case (snoc d ds)
  then show ?case by (auto simp: placed_def)
qed (simp add: placed_def)

lemma zip_updates: "distinct hs \<Longrightarrow> length hs = length vs \<Longrightarrow>
  foldl (\<lambda>m d. m(fst d \<mapsto> snd d)) m (zip hs vs) i = (case map_of (zip hs vs) i of Some v \<Rightarrow> Some v | None \<Rightarrow> m i)"
proof (induction hs vs arbitrary: m rule: list_induct2')
  case (4 h hs v vs)
  then have "map_of (zip hs vs) h = None" by (simp add: map_of_zip_is_None)
  then show ?case using 4 by (cases "i = h") (simp_all split: option.splits)
qed simp_all

lemma assemble_total:
  assumes "\<And>i. i < n \<Longrightarrow> fill_holes (placed base (sr_indexed scan)) n (sr_unindexed scan) i = Some (ls ! i)" "length ls = n"
  shows "assemble base scan n = ls"
proof -
  have m: "map (fill_holes (placed base (sr_indexed scan)) n (sr_unindexed scan)) [0..<n] = map Some ls"
    using assms by (intro nth_equalityI) simp_all
  have "takeWhile (\<lambda>x. x \<noteq> None) (map Some ls) = map Some ls" by (subst takeWhile_eq_all_conv) auto
  then show ?thesis unfolding assemble_def Let_def m by (simp only: map_map o_def option.sel map_ident)
qed

lemma fill_holes_right:
  assumes "\<And>i. i < n \<Longrightarrow> m i = None \<or> m i = Some (ls ! i)" and "xs = map (\<lambda>i. ls ! i) (holes_of m n)" "i < n"
  shows "fill_holes m n xs i = Some (ls ! i)"
proof (cases "m i")
  case None
  then have h: "i \<in> set (holes_of m n)" using assms(3) by (simp add: holes_of_def)
  have d: "distinct (holes_of m n)" by (simp add: holes_of_def)
  have "map_of (zip (holes_of m n) xs) i = Some (ls ! i)"
    using h assms(2) by (simp add: map_of_zip_map)
  then show ?thesis using h assms(2) zip_updates [OF d, of xs m i] by (auto simp: fill_holes_def Let_def)
next
  case (Some l)
  then have h: "i \<notin> set (holes_of m n)" by (simp add: holes_of_def)
  have d: "distinct (holes_of m n)" by (simp add: holes_of_def)
  have "fill_holes m n xs i = m i"
  proof (cases "length (holes_of m n) = length xs")
    case True
    then have "map_of (zip (holes_of m n) xs) i = None" using h by (simp add: map_of_zip_is_None)
    then show ?thesis using zip_updates [OF d True, of m i] by (auto simp: fill_holes_def Let_def)
  qed (simp add: fill_holes_def)
  then show ?thesis using Some assms(1) [OF assms(3)] by simp
qed

lemma placed_cases:
  assumes "length ls = n" "base = take k ls" "\<forall>d\<in>set ds. fst d = ls ! snd d" "i < n"
  shows "placed base ds i = (if i < k \<or> i \<in> snd ` set ds then Some (ls ! i) else None)"
proof (cases "map_of (rev (map (\<lambda>d. (snd d, fst d)) ds)) i")
  case None
  then have "i \<notin> snd ` set ds" by (force simp: map_of_eq_None_iff)
  then show ?thesis using None assms(1,2,4) by (simp add: placed_lookup)
next
  case (Some l)
  then have "(l, i) \<in> set ds" by (auto dest!: map_of_SomeD)
  then show ?thesis using Some assms(3) by (force simp: placed_lookup)
qed

lemma assemble_holes:
  assumes "length ls = n" "base = take k ls" "\<forall>d\<in>set (sr_indexed scan). fst d = ls ! snd d"
  shows "holes_of (placed base (sr_indexed scan)) n = filter (\<lambda>i. k \<le> i \<and> i \<notin> snd ` set (sr_indexed scan)) [0..<n]"
  unfolding holes_of_def by (rule filter_cong) (auto simp: placed_cases [OF assms])

lemma assemble_right:
  assumes "length ls = n" "base = take k ls" "\<forall>d\<in>set (sr_indexed scan). fst d = ls ! snd d"
    and "sr_unindexed scan = map (\<lambda>i. ls ! i) (filter (\<lambda>i. k \<le> i \<and> i \<notin> snd ` set (sr_indexed scan)) [0..<n])"
  shows "assemble base scan n = ls"
  by (rule assemble_total [OF fill_holes_right [OF _ assms(4) [folded assemble_holes [OF assms(1-3)]]] assms(1)])
    (auto simp: placed_cases [OF assms(1-3)])

text \<open>
  The merge recovers the chain's leaves: when the cached leaves are a prefix of them, each event
  index names its own leaf, and the deposits without an index are, in order, the leaves at the
  positions neither covers, the assembled leaves are exactly the chain's, however many deposits came
  without an index. When their number differs from the number of gaps, nothing is guessed: the
  result is the known leaves up to the first gap.
\<close>

theorem assemble_recovers_leaves:
  assumes "length ls = n" "base = take k ls"
    and "\<forall>d\<in>set (sr_indexed scan). fst d = ls ! snd d"
  shows "(sr_unindexed scan = map (\<lambda>i. ls ! i) (filter (\<lambda>i. k \<le> i \<and> i \<notin> snd ` set (sr_indexed scan)) [0..<n])
      \<longrightarrow> assemble base scan n = ls)
    \<and> (length (sr_unindexed scan) \<noteq> length (holes_of (placed base (sr_indexed scan)) n)
      \<longrightarrow> assemble base scan n = take (length (assemble base scan n)) ls
        \<and> (\<forall>i<length (assemble base scan n). i < k \<or> i \<in> snd ` set (sr_indexed scan)))"
proof -
  let ?m = "placed base (sr_indexed scan)"
  note c = placed_cases [OF assms]
  note h = assemble_holes [OF assms]
  have 1: "assemble base scan n = ls" if "sr_unindexed scan = map (\<lambda>i. ls ! i) (holes_of ?m n)"
    by (rule assemble_right [OF assms]) (use that h in simp)
  have 2: "assemble base scan n = take (length (assemble base scan n)) ls
      \<and> (\<forall>i<length (assemble base scan n). i < k \<or> i \<in> snd ` set (sr_indexed scan))"
    if "length (sr_unindexed scan) \<noteq> length (holes_of ?m n)"
  proof -
    let ?t = "takeWhile (\<lambda>x. x \<noteq> None) (map ?m [0..<n])"
    have a: "assemble base scan n = map the ?t" using that by (simp add: assemble_def fill_holes_def Let_def)
    have l: "length ?t \<le> n" using length_takeWhile_le [of "\<lambda>x. x \<noteq> None" "map ?m [0..<n]"] by simp
    have e: "?t ! i = ?m i \<and> ?m i \<noteq> None" if "i < length ?t" for i
    proof -
      have "?t ! i = map ?m [0..<n] ! i" by (rule takeWhile_nth [OF that])
      moreover have "?t ! i \<noteq> None" using set_takeWhileD [OF nth_mem [OF that]] by (rule conjunct2)
      ultimately show ?thesis using that l by simp
    qed
    have v: "the (?t ! i) = ls ! i \<and> (i < k \<or> i \<in> snd ` set (sr_indexed scan))" if "i < length ?t" for i
      using e [OF that] c [of i] that l by (auto split: if_splits)
    have "map the ?t = take (length ?t) ls" using v l assms(1) by (intro nth_equalityI) simp_all
    then show ?thesis unfolding a length_map using v by blast
  qed
  show ?thesis using 1 2 h by simp
qed

lemma assemble_recovers_leaves_witness:
  "assemble [4] \<lparr>sr_indexed = [(6, 2)], sr_unindexed = [5, 7], sr_newest = None\<rparr> 4 = [4, 5, 6, 7]"
  using assemble_recovers_leaves [of "[4, 5, 6, 7]" 4 "[4]" 1 "\<lparr>sr_indexed = [(6, 2)], sr_unindexed = [5, 7], sr_newest = None\<rparr>"]
  by (simp add: upt_conv_Cons)

end
