(* ===== verification/TreeHonest.thy ===== *)
theory TreeHonest
  imports TreeRebuild
begin

text \<open>
  What the rebuild of app/src/utils/merkle.ts achieves against the chain, beyond the check itself.
  Soundness: an accepted tree is the pool's own tree at some moment of its history, or two different
  inputs of the hash collide. Completeness: with an RPC that serves the pool's history truthfully, the
  rebuild always succeeds, whatever the cache holds and however many deposits carry no event.
\<close>

subsection \<open>An accepted tree is a moment of the pool\<close>

text \<open>
  A collision between two trees: at one position the parents agree and the children differ.
\<close>

definition hash_collision :: "hash2 \<Rightarrow> nat \<Rightarrow> int list \<Rightarrow> int list \<Rightarrow> bool" where
  "hash_collision h d xs ys \<longleftrightarrow>
     (\<exists>l<d. \<exists>i<2 ^ d. h (spec_node h xs l (2 * i)) (spec_node h xs l (2 * i + 1)) = h (spec_node h ys l (2 * i)) (spec_node h ys l (2 * i + 1))
        \<and> (spec_node h xs l (2 * i), spec_node h xs l (2 * i + 1)) \<noteq> (spec_node h ys l (2 * i), spec_node h ys l (2 * i + 1)))"

lemma spec_node_determines:
  assumes "\<not> hash_collision h d xs ys" "spec_node h xs l i = spec_node h ys l i" "l \<le> d" "(i + 1) * 2 ^ l \<le> 2 ^ d" "j < 2 ^ l"
  shows "spec_node h xs 0 (i * 2 ^ l + j) = spec_node h ys 0 (i * 2 ^ l + j)"
  using assms(2-)
proof (induction l arbitrary: i j)
  case (Suc l)
  have "(i + 1) * 1 \<le> (i + 1) * 2 ^ Suc l" by (rule mult_le_mono2) simp
  then have "(i + 1) * 1 \<le> 2 ^ d" using Suc.prems(3) by (rule order_trans)
  then have i: "i < 2 ^ d" by simp
  have eq: "spec_node h xs l (2 * i) = spec_node h ys l (2 * i)" "spec_node h xs l (2 * i + 1) = spec_node h ys l (2 * i + 1)"
    using assms(1) Suc.prems(1,2) i unfolding hash_collision_def by (auto dest!: spec [of _ l])
  have b: "(2 * i + 1) * 2 ^ l \<le> 2 ^ d" "(2 * i + 1 + 1) * 2 ^ l \<le> 2 ^ d"
    using Suc.prems(3) by (simp_all add: algebra_simps)
  show ?case
  proof (cases "j < 2 ^ l")
    case True
    then show ?thesis using Suc.IH [OF eq(1) _ b(1), of j] Suc.prems(2) by (simp add: algebra_simps)
  next
    case False
    then show ?thesis using Suc.IH [OF eq(2) _ b(2), of "j - 2 ^ l"] Suc.prems(2,4) by (simp add: algebra_simps)
  qed
qed simp

lemma spec_root_determines:
  assumes "spec_root h d xs = spec_root h d ys" "\<not> hash_collision h d xs ys" "length xs \<le> 2 ^ d" "length ys \<le> length xs"
  shows "xs = ys @ replicate (length xs - length ys) 0"
proof (rule nth_equalityI)
  fix i assume i: "i < length xs"
  then have "spec_node h xs 0 i = spec_node h ys 0 i"
    using spec_node_determines [OF assms(2), of d 0 i] assms(1,3) by (simp add: spec_root_def)
  then show "xs ! i = (ys @ replicate (length xs - length ys) 0) ! i" using i by (auto simp: nth_append)
qed (use assms(4) in simp)


text \<open>
  An accepted tree is the pool's: suppose the nonzero roots of the pool's ring are roots of the tree at
  moments of its history, after its first k deposits. Then, whatever the cache holds and whatever the
  RPC answers, the leaves of a rebuilt tree are the first k deposits of some such moment, followed by
  zeros up to next\_index, or the hash collides between the two trees, or the two halves of the rebuilt
  tree hash to zero, like an unused place of the ring. So an RPC that forges, drops or reorders deposits
  cannot get a foreign leaf accepted; and unless it invents deposits of the value zero, which the root does
  not distinguish from empty places, the tree holds exactly the pool's deposits.
\<close>

lemma rebuild_is_pool_history:
  assumes "rebuildMerkleTree h fuel cc nets programKey poolKey w (Returns (Some info)) stored = Some (Returns t, stored')"
    and "rnd (le_int (subarray (acc_data info) 88 96)) = int (length deposits)" "length deposits \<le> 2 ^ 20"
    and "\<forall>r\<in>set (ring_roots (acc_data info)) - {0}. \<exists>k\<le>length deposits. r = spec_root h 20 (take k deposits)"
  shows "\<exists>leaves k. t = build_tree h 20 leaves \<and> length leaves = length deposits \<and> k \<le> length deposits
    \<and> (h (spec_node h leaves 19 0) (spec_node h leaves 19 1) = 0
       \<or> hash_collision h 20 leaves (take k deposits)
       \<or> leaves = take k deposits @ replicate (length deposits - k) 0 \<and> (0 \<notin> set leaves \<longrightarrow> leaves = deposits))"
proof -
  obtain leaves where l: "t = build_tree h 20 leaves" "length leaves = length deposits" "root_of t \<in> set (ring_roots (acc_data info))"
    using rebuild_checked [OF assms(1)] assms(2) by auto
  have rt: "root_of t = spec_root h 20 leaves" using l(1) root_of_inv [OF build_tree_inv] by metis
  have halves: "spec_root h 20 leaves = h (spec_node h leaves 19 0) (spec_node h leaves 19 1)"
    using spec_node.simps(2) [of h leaves 19 0] by (simp add: spec_root_def)
  show ?thesis
  proof (cases "root_of t = 0")
    case True
    then show ?thesis using l(1,2) rt halves by (intro exI [of _ leaves] exI [of _ 0]) simp
  next
    case False
    then obtain k where k: "k \<le> length deposits" "root_of t = spec_root h 20 (take k deposits)"
      using assms(4) l(3) by blast
    have "spec_root h 20 leaves = spec_root h 20 (take k deposits)" using k(2) rt by simp
    then have "leaves = take k deposits @ replicate (length leaves - length (take k deposits)) 0"
      if "\<not> hash_collision h 20 leaves (take k deposits)"
      by (rule spec_root_determines) (use that l(2) assms(3) k(1) in simp_all)
    moreover have "length leaves - length (take k deposits) = length deposits - k" using l(2) k(1) by simp
    moreover have "take k deposits @ replicate (length deposits - k) 0 = deposits"
      if "0 \<notin> set (take k deposits @ replicate (length deposits - k) 0)"
      using that k(1) by (cases "k = length deposits") auto
    ultimately show ?thesis using l(1,2) k(1) by (intro exI [of _ leaves] exI [of _ k]) metis
  qed
qed

lemma const_root: "spec_root (\<lambda>a b. 7) 20 xs = 7"
proof -
  have "spec_node (\<lambda>a b. 7) xs (Suc n) 0 = 7" for n by simp
  moreover have "(20 :: nat) = Suc 19" by simp
  ultimately show ?thesis unfolding spec_root_def by presburger
qed

subsection \<open>A truthful RPC\<close>

definition newer_than :: "string option \<Rightarrow> sig_info list \<Rightarrow> sig_info list" where
  "newer_than until_s hist =
     (case until_s of None \<Rightarrow> hist | Some s \<Rightarrow> takeWhile (\<lambda>x. sg_signature x \<noteq> s) hist)"

text \<open>A successful transaction: its signature, its slot, its deposits into any pool and the events of its log.\<close>

record executed_tx =
  ex_sig :: string
  ex_slot :: int
  ex_deposits :: "(string \<times> int) list"
  ex_events :: "(int \<times> nat) list"

text \<open>The deposits into one pool in execution order, each with the index its event gave it, if any.\<close>

definition flagged :: "string \<Rightarrow> (string \<times> int) list \<Rightarrow> (int \<times> nat) list \<Rightarrow> (int \<times> nat option) list" where
  "flagged poolKey ds es =
     map (\<lambda>(k, pool, leaf). (leaf, if paired ds es k then Some (snd (es ! k)) else None))
       (filter (\<lambda>(k, pool, leaf). pool = poolKey) (enumerate 0 ds))"

definition pool_deposits :: "string \<Rightarrow> executed_tx list \<Rightarrow> (int \<times> nat option) list" where
  "pool_deposits poolKey xs = concat (map (\<lambda>x. flagged poolKey (ex_deposits x) (ex_events x)) xs)"

definition serves :: "chain_codec \<Rightarrow> string \<Rightarrow> rebuild_rpc \<Rightarrow> executed_tx \<Rightarrow> bool" where
  "serves cc programKey net x \<longleftrightarrow>
     (\<exists>tx m. rr_transaction net (ex_sig x) = Returns (RpcResult (Some tx)) \<and> rx_meta tx = Some m \<and> \<not> rm_err m
        \<and> rx_slot tx = Some (ex_slot x) \<and> depositInstructions (cc_decode cc) tx programKey = Returns (ex_deposits x)
        \<and> tx_events (cc_parseLogs cc) m = Returns (ex_events x))"

definition in_slot :: "int \<Rightarrow> executed_tx list \<Rightarrow> string list" where
  "in_slot t xs = map ex_sig (filter (\<lambda>x. ex_slot x = t) xs)"

text \<open>
  The RPC pages through the pool's history, newest first, serves its successful transactions, which are
  \<open>xs\<close> in the order they were executed, and lists a block's transactions in that order, among others.
\<close>

definition truthful_rpc :: "chain_codec \<Rightarrow> string \<Rightarrow> rebuild_rpc \<Rightarrow> sig_info list \<Rightarrow> executed_tx list \<Rightarrow> bool" where
  "truthful_rpc cc programKey net hist xs \<longleftrightarrow>
     (\<forall>k before until_s. rr_signatures net k before until_s = Returns (take scan_page_size (older_than before (newer_than until_s hist))))
     \<and> distinct (map sg_signature hist)
     \<and> map ex_sig xs = map sg_signature (filter (\<lambda>s. \<not> sg_err s) (rev hist))
     \<and> (\<forall>x\<in>set xs. serves cc programKey net x)
     \<and> sorted (map ex_slot xs)
     \<and> (\<forall>x\<in>set xs. \<exists>block. rr_block net (ex_slot x) = Returns block
          \<and> filter (\<lambda>s. s \<in> set (in_slot (ex_slot x) xs)) block = in_slot (ex_slot x) xs)"

subsection \<open>Ordering the deposits\<close>

definition entries_of :: "string \<Rightarrow> executed_tx \<Rightarrow> unplaced list" where
  "entries_of poolKey x = unindexed_of poolKey (ex_sig x) (Some (ex_slot x)) (ex_deposits x) (ex_events x)"

lemma entries_of_fields:
  "e \<in> set (entries_of poolKey x) \<Longrightarrow> un_slot e = Some (ex_slot x) \<and> un_signature e = ex_sig x"
  by (auto simp: entries_of_def unindexed_of_def)

lemma entries_of_orders: "sorted (map un_order (entries_of poolKey x))"
proof -
  have "sorted (map fst (enumerate n ds))" for n and ds :: "(string \<times> int) list" by simp
  then have "sorted (map fst (filter P (enumerate 0 (ex_deposits x))))" for P by (rule sorted_filter)
  moreover have "map un_order (entries_of poolKey x) = map fst (filter
      (\<lambda>(k, pool, leaf). pool = poolKey \<and> \<not> paired (ex_deposits x) (ex_events x) k) (enumerate 0 (ex_deposits x)))"
    by (simp add: entries_of_def unindexed_of_def o_def case_prod_beta)
  ultimately show ?thesis by simp
qed

definition with_index :: "(int \<times> nat option) list \<Rightarrow> (int \<times> nat) list" where
  "with_index ds = List.map_filter (\<lambda>(l, i). map_option (Pair l) i) ds"

definition without_index :: "(int \<times> nat option) list \<Rightarrow> int list" where
  "without_index ds = List.map_filter (\<lambda>(l, i). if i = None then Some l else None) ds"

lemma with_index_simps [simp]:
  "with_index [] = []" "with_index ((l, Some i) # ds) = (l, i) # with_index ds" "with_index ((l, None) # ds) = with_index ds"
  "with_index (ds @ es) = with_index ds @ with_index es"
  by (simp_all add: with_index_def map_filter_def)

lemma without_index_simps [simp]:
  "without_index [] = []" "without_index ((l, Some i) # ds) = without_index ds" "without_index ((l, None) # ds) = l # without_index ds"
  "without_index (ds @ es) = without_index ds @ without_index es"
  by (simp_all add: without_index_def map_filter_def)

lemma flagged_indexed: "indexed_of poolKey ds es = with_index (flagged poolKey ds es)"
proof -
  have "map (\<lambda>(k, pool, leaf). (leaf, snd (es ! k))) (filter (\<lambda>(k, pool, leaf). pool = poolKey \<and> paired ds es k) en)
      = with_index (map (\<lambda>(k, pool, leaf). (leaf, if paired ds es k then Some (snd (es ! k)) else None))
          (filter (\<lambda>(k, pool, leaf). pool = poolKey) en))" for en :: "(nat \<times> string \<times> int) list"
    by (induction en) (simp_all add: case_prod_beta split: if_split)
  then show ?thesis by (simp add: indexed_of_def flagged_def)
qed

lemma flagged_unindexed: "map un_leaf (unindexed_of poolKey sig slot ds es) = without_index (flagged poolKey ds es)"
proof -
  have "map un_leaf (map (\<lambda>(k, pool, leaf). \<lparr>un_leaf = leaf, un_slot = slot, un_signature = sig, un_order = k\<rparr>)
        (filter (\<lambda>(k, pool, leaf). pool = poolKey \<and> \<not> paired ds es k) en))
      = without_index (map (\<lambda>(k, pool, leaf). (leaf, if paired ds es k then Some (snd (es ! k)) else None))
          (filter (\<lambda>(k, pool, leaf). pool = poolKey) en))" for en :: "(nat \<times> string \<times> int) list"
    by (induction en) (simp_all add: case_prod_beta split: if_split)
  then show ?thesis by (simp add: unindexed_of_def flagged_def)
qed

text \<open>The signatures collected for a slot.\<close>

definition sigs_at :: "(int \<times> string list) list \<Rightarrow> int \<Rightarrow> string list" where
  "sigs_at m t = (case map_of m t of None \<Rightarrow> [] | Some s \<Rightarrow> s)"

lemma add_sig_keys: "distinct (map fst m) \<Longrightarrow> distinct (map fst (add_sig slot sig m))"
proof -
  assume d: "distinct (map fst m)"
  have "map fst (map (\<lambda>(t, sigs). if t = slot then (t, set_add sig sigs) else (t, sigs)) m) = map fst m" by (induction m) auto
  then show ?thesis using d unfolding add_sig_def by (cases "slot \<in> fst ` set m") (simp_all only: if_True if_False map_append distinct_append, auto)
qed

lemma map_of_add_sig:
  "map_of (map (\<lambda>(t, sigs). if t = slot then (t, set_add sig sigs) else (t, sigs)) m) t
    = map_option (\<lambda>s. if t = slot then set_add sig s else s) (map_of m t)"
  by (induction m) auto

lemma sigs_at_add: "set (sigs_at (add_sig slot sig m) t) = set (sigs_at m t) \<union> (if t = slot then {sig} else {})"
proof (cases "slot \<in> fst ` set m")
  case True
  then obtain s where "map_of m slot = Some s" by (metis map_of_eq_None_iff not_None_eq)
  then show ?thesis using True by (auto simp: sigs_at_def add_sig_def map_of_add_sig set_add_def split: option.splits)
next
  case False
  then have "map_of m slot = None" by (simp add: map_of_eq_None_iff)
  then show ?thesis using False by (auto simp: sigs_at_def add_sig_def map_add_def split: option.splits)
qed

lemma sigs_by_slot_total:
  assumes "\<forall>e\<in>set es. un_slot e \<noteq> None" "distinct (map fst m)"
  shows "\<exists>m'. sigs_by_slot m es = Returns m' \<and> distinct (map fst m')
    \<and> (\<forall>t. set (sigs_at m' t) = set (sigs_at m t) \<union> un_signature ` {e \<in> set es. un_slot e = Some t})"
  using assms
proof (induction es arbitrary: m)
  case (Cons e es)
  then obtain t where t: "un_slot e = Some t" by auto
  obtain m' where m': "sigs_by_slot (add_sig t (un_signature e) m) es = Returns m'" "distinct (map fst m')"
      "\<And>u. set (sigs_at m' u) = set (sigs_at (add_sig t (un_signature e) m) u) \<union> un_signature ` {e \<in> set es. un_slot e = Some u}"
    using Cons.IH [OF _ add_sig_keys [OF Cons.prems(2)], of t "un_signature e"] Cons.prems(1) by auto
  have "{x \<in> set (e # es). un_slot x = Some u} = (if u = t then {e} else {}) \<union> {x \<in> set es. un_slot x = Some u}" for u
    using t by auto
  then have "set (sigs_at m' u) = set (sigs_at m u) \<union> un_signature ` {x \<in> set (e # es). un_slot x = Some u}" for u
    by (simp add: m'(3) sigs_at_add)
  then show ?case using m'(1,2) t by simp
qed simp

lemma index_from_filter:
  assumes "filter (\<lambda>s. s \<in> set l) block = l" "distinct l"
  shows "(\<forall>s\<in>set l. index_from s block \<noteq> None)
    \<and> sorted_wrt (\<lambda>a b. the (index_from a block) < the (index_from b block)) l"
  using assms
proof (induction block arbitrary: l)
  case (Cons y bs)
  show ?case
  proof (cases "y \<in> set l")
    case True
    define l' where "l' = filter (\<lambda>s. s \<in> set l) bs"
    have l: "l = y # l'" "filter (\<lambda>s. s \<in> set l) bs = l'" using Cons.prems(1) True by (simp_all add: l'_def)
    have y: "y \<notin> set l'" using Cons.prems(2) l(1) by simp
    have "y \<in> set bs \<Longrightarrow> y \<in> set (filter (\<lambda>s. s \<in> set l) bs)" using True by simp
    then have "y \<notin> set bs" using l(2) y by blast
    then have "filter (\<lambda>s. s \<in> set l) bs = filter (\<lambda>s. s \<in> set l') bs" by (intro filter_cong) (auto simp: l(1))
    then have "filter (\<lambda>s. s \<in> set l') bs = l'" using l(2) by simp
    then have "(\<forall>s\<in>set l'. index_from s bs \<noteq> None)
        \<and> sorted_wrt (\<lambda>a b. the (index_from a bs) < the (index_from b bs)) l'"
      using Cons.IH Cons.prems(2) l(1) by simp
    then show ?thesis using y
      by (auto simp: l(1) option.map_sel elim!: sorted_wrt_mono_rel [rotated])
  next
    case False
    then have "(\<forall>s\<in>set l. index_from s bs \<noteq> None)
        \<and> sorted_wrt (\<lambda>a b. the (index_from a bs) < the (index_from b bs)) l"
      using Cons by simp
    then show ?thesis using False by (auto simp: option.map_sel elim!: sorted_wrt_mono_rel [rotated])
  qed
qed simp

text \<open>The position of a transaction in its block.\<close>

definition block_position :: "rebuild_rpc \<Rightarrow> executed_tx \<Rightarrow> nat" where
  "block_position net x = the (index_from (ex_sig x) (returned (rr_block net (ex_slot x))))"

definition executed_before :: "rebuild_rpc \<Rightarrow> executed_tx \<Rightarrow> executed_tx \<Rightarrow> bool" where
  "executed_before net x y \<longleftrightarrow> ex_slot x \<le> ex_slot y \<and> (ex_slot x = ex_slot y \<longrightarrow> block_position net x < block_position net y)"

definition in_block :: "rebuild_rpc \<Rightarrow> executed_tx \<Rightarrow> bool" where
  "in_block net x \<longleftrightarrow> (\<exists>block. rr_block net (ex_slot x) = Returns block \<and> index_from (ex_sig x) block \<noteq> None)"

lemma in_slot_split:
  assumes "i < length xs" "ex_slot (xs ! i) = t"
  shows "in_slot t xs = in_slot t (take i xs) @ ex_sig (xs ! i) # in_slot t (drop (Suc i) xs)"
  using arg_cong [OF id_take_nth_drop [OF assms(1)], of "in_slot t"] assms(2) by (simp add: in_slot_def)

lemma truthful_order:
  assumes "truthful_rpc cc programKey net hist xs"
  shows "distinct (map ex_sig xs)" "sorted_wrt (executed_before net) xs" "\<forall>x\<in>set xs. in_block net x"
proof -
  note t = assms [unfolded truthful_rpc_def]
  have "distinct (map sg_signature (rev hist))" using t by (simp add: rev_map [symmetric])
  then show d: "distinct (map ex_sig xs)" using t distinct_map_filter by metis
  have dl: "distinct (in_slot s xs)" for s using distinct_map_filter [OF d] by (simp add: in_slot_def)
  have b: "\<exists>block. rr_block net (ex_slot x) = Returns block \<and> (\<forall>s\<in>set (in_slot (ex_slot x) xs). index_from s block \<noteq> None)
      \<and> sorted_wrt (\<lambda>a b. the (index_from a block) < the (index_from b block)) (in_slot (ex_slot x) xs)" if "x \<in> set xs" for x
    using t that index_from_filter [OF _ dl] by metis
  show "\<forall>x\<in>set xs. in_block net x"
    using b unfolding in_block_def in_slot_def by fastforce
  show "sorted_wrt (executed_before net) xs"
    unfolding sorted_wrt_iff_nth_less
  proof (intro allI impI)
    fix i j assume ij: "i < j" "j < length xs"
    have le: "ex_slot (xs ! i) \<le> ex_slot (xs ! j)" using t ij by (simp add: sorted_wrt_iff_nth_less)
    have "block_position net (xs ! i) < block_position net (xs ! j)" if e: "ex_slot (xs ! i) = ex_slot (xs ! j)"
    proof -
      obtain block where k: "rr_block net (ex_slot (xs ! j)) = Returns block"
          "sorted_wrt (\<lambda>a b. the (index_from a block) < the (index_from b block)) (in_slot (ex_slot (xs ! j)) xs)"
        using b [OF nth_mem [OF ij(2)]] by blast
      have "xs ! j \<in> set (drop (Suc i) xs)" using ij by (auto simp: in_set_conv_nth intro!: exI [of _ "j - Suc i"])
      then have "ex_sig (xs ! j) \<in> set (in_slot (ex_slot (xs ! j)) (drop (Suc i) xs))" by (simp add: in_slot_def)
      moreover note in_slot_split [of i xs "ex_slot (xs ! j)"]
      ultimately have "ex_sig (xs ! j) \<in> set (in_slot (ex_slot (xs ! j)) (drop (Suc i) xs))"
          "in_slot (ex_slot (xs ! j)) xs = in_slot (ex_slot (xs ! j)) (take i xs) @ ex_sig (xs ! i) # in_slot (ex_slot (xs ! j)) (drop (Suc i) xs)"
        using ij e by simp_all
      then have "the (index_from (ex_sig (xs ! i)) block) < the (index_from (ex_sig (xs ! j)) block)"
        using k(2) by (simp add: sorted_wrt_append)
      then show ?thesis using k(1) e by (simp add: block_position_def)
    qed
    then show "executed_before net (xs ! i) (xs ! j)" using le by (simp add: executed_before_def)
  qed
qed

text \<open>
  The deposits without an index of a run of transactions come out in the order they were executed.
\<close>

lemma chronological_in_order:
  assumes d: "distinct (map ex_sig ys)" and o: "sorted_wrt (executed_before net) ys" and b: "\<forall>x\<in>set ys. in_block net x"
  shows "chronological (rr_block net) (concat (map (entries_of poolKey) ys)) = Returns (map un_leaf (concat (map (entries_of poolKey) ys)))"
proof -
  let ?U = "concat (map (entries_of poolKey) ys)"
  have U: "\<exists>x\<in>set ys. un_slot e = Some (ex_slot x) \<and> un_signature e = ex_sig x" if "e \<in> set ?U" for e
    using that entries_of_fields by fastforce
  obtain M where M: "sigs_by_slot [] ?U = Returns M" "distinct (map fst M)"
      "\<And>t. set (sigs_at M t) = un_signature ` {e \<in> set ?U. un_slot e = Some t}"
    using sigs_by_slot_total [of ?U "[]"] U by (force simp: sigs_at_def)
  have at: "sigs_at M t = sigs" if "(t, sigs) \<in> set M" for t sigs
    using that M(2) by (simp add: sigs_at_def)
  have origin: "\<exists>x\<in>set ys. s = ex_sig x \<and> ex_slot x = t" if "(t, sigs) \<in> set M" "s \<in> set sigs" for t sigs s
    using that M(3) [of t] at U by fastforce
  define g where "g = (\<lambda>en :: int \<times> string list. if length (snd en) < 2 then []
      else map (\<lambda>s. (s, the (index_from s (returned (rr_block net (fst en)))))) (snd en))"
  have "slot_positions (rr_block net) en = Returns (g en)" if en: "en \<in> set M" for en
  proof (cases "length (snd en) < 2")
    case False
    obtain t sigs where ts: "en = (t, sigs)" by fastforce
    then obtain s where "s \<in> set sigs" using False by (cases sigs) auto
    then obtain block where k: "rr_block net t = Returns block" using origin en ts b by (fastforce simp: in_block_def)
    have "index_from s block \<noteq> None" if "s \<in> set sigs" for s
      using origin [of t sigs s] that en ts b k by (fastforce simp: in_block_def)
    then have "js_map (\<lambda>s. case index_from s block of None \<Rightarrow> Throws ''Cannot order deposits in slot: not in the block.'' | Some p \<Rightarrow> Returns (s, p)) sigs
        = Returns (map (\<lambda>s. (s, the (index_from s block))) sigs)"
      by (intro js_map_total) (auto split: option.split)
    then show ?thesis using False k by (simp add: slot_positions_def g_def ts)
  qed (simp add: slot_positions_def g_def)
  then have P: "js_map (slot_positions (rr_block net)) M = Returns (map g M)" by (rule js_map_total)
  define pos where "pos = concat (map g M)"
  have val: "p = block_position net x" if in_pos: "(ex_sig x, p) \<in> set pos" and x: "x \<in> set ys" for x p
  proof -
    obtain t sigs where ts: "(t, sigs) \<in> set M" "ex_sig x \<in> set sigs" "p = the (index_from (ex_sig x) (returned (rr_block net t)))"
    proof -
      obtain en where "en \<in> set M" "(ex_sig x, p) \<in> set (g en)" using in_pos by (auto simp: pos_def)
      then show thesis using that [of "fst en" "snd en"] by (auto simp: g_def split: if_splits)
    qed
    obtain x' where "x' \<in> set ys" "ex_sig x = ex_sig x'" "ex_slot x' = t" using origin ts by blast
    then have "t = ex_slot x" using d x by (metis distinct_map inj_onD)
    then show ?thesis using ts(3) by (simp add: block_position_def)
  qed
  define q where "q = (\<lambda>x :: executed_tx. case map_of (rev pos) (ex_sig x) of None \<Rightarrow> 0 | Some p \<Rightarrow> p)"
  have key: "order_key pos e = (ex_slot x, q x, un_order e)" if "e \<in> set (entries_of poolKey x)" for e x
    using entries_of_fields [OF that] by (simp add: order_key_def q_def)
  have qv: "q x = block_position net x"
    if x: "x \<in> set ys" "e \<in> set (entries_of poolKey x)" and x': "x' \<in> set ys" "e' \<in> set (entries_of poolKey x')"
      and ne: "x \<noteq> x'" "ex_slot x = ex_slot x'" for x x' e e'
  proof -
    let ?t = "ex_slot x"
    have "ex_sig z \<in> set (sigs_at M (ex_slot z))" if "z \<in> set ys" "f \<in> set (entries_of poolKey z)" for z f
      unfolding M(3) using that entries_of_fields [OF that(2)] by (intro image_eqI [of _ _ f]) auto
    then have in2: "ex_sig x \<in> set (sigs_at M ?t)" "ex_sig x' \<in> set (sigs_at M ?t)"
      using x x' ne(2) by metis+
    have "ex_sig x \<noteq> ex_sig x'" using d x(1) x'(1) ne(1) by (metis distinct_map inj_onD)
    then have "2 \<le> length (sigs_at M ?t)" using in2 by (cases "sigs_at M ?t" rule: list.exhaust; cases "tl (sigs_at M ?t)") auto
    moreover have "(?t, sigs_at M ?t) \<in> set M"
      using in2(1) M(2) by (auto simp: sigs_at_def split: option.splits dest: map_of_SomeD)
    ultimately have "(ex_sig x, the (index_from (ex_sig x) (returned (rr_block net ?t)))) \<in> set pos"
      using in2(1) unfolding pos_def g_def by force
    then have "ex_sig x \<in> fst ` set (rev pos)" by (metis fst_conv imageI set_rev)
    then have "map_of (rev pos) (ex_sig x) \<noteq> None" by (simp add: map_of_eq_None_iff)
    then obtain p where p: "map_of (rev pos) (ex_sig x) = Some p" by blast
    then have "(ex_sig x, p) \<in> set pos" by (auto dest!: map_of_SomeD)
    then show ?thesis using val x(1) p by (simp add: q_def)
  qed
  have "sorted (map (order_key pos) (concat (map (entries_of poolKey) zs)))"
    if "set zs \<subseteq> set ys" "sorted_wrt (executed_before net) zs" "distinct zs" for zs
    using that
  proof (induction zs)
    case (Cons x zs)
    have "sorted (map (\<lambda>e. (ex_slot x, q x, un_order e)) (entries_of poolKey x))"
      using entries_of_orders [of poolKey x] by (simp add: sorted_map less_eq_prod_def)
    then have "sorted (map (order_key pos) (entries_of poolKey x))"
      using key by (metis (no_types, lifting) map_eq_conv)
    moreover have "order_key pos e \<le> order_key pos e'"
      if e: "e \<in> set (entries_of poolKey x)" and e': "e' \<in> set (concat (map (entries_of poolKey) zs))" for e e'
    proof -
      obtain x' where x': "x' \<in> set zs" "e' \<in> set (entries_of poolKey x')" using e' by auto
      have "executed_before net x x'" "x \<noteq> x'" using Cons.prems x' by auto
      then show ?thesis
        using key [OF e] key [OF x'(2)] qv [OF _ e _ x'(2)] qv [OF _ x'(2) _ e] Cons.prems(1) x'(1)
        by (auto simp: executed_before_def less_eq_prod_def)
    qed
    ultimately show ?case using Cons by (auto simp: sorted_append)
  qed simp
  then have "sorted (map (order_key pos) ?U)" using o d by (simp add: distinct_map)
  then have "sort_key (order_key pos) ?U = ?U" by (rule sort_key_id_if_sorted)
  then show ?thesis by (simp add: chronological_def M(1) P pos_def)
qed

subsection \<open>A truthful scan\<close>

lemma tx_deposits_served:
  assumes "serves cc programKey net x"
  shows "\<exists>tx. rr_transaction net (ex_sig x) = Returns (RpcResult (Some tx))
    \<and> tx_deposits (cc_decode cc) (cc_parseLogs cc) programKey poolKey (ex_sig x, Some tx)
      = Returns (with_index (flagged poolKey (ex_deposits x) (ex_events x)), entries_of poolKey x)"
  using assms by (auto simp: serves_def tx_deposits_def entries_of_def flagged_indexed)

lemma scan_served:
  assumes sigs: "all_signatures fuel net u 0 None [] = Some (Returns seen)"
    and ys: "map ex_sig ys = map sg_signature (filter (\<lambda>s. \<not> sg_err s) (rev seen))" "\<forall>x\<in>set ys. serves cc programKey net x"
    and o: "distinct (map ex_sig ys)" "sorted_wrt (executed_before net) ys" "\<forall>x\<in>set ys. in_block net x"
  shows "\<exists>newest. scanDeposits fuel cc net programKey poolKey u = Some (Returns
    \<lparr>sr_indexed = with_index (pool_deposits poolKey ys), sr_unindexed = without_index (pool_deposits poolKey ys), sr_newest = newest\<rparr>)"
proof -
  have "\<forall>x\<in>set ys. \<exists>tx. rr_transaction net (ex_sig x) = Returns (RpcResult (Some tx))
      \<and> tx_deposits (cc_decode cc) (cc_parseLogs cc) programKey poolKey (ex_sig x, Some tx)
        = Returns (with_index (flagged poolKey (ex_deposits x) (ex_events x)), entries_of poolKey x)"
    using tx_deposits_served ys(2) by blast
  from bchoice [OF this] obtain t where t: "\<forall>x\<in>set ys. rr_transaction net (ex_sig x) = Returns (RpcResult (Some (t x)))
      \<and> tx_deposits (cc_decode cc) (cc_parseLogs cc) programKey poolKey (ex_sig x, Some (t x))
        = Returns (with_index (flagged poolKey (ex_deposits x) (ex_events x)), entries_of poolKey x)"
    by blast
  let ?succ = "filter (\<lambda>s. \<not> sg_err s) (rev seen)" and ?txs = "map (\<lambda>x. (ex_sig x, Some (t x))) ys"
  have len: "length ?succ = length ys" using map_eq_imp_length_eq [OF ys(1)] by simp
  have nth: "sg_signature (?succ ! i) = ex_sig (ys ! i)" if "i < length ys" for i
    using arg_cong [OF ys(1), of "\<lambda>l. l ! i"] that len by simp
  have f: "mapPool (fetch_tx net) ?succ = Returns ?txs"
    unfolding mapPool_def js_map_list_all2 list_all2_conv_all_nth
  proof (intro conjI allI impI)
    fix i assume "i < length ?succ"
    then have i: "i < length ys" using len by simp
    then show "fetch_tx net (?succ ! i) = Returns (?txs ! i)"
      using nth [OF i] bspec [OF t nth_mem [OF i]] by (simp add: fetch_tx_def)
  qed (simp add: len)
  have d: "js_map (tx_deposits (cc_decode cc) (cc_parseLogs cc) programKey poolKey) ?txs
      = Returns (map (\<lambda>x. (with_index (flagged poolKey (ex_deposits x) (ex_events x)), entries_of poolKey x)) ys)"
    using t unfolding js_map_list_all2 list_all2_conv_all_nth by auto
  have i: "concat (map (\<lambda>x. with_index (flagged poolKey (ex_deposits x) (ex_events x))) zs) = with_index (pool_deposits poolKey zs)"
    and w: "map un_leaf (concat (map (entries_of poolKey) zs)) = without_index (pool_deposits poolKey zs)" for zs
    by (induction zs) (simp_all add: pool_deposits_def entries_of_def flagged_unindexed)
  show ?thesis
    using chronological_in_order [OF o, of poolKey] i [of ys] w [of ys]
    by (simp add: scanDeposits_def sigs f scan_transactions_def d o_def)
qed

lemma truthful_scan:
  assumes h: "truthful_rpc cc programKey net hist xs" and fuel: "length hist < fuel"
  shows "\<exists>zs ys newest. xs = zs @ ys \<and> (u = None \<longrightarrow> zs = []) \<and> scanDeposits fuel cc net programKey poolKey u = Some (Returns
    \<lparr>sr_indexed = with_index (pool_deposits poolKey ys), sr_unindexed = without_index (pool_deposits poolKey ys), sr_newest = newest\<rparr>)"
proof -
  let ?seen = "newer_than u hist"
  note t = h [unfolded truthful_rpc_def]
  obtain rest where r: "hist = ?seen @ rest" "u = None \<longrightarrow> rest = []"
    by (cases u) (auto simp: newer_than_def intro: takeWhile_dropWhile_id [symmetric])
  have "map ex_sig xs = map sg_signature (filter (\<lambda>s. \<not> sg_err s) (rev rest)) @ map sg_signature (filter (\<lambda>s. \<not> sg_err s) (rev ?seen))"
    using t r(1) by (metis filter_append map_append rev_append)
  then obtain zs ys where xs: "xs = zs @ ys" "map ex_sig zs = map sg_signature (filter (\<lambda>s. \<not> sg_err s) (rev rest))"
      "map ex_sig ys = map sg_signature (filter (\<lambda>s. \<not> sg_err s) (rev ?seen))"
    by (auto simp: map_eq_append_conv)
  have z: "u = None \<longrightarrow> zs = []" using r(2) xs(2) by auto
  have dist: "distinct (map sg_signature ?seen)" using t r(1) by (metis distinct_append map_append)
  have l: "length ?seen < fuel" using fuel r(1) by (metis add_lessD1 length_append)
  have pages: "\<And>k before. rr_signatures net k before u = Returns (take scan_page_size (older_than before ?seen))" using t by blast
  have sigs: "all_signatures fuel net u 0 None [] = Some (Returns ?seen)"
    by (rule all_signatures_pages [OF pages dist, of "[]" ?seen]) (use l in simp_all)
  have "\<forall>x\<in>set ys. serves cc programKey net x" using t xs(1) by auto
  moreover note o = truthful_order [OF h]
  then have "distinct (map ex_sig ys)" "sorted_wrt (executed_before net) ys" "\<forall>x\<in>set ys. in_block net x"
    using xs(1) by (auto simp: sorted_wrt_append)
  ultimately show ?thesis using scan_served [OF sigs xs(3)] xs(1) z by blast
qed

subsection \<open>The rebuild succeeds\<close>

lemma with_index_set: "(l, i) \<in> set (with_index ds) \<longleftrightarrow> (l, Some i) \<in> set ds"
proof (induction ds)
  case (Cons d ds)
  then show ?case by (cases d; cases "snd d") auto
qed simp

lemma without_index_nth:
  "without_index ds = map (\<lambda>j. fst (ds ! j)) (filter (\<lambda>j. snd (ds ! j) = None) [0..<length ds])"
proof -
  have "without_index ds = map fst (filter (\<lambda>d. snd d = None) ds)" by (induction ds) auto
  also have "filter (\<lambda>d. snd d = None) ds = map (\<lambda>j. ds ! j) (filter (\<lambda>j. snd (ds ! j) = None) [0..<length ds])"
    using filter_map [of "\<lambda>d. snd d = None" "(!) ds" "[0..<length ds]"] by (simp add: map_nth o_def)
  finally show ?thesis by simp
qed

lemma length_split_index: "length (with_index ds) + length (without_index ds) = length ds"
proof (induction ds)
  case (Cons d ds)
  then show ?case by (cases d; cases "snd d") auto
qed simp

text \<open>The indices the events gave are right: the j-th deposit of the pool carries j or nothing.\<close>

primrec numbered_from :: "nat \<Rightarrow> (int \<times> nat option) list \<Rightarrow> bool" where
  "numbered_from m [] \<longleftrightarrow> True"
| "numbered_from m (d # ds) \<longleftrightarrow> snd d \<in> {None, Some m} \<and> numbered_from (Suc m) ds"

lemma numbered_append: "numbered_from m (ds @ es) \<longleftrightarrow> numbered_from m ds \<and> numbered_from (m + length ds) es"
  by (induction ds arbitrary: m) auto

lemma numbered_nth: "numbered_from m ds \<Longrightarrow> j < length ds \<Longrightarrow> snd (ds ! j) \<in> {None, Some (m + j)}"
  by (induction ds arbitrary: m j) (fastforce simp: nth_Cons split: nat.splits)+

lemma numbered_with_index:
  assumes "numbered_from m ds"
  shows "(l, i) \<in> set (with_index ds) \<longleftrightarrow> (\<exists>j<length ds. i = m + j \<and> ds ! j = (l, Some i))"
proof -
  have "(l, i) \<in> set (with_index ds) \<longleftrightarrow> (\<exists>j<length ds. ds ! j = (l, Some i))"
    unfolding with_index_set by (auto simp: in_set_conv_nth)
  moreover have "i = m + j" if "j < length ds" "ds ! j = (l, Some i)" for j using numbered_nth [OF assms that(1)] that(2) by simp
  ultimately show ?thesis by blast
qed

lemma numbered_indices:
  assumes "numbered_from 0 ds" "i < length ds"
  shows "i \<in> snd ` set (with_index ds) \<longleftrightarrow> snd (ds ! i) \<noteq> None"
proof -
  have "i \<in> snd ` set (with_index ds) \<longleftrightarrow> (\<exists>l. (l, i) \<in> set (with_index ds))" by force
  also have "\<dots> \<longleftrightarrow> (\<exists>l. ds ! i = (l, Some i))" using numbered_with_index [OF assms(1)] assms(2) by auto
  also have "\<dots> \<longleftrightarrow> snd (ds ! i) \<noteq> None" using numbered_nth [OF assms] by (cases "ds ! i") auto
  finally show ?thesis .
qed

lemma assemble_all_deposits:
  assumes "numbered_from 0 ds"
  shows "assemble [] \<lparr>sr_indexed = with_index ds, sr_unindexed = without_index ds, sr_newest = s\<rparr> (length ds) = map fst ds"
proof (rule assemble_right [of _ _ _ 0])
  note w = numbered_with_index [OF assms]
  have "filter (\<lambda>i. 0 \<le> i \<and> i \<notin> snd ` set (with_index ds)) [0..<length ds] = filter (\<lambda>j. snd (ds ! j) = None) [0..<length ds]"
    using numbered_indices [OF assms] by (intro filter_cong) auto
  then show "sr_unindexed \<lparr>sr_indexed = with_index ds, sr_unindexed = without_index ds, sr_newest = s\<rparr>
      = map ((!) (map fst ds)) (filter (\<lambda>i. 0 \<le> i \<and> i \<notin> snd ` set (sr_indexed \<lparr>sr_indexed = with_index ds, sr_unindexed = without_index ds, sr_newest = s\<rparr>)) [0..<length ds])"
    by (simp add: without_index_nth)
  show "\<forall>d\<in>set (sr_indexed \<lparr>sr_indexed = with_index ds, sr_unindexed = without_index ds, sr_newest = s\<rparr>). fst d = map fst ds ! snd d"
    using w by auto
qed simp_all

text \<open>
  A scan of the last deposits, merged into any first deposits: when the result has as many leaves as the
  pool, it is the pool's leaves, whether the two overlap, meet or leave a gap.
\<close>

lemma filter_same_length:
  assumes "\<And>x. P x \<Longrightarrow> Q x" "length (filter P xs) = length (filter Q xs)"
  shows "filter P xs = filter Q xs"
proof -
  have e: "filter P (filter Q xs) = filter P xs" using assms(1) by (auto intro: filter_cong)
  have "P x" if "x \<in> set (filter Q xs)" for x
    using length_filter_less [OF that, of P] assms(2) e by (cases "P x") simp_all
  then have "filter P (filter Q xs) = filter Q xs" by (intro filter_True) blast
  then show ?thesis using e by simp
qed

lemma assemble_complete_prefix:
  assumes n: "numbered_from 0 (Z @ Y)" and base: "base = take j (map fst (Z @ Y))"
    and full: "length (assemble base \<lparr>sr_indexed = with_index Y, sr_unindexed = without_index Y, sr_newest = s\<rparr> (length (Z @ Y))) = length (Z @ Y)"
  shows "assemble base \<lparr>sr_indexed = with_index Y, sr_unindexed = without_index Y, sr_newest = s\<rparr> (length (Z @ Y)) = map fst (Z @ Y)"
proof -
  let ?scan = "\<lparr>sr_indexed = with_index Y, sr_unindexed = without_index Y, sr_newest = s\<rparr>"
  define ls where "ls = map fst (Z @ Y)"
  define I where "I = snd ` set (with_index Y)"
  let ?a = "length Z" and ?n = "length (Z @ Y)"
  have m: "numbered_from ?a Y" using n by (simp add: numbered_append)
  have at: "ls ! (?a + k) = fst (Y ! k)" if "k < length Y" for k using that by (simp add: ls_def nth_append)
  have idx: "\<forall>d\<in>set (sr_indexed ?scan). fst d = ls ! snd d"
    using numbered_with_index [OF m] at by fastforce
  have free: "?a + k \<notin> I \<longleftrightarrow> snd (Y ! k) = None" if "k < length Y" for k
  proof -
    have "?a + k \<in> I \<longleftrightarrow> (\<exists>l. (l, ?a + k) \<in> set (with_index Y))" unfolding I_def by force
    also have "\<dots> \<longleftrightarrow> (\<exists>l. Y ! k = (l, Some (?a + k)))" using numbered_with_index [OF m] that by auto
    also have "\<dots> \<longleftrightarrow> snd (Y ! k) \<noteq> None" using numbered_nth [OF m that] by (cases "Y ! k") auto
    finally show ?thesis by blast
  qed
  have un: "without_index Y = map ((!) ls) (filter (\<lambda>i. ?a \<le> i \<and> i \<notin> I) [0..<?n])"
  proof -
    have split: "[0..<?n] = [0..<?a] @ map ((+) ?a) [0..<length Y]"
      by (rule nth_equalityI) (auto simp: nth_append)
    have "filter (\<lambda>i. ?a \<le> i \<and> i \<notin> I) [0..<?n] = map ((+) ?a) (filter (\<lambda>k. snd (Y ! k) = None) [0..<length Y])"
    proof -
      have "filter (\<lambda>k. ?a \<le> ?a + k \<and> ?a + k \<notin> I) [0..<length Y] = filter (\<lambda>k. snd (Y ! k) = None) [0..<length Y]"
        by (intro filter_cong) (simp_all add: free)
      then show ?thesis unfolding split filter_append filter_map o_def by simp
    qed
    then show ?thesis unfolding without_index_nth by (simp add: at o_def)
  qed
  note l = ls_def [symmetric]
  have len: "length ls = ?n" by (simp add: ls_def)
  note rec = assemble_recovers_leaves [OF len base [unfolded l] idx]
  note h = assemble_holes [OF len base [unfolded l] idx]
  show ?thesis
  proof (cases "length (without_index Y) = length (holes_of (placed base (sr_indexed ?scan)) ?n)")
    case True
    then have e: "length (filter (\<lambda>i. ?a \<le> i \<and> i \<notin> I) [0..<?n]) = length (filter (\<lambda>i. j \<le> i \<and> i \<notin> I) [0..<?n])"
      using h un by (simp add: I_def)
    have "filter (\<lambda>i. ?a \<le> i \<and> i \<notin> I) [0..<?n] = filter (\<lambda>i. j \<le> i \<and> i \<notin> I) [0..<?n]"
    proof (cases "j \<le> ?a")
      case True
      then show ?thesis by (intro filter_same_length e) auto
    next
      case False
      then show ?thesis by (intro sym [OF filter_same_length] sym [OF e]) auto
    qed
    then show ?thesis using rec un unfolding l by (simp add: I_def)
  next
    case False
    then have "assemble base ?scan ?n = take (length (assemble base ?scan ?n)) ls" using rec by simp
    then show ?thesis unfolding l using full len by (metis take_all_iff order_refl)
  qed
qed

lemma verifyTree_accepts:
  assumes "POOL_MIN_LEN \<le> length d" "rnd (le_int (subarray d 88 96)) = int (nextIndex t)" "root_of t \<in> set (ring_roots d)"
  shows "\<exists>m. verifyTreeMatchesPool t d = Returns m"
proof -
  have "index_of xs x \<noteq> None" if "x \<in> set xs" for xs :: "int list" and x
    using that by (induction xs) auto
  then obtain j where "index_of (ring_roots d) (root_of t) = Some j" using assms(3) by fastforce
  then show ?thesis by (simp add: verifyTreeMatchesPool_def readPoolTreeState_eq [OF assms(1)] assms(2) Let_def)
qed

text \<open>
  With a truthful RPC the rebuild always succeeds. Let the RPC page through the pool's history, serve
  the successful transactions and list blocks in execution order, and let each event that can be
  attributed carry the right index, while any number of deposits carry none. Then, whatever the cache
  holds, whatever the events of truncated or foreign logs leave out, one unit of fuel more than the
  history has entries is enough, and the rebuild returns a tree that passes the check; when the cached
  leaves are the first of the pool's deposits, or there are none, it is the tree of the pool's deposits in
  the order they were executed, whatever signature the cache remembers.
\<close>

lemma rebuild_always_succeeds:
  assumes pool: "POOL_MIN_LEN \<le> length (acc_data info)" "rnd (le_int (subarray (acc_data info) 88 96)) = int (length (pool_deposits poolKey xs))"
      "spec_root h 20 (map fst (pool_deposits poolKey xs)) \<in> set (ring_roots (acc_data info))"
    and nets: "\<forall>j. truthful_rpc cc programKey (nets j) hist xs" "length hist < fuel"
    and numbered: "numbered_from 0 (pool_deposits poolKey xs)"
  shows "\<exists>t stored'. rebuildMerkleTree h fuel cc nets programKey poolKey w (Returns (Some info)) stored = Some (Returns t, stored')
    \<and> (\<exists>m. verifyTreeMatchesPool t (acc_data info) = Returns m)
    \<and> (\<forall>j. cached_leaves (loadCache stored) = take j (map fst (pool_deposits poolKey xs)) \<longrightarrow> t = build_tree h 20 (map fst (pool_deposits poolKey xs)))"
proof -
  let ?D = "pool_deposits poolKey xs" and ?d = "acc_data info" and ?c = "loadCache stored"
  let ?good = "build_tree h 20 (map fst ?D)" and ?n = "length ?D"
  have good: "\<exists>m. verifyTreeMatchesPool ?good ?d = Returns m"
    by (rule verifyTree_accepts [OF pool(1)]) (use pool(2,3) root_of_inv [OF build_tree_inv, of h 20 "map fst ?D"] in simp_all)
  obtain oc where oc: "readPoolTreeState ?d = Returns oc" "pt_nextIndex oc = int ?n"
    using readPoolTreeState_eq [OF pool(1)] pool(2) by simp
  have full: "\<exists>newest. full_scan fuel cc (nets j) programKey poolKey ?n = Some (Returns (map fst ?D, newest))" for j
  proof -
    obtain newest where "scanDeposits fuel cc (nets j) programKey poolKey None = Some (Returns
        \<lparr>sr_indexed = with_index ?D, sr_unindexed = without_index ?D, sr_newest = newest\<rparr>)"
      using truthful_scan [OF nets(1) [THEN spec, of j] nets(2), where u = None and poolKey = poolKey] by auto
    then show ?thesis using assemble_all_deposits [OF numbered] by (simp add: full_scan_def)
  qed
  have first: "\<exists>leaves newest st. first_leaves fuel cc nets programKey poolKey w ?c oc stored = Some (Returns (leaves, newest), st)
      \<and> (\<forall>j. cached_leaves ?c = take j (map fst ?D) \<longrightarrow> leaves = map fst ?D)"
  proof (cases "length (cached_leaves ?c) = ?n")
    case True
    have whole: "cached_leaves ?c = map fst ?D" if "cached_leaves ?c = take j (map fst ?D)" for j
    proof -
      have "length (take j (map fst ?D)) = ?n" using True that by simp
      then have "?n \<le> j" by (simp add: min_def split: if_splits)
      then show ?thesis using that by simp
    qed
    have "first_leaves fuel cc nets programKey poolKey w ?c oc stored = Some (Returns (cached_leaves ?c, lc_lastSignature ?c), stored)"
      using True by (simp add: first_leaves_def oc(2))
    then show ?thesis using whole by blast
  next
    case False
    obtain zs ys newest where s: "xs = zs @ ys" "scanDeposits fuel cc (nets 0) programKey poolKey (lc_lastSignature ?c) = Some (Returns
        \<lparr>sr_indexed = with_index (pool_deposits poolKey ys), sr_unindexed = without_index (pool_deposits poolKey ys), sr_newest = newest\<rparr>)"
      using truthful_scan [OF nets(1) [THEN spec, of 0] nets(2), where u = "lc_lastSignature ?c" and poolKey = poolKey] by blast
    let ?scan = "\<lparr>sr_indexed = with_index (pool_deposits poolKey ys), sr_unindexed = without_index (pool_deposits poolKey ys), sr_newest = newest\<rparr>"
    show ?thesis
    proof (cases "length (assemble (cached_leaves ?c) ?scan ?n) = ?n")
      case complete: True
      have D: "?D = pool_deposits poolKey zs @ pool_deposits poolKey ys" by (simp add: pool_deposits_def s(1))
      have whole: "assemble (cached_leaves ?c) ?scan ?n = map fst ?D" if "cached_leaves ?c = take j (map fst ?D)" for j
        using assemble_complete_prefix [OF numbered [unfolded D] that [unfolded D]] complete unfolding D by simp
      have "first_leaves fuel cc nets programKey poolKey w ?c oc stored = Some (Returns (assemble (cached_leaves ?c) ?scan ?n,
          case newest of None \<Rightarrow> lc_lastSignature ?c | Some s \<Rightarrow> Some s), stored)"
        using False s(2) complete by (simp add: first_leaves_def oc(2))
      then show ?thesis using whole by blast
    next
      case incomplete: False
      obtain last where "full_scan fuel cc (nets 1) programKey poolKey ?n = Some (Returns (map fst ?D, last))" using full [of 1] by blast
      then have "first_leaves fuel cc nets programKey poolKey w ?c oc stored = Some (Returns (map fst ?D, last), clearCache w stored)"
        using False s(2) incomplete by (simp add: first_leaves_def oc(2))
      then show ?thesis by blast
    qed
  qed
  then obtain leaves newest st where f: "first_leaves fuel cc nets programKey poolKey w ?c oc stored = Some (Returns (leaves, newest), st)"
      "\<forall>j. cached_leaves ?c = take j (map fst ?D) \<longrightarrow> leaves = map fst ?D" by blast
  have "\<exists>t ls s st'. verified_leaves h fuel cc (nets 2) programKey poolKey w ?c ?d ?n (leaves, newest) st = Some (Returns (t, ls, s), st')
      \<and> (\<exists>m. verifyTreeMatchesPool t ?d = Returns m) \<and> (\<forall>j. cached_leaves ?c = take j (map fst ?D) \<longrightarrow> t = ?good)"
  proof (cases "verifyTreeMatchesPool (buildTree h leaves) ?d")
    case (Returns m)
    then show ?thesis using f(2) by (simp add: verified_leaves_def Let_def buildTree_eq)
  next
    case (Throws e)
    then have "lc_leaves ?c \<noteq> []" using f(2) [THEN spec, of 0] good by (auto simp: buildTree_eq cached_leaves_def)
    then show ?thesis using Throws full [of 2] good by (auto simp: verified_leaves_def Let_def buildTree_eq)
  qed
  then show ?thesis using f(1) oc by (force simp: rebuildMerkleTree_def Let_def)
qed

definition silent_executed :: executed_tx where
  "silent_executed = \<lparr>ex_sig = ''s'', ex_slot = 5, ex_deposits = [(''pool'', 7)], ex_events = []\<rparr>"

definition served_net :: rebuild_rpc where
  "served_net = silent_net\<lparr>rr_signatures := (\<lambda>k before until_s. Returns (take scan_page_size (older_than before (newer_than until_s silent_history)))),
     rr_block := (\<lambda>t. Returns [''r'', ''s''])\<rparr>"

lemma served_truthful: "truthful_rpc silent_codec ''prog'' served_net silent_history [silent_executed]"
proof -
  have "depositInstructions (cc_decode silent_codec) silent_tx ''prog'' = Returns [(''pool'', 7)]" by code_simp
  then have "serves silent_codec ''prog'' served_net silent_executed"
    by (simp add: serves_def served_net_def silent_net_def silent_executed_def silent_tx_def silent_codec_def tx_events_def)
  then show ?thesis
    by (simp add: truthful_rpc_def served_net_def silent_history_def silent_executed_def in_slot_def)
qed

lemma rebuild_always_succeeds_witness:
  "\<exists>stored'. rebuildMerkleTree (\<lambda>a b. 7) 2 silent_codec (\<lambda>j. served_net) ''prog'' ''pool'' True (Returns (Some silent_pool)) None
     = Some (Returns (build_tree (\<lambda>a b. 7) 20 [7]), stored')"
proof -
  have D: "pool_deposits ''pool'' [silent_executed] = [(7, None)]" by code_simp
  have "le_int (1 # replicate 7 (0 :: byte)) = 1" by code_simp
  then have n: "rnd (le_int (subarray (acc_data silent_pool) 88 96)) = int (length (pool_deposits ''pool'' [silent_executed]))"
    by (simp add: D silent_pool_def one_deposit_pool_props rnd_exact)
  have p: "POOL_MIN_LEN \<le> length (acc_data silent_pool)" by (simp add: silent_pool_def one_deposit_pool_props tree_offsets)
  have "spec_root (\<lambda>a b. 7) 20 [7] = ring_roots one_deposit_pool ! 0"
    unfolding one_deposit_pool_props(3) by (rule const_root)
  then have r: "spec_root (\<lambda>a b. 7) 20 (map fst (pool_deposits ''pool'' [silent_executed])) \<in> set (ring_roots (acc_data silent_pool))"
    unfolding D silent_pool_def using length_ring_roots by simp
  have l: "length silent_history < 2" by (simp add: silent_history_def)
  have c: "cached_leaves (loadCache None) = take 0 (map fst (pool_deposits ''pool'' [silent_executed]))"
    by (simp add: loadCache_def cold_cache_def cached_leaves_def)
  have nets: "\<forall>j :: nat. truthful_rpc silent_codec ''prog'' served_net silent_history [silent_executed]" using served_truthful by blast
  have num: "numbered_from 0 (pool_deposits ''pool'' [silent_executed])" by (simp add: D)
  obtain t stored' where t: "rebuildMerkleTree (\<lambda>a b. 7) 2 silent_codec (\<lambda>j. served_net) ''prog'' ''pool'' True (Returns (Some silent_pool)) None = Some (Returns t, stored')"
      "\<forall>j. cached_leaves (loadCache None) = take j (map fst (pool_deposits ''pool'' [silent_executed])) \<longrightarrow> t = build_tree (\<lambda>a b. 7) 20 (map fst (pool_deposits ''pool'' [silent_executed]))"
    using rebuild_always_succeeds [OF p n r nets l num, of True None] by blast
  then have "t = build_tree (\<lambda>a b. 7) 20 [7]" using c by (simp add: D)
  then show ?thesis using t(1) by blast
qed

end
