(* ===== verification/ChainView.thy ===== *)
theory ChainView
  imports TreeHonest "HOL-Library.Sublist"
begin

text \<open>
  What the chain did, said without the code that reads it: calls of programs with their accounts and
  data, as programs/solnadocash defines a deposit (lib.rs, \<open>Deposit\<close>: the pool first, then vault,
  depositor and system program; the commitment after the 8 bytes that Anchor puts before an
  instruction's arguments), and how the JSON of the RPC renders them. What is proved: on such a rendering
  the scan of app/src/utils/merkle.ts reads exactly the deposits of the chain.
\<close>

subsection \<open>The chain\<close>

record invocation =
  iv_program :: string
  iv_accounts :: "string list"
  iv_data :: bytes

text \<open>
  A successful transaction: each top-level call with the calls it made, in the order they ran; the
  index the program gave each deposit; and how many of the deposit events its log still holds.
\<close>

record chain_tx =
  ct_sig :: string
  ct_slot :: int
  ct_calls :: "(invocation \<times> invocation list) list"
  ct_numbers :: "nat list"
  ct_kept :: nat

text \<open>The deposit instruction in app/src/idl/solnadocash.json: its discriminator, then the commitment.\<close>

definition IDL_DEPOSIT_DISCRIMINATOR :: bytes where
  "IDL_DEPOSIT_DISCRIMINATOR = [242, 35, 198, 137, 82, 225, 242, 182]"

definition deposit_of :: "string \<Rightarrow> invocation \<Rightarrow> (string \<times> int) option" where
  "deposit_of program c =
     (if iv_program c = program \<and> take 8 (iv_data c) = IDL_DEPOSIT_DISCRIMINATOR
         \<and> 40 \<le> length (iv_data c) \<and> iv_accounts c \<noteq> []
      then Some (hd (iv_accounts c), be_int (take 32 (drop 8 (iv_data c)))) else None)"

definition ct_deposits :: "string \<Rightarrow> chain_tx \<Rightarrow> (string \<times> int) list" where
  "ct_deposits program x = List.map_filter (deposit_of program) (concat (map (\<lambda>(c, made). c # made) (ct_calls x)))"

definition chain_deposits :: "string \<Rightarrow> string \<Rightarrow> chain_tx list \<Rightarrow> int list" where
  "chain_deposits program pool xs = concat (map (\<lambda>x. map snd (filter (\<lambda>d. fst d = pool) (ct_deposits program x))) xs)"

text \<open>The pool's counter: its deposits got the indices 0, 1, 2 and so on; an index fits a tree of depth 20.\<close>

definition numbers_of :: "string \<Rightarrow> string \<Rightarrow> chain_tx \<Rightarrow> nat list" where
  "numbers_of program pool x = map snd (filter (\<lambda>(d, i). fst d = pool) (zip (ct_deposits program x) (ct_numbers x)))"

definition counted :: "string \<Rightarrow> string \<Rightarrow> chain_tx list \<Rightarrow> bool" where
  "counted program pool xs \<longleftrightarrow> (\<forall>x\<in>set xs. length (ct_numbers x) = length (ct_deposits program x) \<and> (\<forall>i\<in>set (ct_numbers x). i < 2 ^ 20))
     \<and> concat (map (numbers_of program pool) xs) = [0..<length (chain_deposits program pool xs)]"

subsection \<open>The RPC\<close>

text \<open>
  An instruction of a transaction's JSON names the program and the accounts by their places in the account
  keys, followed by the addresses loaded from tables, writable then readonly; its data is base58.
\<close>

definition renders_ix :: "(string \<Rightarrow> bytes js) \<Rightarrow> string list \<Rightarrow> tx_instruction \<Rightarrow> invocation \<Rightarrow> bool" where
  "renders_ix decode keys ix c \<longleftrightarrow>
     ti_programIdIndex ix < length keys \<and> keys ! ti_programIdIndex ix = iv_program c
     \<and> list_all2 (\<lambda>a k. a < length keys \<and> keys ! a = k) (ti_accounts ix) (iv_accounts c)
     \<and> decode (ti_data ix) = Returns (iv_data c)"

text \<open>Inner instructions come in groups, at most one for each top-level instruction, under its position.\<close>

definition renders_tx :: "(string \<Rightarrow> bytes js) \<Rightarrow> raw_tx \<Rightarrow> raw_meta \<Rightarrow> chain_tx \<Rightarrow> bool" where
  "renders_tx decode tx m x \<longleftrightarrow>
     rx_meta tx = Some m \<and> \<not> rm_err m \<and> rx_slot tx = Some (ct_slot x) \<and> distinct (map fst (rm_inner m))
     \<and> list_all2 (renders_ix decode (rx_keys tx @ rm_writable m @ rm_readonly m)) (rx_instructions tx) (map fst (ct_calls x))
     \<and> (\<forall>i<length (ct_calls x). list_all2 (renders_ix decode (rx_keys tx @ rm_writable m @ rm_readonly m))
          (case map_of (rm_inner m) i of None \<Rightarrow> [] | Some ixs \<Rightarrow> ixs) (snd (ct_calls x ! i)))"

text \<open>
  The RPC pages through the pool's history, newest first; its successful transactions are \<open>xs\<close>, oldest
  first, which it serves as their rendering; and it lists the transactions of a block in order.
\<close>

definition truthful_chain :: "chain_codec \<Rightarrow> rebuild_rpc \<Rightarrow> sig_info list \<Rightarrow> chain_tx list \<Rightarrow> bool" where
  "truthful_chain cc net hist xs \<longleftrightarrow>
     (\<forall>k before until_s. rr_signatures net k before until_s = Returns (take scan_page_size (older_than before (newer_than until_s hist))))
     \<and> distinct (map sg_signature hist)
     \<and> map ct_sig xs = map sg_signature (filter (\<lambda>s. \<not> sg_err s) (rev hist))
     \<and> (\<forall>x\<in>set xs. \<exists>tx m. rr_transaction net (ct_sig x) = Returns (RpcResult (Some tx)) \<and> renders_tx (cc_decode cc) tx m x)
     \<and> sorted (map ct_slot xs)
     \<and> (\<forall>x\<in>set xs. \<exists>block. rr_block net (ct_slot x) = Returns block
          \<and> filter (\<lambda>s. s \<in> ct_sig ` {y \<in> set xs. ct_slot y = ct_slot x}) block
            = map ct_sig (filter (\<lambda>y. ct_slot y = ct_slot x) xs))"

subsection \<open>The logs\<close>

text \<open>The index of an event under either name, as a number or a BigInt.\<close>

definition tells_index :: "parsed_event \<Rightarrow> nat \<Rightarrow> bool" where
  "tells_index e i \<longleftrightarrow> i < 2 ^ 53 \<and>
     (pe_leaf_index e \<in> {NumIndex (Finite (of_nat i)), BigIndex (int i)}
      \<or> pe_leaf_index e = NoIndex \<and> pe_leafIndex e \<in> {NumIndex (Finite (of_nat i)), BigIndex (int i)})"

definition is_deposit_event :: "parsed_event \<Rightarrow> bool" where
  "is_deposit_event e \<longleftrightarrow> pe_name e \<in> {''DepositEvent'', ''depositEvent''}"

text \<open>A log that can be read: whatever it says, each deposit event in it has an index.\<close>

definition readable_logs :: "chain_codec \<Rightarrow> rebuild_rpc \<Rightarrow> chain_tx list \<Rightarrow> bool" where
  "readable_logs cc net xs \<longleftrightarrow> (\<forall>x\<in>set xs. \<forall>tx m. rr_transaction net (ct_sig x) = Returns (RpcResult (Some tx)) \<and> rx_meta tx = Some m
     \<longrightarrow> (\<forall>ev\<in>set (cc_parseLogs cc (rm_logs m)). \<exists>e. ev = Returns e \<and> (is_deposit_event e \<longrightarrow> (\<exists>i. tells_index e i))))"

text \<open>A log of the program: the first \<open>ct_kept\<close> of its deposit events, each with the commitment and its index.\<close>

definition program_logs :: "string \<Rightarrow> chain_codec \<Rightarrow> rebuild_rpc \<Rightarrow> chain_tx list \<Rightarrow> bool" where
  "program_logs program cc net xs \<longleftrightarrow> (\<forall>x\<in>set xs. \<forall>tx m. rr_transaction net (ct_sig x) = Returns (RpcResult (Some tx)) \<and> rx_meta tx = Some m
     \<longrightarrow> (\<exists>es. cc_parseLogs cc (rm_logs m) = map Returns es
          \<and> list_all2 (\<lambda>e (leaf, i). be_int (pe_leaf e) = leaf \<and> tells_index e i) (filter is_deposit_event es)
              (take (ct_kept x) (zip (map snd (ct_deposits program x)) (ct_numbers x)))))"

subsection \<open>The scan reads the chain\<close>

lemma consider_rendered:
  assumes "renders_ix decode keys ix c"
  shows "consider_ix decode program keys ix = Returns (case deposit_of program c of None \<Rightarrow> [] | Some d \<Rightarrow> [d])"
proof -
  have p: "key_at keys (ti_programIdIndex ix) = Some (iv_program c)" and d: "decode (ti_data ix) = Returns (iv_data c)"
    using assms by (simp_all add: renders_ix_def key_at_def)
  have a: "deposit_pool keys ix = (case iv_accounts c of [] \<Rightarrow> None | k # ks \<Rightarrow> Some k)"
    using assms by (cases "iv_accounts c"; cases "ti_accounts ix") (auto simp: renders_ix_def deposit_pool_def key_at_def)
  have t: "bytesToBigInt (subarray b 8 40) = be_int (take 32 (drop 8 b))" for b
    by (simp add: bytesToBigInt_def be_int_def subarray_def)
  have disc: "merkle_DEPOSIT_DISCRIMINATOR = IDL_DEPOSIT_DISCRIMINATOR"
    by (simp add: merkle_DEPOSIT_DISCRIMINATOR_def IDL_DEPOSIT_DISCRIMINATOR_def)
  show ?thesis by (cases "iv_accounts c") (auto simp: consider_ix_def deposit_of_def p d a t disc)
qed

lemma map_of_rev_distinct: "distinct (map fst xs) \<Longrightarrow> map_of (rev xs) = map_of xs"
  by (subst map_of_inject_set) (simp_all add: rev_map [symmetric])

lemma executed_rendered:
  assumes "renders_tx decode tx m x"
  shows "list_all2 (renders_ix decode (tx_keys tx)) (executed_ixs tx) (concat (map (\<lambda>(c, made). c # made) (ct_calls x)))"
proof -
  let ?keys = "rx_keys tx @ rm_writable m @ rm_readonly m"
  have k: "tx_keys tx = ?keys" using assms by (simp add: renders_tx_def tx_keys_def)
  have inner: "inner_of tx i = (case map_of (rm_inner m) i of None \<Rightarrow> [] | Some ixs \<Rightarrow> ixs)" for i
    using assms map_of_rev_distinct [of "rm_inner m"] by (simp add: renders_tx_def inner_of_def)
  have top: "list_all2 (renders_ix decode ?keys) (rx_instructions tx) (map fst (ct_calls x))"
    and made: "\<And>i. i < length (ct_calls x) \<Longrightarrow> list_all2 (renders_ix decode ?keys) (inner_of tx i) (snd (ct_calls x ! i))"
    using assms inner by (simp_all add: renders_tx_def)
  have "list_all2 (renders_ix decode ?keys) (concat (map (\<lambda>(i, ix). ix # inner_of tx i) (enumerate k ixs))) (concat (map (\<lambda>(c, made). c # made) cs))"
    if "list_all2 (renders_ix decode ?keys) ixs (map fst cs)" "\<forall>i<length cs. list_all2 (renders_ix decode ?keys) (inner_of tx (k + i)) (snd (cs ! i))"
    for ixs cs k
    using that
  proof (induction cs arbitrary: ixs k)
    case (Cons c cs)
    then obtain ix rest where ix: "ixs = ix # rest" "renders_ix decode ?keys ix (fst c)" "list_all2 (renders_ix decode ?keys) rest (map fst cs)"
      by (auto simp: list_all2_Cons2)
    have "list_all2 (renders_ix decode ?keys) (inner_of tx (Suc k + i)) (snd (cs ! i))" if "i < length cs" for i
      using Cons.prems(2) [THEN spec, of "Suc i"] that by simp
    then have tl: "list_all2 (renders_ix decode ?keys) (concat (map (\<lambda>(i, ix). ix # inner_of tx i) (enumerate (Suc k) rest)))
        (concat (map (\<lambda>(c, made). c # made) cs))"
      by (intro Cons.IH [OF ix(3)]) blast
    have "list_all2 (renders_ix decode ?keys) (inner_of tx k) (snd c)" using Cons.prems(2) [THEN spec, of 0] by simp
    then show ?case using list_all2_appendI [OF _ tl] ix(1,2) by (cases c) simp
  qed simp
  from this [OF top, of 0] made show ?thesis by (simp add: executed_ixs_def k)
qed

lemma depositInstructions_rendered:
  assumes "renders_tx decode tx m x"
  shows "depositInstructions decode tx program = Returns (ct_deposits program x)"
proof -
  have "js_map (consider_ix decode program keys) ixs = Returns (map (\<lambda>c. case deposit_of program c of None \<Rightarrow> [] | Some d \<Rightarrow> [d]) cs)"
    if "list_all2 (renders_ix decode keys) ixs cs" for ixs cs keys
    using that by (induction rule: list_all2_induct) (simp_all add: consider_rendered)
  note r = this [OF executed_rendered [OF assms]]
  have "concat (map (\<lambda>c. case deposit_of program c of None \<Rightarrow> [] | Some d \<Rightarrow> [d]) cs) = List.map_filter (deposit_of program) cs" for cs
    by (induction cs) (auto simp: map_filter_simps split: option.split)
  then show ?thesis by (simp add: depositInstructions_def r ct_deposits_def)
qed

lemma tells_index_usable:
  assumes "tells_index e i"
  shows "usable_index (raw_index e) = Some i"
proof -
  have "rnd (int i) = int i" using assms by (intro rnd_exact) (simp add: tells_index_def)
  then show ?thesis using assms by (auto simp: tells_index_def raw_index_def usable_index_def)
qed

lemma readable_events:
  assumes "\<forall>ev\<in>set evs. \<exists>e. ev = Returns e \<and> (is_deposit_event e \<longrightarrow> (\<exists>i. tells_index e i))"
  shows "\<exists>r. js_map deposit_event evs = Returns r"
  using assms
proof (induction evs)
  case (Cons ev evs)
  then obtain e where e: "ev = Returns e" "is_deposit_event e \<longrightarrow> (\<exists>i. tells_index e i)" by auto
  then have "\<exists>r. deposit_event ev = Returns r" by (auto simp: deposit_event_def is_deposit_event_def tells_index_usable)
  then show ?case using Cons by auto
qed simp

lemma program_events:
  assumes "list_all2 (\<lambda>e (leaf, i). be_int (pe_leaf e) = leaf \<and> tells_index e i) (filter is_deposit_event es) out"
  shows "\<exists>r. js_map deposit_event (map Returns es) = Returns r \<and> concat r = out"
  using assms
proof (induction es arbitrary: out)
  case (Cons e es)
  show ?case
  proof (cases "is_deposit_event e")
    case True
    then obtain i out' where o: "out = (be_int (pe_leaf e), i) # out'" "tells_index e i"
        "list_all2 (\<lambda>e (leaf, i). be_int (pe_leaf e) = leaf \<and> tells_index e i) (filter is_deposit_event es) out'"
      using Cons.prems by (auto simp: list_all2_Cons1)
    have "deposit_event (Returns e) = Returns [(be_int (pe_leaf e), i)]"
      using True o(2) by (auto simp: deposit_event_def is_deposit_event_def tells_index_usable bytesToBigInt_def be_int_def)
    moreover obtain r where "js_map deposit_event (map Returns es) = Returns r" "concat r = out'" using Cons.IH [OF o(3)] by blast
    ultimately show ?thesis using o(1) by (auto intro!: exI [of _ "[(be_int (pe_leaf e), i)] # r"])
  next
    case False
    then have "deposit_event (Returns e) = Returns []" by (simp add: deposit_event_def is_deposit_event_def)
    moreover obtain r where "js_map deposit_event (map Returns es) = Returns r" "concat r = out" using Cons False by auto
    ultimately show ?thesis by (auto intro!: exI [of _ "[] # r"])
  qed
qed simp

text \<open>What the reader sees of a transaction, when its log yields the events \<open>es\<close>.\<close>

definition seen_as :: "string \<Rightarrow> (chain_tx \<Rightarrow> (int \<times> nat) list) \<Rightarrow> chain_tx \<Rightarrow> executed_tx" where
  "seen_as program es x = \<lparr>ex_sig = ct_sig x, ex_slot = ct_slot x, ex_deposits = ct_deposits program x, ex_events = es x\<rparr>"

lemma seen_as_simps [simp]:
  "ex_sig (seen_as program es x) = ct_sig x" "ex_slot (seen_as program es x) = ct_slot x"
  "ex_deposits (seen_as program es x) = ct_deposits program x" "ex_events (seen_as program es x) = es x"
  by (simp_all add: seen_as_def)

lemma chain_is_served:
  assumes t: "truthful_chain cc net hist xs"
    and e: "\<And>x tx m. x \<in> set xs \<Longrightarrow> rr_transaction net (ct_sig x) = Returns (RpcResult (Some tx)) \<Longrightarrow> rx_meta tx = Some m
      \<Longrightarrow> tx_events (cc_parseLogs cc) m = Returns (es x)"
  shows "truthful_rpc cc program net hist (map (seen_as program es) xs)"
proof -
  note t = t [unfolded truthful_chain_def]
  have s: "serves cc program net (seen_as program es x)" if x: "x \<in> set xs" for x
  proof -
    obtain tx m where tx: "rr_transaction net (ct_sig x) = Returns (RpcResult (Some tx))" "renders_tx (cc_decode cc) tx m x" using t x by blast
    then have m: "rx_meta tx = Some m" "\<not> rm_err m" "rx_slot tx = Some (ct_slot x)" by (simp_all add: renders_tx_def)
    show ?thesis using tx(1) m e [OF x tx(1) m(1)] depositInstructions_rendered [OF tx(2)] by (simp add: serves_def)
  qed
  have slot: "in_slot t (map (seen_as program es) xs) = map ct_sig (filter (\<lambda>y. ct_slot y = t) xs)" for t
    by (simp add: in_slot_def filter_map o_def)
  have "set (map ct_sig (filter (\<lambda>y. ct_slot y = u) xs)) = ct_sig ` {y \<in> set xs. ct_slot y = u}" for u by auto
  then show ?thesis using t s unfolding truthful_rpc_def by (simp add: slot o_def)
qed

lemma deposits_seen: "map fst (pool_deposits pool (map (seen_as program es) xs)) = chain_deposits program pool xs"
proof -
  have "map fst (flagged pool ds evs) = map snd (filter (\<lambda>d. fst d = pool) ds)" for ds evs
  proof -
    have "map fst (flagged pool ds evs) = map (snd \<circ> snd) (filter ((\<lambda>d. fst d = pool) \<circ> snd) (enumerate 0 ds))"
      unfolding flagged_def by (auto simp: o_def intro!: map_cong filter_cong)
    also have "\<dots> = map snd (filter (\<lambda>d. fst d = pool) (map snd (enumerate 0 ds)))" by (simp only: filter_map map_map)
    finally show ?thesis by simp
  qed
  then show ?thesis by (simp add: pool_deposits_def chain_deposits_def map_concat o_def)
qed

lemma split_index_mset: "mset (map fst (with_index ds)) + mset (without_index ds) = mset (map fst ds)"
proof (induction ds)
  case (Cons d ds)
  then show ?case by (cases d; cases "snd d") auto
qed simp

subsection \<open>The indices\<close>

lemma flagged_numbers:
  assumes "length ns = length ds" "aligned ds (take k (zip (map snd ds) ns))"
  shows "list_all2 (\<lambda>d i. snd d \<in> {None, Some i}) (flagged pool ds (take k (zip (map snd ds) ns)))
    (map snd (filter (\<lambda>(d, i). fst d = pool) (zip ds ns)))"
proof -
  let ?es = "take k (zip (map snd ds) ns)"
  have nth: "snd (?es ! (j - m)) = ns ! (j - m)" if "j - m < length ?es" for j m using that by simp
  have "list_all2 (\<lambda>d i. snd d \<in> {None, Some i})
      (map (\<lambda>(j, p, leaf). (leaf, if paired ds ?es j then Some (snd (?es ! j)) else None)) (filter (\<lambda>(j, p, leaf). p = pool) (enumerate m ts)))
      (map snd (filter (\<lambda>(d, i). fst d = pool) (zip ts ms)))"
    if "length ms = length ts" "\<forall>j<length ms. m + j < length ?es \<longrightarrow> snd (?es ! (m + j)) = ms ! j" for ts ms m
    using that
  proof (induction ts arbitrary: ms m)
    case (Cons t ts)
    then obtain i js where ms: "ms = i # js" "length js = length ts" by (cases ms) auto
    have h: "m < length ?es \<longrightarrow> snd (?es ! m) = i" using Cons.prems(2) [THEN spec, of 0] by (simp add: ms(1))
    have "Suc m + j < length ?es \<longrightarrow> snd (?es ! (Suc m + j)) = js ! j" if "j < length js" for j
      using Cons.prems(2) [THEN spec, of "Suc j"] that by (simp add: ms(1))
    then have "list_all2 (\<lambda>d i. snd d \<in> {None, Some i})
      (map (\<lambda>(j, p, leaf). (leaf, if paired ds ?es j then Some (snd (?es ! j)) else None)) (filter (\<lambda>(j, p, leaf). p = pool) (enumerate (Suc m) ts)))
      (map snd (filter (\<lambda>(d, i). fst d = pool) (zip ts js)))"
      by (intro Cons.IH ms(2)) blast
    then show ?case using h by (cases t) (auto simp: ms(1) paired_def)
  qed simp
  from this [of ns ds 0] assms(1) show ?thesis by (simp add: flagged_def)
qed

lemma kept_aligned: "length ns = length ds \<Longrightarrow> aligned ds (take k (zip (map snd ds) ns))"
proof -
  have "list_all (\<lambda>(e, d). fst e = snd d) (zip (zip (map snd ds) ns) ds)" if "length ns = length ds"
    using that by (induction ns ds rule: list_induct2) simp_all
  moreover assume "length ns = length ds"
  ultimately have "list_all (\<lambda>(e, d). fst e = snd d) (take k (zip (zip (map snd ds) ns) ds))"
    by (auto simp: list_all_iff dest: in_set_takeD)
  then show ?thesis using \<open>length ns = length ds\<close>
    by (simp add: aligned_def take_zip list_all_iff set_zip min_def) force
qed

lemma numbered_from_list_all2: "list_all2 (\<lambda>d i. snd d \<in> {None, Some i}) ds [m..<m + length ds] \<Longrightarrow> numbered_from m ds"
proof (induction ds arbitrary: m)
  case (Cons d ds)
  have "[m..<m + length (d # ds)] = m # [Suc m..<Suc m + length ds]" by (simp add: upt_rec)
  then show ?case using Cons by simp
qed simp

lemma counted_numbered:
  assumes c: "counted program pool xs" and es: "\<And>x. x \<in> set xs \<Longrightarrow> es x = take (ct_kept x) (zip (map snd (ct_deposits program x)) (ct_numbers x))"
  shows "numbered_from 0 (pool_deposits pool (map (seen_as program es) xs))"
proof -
  let ?D = "pool_deposits pool (map (seen_as program es) xs)"
  have "list_all2 (\<lambda>d i. snd d \<in> {None, Some i}) (concat (map (\<lambda>x. flagged pool (ct_deposits program x) (es x)) ys))
      (concat (map (numbers_of program pool) ys))" if "set ys \<subseteq> set xs" for ys
    using that
  proof (induction ys)
    case (Cons y ys)
    have "length (ct_numbers y) = length (ct_deposits program y)" using c Cons.prems by (simp add: counted_def)
    then have "list_all2 (\<lambda>d i. snd d \<in> {None, Some i}) (flagged pool (ct_deposits program y) (es y)) (numbers_of program pool y)"
      using flagged_numbers [OF _ kept_aligned] es Cons.prems by (simp add: numbers_of_def)
    then show ?case using Cons by (simp add: list_all2_appendI)
  qed simp
  from this [of xs] have "list_all2 (\<lambda>d i. snd d \<in> {None, Some i}) ?D [0..<length (chain_deposits program pool xs)]"
    using c by (simp add: pool_deposits_def o_def counted_def)
  moreover have "length ?D = length (chain_deposits program pool xs)" using deposits_seen by (metis length_map)
  ultimately show ?thesis using numbered_from_list_all2 [of ?D 0] by simp
qed

subsection \<open>The scan\<close>

definition log_events :: "chain_codec \<Rightarrow> rebuild_rpc \<Rightarrow> chain_tx \<Rightarrow> (int \<times> nat) list" where
  "log_events cc net x = (case rr_transaction net (ct_sig x) of
       Returns (RpcResult (Some tx)) \<Rightarrow> returned (tx_events (cc_parseLogs cc) (the (rx_meta tx))) | _ \<Rightarrow> [])"

lemma readable_served:
  assumes "truthful_chain cc net hist xs" "readable_logs cc net xs"
  shows "truthful_rpc cc program net hist (map (seen_as program (log_events cc net)) xs)"
proof (rule chain_is_served [OF assms(1)])
  fix x tx m
  assume x: "x \<in> set xs" "rr_transaction net (ct_sig x) = Returns (RpcResult (Some tx))" "rx_meta tx = Some m"
  then have "\<forall>ev\<in>set (cc_parseLogs cc (rm_logs m)). \<exists>e. ev = Returns e \<and> (is_deposit_event e \<longrightarrow> (\<exists>i. tells_index e i))"
    using assms(2) unfolding readable_logs_def by blast
  then obtain r where "js_map deposit_event (cc_parseLogs cc (rm_logs m)) = Returns r" using readable_events by blast
  then show "tx_events (cc_parseLogs cc) m = Returns (log_events cc net x)" using x(2,3) by (simp add: log_events_def tx_events_def)
qed

lemma program_log_events:
  assumes "program_logs program cc net xs" "x \<in> set xs" "rr_transaction net (ct_sig x) = Returns (RpcResult (Some tx))" "rx_meta tx = Some m"
  shows "tx_events (cc_parseLogs cc) m = Returns (take (ct_kept x) (zip (map snd (ct_deposits program x)) (ct_numbers x)))"
    "log_events cc net x = take (ct_kept x) (zip (map snd (ct_deposits program x)) (ct_numbers x))"
proof -
  obtain es where es: "cc_parseLogs cc (rm_logs m) = map Returns es"
      "list_all2 (\<lambda>e (leaf, i). be_int (pe_leaf e) = leaf \<and> tells_index e i) (filter is_deposit_event es)
        (take (ct_kept x) (zip (map snd (ct_deposits program x)) (ct_numbers x)))"
    using assms unfolding program_logs_def by blast
  obtain r where "js_map deposit_event (map Returns es) = Returns r" "concat r = take (ct_kept x) (zip (map snd (ct_deposits program x)) (ct_numbers x))"
    using program_events [OF es(2)] by blast
  then show e: "tx_events (cc_parseLogs cc) m = Returns (take (ct_kept x) (zip (map snd (ct_deposits program x)) (ct_numbers x)))"
    by (simp add: tx_events_def es(1))
  show "log_events cc net x = take (ct_kept x) (zip (map snd (ct_deposits program x)) (ct_numbers x))"
    using assms(3,4) e by (simp add: log_events_def)
qed

lemma program_served:
  assumes "truthful_chain cc net hist xs" "program_logs program cc net xs" "counted program pool xs"
  shows "truthful_rpc cc program net hist (map (seen_as program (log_events cc net)) xs)"
    "numbered_from 0 (pool_deposits pool (map (seen_as program (log_events cc net)) xs))"
proof -
  show "truthful_rpc cc program net hist (map (seen_as program (log_events cc net)) xs)"
    by (rule chain_is_served [OF assms(1)]) (metis program_log_events [OF assms(2)])
  show "numbered_from 0 (pool_deposits pool (map (seen_as program (log_events cc net)) xs))"
  proof (rule counted_numbered [OF assms(3)])
    fix x
    assume x: "x \<in> set xs"
    then obtain tx m where "rr_transaction net (ct_sig x) = Returns (RpcResult (Some tx))" "renders_tx (cc_decode cc) tx m x"
      using assms(1) unfolding truthful_chain_def by blast
    then show "log_events cc net x = take (ct_kept x) (zip (map snd (ct_deposits program x)) (ct_numbers x))"
      using program_log_events(2) [OF assms(2) x] by (auto simp: renders_tx_def)
  qed
qed

lemma without_index_subseq: "subseq (without_index ds) (map fst ds)"
proof (induction ds)
  case (Cons d ds)
  then show ?case by (cases d; cases "snd d") (auto intro: list_emb_Cons)
qed simp

text \<open>
  C18. The scan misses no deposit. Take any run of transactions, each with calls of programs and the calls
  those made, and an RPC that pages through the pool's history and serves the successful ones; whatever
  accounts, tables and programs are involved, as long as each deposit event in a log has an index. Then one
  unit of fuel more than the history has entries is enough, and the scan from the start returns exactly
  the deposits made to the pool, each once, with or without an index, top-level or called by another
  program; those without in the order they were executed. Where the logs are the program's, every index
  is the deposit's own place.
\<close>

theorem scan_finds_every_deposit:
  assumes "truthful_chain cc net hist xs" "length hist < fuel"
    and "readable_logs cc net xs"
  shows "\<exists>r. scanDeposits fuel cc net program pool None = Some (Returns r)
    \<and> mset (map fst (sr_indexed r)) + mset (sr_unindexed r) = mset (chain_deposits program pool xs)
    \<and> subseq (sr_unindexed r) (chain_deposits program pool xs)
    \<and> (program_logs program cc net xs \<and> counted program pool xs \<longrightarrow>
         (\<forall>(leaf, i)\<in>set (sr_indexed r). i < length (chain_deposits program pool xs) \<and> chain_deposits program pool xs ! i = leaf))"
proof -
  let ?D = "pool_deposits pool (map (seen_as program (log_events cc net)) xs)"
  note D = deposits_seen [of pool program "log_events cc net" xs]
  obtain newest where s: "scanDeposits fuel cc net program pool None = Some (Returns
      \<lparr>sr_indexed = with_index ?D, sr_unindexed = without_index ?D, sr_newest = newest\<rparr>)"
    using truthful_scan [OF readable_served [OF assms(1,3)] assms(2), where u = None and poolKey = pool] by auto
  have "i < length (map fst ?D) \<and> map fst ?D ! i = leaf"
    if "program_logs program cc net xs" "counted program pool xs" "(leaf, i) \<in> set (with_index ?D)" for leaf i
    using numbered_with_index [OF program_served(2) [OF assms(1) that(1,2)]] that(3) by auto
  then show ?thesis using s split_index_mset [of ?D] without_index_subseq [of ?D] unfolding D by auto
qed

text \<open>A deposit that another program makes for its caller, in a transaction whose log was cut off.\<close>

definition routed_tx :: raw_tx where
  "routed_tx = \<lparr>rx_slot = Some 5, rx_keys = [''me'', ''router'', ''prog''],
     rx_instructions = [\<lparr>ti_programIdIndex = 1, ti_data = ''d'', ti_accounts = [0, 3]\<rparr>],
     rx_meta = Some \<lparr>rm_err = False, rm_logs = [], rm_inner = [(0, [\<lparr>ti_programIdIndex = 2, ti_data = ''d'', ti_accounts = [3, 0]\<rparr>])],
       rm_writable = [''pool''], rm_readonly = []\<rparr>\<rparr>"

definition routed_data :: bytes where
  "routed_data = IDL_DEPOSIT_DISCRIMINATOR @ replicate 31 0 @ [7]"

definition routed :: chain_tx where
  "routed = \<lparr>ct_sig = ''s'', ct_slot = 5,
     ct_calls = [(\<lparr>iv_program = ''router'', iv_accounts = [''me'', ''pool''], iv_data = routed_data\<rparr>,
       [\<lparr>iv_program = ''prog'', iv_accounts = [''pool'', ''me''], iv_data = routed_data\<rparr>])],
     ct_numbers = [0], ct_kept = 0\<rparr>"

definition routed_net :: rebuild_rpc where
  "routed_net = \<lparr>rr_signatures = (\<lambda>k before until_s. Returns (take scan_page_size (older_than before (newer_than until_s silent_history)))),
     rr_transaction = (\<lambda>s. Returns (RpcResult (Some routed_tx))), rr_block = (\<lambda>t. Returns [''r'', ''s''])\<rparr>"

lemma routed_deposits: "chain_deposits ''prog'' ''pool'' [routed] = [7]"
  by code_simp

lemma routed_chain: "truthful_chain silent_codec routed_net silent_history [routed]"
proof -
  have "renders_tx (cc_decode silent_codec) routed_tx (the (rx_meta routed_tx)) routed"
    by (simp add: renders_tx_def renders_ix_def routed_tx_def routed_def routed_data_def silent_codec_def
        merkle_DEPOSIT_DISCRIMINATOR_def IDL_DEPOSIT_DISCRIMINATOR_def)
  moreover have "rx_meta routed_tx = Some (the (rx_meta routed_tx))" by (simp add: routed_tx_def)
  ultimately show ?thesis
    by (auto simp: truthful_chain_def routed_net_def silent_history_def routed_def)
qed

lemma routed_logs: "readable_logs silent_codec routed_net [routed]" "program_logs ''prog'' silent_codec routed_net [routed]"
  by (simp_all add: readable_logs_def program_logs_def silent_codec_def routed_def)

lemma routed_counted: "counted ''prog'' ''pool'' [routed]"
  by code_simp

lemma scan_finds_every_deposit_witness:
  "\<exists>r. scanDeposits 2 silent_codec routed_net ''prog'' ''pool'' None = Some (Returns r)
    \<and> mset (map fst (sr_indexed r)) + mset (sr_unindexed r) = {#7#}"
  using scan_finds_every_deposit [OF routed_chain _ routed_logs(1), of 2 "''prog''" "''pool''"]
  by (auto simp: routed_deposits silent_history_def)

end
