(* ===== verification/AppChain.thy ===== *)
theory AppChain
  imports ChainView
begin

text \<open>
  What the browser sends to and reads from the chain itself: app/src/utils/program.ts (addresses,
  the deposit transaction) and app/src/utils/withdrawalCheck.ts (confirming that a withdrawal
  happened). PDA derivation, base58, the RPC and the clock are parameters. What is proved: the leaf a
  deposit inserts is the one a rebuild finds, the browser and the relayer mean the same nullifier
  account, and a withdrawal is reported as done only when the chain records it.
\<close>

subsection \<open>The deposit transaction\<close>

definition app_findVaultPda :: "find_pda \<Rightarrow> pubkey \<Rightarrow> pubkey \<Rightarrow> pubkey js" where
  "app_findVaultPda pda programId poolPda = pda [ascii_bytes ''vault'', poolPda] programId"

text \<open>\<open>writeBigUInt64LE\<close> throws out of range; \<open>Buffer.from([version])\<close> keeps the low byte.\<close>

definition findPoolPda :: "find_pda \<Rightarrow> pubkey \<Rightarrow> pubkey \<Rightarrow> int \<Rightarrow> int \<Rightarrow> pubkey js" where
  "findPoolPda pda programId admin denomination version =
     (if denomination < 0 \<or> 2 ^ 64 \<le> denomination then Throws ''The value of \"value\" is out of range.''
      else pda [ascii_bytes ''pool'', admin, replicate 32 0, le_bytes 8 denomination, [word_of_int version]] programId)"

text \<open>An array of numbers: None is NaN.\<close>

definition bigintToBytes32 :: "int \<Rightarrow> int option list" where
  "bigintToBytes32 n =
     (let hex = padStart 64 (CHR ''0'') (big_to_string 16 n)
      in map (\<lambda>i. parse_int_hex (subarray hex (i * 2) (i * 2 + 2))) [0..<32])"

record deposit_tx =
  dt_commitment :: "int option list"
  dt_pool :: pubkey
  dt_vault :: pubkey
  dt_depositor :: pubkey
  dt_systemProgram :: pubkey

definition buildDepositTx :: "find_pda \<Rightarrow> pubkey \<Rightarrow> pubkey \<Rightarrow> pubkey \<Rightarrow> pubkey \<Rightarrow> int \<Rightarrow> deposit_tx js" where
  "buildDepositTx pda programId system poolPda payer commitment =
     js_bind (app_findVaultPda pda programId poolPda) (\<lambda>vaultPda.
       Returns \<lparr>dt_commitment = bigintToBytes32 commitment, dt_pool = poolPda, dt_vault = vaultPda,
         dt_depositor = payer, dt_systemProgram = system\<rparr>)"

subsection \<open>The nullifier account\<close>

text \<open>\<open>for (i = 31; i >= 0; i--) { hash[i] = Number(v & 0xffn); v >>= 8n; }\<close>.\<close>

fun store_low_bytes :: "nat \<Rightarrow> int \<Rightarrow> bytes \<Rightarrow> bytes" where
  "store_low_bytes 0 v hash = hash"
| "store_low_bytes (Suc i) v hash = store_low_bytes i (drop_bit 8 v) (hash[i := word_of_int (v AND 0xff)])"

definition nullifierAccount :: "find_pda \<Rightarrow> pubkey \<Rightarrow> pubkey \<Rightarrow> int \<Rightarrow> pubkey js" where
  "nullifierAccount pda programId pool nullifierHash =
     pda [ascii_bytes ''nullifier'', pool, store_low_bytes 32 nullifierHash (replicate 32 0)] programId"

lemma store_low_bytes_eq: "k \<le> length hash \<Longrightarrow> store_low_bytes k v hash = be_bytes k v @ drop k hash"
proof (induction k arbitrary: v hash)
  case (Suc k)
  have "(word_of_int (v AND 0xff) :: byte) = word_of_int v"
    by (simp add: word_of_int_eq_iff take_bit_eq_mask mask_eq_exp_minus_1 and.assoc)
  moreover have "drop_bit 8 v = v div 256" by (simp add: drop_bit_eq_div)
  ultimately show ?case
    using Suc.IH [of "hash[k := word_of_int v]" "v div 256"] Suc.prems
    by (simp add: Cons_nth_drop_Suc [symmetric] drop_update_cancel)
qed simp

text \<open>
  The browser and the relayer agree on the chain's addresses: for every nullifier hash of 256 bits
  the account the browser looks for is the account the relayer creates, although one shifts bits and
  the other prints hex; and both derive the same vault for a pool.
\<close>

theorem nullifier_account_agrees:
  assumes "0 \<le> h" "h < 2 ^ 256"
  shows "nullifierAccount pda programId pool h = findNullifierPda pda pool (bigIntToBytes32 h) programId
    \<and> app_findVaultPda pda programId pool = findVaultPda pda pool programId"
  using store_low_bytes_eq [of 32 "replicate 32 0" h] bigIntToBytes32_eq [OF assms]
  by (simp add: nullifierAccount_def findNullifierPda_def nullifier_seeds_def app_findVaultPda_def findVaultPda_def)

lemma nullifier_account_agrees_witness:
  "nullifierAccount (\<lambda>s p. Returns (concat s)) [1] [9] 258 = findNullifierPda (\<lambda>s p. Returns (concat s)) [9] (bigIntToBytes32 258) [1]"
  using nullifier_account_agrees [of 258 "\<lambda>s p. Returns (concat s)" "[1]" "[9]"] by simp

subsection \<open>The leaf of a deposit\<close>

text \<open>
  The instruction of app/src/idl/solnadocash.json for this transaction: its accounts by name in the IDL's
  order (pool, vault, depositor, system\_program), and its discriminator before the 32 bytes of the argument.
\<close>

definition idl_deposit :: "(pubkey \<Rightarrow> string) \<Rightarrow> string \<Rightarrow> deposit_tx \<Rightarrow> invocation" where
  "idl_deposit toBase58 programKey tx =
     \<lparr>iv_program = programKey,
      iv_accounts = map toBase58 [dt_pool tx, dt_vault tx, dt_depositor tx, dt_systemProgram tx],
      iv_data = IDL_DEPOSIT_DISCRIMINATOR @ map to_uint8 (dt_commitment tx)\<rparr>"

lemma bigintToBytes32_relayer: "map to_uint8 (bigintToBytes32 n) = bigIntToBytes32 n"
  by (simp add: bigintToBytes32_def bigIntToBytes32_def Let_def)

text \<open>
  C24. What a deposit inserts is what a rebuild finds: the deposit transaction built for a commitment of
  256 bits, sent as the instruction that the IDL describes, is a deposit of that commitment into that
  pool; and however a transaction's JSON renders the instruction, with whatever key table, account places
  and base58 text, the rebuild's instruction scan reads it back as exactly that pool and that commitment,
  which is the leaf the note's owner looks for.
\<close>

theorem deposit_is_rebuilt:
  assumes "0 \<le> c" "c < 2 ^ 256"
    and "buildDepositTx pda programId system pool payer c = Returns tx"
    and "renders_ix decode keys ix (idl_deposit toBase58 programKey tx)"
  shows "deposit_of programKey (idl_deposit toBase58 programKey tx) = Some (toBase58 pool, c)
    \<and> consider_ix decode programKey keys ix = Returns [(toBase58 pool, c)]"
proof -
  have tx: "dt_pool tx = pool" "map to_uint8 (dt_commitment tx) = be_bytes 32 c"
    using assms(3) by (auto simp: buildDepositTx_def js_bind_eq_Returns bigintToBytes32_relayer bigIntToBytes32_eq [OF assms(1,2)])
  have "be_int (be_bytes 32 c) = c" using be_int_be_bytes [of 32 c] assms(1,2) by simp
  then have "deposit_of programKey (idl_deposit toBase58 programKey tx) = Some (toBase58 pool, c)"
    by (simp add: deposit_of_def idl_deposit_def tx IDL_DEPOSIT_DISCRIMINATOR_def)
  then show ?thesis using consider_rendered [OF assms(4)] by simp
qed

lemma deposit_is_rebuilt_witness:
  "\<exists>tx :: deposit_tx. consider_ix (\<lambda>s. Returns (IDL_DEPOSIT_DISCRIMINATOR @ map to_uint8 (dt_commitment tx))) ''prog'' [''x9'', ''x5'', ''prog'', ''x2'', ''x3'']
      \<lparr>ti_programIdIndex = 2, ti_data = ''d'', ti_accounts = [0, 1, 4, 3]\<rparr> = Returns [(''x9'', 77)]"
proof -
  let ?show = "\<lambda>k :: pubkey. CHR ''x'' # (if k = [9] then ''9'' else if k = [5] then ''5'' else if k = [3] then ''3'' else ''2'')"
  obtain tx :: deposit_tx where tx: "buildDepositTx (\<lambda>s p. Returns [5]) [1] [2] [9] [3] 77 = Returns tx"
      "dt_pool tx = [9]" "dt_vault tx = [5]" "dt_depositor tx = [3]" "dt_systemProgram tx = [2]"
    by (auto simp: buildDepositTx_def app_findVaultPda_def)
  have "renders_ix (\<lambda>s. Returns (IDL_DEPOSIT_DISCRIMINATOR @ map to_uint8 (dt_commitment tx))) [''x9'', ''x5'', ''prog'', ''x2'', ''x3'']
      \<lparr>ti_programIdIndex = 2, ti_data = ''d'', ti_accounts = [0, 1, 4, 3]\<rparr> (idl_deposit ?show ''prog'' tx)"
    by (simp add: renders_ix_def idl_deposit_def tx(2-5))
  from deposit_is_rebuilt [OF _ _ tx(1) this] show ?thesis by auto
qed

subsection \<open>Confirming a withdrawal\<close>

text \<open>What the polls meet: the k-th answer, the clock after it, and the account read at the end.\<close>

record confirm_rpc =
  cf_poll :: "nat \<Rightarrow> rpc_reply js"
  cf_now :: "nat \<Rightarrow> int"
  cf_account :: "account_info option js"

definition not_confirmed :: "string \<Rightarrow> 'a js" where
  "not_confirmed reason = Throws (''The relayer says it sent your withdrawal, but it could not be confirmed on-chain: '' @ reason)"

definition check_withdrawal_tx :: "string \<Rightarrow> raw_tx \<Rightarrow> unit js" where
  "check_withdrawal_tx nullifierKey tx =
     (case rx_meta tx of
        None \<Rightarrow> not_confirmed ''the transaction failed on-chain''
      | Some m \<Rightarrow>
          if rm_err m then not_confirmed ''the transaction failed on-chain''
          else if nullifierKey \<notin> set (tx_keys tx) then not_confirmed ''the transaction it named is not a withdrawal of this note''
          else Returns ())"

text \<open>The loop runs on fuel, one unit a poll; None is out of fuel.\<close>

fun confirm_loop :: "nat \<Rightarrow> confirm_rpc \<Rightarrow> string \<Rightarrow> int \<Rightarrow> nat \<Rightarrow> unit js option" where
  "confirm_loop 0 net nullifierKey deadline k = None"
| "confirm_loop (Suc fuel) net nullifierKey deadline k =
     (case cf_poll net k of
        Throws e \<Rightarrow> Some (Throws e)
      | Returns (RpcResult (Some tx)) \<Rightarrow> Some (check_withdrawal_tx nullifierKey tx)
      | Returns _ \<Rightarrow>
          if deadline \<le> cf_now net k then Some (not_confirmed ''no such transaction was found'')
          else confirm_loop fuel net nullifierKey deadline (Suc k))"

definition check_spent :: "confirm_rpc \<Rightarrow> pubkey \<Rightarrow> unit js" where
  "check_spent net programId =
     js_bind (cf_account net) (\<lambda>a. case a of
         None \<Rightarrow> not_confirmed ''the note is not recorded as spent''
       | Some info \<Rightarrow>
           if acc_owner info \<noteq> programId \<or> acc_data info = [] then not_confirmed ''the note is not recorded as spent''
           else Returns ())"

definition confirmWithdrawalOnChain :: "nat \<Rightarrow> (string \<Rightarrow> bytes js) \<Rightarrow> (pubkey \<Rightarrow> string) \<Rightarrow> find_pda \<Rightarrow> pubkey
    \<Rightarrow> confirm_rpc \<Rightarrow> int \<Rightarrow> int \<Rightarrow> string \<Rightarrow> pubkey \<Rightarrow> int \<Rightarrow> unit js option" where
  "confirmWithdrawalOnChain fuel decode toBase58 pda programId net start timeoutMs signature pool nullifierHash =
     (if (case decode signature of Throws e \<Rightarrow> True | Returns d \<Rightarrow> length d \<noteq> 64)
      then Some (not_confirmed ''what it returned is not a transaction signature'')
      else case nullifierAccount pda programId pool nullifierHash of
          Throws e \<Rightarrow> Some (Throws e)
        | Returns nullifier \<Rightarrow>
            map_option (\<lambda>r. js_bind r (\<lambda>u. check_spent net programId))
              (confirm_loop fuel net (toBase58 nullifier) (start + timeoutMs) 0))"

lemma confirm_loop_Returns:
  "confirm_loop fuel net key deadline k = Some (Returns u) \<Longrightarrow>
    \<exists>j tx m. k \<le> j \<and> cf_poll net j = Returns (RpcResult (Some tx)) \<and> rx_meta tx = Some m \<and> \<not> rm_err m \<and> key \<in> set (tx_keys tx)"
proof (induction fuel arbitrary: k)
  case (Suc fuel)
  show ?case
  proof (cases "\<exists>tx. cf_poll net k = Returns (RpcResult (Some tx))")
    case True
    then show ?thesis
      using Suc.prems by (auto simp: check_withdrawal_tx_def not_confirmed_def split: option.splits if_splits)
  next
    case False
    then have "confirm_loop fuel net key deadline (Suc k) = Some (Returns u)"
      using Suc.prems by (auto simp: not_confirmed_def split: js.splits rpc_reply.splits option.splits if_splits)
    then show ?thesis using Suc.IH [of "Suc k"] Suc_leD by blast
  qed
qed simp

lemma confirm_loop_ends:
  "deadline \<le> cf_now net K \<Longrightarrow> k \<le> K \<Longrightarrow> K < k + fuel \<Longrightarrow> confirm_loop fuel net key deadline k \<noteq> None"
proof (induction fuel arbitrary: k)
  case (Suc fuel)
  show ?case
  proof (cases "k = K")
    case True
    then show ?thesis using Suc.prems(1) by (auto split: js.split rpc_reply.split option.split)
  next
    case False
    then have "confirm_loop fuel net key deadline (Suc k) \<noteq> None" using Suc by simp
    then show ?thesis by (auto split: js.split rpc_reply.split option.split)
  qed
qed simp

text \<open>
  C23. The browser says a withdrawal happened only if the chain says so: whatever the relayer returned as a
  signature and whatever the RPC answers, confirming succeeds only when the signature is 64 bytes, a
  poll found its transaction landed and not reverted and touching the note's own nullifier account,
  and that account exists with data under the program; and waiting always ends: once the clock passes
  the deadline at poll K, K + 1 polls are enough.
\<close>

theorem withdrawal_confirmed_only_if_spent:
  "(confirmWithdrawalOnChain fuel decode toBase58 pda programId net start timeoutMs sig pool h = Some (Returns u) \<longrightarrow>
      (\<exists>d nullifier j tx m a. decode sig = Returns d \<and> length d = 64
        \<and> nullifierAccount pda programId pool h = Returns nullifier
        \<and> cf_poll net j = Returns (RpcResult (Some tx)) \<and> rx_meta tx = Some m \<and> \<not> rm_err m
        \<and> toBase58 nullifier \<in> set (tx_keys tx)
        \<and> cf_account net = Returns (Some a) \<and> acc_owner a = programId \<and> acc_data a \<noteq> []))
   \<and> (start + timeoutMs \<le> cf_now net K \<longrightarrow>
        confirmWithdrawalOnChain (Suc K) decode toBase58 pda programId net start timeoutMs sig pool h \<noteq> None)"
proof (intro conjI impI)
  assume c: "confirmWithdrawalOnChain fuel decode toBase58 pda programId net start timeoutMs sig pool h = Some (Returns u)"
  obtain d where d: "decode sig = Returns d" "length d = 64"
    using c by (auto simp: confirmWithdrawalOnChain_def not_confirmed_def split: js.splits if_splits)
  obtain nl where n: "nullifierAccount pda programId pool h = Returns nl"
    using c d by (auto simp: confirmWithdrawalOnChain_def split: js.splits)
  obtain v where l: "confirm_loop fuel net (toBase58 nl) (start + timeoutMs) 0 = Some (Returns v)" "check_spent net programId = Returns u"
    using c by (auto simp: confirmWithdrawalOnChain_def d n js_bind_eq_Returns)
  then obtain a where "cf_account net = Returns (Some a)" "acc_owner a = programId" "acc_data a \<noteq> []"
    by (auto simp: check_spent_def js_bind_eq_Returns not_confirmed_def split: option.splits if_splits)
  then show "\<exists>d nullifier j tx m a. decode sig = Returns d \<and> length d = 64
        \<and> nullifierAccount pda programId pool h = Returns nullifier
        \<and> cf_poll net j = Returns (RpcResult (Some tx)) \<and> rx_meta tx = Some m \<and> \<not> rm_err m
        \<and> toBase58 nullifier \<in> set (tx_keys tx)
        \<and> cf_account net = Returns (Some a) \<and> acc_owner a = programId \<and> acc_data a \<noteq> []"
    using d n confirm_loop_Returns [OF l(1)] by blast
next
  assume "start + timeoutMs \<le> cf_now net K"
  then show "confirmWithdrawalOnChain (Suc K) decode toBase58 pda programId net start timeoutMs sig pool h \<noteq> None"
    using confirm_loop_ends [of "start + timeoutMs" net K 0 "Suc K"]
    by (auto simp: confirmWithdrawalOnChain_def split: js.split)
qed

definition spent_net :: confirm_rpc where
  "spent_net = \<lparr>cf_poll = (\<lambda>k. if k = 0 then Returns (RpcResult None) else Returns (RpcResult (Some silent_tx))),
     cf_now = (\<lambda>k. int k * 2000), cf_account = Returns (Some \<lparr>acc_owner = [1], acc_data = [7], acc_lamports = 0\<rparr>)\<rparr>"

lemma withdrawal_confirmed_only_if_spent_witness:
  "\<exists>a. cf_account spent_net = Returns (Some a) \<and> acc_owner a = [1] \<and> acc_data a \<noteq> []"
proof -
  have "confirmWithdrawalOnChain 3 (\<lambda>s. Returns (replicate 64 1)) (\<lambda>k. ''pool'') (\<lambda>s p. Returns [9]) [1] spent_net 0 60000 ''sig'' [8] 5
      = Some (Returns ())" by code_simp
  then show ?thesis
    using withdrawal_confirmed_only_if_spent [of 3 "\<lambda>s. Returns (replicate 64 1)" "\<lambda>k. ''pool''" "\<lambda>s p. Returns [9]" "[1]" spent_net 0 60000 "''sig''" "[8]" 5 "()" 0]
    by blast
qed

end
