(* ===== verification/AppClient.thy ===== *)
theory AppClient
  imports TxBuild PoolAccount JsNumberText
begin

text \<open>
  The browser's relayer client, app/src/hooks/useRelayer.ts, and its pool reader,
  app/src/hooks/usePool.ts. The network, base58 and public-key parsing are parameters; React state is
  the record the effect returns. What is proved: a success is reported only for a reply that carries
  a 64-byte signature, and the pool shown is the pool the relayer reads.
\<close>

subsection \<open>Requests\<close>

text \<open>
  A reply: whether its status is in the 200s, the status, and its body, which may fail to be read
  (outer) or to be JSON (inner).
\<close>

record web_reply =
  wr_ok :: bool
  wr_status :: nat
  wr_body :: "json js js"

datatype fetch_end = FetchReply web_reply | FetchAborted | FetchFailed string

definition QUOTE_TIMEOUT_MS :: nat where "QUOTE_TIMEOUT_MS = 15000"
definition SUBMIT_TIMEOUT_MS :: nat where "SUBMIT_TIMEOUT_MS = 120000"
definition HEALTH_TIMEOUT_MS :: nat where "HEALTH_TIMEOUT_MS = 5000"

text \<open>The fetch ends by itself at a time, or the timer aborts it.\<close>

definition fetchWithTimeout :: "(nat \<times> fetch_end) option \<Rightarrow> nat \<Rightarrow> web_reply js" where
  "fetchWithTimeout outcome timeoutMs =
     (case (case outcome of Some (t, e) \<Rightarrow> if t < timeoutMs then e else FetchAborted | None \<Rightarrow> FetchAborted) of
        FetchReply r \<Rightarrow> Returns r
      | FetchAborted \<Rightarrow> Throws ''The relayer did not respond''
      | FetchFailed e \<Rightarrow> Throws e)"

definition parseJson :: "web_reply \<Rightarrow> json js" where
  "parseJson res =
     js_bind (wr_body res) (\<lambda>parsed. case parsed of
         Throws e \<Rightarrow> Throws ''The relayer returned a response that is not JSON''
       | Returns j \<Rightarrow> Returns j)"

definition body_field :: "json \<Rightarrow> string \<Rightarrow> json js" where
  "body_field body name = js_member body (\<lambda>j. js_get j name)"

text \<open>\<open>for (const field of [...]) if (body[field] === undefined || body[field] === null) throw\<close>.\<close>

primrec require_fields :: "json \<Rightarrow> string list \<Rightarrow> unit js" where
  "require_fields body [] = Returns ()"
| "require_fields body (f # fs) =
     js_bind (body_field body f) (\<lambda>v.
       if v = JUndef \<or> v = JNull then Throws (''The relayer's fee quote is missing '' @ f)
       else require_fields body fs)"

definition fetchFeeQuote :: "(nat \<times> fetch_end) option \<Rightarrow> json js" where
  "fetchFeeQuote outcome =
     js_bind (fetchWithTimeout outcome QUOTE_TIMEOUT_MS) (\<lambda>res.
     js_bind (parseJson res) (\<lambda>body.
       if \<not> wr_ok res
       then js_bind (body_field body ''error'') (\<lambda>e.
         Throws (if js_truthy e then js_to_string e else ''Failed to get fee quote''))
       else js_bind (require_fields body [''relayerAddress'', ''relayerFeeMax'', ''estimatedUserReceives'']) (\<lambda>u.
         Returns body)))"

definition isTransactionSignature :: "(string \<Rightarrow> bytes js) \<Rightarrow> string \<Rightarrow> bool" where
  "isTransactionSignature decode s = (case decode s of Throws e \<Rightarrow> False | Returns d \<Rightarrow> length d = 64)"

text \<open>\<open>parts.join(": ")\<close> over the code and the detail that are truthy.\<close>

definition join_with :: "string \<Rightarrow> string list \<Rightarrow> string" where
  "join_with sep xs = (case xs of [] \<Rightarrow> [] | w # ws \<Rightarrow> w @ concat (map (\<lambda>v. sep @ v) ws))"

text \<open>\<open>logs?.length\<close> is truthy for a non-empty array; only an array has a join.\<close>

definition log_part :: "json \<Rightarrow> string list js" where
  "log_part logs =
     (case logs of
        JArr [] \<Rightarrow> Returns []
      | JArr ls \<Rightarrow> Returns [''Logs: '' @ join_with '' | '' (map (\<lambda>x. if x = JUndef \<or> x = JNull then [] else js_to_string x) ls)]
      | JStr (c # cs) \<Rightarrow> Throws ''logs.join is not a function''
      | JObj fs \<Rightarrow> if js_truthy (js_get (JObj fs) ''length'') then Throws ''logs.join is not a function'' else Returns []
      | _ \<Rightarrow> Returns [])"

definition submit_failure :: "web_reply \<Rightarrow> json \<Rightarrow> json js" where
  "submit_failure res body =
     js_bind (body_field body ''error'') (\<lambda>err.
     js_bind (body_field body ''message'') (\<lambda>msg.
     js_bind (body_field body ''logs'') (\<lambda>logs.
     js_bind (log_part logs) (\<lambda>lp.
       let code = (if js_truthy err then js_to_string err else ''HTTP '' @ to_digits 10 (wr_status res));
           detail = (if js_truthy msg then [js_to_string msg] else []) in
       Throws (join_with '': '' (code # detail @ lp))))))"

definition submitProof :: "(string \<Rightarrow> bytes js) \<Rightarrow> (nat \<times> fetch_end) option \<Rightarrow> json js" where
  "submitProof decode outcome =
     js_bind (fetchWithTimeout outcome SUBMIT_TIMEOUT_MS) (\<lambda>res.
     js_bind (parseJson res) (\<lambda>body.
       if \<not> wr_ok res then submit_failure res body
       else js_bind (body_field body ''txSignature'') (\<lambda>sig.
         case sig of
           JStr s \<Rightarrow>
             if s = [] then Throws ''The relayer reported success but returned no transaction signature''
             else if \<not> isTransactionSignature decode s
             then Throws ''The relayer reported success but what it returned is not a transaction signature''
             else Returns body
         | _ \<Rightarrow> Throws ''The relayer reported success but returned no transaction signature'')))"

definition checkRelayerHealth :: "(nat \<times> fetch_end) option \<Rightarrow> bool" where
  "checkRelayerHealth outcome =
     (case fetchWithTimeout outcome HEALTH_TIMEOUT_MS of
        Throws e \<Rightarrow> False
      | Returns res \<Rightarrow>
          if \<not> wr_ok res then False
          else (case js_bind (parseJson res) (\<lambda>d. body_field d ''status'') of
              Throws e \<Rightarrow> False
            | Returns st \<Rightarrow> st = JStr ''ok''))"

text \<open>
  The relayer client reports success only for a reply that can be checked: \<open>submitProof\<close>
  returns a body only when the reply arrived before the timeout with a success status and its
  txSignature is text that decodes to 64 bytes; no refusal, timeout, unreadable or signature-less
  reply is ever a success; and a quote is returned only with the three fields the withdrawal needs.
\<close>

theorem client_success_has_signature:
  "(submitProof decode outcome = Returns body \<longrightarrow>
      (\<exists>t res s d. outcome = Some (t, FetchReply res) \<and> t < 120000 \<and> wr_ok res \<and> wr_body res = Returns (Returns body)
         \<and> js_get body ''txSignature'' = JStr s \<and> decode s = Returns d \<and> length d = 64))
   \<and> (fetchFeeQuote outcome = Returns body \<longrightarrow>
      (\<exists>t res. outcome = Some (t, FetchReply res) \<and> t < 15000 \<and> wr_ok res \<and> wr_body res = Returns (Returns body)
         \<and> (\<forall>f\<in>{''relayerAddress'', ''relayerFeeMax'', ''estimatedUserReceives''}. js_get body f \<notin> {JUndef, JNull})))"
proof -
  have fetch: "\<exists>t. outcome = Some (t, FetchReply res) \<and> t < ms" if "fetchWithTimeout outcome ms = Returns res" for res ms
    using that by (auto simp: fetchWithTimeout_def split: option.splits prod.splits if_splits fetch_end.splits)
  have parse: "wr_body res = Returns (Returns b)" if "parseJson res = Returns b" for res b
  proof (cases "wr_body res")
    case (Returns x)
    then show ?thesis using that by (cases x) (simp_all add: parseJson_def)
  qed (use that in \<open>simp add: parseJson_def\<close>)
  have fld: "v = js_get b f" if "body_field b f = Returns v" for b f v
    using that by (auto simp: body_field_def js_member_def split: if_splits)
  have no: "submit_failure res b \<noteq> Returns x" for res b x
    by (auto simp: submit_failure_def js_bind_eq_Returns Let_def)
  have 1: "\<exists>t res s d. outcome = Some (t, FetchReply res) \<and> t < 120000 \<and> wr_ok res \<and> wr_body res = Returns (Returns body)
         \<and> js_get body ''txSignature'' = JStr s \<and> decode s = Returns d \<and> length d = 64"
    if s: "submitProof decode outcome = Returns body"
  proof -
    obtain res b where r: "fetchWithTimeout outcome SUBMIT_TIMEOUT_MS = Returns res" "parseJson res = Returns b"
      using s by (auto simp: submitProof_def js_bind_eq_Returns)
    have ok: "wr_ok res" using s no by (auto simp: submitProof_def r split: if_splits)
    then obtain v where v: "body_field b ''txSignature'' = Returns v"
      using s by (auto simp: submitProof_def r js_bind_eq_Returns)
    then obtain t where t: "v = JStr t" "isTransactionSignature decode t" "b = body"
      using s ok by (auto simp: submitProof_def r split: json.splits if_splits)
    then obtain d where "decode t = Returns d" "length d = 64" by (auto simp: isTransactionSignature_def split: js.splits)
    moreover have "js_get body ''txSignature'' = JStr t" using fld [OF v] t by simp
    ultimately show ?thesis using fetch [OF r(1)] parse [OF r(2)] ok t(3) by (auto simp: SUBMIT_TIMEOUT_MS_def)
  qed
  have req: "\<forall>f\<in>set fs. js_get b f \<notin> {JUndef, JNull}" if "require_fields b fs = Returns u" for b fs u
    using that fld by (induction fs) (auto simp: js_bind_eq_Returns split: if_splits)
  have 2: "\<exists>t res. outcome = Some (t, FetchReply res) \<and> t < 15000 \<and> wr_ok res \<and> wr_body res = Returns (Returns body)
         \<and> (\<forall>f\<in>{''relayerAddress'', ''relayerFeeMax'', ''estimatedUserReceives''}. js_get body f \<notin> {JUndef, JNull})"
    if s: "fetchFeeQuote outcome = Returns body"
  proof -
    obtain res b where r: "fetchWithTimeout outcome QUOTE_TIMEOUT_MS = Returns res" "parseJson res = Returns b"
      using s by (auto simp: fetchFeeQuote_def js_bind_eq_Returns)
    have ok: "wr_ok res" using s by (auto simp: fetchFeeQuote_def r js_bind_eq_Returns split: if_splits)
    then obtain u where "require_fields b [''relayerAddress'', ''relayerFeeMax'', ''estimatedUserReceives''] = Returns u" "b = body"
      using s by (auto simp: fetchFeeQuote_def r js_bind_eq_Returns simp del: require_fields.simps)
    then have "\<forall>f\<in>{''relayerAddress'', ''relayerFeeMax'', ''estimatedUserReceives''}. js_get body f \<notin> {JUndef, JNull}"
      using req [of body "[''relayerAddress'', ''relayerFeeMax'', ''estimatedUserReceives'']" u] by (simp del: require_fields.simps)
    then show ?thesis
      using fetch [OF r(1)] parse [OF r(2)] ok \<open>b = body\<close> unfolding QUOTE_TIMEOUT_MS_def by blast
  qed
  show ?thesis using 1 2 by blast
qed

lemma client_success_has_signature_witness:
  "\<exists>s d. js_get (JObj [(''txSignature'', JStr ''sig'')]) ''txSignature'' = JStr s
     \<and> (\<lambda>x. Returns (replicate 64 1)) s = Returns (d :: bytes) \<and> length d = 64"
proof -
  have "submitProof (\<lambda>x. Returns (replicate 64 1)) (Some (5, FetchReply \<lparr>wr_ok = True, wr_status = 200,
      wr_body = Returns (Returns (JObj [(''txSignature'', JStr ''sig'')]))\<rparr>)) = Returns (JObj [(''txSignature'', JStr ''sig'')])"
    by code_simp
  then show ?thesis using client_success_has_signature by blast
qed

subsection \<open>Reading a pool\<close>

definition usePool_POOL_MIN_LEN :: nat where "usePool_POOL_MIN_LEN = 8 + 8968"
definition DENOMINATION_OFFSET :: nat where "DENOMINATION_OFFSET = 8 + 64"
definition NEXT_INDEX_OFFSET :: nat where "NEXT_INDEX_OFFSET = 8 + 80"
definition IS_PAUSED_OFFSET :: nat where "IS_PAUSED_OFFSET = 8 + 123"

definition usePool_POOL_DISCRIMINATOR :: bytes where
  "usePool_POOL_DISCRIMINATOR = [0xf1, 0x9a, 0x6d, 0x04, 0x11, 0xb1, 0x6d, 0xbc]"

definition UI_SATURATION_THRESHOLD :: int where "UI_SATURATION_THRESHOLD = 950000"

text \<open>\<open>Math.round\<close> of a non-negative number; the divisions and products are rounded.\<close>

definition capacityLabel :: "int \<Rightarrow> string" where
  "capacityLabel n =
     (if n \<le> 0 then ''0%''
      else let pct = fl (fl (of_int n / of_int UI_SATURATION_THRESHOLD) * 100) in
        if 199/2 \<le> pct then ''100%''
        else if pct < 1 then ''<1%''
        else to_digits 10 (nat \<lfloor>pct + 1/2\<rfloor>) @ ''%'')"

record pool_info =
  pi_nextIndex :: int
  pi_isPaused :: bool
  pi_isSaturated :: bool
  pi_denominationLamports :: int

record pool_ui =
  pu_info :: "pool_info option"
  pu_loading :: bool
  pu_error :: "string option"

text \<open>The promise chain's last state: a failed lookup or a read out of range lands in the catch.\<close>

definition read_pool_info :: "pubkey \<Rightarrow> account_info option \<Rightarrow> (pool_info, string) sum js" where
  "read_pool_info programId account =
     (case account of
        None \<Rightarrow> Returns (Inr ''Pool not found on-chain'')
      | Some a \<Rightarrow>
          if acc_owner a \<noteq> programId then Returns (Inr ''That address is not a SornadoCash pool. It is owned by another program. Do not rely on any figures for it.'')
          else if length (acc_data a) < usePool_POOL_MIN_LEN then Returns (Inr ''That account is not a pool (wrong size).'')
          else if \<not> list_all (\<lambda>i. acc_data a ! i = usePool_POOL_DISCRIMINATOR ! i) [0..<8]
          then Returns (Inr ''That account is owned by this program but is not a pool.'')
          else js_bind (read_u64_js (acc_data a) NEXT_INDEX_OFFSET) (\<lambda>n.
               js_bind (read_u64_js (acc_data a) DENOMINATION_OFFSET) (\<lambda>d.
               Returns (Inl \<lparr>pi_nextIndex = rnd n, pi_isPaused = byte_is (acc_data a) IS_PAUSED_OFFSET 1,
                 pi_isSaturated = UI_SATURATION_THRESHOLD \<le> rnd n, pi_denominationLamports = d\<rparr>))))"

text \<open>
  The effect for one address: \<open>before\<close> is the state it starts from, \<open>cancelled\<close> whether the component
  was unmounted or the address changed before the answer.
\<close>

definition usePoolInfo :: "(string \<Rightarrow> pubkey js) \<Rightarrow> pubkey \<Rightarrow> string option \<Rightarrow> account_info option js \<Rightarrow> bool \<Rightarrow> pool_ui \<Rightarrow> pool_ui" where
  "usePoolInfo newKey programId poolAddress lookup cancelled before =
     (case poolAddress of
        None \<Rightarrow> before\<lparr>pu_info := None, pu_error := None\<rparr>
      | Some [] \<Rightarrow> before\<lparr>pu_info := None, pu_error := None\<rparr>
      | Some (c # cs) \<Rightarrow>
          (case newKey (c # cs) of
             Throws e \<Rightarrow> before\<lparr>pu_info := None, pu_error := Some ''That pool address is not a valid Solana address.''\<rparr>
           | Returns k \<Rightarrow>
               (let loading = before\<lparr>pu_loading := True, pu_error := None\<rparr> in
                if cancelled then loading
                else (case js_bind lookup (read_pool_info programId) of
                    Throws e \<Rightarrow> loading\<lparr>pu_error := Some (if e = [] then ''Failed to read pool'' else e), pu_loading := False\<rparr>
                  | Returns (Inl i) \<Rightarrow> loading\<lparr>pu_info := Some i, pu_loading := False\<rparr>
                  | Returns (Inr e) \<Rightarrow> loading\<lparr>pu_info := None, pu_error := Some e, pu_loading := False\<rparr>))))"

lemma discriminator_eight:
  assumes "8 \<le> length d"
  shows "list_all (\<lambda>i. d ! i = usePool_POOL_DISCRIMINATOR ! i) [0..<8] \<longleftrightarrow> take 8 d = POOL_DISCRIMINATOR"
proof -
  have p: "usePool_POOL_DISCRIMINATOR = POOL_DISCRIMINATOR" "length POOL_DISCRIMINATOR = 8"
    by (simp_all add: usePool_POOL_DISCRIMINATOR_def POOL_DISCRIMINATOR_def)
  show ?thesis using assms unfolding p(1) by (auto simp: list_eq_iff_nth_eq list_all_iff p(2))
qed

lemma read_pool_info_iff:
  "read_pool_info programId (Some a) = Returns (Inl i) \<longleftrightarrow> is_pool programId a
     \<and> i = \<lparr>pi_nextIndex = rnd (le_int (subarray (acc_data a) 88 96)), pi_isPaused = (acc_data a ! 131 = 1),
           pi_isSaturated = (950000 \<le> rnd (le_int (subarray (acc_data a) 88 96))), pi_denominationLamports = le_int (subarray (acc_data a) 72 80)\<rparr>"
proof (cases "acc_owner a = programId \<and> POOL_ACCOUNT_LEN \<le> length (acc_data a)")
  case True
  then have "\<not> length (acc_data a) < usePool_POOL_MIN_LEN" "8 \<le> length (acc_data a)"
    by (simp_all add: usePool_POOL_MIN_LEN_def POOL_ACCOUNT_LEN_def)
  then show ?thesis
    using True discriminator_eight [of "acc_data a"]
    by (auto simp: read_pool_info_def is_pool_def read_u64_js_ok byte_is_def NEXT_INDEX_OFFSET_def DENOMINATION_OFFSET_def
        IS_PAUSED_OFFSET_def UI_SATURATION_THRESHOLD_def POOL_ACCOUNT_LEN_def)
next
  case False
  then show ?thesis by (auto simp: read_pool_info_def is_pool_def usePool_POOL_MIN_LEN_def POOL_ACCOUNT_LEN_def)
qed

text \<open>The lookup of an address, as the relayer and the browser read it.\<close>

lemma pool_lookup_loaded:
  assumes "loadPool lookup programId = Returns (PoolLoaded v)"
  shows "js_bind lookup (read_pool_info programId) = Returns (Inl \<lparr>pi_nextIndex = rnd (pv_nextIndex v), pi_isPaused = pv_isPaused v,
      pi_isSaturated = (950000 \<le> rnd (pv_nextIndex v)), pi_denominationLamports = pv_denomination v\<rparr>)"
proof -
  obtain a where a: "lookup = Returns (Some a)"
    using assms by (cases lookup) (auto simp: loadPool_def split: option.splits)
  then have p: "is_pool programId a" using assms loadPool_loaded_iff by blast
  then have "v = view_of (acc_data a)" using assms loadPool_ok a by simp
  then show ?thesis using a p read_pool_info_iff [of programId a] by (simp add: view_of_def)
qed

lemma pool_lookup_refused:
  assumes "loadPool lookup programId = Returns r" "\<And>v. r \<noteq> PoolLoaded v"
  shows "\<exists>e. js_bind lookup (read_pool_info programId) = Returns (Inr e)"
proof (cases lookup)
  case (Returns o')
  show ?thesis
  proof (cases o')
    case (Some a)
    then have "\<not> is_pool programId a" using assms Returns loadPool_ok by fastforce
    then show ?thesis
      using Some Returns discriminator_eight [of "acc_data a"]
      by (auto simp: read_pool_info_def is_pool_def usePool_POOL_MIN_LEN_def POOL_ACCOUNT_LEN_def)
  qed (simp add: Returns read_pool_info_def)
qed (use assms in \<open>simp add: loadPool_def\<close>)

lemma loadPool_throws: "loadPool (Returns o') programId \<noteq> Throws e"
proof (cases o')
  case (Some a)
  show ?thesis
  proof (cases "is_pool programId a")
    case False
    then show ?thesis using Some by (auto simp: loadPool_def is_pool_def subarray_def [of _ 0] split: if_splits)
  qed (simp add: Some loadPool_ok)
qed (simp add: loadPool_def)

text \<open>
  C39. The figures of a valid pool address come from what the relayer reads: whatever the page showed
  before, once the lookup has ended it shows a pool the relayer's \<open>loadPool\<close> loads with the same
  denomination and paused flag and the relayer's index as a Number; an account the relayer refuses
  shows an error and no figures; and a lookup that fails shows an error and leaves the figures as they
  were. An address that is not valid, and no address, show no figures, and so does nothing else change
  them: while a lookup is under way, or after it was cancelled, the figures are those of before.
\<close>

theorem pool_shown_is_relayers_pool:
  "(case newKey (c # cs) of
      Throws e \<Rightarrow> pu_info (usePoolInfo newKey programId (Some (c # cs)) lookup cancelled before) = None
        \<and> pu_error (usePoolInfo newKey programId (Some (c # cs)) lookup cancelled before) \<noteq> None
    | Returns k \<Rightarrow>
        pu_info (usePoolInfo newKey programId (Some (c # cs)) lookup True before) = pu_info before
        \<and> (let ui = usePoolInfo newKey programId (Some (c # cs)) lookup False before in
            \<not> pu_loading ui \<and>
            (case loadPool lookup programId of
              Returns (PoolLoaded v) \<Rightarrow> pu_error ui = None
                \<and> pu_info ui = Some \<lparr>pi_nextIndex = rnd (pv_nextIndex v), pi_isPaused = pv_isPaused v,
                    pi_isSaturated = (950000 \<le> rnd (pv_nextIndex v)), pi_denominationLamports = pv_denomination v\<rparr>
            | Returns refused \<Rightarrow> pu_error ui \<noteq> None \<and> pu_info ui = None
            | Throws e \<Rightarrow> pu_error ui \<noteq> None \<and> pu_info ui = pu_info before)))
   \<and> pu_info (usePoolInfo newKey programId None lookup cancelled before) = None
   \<and> pu_info (usePoolInfo newKey programId (Some []) lookup cancelled before) = None"
proof (cases "newKey (c # cs)")
  case (Throws e)
  then show ?thesis by (simp add: usePoolInfo_def)
next
  case (Returns k)
  then show ?thesis
    using pool_lookup_loaded [of lookup programId] pool_lookup_refused [of lookup programId]
    by (cases lookup) (auto simp: usePoolInfo_def Let_def loadPool_throws split: js.split pool_load.split)
qed

text \<open>
  What that leaves: the figures of one pool stay on the page under the address of another whose lookup
  fails, with the error beside them.
\<close>

lemma failed_lookup_keeps_figures:
  assumes "newKey (c # cs) = Returns k"
  shows "pu_info (usePoolInfo newKey programId (Some (c # cs)) (Throws e) False before) = pu_info before
    \<and> pu_error (usePoolInfo newKey programId (Some (c # cs)) (Throws e) False before) = Some (if e = [] then ''Failed to read pool'' else e)"
  using assms by (simp add: usePoolInfo_def Let_def)

end
