(* ===== verification/FrontDoor.thy ===== *)
theory FrontDoor
  imports SubmitProof JsNumberText AppClient
begin

text \<open>
  The front of the relayer's server, relayer/src/api.js: removing identifiers from logged messages
  (\<open>redactIdentifiers\<close>), the proxy setting, the CORS middleware, what the three rate limiters are
  given, and GET /health. Express and express-rate-limit are libraries: the model says what they are
  configured with and what the middleware of this file answers. What is proved: what can be left of an
  address or a long hex number in a log, exactly which origins are let in, and which requests share a
  limiter's count.
\<close>

subsection \<open>Log redaction\<close>

definition between :: "char \<Rightarrow> char \<Rightarrow> char \<Rightarrow> bool" where
  "between a b c \<longleftrightarrow> (of_char a :: nat) \<le> of_char c \<and> (of_char c :: nat) \<le> of_char b"

text \<open>The character classes of the two expressions, and the word characters of \<open>\b\<close>.\<close>

definition is_base58 :: "char \<Rightarrow> bool" where
  "is_base58 c \<longleftrightarrow> between (CHR ''1'') (CHR ''9'') c \<or> between (CHR ''A'') (CHR ''H'') c \<or> between (CHR ''J'') (CHR ''N'') c
     \<or> between (CHR ''P'') (CHR ''Z'') c \<or> between (CHR ''a'') (CHR ''k'') c \<or> between (CHR ''m'') (CHR ''z'') c"

definition is_hex :: "char \<Rightarrow> bool" where
  "is_hex c \<longleftrightarrow> between (CHR ''0'') (CHR ''9'') c \<or> between (CHR ''a'') (CHR ''f'') c \<or> between (CHR ''A'') (CHR ''F'') c"

definition is_word :: "char \<Rightarrow> bool" where
  "is_word c \<longleftrightarrow> between (CHR ''0'') (CHR ''9'') c \<or> between (CHR ''a'') (CHR ''z'') c \<or> between (CHR ''A'') (CHR ''Z'') c \<or> c = CHR ''_''"

text \<open>
  The first replacement: at each position from the left the longest run of base58 characters, at
  most 44, counts if it has 32.
\<close>

function redact_addr :: "string \<Rightarrow> string" where
  "redact_addr s =
     (let run = takeWhile is_base58 s in
      if 32 \<le> length run then ''[addr]'' @ redact_addr (drop (min 44 (length run)) s)
      else case s of [] \<Rightarrow> [] | c # cs \<Rightarrow> c # redact_addr cs)"
  by pat_completeness auto
termination
proof (relation "measure length", goal_cases)
  case (2 s run)
  have "length run \<le> length s" unfolding 2(1) by (rule length_takeWhile_le)
  then have "0 < min 44 (length run)" "0 < length s" using 2(2) by linarith+
  then show ?case using diff_less [of "min 44 (length run)" "length s"] by simp
qed auto

declare redact_addr.simps [simp del]

text \<open>
  The second: \<open>w\<close> says whether the character before is a word character. A shorter run than the
  longest ends before a hex digit, so it is never at a word boundary.
\<close>

definition hex_match :: "bool \<Rightarrow> string \<Rightarrow> bool" where
  "hex_match w s \<longleftrightarrow> \<not> w \<and> 32 \<le> length (takeWhile is_hex s)
     \<and> (case dropWhile is_hex s of [] \<Rightarrow> True | c # cs \<Rightarrow> \<not> is_word c)"

function redact_hex :: "bool \<Rightarrow> string \<Rightarrow> string" where
  "redact_hex w s =
     (if hex_match w s then ''[hex]'' @ redact_hex True (dropWhile is_hex s)
      else case s of [] \<Rightarrow> [] | c # cs \<Rightarrow> c # redact_hex (is_word c) cs)"
  by pat_completeness auto
termination
proof (relation "measure (\<lambda>(w, s). length s)", goal_cases)
  case (2 w s)
  then have "0 < length (takeWhile is_hex s)" unfolding hex_match_def by linarith
  moreover have "length s = length (takeWhile is_hex s) + length (dropWhile is_hex s)"
    by (metis length_append takeWhile_dropWhile_id)
  ultimately show ?case by simp
qed auto

declare redact_hex.simps [simp del]

definition redactIdentifiers :: "string \<Rightarrow> string" where
  "redactIdentifiers msg = redact_hex False (redact_addr msg)"

text \<open>What is printed for a failed submission.\<close>

definition logged_message :: "string option \<Rightarrow> string \<Rightarrow> string" where
  "logged_message LOG_WITHDRAW_DETAILS msg = (if LOG_WITHDRAW_DETAILS = Some ''1'' then msg else redactIdentifiers msg)"

lemma class_facts:
  "is_hex c \<Longrightarrow> is_word c" "is_base58 c \<Longrightarrow> is_word c"
  "\<not> is_word (CHR ''['')" "\<not> is_word (CHR '']'')"
  "\<not> is_base58 (CHR ''['')" "\<not> is_base58 (CHR '']'')" "\<not> is_hex (CHR ''['')"
  by (auto simp: is_hex_def is_base58_def is_word_def between_def)

declare class_facts(3-) [simp]

lemma takeWhile_no_bracket [simp]:
  "takeWhile is_base58 (CHR ''['' # s) = []" "takeWhile is_hex (CHR ''['' # s) = []" "takeWhile is_word (CHR ''['' # s) = []"
  by (simp_all add: class_facts)

text \<open>No run of 32 base58 characters starts anywhere.\<close>

primrec no_long_run :: "string \<Rightarrow> bool" where
  "no_long_run [] \<longleftrightarrow> True"
| "no_long_run (c # s) \<longleftrightarrow> length (takeWhile is_base58 (c # s)) < 32 \<and> no_long_run s"

lemma no_long_run_suffix: "no_long_run (a @ b) \<Longrightarrow> length (takeWhile is_base58 b) < 32"
proof (induction a)
  case Nil
  then show ?case by (cases b) simp_all
qed simp

lemma no_long_run_marks: "no_long_run (''[addr]'' @ s) \<longleftrightarrow> no_long_run s" "no_long_run (''[hex]'' @ s) \<longleftrightarrow> no_long_run s"
  by (simp_all add: class_facts not_less)

lemma redact_addr_run:
  "takeWhile is_base58 (redact_addr s) = (if 32 \<le> length (takeWhile is_base58 s) then [] else takeWhile is_base58 s)"
proof (induction s rule: redact_addr.induct)
  case (1 s)
  show ?case
  proof (cases "32 \<le> length (takeWhile is_base58 s)")
    case True
    then show ?thesis by (subst redact_addr.simps) (simp add: Let_def)
  next
    case False
    show ?thesis
    proof (cases s)
      case (Cons c cs)
      then have "takeWhile is_base58 (redact_addr cs) = takeWhile is_base58 cs" if "is_base58 c"
        using 1(2) [OF refl False Cons] False that by simp
      then show ?thesis using False Cons by (subst redact_addr.simps) (simp add: Let_def)
    qed (use False in \<open>simp add: redact_addr.simps\<close>)
  qed
qed

lemma redact_addr_no_run: "no_long_run (redact_addr s)"
proof (induction s rule: redact_addr.induct)
  case (1 s)
  show ?case
  proof (cases "32 \<le> length (takeWhile is_base58 s)")
    case True
    then show ?thesis using 1(1) [OF refl True] by (subst redact_addr.simps) (simp only: Let_def if_True no_long_run_marks)
  next
    case False
    show ?thesis
    proof (cases s)
      case (Cons c cs)
      then have e: "redact_addr s = c # redact_addr cs" using False by (subst redact_addr.simps) (simp add: Let_def)
      have "length (takeWhile is_base58 (c # redact_addr cs)) < 32"
        using redact_addr_run [of s] False unfolding e by simp
      then show ?thesis using 1(2) [OF refl False Cons] unfolding e by simp
    qed (use False in \<open>simp add: redact_addr.simps\<close>)
  qed
qed

lemma redact_hex_run: "length (takeWhile is_base58 (redact_hex w s)) \<le> length (takeWhile is_base58 s)"
proof (induction w s rule: redact_hex.induct)
  case (1 w s)
  then show ?case by (subst redact_hex.simps) (simp split: list.split)
qed

lemma no_long_run_drop: "no_long_run s \<Longrightarrow> no_long_run (dropWhile P s)"
  by (induction s) auto

lemma redact_hex_no_run: "no_long_run s \<Longrightarrow> no_long_run (redact_hex w s)"
proof (induction w s rule: redact_hex.induct)
  case (1 w s)
  show ?case
  proof (cases "hex_match w s")
    case True
    then show ?thesis using 1(1) no_long_run_drop [OF 1(3)] by (subst redact_hex.simps) (simp only: if_True no_long_run_marks)
  next
    case False
    show ?thesis
    proof (cases s)
      case (Cons c cs)
      have e: "redact_hex w s = c # redact_hex (is_word c) cs" using False Cons by (subst redact_hex.simps) simp
      have "length (takeWhile is_base58 (c # cs)) < 32" using 1(3) Cons by simp
      then have "length (takeWhile is_base58 (c # redact_hex (is_word c) cs)) < 32"
        using redact_hex_run [of "is_word c" cs] by (auto split: if_splits)
      then show ?thesis using 1(2) [OF False Cons] 1(3) Cons unfolding e by simp
    qed (simp add: redact_hex.simps hex_match_def)
  qed
qed

lemma dropWhile_head: "case dropWhile P s of [] \<Rightarrow> True | c # cs \<Rightarrow> \<not> P c"
  by (induction s) auto

lemma hex_match_word: "hex_match w s \<longleftrightarrow> \<not> w \<and> 32 \<le> length (takeWhile is_word s) \<and> list_all is_hex (takeWhile is_word s)"
proof -
  let ?h = "takeWhile is_hex s" and ?r = "dropWhile is_hex s" and ?t = "takeWhile is_word s"
  have split: "s = ?h @ ?r" "s = ?t @ dropWhile is_word s" by simp_all
  have h: "\<forall>c\<in>set ?h. is_hex c \<and> is_word c" using class_facts(1) by (auto dest: set_takeWhileD)
  have 1: "?t = ?h" if "case ?r of [] \<Rightarrow> True | c # cs \<Rightarrow> \<not> is_word c"
  proof -
    have "takeWhile is_word (?h @ ?r) = ?h @ takeWhile is_word ?r" using h by (intro takeWhile_append2) blast
    moreover have "takeWhile is_word ?r = []"
    proof (cases ?r)
      case Nil
      then show ?thesis by (simp only: takeWhile.simps)
    next
      case (Cons c cs)
      then show ?thesis using that by (simp only: takeWhile.simps list.case if_False)
    qed
    ultimately show ?thesis by simp
  qed
  have 2: "?h = ?t \<and> ?r = dropWhile is_word s" if a: "list_all is_hex ?t"
  proof -
    have n: "takeWhile is_hex (dropWhile is_word s) = [] \<and> dropWhile is_hex (dropWhile is_word s) = dropWhile is_word s"
    proof (cases "dropWhile is_word s")
      case Nil
      then show ?thesis by (simp only: Nil takeWhile.simps dropWhile.simps simp_thms)
    next
      case (Cons c cs)
      then have "\<not> is_hex c" using hd_dropWhile [of is_word s] class_facts(1) by (metis list.discI list.sel(1))
      then show ?thesis by (simp add: Cons)
    qed
    have t: "\<And>x. x \<in> set ?t \<Longrightarrow> is_hex x" using a by (simp add: list_all_iff)
    have "takeWhile is_hex (?t @ dropWhile is_word s) = ?t @ takeWhile is_hex (dropWhile is_word s)"
        "dropWhile is_hex (?t @ dropWhile is_word s) = dropWhile is_hex (dropWhile is_word s)"
      using t by (blast intro: takeWhile_append2, blast intro: dropWhile_append2)
    then have "takeWhile is_hex s = ?t @ takeWhile is_hex (dropWhile is_word s)" "dropWhile is_hex s = dropWhile is_hex (dropWhile is_word s)"
      unfolding takeWhile_dropWhile_id .
    then show ?thesis using n by simp
  qed
  have 3: "case dropWhile is_word s of [] \<Rightarrow> True | c # cs \<Rightarrow> \<not> is_word c"
    by (rule dropWhile_head)
  show ?thesis
  proof
    assume "hex_match w s"
    then show "\<not> w \<and> 32 \<le> length ?t \<and> list_all is_hex ?t" using 1 h by (auto simp: hex_match_def list_all_iff)
  next
    assume a: "\<not> w \<and> 32 \<le> length ?t \<and> list_all is_hex ?t"
    then show "hex_match w s" using 2 3 by (simp add: hex_match_def)
  qed
qed

lemma redact_hex_words: "takeWhile is_word (redact_hex True s) = takeWhile is_word s"
proof (induction s)
  case (Cons c s)
  have "redact_hex True (c # s) = c # redact_hex (is_word c) s" by (subst redact_hex.simps) (simp add: hex_match_def)
  then show ?case using Cons by simp
qed (simp add: redact_hex.simps hex_match_def)

text \<open>A hex word of 32 digits or more somewhere.\<close>

primrec has_hex :: "bool \<Rightarrow> string \<Rightarrow> bool" where
  "has_hex w [] \<longleftrightarrow> False"
| "has_hex w (c # s) \<longleftrightarrow> hex_match w (c # s) \<or> has_hex (is_word c) s"

lemma has_hex_marked:
  assumes "\<not> has_hex True x" "x = [] \<or> \<not> is_word (hd x)"
  shows "\<not> has_hex w (''[hex]'' @ x)"
proof -
  have w: "is_word CHR ''h''" "is_word CHR ''e''" "is_word CHR ''x''" by (simp_all add: is_word_def between_def)
  have "\<not> has_hex False x" using assms by (cases x) (auto simp: hex_match_word)
  then show ?thesis using w by (simp add: hex_match_word)
qed

lemma redact_hex_none: "\<not> has_hex w (redact_hex w s)"
proof (induction w s rule: redact_hex.induct)
  case (1 w s)
  show ?case
  proof (cases "hex_match w s")
    case True
    let ?r = "dropWhile is_hex s"
    have e: "redact_hex w s = ''[hex]'' @ redact_hex True ?r" using True by (subst redact_hex.simps) simp
    have "redact_hex True ?r = [] \<or> \<not> is_word (hd (redact_hex True ?r))"
    proof (cases ?r)
      case (Cons c cs)
      then have "redact_hex True ?r = c # redact_hex (is_word c) cs" by (subst redact_hex.simps) (simp add: hex_match_def)
      then show ?thesis using True Cons by (simp add: hex_match_def)
    next
      case Nil
      have "redact_hex True [] = []" by (simp add: redact_hex.simps hex_match_def)
      then show ?thesis by (simp only: Nil simp_thms)
    qed
    then show ?thesis unfolding e using 1(1) [OF True] by (intro has_hex_marked)
  next
    case False
    show ?thesis
    proof (cases s)
      case (Cons c cs)
      have e: "redact_hex w s = c # redact_hex (is_word c) cs" using False Cons by (subst redact_hex.simps) simp
      have "takeWhile is_word (c # redact_hex (is_word c) cs) = takeWhile is_word (c # cs)"
        using redact_hex_words [of cs] by (cases "is_word c") auto
      then have "\<not> hex_match w (c # redact_hex (is_word c) cs)" using False Cons by (simp add: hex_match_word del: takeWhile.simps)
      then show ?thesis using 1(2) [OF False Cons] unfolding e by simp
    qed (simp add: redact_hex.simps hex_match_def)
  qed
qed

lemma has_hexI:
  "hex_match (if a = [] then w else is_word (last a)) s \<Longrightarrow> has_hex w (a @ s)"
proof (induction a arbitrary: w)
  case Nil
  then show ?case by (cases s) (auto simp: hex_match_def)
next
  case (Cons c a)
  then show ?case by (cases a) auto
qed

lemma has_hexD: "has_hex w s \<Longrightarrow> \<exists>a r b. s = a @ r @ b \<and> 32 \<le> length r \<and> list_all is_hex r"
proof (induction s arbitrary: w)
  case (Cons c s)
  show ?case
  proof (cases "hex_match w (c # s)")
    case True
    let ?r = "takeWhile is_hex (c # s)"
    have "c # s = [] @ ?r @ dropWhile is_hex (c # s)" by (simp only: append_Nil takeWhile_dropWhile_id)
    moreover have "32 \<le> length ?r" using True by (simp only: hex_match_def)
    moreover have "list_all is_hex ?r" by (auto simp: list_all_iff dest: set_takeWhileD)
    ultimately show ?thesis by blast
  next
    case False
    then show ?thesis using Cons by (metis append_Cons has_hex.simps(2))
  qed
qed simp

lemma no_long_runD: "\<not> no_long_run s \<Longrightarrow> \<exists>a r b. s = a @ r @ b \<and> 32 \<le> length r \<and> list_all is_base58 r"
proof (induction s)
  case (Cons c s)
  show ?case
  proof (cases "no_long_run s")
    case True
    let ?r = "takeWhile is_base58 (c # s)"
    have "c # s = [] @ ?r @ dropWhile is_base58 (c # s)" by (simp only: append_Nil takeWhile_dropWhile_id)
    moreover have "32 \<le> length ?r" using Cons.prems True by (simp only: no_long_run.simps not_less simp_thms)
    moreover have "list_all is_base58 ?r" by (auto simp: list_all_iff dest: set_takeWhileD)
    ultimately show ?thesis by blast
  next
    case False
    then show ?thesis using Cons.IH by (metis append_Cons)
  qed
qed simp

lemma redact_addr_id: "no_long_run s \<Longrightarrow> redact_addr s = s"
proof (induction s)
  case (Cons c s)
  then have "\<not> 32 \<le> length (takeWhile is_base58 (c # s))" by (simp only: no_long_run.simps not_less not_le)
  then show ?case using Cons by (subst redact_addr.simps) (simp add: Let_def)
qed (simp add: redact_addr.simps)

lemma redact_hex_id: "\<not> has_hex w s \<Longrightarrow> redact_hex w s = s"
proof (induction s arbitrary: w)
  case (Cons c s)
  then show ?case by (subst redact_hex.simps) simp
qed (simp add: redact_hex.simps hex_match_def)

text \<open>
  What a log can show: after redaction no 32 consecutive characters are base58, so no address and
  no part of one that could be searched for is left; no word consists of 32 or more hex digits; and a
  message with neither is logged as it is.
\<close>

theorem redaction_complete:
  "\<not> (\<exists>a r b. redactIdentifiers msg = a @ r @ b \<and> 32 \<le> length r \<and> list_all is_base58 r)
   \<and> \<not> (\<exists>a r b. redactIdentifiers msg = a @ r @ b \<and> 32 \<le> length r \<and> list_all is_hex r
        \<and> (a = [] \<or> \<not> is_word (last a)) \<and> (b = [] \<or> \<not> is_word (hd b)))
   \<and> (\<not> (\<exists>a r b. msg = a @ r @ b \<and> 32 \<le> length r \<and> (list_all is_base58 r \<or> list_all is_hex r)) \<longrightarrow> redactIdentifiers msg = msg)"
proof (intro conjI impI)
  have run: "no_long_run (redactIdentifiers msg)"
    unfolding redactIdentifiers_def by (rule redact_hex_no_run [OF redact_addr_no_run])
  show "\<not> (\<exists>a r b. redactIdentifiers msg = a @ r @ b \<and> 32 \<le> length r \<and> list_all is_base58 r)"
  proof
    assume "\<exists>a r b. redactIdentifiers msg = a @ r @ b \<and> 32 \<le> length r \<and> list_all is_base58 r"
    then obtain a r b where r: "redactIdentifiers msg = a @ r @ b" "32 \<le> length r" "list_all is_base58 r" by blast
    have "takeWhile is_base58 (r @ b) = r @ takeWhile is_base58 b" using r(3) by (intro takeWhile_append2) (simp add: list_all_iff)
    then show False using no_long_run_suffix [of a "r @ b"] run r(1,2) by simp
  qed
  show "\<not> (\<exists>a r b. redactIdentifiers msg = a @ r @ b \<and> 32 \<le> length r \<and> list_all is_hex r
        \<and> (a = [] \<or> \<not> is_word (last a)) \<and> (b = [] \<or> \<not> is_word (hd b)))"
  proof
    assume "\<exists>a r b. redactIdentifiers msg = a @ r @ b \<and> 32 \<le> length r \<and> list_all is_hex r
        \<and> (a = [] \<or> \<not> is_word (last a)) \<and> (b = [] \<or> \<not> is_word (hd b))"
    then obtain a r b where r: "redactIdentifiers msg = a @ r @ b" "32 \<le> length r" "list_all is_hex r"
        "a = [] \<or> \<not> is_word (last a)" "b = [] \<or> \<not> is_word (hd b)" by blast
    have "takeWhile is_word (r @ b) = r @ takeWhile is_word b"
      using r(3) class_facts(1) by (intro takeWhile_append2) (simp add: list_all_iff)
    moreover have "takeWhile is_word b = []" using r(5) by (cases b) auto
    ultimately have "hex_match (if a = [] then False else is_word (last a)) (r @ b)"
      using r(2-4) by (auto simp: hex_match_word)
    then have "has_hex False (redactIdentifiers msg)" unfolding r(1) by (rule has_hexI)
    then show False using redact_hex_none unfolding redactIdentifiers_def by blast
  qed
  assume none: "\<not> (\<exists>a r b. msg = a @ r @ b \<and> 32 \<le> length r \<and> (list_all is_base58 r \<or> list_all is_hex r))"
  have "redact_addr msg = msg" using none no_long_runD [of msg] redact_addr_id by blast
  moreover have "redact_hex False msg = msg" using none has_hexD [of False msg] redact_hex_id by blast
  ultimately show "redactIdentifiers msg = msg" by (simp add: redactIdentifiers_def)
qed

lemma redaction_complete_witness: "redactIdentifiers ''0x1774'' = ''0x1774''"
proof -
  have "\<not> (\<exists>a r b. ''0x1774'' = a @ r @ b \<and> 32 \<le> length r \<and> (list_all is_base58 r \<or> list_all is_hex r))"
  proof
    assume "\<exists>a r b. ''0x1774'' = a @ r @ b \<and> 32 \<le> length r \<and> (list_all is_base58 r \<or> list_all is_hex r)"
    then obtain a r b where "''0x1774'' = a @ r @ b" "32 \<le> length r" by blast
    then have "length ''0x1774'' = length a + length r + length b" by (metis add.assoc length_append)
    then show False using \<open>32 \<le> length r\<close> by simp
  qed
  then show ?thesis using redaction_complete [of "''0x1774''"] by blast
qed

text \<open>
  Not every long hex number is removed: after a prefix of word characters such as 0x there is no
  word boundary, so the second expression never matches, and a number with a zero in every 31
  digits escapes the first. Any number of digits survives.
\<close>

lemma prefixed_hex_survives: "redactIdentifiers (''0x'' @ concat (replicate n ''0a'')) = ''0x'' @ concat (replicate n ''0a'')"
proof -
  let ?z = "concat (replicate n ''0a'')"
  have c: "\<not> is_base58 CHR ''0''" "is_word CHR ''0''" "is_word CHR ''x''" "is_word CHR ''a''"
    by (simp_all add: is_base58_def is_word_def between_def)
  have z: "no_long_run ?z \<and> length (takeWhile is_base58 ?z) < 30" by (induction n) (auto simp: c)
  have w: "\<not> has_hex True ?z" by (induction n) (simp_all add: c hex_match_def)
  have "\<not> is_hex CHR ''x''" by (simp add: is_hex_def between_def)
  then have "\<not> has_hex False (''0x'' @ ?z)" using w by (simp add: c hex_match_def)
  moreover have "no_long_run (''0x'' @ ?z)" using z by (simp add: c)
  ultimately show ?thesis unfolding redactIdentifiers_def by (metis redact_addr_id redact_hex_id)
qed

subsection \<open>Configuration and CORS\<close>

datatype proxy_setting = ProxyUnset | ProxyHops rat | ProxyValue string

definition trust_proxy :: "string option \<Rightarrow> proxy_setting" where
  "trust_proxy TRUST_PROXY =
     (case TRUST_PROXY of
        None \<Rightarrow> ProxyUnset
      | Some s \<Rightarrow> if s = [] then ProxyUnset else (case js_Number s of Finite q \<Rightarrow> ProxyHops q | _ \<Rightarrow> ProxyValue s))"

definition allowedOrigins :: "string option \<Rightarrow> string list" where
  "allowedOrigins ALLOWED_ORIGINS =
     filter (\<lambda>o'. o' \<noteq> []) (map trim (split_on (CHR '','') (case ALLOWED_ORIGINS of None \<Rightarrow> ''*'' | Some s \<Rightarrow> if s = [] then ''*'' else s)))"

definition allow_origin :: string where "allow_origin = ''Access-Control-Allow-Origin''"

text \<open>The headers set, and whether the request ends here with status 204.\<close>

definition cors :: "string list \<Rightarrow> string option \<Rightarrow> string \<Rightarrow> (string \<times> string) list \<times> bool" where
  "cors allowed origin meth =
     ((if ''*'' \<in> set allowed then [(allow_origin, ''*'')]
       else (case origin of
           None \<Rightarrow> []
         | Some o' \<Rightarrow> if o' \<noteq> [] \<and> o' \<in> set allowed then [(allow_origin, o'), (''Vary'', ''Origin'')] else []))
      @ [(''Access-Control-Allow-Headers'', ''Content-Type''), (''Access-Control-Allow-Methods'', ''GET, POST, OPTIONS'')],
      meth = ''OPTIONS'')"

subsection \<open>The rate limiters\<close>

record http_request =
  hr_method :: string
  hr_origin :: "string option"
  hr_ip :: "string option"
  hr_body :: json

record limiter_options =
  lo_windowMs :: nat
  lo_max :: nat
  lo_keyGenerator :: "http_request \<Rightarrow> string"
  lo_error :: string

definition byClient :: "http_request \<Rightarrow> string" where "byClient req = rateLimitKey (hr_ip req)"

definition limiter :: limiter_options where
  "limiter = \<lparr>lo_windowMs = 60000, lo_max = 30, lo_keyGenerator = byClient, lo_error = ''TooManyRequests''\<rparr>"

definition submitLimiter :: limiter_options where
  "submitLimiter = \<lparr>lo_windowMs = 60000, lo_max = 5, lo_keyGenerator = byClient, lo_error = ''RelayerBusy''\<rparr>"

definition nullifierLimiter :: limiter_options where
  "nullifierLimiter = \<lparr>lo_windowMs = 60000, lo_max = 3,
     lo_keyGenerator = (\<lambda>req. ''note:'' @ nullifierKey (js_index (js_get (hr_body req) ''publicSignals'') 0)),
     lo_error = ''TooManyAttemptsForNote''\<rparr>"

text \<open>
  A request for POST /submit\_proof on its way to the handler: the CORS middleware may end it, then
  each limiter counts it, in order, until one refuses. The library's counting is a parameter.
\<close>

fun run_limiters :: "(limiter_options \<Rightarrow> string \<Rightarrow> 's \<Rightarrow> bool \<times> 's) \<Rightarrow> limiter_options list \<Rightarrow> http_request \<Rightarrow> 's
    \<Rightarrow> string option \<times> 's" where
  "run_limiters admit [] req s = (None, s)"
| "run_limiters admit (l # ls) req s =
     (case admit l (lo_keyGenerator l req) s of
        (True, s') \<Rightarrow> run_limiters admit ls req s'
      | (False, s') \<Rightarrow> (Some (lo_error l), s'))"

datatype front_answer = Answered204 | Refused429 string | Reached

definition front_submit :: "(limiter_options \<Rightarrow> string \<Rightarrow> 's \<Rightarrow> bool \<times> 's) \<Rightarrow> string list \<Rightarrow> http_request \<Rightarrow> 's
    \<Rightarrow> front_answer \<times> 's" where
  "front_submit admit allowed req s =
     (if snd (cors allowed (hr_origin req) (hr_method req)) then (Answered204, s)
      else (case run_limiters admit [limiter, submitLimiter, nullifierLimiter] req s of
          (None, s') \<Rightarrow> (Reached, s')
        | (Some e, s') \<Rightarrow> (Refused429 e, s')))"

subsection \<open>GET /health\<close>

definition get_health :: "int js \<Rightarrow> string set \<Rightarrow> nat \<times> json" where
  "get_health balance pending =
     (case balance of
        Returns b \<Rightarrow> (200, JObj [(''status'', JStr ''ok''), (''balance'', JStr (big_to_string 10 b)),
          (''pendingTxCount'', JInt (int (card pending)))])
      | Throws e \<Rightarrow> (500, JObj [(''status'', JStr ''error''), (''error'', JStr e)]))"

lemma split_on_none: "c \<notin> set s \<Longrightarrow> split_on c s = [s]"
  by (induction s) auto

lemma split_on_head_word: "c \<notin> set w \<Longrightarrow> split_on c (w @ c # s) = w # split_on c s"
  by (induction w) auto

lemma split_on_concat:
  "\<forall>w\<in>set ws. c \<notin> set w \<Longrightarrow> ws \<noteq> [] \<Longrightarrow> split_on c (hd ws @ concat (map ((#) c) (tl ws))) = ws"
proof (induction ws)
  case (Cons w ws)
  then show ?case by (cases ws) (simp_all add: split_on_none split_on_head_word)
qed simp

text \<open>
  Exactly which sites are let in: with a list of origins written with commas and any spaces around
  them, none of them the star, a response allows a browser at an origin exactly when the origin is one
  of the list, and then names that origin alone; without a list, or with the star in it, every origin is
  allowed. A preflight request is answered at once and is never counted by a limiter.
\<close>

theorem cors_exact:
  assumes "\<forall>w\<in>set ws. CHR '','' \<notin> set w" "ws \<noteq> []"
  shows "(map_of (fst (cors (allowedOrigins (Some (hd ws @ concat (map ((#) (CHR '','')) (tl ws))))) origin m)) allow_origin =
      (if ''*'' \<in> trim ` set ws \<or> ws = [[]] then Some ''*''
       else case origin of None \<Rightarrow> None | Some v \<Rightarrow> if v \<noteq> [] \<and> v \<in> trim ` set ws then Some v else None))
    \<and> map_of (fst (cors (allowedOrigins None) origin m)) allow_origin = Some ''*''
    \<and> (hr_method req = ''OPTIONS'' \<longrightarrow> front_submit admit allowed req s = (Answered204, s))"
proof (intro conjI impI)
  let ?s = "hd ws @ concat (map ((#) (CHR '','')) (tl ws))"
  have t: "trim ''*'' = ''*''" by code_simp
  have l: "allowedOrigins (Some ?s) = filter (\<lambda>v. v \<noteq> []) (if ws = [[]] then [''*''] else map trim ws)"
  proof (cases "?s = []")
    case True
    then have "ws = [[]]" using assms(2) by (cases ws; cases "tl ws") auto
    then show ?thesis using t by (simp add: allowedOrigins_def)
  next
    case False
    then have "ws \<noteq> [[]]" by auto
    then show ?thesis using split_on_concat [OF assms] False assms(2) by (cases ws) (auto simp: allowedOrigins_def)
  qed
  have n: "allow_origin \<noteq> ''Access-Control-Allow-Headers''" "allow_origin \<noteq> ''Access-Control-Allow-Methods''"
    by (simp_all add: allow_origin_def)
  show "map_of (fst (cors (allowedOrigins (Some ?s)) origin m)) allow_origin =
      (if ''*'' \<in> trim ` set ws \<or> ws = [[]] then Some ''*''
       else case origin of None \<Rightarrow> None | Some v \<Rightarrow> if v \<noteq> [] \<and> v \<in> trim ` set ws then Some v else None)"
    unfolding l cors_def using n by (auto split: option.split)
  show "map_of (fst (cors (allowedOrigins None) origin m)) allow_origin = Some ''*''"
    using t by (simp add: allowedOrigins_def cors_def)
qed (simp add: front_submit_def cors_def)

lemma cors_exact_witness:
  "map_of (fst (cors (allowedOrigins (Some ''https://a, https://b'')) (Some ''https://b'') ''POST'')) allow_origin = Some ''https://b''
   \<and> map_of (fst (cors (allowedOrigins (Some ''https://a, https://b'')) (Some ''https://c'') ''POST'')) allow_origin = None"
proof -
  have t: "trim ''https://a'' = ''https://a''" "trim '' https://b'' = ''https://b''" by code_simp+
  show ?thesis
    using cors_exact [of "[''https://a'', '' https://b'']" "Some ''https://b''" "''POST''", THEN conjunct1]
      cors_exact [of "[''https://a'', '' https://b'']" "Some ''https://c''" "''POST''", THEN conjunct1] by (simp add: t)
qed

text \<open>
  Requests for one note are counted together however its nullifier is written, and requests from one
  client are counted together by both client limiters.
\<close>

lemma limiter_keys:
  "byClient r = byClient r' \<Longrightarrow> lo_keyGenerator limiter r = lo_keyGenerator limiter r' \<and> lo_keyGenerator submitLimiter r = lo_keyGenerator submitLimiter r'"
  "lo_keyGenerator nullifierLimiter r = lo_keyGenerator nullifierLimiter r' \<longleftrightarrow>
    nullifierKey (js_index (js_get (hr_body r) ''publicSignals'') 0) = nullifierKey (js_index (js_get (hr_body r') ''publicSignals'') 0)"
  by (simp_all add: limiter_def submitLimiter_def nullifierLimiter_def)

text \<open>The app's health check succeeds exactly when the relayer could read its balance and answered in time.\<close>

lemma health_agrees:
  "checkRelayerHealth (Some (t, FetchReply \<lparr>wr_ok = (fst (get_health balance pending) = 200), wr_status = fst (get_health balance pending),
      wr_body = Returns (Returns (snd (get_health balance pending)))\<rparr>))
    \<longleftrightarrow> t < HEALTH_TIMEOUT_MS \<and> (\<exists>b. balance = Returns b)"
  by (cases balance) (auto simp: checkRelayerHealth_def get_health_def fetchWithTimeout_def parseJson_def body_field_def js_member_def js_get_def)

end
