(* ===== verification/AppConfig.thy ===== *)
theory AppConfig
  imports Startup SdkFees
begin

text \<open>
  The app's configuration, app/src/config.ts: the values read from the build's environment and their
  defaults, the checks that refuse a development configuration on mainnet, and the list of pools. The
  URL parser, \<open>clusterApiUrl\<close> and \<open>JSON.parse\<close> are parameters. What is proved: exactly which
  configurations a mainnet build accepts, and that the pool list has the lamports its SOL figures mean.
\<close>

subsection \<open>Environment\<close>

record app_env =
  VITE_SOLANA_NETWORK :: "string option"
  VITE_RPC_ENDPOINT :: "string option"
  VITE_RELAYER_URL :: "string option"
  VITE_PROGRAM_ID :: "string option"
  VITE_POOLS :: "string option"

text \<open>\<open>x ?? y\<close>: only an unset variable is replaced. A variable that is set and not empty is truthy.\<close>

definition or_default :: "string option \<Rightarrow> string \<Rightarrow> string" where
  "or_default v d = (case v of None \<Rightarrow> d | Some s \<Rightarrow> s)"

definition is_set :: "string option \<Rightarrow> bool" where
  "is_set v = (case v of None \<Rightarrow> False | Some s \<Rightarrow> s \<noteq> [])"

definition NETWORK :: "app_env \<Rightarrow> string" where "NETWORK env = or_default (VITE_SOLANA_NETWORK env) ''devnet''"

definition RPC_ENDPOINT :: "(string \<Rightarrow> string) \<Rightarrow> app_env \<Rightarrow> string" where
  "RPC_ENDPOINT clusterApiUrl env = or_default (VITE_RPC_ENDPOINT env) (clusterApiUrl (NETWORK env))"

text \<open>\<open>replace(/\/+$/, '')\<close>: the trailing slashes are removed.\<close>

definition without_slashes :: "string \<Rightarrow> string" where
  "without_slashes s = rev (dropWhile (\<lambda>c. c = CHR ''/'') (rev s))"

definition RELAYER_URL :: "app_env \<Rightarrow> string" where
  "RELAYER_URL env = without_slashes (or_default (VITE_RELAYER_URL env) ''http://localhost:3000'')"

definition PROGRAM_ID :: "app_env \<Rightarrow> string" where
  "PROGRAM_ID env = or_default (VITE_PROGRAM_ID env) ''DMAPWBXb5w2KZkML2SyV2CtZDfbwNKqkWL3scQKXUF59''"

definition explorerTxUrl :: "app_env \<Rightarrow> string \<Rightarrow> string" where
  "explorerTxUrl env signature =
     ''https://explorer.solana.com/tx/'' @ signature
       @ (if NETWORK env = ''mainnet-beta'' then [] else ''?cluster='' @ NETWORK env)"

subsection \<open>Refusing a development configuration\<close>

definition relayerTransportIsInsecure :: "(string \<Rightarrow> string js) \<Rightarrow> app_env \<Rightarrow> bool" where
  "relayerTransportIsInsecure hostname env =
     (if \<not> starts_with (RELAYER_URL env) ''http://'' then False
      else case hostname (RELAYER_URL env) of
          Returns host \<Rightarrow> \<not> (host = ''localhost'' \<or> host = ''127.0.0.1'' \<or> host = ''[::1]'')
        | Throws e \<Rightarrow> True)"

definition IS_MAINNET :: "app_env \<Rightarrow> bool" where "IS_MAINNET env = (NETWORK env = ''mainnet-beta'')"

definition fatalConfigProblems :: "(string \<Rightarrow> string js) \<Rightarrow> app_env \<Rightarrow> string list" where
  "fatalConfigProblems hostname env =
     (if \<not> IS_MAINNET env then []
      else (if relayerTransportIsInsecure hostname env \<or> str_includes (RELAYER_URL env) ''localhost''
            then [''VITE_RELAYER_URL is '' @ RELAYER_URL env @ ''. A plaintext or local relayer must not be used on mainnet.''] else [])
        @ (if \<not> is_set (VITE_RELAYER_URL env)
           then [''VITE_RELAYER_URL is unset. It defaults to a local development relayer.''] else [])
        @ (if \<not> is_set (VITE_RPC_ENDPOINT env)
           then [''VITE_RPC_ENDPOINT is unset. The default public endpoint prunes history and breaks withdrawals.''] else [])
        @ (if \<not> is_set (VITE_POOLS env)
           then [''VITE_POOLS is unset. The built-in pool addresses are devnet deployments.''] else []))"

subsection \<open>The pool list\<close>

record listed_pool =
  pc_label :: json
  pc_denominationSol :: js_num
  pc_denominationLamports :: int
  pc_address :: json

text \<open>
  What the code reads of the parsed text: whether it is an array, and of each element, unless it is
  null, three fields, the amount as the Number it converts to.
\<close>

record pool_entry =
  pe_label :: json
  pe_denominationSol :: js_num
  pe_address :: json

datatype pools_json = NotAnArray | PoolArray "pool_entry option list"

definition sol_times :: "js_num \<Rightarrow> js_num" where
  "sol_times x = (case x of Finite q \<Rightarrow> to_double (q * 1000000000) | _ \<Rightarrow> x)"

text \<open>\<open>BigInt(Math.round(x))\<close>.\<close>

definition round_bigint :: "js_num \<Rightarrow> int js" where
  "round_bigint x =
     (case x of
        Finite q \<Rightarrow> Returns (math_round q)
      | _ \<Rightarrow> Throws ''The number cannot be converted to a BigInt because it is not an integer'')"

definition pool_of_entry :: "pool_entry option \<Rightarrow> listed_pool js" where
  "pool_of_entry e =
     (case e of
        None \<Rightarrow> Throws ''Cannot read properties of null''
      | Some p \<Rightarrow>
          js_bind (round_bigint (sol_times (pe_denominationSol p))) (\<lambda>lamports.
          Returns \<lparr>pc_label = pe_label p, pc_denominationSol = pe_denominationSol p,
            pc_denominationLamports = lamports, pc_address = pe_address p\<rparr>))"

definition built_in :: "string \<Rightarrow> rat \<Rightarrow> int \<Rightarrow> string \<Rightarrow> listed_pool" where
  "built_in label sol lamports address =
     \<lparr>pc_label = JStr label, pc_denominationSol = to_double sol, pc_denominationLamports = lamports, pc_address = JStr address\<rparr>"

definition default_pools :: "listed_pool list" where
  "default_pools =
     [built_in ''0.1 SOL'' (1 / 10) 100000000 ''FWQkYzmNz74VSffemu9tphYX1TSSfTBo9JYgKRWRWcoY'',
      built_in ''1 SOL'' 1 1000000000 ''2MgQTtJGed9eR9itPk9nUChYbvCTpfmNhKTxpnUA2S3d'',
      built_in ''10 SOL'' 10 10000000000 ''GhbShsZipzgpRxZSihAkn1Bmstzoq9CgpDrbGXz3bNFE'',
      built_in ''100 SOL'' 100 100000000000 ''F5Qkfpw57KCXB8uXam1p3wAkf5YazSURPJWb1WVqfs7n'']"

definition loadPools :: "(string \<Rightarrow> pools_json js) \<Rightarrow> app_env \<Rightarrow> listed_pool list js" where
  "loadPools parse env =
     (case VITE_POOLS env of
        None \<Rightarrow> Returns default_pools
      | Some raw \<Rightarrow>
          if raw = [] then Returns default_pools
          else case js_bind (parse raw) (\<lambda>parsed. case parsed of
                   NotAnArray \<Rightarrow> Throws ''parsed.map is not a function''
                 | PoolArray es \<Rightarrow> js_map pool_of_entry es) of
              Returns pools \<Rightarrow> Returns pools
            | Throws e \<Rightarrow> Throws (''VITE_POOLS is not valid JSON: '' @ e))"

subsection \<open>What a mainnet build accepts\<close>

lemma fatalConfigProblems_iff:
  "fatalConfigProblems hostname env = [] \<longleftrightarrow>
     \<not> IS_MAINNET env
     \<or> is_set (VITE_RELAYER_URL env) \<and> is_set (VITE_RPC_ENDPOINT env) \<and> is_set (VITE_POOLS env)
        \<and> \<not> str_includes (RELAYER_URL env) ''localhost'' \<and> \<not> relayerTransportIsInsecure hostname env"
  by (auto simp: fatalConfigProblems_def)

lemma is_set_iff: "is_set v \<longleftrightarrow> (\<exists>s. v = Some s \<and> s \<noteq> [])"
  by (simp add: is_set_def split: option.split)

lemma configured_pools:
  assumes "VITE_POOLS env = Some raw" "raw \<noteq> []" "loadPools parse env = Returns ps"
  shows "\<exists>es. parse raw = Returns (PoolArray es) \<and> list_all2 (\<lambda>e p. pool_of_entry e = Returns p) es ps"
proof -
  have "js_bind (parse raw) (\<lambda>parsed. case parsed of NotAnArray \<Rightarrow> Throws ''parsed.map is not a function''
      | PoolArray es \<Rightarrow> js_map pool_of_entry es) = Returns ps"
    using assms by (simp add: loadPools_def split: js.splits)
  then obtain j where "parse raw = Returns j" "(case j of NotAnArray \<Rightarrow> Throws ''parsed.map is not a function''
      | PoolArray es \<Rightarrow> js_map pool_of_entry es) = Returns ps" unfolding js_bind_eq_Returns by blast
  then show ?thesis by (cases j) (simp_all add: js_map_list_all2)
qed

text \<open>
  A mainnet build that is not refused takes the relayer, the RPC endpoint and the pool list from
  the environment; the relayer does not name localhost and is not reached in plain text on another
  host. So none of the development defaults is in use, and a pool list that cannot be read is an
  error, never the built-in list.
\<close>

theorem mainnet_uses_no_default:
  assumes "NETWORK env = ''mainnet-beta''" "fatalConfigProblems hostname env = []"
  shows "\<exists>url endpoint raw. url \<noteq> [] \<and> endpoint \<noteq> [] \<and> raw \<noteq> []
     \<and> VITE_RELAYER_URL env = Some url \<and> RELAYER_URL env = without_slashes url
     \<and> \<not> str_includes (without_slashes url) ''localhost''
     \<and> (starts_with (without_slashes url) ''http://'' \<longrightarrow> hostname (without_slashes url) \<in> Returns ` {''localhost'', ''127.0.0.1'', ''[::1]''})
     \<and> RPC_ENDPOINT clusterApiUrl env = endpoint
     \<and> (\<forall>ps. loadPools parse env = Returns ps \<longrightarrow> (\<exists>es. parse raw = Returns (PoolArray es) \<and> list_all2 (\<lambda>e p. pool_of_entry e = Returns p) es ps))"
proof -
  obtain url endpoint raw where v: "VITE_RELAYER_URL env = Some url" "VITE_RPC_ENDPOINT env = Some endpoint" "VITE_POOLS env = Some raw"
      "url \<noteq> []" "endpoint \<noteq> []" "raw \<noteq> []"
    using assms by (auto simp: fatalConfigProblems_iff is_set_iff IS_MAINNET_def)
  have u: "RELAYER_URL env = without_slashes url" by (simp add: RELAYER_URL_def or_default_def v)
  have "\<not> relayerTransportIsInsecure hostname env" "\<not> str_includes (without_slashes url) ''localhost''"
    using assms u by (auto simp: fatalConfigProblems_iff IS_MAINNET_def)
  moreover have "\<exists>es. parse raw = Returns (PoolArray es) \<and> list_all2 (\<lambda>e p. pool_of_entry e = Returns p) es ps"
    if "loadPools parse env = Returns ps" for ps
    using that v by (intro configured_pools)
  ultimately show ?thesis using v u
    by (intro exI [of _ url] exI [of _ endpoint] exI [of _ raw])
      (auto simp: relayerTransportIsInsecure_def RPC_ENDPOINT_def or_default_def split: js.splits)
qed

definition mainnet_example :: app_env where
  "mainnet_example = \<lparr>VITE_SOLANA_NETWORK = Some ''mainnet-beta'', VITE_RPC_ENDPOINT = Some ''https://node'',
     VITE_RELAYER_URL = Some ''https://relay/'', VITE_PROGRAM_ID = None, VITE_POOLS = Some ''[]''\<rparr>"

lemma mainnet_uses_no_default_witness: "RELAYER_URL mainnet_example = ''https://relay''"
proof -
  have "NETWORK mainnet_example = ''mainnet-beta''" "fatalConfigProblems (\<lambda>u. Throws []) mainnet_example = []" by code_simp+
  then obtain url where "VITE_RELAYER_URL mainnet_example = Some url" "RELAYER_URL mainnet_example = without_slashes url"
    using mainnet_uses_no_default [of mainnet_example "\<lambda>u. Throws []" "\<lambda>c. []" "\<lambda>r. Throws []"] by blast
  moreover have "without_slashes ''https://relay/'' = ''https://relay''" by code_simp
  ultimately show ?thesis by (simp add: mainnet_example_def)
qed

text \<open>
  The check's message says that a plaintext or local relayer must not be used on mainnet. It lets
  through a relayer on the loopback address, and one whose scheme is written in capitals, which
  browsers read as plain http all the same.
\<close>

lemma local_relayer_on_mainnet:
  assumes "hostname ''http://127.0.0.1:3000'' = Returns ''127.0.0.1''"
  shows "fatalConfigProblems hostname (mainnet_example\<lparr>VITE_RELAYER_URL := Some ''http://127.0.0.1:3000''\<rparr>) = []"
    and "fatalConfigProblems hostname' (mainnet_example\<lparr>VITE_RELAYER_URL := Some ''HTTP://relay.example''\<rparr>) = []"
proof -
  let ?e = "mainnet_example\<lparr>VITE_RELAYER_URL := Some ''http://127.0.0.1:3000''\<rparr>"
  have "RELAYER_URL ?e = ''http://127.0.0.1:3000''" "\<not> str_includes ''http://127.0.0.1:3000'' ''localhost''"
      "IS_MAINNET ?e \<and> is_set (VITE_RELAYER_URL ?e) \<and> is_set (VITE_RPC_ENDPOINT ?e) \<and> is_set (VITE_POOLS ?e)" by code_simp+
  then show "fatalConfigProblems hostname ?e = []"
    using assms by (simp add: fatalConfigProblems_iff relayerTransportIsInsecure_def)
  let ?f = "mainnet_example\<lparr>VITE_RELAYER_URL := Some ''HTTP://relay.example''\<rparr>"
  have "\<not> starts_with (RELAYER_URL ?f) ''http://''" "\<not> str_includes (RELAYER_URL ?f) ''localhost''"
      "is_set (VITE_RELAYER_URL ?f) \<and> is_set (VITE_RPC_ENDPOINT ?f) \<and> is_set (VITE_POOLS ?f)" by code_simp+
  then show "fatalConfigProblems hostname' ?f = []" by (simp add: fatalConfigProblems_iff relayerTransportIsInsecure_def)
qed

subsection \<open>Amounts of the pool list\<close>

lemma sol_entry_exact:
  assumes "0 < n" "n < 2 ^ 49"
  shows "round_bigint (sol_times (to_double (of_int n / 1000000000))) = Returns n"
proof -
  let ?x = "of_int n / 1000000000 :: rat"
  have n: "0 < (of_int n :: rat)" "(of_int n :: rat) < 2 ^ 49"
    using assms by (simp_all only: of_int_0_less_iff) (metis assms(2) of_int_less_iff of_int_numeral of_int_power)
  have small: "to_double y = Finite (fl y)" if "0 < y" "y < 2 ^ 60" for y
  proof -
    have "\<bar>fl y - y\<bar> \<le> y / 2 ^ 53" by (rule fl_rel_error [OF that(1)])
    moreover have "y / 2 ^ 53 \<le> y" using that(1) by simp
    ultimately have "fl y \<le> y + y" "- y \<le> fl y" using that(1) by linarith+
    moreover obtain B :: rat where B: "B = 2 ^ 1024" by blast
    moreover have "(2 :: rat) ^ 60 + 2 ^ 60 < B" unfolding B by simp
    ultimately have "fl y < B" "- B < fl y" using that by linarith+
    then have "fl y < 2 ^ 1024" "- (2 ^ 1024) < fl y" unfolding B .
    then show ?thesis by (simp add: to_double_def not_le)
  qed
  have x: "0 < ?x" "?x < 2 ^ 60" using n by (auto simp: field_simps)
  have "\<bar>fl ?x - ?x\<bar> \<le> ?x / 2 ^ 53" by (rule fl_rel_error [OF x(1)])
  moreover have "?x / 2 ^ 53 < ?x" using x(1) by simp
  ultimately have "0 < fl ?x" "fl ?x \<le> 2 * ?x" using x(1) by linarith+
  then have "0 < fl ?x * 1000000000" "fl ?x * 1000000000 < 2 ^ 60" using n by auto
  then show ?thesis using small [OF x] small sol_round_trip [OF assms] by (simp add: sol_times_def round_bigint_def)
qed

text \<open>
  A pool list that gives each denomination as the Number of SOL nearest to a whole number of
  lamports has exactly those lamports, below 2 to the 49 (about 560,000 SOL); and the built-in ladder
  is what the same list written in the environment would give.
\<close>

theorem pool_amounts_exact:
  assumes "\<forall>(l, n, a)\<in>set ps. 0 < n \<and> n < 2 ^ 49" "VITE_POOLS env = Some raw" "raw \<noteq> []"
    and "parse raw = Returns (PoolArray (map (\<lambda>(l, n, a). Some \<lparr>pe_label = l, pe_denominationSol = to_double (of_int n / 1000000000), pe_address = a\<rparr>) ps))"
  shows "loadPools parse env = Returns (map (\<lambda>(l, n, a). \<lparr>pc_label = l, pc_denominationSol = to_double (of_int n / 1000000000),
      pc_denominationLamports = n, pc_address = a\<rparr>) ps)"
proof -
  have "js_map pool_of_entry (map (\<lambda>(l, n, a). Some \<lparr>pe_label = l, pe_denominationSol = to_double (of_int n / 1000000000), pe_address = a\<rparr>) ps)
      = Returns (map (\<lambda>(l, n, a). \<lparr>pc_label = l, pc_denominationSol = to_double (of_int n / 1000000000),
      pc_denominationLamports = n, pc_address = a\<rparr>) ps)"
    using assms(1) by (induction ps) (auto simp: pool_of_entry_def sol_entry_exact)
  then show ?thesis using assms(2-) by (simp add: loadPools_def)
qed

definition ladder_entries :: "(json \<times> int \<times> json) list" where
  "ladder_entries = map (\<lambda>p. (pc_label p, pc_denominationLamports p, pc_address p)) default_pools"

lemma pool_amounts_exact_witness:
  "loadPools (\<lambda>r. Returns (PoolArray (map (\<lambda>(l, n, a). Some \<lparr>pe_label = l, pe_denominationSol = to_double (of_int n / 1000000000), pe_address = a\<rparr>) ladder_entries)))
     (mainnet_example\<lparr>VITE_POOLS := Some ''x''\<rparr>)
   = loadPools (\<lambda>r. Throws []) (mainnet_example\<lparr>VITE_POOLS := None\<rparr>)"
proof -
  have "\<forall>(l, n, a)\<in>set ladder_entries. 0 < n \<and> n < 2 ^ 49" by (simp add: ladder_entries_def default_pools_def built_in_def)
  from pool_amounts_exact [OF this, of "mainnet_example\<lparr>VITE_POOLS := Some ''x''\<rparr>" "''x''" "\<lambda>r. Returns (PoolArray (map (\<lambda>(l, n, a). Some \<lparr>pe_label = l, pe_denominationSol = to_double (of_int n / 1000000000), pe_address = a\<rparr>) ladder_entries))"]
  show ?thesis by (simp add: loadPools_def ladder_entries_def default_pools_def built_in_def)
qed

end
