(* ===== verification/NoteVault.thy ===== *)
theory NoteVault
  imports Note MerkleTree
begin

text \<open>
  The browser's vault of pending notes, app/src/utils/noteVault.ts, and its reconciliation with the
  chain, app/src/utils/noteReconcile.ts. Local storage is a list of entries with distinct keys, each
  holding what \<open>JSON.parse\<close> makes of its text; writes may be refused. Several tabs share it, and the
  step relation interleaves their single storage accesses. What is proved: a staged note stays until
  the user clears that note, migration loses nothing, and reconciliation only ever marks notes whose
  commitment is in a verified tree. Event notification is not modelled.
\<close>

subsection \<open>Storage\<close>

type_synonym store = "(string \<times> json js) list"

text \<open>Whether storage can be accessed at all, and whether a write fits the quota.\<close>

record vault_env =
  ve_available :: bool
  ve_fits :: "store \<Rightarrow> string \<Rightarrow> json \<Rightarrow> bool"

definition getItem :: "store \<Rightarrow> string \<Rightarrow> json js option" where
  "getItem st key = map_of st key"

definition setItem :: "string \<Rightarrow> json js \<Rightarrow> store \<Rightarrow> store" where
  "setItem key v st =
     (if key \<in> fst ` set st then map (\<lambda>(k, w). if k = key then (k, v) else (k, w)) st else st @ [(key, v)])"

definition removeItem :: "string \<Rightarrow> store \<Rightarrow> store" where
  "removeItem key st = filter (\<lambda>e. fst e \<noteq> key) st"

text \<open>\<open>JSON.parse(JSON.stringify(n))\<close> of a note object: undefined fields are dropped.\<close>

definition stringified :: "json \<Rightarrow> json" where
  "stringified j = (case j of JObj fs \<Rightarrow> JObj (filter (\<lambda>f. snd f \<noteq> JUndef) fs) | _ \<Rightarrow> j)"

text \<open>\<open>{...n, name: v}\<close>.\<close>

definition obj_set :: "string \<Rightarrow> json \<Rightarrow> json \<Rightarrow> json" where
  "obj_set name v j =
     (case j of
        JObj fs \<Rightarrow> JObj (if name \<in> fst ` set fs then map (\<lambda>(k, w). if k = name then (k, v) else (k, w)) fs
                        else fs @ [(name, v)])
      | _ \<Rightarrow> JObj [(name, v)])"

definition nullish :: "json \<Rightarrow> bool" where
  "nullish j \<longleftrightarrow> j = JUndef \<or> j = JNull"

subsection \<open>Keys and migration\<close>

definition VAULT_PREFIX :: string where "VAULT_PREFIX = ''sornadocash_note_v2:''"
definition ARRAY_KEY :: string where "ARRAY_KEY = ''sornadocash_pending_notes_v1''"
definition LEGACY_KEY :: string where "LEGACY_KEY = ''solnadocash_pending_notes_v1''"

definition note_key :: "string \<Rightarrow> string" where
  "note_key note = VAULT_PREFIX @ note"

definition isNote :: "json \<Rightarrow> bool" where
  "isNote n = (case js_get n ''note'' of JStr s \<Rightarrow> starts_with s ''sndo_'' | _ \<Rightarrow> False)"

definition note_text :: "json \<Rightarrow> string" where
  "note_text n = (case js_get n ''note'' of JStr s \<Rightarrow> s | _ \<Rightarrow> [])"

text \<open>The loop over an array: False when a write was refused, which abandons the rest of the array.\<close>

primrec put_missing :: "vault_env \<Rightarrow> json list \<Rightarrow> store \<Rightarrow> store \<times> bool" where
  "put_missing env [] st = (st, True)"
| "put_missing env (n # ns) st =
     (if getItem st (note_key (note_text n)) \<noteq> None then put_missing env ns st
      else if ve_fits env st (note_key (note_text n)) (stringified n)
      then put_missing env ns (setItem (note_key (note_text n)) (Returns (stringified n)) st)
      else (st, False))"

definition migrate_key :: "vault_env \<Rightarrow> store \<Rightarrow> string \<Rightarrow> store" where
  "migrate_key env st key =
     (case getItem st key of
        None \<Rightarrow> st
      | Some (Throws e) \<Rightarrow> st
      | Some (Returns parsed) \<Rightarrow>
          (case parsed of
             JArr ns \<Rightarrow>
               (let r = put_missing env (filter isNote ns) st in if snd r then removeItem key (fst r) else fst r)
           | _ \<Rightarrow> removeItem key st))"

definition migrateArrays :: "vault_env \<Rightarrow> store \<Rightarrow> store" where
  "migrateArrays env st = foldl (migrate_key env) st [LEGACY_KEY, ARRAY_KEY]"

subsection \<open>Reading and writing notes\<close>

definition stored_note :: "string \<times> json js \<Rightarrow> json option" where
  "stored_note entry =
     (if starts_with (fst entry) VAULT_PREFIX
      then (case snd entry of
          Throws e \<Rightarrow> None
        | Returns n \<Rightarrow> if isNote n \<and> note_key (note_text n) = fst entry then Some n else None)
      else None)"

definition readAll :: "vault_env \<Rightarrow> store \<Rightarrow> json list \<times> store" where
  "readAll env st =
     (if ve_available env then let st' = migrateArrays env st in (List.map_filter stored_note st', st')
      else ([], st))"

definition readOne :: "vault_env \<Rightarrow> store \<Rightarrow> string \<Rightarrow> json option \<times> store" where
  "readOne env st note =
     (if ve_available env
      then let st' = migrateArrays env st in
        ((case getItem st' (note_key note) of
            Some (Returns n) \<Rightarrow> if isNote n then Some n else None
          | _ \<Rightarrow> None), st')
      else (None, st))"

definition writeOne :: "vault_env \<Rightarrow> store \<Rightarrow> json \<Rightarrow> bool \<times> store" where
  "writeOne env st entry =
     (let key = note_key (note_text entry) in
      if ve_available env \<and> ve_fits env st key (stringified entry)
      then (True, setItem key (Returns (stringified entry)) st) else (False, st))"

definition staged_entry :: "int \<Rightarrow> string \<Rightarrow> json \<Rightarrow> json" where
  "staged_entry now session entry =
     obj_set ''session'' (JStr session) (obj_set ''createdAt'' (JInt now) (obj_set ''status'' (JStr ''unsent'') entry))"

definition stageNote :: "vault_env \<Rightarrow> int \<Rightarrow> string \<Rightarrow> json \<Rightarrow> store \<Rightarrow> bool \<times> store" where
  "stageNote env now session entry st = writeOne env st (staged_entry now session entry)"

definition marked_entry :: "int \<Rightarrow> string \<Rightarrow> string option \<Rightarrow> json \<Rightarrow> json" where
  "marked_entry now status sig n =
     obj_set ''sentAt''
       (if status = ''unsent'' then js_get n ''sentAt''
        else if nullish (js_get n ''sentAt'') then JInt now else js_get n ''sentAt'')
       (obj_set ''signature'' (case sig of None \<Rightarrow> js_get n ''signature'' | Some s \<Rightarrow> JStr s)
          (obj_set ''status'' (JStr status) n))"

definition markNoteStatus :: "vault_env \<Rightarrow> int \<Rightarrow> string \<Rightarrow> string \<Rightarrow> string option \<Rightarrow> store \<Rightarrow> store" where
  "markNoteStatus env now note status sig st =
     (case readOne env st note of
        (None, st') \<Rightarrow> st'
      | (Some n, st') \<Rightarrow> snd (writeOne env st' (marked_entry now status sig n)))"

definition clearNote :: "vault_env \<Rightarrow> string \<Rightarrow> store \<Rightarrow> store" where
  "clearNote env note st = (if ve_available env then removeItem (note_key note) st else st)"

text \<open>Creation times are the integers \<open>Date.now()\<close> gives; anything else sorts as zero.\<close>

definition created_at :: "json \<Rightarrow> int" where
  "created_at n = (case js_get n ''createdAt'' of JInt t \<Rightarrow> t | _ \<Rightarrow> 0)"

definition pendingNotes :: "vault_env \<Rightarrow> store \<Rightarrow> json list \<times> store" where
  "pendingNotes env st = (case readAll env st of (notes, st') \<Rightarrow> (sort_key (\<lambda>n. - created_at n) notes, st'))"

definition hasPendingNotes :: "vault_env \<Rightarrow> store \<Rightarrow> bool \<times> store" where
  "hasPendingNotes env st = (case readAll env st of (notes, st') \<Rightarrow> (0 < length notes, st'))"

definition stagedThisSession :: "string \<Rightarrow> json \<Rightarrow> bool" where
  "stagedThisSession session note \<longleftrightarrow> js_get note ''session'' = JStr session"

subsection \<open>Tabs\<close>

text \<open>
  What a tab still has to do, one storage access each. Storage is shared by tabs that run in parallel,
  so between any two accesses of one tab the others may act.
\<close>

datatype vault_op =
    ReadArray string
  | CheckNote json
  | PutNote json
  | DropKey string
  | ReadForMark string int string "string option"
  | WriteOne json

datatype vault_call =
    CallStage json int string
  | CallMark string int string "string option"
  | CallRead
  | CallClear string

definition migrate_ops :: "vault_op list" where
  "migrate_ops = [ReadArray LEGACY_KEY, ReadArray ARRAY_KEY]"

definition call_ops :: "vault_call \<Rightarrow> vault_op list" where
  "call_ops c =
     (case c of
        CallStage entry now session \<Rightarrow> [WriteOne (staged_entry now session entry)]
      | CallMark note now status sig \<Rightarrow> migrate_ops @ [ReadForMark note now status sig]
      | CallRead \<Rightarrow> migrate_ops
      | CallClear note \<Rightarrow> [DropKey (note_key note)])"

text \<open>A refused write inside the migration abandons what is left of that array.\<close>

definition abandon :: "vault_op list \<Rightarrow> vault_op list" where
  "abandon ops = dropWhile (\<lambda>op. case op of CheckNote n \<Rightarrow> True | PutNote n \<Rightarrow> True | DropKey k \<Rightarrow> True | _ \<Rightarrow> False) ops"

fun vault_step :: "vault_env \<Rightarrow> vault_op \<Rightarrow> vault_op list \<Rightarrow> store \<Rightarrow> store \<times> vault_op list" where
  "vault_step env (ReadArray key) rest st =
     (case getItem st key of
        Some (Returns (JArr ns)) \<Rightarrow> (st, map CheckNote (filter isNote ns) @ DropKey key # rest)
      | Some (Returns _) \<Rightarrow> (st, DropKey key # rest)
      | _ \<Rightarrow> (st, rest))"
| "vault_step env (CheckNote n) rest st =
     (if getItem st (note_key (note_text n)) = None then (st, PutNote n # rest) else (st, rest))"
| "vault_step env (PutNote n) rest st =
     (if ve_fits env st (note_key (note_text n)) (stringified n)
      then (setItem (note_key (note_text n)) (Returns (stringified n)) st, rest) else (st, abandon rest))"
| "vault_step env (DropKey key) rest st = (removeItem key st, rest)"
| "vault_step env (ReadForMark note now status sig) rest st =
     (case getItem st (note_key note) of
        Some (Returns n) \<Rightarrow> (st, (if isNote n then [WriteOne (marked_entry now status sig n)] else []) @ rest)
      | _ \<Rightarrow> (st, rest))"
| "vault_step env (WriteOne entry) rest st =
     (if ve_fits env st (note_key (note_text entry)) (stringified entry)
      then (setItem (note_key (note_text entry)) (Returns (stringified entry)) st, rest) else (st, rest))"

record vault_browser =
  vb_store :: store
  vb_tabs :: "nat \<Rightarrow> vault_op list"

text \<open>
  A run of the browser, with the calls its tabs made: an idle tab makes a call, or a tab takes its next
  step. The quota may be different at every step.
\<close>

inductive vault_run :: "vault_browser \<Rightarrow> vault_call list \<Rightarrow> vault_browser \<Rightarrow> bool" where
  vault_stay: "vault_run b [] b"
| vault_call: "vault_run b cs b' \<Longrightarrow> vb_tabs b' t = [] \<Longrightarrow>
    vault_run b (cs @ [c]) (b'\<lparr>vb_tabs := (vb_tabs b')(t := call_ops c)\<rparr>)"
| vault_move: "vault_run b cs b' \<Longrightarrow> vb_tabs b' t = op # rest \<Longrightarrow> vault_step env op rest (vb_store b') = (st, ops) \<Longrightarrow>
    vault_run b cs \<lparr>vb_store = st, vb_tabs = (vb_tabs b')(t := ops)\<rparr>"

subsection \<open>Reconciliation\<close>

definition GRACE_MS :: int where "GRACE_MS = 2 * 60 * 1000"

record reconcile_result =
  rc_confirmed :: nat
  rc_notFound :: nat
  rc_unresolved :: nat

text \<open>The verdict on a note: \<open>hasLeaf\<close> on a verified tree, or a throw from decoding or rebuilding.\<close>

definition note_on_chain :: "(string \<Rightarrow> pubkey js) \<Rightarrow> (int list \<Rightarrow> int) \<Rightarrow> (pubkey \<Rightarrow> merkle_tree js) \<Rightarrow> string \<Rightarrow> bool js" where
  "note_on_chain parse H rebuild encoded =
     js_bind (decodeNote parse encoded) (\<lambda>note.
     js_bind (rebuild (sn_poolAddress note)) (\<lambda>tree.
     Returns (hasLeaf tree (H [sn_nullifier note, sn_secret note, sn_denomination note]))))"

text \<open>
  \<open>Date.now() - entry.sentAt < GRACE_MS\<close>. The times this module writes are integers; null counts as
  zero, and the comparison is false for what is not a number.
\<close>

definition too_recent :: "int \<Rightarrow> json \<Rightarrow> bool" where
  "too_recent now sentAt = (case sentAt of JInt t \<Rightarrow> now - t < GRACE_MS | JNull \<Rightarrow> now < GRACE_MS | _ \<Rightarrow> False)"

text \<open>
  One note: \<open>now\<close> is the clock at the check, \<open>later\<close> when the mark is written, \<open>verdict\<close> the answer on
  the text of the note.
\<close>

definition reconcile_one :: "vault_env \<Rightarrow> int \<Rightarrow> int \<Rightarrow> (string \<Rightarrow> bool js) \<Rightarrow> json \<Rightarrow> reconcile_result \<times> store
    \<Rightarrow> reconcile_result \<times> store" where
  "reconcile_one env now later verdict entry acc =
     (case acc of (r, st) \<Rightarrow>
        if js_get entry ''status'' = JStr ''confirmed'' then (r, st)
        else if js_get entry ''status'' = JStr ''unsent'' \<or> js_get entry ''sentAt'' = JUndef
        then (r\<lparr>rc_unresolved := rc_unresolved r + 1\<rparr>, st)
        else if too_recent now (js_get entry ''sentAt'')
        then (r\<lparr>rc_unresolved := rc_unresolved r + 1\<rparr>, st)
        else (case verdict (note_text entry) of
            Returns True \<Rightarrow>
              (r\<lparr>rc_confirmed := rc_confirmed r + 1\<rparr>, markNoteStatus env later (note_text entry) ''confirmed'' None st)
          | Returns False \<Rightarrow> (r\<lparr>rc_notFound := rc_notFound r + 1\<rparr>, st)
          | Throws e \<Rightarrow> (r\<lparr>rc_unresolved := rc_unresolved r + 1\<rparr>, st)))"

text \<open>The k-th note is checked at \<open>clock (2 k)\<close>, against the chain as \<open>rebuild k\<close> sees it.\<close>

primrec reconcile_loop :: "vault_env \<Rightarrow> (nat \<Rightarrow> int) \<Rightarrow> (nat \<Rightarrow> string \<Rightarrow> bool js) \<Rightarrow> nat \<Rightarrow> json list
    \<Rightarrow> reconcile_result \<times> store \<Rightarrow> reconcile_result \<times> store" where
  "reconcile_loop env clock verdict k [] acc = acc"
| "reconcile_loop env clock verdict k (e # es) acc =
     reconcile_loop env clock verdict (Suc k) es
       (reconcile_one env (clock (2 * k)) (clock (2 * k + 1)) (verdict k) e acc)"

definition reconcilePendingNotes :: "vault_env \<Rightarrow> (nat \<Rightarrow> int) \<Rightarrow> (string \<Rightarrow> pubkey js) \<Rightarrow> (int list \<Rightarrow> int)
    \<Rightarrow> (nat \<Rightarrow> pubkey \<Rightarrow> merkle_tree js) \<Rightarrow> store \<Rightarrow> reconcile_result \<times> store" where
  "reconcilePendingNotes env clock parse H rebuild st =
     (case pendingNotes env st of (notes, st') \<Rightarrow>
        reconcile_loop env clock (\<lambda>k. note_on_chain parse H (rebuild k)) 0 notes
          (\<lparr>rc_confirmed = 0, rc_notFound = 0, rc_unresolved = 0\<rparr>, st'))"

subsection \<open>Storage facts\<close>

definition put_pair :: "'a \<Rightarrow> 'b \<Rightarrow> ('a \<times> 'b) list \<Rightarrow> ('a \<times> 'b) list" where
  "put_pair k v xs = (if k \<in> fst ` set xs then map (\<lambda>(a, w). if a = k then (a, v) else (a, w)) xs else xs @ [(k, v)])"

lemma map_of_put_pair: "map_of (put_pair k v xs) m = (if m = k then Some v else map_of xs m)"
proof (cases "k \<in> fst ` set xs")
  case True
  then have "map_of (map (\<lambda>(a, w). if a = k then (a, v) else (a, w)) xs) m = (if m = k then Some v else map_of xs m)"
  proof (induction xs)
    case (Cons x xs)
    show ?case
    proof (cases "k \<in> fst ` set xs")
      case True
      then show ?thesis using Cons.IH by (cases x) auto
    next
      case False
      have "map (\<lambda>(a, w). if a = k then (a, v) else (a, w)) xs = xs"
        by (rule map_idI) (use False in \<open>force split: prod.splits\<close>)
      then show ?thesis using Cons.prems False by (cases x) auto
    qed
  qed simp
  then show ?thesis using True by (simp add: put_pair_def)
next
  case False
  then have "map_of xs k = None" by (simp add: map_of_eq_None_iff)
  then show ?thesis using False by (cases "map_of xs m") (auto simp: put_pair_def map_add_def)
qed

lemma setItem_put: "setItem k v st = put_pair k v st"
  by (simp add: setItem_def put_pair_def)

lemma getItem_setItem [simp]: "getItem (setItem k v st) k' = (if k' = k then Some v else getItem st k')"
  by (simp add: getItem_def setItem_put map_of_put_pair)

lemma getItem_removeItem [simp]: "getItem (removeItem k st) k' = (if k' = k then None else getItem st k')"
  unfolding getItem_def removeItem_def by (induction st) auto

lemma setItem_keys: "distinct (map fst st) \<Longrightarrow> distinct (map fst (setItem k v st))"
proof -
  have "map fst (map (\<lambda>(a, w). if a = k then (a, v) else (a, w)) st) = map fst st" by (induction st) auto
  then show "distinct (map fst st) \<Longrightarrow> ?thesis" by (simp add: setItem_def del: map_map)
qed

lemma removeItem_keys: "distinct (map fst st) \<Longrightarrow> distinct (map fst (removeItem k st))"
  by (simp add: removeItem_def distinct_map_filter)

lemma obj_set_put: "obj_set name v (JObj fs) = JObj (put_pair name v fs)"
  by (simp add: obj_set_def put_pair_def)

lemma js_get_obj_set [simp]: "js_get (obj_set name v (JObj fs)) m = (if m = name then v else js_get (JObj fs) m)"
  by (simp add: obj_set_put js_get_def map_of_put_pair)

lemma obj_set_obj: "\<exists>gs. obj_set name v (JObj fs) = JObj gs"
  by (simp add: obj_set_put)

lemma isNote_stringified: "isNote n \<Longrightarrow> isNote (stringified n) \<and> note_text (stringified n) = note_text n"
proof -
  assume n: "isNote n"
  then obtain fs s where f: "n = JObj fs" "map_of fs ''note'' = Some (JStr s)"
    by (auto simp: isNote_def js_get_def split: json.splits option.splits)
  have "map_of fs k = Some v \<Longrightarrow> v \<noteq> JUndef \<Longrightarrow> map_of (filter (\<lambda>f. snd f \<noteq> JUndef) fs) k = Some v" for k v
    by (induction fs) (auto split: if_splits)
  then have "map_of (filter (\<lambda>f. snd f \<noteq> JUndef) fs) ''note'' = Some (JStr s)" using f by blast
  then show ?thesis using n f by (simp add: isNote_def note_text_def stringified_def js_get_def)
qed

subsection \<open>A staged note stays\<close>

definition holds_note :: "store \<Rightarrow> string \<Rightarrow> bool" where
  "holds_note st n \<longleftrightarrow> (\<exists>e. getItem st (note_key n) = Some (Returns e) \<and> isNote e \<and> note_text e = n)"

lemma note_key_inj [simp]: "note_key a = note_key b \<longleftrightarrow> a = b"
  by (simp add: note_key_def)

lemma array_keys [simp]: "note_key n \<noteq> LEGACY_KEY" "note_key n \<noteq> ARRAY_KEY" "LEGACY_KEY \<noteq> note_key n" "ARRAY_KEY \<noteq> note_key n"
  by (simp_all add: note_key_def VAULT_PREFIX_def LEGACY_KEY_def ARRAY_KEY_def)

lemma note_key_prefix [simp]: "starts_with (note_key n) VAULT_PREFIX"
  by (auto simp: note_key_def starts_with_iff)

lemma isNote_obj: "isNote n \<Longrightarrow> \<exists>fs. n = JObj fs"
  by (auto simp: isNote_def js_get_def split: json.splits)

lemma isNote_text: "starts_with n ''sndo_'' \<Longrightarrow> note_text e = n \<Longrightarrow> isNote e"
  by (auto simp: isNote_def note_text_def split: json.splits)

lemma isNote_obj_set: "isNote n \<Longrightarrow> m \<noteq> ''note'' \<Longrightarrow> isNote (obj_set m v n) \<and> note_text (obj_set m v n) = note_text n"
  using isNote_obj [of n] by (auto simp: isNote_def note_text_def)

lemma isNote_marked: "isNote n \<Longrightarrow> isNote (marked_entry now status sig n) \<and> note_text (marked_entry now status sig n) = note_text n"
  by (simp add: marked_entry_def isNote_obj_set)

lemma isNote_staged: "isNote n \<Longrightarrow> isNote (staged_entry now session n) \<and> note_text (staged_entry now session n) = note_text n"
  by (simp add: staged_entry_def isNote_obj_set)

lemma holds_note_write:
  "holds_note st n \<or> k = note_key n \<Longrightarrow> isNote e \<Longrightarrow> k = note_key (note_text e) \<Longrightarrow> holds_note (setItem k (Returns (stringified e)) st) n"
  using isNote_stringified [of e] by (auto simp: holds_note_def)

lemma put_missing_keeps:
  "getItem st k = Some v \<Longrightarrow> getItem (fst (put_missing env ns st)) k = Some v"
proof (induction ns arbitrary: st)
  case (Cons n ns)
  show ?case
  proof (cases "getItem st (note_key (note_text n))")
    case None
    then have "getItem (setItem (note_key (note_text n)) w st) k = Some v" for w using Cons.prems by auto
    then show ?thesis using Cons None by simp
  next
    case (Some u)
    then show ?thesis using Cons by simp
  qed
qed simp

lemma migrate_key_keeps:
  "getItem st k = Some v \<Longrightarrow> k \<noteq> key \<Longrightarrow> getItem (migrate_key env st key) k = Some v"
  using put_missing_keeps by (auto simp: migrate_key_def Let_def split: option.splits js.splits json.splits)

lemma migrateArrays_keeps:
  "getItem st k = Some v \<Longrightarrow> k \<noteq> LEGACY_KEY \<Longrightarrow> k \<noteq> ARRAY_KEY \<Longrightarrow> getItem (migrateArrays env st) k = Some v"
  by (simp add: migrateArrays_def migrate_key_keeps)

lemma pending_notes_set:
  "ve_available env \<Longrightarrow> set (fst (pendingNotes env st)) = {n. \<exists>e\<in>set (migrateArrays env st). stored_note e = Some n}"
  by (auto simp: pendingNotes_def readAll_def Let_def map_filter_def) (force simp: image_iff)

lemma getItem_mem: "getItem st k = Some v \<Longrightarrow> (k, v) \<in> set st"
  by (simp add: getItem_def map_of_SomeD)

lemma getItem_distinct: "distinct (map fst st) \<Longrightarrow> getItem st k = Some v \<longleftrightarrow> (k, v) \<in> set st"
  by (simp add: getItem_def)

lemma holds_note_pending:
  assumes "holds_note st n" "ve_available env"
  shows "n \<in> note_text ` set (fst (pendingNotes env st))"
proof -
  obtain e where e: "getItem st (note_key n) = Some (Returns e)" "isNote e" "note_text e = n"
    using assms(1) by (auto simp: holds_note_def)
  have "(note_key n, Returns e) \<in> set (migrateArrays env st)"
    by (rule getItem_mem [OF migrateArrays_keeps [OF e(1)]]) simp_all
  moreover have "stored_note (note_key n, Returns e) = Some e" using e by (simp add: stored_note_def)
  ultimately show ?thesis using pending_notes_set [OF assms(2)] e(3) by force
qed

text \<open>The operations a tab can have pending, given that no call clears the note.\<close>

definition harmless :: "string \<Rightarrow> vault_op \<Rightarrow> bool" where
  "harmless n op =
     (case op of
        ReadArray k \<Rightarrow> k \<noteq> note_key n
      | DropKey k \<Rightarrow> k \<noteq> note_key n
      | CheckNote e \<Rightarrow> isNote e
      | PutNote e \<Rightarrow> isNote e
      | _ \<Rightarrow> True)"

lemma harmless_simps [simp]:
  "harmless n (ReadArray k) \<longleftrightarrow> k \<noteq> note_key n"
  "harmless n (DropKey k) \<longleftrightarrow> k \<noteq> note_key n"
  "harmless n (CheckNote e) \<longleftrightarrow> isNote e"
  "harmless n (PutNote e) \<longleftrightarrow> isNote e"
  "harmless n (ReadForMark a b c d)"
  "harmless n (WriteOne e)"
  by (simp_all add: harmless_def)

lemma harmless_call: "c \<noteq> CallClear n \<Longrightarrow> list_all (harmless n) (call_ops c)"
  by (cases c) (auto simp: call_ops_def migrate_ops_def)

lemma harmless_step:
  assumes "starts_with n ''sndo_''" "harmless n op" "list_all (harmless n) rest" "vault_step env op rest st = (st', ops)"
  shows "list_all (harmless n) ops \<and> (holds_note st n \<longrightarrow> holds_note st' n)"
proof (cases op)
  case (ReadArray k)
  then show ?thesis using assms by (auto simp: list_all_iff split: option.splits js.splits json.splits)
next
  case (CheckNote e)
  then show ?thesis using assms by (auto split: if_splits)
next
  case (PutNote e)
  have "list_all (harmless n) (abandon rest)"
    using assms(3) unfolding abandon_def list_all_iff by (meson set_dropWhileD)
  then show ?thesis using assms PutNote holds_note_write [of st n _ e] by (auto split: if_splits)
next
  case (DropKey k)
  then show ?thesis using assms by (auto simp: holds_note_def)
next
  case (ReadForMark a b c d)
  then show ?thesis using assms by (auto split: option.splits js.splits)
next
  case (WriteOne e)
  show ?thesis
  proof (cases "note_text e = n")
    case True
    then have "isNote e" using assms(1) isNote_text by blast
    then show ?thesis using assms WriteOne holds_note_write [of st n _ e] by (auto split: if_splits)
  next
    case False
    then show ?thesis using assms WriteOne by (auto simp: holds_note_def split: if_splits)
  qed
qed

lemma vault_run_harmless:
  assumes "vault_run b cs b'" "starts_with n ''sndo_''" "CallClear n \<notin> set cs" "\<forall>t. list_all (harmless n) (vb_tabs b t)"
  shows "(\<forall>t. list_all (harmless n) (vb_tabs b' t)) \<and> (holds_note (vb_store b) n \<longrightarrow> holds_note (vb_store b') n)"
  using assms
proof (induction rule: vault_run.induct)
  case (vault_call b cs b' t c)
  then show ?case using harmless_call [of c n] by auto
next
  case (vault_move b cs b' t op rest env st ops)
  have "list_all (harmless n) (op # rest)" using vault_move by metis
  then show ?case using harmless_step [OF vault_move.prems(1) _ _ vault_move.hyps(3)] vault_move by auto
qed auto

text \<open>
  C11. A staged note is never lost by accident: once \<open>stageNote\<close> has reported success, the note is
  stored and shown as pending after any further activity of any number of tabs, whatever they stage,
  mark, read or clear, however their storage accesses interleave and whichever writes are refused, as
  long as no tab clears that very note.
\<close>

theorem staged_note_survives:
  assumes "stageNote env now session entry (vb_store b) = (True, st)" "isNote entry" "n = note_text entry"
    and "\<forall>t. list_all (harmless n) (vb_tabs b t)"
    and "vault_run (b\<lparr>vb_store := st\<rparr>) cs b'" "CallClear n \<notin> set cs" "ve_available env'"
  shows "(\<exists>e. getItem (vb_store b') (note_key n) = Some (Returns e) \<and> isNote e \<and> note_text e = n)
    \<and> n \<in> note_text ` set (fst (pendingNotes env' (vb_store b')))"
proof -
  have s: "starts_with n ''sndo_''" using assms(2,3) by (auto simp: isNote_def note_text_def split: json.splits)
  have "st = setItem (note_key n) (Returns (stringified (staged_entry now session entry))) (vb_store b)"
    using assms(1,3) isNote_staged [OF assms(2)] by (auto simp: stageNote_def writeOne_def Let_def split: if_splits)
  then have "holds_note st n"
    using holds_note_write [of "vb_store b" n "note_key n" "staged_entry now session entry"] isNote_staged [OF assms(2)] assms(3) by simp
  then have h: "holds_note (vb_store b') n"
    using vault_run_harmless [OF assms(5) s assms(6)] assms(4) by simp
  then show ?thesis using holds_note_pending [OF h assms(7)] by (simp add: holds_note_def)
qed

text \<open>Two tabs: one stages a note while the other is between reading an array and removing it.\<close>

definition other_note :: json where
  "other_note = JObj [(''note'', JStr ''sndo_b'')]"

definition two_tabs :: vault_browser where
  "two_tabs = \<lparr>vb_store = [(ARRAY_KEY, Returns (JArr [other_note]))],
     vb_tabs = (\<lambda>t. if t = 1 then [CheckNote other_note, DropKey ARRAY_KEY] else [])\<rparr>"

definition open_storage :: vault_env where
  "open_storage = \<lparr>ve_available = True, ve_fits = (\<lambda>st k j. True)\<rparr>"

lemma staged_note_survives_witness:
  "\<exists>st b'. stageNote open_storage 5 ''s'' (JObj [(''note'', JStr ''sndo_a'')]) (vb_store two_tabs) = (True, st)
     \<and> vault_run (two_tabs\<lparr>vb_store := st\<rparr>) [] b' \<and> vb_tabs b' 1 = []
     \<and> ''sndo_a'' \<in> note_text ` set (fst (pendingNotes open_storage (vb_store b')))"
proof -
  let ?e = "JObj [(''note'', JStr ''sndo_a'')]"
  obtain st where st: "stageNote open_storage 5 ''s'' ?e (vb_store two_tabs) = (True, st)"
    by (simp add: stageNote_def writeOne_def open_storage_def Let_def)
  let ?b = "two_tabs\<lparr>vb_store := st\<rparr>"
  have ne: "isNote ?e" "isNote other_note" "note_text ?e = ''sndo_a''" by code_simp+
  have "getItem st (note_key (note_text other_note)) = None"
  proof -
    have "getItem (snd (stageNote open_storage 5 ''s'' ?e (vb_store two_tabs))) (note_key (note_text other_note)) = None" by code_simp
    then show ?thesis using st by simp
  qed
  then have 1: "vault_run ?b [] \<lparr>vb_store = st, vb_tabs = (vb_tabs two_tabs)(1 := [PutNote other_note, DropKey ARRAY_KEY])\<rparr>"
    using vault_move [OF vault_stay [of ?b], of 1 "CheckNote other_note" "[DropKey ARRAY_KEY]" open_storage] by (simp add: two_tabs_def)
  obtain st' where 2: "vault_run ?b [] \<lparr>vb_store = st', vb_tabs = (vb_tabs two_tabs)(1 := [DropKey ARRAY_KEY])\<rparr>"
    using vault_move [OF 1, of 1 "PutNote other_note" "[DropKey ARRAY_KEY]" open_storage] by (simp add: open_storage_def)
  obtain st'' where 3: "vault_run ?b [] \<lparr>vb_store = st'', vb_tabs = (vb_tabs two_tabs)(1 := [])\<rparr>"
    using vault_move [OF 2, of 1 "DropKey ARRAY_KEY" "[]" open_storage] by simp
  have h: "\<forall>t. list_all (harmless ''sndo_a'') (vb_tabs two_tabs t)" using ne by (simp add: two_tabs_def)
  show ?thesis
    using staged_note_survives [OF st ne(1) ne(3)[symmetric] h 3, of open_storage] st 3 by (auto simp: open_storage_def)
qed

subsection \<open>Migration\<close>

lemma put_missing_present:
  "n \<in> set ns \<Longrightarrow> snd (put_missing env ns st) \<Longrightarrow> getItem (fst (put_missing env ns st)) (note_key (note_text n)) \<noteq> None"
proof (induction ns arbitrary: st)
  case (Cons m ns)
  show ?case
  proof (cases "n \<in> set ns")
    case True
    then show ?thesis using Cons.IH Cons.prems by (simp split: if_splits)
  next
    case False
    then have "m = n" using Cons.prems by simp
    then show ?thesis using Cons.prems put_missing_keeps by (fastforce split: if_splits)
  qed
qed simp

lemma put_missing_others:
  "k \<notin> range note_key \<Longrightarrow> getItem (fst (put_missing env ns st)) k = getItem st k"
  by (induction ns arbitrary: st) auto

lemma array_not_note_key: "LEGACY_KEY \<notin> range note_key" "ARRAY_KEY \<notin> range note_key"
  by (metis array_keys(1) rangeE, metis array_keys(2) rangeE)

lemma migrate_key_total:
  assumes "getItem st key = Some (Returns (JArr ns))" "n \<in> set ns" "isNote n" "key \<notin> range note_key"
  shows "getItem (migrate_key env st key) (note_key (note_text n)) \<noteq> None
    \<or> getItem (migrate_key env st key) key = Some (Returns (JArr ns))"
proof (cases "snd (put_missing env (filter isNote ns) st)")
  case True
  have "getItem (fst (put_missing env (filter isNote ns) st)) (note_key (note_text n)) \<noteq> None"
    using put_missing_present [OF _ True, of n] assms(2,3) by simp
  then show ?thesis using True assms(1,4) by (auto simp: migrate_key_def Let_def)
next
  case False
  then show ?thesis using assms(1) put_missing_others [OF assms(4)] by (simp add: migrate_key_def Let_def)
qed

lemma migrate_key_elsewhere:
  "k \<notin> range note_key \<Longrightarrow> k \<noteq> key \<Longrightarrow> getItem (migrate_key env st key) k = getItem st k"
  using put_missing_others by (auto simp: migrate_key_def Let_def split: option.splits js.splits json.splits)

text \<open>
  Migration never loses a note: after it, each note of either old array has an entry under its own
  key, or the array is still there, unchanged, to be retried; and an entry that already existed is kept
  as it is.
\<close>

theorem migration_loses_nothing:
  assumes "key \<in> {LEGACY_KEY, ARRAY_KEY}" "getItem st key = Some (Returns (JArr ns))" "n \<in> set ns" "isNote n"
  shows "(getItem (migrateArrays env st) (note_key (note_text n)) \<noteq> None
      \<or> getItem (migrateArrays env st) key = Some (Returns (JArr ns)))
    \<and> (\<forall>v. getItem st (note_key (note_text n)) = Some v \<longrightarrow> getItem (migrateArrays env st) (note_key (note_text n)) = Some v)"
proof -
  let ?k = "note_key (note_text n)" and ?s = "migrate_key env st LEGACY_KEY"
  have m: "migrateArrays env st = migrate_key env ?s ARRAY_KEY" by (simp add: migrateArrays_def)
  have ks: "LEGACY_KEY \<noteq> ARRAY_KEY" by (simp add: LEGACY_KEY_def ARRAY_KEY_def)
  have "getItem (migrateArrays env st) ?k \<noteq> None \<or> getItem (migrateArrays env st) key = Some (Returns (JArr ns))"
  proof (cases "key = LEGACY_KEY")
    case True
    then show ?thesis
      using migrate_key_total [of st LEGACY_KEY ns n env] assms(2-4) array_not_note_key(1) ks
        migrate_key_keeps [of ?s ?k _ ARRAY_KEY env] migrate_key_elsewhere [OF array_not_note_key(1) ks, of env ?s]
      by (auto simp: m)
  next
    case False
    then have k: "key = ARRAY_KEY" using assms(1) by simp
    then have "getItem ?s ARRAY_KEY = Some (Returns (JArr ns))"
      using migrate_key_elsewhere [OF array_not_note_key(2), of LEGACY_KEY env st] assms(2) ks by simp
    then show ?thesis using migrate_key_total [of ?s ARRAY_KEY ns n env] assms(3,4) array_not_note_key(2) k by (simp add: m)
  qed
  then show ?thesis using migrateArrays_keeps [of st ?k _ env] by auto
qed

lemma migration_loses_nothing_witness:
  "(\<exists>v. getItem (migrateArrays open_storage (vb_store two_tabs)) (note_key ''sndo_b'') = Some v)
   \<or> getItem (migrateArrays open_storage (vb_store two_tabs)) ARRAY_KEY = Some (Returns (JArr [other_note]))"
proof -
  have "isNote other_note" "note_text other_note = ''sndo_b''" by code_simp+
  then show ?thesis
    using migration_loses_nothing [of ARRAY_KEY "vb_store two_tabs" "[other_note]" other_note open_storage]
    by (simp add: two_tabs_def getItem_def)
qed

subsection \<open>Reconciliation only marks\<close>

lemma put_missing_distinct: "distinct (map fst st) \<Longrightarrow> distinct (map fst (fst (put_missing env ns st)))"
  by (induction ns arbitrary: st) (simp_all add: setItem_keys)

lemma migrateArrays_distinct: "distinct (map fst st) \<Longrightarrow> distinct (map fst (migrateArrays env st))"
proof -
  have "distinct (map fst st) \<Longrightarrow> distinct (map fst (migrate_key env st key))" for st key
    using put_missing_distinct removeItem_keys
    by (auto simp: migrate_key_def Let_def split: option.splits js.splits json.splits)
  then show "distinct (map fst st) \<Longrightarrow> ?thesis" by (simp add: migrateArrays_def)
qed

lemma js_get_stringified: "v \<noteq> JUndef \<Longrightarrow> js_get j m = v \<Longrightarrow> js_get (stringified j) m = v"
proof -
  assume v: "v \<noteq> JUndef" "js_get j m = v"
  then obtain fs where j: "j = JObj fs" "map_of fs m = Some v" by (auto simp: js_get_def split: json.splits option.splits)
  have "map_of xs m = Some v \<Longrightarrow> map_of (filter (\<lambda>f. snd f \<noteq> JUndef) xs) m = Some v" for xs
    using v(1) by (induction xs) (auto split: if_splits)
  then show ?thesis using j by (simp add: stringified_def js_get_def)
qed

lemma marked_status: "isNote c \<Longrightarrow> js_get (stringified (marked_entry now status sig c)) ''status'' = JStr status"
proof -
  assume c: "isNote c"
  then obtain fs where "c = JObj fs" using isNote_obj by blast
  then have "js_get (marked_entry now status sig c) ''status'' = JStr status" by (auto simp: marked_entry_def obj_set_put js_get_def map_of_put_pair)
  then show ?thesis using js_get_stringified by simp
qed

definition note_at :: "store \<Rightarrow> string \<Rightarrow> json \<Rightarrow> bool" where
  "note_at st n e \<longleftrightarrow> getItem st (note_key n) = Some (Returns e) \<and> isNote e \<and> note_text e = n"

lemma mark_effect:
  assumes "note_at st m c"
  shows "note_at st n e \<Longrightarrow> n \<noteq> m \<Longrightarrow> note_at (markNoteStatus env now m status sig st) n e"
    and "note_at (markNoteStatus env now m status sig st) m c
      \<or> note_at (markNoteStatus env now m status sig st) m (stringified (marked_entry now status sig c))"
proof -
  have keep: "getItem st (note_key k) = Some v \<Longrightarrow> getItem (migrateArrays env st) (note_key k) = Some v" for k v
    by (rule migrateArrays_keeps) simp_all
  have r: "readOne env st m = (if ve_available env then (Some c, migrateArrays env st) else (None, st))"
    using assms keep by (simp add: readOne_def note_at_def Let_def)
  have w: "isNote (marked_entry now status sig c)" "note_text (marked_entry now status sig c) = m"
      "isNote (stringified (marked_entry now status sig c))" "note_text (stringified (marked_entry now status sig c)) = m"
    using assms isNote_marked isNote_stringified by (simp_all add: note_at_def)
  show "note_at st n e \<Longrightarrow> n \<noteq> m \<Longrightarrow> note_at (markNoteStatus env now m status sig st) n e"
    using keep w by (auto simp: markNoteStatus_def r writeOne_def Let_def note_at_def)
  show "note_at (markNoteStatus env now m status sig st) m c
      \<or> note_at (markNoteStatus env now m status sig st) m (stringified (marked_entry now status sig c))"
    using keep w assms by (auto simp: markNoteStatus_def r writeOne_def Let_def note_at_def)
qed

definition judged_landed :: "(nat \<Rightarrow> int) \<Rightarrow> (nat \<Rightarrow> string \<Rightarrow> bool js) \<Rightarrow> string \<Rightarrow> json \<Rightarrow> bool" where
  "judged_landed clock verdict n e \<longleftrightarrow>
     js_get e ''status'' \<noteq> JStr ''unsent'' \<and> js_get e ''sentAt'' \<noteq> JUndef
     \<and> (\<exists>k. verdict k n = Returns True \<and> \<not> too_recent (clock (2 * k)) (js_get e ''sentAt''))"

definition reconciled :: "(nat \<Rightarrow> int) \<Rightarrow> (nat \<Rightarrow> string \<Rightarrow> bool js) \<Rightarrow> store \<Rightarrow> store \<Rightarrow> bool" where
  "reconciled clock verdict st0 st \<longleftrightarrow> (\<forall>n e. note_at st0 n e \<longrightarrow>
     note_at st n e \<or> (judged_landed clock verdict n e \<and> (\<exists>e'. note_at st n e' \<and> js_get e' ''status'' = JStr ''confirmed'')))"

lemma reconcile_one_inv:
  assumes "reconciled clock verdict st0 st" "note_at st0 (note_text entry) entry"
    and "reconcile_one env (clock (2 * k)) later (verdict k) entry (r, st) = (r', st')"
  shows "reconciled clock verdict st0 st'"
    and "rc_confirmed r' + rc_notFound r' + rc_unresolved r'
      = rc_confirmed r + rc_notFound r + rc_unresolved r + (if js_get entry ''status'' = JStr ''confirmed'' then 0 else 1)"
proof -
  let ?m = "note_text entry"
  show "reconciled clock verdict st0 st'"
  proof (cases "st' = st")
    case False
    then have st': "st' = markNoteStatus env later ?m ''confirmed'' None st" and j: "judged_landed clock verdict ?m entry"
      using assms(3) unfolding reconcile_one_def judged_landed_def
      by (auto split: if_splits js.splits bool.splits)
    obtain c where c: "note_at st ?m c"
      using assms(1,2) unfolding reconciled_def by blast
    have at: "note_at st' ?m c \<or> (\<exists>e'. note_at st' ?m e' \<and> js_get e' ''status'' = JStr ''confirmed'')"
      using mark_effect(2) [OF c, of env later "''confirmed''" None] marked_status [of c] c unfolding st' note_at_def by metis
    show ?thesis
      unfolding reconciled_def
    proof (intro allI impI)
      fix n e assume e: "note_at st0 n e"
      show "note_at st' n e \<or> (judged_landed clock verdict n e \<and> (\<exists>e'. note_at st' n e' \<and> js_get e' ''status'' = JStr ''confirmed''))"
      proof (cases "n = ?m")
        case True
        then have "e = entry" using e assms(2) by (simp add: note_at_def)
        moreover have "c = entry \<or> js_get c ''status'' = JStr ''confirmed''"
          
        proof -
          have u: "note_at st ?m x \<Longrightarrow> x = c" for x using c by (simp add: note_at_def)
          have "note_at st ?m entry \<or> (\<exists>e'. note_at st ?m e' \<and> js_get e' ''status'' = JStr ''confirmed'')"
            using assms(1,2) unfolding reconciled_def by blast
          then show ?thesis using u by auto
        qed
        ultimately show ?thesis using at j True by blast
      next
        case False
        then have keep: "note_at st n x \<Longrightarrow> note_at st' n x" for x using mark_effect(1) [OF c] unfolding st' by blast
        have "note_at st n e \<or> (judged_landed clock verdict n e \<and> (\<exists>e'. note_at st n e' \<and> js_get e' ''status'' = JStr ''confirmed''))"
          using assms(1) e unfolding reconciled_def by (elim allE impE) assumption+
        then show ?thesis using keep by (elim disjE conjE exE) auto
      qed
    qed
  qed (use assms(1) in simp)
  show "rc_confirmed r' + rc_notFound r' + rc_unresolved r'
      = rc_confirmed r + rc_notFound r + rc_unresolved r + (if js_get entry ''status'' = JStr ''confirmed'' then 0 else 1)"
    using assms(3) unfolding reconcile_one_def by (auto split: if_splits js.splits bool.splits)
qed

lemma reconcile_loop_inv:
  assumes "\<forall>e\<in>set es. note_at st0 (note_text e) e"
  shows "reconciled clock verdict st0 st \<Longrightarrow> reconcile_loop env clock verdict k es (r, st) = (r', st') \<Longrightarrow>
    reconciled clock verdict st0 st'
    \<and> rc_confirmed r' + rc_notFound r' + rc_unresolved r'
      = rc_confirmed r + rc_notFound r + rc_unresolved r + length (filter (\<lambda>e. js_get e ''status'' \<noteq> JStr ''confirmed'') es)"
  using assms
proof (induction es arbitrary: k r st)
  case (Cons e es)
  obtain r1 st1 where s: "reconcile_one env (clock (2 * k)) (clock (2 * k + 1)) (verdict k) e (r, st) = (r1, st1)" by fastforce
  have e: "note_at st0 (note_text e) e" using Cons.prems(3) by simp
  show ?case
    using Cons.IH [of st1 "Suc k" r1] Cons.prems s reconcile_one_inv [OF Cons.prems(1) e s] by simp
qed simp

lemma pending_note_at:
  assumes "pendingNotes env st = (pend, st1)" "distinct (map fst st)" "e \<in> set pend"
  shows "note_at st1 (note_text e) e"
proof -
  have a: "ve_available env" "st1 = migrateArrays env st"
    using assms(1,3) by (auto simp: pendingNotes_def readAll_def Let_def split: if_splits)
  then obtain k v where "(k, v) \<in> set st1" "stored_note (k, v) = Some e"
    using pending_notes_set [OF a(1), of st] assms(1,3) by auto
  then show ?thesis
    using getItem_distinct [OF migrateArrays_distinct [OF assms(2)]] a(2)
    by (auto simp: note_at_def stored_note_def split: if_splits js.splits)
qed

text \<open>
  C26. Reconciliation never removes a note and only ever confirms: whatever the chain answers, every note
  stored before is stored after, and if its record changed it is now marked confirmed, it had been
  broadcast at least the grace period before it was judged, and a verified tree of its own pool held
  its commitment. Every pending note that was not already confirmed is counted exactly once.
\<close>

theorem reconcile_only_confirms:
  assumes "reconcilePendingNotes env clock parse H rebuild st = (r, st')" "distinct (map fst st)"
    and "getItem st (note_key n) = Some (Returns e)" "isNote e" "note_text e = n"
  shows "(\<exists>e'. getItem st' (note_key n) = Some (Returns e') \<and> isNote e' \<and> note_text e' = n
      \<and> (e' = e \<or> (js_get e' ''status'' = JStr ''confirmed''
          \<and> js_get e ''status'' \<noteq> JStr ''unsent'' \<and> js_get e ''sentAt'' \<noteq> JUndef
          \<and> (\<exists>k. note_on_chain parse H (rebuild k) n = Returns True \<and> \<not> too_recent (clock (2 * k)) (js_get e ''sentAt'')))))
    \<and> rc_confirmed r + rc_notFound r + rc_unresolved r
      = length (filter (\<lambda>x. js_get x ''status'' \<noteq> JStr ''confirmed'') (fst (pendingNotes env st)))"
proof -
  obtain pend st1 where p: "pendingNotes env st = (pend, st1)" by fastforce
  have "st1 = (if ve_available env then migrateArrays env st else st)"
    using p by (auto simp: pendingNotes_def readAll_def Let_def split: if_splits)
  then have e1: "note_at st1 n e" using assms(3-5) migrateArrays_keeps [OF assms(3)] by (simp add: note_at_def)
  have all: "\<forall>x\<in>set pend. note_at st1 (note_text x) x" using pending_note_at [OF p assms(2)] by blast
  let ?v = "\<lambda>k. note_on_chain parse H (rebuild k)"
  have run: "reconcile_loop env clock ?v 0 pend (\<lparr>rc_confirmed = 0, rc_notFound = 0, rc_unresolved = 0\<rparr>, st1) = (r, st')"
    using assms(1) p by (simp add: reconcilePendingNotes_def)
  have "reconciled clock ?v st1 st1" by (simp add: reconciled_def)
  note inv = reconcile_loop_inv [OF all this run]
  show ?thesis
    using inv e1 p unfolding reconciled_def judged_landed_def note_at_def by (auto simp: conj_assoc)
qed

lemma reconcile_only_confirms_witness:
  "\<exists>r st' e'. reconcilePendingNotes open_storage (\<lambda>k. 500000) (\<lambda>s. Throws ''bad'') (\<lambda>xs. 7) (\<lambda>k p. Throws ''down'')
      [(note_key ''sndo_a'', Returns (JObj [(''note'', JStr ''sndo_a''), (''status'', JStr ''sent''), (''sentAt'', JInt 3)]))] = (r, st')
    \<and> getItem st' (note_key ''sndo_a'') = Some (Returns e') \<and> note_text e' = ''sndo_a''
    \<and> rc_confirmed r + rc_notFound r + rc_unresolved r = 1"
proof -
  let ?e = "JObj [(''note'', JStr ''sndo_a''), (''status'', JStr ''sent''), (''sentAt'', JInt 3)]"
  let ?st = "[(note_key ''sndo_a'', Returns ?e)]"
  obtain r st' where r: "reconcilePendingNotes open_storage (\<lambda>k. 500000) (\<lambda>s. Throws ''bad'') (\<lambda>xs. 7) (\<lambda>k p. Throws ''down'') ?st = (r, st')"
    by fastforce
  have e: "getItem ?st (note_key ''sndo_a'') = Some (Returns ?e)" "isNote ?e" "note_text ?e = ''sndo_a''"
    by (simp add: getItem_def) code_simp+
  have "length (filter (\<lambda>x. js_get x ''status'' \<noteq> JStr ''confirmed'') (fst (pendingNotes open_storage ?st))) = 1" by code_simp
  then show ?thesis
    using reconcile_only_confirms [OF r _ e] r by auto
qed

end
