(* ===== verification/AppGates.thy ===== *)
theory AppGates
  imports PoolAccount JsNumberText
begin

text \<open>
  The browser's gates: app/src/utils/clusterGate.ts (which cluster the RPC serves),
  app/src/utils/walletCluster.ts (whether the wallet can fund the deposit there),
  app/src/utils/recipientCheck.ts and app/src/utils/noteDenomination.ts. A call that may fail or time
  out is a parameter. Message texts are not modelled except the amount shown. What is proved: the
  gates fail closed, remembering a cluster is sound and never latches a failure, and the amounts
  shown are exact.
\<close>

subsection \<open>The cluster gate\<close>

definition GENESIS_HASHES :: "(string \<times> string) list" where
  "GENESIS_HASHES =
     [(''mainnet-beta'', ''5eykt4UsFv8P8NJdTREpY1vzqKqZKvdpKuc147dw2N9d''),
      (''devnet'', ''EtWTRABZaYq6iMfeYKouRu166VU2xqa1wcaWoxPkrZBG''),
      (''testnet'', ''4uhcVJyU9pJkvQyS88uRDiswHXSCkY3zQawwpjk2NsNY'')]"

definition ALLOWED_CLUSTER :: "string option \<Rightarrow> string" where
  "ALLOWED_CLUSTER env = (case env of None \<Rightarrow> ''devnet'' | Some c \<Rightarrow> c)"

datatype block_code = WrongCluster | Unverified

datatype cluster_verdict =
    ClusterOk string string
  | ClusterBlocked block_code "string option"

text \<open>A promise settles at a time or never; the timer rejects first unless it settled before.\<close>

definition withTimeout :: "(nat \<times> 'a js) option \<Rightarrow> nat \<Rightarrow> 'a js" where
  "withTimeout p ms =
     (case p of
        Some (t, r) \<Rightarrow> if t < ms then r else Throws ''no response''
      | None \<Rightarrow> Throws ''no response'')"

text \<open>The successful identifications so far, by endpoint.\<close>

type_synonym cluster_cache = "string \<rightharpoonup> string"

definition identify :: "string \<Rightarrow> (nat \<times> string js) option \<Rightarrow> nat \<Rightarrow> cluster_cache \<Rightarrow> string js \<times> cluster_cache" where
  "identify endpoint reply timeoutMs identified =
     (case identified endpoint of
        Some (c # cs) \<Rightarrow> (Returns (c # cs), identified)
      | _ \<Rightarrow>
          (case withTimeout reply timeoutMs of
             Throws e \<Rightarrow> (Throws e, identified)
           | Returns h \<Rightarrow> (Returns h, identified(endpoint \<mapsto> h))))"

definition named_cluster :: "string \<Rightarrow> string option" where
  "named_cluster h = map_option fst (find (\<lambda>e. snd e = h) GENESIS_HASHES)"

definition verifyCluster :: "string \<Rightarrow> nat \<Rightarrow> string \<Rightarrow> (nat \<times> string js) option \<Rightarrow> cluster_cache
    \<Rightarrow> cluster_verdict \<times> cluster_cache" where
  "verifyCluster allowed timeoutMs endpoint reply identified =
     (case map_of GENESIS_HASHES allowed of
        None \<Rightarrow> (ClusterBlocked Unverified None, identified)
      | Some expected \<Rightarrow>
          (case identify endpoint reply timeoutMs identified of
             (Throws e, identified') \<Rightarrow> (ClusterBlocked Unverified None, identified')
           | (Returns genesisHash, identified') \<Rightarrow>
               if genesisHash = expected then (ClusterOk allowed genesisHash, identified')
               else (ClusterBlocked WrongCluster (named_cluster genesisHash), identified')))"

definition assertClusterAllowed :: "string \<Rightarrow> nat \<Rightarrow> string \<Rightarrow> (nat \<times> string js) option \<Rightarrow> cluster_cache
    \<Rightarrow> unit js \<times> cluster_cache" where
  "assertClusterAllowed allowed timeoutMs endpoint reply identified =
     (case verifyCluster allowed timeoutMs endpoint reply identified of
        (ClusterOk c h, identified') \<Rightarrow> (Returns (), identified')
      | (ClusterBlocked code c, identified') \<Rightarrow> (Throws ''ClusterBlockedError'', identified'))"

text \<open>A session: gate calls, each with its endpoint and what the RPC answered.\<close>

definition gate_session :: "string \<Rightarrow> nat \<Rightarrow> (string \<times> (nat \<times> string js) option) list \<Rightarrow> cluster_cache" where
  "gate_session allowed timeoutMs calls =
     foldl (\<lambda>m c. snd (verifyCluster allowed timeoutMs (fst c) (snd c) m)) Map.empty calls"

definition answers_truly :: "(string \<Rightarrow> string) \<Rightarrow> string \<times> (nat \<times> string js) option \<Rightarrow> bool" where
  "answers_truly truth c = (case snd c of Some (t, Returns h) \<Rightarrow> h = truth (fst c) | _ \<Rightarrow> True)"

lemma withTimeout_true: "answers_truly truth (endpoint, reply) \<Longrightarrow> withTimeout reply ms = Returns h \<Longrightarrow> h = truth endpoint"
  by (auto simp: withTimeout_def answers_truly_def split: option.splits prod.splits if_splits)

lemma identify_alt: "identify endpoint reply ms m =
  (if m endpoint \<noteq> None \<and> m endpoint \<noteq> Some [] then (Returns (the (m endpoint)), m)
   else case withTimeout reply ms of Throws e \<Rightarrow> (Throws e, m) | Returns h \<Rightarrow> (Returns h, m(endpoint \<mapsto> h)))"
  by (auto simp: identify_def split: option.split list.split)

lemma identify_true:
  assumes "answers_truly truth (endpoint, reply)" "\<And>h. m endpoint = Some h \<Longrightarrow> h = truth endpoint"
  shows "fst (identify endpoint reply ms m) = Returns h \<Longrightarrow> h = truth endpoint"
    and "snd (identify endpoint reply ms m) \<in> {m, m(endpoint \<mapsto> truth endpoint)}"
proof -
  note w = withTimeout_true [OF assms(1), of ms]
  show "fst (identify endpoint reply ms m) = Returns h \<Longrightarrow> h = truth endpoint"
    using assms(2) w by (cases "withTimeout reply ms") (auto simp: identify_alt split: if_splits)
  show "snd (identify endpoint reply ms m) \<in> {m, m(endpoint \<mapsto> truth endpoint)}"
    using w by (cases "withTimeout reply ms") (simp_all add: identify_alt)
qed

lemma verifyCluster_cache:
  assumes "answers_truly truth (endpoint, reply)" "\<forall>e h. m e = Some h \<longrightarrow> h = truth e"
  shows "snd (verifyCluster allowed ms endpoint reply m) e = Some h \<Longrightarrow> h = truth e"
proof -
  have id: "snd (identify endpoint reply ms m) \<in> {m, m(endpoint \<mapsto> truth endpoint)}"
    by (rule identify_true(2) [OF assms(1)]) (use assms(2) in blast)
  have "snd (verifyCluster allowed ms endpoint reply m) \<in> {m, snd (identify endpoint reply ms m)}"
    by (simp add: verifyCluster_def split: option.split prod.split js.split)
  then show "snd (verifyCluster allowed ms endpoint reply m) e = Some h \<Longrightarrow> h = truth e"
    using id assms(2) by (auto split: if_splits)
qed

lemma gate_session_sound:
  "\<forall>c\<in>set calls. answers_truly truth c \<Longrightarrow> \<forall>e h. gate_session allowed ms calls e = Some h \<longrightarrow> h = truth e"
proof (induction calls rule: rev_induct)
  case (snoc c calls)
  have "answers_truly truth (fst c, snd c)" "\<forall>e h. gate_session allowed ms calls e = Some h \<longrightarrow> h = truth e"
    using snoc by simp_all
  note verifyCluster_cache [OF this]
  then show ?case unfolding gate_session_def by (simp only: foldl_append foldl.simps) blast
qed (simp add: gate_session_def)

text \<open>
  C35. The cluster gate fails closed and its memory is sound: after any session of calls in which an
  endpoint that answered gave its own genesis hash, whatever timed out or failed before, the gate
  lets an action through only if the allowed cluster is a known one and the endpoint's true genesis
  hash is that cluster's; and it does let it through as soon as the endpoint answers in time, so no
  earlier failure keeps the app blocked.
\<close>

theorem cluster_gate_fails_closed:
  assumes "\<forall>c\<in>set calls. answers_truly truth c" "answers_truly truth (endpoint, reply)" "truth endpoint \<noteq> []"
  shows "(fst (assertClusterAllowed allowed ms endpoint reply (gate_session allowed ms calls)) = Returns ()
      \<longrightarrow> map_of GENESIS_HASHES allowed = Some (truth endpoint))
    \<and> (map_of GENESIS_HASHES allowed = Some (truth endpoint) \<and> reply = Some (t, Returns (truth endpoint)) \<and> t < ms
      \<longrightarrow> fst (assertClusterAllowed allowed ms endpoint reply (gate_session allowed ms calls)) = Returns ())"
proof -
  let ?m = "gate_session allowed ms calls"
  have m: "?m endpoint = Some h \<Longrightarrow> h = truth endpoint" for h using gate_session_sound [OF assms(1)] by blast
  have id: "fst (identify endpoint reply ms ?m) = Returns h \<Longrightarrow> h = truth endpoint" for h
    using identify_true(1) [OF assms(2)] m by metis
  have ok: "fst (identify endpoint (Some (t, Returns (truth endpoint))) ms ?m) = Returns (truth endpoint)" if "t < ms"
    using m [of "the (?m endpoint)"] that assms(3)
    by (cases "?m endpoint") (auto simp: identify_alt withTimeout_def)
  show ?thesis
  proof (intro conjI impI)
    assume a: "fst (assertClusterAllowed allowed ms endpoint reply ?m) = Returns ()"
    then show "map_of GENESIS_HASHES allowed = Some (truth endpoint)"
      using id by (cases "identify endpoint reply ms ?m")
        (auto simp: assertClusterAllowed_def verifyCluster_def split: option.splits js.splits if_splits)
  next
    assume a: "map_of GENESIS_HASHES allowed = Some (truth endpoint) \<and> reply = Some (t, Returns (truth endpoint)) \<and> t < ms"
    then show "fst (assertClusterAllowed allowed ms endpoint reply ?m) = Returns ()"
      using ok by (cases "identify endpoint reply ms ?m") (auto simp: assertClusterAllowed_def verifyCluster_def)
  qed
qed

definition devnet_hash :: string where "devnet_hash = ''EtWTRABZaYq6iMfeYKouRu166VU2xqa1wcaWoxPkrZBG''"

lemma cluster_gate_fails_closed_witness:
  "fst (assertClusterAllowed (ALLOWED_CLUSTER None) 10 ''rpc'' (Some (3, Returns devnet_hash))
     (gate_session (ALLOWED_CLUSTER None) 10 [(''rpc'', None)])) = Returns ()"
  using cluster_gate_fails_closed [of "[(''rpc'', None)]" "\<lambda>e. devnet_hash" "''rpc''" "Some (3, Returns devnet_hash)" "ALLOWED_CLUSTER None" 10 3]
  by (simp add: answers_truly_def ALLOWED_CLUSTER_def GENESIS_HASHES_def devnet_hash_def)

subsection \<open>The wallet gate\<close>

definition DEPOSIT_FEE_HEADROOM_LAMPORTS :: int where "DEPOSIT_FEE_HEADROOM_LAMPORTS = 10000"

datatype wallet_code = Insufficient | Unreadable

datatype wallet_verdict =
    WalletOk int
  | WalletBlocked wallet_code "int option" int

text \<open>\<open>BigInt(await getBalance(owner))\<close>: the balance as the RPC reports it, a JSON value.\<close>

definition checkWalletCanDeposit :: "json js \<Rightarrow> int \<Rightarrow> wallet_verdict" where
  "checkWalletCanDeposit balance denominationLamports =
     (let required = denominationLamports + DEPOSIT_FEE_HEADROOM_LAMPORTS in
      case js_bind balance json_bigint of
        Throws e \<Rightarrow> WalletBlocked Unreadable None required
      | Returns b \<Rightarrow> if required \<le> b then WalletOk b else WalletBlocked Insufficient (Some b) required)"

definition assertWalletCanDeposit :: "json js \<Rightarrow> int \<Rightarrow> unit js" where
  "assertWalletCanDeposit balance denominationLamports =
     (case checkWalletCanDeposit balance denominationLamports of
        WalletOk b \<Rightarrow> Returns ()
      | WalletBlocked c b r \<Rightarrow> Throws ''WalletNotOnClusterError'')"

text \<open>\<open>x.toFixed(9)\<close> of a number below 10 to the 21: the nearest multiple of 10 to the -9, ties upward.\<close>

definition toFixed9 :: "rat \<Rightarrow> string" where
  "toFixed9 x =
     (let n = nat \<lfloor>\<bar>x\<bar> * 10 ^ 9 + 1/2\<rfloor>; s = padStart 10 (CHR ''0'') (to_digits 10 n); k = length s - 9 in
      (if x < 0 then ''-'' else []) @ take k s @ ''.'' @ drop k s)"

definition strip_zeros :: "string \<Rightarrow> string" where
  "strip_zeros s = rev (dropWhile (\<lambda>c. c = CHR ''0'') (rev s))"

definition strip_point :: "string \<Rightarrow> string" where
  "strip_point s = (if s \<noteq> [] \<and> last s = CHR ''.'' then butlast s else s)"

definition formatSol :: "int \<Rightarrow> string" where
  "formatSol lamports =
     (let s = strip_point (strip_zeros (toFixed9 (fl (of_int (rnd lamports) / 10 ^ 9)))) in if s = [] then ''0'' else s)"

lemma strip_zeros_append: "\<exists>k. s = strip_zeros s @ replicate k (CHR ''0'')"
proof -
  have "s = rev (dropWhile (\<lambda>c. c = CHR ''0'') (rev s)) @ rev (takeWhile (\<lambda>c. c = CHR ''0'') (rev s))"
    by (metis rev_append rev_rev_ident takeWhile_dropWhile_id)
  moreover have "takeWhile (\<lambda>c. c = CHR ''0'') (rev s) = replicate (length (takeWhile (\<lambda>c. c = CHR ''0'') (rev s))) (CHR ''0'')"
    by (rule replicate_eqI [symmetric, THEN sym]) (auto dest: set_takeWhileD)
  ultimately show ?thesis unfolding strip_zeros_def by (metis rev_replicate)
qed

lemma toFixed9_near:
  assumes "0 \<le> l" "l < 2 ^ 52" "x = fl (of_int l / 10 ^ 9)"
  shows "\<lfloor>\<bar>x\<bar> * 10 ^ 9 + 1/2\<rfloor> = l" "0 \<le> x"
proof -
  show x: "0 \<le> x" unfolding assms(3) by (rule fl_nonneg) (use assms(1) in simp)
  have "\<bar>x - of_int l / 10 ^ 9\<bar> \<le> (of_int l / 10 ^ 9) / 2 ^ 53"
  proof (cases "l = 0")
    case False
    then have "0 < (of_int l / 10 ^ 9 :: rat)" using assms(1) by simp
    then show ?thesis unfolding assms(3) by (rule fl_rel_error)
  qed (simp add: assms(3))
  then have "\<bar>x * 10 ^ 9 - of_int l\<bar> \<le> of_int l / 2 ^ 53" by (simp add: abs_le_iff field_simps)
  moreover have "(of_int l :: rat) < 2 ^ 52" using assms(2) by (metis of_int_less_iff of_int_numeral of_int_power)
  then have "of_int l / 2 ^ 53 < (1/2 :: rat)" by simp
  ultimately have "of_int l - 1/2 < x * 10 ^ 9" "x * 10 ^ 9 < of_int l + 1/2" by linarith+
  then show "\<lfloor>\<bar>x\<bar> * 10 ^ 9 + 1/2\<rfloor> = l" using x by (intro floor_unique) (simp_all add: abs_of_nonneg)
qed

lemma strip_zeros_after: "c \<noteq> CHR ''0'' \<Longrightarrow> strip_zeros (a @ c # b) = a @ c # strip_zeros b"
  by (simp add: strip_zeros_def dropWhile_append)

lemma decimal_literal_int:
  assumes "all_digits 10 s" "s \<noteq> []"
  shows "decimal_literal s = Some (of_nat (digits_val 10 s))"
proof -
  have "span_digits s = (s, [])"
    using takeWhile_all [of s "digit_in 10" "[]"] assms(1) by (auto simp: span_digits_def all_digits_def list_all_iff)
  then show ?thesis using assms(2) by (simp add: decimal_literal_def exponent_part_def)
qed

lemma all_digits_append: "all_digits b (s @ t) \<longleftrightarrow> all_digits b s \<and> all_digits b t"
  by (simp add: all_digits_def)

text \<open>
  The wallet gate lets a deposit through exactly when the balance can be read and covers the
  denomination and the fee headroom; and the amounts it shows are exact: below 2 to the 52 lamports
  the text denotes precisely the lamports over 10 to the 9, although it is computed in floating point.
\<close>

theorem wallet_gate_exact:
  "(assertWalletCanDeposit balance d = Returns ()
      \<longleftrightarrow> (\<exists>j b. balance = Returns j \<and> json_bigint j = Returns b \<and> d + 10000 \<le> b))
   \<and> (0 \<le> l \<and> l < 2 ^ 52 \<longrightarrow> decimal_literal (formatSol l) = Some (of_int l / 10 ^ 9))"
proof (intro conjI impI)
  show "assertWalletCanDeposit balance d = Returns ()
      \<longleftrightarrow> (\<exists>j b. balance = Returns j \<and> json_bigint j = Returns b \<and> d + 10000 \<le> b)"
    by (cases balance; cases "json_bigint (returned balance)")
      (auto simp: assertWalletCanDeposit_def checkWalletCanDeposit_def Let_def DEPOSIT_FEE_HEADROOM_LAMPORTS_def)
next
  assume l: "0 \<le> l \<and> l < 2 ^ 52"
  define n where "n = nat l"
  define s where "s = padStart 10 (CHR ''0'') (to_digits 10 n)"
  have r: "rnd l = l" using l by (intro rnd_exact) simp
  have z: "digit_in 10 (CHR ''0'')" "\<not> digit_in 10 (CHR ''.'')" by code_simp+
  have s: "all_digits 10 s" "digits_val 10 s = n" "10 \<le> length s"
    using to_digits_val [of 10 n] z by (auto simp: s_def padStart_def all_digits_def list_all_iff digits_val_zeros)
  define ip where "ip = take (length s - 9) s"
  define fp where "fp = drop (length s - 9) s"
  have parts: "s = ip @ fp" "length fp = 9" "ip \<noteq> []" "all_digits 10 ip" "all_digits 10 fp"
    using s(1,3) all_digits_append [of 10 "take (length s - 9) s" "drop (length s - 9) s"]
    unfolding ip_def fp_def by auto
  have t: "toFixed9 (fl (of_int (rnd l) / 10 ^ 9)) = ip @ ''.'' @ fp"
    using toFixed9_near [of l] l by (simp add: toFixed9_def Let_def r s_def [symmetric] n_def [symmetric] ip_def fp_def)
  obtain j where j: "fp = strip_zeros fp @ replicate j (CHR ''0'')" using strip_zeros_append by blast
  define f where "f = strip_zeros fp"
  have f: "all_digits 10 f" "length f + j = 9"
    using j parts(2,5) by (metis f_def all_digits_append, metis f_def length_append length_replicate)
  have "digits_val 10 (ip @ f) * 10 ^ j = n"
    using s(2) parts(1) j digits_val_append [of 10 "ip @ f" "replicate j (CHR ''0'')"] digits_val_zeros [of 10 j "[]"]
    by (simp add: f_def)
  then have n: "(of_nat n :: rat) = of_nat (digits_val 10 (ip @ f)) * 10 ^ j" by (metis of_nat_mult of_nat_numeral of_nat_power)
  have p: "(10 :: rat) ^ 9 = 10 ^ length f * 10 ^ j" by (simp only: f(2) flip: power_add)
  have "(of_nat n :: rat) / 10 ^ 9 = of_nat (digits_val 10 (ip @ f)) / 10 ^ length f"
    unfolding n p by (rule nonzero_mult_divide_mult_cancel_right) simp
  then have val: "of_nat (digits_val 10 (ip @ f)) / 10 ^ length f = (of_int l / 10 ^ 9 :: rat)"
    using l by (simp add: n_def)
  have sz: "strip_zeros (ip @ ''.'' @ fp) = ip @ CHR ''.'' # f" using strip_zeros_after [of "CHR ''.''" ip fp] by (simp add: f_def)
  show "decimal_literal (formatSol l) = Some (of_int l / 10 ^ 9)"
  proof (cases "f = []")
    case True
    then have "formatSol l = ip" using t sz parts(3) by (simp add: formatSol_def strip_point_def Let_def)
    then show ?thesis using decimal_literal_int [OF parts(4,3)] val True by simp
  next
    case False
    then have "last f \<noteq> CHR ''.''" using f(1) z(2) by (metis all_digits_def last_in_set list_all_iff)
    then have "formatSol l = ip @ ''.'' @ f" using t sz False by (simp add: formatSol_def strip_point_def Let_def)
    then show ?thesis using decimal_literal_point [OF parts(4) f(1) parts(3)] val by simp
  qed
qed

lemma wallet_gate_exact_witness: "decimal_literal (formatSol 100010000) = Some (100010000 / 10 ^ 9)"
  using wallet_gate_exact [of "Throws []" 0 100010000] by simp

subsection \<open>The recipient and the denomination\<close>

definition CONFIRM_CHARS :: nat where "CONFIRM_CHARS = 8"

definition recipientConfirmed :: "string \<Rightarrow> string \<Rightarrow> bool" where
  "recipientConfirmed address typed =
     (let tail = drop (length address - CONFIRM_CHARS) address in length tail = CONFIRM_CHARS \<and> trim typed = tail)"

definition is_newline :: "char \<Rightarrow> bool" where
  "is_newline c \<longleftrightarrow> c = CHR 0x0A \<or> c = CHR 0x0D"

text \<open>\<open>address.match(/.{1,4}/g)\<close>: a dot does not match a line terminator.\<close>

function groups_of_four :: "string \<Rightarrow> string list" where
  "groups_of_four [] = []"
| "groups_of_four (c # s) =
     (if is_newline c then groups_of_four s
      else let g = take 4 (takeWhile (\<lambda>x. \<not> is_newline x) (c # s)) in g # groups_of_four (drop (length g) (c # s)))"
  by pat_completeness auto
termination by (relation "measure length") (auto simp: Let_def)

definition groupAddress :: "string \<Rightarrow> string" where
  "groupAddress address =
     (case groups_of_four address of [] \<Rightarrow> address | g # gs \<Rightarrow> g @ concat (map (\<lambda>x. CHR '' '' # x) gs))"

text \<open>\<open>(Number(lamports) / 1e9).toString()\<close>; printing a Number is a parameter.\<close>

definition denominationMismatch :: "(rat \<Rightarrow> string) \<Rightarrow> int \<Rightarrow> int \<Rightarrow> string option" where
  "denominationMismatch print noteLamports poolLamports =
     (let sol = (\<lambda>lamports. print (fl (of_int (rnd lamports) / 10 ^ 9))) in
      if noteLamports = poolLamports then None
      else Some (''This note says '' @ sol noteLamports @ '' SOL, but its pool pays '' @ sol poolLamports @ '' SOL per ''
        @ ''withdrawal, so that is the most you can receive. A note is only worth what its pool pays. ''
        @ ''One that claims more was not made by a deposit of that amount, or has been altered: do not ''
        @ ''buy it or accept it as payment for its stated amount.''))"

lemma groups_of_four_concat: "list_all (\<lambda>c. \<not> is_newline c) s \<Longrightarrow> concat (groups_of_four s) = s"
proof (induction s rule: groups_of_four.induct)
  case (2 c s)
  have tw: "takeWhile (\<lambda>x. \<not> is_newline x) (c # s) = c # s"
    using 2(3) by (subst takeWhile_eq_all_conv) (simp add: list_all_iff)
  have n: "\<not> is_newline c" using 2(3) by simp
  have rest: "list_all (\<lambda>c. \<not> is_newline c) (drop (length (take 4 (c # s))) (c # s))"
    using 2(3) unfolding list_all_iff by (meson in_set_dropD)
  have "concat (groups_of_four (drop (length (take 4 (c # s))) (c # s))) = drop (length (take 4 (c # s))) (c # s)"
    using 2(2) [OF n refl] rest unfolding tw by simp
  then show ?case using n tw by (simp only: groups_of_four.simps if_False Let_def concat.simps) (metis append_take_drop_id length_take append_eq_conv_conj)
qed simp

text \<open>
  The recipient check accepts exactly the last eight characters of the whole address, so what
  confirms one address confirms another only if they share that tail; and the grouped display
  shows every character of the address in order, adding only spaces.
\<close>

theorem recipient_check_exact:
  "(recipientConfirmed address typed \<longleftrightarrow> length (trim typed) = 8 \<and> (\<exists>p. address = p @ trim typed))
   \<and> (list_all (\<lambda>c. \<not> is_newline c \<and> c \<noteq> CHR '' '') address
      \<longrightarrow> filter (\<lambda>c. c \<noteq> CHR '' '') (groupAddress address) = address)"
proof (intro conjI impI)
  show "recipientConfirmed address typed \<longleftrightarrow> length (trim typed) = 8 \<and> (\<exists>p. address = p @ trim typed)"
    unfolding recipientConfirmed_def CONFIRM_CHARS_def Let_def
    by (metis (no_types, lifting) append_take_drop_id append_eq_conv_conj diff_add_inverse2 length_append)
next
  assume a: "list_all (\<lambda>c. \<not> is_newline c \<and> c \<noteq> CHR '' '') address"
  then have g: "concat (groups_of_four address) = address"
    by (intro groups_of_four_concat) (simp add: list_all_iff)
  have f: "filter (\<lambda>c. c \<noteq> CHR '' '') address = address" using a by (intro filter_True) (simp add: list_all_iff)
  have "filter (\<lambda>c. c \<noteq> CHR '' '') (concat (map (\<lambda>x. CHR '' '' # x) gs)) = filter (\<lambda>c. c \<noteq> CHR '' '') (concat gs)" for gs
    by (induction gs) simp_all
  then have "filter (\<lambda>c. c \<noteq> CHR '' '') (groupAddress address) = filter (\<lambda>c. c \<noteq> CHR '' '') (concat (groups_of_four address))"
  proof (cases "groups_of_four address")
    case Nil
    then show ?thesis using g by (simp add: groupAddress_def)
  next
    case (Cons x xs)
    assume h: "\<And>gs. filter (\<lambda>c. c \<noteq> CHR '' '') (concat (map ((#) CHR '' '') gs)) = filter (\<lambda>c. c \<noteq> CHR '' '') (concat gs)"
    then show ?thesis unfolding groupAddress_def Cons list.case filter_append concat.simps h ..
  qed
  then show "filter (\<lambda>c. c \<noteq> CHR '' '') (groupAddress address) = address" using g f by simp
qed

lemma recipient_check_exact_witness:
  "recipientConfirmed ''abcdefghijkl'' '' efghijkl'' \<and> filter (\<lambda>c. c \<noteq> CHR '' '') (groupAddress ''abcdefghij'') = ''abcdefghij''"
proof -
  have "trim '' efghijkl'' = ''efghijkl''" by code_simp
  then show ?thesis
    using recipient_check_exact [of "''abcdefghijkl''" "'' efghijkl''"] recipient_check_exact [of "''abcdefghij''" "[]"]
    by (simp add: is_newline_def)
qed

end
