(* ===== verification/DepositFlow.thy ===== *)
theory DepositFlow
  imports NoteVault AppGates
begin

text \<open>
  Making a deposit, app/src/pages/Deposit.tsx: what an error of the wallet proves
  (\<open>isWalletRejection\<close>, \<open>provesNotBroadcast\<close>, \<open>simulationLogs\<close>), when the user may go on, and the
  whole of \<open>handleDeposit\<close> over the note vault. The awaited calls are parameters, each with its
  outcome, and other tabs may change the storage while the wallet and the confirmation are awaited.
  What is proved: nothing is sent before the note is stored, and the stored note is given up only
  when the wallet itself refused. Rendering is not modelled.
\<close>

subsection \<open>What an error proves\<close>

text \<open>
  A thrown value: not an object, or an object with its name, code, message, log array, wrapped error
  and the class it is an instance of.
\<close>

datatype err_class = SendTransactionErr | JsonRpcErr | ClusterBlockedErr | WalletNotOnClusterErr | OtherErr | NotAnError

datatype thrown_value =
    NotObject
  | ErrorObject (te_class: err_class) (te_name: json) (te_code: json) (te_message: string)
      (te_logs: "string list option") (te_cause: thrown_value)

definition isWalletOriginRejection :: "thrown_value \<Rightarrow> bool" where
  "isWalletOriginRejection err =
     (case err of
        NotObject \<Rightarrow> False
      | ErrorObject cls name code msg logs cause \<Rightarrow>
          if cls = SendTransactionErr \<or> cls = JsonRpcErr then False
          else if name = JStr ''SendTransactionError'' \<or> name = JStr ''SolanaJSONRPCError'' then False
          else code = JInt 4001)"

definition isWalletRejection :: "thrown_value \<Rightarrow> bool" where
  "isWalletRejection err =
     (case err of
        NotObject \<Rightarrow> False
      | ErrorObject cls name code msg logs cause \<Rightarrow>
          if name = JStr ''WalletSignTransactionError'' then True
          else if name = JStr ''WalletSendTransactionError'' then isWalletOriginRejection cause
          else isWalletOriginRejection err)"

text \<open>The error a wallet adapter wrapped, or the error itself.\<close>

definition unwrapped :: "thrown_value \<Rightarrow> thrown_value" where
  "unwrapped err =
     (case err of
        NotObject \<Rightarrow> NotObject
      | ErrorObject cls name code msg logs cause \<Rightarrow> if name = JStr ''WalletSendTransactionError'' then cause else err)"

definition provesNotBroadcast :: "thrown_value \<Rightarrow> bool" where
  "provesNotBroadcast err =
     (case unwrapped err of
        NotObject \<Rightarrow> False
      | ErrorObject cls name code msg logs cause \<Rightarrow> cls = SendTransactionErr \<and> starts_with msg ''Simulation failed'')"

definition simulationLogs :: "thrown_value \<Rightarrow> string list" where
  "simulationLogs err =
     (case unwrapped err of
        NotObject \<Rightarrow> []
      | ErrorObject cls name code msg logs cause \<Rightarrow>
          if cls = SendTransactionErr then (case logs of None \<Rightarrow> [] | Some ls \<Rightarrow> ls) else [])"

record continue_state =
  cs_poolAddress :: "string option"
  cs_poolLoading :: bool
  cs_poolError :: "string option"
  cs_poolInfo :: "(bool \<times> bool) option"
  cs_clusterAllowed :: bool
  cs_walletBlock :: "string option"

text \<open>The pool info is its paused and saturated flags.\<close>

definition depositCanContinue :: "continue_state \<Rightarrow> bool" where
  "depositCanContinue s \<longleftrightarrow>
     (case cs_poolAddress s of None \<Rightarrow> False | Some a \<Rightarrow> a \<noteq> [])
     \<and> \<not> cs_poolLoading s \<and> cs_poolError s = None
     \<and> (case cs_poolInfo s of None \<Rightarrow> False | Some (paused, saturated) \<Rightarrow> \<not> paused \<and> \<not> saturated)
     \<and> cs_clusterAllowed s \<and> cs_walletBlock s = None"

subsection \<open>The handler\<close>

datatype deposit_step = StepSelect | StepConfirm | StepProcessing | StepNote | StepNext

record deposit_ui =
  du_step :: deposit_step
  du_secretNote :: string
  du_error :: "string option"
  du_txSig :: "string option"
  du_confirmUnknown :: bool
  du_depositedThisSession :: bool

type_synonym 'a attempt = "(thrown_value, 'a) sum"

text \<open>
  The outcomes of the calls in their order: the two gates, Poseidon, the pool's key, the generated note
  (its text), the transaction, sending it and confirming it; what other tabs do to the storage while
  the last two are awaited; and the clock.
\<close>

record deposit_world =
  dw_cluster :: "unit attempt"
  dw_wallet :: "unit attempt"
  dw_poseidon :: "unit attempt"
  dw_poolKey :: "unit attempt"
  dw_note :: "string attempt"
  dw_build :: "unit attempt"
  dw_send :: "string attempt"
  dw_confirm :: "unit attempt"
  dw_while_sending :: "store \<Rightarrow> store"
  dw_while_confirming :: "store \<Rightarrow> store"
  dw_now :: int
  dw_session :: string

record pool_config =
  pc_address :: string
  pc_denominationSol :: json

fun after :: "'a attempt \<Rightarrow> ('a \<Rightarrow> 'b attempt) \<Rightarrow> 'b attempt" where
  "after (Inl e) f = Inl e"
| "after (Inr x) f = f x"

text \<open>Everything up to the built transaction; the note's text when all of it succeeded.\<close>

definition prepare_deposit :: "deposit_world \<Rightarrow> string attempt" where
  "prepare_deposit W =
     after (dw_cluster W) (\<lambda>u. after (dw_wallet W) (\<lambda>u. after (dw_poseidon W) (\<lambda>u. after (dw_poolKey W) (\<lambda>u.
     after (dw_note W) (\<lambda>note. after (dw_build W) (\<lambda>u. Inr note))))))"

definition saved_note_warning :: string where
  "saved_note_warning = ''Your secret note has been saved in this browser in case the deposit went through.''"

definition deposit_message :: "thrown_value \<Rightarrow> string" where
  "deposit_message err =
     (case err of
        NotObject \<Rightarrow> ''Transaction failed''
      | ErrorObject cls name code msg logs cause \<Rightarrow> if cls = NotAnError then ''Transaction failed'' else msg)"

definition join_space :: "string list \<Rightarrow> string" where
  "join_space xs = (case xs of [] \<Rightarrow> [] | w # ws \<Rightarrow> w @ concat (map (\<lambda>v. CHR '' '' # v) ws))"

text \<open>The text of the catch block.\<close>

definition deposit_error :: "thrown_value \<Rightarrow> string" where
  "deposit_error err =
     (let msg = deposit_message err; reason = msg @ '' '' @ join_space (simulationLogs err);
          cls = (case err of NotObject \<Rightarrow> OtherErr | ErrorObject c n d m l e \<Rightarrow> c) in
      if cls = ClusterBlockedErr \<or> cls = WalletNotOnClusterErr then msg
      else if isWalletRejection err then ''Transaction cancelled.''
      else if str_includes reason ''insufficient'' \<or> str_includes reason ''not enough'' then ''Not enough SOL in your wallet.''
      else if str_includes reason ''PoolPaused'' then ''This pool is currently paused by the admin.''
      else if str_includes reason ''PoolSaturated'' \<or> str_includes reason ''TreeFull''
      then ''This pool is full. Try a different denomination.''
      else if provesNotBroadcast err then ''The deposit was rejected before it was sent, so nothing left your wallet. '' @ msg
      else msg @ '' '' @ saved_note_warning)"

definition deposit_entry :: "pool_config \<Rightarrow> string \<Rightarrow> json" where
  "deposit_entry pool note =
     JObj [(''note'', JStr note), (''poolAddress'', JStr (pc_address pool)), (''denominationSol'', pc_denominationSol pool)]"

definition fail_deposit :: "thrown_value \<Rightarrow> deposit_ui \<Rightarrow> deposit_ui" where
  "fail_deposit err ui = ui\<lparr>du_error := Some (deposit_error err), du_step := StepConfirm\<rparr>"

text \<open>From the call of \<open>sendTransaction\<close> on; the storage at that call is the result's last part.\<close>

definition send_deposit :: "vault_env \<Rightarrow> deposit_world \<Rightarrow> string \<Rightarrow> deposit_ui \<Rightarrow> store \<Rightarrow> deposit_ui \<times> store" where
  "send_deposit env W note ui st =
     (let st' = dw_while_sending W st in
      case dw_send W of
        Inl err \<Rightarrow>
          if isWalletRejection err then (fail_deposit err (ui\<lparr>du_secretNote := []\<rparr>), clearNote env note st')
          else if provesNotBroadcast err then (fail_deposit err (ui\<lparr>du_secretNote := []\<rparr>), st')
          else (ui\<lparr>du_confirmUnknown := True, du_depositedThisSession := True, du_step := StepNote\<rparr>,
                markNoteStatus env (dw_now W) note ''sent'' None st')
      | Inr sig \<Rightarrow>
          (let sent = markNoteStatus env (dw_now W) note ''sent'' (Some sig) st';
               ui' = ui\<lparr>du_txSig := Some sig, du_depositedThisSession := True\<rparr>;
               st'' = dw_while_confirming W sent in
           case dw_confirm W of
             Inl err \<Rightarrow> (ui'\<lparr>du_confirmUnknown := True, du_step := StepNote\<rparr>, st'')
           | Inr u \<Rightarrow> (ui'\<lparr>du_step := StepNote\<rparr>, markNoteStatus env (dw_now W) note ''confirmed'' (Some sig) st'')))"

text \<open>
  The handler: the page and the storage afterwards, and the note and the storage at the moment
  \<open>sendTransaction\<close> was called, if it was.
\<close>

definition handleDeposit :: "vault_env \<Rightarrow> deposit_world \<Rightarrow> pool_config option \<Rightarrow> bool \<Rightarrow> deposit_ui \<Rightarrow> store
    \<Rightarrow> deposit_ui \<times> store \<times> (string \<times> store) option" where
  "handleDeposit env W pool ready ui st =
     (case pool of
        None \<Rightarrow> (ui, st, None)
      | Some p \<Rightarrow>
          if pc_address p = [] \<or> \<not> ready then (ui, st, None)
          else let start = ui\<lparr>du_step := StepProcessing, du_error := None, du_confirmUnknown := False\<rparr> in
            (case prepare_deposit W of
               Inl err \<Rightarrow> (fail_deposit err start, st, None)
             | Inr note \<Rightarrow>
                 (case stageNote env (dw_now W) (dw_session W) (deposit_entry p note) st of
                    (False, st1) \<Rightarrow>
                      (start\<lparr>du_error := Some ''Cannot save your secret note'', du_step := StepConfirm\<rparr>, st1, None)
                  | (True, st1) \<Rightarrow>
                      (case send_deposit env W note (start\<lparr>du_secretNote := note\<rparr>) st1 of
                         (ui', st2) \<Rightarrow> (ui', st2, Some (note, st1))))))"

subsection \<open>Nothing is lost\<close>

text \<open>
  An RPC cannot make the app throw a note away: an error raised by web3.js, bare under its own name
  or wrapped by a wallet adapter as a send failure, is never taken for the wallet's refusal, whatever
  its code and its message say; only a failed signature or the wallet's own code 4001 is.
\<close>

theorem rpc_errors_are_not_rejections:
  "(cls \<in> {SendTransactionErr, JsonRpcErr} \<or> name \<in> {JStr ''SendTransactionError'', JStr ''SolanaJSONRPCError''} \<longrightarrow>
      \<not> isWalletRejection (ErrorObject w (JStr ''WalletSendTransactionError'') wc wm wl (ErrorObject cls name code msg logs cause))
      \<and> (name \<noteq> JStr ''WalletSignTransactionError'' \<and> name \<noteq> JStr ''WalletSendTransactionError'' \<longrightarrow>
          \<not> isWalletRejection (ErrorObject cls name code msg logs cause)))
   \<and> (isWalletRejection err \<longrightarrow> (\<exists>c n d m l e. err = ErrorObject c n d m l e \<and>
        (n = JStr ''WalletSignTransactionError'' \<or> d = JInt 4001
         \<or> (n = JStr ''WalletSendTransactionError'' \<and> (\<exists>c' n' m' l' e'. e = ErrorObject c' n' (JInt 4001) m' l' e')))))"
proof (intro conjI impI)
  assume r: "isWalletRejection err"
  then show "\<exists>c n d m l e. err = ErrorObject c n d m l e \<and>
        (n = JStr ''WalletSignTransactionError'' \<or> d = JInt 4001
         \<or> (n = JStr ''WalletSendTransactionError'' \<and> (\<exists>c' n' m' l' e'. e = ErrorObject c' n' (JInt 4001) m' l' e')))"
    by (auto simp: isWalletRejection_def isWalletOriginRejection_def split: thrown_value.splits if_splits)
qed (auto simp: isWalletRejection_def isWalletOriginRejection_def)

lemma rpc_errors_are_not_rejections_witness:
  "\<not> isWalletRejection (ErrorObject OtherErr (JStr ''WalletSendTransactionError'') JUndef ''User rejected the request'' None
      (ErrorObject SendTransactionErr (JStr ''SendTransactionError'') (JInt 4001) ''User rejected the request'' None NotObject))"
  using rpc_errors_are_not_rejections by blast

lemma deposit_entry_note: "starts_with note ''sndo_'' \<Longrightarrow> isNote (deposit_entry p note) \<and> note_text (deposit_entry p note) = note"
  by (simp add: isNote_def note_text_def deposit_entry_def js_get_def)

lemma mark_keeps_note: "holds_note st note \<Longrightarrow> holds_note (markNoteStatus env now note status sig st) note"
proof -
  assume "holds_note st note"
  then obtain c where c: "note_at st note c" by (auto simp: holds_note_def note_at_def)
  show ?thesis using mark_effect(2) [OF c, of env now status sig] by (auto simp: holds_note_def note_at_def)
qed

lemma send_deposit_keeps:
  assumes h: "holds_note st note" and "\<And>s n. holds_note s n \<Longrightarrow> holds_note (dw_while_sending W s) n"
    and "\<And>s n. holds_note s n \<Longrightarrow> holds_note (dw_while_confirming W s) n"
  shows "holds_note (snd (send_deposit env W note ui st)) note \<or> (\<exists>err. dw_send W = Inl err \<and> isWalletRejection err)"
proof -
  have s: "holds_note (dw_while_sending W st) note" by (rule assms(2) [OF h])
  show ?thesis
  proof (cases "dw_send W")
    case (Inl err)
    then show ?thesis using s mark_keeps_note [OF s] by (simp add: send_deposit_def Let_def)
  next
    case (Inr sig)
    note m = mark_keeps_note [OF s, of env "dw_now W" "''sent''" "Some sig"]
    note c = assms(3) [OF m]
    show ?thesis using c mark_keeps_note [OF c] Inr by (cases "dw_confirm W") (simp_all add: send_deposit_def Let_def)
  qed
qed

text \<open>
  C10. A deposit never costs the note: if the handler called \<open>sendTransaction\<close>, the gates and the build
  had succeeded and the note was stored at that moment; and as long as other tabs do not remove it,
  it is still stored afterwards in every outcome, a failed, unknown or timed-out send or confirmation
  included, except when the wallet itself refused. If nothing was sent, the storage holds every note
  it held before.
\<close>

theorem deposit_never_loses_note:
  assumes "handleDeposit env W pool ready ui st = (ui', st', sent)"
    and "\<And>n. dw_note W = Inr n \<Longrightarrow> starts_with n ''sndo_''"
    and "\<And>s n. holds_note s n \<Longrightarrow> holds_note (dw_while_sending W s) n"
    and "\<And>s n. holds_note s n \<Longrightarrow> holds_note (dw_while_confirming W s) n"
  shows "case sent of
      Some (note, at_send) \<Rightarrow>
        dw_cluster W = Inr () \<and> dw_wallet W = Inr () \<and> dw_note W = Inr note \<and> holds_note at_send note
        \<and> (holds_note st' note \<or> (\<exists>err. dw_send W = Inl err \<and> isWalletRejection err))
    | None \<Rightarrow> st' = st"
proof (cases sent)
  case None
  then show ?thesis
    using assms(1) by (auto simp: handleDeposit_def Let_def stageNote_def writeOne_def split: option.splits sum.splits prod.splits bool.splits if_splits)
next
  case (Some s)
  obtain nt at_send where s: "s = (nt, at_send)" by fastforce
  obtain p where p: "pool = Some p" "prepare_deposit W = Inr nt"
      "stageNote env (dw_now W) (dw_session W) (deposit_entry p nt) st = (True, at_send)"
      "st' = snd (send_deposit env W nt (ui\<lparr>du_step := StepProcessing, du_error := None, du_confirmUnknown := False, du_secretNote := nt\<rparr>) at_send)"
    using assms(1) Some s
    by (auto simp: handleDeposit_def Let_def split: option.splits sum.splits prod.splits bool.splits if_splits)
  have w: "dw_cluster W = Inr ()" "dw_wallet W = Inr ()" "dw_note W = Inr nt"
    using p(2) by (cases "dw_cluster W"; cases "dw_wallet W"; cases "dw_poseidon W"; cases "dw_poolKey W"; cases "dw_note W";
        cases "dw_build W"; simp add: prepare_deposit_def)+
  note n = deposit_entry_note [OF assms(2) [OF w(3)], of p]
  note sn = isNote_staged [OF conjunct1 [OF n], of "dw_now W" "dw_session W"]
  let ?e = "staged_entry (dw_now W) (dw_session W) (deposit_entry p nt)"
  have k: "note_text ?e = nt" using n sn by simp
  have "at_send = setItem (note_key nt) (Returns (stringified ?e)) st"
    using p(3) unfolding stageNote_def writeOne_def Let_def k by (simp split: if_splits)
  then have h: "holds_note at_send nt"
    using holds_note_write [OF disjI2 [OF refl] conjunct1 [OF sn], of nt st] k by metis
  have "holds_note st' nt \<or> (\<exists>err. dw_send W = Inl err \<and> isWalletRejection err)"
    unfolding p(4) by (rule send_deposit_keeps [OF h assms(3,4)])
  then show ?thesis using Some s w h by simp
qed

text \<open>A deposit whose send failed in an unknown way.\<close>

definition unknown_send :: deposit_world where
  "unknown_send = \<lparr>dw_cluster = Inr (), dw_wallet = Inr (), dw_poseidon = Inr (), dw_poolKey = Inr (), dw_note = Inr ''sndo_a'',
     dw_build = Inr (), dw_send = Inl (ErrorObject OtherErr (JStr ''WalletSendTransactionError'') JUndef ''Unexpected error'' None NotObject),
     dw_confirm = Inr (), dw_while_sending = id, dw_while_confirming = id, dw_now = 7, dw_session = ''s''\<rparr>"

definition idle_ui :: deposit_ui where
  "idle_ui = \<lparr>du_step = StepConfirm, du_secretNote = [], du_error = None, du_txSig = None, du_confirmUnknown = False, du_depositedThisSession = False\<rparr>"

lemma deposit_never_loses_note_witness:
  "\<exists>ui' st' s. handleDeposit open_storage unknown_send (Some \<lparr>pc_address = ''p'', pc_denominationSol = JInt 1\<rparr>) True idle_ui [] = (ui', st', Some (''sndo_a'', s))
     \<and> holds_note st' ''sndo_a''"
proof -
  obtain ui' st' sent where h: "handleDeposit open_storage unknown_send (Some \<lparr>pc_address = ''p'', pc_denominationSol = JInt 1\<rparr>) True idle_ui [] = (ui', st', sent)"
    using prod_cases3 by blast
  have "map_option fst (snd (snd (handleDeposit open_storage unknown_send (Some \<lparr>pc_address = ''p'', pc_denominationSol = JInt 1\<rparr>) True idle_ui []))) = Some ''sndo_a''"
      "\<not> isWalletRejection (projl (dw_send unknown_send))" by code_simp+
  then obtain s where s: "sent = Some (''sndo_a'', s)" and "\<not> (\<exists>err. dw_send unknown_send = Inl err \<and> isWalletRejection err)"
    using h by (auto simp: unknown_send_def)
  then show ?thesis
    using deposit_never_loses_note [OF h] h by (auto simp: unknown_send_def)
qed

text \<open>
  The page claims a saved note where there is none: when the transaction cannot be built, nothing
  was stored or sent, and yet the message says that the secret note has been saved in this browser in
  case the deposit went through.
\<close>

theorem unsaved_note_claimed_saved:
  assumes "prepare_deposit W = Inl (ErrorObject OtherErr (JStr ''Error'') JUndef ''fetch failed'' None NotObject)"
    and "pc_address p \<noteq> []"
  shows "\<exists>ui'. handleDeposit env W (Some p) True ui st = (ui', st, None)
    \<and> du_error ui' = Some (''fetch failed '' @ saved_note_warning)"
proof -
  let ?e = "ErrorObject OtherErr (JStr ''Error'') JUndef ''fetch failed'' None NotObject"
  have "deposit_error ?e = ''fetch failed '' @ saved_note_warning" by code_simp
  then show ?thesis using assms by (simp add: handleDeposit_def Let_def fail_deposit_def)
qed

lemma unsaved_note_claimed_saved_witness:
  "\<exists>ui'. handleDeposit open_storage (unknown_send\<lparr>dw_build := Inl (ErrorObject OtherErr (JStr ''Error'') JUndef ''fetch failed'' None NotObject)\<rparr>)
      (Some \<lparr>pc_address = ''p'', pc_denominationSol = JInt 1\<rparr>) True idle_ui [] = (ui', [], None)
    \<and> du_error ui' = Some (''fetch failed '' @ saved_note_warning)"
  by (rule unsaved_note_claimed_saved) (simp_all add: prepare_deposit_def unknown_send_def)

end
