(* ===== verification/AppShell.thy ===== *)
theory AppShell
  imports DepositFlow
begin

text \<open>
  The app around its two flows: the tabs of app/src/App.tsx with the lock while a note is shown, the
  screens of app/src/pages/Deposit.tsx, the note display of components/NoteDisplay.tsx and the banner
  of components/NoteRecovery.tsx, over the vault. A deposit runs in three phases between its awaits, and
  the user can act between them; leaving the tab unmounts the page while its deposit goes on. What is
  proved: the phases make up \<open>handleDeposit\<close>; the note of a deposit that may have been sent is stored
  until the user gives it up; and a note on screen stays there until its box is ticked.
\<close>

subsection \<open>The phases of a deposit\<close>

definition after_prepare :: "vault_env \<Rightarrow> int \<Rightarrow> string \<Rightarrow> pool_config \<Rightarrow> string attempt \<Rightarrow> store \<Rightarrow> deposit_ui
    \<Rightarrow> deposit_ui \<times> store \<times> string option" where
  "after_prepare env now session p r st ui =
     (case r of
        Inl err \<Rightarrow> (fail_deposit err ui, st, None)
      | Inr note \<Rightarrow>
          (case stageNote env now session (deposit_entry p note) st of
             (False, st') \<Rightarrow> (ui\<lparr>du_error := Some ''Cannot save your secret note'', du_step := StepConfirm\<rparr>, st', None)
           | (True, st') \<Rightarrow> (ui\<lparr>du_secretNote := note\<rparr>, st', Some note)))"

definition after_send :: "vault_env \<Rightarrow> int \<Rightarrow> string \<Rightarrow> string attempt \<Rightarrow> store \<Rightarrow> deposit_ui
    \<Rightarrow> deposit_ui \<times> store \<times> string option" where
  "after_send env now note r st ui =
     (case r of
        Inl err \<Rightarrow>
          if isWalletRejection err then (fail_deposit err (ui\<lparr>du_secretNote := []\<rparr>), clearNote env note st, None)
          else if provesNotBroadcast err then (fail_deposit err (ui\<lparr>du_secretNote := []\<rparr>), st, None)
          else (ui\<lparr>du_confirmUnknown := True, du_depositedThisSession := True, du_step := StepNote\<rparr>,
                markNoteStatus env now note ''sent'' None st, None)
      | Inr sig \<Rightarrow> (ui\<lparr>du_txSig := Some sig, du_depositedThisSession := True\<rparr>, markNoteStatus env now note ''sent'' (Some sig) st, Some sig))"

definition after_confirm :: "vault_env \<Rightarrow> int \<Rightarrow> string \<Rightarrow> string \<Rightarrow> unit attempt \<Rightarrow> store \<Rightarrow> deposit_ui \<Rightarrow> deposit_ui \<times> store" where
  "after_confirm env now note sig r st ui =
     (case r of
        Inl err \<Rightarrow> (ui\<lparr>du_confirmUnknown := True, du_step := StepNote\<rparr>, st)
      | Inr u \<Rightarrow> (ui\<lparr>du_step := StepNote\<rparr>, markNoteStatus env now note ''confirmed'' (Some sig) st))"

text \<open>Run one after the other they are the handler of the confirm screen.\<close>

definition run_phases :: "vault_env \<Rightarrow> deposit_world \<Rightarrow> pool_config \<Rightarrow> deposit_ui \<Rightarrow> store \<Rightarrow> deposit_ui \<times> store" where
  "run_phases env W p ui st =
     (case after_prepare env (dw_now W) (dw_session W) p (prepare_deposit W) st
         (ui\<lparr>du_step := StepProcessing, du_error := None, du_confirmUnknown := False\<rparr>) of
        (ui1, st1, None) \<Rightarrow> (ui1, st1)
      | (ui1, st1, Some note) \<Rightarrow>
          (case after_send env (dw_now W) note (dw_send W) (dw_while_sending W st1) ui1 of
             (ui2, st2, None) \<Rightarrow> (ui2, st2)
           | (ui2, st2, Some sig) \<Rightarrow> after_confirm env (dw_now W) note sig (dw_confirm W) (dw_while_confirming W st2) ui2))"

subsection \<open>The app\<close>

datatype app_tab = TabDeposit | TabWithdraw | TabFaq

datatype flight = Preparing pool_config | Sending string | Confirming string string

text \<open>
  \<open>ap_mount\<close> counts the mounts of the deposit page; a deposit belongs to the mount that started it and
  changes what is on screen only while that mount is there. The banner shows the notes it last read.
\<close>

record app_state =
  ap_tab :: app_tab
  ap_noteLocked :: bool
  ap_connected :: bool
  ap_mount :: nat
  ap_pool :: "pool_config option"
  ap_ui :: deposit_ui
  ap_acknowledged :: bool
  ap_flights :: "nat \<Rightarrow> flight option"
  ap_banner :: "string list"
  ap_confirming :: "string option"
  ap_store :: store

definition fresh_ui :: "bool \<Rightarrow> deposit_ui" where
  "fresh_ui deposited = \<lparr>du_step = StepSelect, du_secretNote = [], du_error = None, du_txSig = None,
     du_confirmUnknown = False, du_depositedThisSession = deposited\<rparr>"

definition start_app :: "bool \<Rightarrow> store \<Rightarrow> app_state" where
  "start_app deposited st = \<lparr>ap_tab = TabDeposit, ap_noteLocked = False, ap_connected = False, ap_mount = 0, ap_pool = None,
     ap_ui = fresh_ui deposited, ap_acknowledged = False, ap_flights = (\<lambda>m. None), ap_banner = [], ap_confirming = None, ap_store = st\<rparr>"

text \<open>\<open>setTab\<close>, with the unmount and the mount it causes.\<close>

definition setTab :: "app_tab \<Rightarrow> app_state \<Rightarrow> app_state" where
  "setTab t s =
     (if t = ap_tab s \<or> t \<noteq> TabDeposit then s\<lparr>ap_tab := t\<rparr>
      else s\<lparr>ap_tab := t, ap_noteLocked := False, ap_mount := Suc (ap_mount s), ap_pool := None,
             ap_ui := fresh_ui (du_depositedThisSession (ap_ui s)), ap_acknowledged := False\<rparr>)"

definition handleTabClick :: "app_tab \<Rightarrow> app_state \<Rightarrow> app_state" where
  "handleTabClick t s = (if ap_noteLocked s then s else setTab t s)"

text \<open>
  Setting the page's state from the mount \<open>m\<close>, with the effect that tells the app whether the note is
  on screen; the note display starts with its box unticked.
\<close>

definition set_ui :: "nat \<Rightarrow> (deposit_ui \<Rightarrow> deposit_ui) \<Rightarrow> app_state \<Rightarrow> app_state" where
  "set_ui m g s =
     (if ap_tab s = TabDeposit \<and> m = ap_mount s
      then s\<lparr>ap_ui := g (ap_ui s), ap_noteLocked := (du_step (g (ap_ui s)) = StepNote),
             ap_acknowledged := (ap_acknowledged s \<and> du_step (ap_ui s) = StepNote)\<rparr>
      else s\<lparr>ap_ui := (ap_ui s)\<lparr>du_depositedThisSession := du_depositedThisSession (g (ap_ui s))\<rparr>\<rparr>)"

definition on_screen :: "deposit_step \<Rightarrow> app_state \<Rightarrow> bool" where
  "on_screen step s \<longleftrightarrow> ap_tab s = TabDeposit \<and> ap_connected s \<and> du_step (ap_ui s) = step"

definition read_banner :: "vault_env \<Rightarrow> app_state \<Rightarrow> app_state" where
  "read_banner env s = (case pendingNotes env (ap_store s) of (notes, st) \<Rightarrow> s\<lparr>ap_banner := map note_text notes, ap_store := st\<rparr>)"

datatype app_event =
    ClickTab app_tab
  | WalletChange bool
  | SelectPool pool_config
  | ClickContinue continue_state
  | ClickBack
  | ClickDeposit bool "string option" bool
  | PrepareEnds nat string "string attempt"
  | SendEnds nat "string attempt"
  | ConfirmEnds nat "unit attempt"
  | TickBox bool
  | ClickDone
  | ClickGoToWithdraw
  | ClickAnother
  | ClickGoToDeposit
  | BannerRefresh
  | BannerReconcile bool "nat \<Rightarrow> int" "string \<Rightarrow> pubkey js" "int list \<Rightarrow> int" "nat \<Rightarrow> pubkey \<Rightarrow> merkle_tree js"
  | ClickDiscard string
  | ClickKeep
  | ClickDiscardPermanently string

text \<open>
  The controls and the awaited calls of the deposit page. None when the control is not on screen or
  disabled, or no such call is in flight.
\<close>

definition pick_pool :: "pool_config \<Rightarrow> app_state \<Rightarrow> app_state option" where
  "pick_pool p s = (if on_screen StepSelect s \<and> pc_address p \<noteq> [] then Some (s\<lparr>ap_pool := Some p\<rparr>) else None)"

definition continue_click :: "continue_state \<Rightarrow> app_state \<Rightarrow> app_state option" where
  "continue_click c s =
     (if on_screen StepSelect s \<and> cs_poolAddress c = map_option pc_address (ap_pool s) \<and> depositCanContinue c
      then Some (set_ui (ap_mount s) (\<lambda>ui. ui\<lparr>du_error := None, du_step := StepConfirm\<rparr>) s) else None)"

definition back_click :: "app_state \<Rightarrow> app_state option" where
  "back_click s = (if on_screen StepConfirm s then Some (set_ui (ap_mount s) (\<lambda>ui. ui\<lparr>du_step := StepSelect\<rparr>) s) else None)"

definition deposit_click :: "bool \<Rightarrow> string option \<Rightarrow> bool \<Rightarrow> app_state \<Rightarrow> app_state option" where
  "deposit_click allowed walletBlock ready s =
     (if on_screen StepConfirm s \<and> allowed \<and> walletBlock = None then
        (case ap_pool s of
           None \<Rightarrow> Some s
         | Some p \<Rightarrow>
             if pc_address p = [] \<or> \<not> ready then Some s
             else Some ((set_ui (ap_mount s) (\<lambda>ui. ui\<lparr>du_step := StepProcessing, du_error := None, du_confirmUnknown := False\<rparr>) s)
                          \<lparr>ap_flights := (ap_flights s)(ap_mount s \<mapsto> Preparing p)\<rparr>))
      else None)"

definition prepare_ends :: "vault_env \<Rightarrow> int \<Rightarrow> nat \<Rightarrow> string \<Rightarrow> string attempt \<Rightarrow> app_state \<Rightarrow> app_state option" where
  "prepare_ends env now m session r s =
     (case ap_flights s m of
        Some (Preparing p) \<Rightarrow>
          (case after_prepare env now session p r (ap_store s) (ap_ui s) of
             (ui, st, next) \<Rightarrow>
               Some ((set_ui m (\<lambda>u. fst (after_prepare env now session p r (ap_store s) u)) s)
                       \<lparr>ap_store := st, ap_flights := (ap_flights s)(m := map_option Sending next)\<rparr>))
      | _ \<Rightarrow> None)"

definition send_ends :: "vault_env \<Rightarrow> int \<Rightarrow> nat \<Rightarrow> string attempt \<Rightarrow> app_state \<Rightarrow> app_state option" where
  "send_ends env now m r s =
     (case ap_flights s m of
        Some (Sending note) \<Rightarrow>
          (case after_send env now note r (ap_store s) (ap_ui s) of
             (ui, st, next) \<Rightarrow>
               Some ((set_ui m (\<lambda>u. fst (after_send env now note r (ap_store s) u)) s)
                       \<lparr>ap_store := st, ap_flights := (ap_flights s)(m := map_option (Confirming note) next)\<rparr>))
      | _ \<Rightarrow> None)"

definition confirm_ends :: "vault_env \<Rightarrow> int \<Rightarrow> nat \<Rightarrow> unit attempt \<Rightarrow> app_state \<Rightarrow> app_state option" where
  "confirm_ends env now m r s =
     (case ap_flights s m of
        Some (Confirming note sig) \<Rightarrow>
          Some ((set_ui m (\<lambda>u. fst (after_confirm env now note sig r (ap_store s) u)) s)
                  \<lparr>ap_store := snd (after_confirm env now note sig r (ap_store s) (ap_ui s)), ap_flights := (ap_flights s)(m := None)\<rparr>)
      | _ \<Rightarrow> None)"

definition tick_box :: "bool \<Rightarrow> app_state \<Rightarrow> app_state option" where
  "tick_box b s = (if on_screen StepNote s then Some (s\<lparr>ap_acknowledged := b\<rparr>) else None)"

definition done_click :: "vault_env \<Rightarrow> app_state \<Rightarrow> app_state option" where
  "done_click env s =
     (if on_screen StepNote s \<and> ap_acknowledged s
      then Some ((set_ui (ap_mount s) (\<lambda>ui. ui\<lparr>du_step := StepNext\<rparr>) s)\<lparr>ap_store := clearNote env (du_secretNote (ap_ui s)) (ap_store s)\<rparr>)
      else None)"

definition another_click :: "app_state \<Rightarrow> app_state option" where
  "another_click s =
     (if on_screen StepNext s
      then Some ((set_ui (ap_mount s) (\<lambda>ui. ui\<lparr>du_step := StepSelect, du_secretNote := [], du_txSig := None\<rparr>) s)\<lparr>ap_pool := None\<rparr>)
      else None)"

text \<open>The banner: reconciling when the cluster is the right one, and the two clicks of a discard.\<close>

definition reconcile_effect :: "vault_env \<Rightarrow> bool \<Rightarrow> (nat \<Rightarrow> int) \<Rightarrow> (string \<Rightarrow> pubkey js) \<Rightarrow> (int list \<Rightarrow> int)
    \<Rightarrow> (nat \<Rightarrow> pubkey \<Rightarrow> merkle_tree js) \<Rightarrow> app_state \<Rightarrow> app_state" where
  "reconcile_effect env ok clock parse H rebuild s =
     (if \<not> ok then s
      else read_banner env (s\<lparr>ap_store := snd (reconcilePendingNotes env clock parse H rebuild (ap_store s))\<rparr>))"

definition ask_discard :: "string \<Rightarrow> app_state \<Rightarrow> app_state option" where
  "ask_discard n s = (if n \<in> set (ap_banner s) then Some (s\<lparr>ap_confirming := Some n\<rparr>) else None)"

definition keep_click :: "app_state \<Rightarrow> app_state option" where
  "keep_click s =
     (case ap_confirming s of
        None \<Rightarrow> None
      | Some n \<Rightarrow> if n \<in> set (ap_banner s) then Some (s\<lparr>ap_confirming := None\<rparr>) else None)"

definition discard :: "vault_env \<Rightarrow> string \<Rightarrow> app_state \<Rightarrow> app_state option" where
  "discard env n s =
     (if ap_confirming s = Some n \<and> n \<in> set (ap_banner s)
      then Some (read_banner env (s\<lparr>ap_store := clearNote env n (ap_store s), ap_confirming := None\<rparr>)) else None)"

lemmas page_handlers [simp] = pick_pool_def continue_click_def back_click_def deposit_click_def prepare_ends_def send_ends_def
  confirm_ends_def tick_box_def done_click_def another_click_def reconcile_effect_def ask_discard_def keep_click_def discard_def

text \<open>One event of the app; the storage's condition and the clock are those of the moment.\<close>

fun app_step :: "vault_env \<Rightarrow> int \<Rightarrow> app_event \<Rightarrow> app_state \<Rightarrow> app_state option" where
  "app_step env now (ClickTab t) s = Some (handleTabClick t s)"
| "app_step env now (WalletChange b) s = Some (s\<lparr>ap_connected := b, ap_acknowledged := (ap_acknowledged s \<and> b)\<rparr>)"
| "app_step env now (SelectPool p) s = pick_pool p s"
| "app_step env now (ClickContinue c) s = continue_click c s"
| "app_step env now ClickBack s = back_click s"
| "app_step env now (ClickDeposit allowed walletBlock ready) s = deposit_click allowed walletBlock ready s"
| "app_step env now (PrepareEnds m session r) s = prepare_ends env now m session r s"
| "app_step env now (SendEnds m r) s = send_ends env now m r s"
| "app_step env now (ConfirmEnds m r) s = confirm_ends env now m r s"
| "app_step env now (TickBox b) s = tick_box b s"
| "app_step env now ClickDone s = done_click env s"
| "app_step env now ClickGoToWithdraw s = (if on_screen StepNext s then Some (setTab TabWithdraw s) else None)"
| "app_step env now ClickAnother s = another_click s"
| "app_step env now ClickGoToDeposit s = (if ap_tab s = TabFaq then Some (setTab TabDeposit s) else None)"
| "app_step env now BannerRefresh s = Some (read_banner env s)"
| "app_step env now (BannerReconcile ok clock parse H rebuild) s = Some (reconcile_effect env ok clock parse H rebuild s)"
| "app_step env now (ClickDiscard n) s = ask_discard n s"
| "app_step env now ClickKeep s = keep_click s"
| "app_step env now (ClickDiscardPermanently n) s = discard env n s"

type_synonym app_moment = "vault_env \<times> int \<times> app_event"

fun app_run :: "app_moment list \<Rightarrow> app_state \<Rightarrow> app_state option" where
  "app_run [] s = Some s"
| "app_run ((env, now, e) # es) s = (case app_step env now e s of None \<Rightarrow> None | Some s' \<Rightarrow> app_run es s')"

subsection \<open>Parts of the state\<close>

lemma set_ui_other [simp]:
  "ap_tab (set_ui m g s) = ap_tab s" "ap_mount (set_ui m g s) = ap_mount s" "ap_pool (set_ui m g s) = ap_pool s"
  "ap_connected (set_ui m g s) = ap_connected s" "ap_flights (set_ui m g s) = ap_flights s" "ap_banner (set_ui m g s) = ap_banner s"
  "ap_confirming (set_ui m g s) = ap_confirming s" "ap_store (set_ui m g s) = ap_store s"
  by (simp_all add: set_ui_def)

lemma setTab_other [simp]:
  "ap_connected (setTab t s) = ap_connected s" "ap_flights (setTab t s) = ap_flights s" "ap_tab (setTab t s) = t"
  "ap_confirming (setTab t s) = ap_confirming s" "ap_store (setTab t s) = ap_store s"
  by (simp_all add: setTab_def)

lemma read_banner_other [simp]:
  "ap_tab (read_banner env s) = ap_tab s" "ap_mount (read_banner env s) = ap_mount s" "ap_ui (read_banner env s) = ap_ui s"
  "ap_flights (read_banner env s) = ap_flights s" "ap_noteLocked (read_banner env s) = ap_noteLocked s"
  "ap_acknowledged (read_banner env s) = ap_acknowledged s" "ap_connected (read_banner env s) = ap_connected s"
  "ap_confirming (read_banner env s) = ap_confirming s"
  by (simp_all add: read_banner_def split: prod.split)

text \<open>The handler of the confirm screen is its three phases in a row.\<close>

theorem phases_are_handleDeposit:
  "pc_address p \<noteq> [] \<Longrightarrow> (\<lambda>(ui, st, sent). (ui, st)) (handleDeposit env W (Some p) True ui st) = run_phases env W p ui st"
  by (auto simp: handleDeposit_def run_phases_def after_prepare_def send_deposit_def after_send_def after_confirm_def Let_def
      split: sum.split prod.split bool.split)

subsection \<open>What keeps a stored note\<close>

lemma keeps_clear_other: "holds_note st n \<Longrightarrow> k \<noteq> n \<Longrightarrow> holds_note (clearNote env k st) n"
  by (simp add: holds_note_def clearNote_def)

lemma keeps_migrate: "holds_note st n \<Longrightarrow> holds_note (migrateArrays env st) n"
  using migrateArrays_keeps by (fastforce simp: holds_note_def)

lemma keeps_pending: "holds_note st n \<Longrightarrow> holds_note (snd (pendingNotes env st)) n"
  using keeps_migrate by (simp add: pendingNotes_def readAll_def Let_def)

lemma keeps_mark: "holds_note st n \<Longrightarrow> holds_note (markNoteStatus env now k status sig st) n"
proof -
  assume h: "holds_note st n"
  obtain r st' where r: "readOne env st k = (r, st')" by fastforce
  have h': "holds_note st' n" using r h keeps_migrate [OF h] by (auto simp: readOne_def Let_def split: if_splits)
  show ?thesis
  proof (cases r)
    case None
    then show ?thesis using r h' by (simp add: markNoteStatus_def)
  next
    case (Some e)
    then have "isNote e" using r by (auto simp: readOne_def Let_def split: if_splits option.splits js.splits)
    then have "holds_note (setItem (note_key (note_text (marked_entry now status sig e))) (Returns (stringified (marked_entry now status sig e))) st') n"
      using holds_note_write [of st' n, OF disjI1 [OF h']] isNote_marked by blast
    then show ?thesis using Some r h' by (simp add: markNoteStatus_def writeOne_def Let_def)
  qed
qed

lemma keeps_stage: "holds_note st n \<Longrightarrow> isNote e \<Longrightarrow> holds_note (snd (stageNote env now session e st)) n"
  using holds_note_write [OF disjI1, of st n "staged_entry now session e", OF _ _ refl] isNote_staged [of e now session]
  by (auto simp: stageNote_def writeOne_def Let_def)

lemma stage_holds: "isNote e \<Longrightarrow> stageNote env now session e st = (True, st') \<Longrightarrow> holds_note st' (note_text e)"
  using holds_note_write [OF disjI2 [OF refl], of "staged_entry now session e" "note_text e" st] isNote_staged [of e now session]
  by (auto simp: stageNote_def writeOne_def Let_def split: if_splits)

lemma keeps_reconcile: "holds_note st n \<Longrightarrow> holds_note (snd (reconcilePendingNotes env clock parse H rebuild st)) n"
proof -
  assume h: "holds_note st n"
  have one: "holds_note (snd (reconcile_one env t t' v e acc)) n" if "holds_note (snd acc) n" for t t' v e acc
    using that keeps_mark by (auto simp: reconcile_one_def split: prod.split js.split bool.split)
  have "holds_note (snd (reconcile_loop env clock v k es acc)) n" if "holds_note (snd acc) n" for v k es acc
    using that by (induction es arbitrary: k acc) (simp_all add: one)
  then show ?thesis using keeps_pending [OF h, of env] by (auto simp: reconcilePendingNotes_def split: prod.split)
qed

lemmas keeps = keeps_clear_other keeps_pending keeps_mark keeps_stage keeps_reconcile

subsection \<open>The note of a deposit under way\<close>

definition carries :: "flight \<Rightarrow> string option" where
  "carries f = (case f of Preparing p \<Rightarrow> None | Sending n \<Rightarrow> Some n | Confirming n sig \<Rightarrow> Some n)"

lemma carries_simps [simp]: "carries (Preparing p) = None" "carries (Sending n) = Some n" "carries (Confirming n sig) = Some n"
  by (simp_all add: carries_def)

text \<open>A note whose transaction may have been sent: some deposit is at it, or it is on the note screen.\<close>

definition flying :: "(nat \<Rightarrow> flight option) \<Rightarrow> string \<Rightarrow> bool" where
  "flying fs n \<longleftrightarrow> (\<exists>m f. fs m = Some f \<and> carries f = Some n)"

definition in_play :: "app_state \<Rightarrow> string \<Rightarrow> bool" where
  "in_play s n \<longleftrightarrow> flying (ap_flights s) n
     \<or> ap_tab s = TabDeposit \<and> du_step (ap_ui s) = StepNote \<and> du_secretNote (ap_ui s) = n"

lemma in_playI: "ap_flights s m = Some f \<Longrightarrow> carries f = Some n \<Longrightarrow> in_play s n"
  unfolding in_play_def flying_def by blast

lemma flying_start [simp]: "\<not> flying (\<lambda>m. None) n"
  by (simp add: flying_def)

lemma flying_update: "flying (fs(m := f)) n \<Longrightarrow> flying fs n \<or> (\<exists>g. f = Some g \<and> carries g = Some n)"
  by (auto simp: flying_def split: if_splits)

text \<open>What gives a note up: ticking the box and leaving the note screen, the second click of a discard, a refusal by the wallet.\<close>

definition releases :: "string \<Rightarrow> app_event \<Rightarrow> app_state \<Rightarrow> bool" where
  "releases n e s \<longleftrightarrow>
     e = ClickDone \<and> on_screen StepNote s \<and> ap_acknowledged s \<and> du_secretNote (ap_ui s) = n
     \<or> e = ClickDiscardPermanently n \<and> ap_confirming s = Some n
     \<or> (\<exists>m err. e = SendEnds m (Inl err) \<and> ap_flights s m = Some (Sending n) \<and> isWalletRejection err)"

definition app_inv :: "app_state \<Rightarrow> bool" where
  "app_inv s \<longleftrightarrow> (\<forall>m f. ap_flights s m = Some f \<longrightarrow> m \<le> ap_mount s)
     \<and> (ap_tab s = TabDeposit \<longrightarrow>
          (du_step (ap_ui s) = StepProcessing \<longleftrightarrow> ap_flights s (ap_mount s) \<noteq> None)
          \<and> (\<forall>f n. ap_flights s (ap_mount s) = Some f \<and> carries f = Some n \<longrightarrow> du_secretNote (ap_ui s) = n)
          \<and> (ap_noteLocked s \<longleftrightarrow> du_step (ap_ui s) = StepNote))"

definition notes_well_formed :: "app_event \<Rightarrow> bool" where
  "notes_well_formed e \<longleftrightarrow> (case e of PrepareEnds m session (Inr n) \<Rightarrow> starts_with n ''sndo_'' | _ \<Rightarrow> True)"

lemma read_banner_store: "ap_store (read_banner env s) = snd (pendingNotes env (ap_store s))"
  by (simp add: read_banner_def split: prod.split)

lemma step_keeps_note:
  assumes "app_step env now e s = Some s'" "notes_well_formed e" "holds_note (ap_store s) n"
  shows "holds_note (ap_store s') n \<or> releases n e s"
proof (cases e)
  case (PrepareEnds m session r)
  then show ?thesis
    using assms keeps_stage deposit_entry_note
    by (auto simp: after_prepare_def notes_well_formed_def split: option.splits flight.splits sum.splits prod.splits bool.splits)
       (metis snd_conv)+
next
  case (SendEnds m r)
  then show ?thesis
    using assms keeps by (auto simp: after_send_def releases_def split: option.splits flight.splits sum.splits prod.splits if_splits)
next
  case (ConfirmEnds m r)
  then show ?thesis
    using assms keeps by (auto simp: after_confirm_def split: option.splits flight.splits sum.splits)
qed (use assms keeps in \<open>auto simp: releases_def handleTabClick_def read_banner_store split: option.splits if_splits\<close>)

lemma app_inv_start: "app_inv (start_app deposited st)"
  by (simp add: app_inv_def start_app_def fresh_ui_def)

text \<open>A flight that ends or goes on sets the step of its own mount only.\<close>

lemma after_step:
  "after_prepare env now session p r st ui = (ui', st', Some n) \<Longrightarrow> du_step ui' = du_step ui \<and> du_secretNote ui' = n"
  "after_prepare env now session p r st ui = (ui', st', None) \<Longrightarrow> du_step ui' = StepConfirm"
  "after_send env now n r st ui = (ui', st', Some sig) \<Longrightarrow> du_step ui' = du_step ui \<and> du_secretNote ui' = du_secretNote ui"
  "after_send env now n r st ui = (ui', st', None) \<Longrightarrow> du_step ui' = StepConfirm \<or> du_step ui' = StepNote \<and> du_secretNote ui' = du_secretNote ui"
  "fst (after_confirm env now n sig c st ui) = ui' \<Longrightarrow> du_step ui' = StepNote \<and> du_secretNote ui' = du_secretNote ui"
  by (auto simp: after_prepare_def after_send_def after_confirm_def fail_deposit_def split: sum.splits prod.splits bool.splits if_splits)

lemma after_next:
  "snd (snd (after_prepare env now session p r st ui)) = snd (snd (after_prepare env now session p r st ui'))"
  "snd (snd (after_send env now n q st ui)) = snd (snd (after_send env now n q st ui'))"
  by (simp_all add: after_prepare_def after_send_def split: sum.split prod.split bool.split)

lemma app_inv_set_ui:
  assumes "app_inv s" "ap_tab s = TabDeposit" "m = ap_mount s"
    and "s' = (set_ui m g s)\<lparr>ap_store := st, ap_flights := (ap_flights s)(m := f)\<rparr>"
    and "du_step (g (ap_ui s)) = StepProcessing \<longleftrightarrow> f \<noteq> None"
    and "\<forall>x n. f = Some x \<and> carries x = Some n \<longrightarrow> du_secretNote (g (ap_ui s)) = n"
  shows "app_inv s'"
  using assms by (auto simp: app_inv_def set_ui_def)

lemma app_inv_away:
  assumes "app_inv s" "ap_tab s \<noteq> TabDeposit \<or> m \<noteq> ap_mount s" "m \<le> ap_mount s"
  shows "app_inv ((set_ui m g s)\<lparr>ap_store := st, ap_flights := (ap_flights s)(m := f)\<rparr>)"
  using assms by (auto simp: app_inv_def set_ui_def)

lemma app_inv_setTab: "app_inv s \<Longrightarrow> app_inv (setTab t s)"
proof -
  assume i: "app_inv s"
  then have "ap_flights s (Suc (ap_mount s)) = None"
    unfolding app_inv_def by (metis Suc_n_not_le_n option.exhaust)
  then show ?thesis using i by (auto simp: app_inv_def setTab_def fresh_ui_def le_Suc_eq)
qed

lemma app_inv_step:
  assumes "app_inv s" "app_step env now e s = Some s'"
  shows "app_inv s'"
proof (cases e)
  case (PrepareEnds m session r)
  then obtain p ui st nxt where f: "ap_flights s m = Some (Preparing p)" "after_prepare env now session p r (ap_store s) (ap_ui s) = (ui, st, nxt)"
      "s' = (set_ui m (\<lambda>u. fst (after_prepare env now session p r (ap_store s) u)) s)\<lparr>ap_store := st, ap_flights := (ap_flights s)(m := map_option Sending nxt)\<rparr>"
    using assms(2) by (auto split: option.splits flight.splits prod.splits)
  show ?thesis
  proof (cases "ap_tab s = TabDeposit \<and> m = ap_mount s")
    case True
    then have "du_step (ap_ui s) = StepProcessing" using assms(1) f(1) by (auto simp: app_inv_def)
    then show ?thesis
      using True f(2) after_step(1,2) by (intro app_inv_set_ui [OF assms(1) _ _ f(3)]; cases nxt) (fastforce simp: carries_def)+
  next
    case False
    then show ?thesis using assms(1) f(1) unfolding f(3) by (intro app_inv_away) (auto simp: app_inv_def)
  qed
next
  case (SendEnds m r)
  then obtain n ui st nxt where f: "ap_flights s m = Some (Sending n)" "after_send env now n r (ap_store s) (ap_ui s) = (ui, st, nxt)"
      "s' = (set_ui m (\<lambda>u. fst (after_send env now n r (ap_store s) u)) s)\<lparr>ap_store := st, ap_flights := (ap_flights s)(m := map_option (Confirming n) nxt)\<rparr>"
    using assms(2) by (auto split: option.splits flight.splits prod.splits)
  show ?thesis
  proof (cases "ap_tab s = TabDeposit \<and> m = ap_mount s")
    case True
    then have "du_step (ap_ui s) = StepProcessing" "du_secretNote (ap_ui s) = n" using assms(1) f(1) by (auto simp: app_inv_def carries_def)
    then show ?thesis
      using True f(2) after_step(3,4) by (intro app_inv_set_ui [OF assms(1) _ _ f(3)]; cases nxt) (fastforce simp: carries_def)+
  next
    case False
    then show ?thesis using assms(1) f(1) unfolding f(3) by (intro app_inv_away) (auto simp: app_inv_def)
  qed
next
  case (ConfirmEnds m r)
  then obtain n sig where f: "ap_flights s m = Some (Confirming n sig)"
      "s' = (set_ui m (\<lambda>u. fst (after_confirm env now n sig r (ap_store s) u)) s)\<lparr>ap_store := snd (after_confirm env now n sig r (ap_store s) (ap_ui s)),
        ap_flights := (ap_flights s)(m := None)\<rparr>"
    using assms(2) by (auto split: option.splits flight.splits)
  show ?thesis
  proof (cases "ap_tab s = TabDeposit \<and> m = ap_mount s")
    case True
    then show ?thesis
      using after_step(5) [OF refl, of env now n sig r "ap_store s" "ap_ui s"] by (intro app_inv_set_ui [OF assms(1) _ _ f(2)]) auto
  next
    case False
    then show ?thesis using assms(1) f(1) unfolding f(2) by (intro app_inv_away) (auto simp: app_inv_def)
  qed
next
  case (ClickTab t)
  then show ?thesis using assms app_inv_setTab by (auto simp: handleTabClick_def)
next
  case ClickGoToDeposit
  then show ?thesis using assms app_inv_setTab by (auto split: if_splits)
next
  case ClickGoToWithdraw
  then show ?thesis using assms app_inv_setTab by (auto split: if_splits)
qed (use assms in \<open>auto simp: app_inv_def set_ui_def on_screen_def carries_def split: option.splits if_splits\<close>)

lemma in_play_step:
  assumes "app_inv s" "app_step env now e s = Some s'" "notes_well_formed e" "in_play s' n"
  shows "in_play s n \<or> holds_note (ap_store s') n"
proof (cases e)
  case (PrepareEnds m session r)
  then obtain p ui st nxt where f: "ap_flights s m = Some (Preparing p)" "after_prepare env now session p r (ap_store s) (ap_ui s) = (ui, st, nxt)"
      "s' = (set_ui m (\<lambda>u. fst (after_prepare env now session p r (ap_store s) u)) s)\<lparr>ap_store := st, ap_flights := (ap_flights s)(m := map_option Sending nxt)\<rparr>"
    using assms(2) by (auto split: option.splits flight.splits prod.splits)
  have "holds_note st k" if "nxt = Some k" for k
    using f(2) that assms(3) PrepareEnds stage_holds deposit_entry_note
    by (auto simp: after_prepare_def notes_well_formed_def split: sum.splits prod.splits bool.splits) metis
  moreover have "ap_tab s = TabDeposit \<Longrightarrow> m = ap_mount s \<Longrightarrow> du_step ui \<noteq> StepNote"
    using after_step(1,2) f(1,2) assms(1) by (cases nxt) (fastforce simp: app_inv_def)+
  ultimately show ?thesis
    using assms(4) f flying_update [of "ap_flights s" m "map_option Sending nxt" n]
    by (auto simp: in_play_def set_ui_def split: if_splits)
next
  case (SendEnds m r)
  then obtain k ui st nxt where f: "ap_flights s m = Some (Sending k)" "after_send env now k r (ap_store s) (ap_ui s) = (ui, st, nxt)"
      "s' = (set_ui m (\<lambda>u. fst (after_send env now k r (ap_store s) u)) s)\<lparr>ap_store := st, ap_flights := (ap_flights s)(m := map_option (Confirming k) nxt)\<rparr>"
    using assms(2) by (auto split: option.splits flight.splits prod.splits)
  have k: "in_play s k" by (rule in_playI [OF f(1)]) simp
  have "ap_tab s = TabDeposit \<Longrightarrow> m = ap_mount s \<Longrightarrow> du_step ui = StepNote \<Longrightarrow> du_secretNote ui = k"
    using after_step(3,4) f(1,2) assms(1) by (cases nxt) (fastforce simp: app_inv_def )+
  then show ?thesis
    using assms(4) f k flying_update [of "ap_flights s" m "map_option (Confirming k) nxt" n]
    by (auto simp: in_play_def set_ui_def split: if_splits)
next
  case (ConfirmEnds m r)
  then obtain k sig where f: "ap_flights s m = Some (Confirming k sig)"
      "s' = (set_ui m (\<lambda>u. fst (after_confirm env now k sig r (ap_store s) u)) s)\<lparr>ap_store := snd (after_confirm env now k sig r (ap_store s) (ap_ui s)),
        ap_flights := (ap_flights s)(m := None)\<rparr>"
    using assms(2) by (auto split: option.splits flight.splits)
  have k: "in_play s k" by (rule in_playI [OF f(1)]) simp
  have "ap_tab s = TabDeposit \<Longrightarrow> m = ap_mount s \<Longrightarrow> du_secretNote (fst (after_confirm env now k sig r (ap_store s) (ap_ui s))) = k"
    using after_step(5) [OF refl] f(1) assms(1) by (fastforce simp: app_inv_def )
  then show ?thesis
    using assms(4) f k flying_update [of "ap_flights s" m "None" n]
    by (auto simp: in_play_def set_ui_def split: if_splits)
qed (use assms in \<open>auto simp: in_play_def handleTabClick_def setTab_def set_ui_def on_screen_def fresh_ui_def
      dest!: flying_update split: option.splits if_splits\<close>)

subsection \<open>Runs\<close>

lemma app_run_snoc: "app_run (es @ [(env, now, e)]) s = (case app_run es s of None \<Rightarrow> None | Some s' \<Rightarrow> app_step env now e s')"
  by (induction es s rule: app_run.induct) (auto split: option.splits)

text \<open>
  The user, or the wallet, gave a note up at some point of a run: on the note screen with the box
  ticked, by a discard confirmed after it was asked for, or by refusing to send it.
\<close>

definition given_up :: "app_state \<Rightarrow> app_moment list \<Rightarrow> string \<Rightarrow> bool" where
  "given_up s0 es n \<longleftrightarrow> (\<exists>es1 env now e es2 s. es = es1 @ (env, now, e) # es2 \<and> app_run es1 s0 = Some s \<and> releases n e s
     \<and> (e = ClickDiscardPermanently n \<longrightarrow> ClickDiscard n \<in> (snd \<circ> snd) ` set es1))"

lemma given_up_snoc: "given_up s0 es n \<Longrightarrow> given_up s0 (es @ [x]) n"
  unfolding given_up_def by (metis append.assoc append_Cons)

lemma confirming_step:
  "app_step env now e s = Some s' \<Longrightarrow> ap_confirming s' = Some n \<Longrightarrow> e = ClickDiscard n \<or> ap_confirming s = Some n"
  by (cases e) (auto simp: handleTabClick_def split: option.splits flight.splits if_splits prod.splits)

lemma app_run_inv:
  assumes "app_run es (start_app deposited st) = Some s" "\<forall>(env, now, e)\<in>set es. notes_well_formed e"
  shows "app_inv s \<and> (\<forall>n. holds_note st n \<or> in_play s n \<longrightarrow> holds_note (ap_store s) n \<or> given_up (start_app deposited st) es n)
    \<and> (\<forall>n. ap_confirming s = Some n \<longrightarrow> ClickDiscard n \<in> (snd \<circ> snd) ` set es)"
  using assms
proof (induction es arbitrary: s rule: rev_induct)
  case Nil
  then have s: "s = start_app deposited st" by simp
  show ?case using app_inv_start [of deposited st] unfolding s by (auto simp: in_play_def start_app_def fresh_ui_def)
next
  case (snoc x es)
  obtain env now e where x: "x = (env, now, e)" by (cases x)
  obtain s1 where s1: "app_run es (start_app deposited st) = Some s1" "app_step env now e s1 = Some s"
    using snoc.prems(1) unfolding x app_run_snoc by (auto split: option.splits)
  note ih = snoc.IH [OF s1(1)]
  have ih: "app_inv s1" "\<And>n. holds_note st n \<or> in_play s1 n \<Longrightarrow> holds_note (ap_store s1) n \<or> given_up (start_app deposited st) es n"
      "\<And>n. ap_confirming s1 = Some n \<Longrightarrow> ClickDiscard n \<in> (snd \<circ> snd) ` set es"
    using snoc.prems(2) ih by auto
  have wf: "notes_well_formed e" using snoc.prems(2) x by auto
  have "given_up (start_app deposited st) (es @ [x]) n" if "releases n e s1" for n
  proof -
    have "e = ClickDiscardPermanently n \<longrightarrow> ClickDiscard n \<in> (snd \<circ> snd) ` set es"
      using that ih(3) by (auto simp: releases_def)
    then show ?thesis unfolding given_up_def x using s1(1) that by blast
  qed
  then have "holds_note (ap_store s) n \<or> given_up (start_app deposited st) (es @ [x]) n" if "holds_note st n \<or> in_play s n" for n
    using that in_play_step [OF ih(1) s1(2) wf, of n] ih(2) [of n] step_keeps_note [OF s1(2) wf, of n] given_up_snoc by blast
  moreover have "ClickDiscard n \<in> (snd \<circ> snd) ` set (es @ [x])" if "ap_confirming s = Some n" for n
    using confirming_step [OF s1(2) that] ih(3) [of n] unfolding x by auto
  ultimately show ?case using app_inv_step [OF ih(1) s1(2)] by blast
qed

text \<open>
  C12. Through any sequence of clicks, wallet connections, awaited results, banner reads and
  reconciliations, a note that was in the browser when the app started, or whose transaction may have
  been sent since (a deposit is at it, or it is on the note screen), is in storage, unless the note was
  given up: on the note screen with the box ticked, by a discard confirmed after it was asked for, or
  by the wallet's own refusal to send it. Leaving the page in the middle of a deposit gives up nothing.
\<close>

theorem sent_note_is_kept:
  assumes "app_run es (start_app deposited st) = Some s" "\<forall>(env, now, e)\<in>set es. notes_well_formed e"
    and "holds_note st n \<or> in_play s n"
  shows "holds_note (ap_store s) n \<or> given_up (start_app deposited st) es n"
  using app_run_inv [OF assms(1,2)] assms(3) by blast

text \<open>A run in which the user leaves the page while the transaction is being sent.\<close>

definition left_page :: "app_moment list" where
  "left_page = map (\<lambda>e. (open_storage, 5, e))
     [WalletChange True, SelectPool \<lparr>pc_address = ''p'', pc_denominationSol = JInt 1\<rparr>,
      ClickContinue \<lparr>cs_poolAddress = Some ''p'', cs_poolLoading = False, cs_poolError = None, cs_poolInfo = Some (False, False),
        cs_clusterAllowed = True, cs_walletBlock = None\<rparr>,
      ClickDeposit True None True, PrepareEnds 0 ''s'' (Inr ''sndo_a''), ClickTab TabWithdraw, ClickTab TabDeposit]"

lemma sent_note_is_kept_witness:
  "\<exists>s. app_run left_page (start_app False []) = Some s \<and> ap_mount s = 1 \<and> in_play s ''sndo_a'' \<and> holds_note (ap_store s) ''sndo_a''"
proof -
  obtain s where s: "app_run left_page (start_app False []) = Some s"
      "ap_mount s = 1 \<and> ap_flights s 0 = Some (Sending ''sndo_a'')"
    by (simp add: left_page_def start_app_def fresh_ui_def on_screen_def set_ui_def depositCanContinue_def after_prepare_def
        stageNote_def writeOne_def open_storage_def handleTabClick_def setTab_def)
  have "in_play s ''sndo_a''" by (rule in_playI [OF conjunct2 [OF s(2)]]) simp
  moreover have "\<forall>(env, now, e)\<in>set left_page. notes_well_formed e"
    by (simp add: left_page_def notes_well_formed_def)
  ultimately have "holds_note (ap_store s) ''sndo_a'' \<or> given_up (start_app False []) left_page ''sndo_a''"
    using sent_note_is_kept [OF s(1)] by blast
  moreover have "\<not> given_up (start_app False []) left_page ''sndo_a''"
  proof
    assume "given_up (start_app False []) left_page ''sndo_a''"
    then obtain env now e t where "(env, now, e) \<in> set left_page" "releases ''sndo_a'' e t" unfolding given_up_def by (metis in_set_conv_decomp)
    then show False by (auto simp: left_page_def releases_def)
  qed
  ultimately show ?thesis using s \<open>in_play s ''sndo_a''\<close> by blast
qed

subsection \<open>The note screen\<close>

text \<open>
  A note on screen stays there: whatever happens next, the deposit tab stays selected and the page
  stays at that note, until the user ticks the box and leaves it; clicks on the tabs do nothing, and no
  deposit started from an earlier visit to the page can replace what is shown.
\<close>

theorem note_screen_is_locked:
  assumes "app_run es (start_app deposited st) = Some s" "\<forall>(env, now, e)\<in>set es. notes_well_formed e"
    and "ap_tab s = TabDeposit" "du_step (ap_ui s) = StepNote" "app_step env now e s = Some s'"
  shows "ap_tab s' = TabDeposit \<and> du_step (ap_ui s') = StepNote \<and> du_secretNote (ap_ui s') = du_secretNote (ap_ui s)
    \<or> e = ClickDone \<and> ap_connected s \<and> ap_acknowledged s"
proof -
  have i: "app_inv s" using app_run_inv [OF assms(1,2)] by blast
  then have l: "ap_noteLocked s" "ap_flights s (ap_mount s) = None" using assms(3,4) by (auto simp: app_inv_def)
  have away: "ap_tab (set_ui m g s) = TabDeposit \<and> du_step (ap_ui (set_ui m g s)) = StepNote
      \<and> du_secretNote (ap_ui (set_ui m g s)) = du_secretNote (ap_ui s)" if "m \<noteq> ap_mount s" for m g
    using that assms(3,4) by (simp add: set_ui_def)
  have f: "m \<noteq> ap_mount s" if "ap_flights s m = Some x" for m x using that l(2) by auto
  show ?thesis
  proof (cases e)
    case (PrepareEnds m session r)
    then show ?thesis using assms(3,5) away f by (auto split: option.splits flight.splits prod.splits)
  next
    case (SendEnds m r)
    then show ?thesis using assms(3,5) away f by (auto split: option.splits flight.splits prod.splits)
  next
    case (ConfirmEnds m r)
    then show ?thesis using assms(3,5) away f by (auto split: option.splits flight.splits)
  qed (use assms(3-5) l in \<open>auto simp: handleTabClick_def on_screen_def split: option.splits if_splits\<close>)
qed

text \<open>A run to the note screen, and a click on another tab there.\<close>

definition shown_note :: "app_moment list" where
  "shown_note = take 5 left_page @ map (\<lambda>e. (open_storage, 6, e)) [SendEnds 0 (Inr ''sig''), ConfirmEnds 0 (Inr ())]"

lemma note_screen_is_locked_witness:
  "\<exists>s s'. app_run shown_note (start_app False []) = Some s \<and> app_step open_storage 7 (ClickTab TabWithdraw) s = Some s'
     \<and> ap_tab s' = TabDeposit \<and> du_secretNote (ap_ui s') = ''sndo_a''"
proof -
  obtain s where s: "app_run shown_note (start_app False []) = Some s"
      "ap_tab s = TabDeposit" "du_step (ap_ui s) = StepNote" "du_secretNote (ap_ui s) = ''sndo_a''"
    by (simp add: shown_note_def left_page_def start_app_def fresh_ui_def on_screen_def set_ui_def depositCanContinue_def after_prepare_def
        after_send_def after_confirm_def stageNote_def writeOne_def open_storage_def handleTabClick_def setTab_def)
  obtain s' where s': "app_step open_storage 7 (ClickTab TabWithdraw) s = Some s'" by simp
  have "\<forall>(env, now, e)\<in>set shown_note. notes_well_formed e" by (simp add: shown_note_def left_page_def notes_well_formed_def)
  then show ?thesis using note_screen_is_locked [OF s(1) _ s(2,3) s'] s s' by auto
qed

end
