(* ===== verification/AppScreens.thy ===== *)
theory AppScreens
  imports AppShell
begin

text \<open>
  The effects behind the app's screens: app/src/hooks/useClusterGate.ts with the banner of
  components/NetworkGuard.tsx, the wallet check of pages/Deposit.tsx, the countdown of
  pages/Onboarding.tsx, components/ProgressIndicator.tsx and utils/warmup.ts. What is proved: the
  interface says a cluster is allowed only about the connection its last effect verified, whatever order
  verifications finish in, and which frame can show an older verdict; the first screen unlocks exactly at its deadline; and where the wallet check, which does
  not cancel its predecessors, can show a verdict about another pool.
\<close>

subsection \<open>The cluster gate in the interface\<close>

datatype cluster_state = GateChecking | GateAllowed string | GateBlocked block_code "string option"

text \<open>
  A render commits with a connection, and the effect of that render runs after it: in between the state
  is still the one of the connection before. Each run of the effect verifies the connection it started
  with; only the last run is not cancelled. \<open>gh_pending\<close>: a render with a new connection has
  committed and its effect has not run yet; \<open>gh_verified\<close>: the connection of the last effect;
  \<open>gh_cache\<close> is the module's memory of identified endpoints.
\<close>

record gate_hook =
  gh_run :: nat
  gh_connection :: string
  gh_pending :: bool
  gh_verified :: string
  gh_open :: "nat \<Rightarrow> string option"
  gh_state :: cluster_state
  gh_cache :: cluster_cache

datatype gate_event = ConnectionChanges string | EffectRuns | VerifyEnds nat "(nat \<times> string js) option" | VerifyRejects nat

definition state_of_verdict :: "cluster_verdict \<Rightarrow> cluster_state" where
  "state_of_verdict v = (case v of ClusterOk c h \<Rightarrow> GateAllowed c | ClusterBlocked code c \<Rightarrow> GateBlocked code c)"

definition settle_gate :: "nat \<Rightarrow> cluster_state \<Rightarrow> gate_hook \<Rightarrow> gate_hook" where
  "settle_gate k st h =
     (if k = gh_run h then h\<lparr>gh_open := (gh_open h)(k := None), gh_state := st\<rparr>
      else h\<lparr>gh_open := (gh_open h)(k := None)\<rparr>)"

fun gate_step :: "string \<Rightarrow> nat \<Rightarrow> gate_event \<Rightarrow> gate_hook \<Rightarrow> gate_hook option" where
  "gate_step allowed ms (ConnectionChanges endpoint) h =
     Some (h\<lparr>gh_connection := endpoint, gh_pending := True\<rparr>)"
| "gate_step allowed ms EffectRuns h =
     (if \<not> gh_pending h then None
      else Some (h\<lparr>gh_run := Suc (gh_run h), gh_pending := False, gh_verified := gh_connection h,
             gh_open := (gh_open h)(Suc (gh_run h) \<mapsto> gh_connection h), gh_state := GateChecking\<rparr>))"
| "gate_step allowed ms (VerifyEnds k reply) h =
     (case gh_open h k of
        None \<Rightarrow> None
      | Some endpoint \<Rightarrow>
          (case verifyCluster allowed ms endpoint reply (gh_cache h) of
             (v, cache) \<Rightarrow> Some (settle_gate k (state_of_verdict v) (h\<lparr>gh_cache := cache\<rparr>))))"
| "gate_step allowed ms (VerifyRejects k) h =
     (case gh_open h k of None \<Rightarrow> None | Some endpoint \<Rightarrow> Some (settle_gate k (GateBlocked Unverified None) h))"

definition gate_allows :: "gate_hook \<Rightarrow> bool" where
  "gate_allows h = (case gh_state h of GateAllowed c \<Rightarrow> True | _ \<Rightarrow> False)"

text \<open>The first render: its effect has yet to run.\<close>

definition gate_start :: "string \<Rightarrow> gate_hook" where
  "gate_start endpoint = \<lparr>gh_run = 0, gh_connection = endpoint, gh_pending = True, gh_verified = [], gh_open = (\<lambda>k. None),
     gh_state = GateChecking, gh_cache = Map.empty\<rparr>"

fun gate_hook_run :: "string \<Rightarrow> nat \<Rightarrow> gate_event list \<Rightarrow> gate_hook \<Rightarrow> gate_hook option" where
  "gate_hook_run allowed ms [] h = Some h"
| "gate_hook_run allowed ms (e # es) h =
     (case gate_step allowed ms e h of None \<Rightarrow> None | Some h' \<Rightarrow> gate_hook_run allowed ms es h')"

datatype guard_view = BlockedBanner string | CheckingBanner | ReminderBanner string | NoBanner

definition guard_banner :: "cluster_state \<Rightarrow> bool \<Rightarrow> guard_view" where
  "guard_banner st showReminder =
     (case st of
        GateBlocked code cluster \<Rightarrow>
          BlockedBanner (if cluster = Some ''mainnet-beta'' then ''Mainnet detected''
                         else if code = Unverified then ''Network not confirmed'' else ''Wrong network'')
      | GateChecking \<Rightarrow> CheckingBanner
      | GateAllowed cluster \<Rightarrow> if showReminder then ReminderBanner cluster else NoBanner)"

definition show_reminder :: "bool \<Rightarrow> string option js \<Rightarrow> bool" where
  "show_reminder connected' dismissed =
     (connected' \<and> (case dismissed of Returns v \<Rightarrow> v \<noteq> Some ''1'' | Throws e \<Rightarrow> True))"

definition gate_inv :: "(string \<Rightarrow> string) \<Rightarrow> string \<Rightarrow> gate_hook \<Rightarrow> bool" where
  "gate_inv truth allowed h \<longleftrightarrow> (\<forall>e v. gh_cache h e = Some v \<longrightarrow> v = truth e)
     \<and> (\<forall>k e. gh_open h k = Some e \<longrightarrow> k \<le> gh_run h \<and> (k = gh_run h \<longrightarrow> e = gh_verified h))
     \<and> (\<not> gh_pending h \<longrightarrow> gh_verified h = gh_connection h)
     \<and> (\<forall>c. gh_state h = GateAllowed c \<longrightarrow> c = allowed \<and> map_of GENESIS_HASHES allowed = Some (truth (gh_verified h)))"

definition reply_truly :: "(string \<Rightarrow> string) \<Rightarrow> gate_hook \<Rightarrow> gate_event \<Rightarrow> bool" where
  "reply_truly truth h e \<longleftrightarrow>
     (case e of VerifyEnds k reply \<Rightarrow> (case gh_open h k of Some endpoint \<Rightarrow> answers_truly truth (endpoint, reply) | None \<Rightarrow> True) | _ \<Rightarrow> True)"

lemma verifyCluster_ok:
  assumes "answers_truly truth (endpoint, reply)" "\<forall>e h. m e = Some h \<longrightarrow> h = truth e"
    and "verifyCluster allowed ms endpoint reply m = (ClusterOk c g, m')"
  shows "c = allowed \<and> map_of GENESIS_HASHES allowed = Some (truth endpoint)"
proof -
  obtain r m1 where i: "identify endpoint reply ms m = (r, m1)" by fastforce
  have "r = Returns x \<Longrightarrow> x = truth endpoint" for x
    using identify_true(1) [OF assms(1), of m ms x] assms(2) i by auto
  then show ?thesis using assms(3) i by (auto simp: verifyCluster_def split: option.splits js.splits if_splits)
qed

lemma gate_inv_step:
  assumes "gate_inv truth allowed h" "gate_step allowed ms e h = Some h'" "reply_truly truth h e"
  shows "gate_inv truth allowed h'"
proof (cases e)
  case (ConnectionChanges endpoint)
  then show ?thesis using assms(1,2) by (auto simp: gate_inv_def)
next
  case EffectRuns
  then show ?thesis using assms(1,2) by (auto simp: gate_inv_def le_Suc_eq split: if_splits)
next
  case (VerifyEnds k reply)
  then obtain endpoint where o: "gh_open h k = Some endpoint" using assms(2) by (auto split: option.splits)
  obtain v cache where v: "verifyCluster allowed ms endpoint reply (gh_cache h) = (v, cache)" by fastforce
  have t: "answers_truly truth (endpoint, reply)" using assms(3) VerifyEnds o by (simp add: reply_truly_def)
  have c: "\<forall>e x. gh_cache h e = Some x \<longrightarrow> x = truth e" using assms(1) by (simp add: gate_inv_def)
  have c': "\<forall>e x. cache e = Some x \<longrightarrow> x = truth e" using verifyCluster_cache [OF t c, of allowed ms] v by (metis snd_conv)
  have "state_of_verdict v = GateAllowed x \<Longrightarrow> x = allowed \<and> map_of GENESIS_HASHES allowed = Some (truth endpoint)" for x
    using verifyCluster_ok [OF t c, of allowed ms] v by (auto simp: state_of_verdict_def split: cluster_verdict.splits)
  then show ?thesis
    using assms(1,2) VerifyEnds o v c' by (cases "k = gh_run h") (auto simp: gate_inv_def settle_gate_def split: if_splits)
next
  case (VerifyRejects k)
  then show ?thesis using assms(1,2) by (auto simp: gate_inv_def settle_gate_def split: option.splits if_splits)
qed

fun replies_truly :: "(string \<Rightarrow> string) \<Rightarrow> string \<Rightarrow> nat \<Rightarrow> gate_event list \<Rightarrow> gate_hook \<Rightarrow> bool" where
  "replies_truly truth allowed ms [] h \<longleftrightarrow> True"
| "replies_truly truth allowed ms (e # es) h \<longleftrightarrow>
     reply_truly truth h e \<and> (case gate_step allowed ms e h of None \<Rightarrow> True | Some h' \<Rightarrow> replies_truly truth allowed ms es h')"

lemma gate_inv_run:
  "gate_inv truth allowed h \<Longrightarrow> gate_hook_run allowed ms es h = Some h' \<Longrightarrow> replies_truly truth allowed ms es h \<Longrightarrow> gate_inv truth allowed h'"
  by (induction es arbitrary: h) (auto split: option.splits dest: gate_inv_step)

text \<open>What the cache holds is enough for the guard that the action handlers call themselves.\<close>

lemma guard_with_cache:
  assumes "gate_inv truth allowed h" "answers_truly truth (endpoint, reply)"
    and "fst (assertClusterAllowed allowed ms endpoint reply (gh_cache h)) = Returns ()"
  shows "map_of GENESIS_HASHES allowed = Some (truth endpoint)"
proof -
  have c: "\<forall>e x. gh_cache h e = Some x \<longrightarrow> x = truth e" using assms(1) by (simp add: gate_inv_def)
  obtain v cache where v: "verifyCluster allowed ms endpoint reply (gh_cache h) = (v, cache)" by fastforce
  then obtain d g where "v = ClusterOk d g"
    using assms(3) by (cases v) (auto simp: assertClusterAllowed_def)
  then show ?thesis using verifyCluster_ok [OF assms(2) c] v by blast
qed

text \<open>
  C40. The interface enables actions only about a cluster it has verified: through any renders with a new
  connection, runs of the effect, and any order in which verifications end, fail or are overtaken,
  it says allowed only if the true genesis hash of the connection its last effect verified is the
  allowed cluster's. That is the connection in use as soon as the effect of the last render has run, so
  from then on a connection to any other cluster leaves the deposit page's Continue and the confirm
  button disabled. In the frame before, the verdict on screen may be about the connection that was
  replaced; but in every frame the guard that the action handlers call passes, for a connection that
  answers truly, only if the connection in use is on the allowed cluster.
\<close>

theorem interface_allows_only_true_cluster:
  assumes "gate_hook_run allowed ms es (gate_start first) = Some h" "replies_truly truth allowed ms es (gate_start first)"
  shows "(gh_state h = GateAllowed c \<longrightarrow> c = allowed \<and> map_of GENESIS_HASHES allowed = Some (truth (gh_verified h)))
    \<and> (\<not> gh_pending h \<longrightarrow> gh_verified h = gh_connection h)
    \<and> (\<not> gh_pending h \<and> map_of GENESIS_HASHES allowed \<noteq> Some (truth (gh_connection h)) \<longrightarrow> gate_allows h = False
        \<and> (\<forall>s s'. continue_click (cs\<lparr>cs_clusterAllowed := gate_allows h\<rparr>) s = None \<and> deposit_click (gate_allows h) block ready s' = None))
    \<and> (answers_truly truth (gh_connection h, reply)
        \<and> fst (assertClusterAllowed allowed ms' (gh_connection h) reply (gh_cache h)) = Returns ()
        \<longrightarrow> map_of GENESIS_HASHES allowed = Some (truth (gh_connection h)))"
proof -
  have "gate_inv truth allowed (gate_start first)" by (simp add: gate_inv_def gate_start_def)
  then have i: "gate_inv truth allowed h" using gate_inv_run assms by blast
  have v: "gh_state h = GateAllowed d \<Longrightarrow> d = allowed \<and> map_of GENESIS_HASHES allowed = Some (truth (gh_verified h))" for d
    using i by (simp add: gate_inv_def)
  have p: "\<not> gh_pending h \<longrightarrow> gh_verified h = gh_connection h" using i by (simp add: gate_inv_def)
  have off: "gate_allows h = False" if "map_of GENESIS_HASHES allowed \<noteq> Some (truth (gh_verified h))"
    using v that by (cases "gh_state h") (simp_all add: gate_allows_def)
  have clicks: "continue_click (cs\<lparr>cs_clusterAllowed := False\<rparr>) s = None \<and> deposit_click False block ready s' = None" for s s'
    by (simp add: depositCanContinue_def)
  show ?thesis
  proof (intro conjI impI)
    assume g: "\<not> gh_pending h \<and> map_of GENESIS_HASHES allowed \<noteq> Some (truth (gh_connection h))"
    then show "gate_allows h = False" using p off by simp
    then show "\<forall>s s'. continue_click (cs\<lparr>cs_clusterAllowed := gate_allows h\<rparr>) s = None \<and> deposit_click (gate_allows h) block ready s' = None"
      using clicks by simp
  qed (use v p guard_with_cache [OF i] in blast)+
qed

text \<open>An endpoint on mainnet is replaced by one on devnet, and the first verification ends last.\<close>

lemma interface_allows_only_true_cluster_witness:
  "\<exists>h. gate_hook_run ''devnet'' 10 [EffectRuns, ConnectionChanges ''dev'', EffectRuns,
      VerifyEnds 2 (Some (1, Returns devnet_hash)), VerifyEnds 1 (Some (1, Returns ''5eykt4UsFv8P8NJdTREpY1vzqKqZKvdpKuc147dw2N9d''))] (gate_start ''main'') = Some h
    \<and> gh_state h = GateAllowed ''devnet'' \<and> map_of GENESIS_HASHES ''devnet'' = Some devnet_hash"
proof -
  let ?t = "\<lambda>e. if e = ''dev'' then devnet_hash else ''5eykt4UsFv8P8NJdTREpY1vzqKqZKvdpKuc147dw2N9d''"
  let ?es = "[EffectRuns, ConnectionChanges ''dev'', EffectRuns,
      VerifyEnds 2 (Some (1, Returns devnet_hash)), VerifyEnds 1 (Some (1, Returns ''5eykt4UsFv8P8NJdTREpY1vzqKqZKvdpKuc147dw2N9d''))]"
  note d = gate_start_def verifyCluster_def identify_def withTimeout_def GENESIS_HASHES_def settle_gate_def state_of_verdict_def devnet_hash_def
  obtain h where h: "gate_hook_run ''devnet'' 10 ?es (gate_start ''main'') = Some h" "gh_state h = GateAllowed ''devnet''" "gh_verified h = ''dev''"
    by (simp add: d)
  have "replies_truly ?t ''devnet'' 10 ?es (gate_start ''main'')" by (simp add: d reply_truly_def answers_truly_def)
  then show ?thesis using interface_allows_only_true_cluster [OF h(1)] h by auto
qed

text \<open>
  The frame between a render and its effect: devnet was verified, the connection becomes one to
  mainnet, and until the effect has run the interface still says that devnet is allowed.
\<close>

lemma stale_allowed_frame:
  "\<exists>h. gate_hook_run ''devnet'' 10 [EffectRuns, VerifyEnds 1 (Some (1, Returns devnet_hash)), ConnectionChanges ''main''] (gate_start ''dev'') = Some h
    \<and> gate_allows h \<and> gh_connection h = ''main''"
  by (simp add: gate_start_def verifyCluster_def identify_def withTimeout_def GENESIS_HASHES_def settle_gate_def state_of_verdict_def
      devnet_hash_def gate_allows_def)

subsection \<open>The wallet check\<close>

text \<open>
  \<open>runWalletCheck\<close> runs whenever its inputs change: None when a wallet, a pool or the allowed cluster
  is missing, and otherwise the pool's denomination. Runs are not cancelled.
\<close>

record wallet_hook =
  wh_next :: nat
  wh_open :: "nat \<Rightarrow> int option"
  wh_block :: "wallet_verdict option"
  wh_checking :: bool

datatype wallet_event = InputsChange "int option" | BalanceArrives nat "json js"

definition wallet_block :: "wallet_verdict \<Rightarrow> wallet_verdict option" where
  "wallet_block v = (case v of WalletOk b \<Rightarrow> None | _ \<Rightarrow> Some v)"

fun runWalletCheck :: "wallet_event \<Rightarrow> wallet_hook \<Rightarrow> wallet_hook" where
  "runWalletCheck (InputsChange None) w = w\<lparr>wh_block := None\<rparr>"
| "runWalletCheck (InputsChange (Some d)) w =
     w\<lparr>wh_next := Suc (wh_next w), wh_open := (wh_open w)(wh_next w \<mapsto> d), wh_checking := True\<rparr>"
| "runWalletCheck (BalanceArrives k balance) w =
     (case wh_open w k of
        None \<Rightarrow> w
      | Some d \<Rightarrow> w\<lparr>wh_open := (wh_open w)(k := None), wh_block := wallet_block (checkWalletCanDeposit balance d), wh_checking := False\<rparr>)"

text \<open>A check that ends before the inputs change again leaves the verdict of the gate on the pool chosen.\<close>

lemma wallet_check_current:
  "wh_block (runWalletCheck (BalanceArrives (wh_next w) balance) (runWalletCheck (InputsChange (Some d)) w)) = None
     \<longleftrightarrow> assertWalletCanDeposit balance d = Returns ()"
  by (auto simp: wallet_block_def assertWalletCanDeposit_def split: wallet_verdict.split)

text \<open>
  A check that is overtaken ends last and its verdict stays: with 0.2 SOL in the wallet, the answer
  about the 0.1 SOL pool replaces the refusal for the 100 SOL pool that is selected.
\<close>

lemma stale_wallet_verdict:
  fixes w :: wallet_hook
  defines "w \<equiv> \<lparr>wh_next = 0, wh_open = (\<lambda>k. None), wh_block = None, wh_checking = False\<rparr>"
  shows "wh_block (fold runWalletCheck [InputsChange (Some 100000000), InputsChange (Some 100000000000),
      BalanceArrives 1 (Returns (JInt 200000000)), BalanceArrives 0 (Returns (JInt 200000000))] w) = None
    \<and> assertWalletCanDeposit (Returns (JInt 200000000)) 100000000000 \<noteq> Returns ()"
  unfolding w_def by code_simp

subsection \<open>The first screen\<close>

definition LOCK_SECONDS :: int where "LOCK_SECONDS = 10"

record onboarding =
  ob_deadline :: int
  ob_secondsLeft :: int
  ob_acknowledged :: bool

definition open_onboarding :: "int \<Rightarrow> onboarding" where
  "open_onboarding now = \<lparr>ob_deadline = rnd (now + LOCK_SECONDS * 1000), ob_secondsLeft = LOCK_SECONDS, ob_acknowledged = False\<rparr>"

definition remaining_seconds :: "int \<Rightarrow> int \<Rightarrow> int" where
  "remaining_seconds deadline now = max 0 \<lceil>fl (of_int (rnd (deadline - now)) / 1000)\<rceil>"

definition tick_onboarding :: "int \<Rightarrow> onboarding \<Rightarrow> onboarding" where
  "tick_onboarding now ob = ob\<lparr>ob_secondsLeft := remaining_seconds (ob_deadline ob) now\<rparr>"

definition canContinue :: "onboarding \<Rightarrow> bool" where
  "canContinue ob \<longleftrightarrow> ob_secondsLeft ob \<le> 0 \<and> ob_acknowledged ob"

lemma fl_sign: "0 < x \<Longrightarrow> 0 < fl x" "x \<le> 0 \<Longrightarrow> fl x \<le> 0"
proof -
  show "0 < fl x" if "0 < x"
  proof -
    have "\<bar>fl x - x\<bar> \<le> x / 2 ^ 53" by (rule fl_rel_error [OF that])
    moreover have "x / 2 ^ 53 < x" using that by simp
    ultimately show ?thesis by linarith
  qed
  show "fl x \<le> 0" if "x \<le> 0"
  proof -
    have "x / ulp x \<le> 0" using that ulp_pos [of x] by (simp add: divide_nonpos_pos)
    then have "rne (x / ulp x) \<le> 0" using rne_error [of "x / ulp x"] by linarith
    then have "(of_int (rne (x / ulp x)) :: rat) * ulp x \<le> 0"
      by (intro mult_nonpos_nonneg less_imp_le [OF ulp_pos]) simp
    then show ?thesis by (simp add: fl_def)
  qed
qed

text \<open>
  The button of the first screen unlocks exactly when a tick at or after the deadline has been seen and
  the box is ticked, however late or rarely the timer fires.
\<close>

theorem onboarding_unlocks_at_deadline:
  assumes "\<bar>ob_deadline ob - now\<bar> \<le> 2 ^ 53"
  shows "canContinue (tick_onboarding now ob) \<longleftrightarrow> ob_deadline ob \<le> now \<and> ob_acknowledged ob"
proof -
  define x :: rat where "x = of_int (ob_deadline ob - now) / 1000"
  have e: "rnd (ob_deadline ob - now) = ob_deadline ob - now" using assms by (intro rnd_exact) simp
  have "ob_deadline ob \<le> now \<longleftrightarrow> x \<le> 0" by (simp add: x_def)
  also have "\<dots> \<longleftrightarrow> fl x \<le> 0" using fl_sign [of x] by linarith
  also have "\<dots> \<longleftrightarrow> \<lceil>fl x\<rceil> \<le> 0" by (simp add: ceiling_le_iff)
  also have "\<dots> \<longleftrightarrow> remaining_seconds (ob_deadline ob) now \<le> 0" by (simp add: remaining_seconds_def e x_def)
  finally show ?thesis by (auto simp: canContinue_def tick_onboarding_def)
qed

subsection \<open>Progress of a withdrawal\<close>

record progress_row =
  pr_active :: bool
  pr_complete :: bool
  pr_failed :: bool
  pr_pending :: bool

text \<open>\<open>currentStep\<close> is -1 before the start; a missing or empty error does not count.\<close>

definition progress_row :: "int \<Rightarrow> string option \<Rightarrow> bool \<Rightarrow> int \<Rightarrow> progress_row" where
  "progress_row currentStep error finished i =
     (let failed = (case error of None \<Rightarrow> False | Some e \<Rightarrow> e \<noteq> []) in
      \<lparr>pr_active = (i = currentStep \<and> \<not> finished \<and> \<not> failed), pr_complete = (finished \<or> i < currentStep),
       pr_failed = (failed \<and> i = currentStep), pr_pending = (\<not> finished \<and> currentStep < i)\<rparr>)"

lemma progress_one_status:
  "let r = progress_row currentStep error False i in
     length (filter id [pr_active r, pr_complete r, pr_failed r, pr_pending r]) = 1"
  by (auto simp: progress_row_def Let_def split: option.split)

subsection \<open>Warming up Poseidon\<close>

text \<open>
  \<open>warmPoseidon\<close>: after the page has loaded and the browser is idle, either at once or when the app
  section comes near the screen. The result of each step says whether the initialisation was started.
\<close>

datatype warm_state = WaitLoad | WaitIdle | Watching | Warmed

datatype warm_event = WindowLoads | BrowserIdle bool bool | Intersects "bool list"

definition warm_start :: "bool \<Rightarrow> warm_state" where "warm_start ready = (if ready then WaitIdle else WaitLoad)"

fun warm_step :: "warm_event \<Rightarrow> warm_state \<Rightarrow> warm_state \<times> bool" where
  "warm_step WindowLoads WaitLoad = (WaitIdle, False)"
| "warm_step (BrowserIdle target observer) WaitIdle = (if \<not> target \<or> \<not> observer then (Warmed, True) else (Watching, False))"
| "warm_step (Intersects es) Watching = (if True \<in> set es then (Warmed, True) else (Watching, False))"
| "warm_step e w = (w, False)"

fun warm_run :: "warm_event list \<Rightarrow> warm_state \<Rightarrow> warm_state \<times> nat" where
  "warm_run [] w = (w, 0)"
| "warm_run (e # es) w =
     (case warm_step e w of (w', started) \<Rightarrow> (case warm_run es w' of (w'', k) \<Rightarrow> (w'', k + (if started then 1 else 0))))"

lemma warm_step_cases:
  "warm_step e w = (w', started) \<Longrightarrow> started = (w' = Warmed \<and> w \<noteq> Warmed) \<and> (w = Warmed \<longrightarrow> w' = Warmed)"
  by (induction e w rule: warm_step.induct) (auto split: if_splits)

lemma warms_at_most_once: "warm_run es w = (w', k) \<Longrightarrow> k = (if w' = Warmed \<and> w \<noteq> Warmed then 1 else 0) \<and> (w = Warmed \<longrightarrow> w' = Warmed)"
proof (induction es arbitrary: w k)
  case (Cons e es)
  obtain v started where v: "warm_step e w = (v, started)" by fastforce
  obtain n where n: "warm_run es v = (w', n)" "k = n + (if started then 1 else 0)"
    using Cons.prems v by (auto split: prod.splits)
  show ?case using Cons.IH [OF n(1)] warm_step_cases [OF v] n(2) by (cases "v = Warmed"; cases "w = Warmed") simp_all
qed auto

end
