(* ===== verification/WithdrawFlow.thy ===== *)
theory WithdrawFlow
  imports SdkFees WithdrawProof AppGates AppClient
begin

text \<open>
  Making a withdrawal, app/src/pages/Withdraw.tsx: reading the pasted note, reviewing a quote, and
  \<open>executeWithdraw\<close> with its automatic retries on a stale root. The gate, the quote, the rebuilt
  tree, the prover, the relayer and the on-chain confirmation are parameters, one record per attempt.
  What is proved: no proof is ever bound to a higher fee than the one shown, at most three are sent,
  and the page says it is done only after the chain confirmed it. Rendering is not modelled.
\<close>

subsection \<open>The note and the quote under review\<close>

record parsed_note =
  pn_raw :: string
  pn_poolAddress :: string
  pn_denominationLamports :: int
  pn_denominationSol :: rat

definition parseNote :: "(string \<Rightarrow> pubkey js) \<Rightarrow> (pubkey \<Rightarrow> string) \<Rightarrow> string \<Rightarrow> parsed_note option" where
  "parseNote parse toBase58 raw =
     (case decodeNote parse (trim raw) of
        Throws e \<Rightarrow> None
      | Returns note \<Rightarrow> Some \<lparr>pn_raw = trim raw, pn_poolAddress = toBase58 (sn_poolAddress note),
          pn_denominationLamports = sn_denomination note, pn_denominationSol = fl (of_int (rnd (sn_denomination note)) / 10 ^ 9)\<rparr>)"

definition FEE_SANITY_LAMPORTS :: int where "FEE_SANITY_LAMPORTS = 50000000"

definition feeLooksExcessive :: "fee_breakdown option \<Rightarrow> bool" where
  "feeLooksExcessive breakdown = (case breakdown of None \<Rightarrow> False | Some b \<Rightarrow> FEE_SANITY_LAMPORTS < fb_relayerFeeMax b)"

text \<open>
  A quote as \<open>fetchFeeQuote\<close> returns it: the body, and its validUntil as a comparison with a number
  reads it. The constructor of public keys is a parameter.
\<close>

type_synonym raw_quote = "json \<times> number_field"

definition read_quote :: "(json \<Rightarrow> pubkey js) \<Rightarrow> raw_quote \<Rightarrow> client_quote js" where
  "read_quote newKey raw =
     js_bind (newKey (js_get (fst raw) ''relayerAddress'')) (\<lambda>relayer.
     js_bind (json_bigint (js_get (fst raw) ''relayerFeeMax'')) (\<lambda>feeMax.
     js_bind (json_bigint (js_get (fst raw) ''estimatedUserReceives'')) (\<lambda>receives.
     Returns \<lparr>cq_relayerAddress = relayer, cq_relayerFeeMax = feeMax,
       cq_validUntil = field_number (snd raw), cq_estimatedUserReceives = Some receives\<rparr>)))"

definition need_pool :: "int option \<Rightarrow> int js" where
  "need_pool poolDenomination =
     (case poolDenomination of
        None \<Rightarrow> Throws ''The pool has not been read yet, so the amount it pays is unknown. Try again in a moment.''
      | Some d \<Rightarrow> Returns d)"

text \<open>\<open>handleNext\<close> on the recipient screen: the breakdown shown on the confirm screen, or the error.\<close>

definition review_quote :: "(json \<Rightarrow> pubkey js) \<Rightarrow> (string \<Rightarrow> pubkey js) \<Rightarrow> string \<Rightarrow> unit js \<Rightarrow> raw_quote js \<Rightarrow> int option \<Rightarrow> js_num
    \<Rightarrow> fee_breakdown js" where
  "review_quote newKey newKeyText recipient cluster fetched poolDenomination now =
     (case newKeyText recipient of
        Throws e \<Rightarrow> Throws ''Enter a valid Solana wallet address.''
      | Returns k \<Rightarrow>
          js_bind cluster (\<lambda>u. js_bind fetched (\<lambda>raw. js_bind (read_quote newKey raw) (\<lambda>quote.
          js_bind (need_pool poolDenomination) (\<lambda>d. validateFeeQuote d quote None now)))))"

subsection \<open>One attempt\<close>

record submission =
  sb_proof :: json
  sb_signals :: "string list"
  sb_poolAddress :: string
  sb_recipient :: string
  sb_relayerFeeMax :: json

record withdraw_world =
  ww_cluster :: "unit js"
  ww_poseidon :: "unit js"
  ww_quote :: "raw_quote js"
  ww_tree :: "merkle_tree js"
  ww_prove :: "circuit_inputs \<Rightarrow> (json \<times> string list) js"
  ww_submit :: "submission \<Rightarrow> json js"
  ww_confirm :: "string \<Rightarrow> pubkey \<Rightarrow> int \<Rightarrow> unit js"
  ww_now :: js_num

text \<open>What is fixed across attempts: the page's state and the libraries.\<close>

record withdraw_page =
  wg_hash :: "int list \<Rightarrow> int"
  wg_parse :: "string \<Rightarrow> pubkey js"
  wg_toBase58 :: "pubkey \<Rightarrow> string"
  wg_newKey :: "json \<Rightarrow> pubkey js"
  wg_note :: string
  wg_recipient :: string
  wg_shownCeiling :: "int option"
  wg_poolDenomination :: "int option"

text \<open>Up to the submission, with the pool and the first public signal that the confirmation will use.\<close>

definition prepare_withdraw :: "withdraw_page \<Rightarrow> withdraw_world \<Rightarrow> (submission \<times> pubkey \<times> int) js" where
  "prepare_withdraw P W =
     js_bind (ww_cluster W) (\<lambda>u.
     js_bind (decodeNote (wg_parse P) (wg_note P)) (\<lambda>note.
     js_bind (ww_poseidon W) (\<lambda>u.
     js_bind (ww_quote W) (\<lambda>raw.
     js_bind (ww_tree W) (\<lambda>tree.
     js_bind (read_quote (wg_newKey P) raw) (\<lambda>quote.
     js_bind (case wg_shownCeiling P of
         None \<Rightarrow> Throws ''Internal error: no fee ceiling was recorded from the confirmation screen.''
       | Some c \<Rightarrow> Returns c) (\<lambda>ceiling.
     js_bind (need_pool (wg_poolDenomination P)) (\<lambda>d.
     js_bind (validateFeeQuote d quote (Some ceiling) (ww_now W)) (\<lambda>b.
     js_bind (wg_parse P (wg_recipient P)) (\<lambda>recipient.
     js_bind (generateWithdrawProof (wg_hash P) (ww_prove W) note (cq_relayerAddress quote) (cq_relayerFeeMax quote) recipient tree) (\<lambda>proof.
     Returns (\<lparr>sb_proof = wp_proof proof, sb_signals = map show_int (wp_signals proof),
        sb_poolAddress = wg_toBase58 P (sn_poolAddress note), sb_recipient = wg_recipient P,
        sb_relayerFeeMax = js_get (fst raw) ''relayerFeeMax''\<rparr>, sn_poolAddress note, wp_signals proof ! 0))))))))))))"

text \<open>From the submission on: the signature and the fee taken.\<close>

definition finish_withdraw :: "withdraw_world \<Rightarrow> submission \<times> pubkey \<times> int \<Rightarrow> (json \<times> json) js" where
  "finish_withdraw W prepared =
     (case prepared of (sub, pool, nullifierHash) \<Rightarrow>
        js_bind (ww_submit W sub) (\<lambda>result.
        js_bind (ww_confirm W (js_to_string (js_get result ''txSignature'')) pool nullifierHash) (\<lambda>u.
        Returns (js_get result ''txSignature'', js_get result ''feeTaken''))))"

subsection \<open>Errors and retries\<close>

datatype withdraw_error =
    RelayerUnreachable | QuoteFailed | CommitmentMissing | InvalidAddressErr | NullifierSpentErr | InvalidProofErr
  | StaleRootErr | InvalidCommitmentErr | FeeExceedsErr | FeeInvariantErr | RelayerFundsErr | BlockhashErr
  | AccountMissingErr | SimulationErr | RelayerBusyErr | OtherWithdrawError

text \<open>The chain of tests on the message: the first that matches counts.\<close>

fun first_match :: "string \<Rightarrow> (string list \<times> withdraw_error) list \<Rightarrow> withdraw_error" where
  "first_match msg [] = OtherWithdrawError"
| "first_match msg ((keys, e) # rest) = (if \<exists>k\<in>set keys. str_includes msg k then e else first_match msg rest)"

definition withdraw_errors :: "(string list \<times> withdraw_error) list" where
  "withdraw_errors =
     [([''Failed to fetch'', ''NetworkError''], RelayerUnreachable), ([''fee_quote'', ''Fee quote''], QuoteFailed),
      ([''Commitment not found''], CommitmentMissing), ([''InvalidAddress''], InvalidAddressErr),
      ([''NullifierSpent''], NullifierSpentErr), ([''InvalidProof''], InvalidProofErr),
      ([''StaleRoot'', ''RootNotFound''], StaleRootErr), ([''InvalidWithdrawalCommitment''], InvalidCommitmentErr),
      ([''RelayerFeeExceedsMax''], FeeExceedsErr), ([''FeeInvariantViolated''], FeeInvariantErr),
      ([''RelayerInsufficientFunds''], RelayerFundsErr), ([''BlockhashExpired''], BlockhashErr),
      ([''AccountNotFound''], AccountMissingErr), ([''SimulationFailed''], SimulationErr),
      ([''RelayerBusy'', ''TooManyRequests''], RelayerBusyErr)]"

definition classify_withdraw :: "string \<Rightarrow> withdraw_error" where
  "classify_withdraw msg = first_match msg withdraw_errors"

definition MAX_STALE_ROOT_RETRIES :: nat where "MAX_STALE_ROOT_RETRIES = 2"

datatype withdraw_end = WithdrawDone json json | WithdrawFailed withdraw_error string

text \<open>
  \<open>executeWithdraw(attempt)\<close>, with the worlds the attempts meet and the submissions made, in order.
\<close>

function executeWithdraw :: "withdraw_page \<Rightarrow> (nat \<Rightarrow> withdraw_world) \<Rightarrow> nat \<Rightarrow> withdraw_end \<times> submission list" where
  "executeWithdraw P W attempt =
     (let sent = (case prepare_withdraw P (W attempt) of Throws e \<Rightarrow> [] | Returns p \<Rightarrow> [fst p]) in
      case js_bind (prepare_withdraw P (W attempt)) (finish_withdraw (W attempt)) of
        Returns (sig, fee) \<Rightarrow> (WithdrawDone sig fee, sent)
      | Throws msg \<Rightarrow>
          if classify_withdraw msg = StaleRootErr \<and> attempt < MAX_STALE_ROOT_RETRIES
          then (case executeWithdraw P W (attempt + 1) of (r, later) \<Rightarrow> (r, sent @ later))
          else (WithdrawFailed (classify_withdraw msg) msg, sent))"
  by pat_completeness auto
termination by (relation "measure (\<lambda>(P, W, attempt). MAX_STALE_ROOT_RETRIES - attempt)") auto

declare executeWithdraw.simps [simp del]

subsection \<open>The user's terms are kept\<close>

lemma read_quote_fee: "read_quote newKey raw = Returns q \<Longrightarrow> json_bigint (js_get (fst raw) ''relayerFeeMax'') = Returns (cq_relayerFeeMax q)"
  by (auto simp: read_quote_def js_bind_eq_Returns)

lemma validateFeeQuote_ceiling:
  assumes "validateFeeQuote d q (Some c) now = Returns b"
  shows "0 \<le> cq_relayerFeeMax q \<and> cq_relayerFeeMax q \<le> c \<and> 0 < d - d div 500 - cq_relayerFeeMax q"
  using assms by (auto simp: validateFeeQuote_def js_bind_eq_Returns Let_def client_treasury_fee_eq split: if_splits)

text \<open>
  What the user is promised of a submission: the recipient typed on the page, and a fee within the
  ceiling that leaves a positive amount; and that the proof it carries came from a call of the prover
  for exactly these terms: the typed recipient, that same fee, the relayer of the attempt's quote, and
  the numbers of the pasted note, whose pool is the one submitted to.
\<close>

definition proof_binds :: "withdraw_page \<Rightarrow> withdraw_world \<Rightarrow> int \<Rightarrow> submission \<Rightarrow> bool" where
  "proof_binds P W m s \<longleftrightarrow> (\<exists>note recipient raw relayer ci sigs ns. decodeNote (wg_parse P) (wg_note P) = Returns note
     \<and> wg_parse P (wg_recipient P) = Returns recipient
     \<and> ww_quote W = Returns raw \<and> wg_newKey P (js_get (fst raw) ''relayerAddress'') = Returns relayer
     \<and> ww_prove W ci = Returns (sb_proof s, sigs) \<and> list_all2 (\<lambda>t n. string_bigint_js t = Returns n) (take 3 sigs) ns
     \<and> sb_signals s = map show_int ns \<and> length ns = 3 \<and> sb_poolAddress s = wg_toBase58 P (sn_poolAddress note)
     \<and> ci_nullifierHash ci = show_int (wg_hash P [sn_nullifier note]) \<and> ci_nullifier ci = show_int (sn_nullifier note)
     \<and> ci_secret ci = show_int (sn_secret note) \<and> ci_denomination ci = show_int (sn_denomination note)
     \<and> ci_recipient ci = show_int (pubkeyToField (wg_hash P) recipient)
     \<and> ci_relayerAddress ci = show_int (pubkeyToField (wg_hash P) relayer) \<and> ci_relayerFeeMax ci = show_int m
     \<and> ci_withdrawalCommitment ci = show_int (wg_hash P [pubkeyToField (wg_hash P) relayer, m, pubkeyToField (wg_hash P) recipient]))"

definition within_terms :: "withdraw_page \<Rightarrow> withdraw_world \<Rightarrow> submission \<Rightarrow> bool" where
  "within_terms P W s \<longleftrightarrow> sb_recipient s = wg_recipient P
     \<and> (\<exists>c d m. wg_shownCeiling P = Some c \<and> wg_poolDenomination P = Some d
         \<and> json_bigint (sb_relayerFeeMax s) = Returns m \<and> 0 \<le> m \<and> m \<le> c \<and> 0 < d - d div 500 - m \<and> proof_binds P W m s)"

lemma prepare_withdraw_terms:
  assumes "prepare_withdraw P W = Returns p"
  shows "within_terms P W (fst p) \<and> ww_cluster W = Returns ()"
proof -
  obtain nt raw tree q c d b recipient w where s: "ww_cluster W = Returns ()" "decodeNote (wg_parse P) (wg_note P) = Returns nt"
      "ww_quote W = Returns raw" "read_quote (wg_newKey P) raw = Returns q" "wg_shownCeiling P = Some c"
      "wg_poolDenomination P = Some d" "validateFeeQuote d q (Some c) (ww_now W) = Returns b" "wg_parse P (wg_recipient P) = Returns recipient"
      "generateWithdrawProof (wg_hash P) (ww_prove W) nt (cq_relayerAddress q) (cq_relayerFeeMax q) recipient tree = Returns w"
      "fst p = \<lparr>sb_proof = wp_proof w, sb_signals = map show_int (wp_signals w), sb_poolAddress = wg_toBase58 P (sn_poolAddress nt),
         sb_recipient = wg_recipient P, sb_relayerFeeMax = js_get (fst raw) ''relayerFeeMax''\<rparr>"
    using assms by (auto simp: prepare_withdraw_def need_pool_def js_bind_eq_Returns split: option.splits)
  have relayer: "wg_newKey P (js_get (fst raw) ''relayerAddress'') = Returns (cq_relayerAddress q)"
    using s(4) by (auto simp: read_quote_def js_bind_eq_Returns)
  obtain ci sigs where g: "ww_prove W ci = Returns (wp_proof w, sigs)"
      "list_all2 (\<lambda>t n. string_bigint_js t = Returns n) (take 3 sigs) (wp_signals w)" "length (wp_signals w) = 3"
      "ci_nullifierHash ci = show_int (wg_hash P [sn_nullifier nt])" "ci_nullifier ci = show_int (sn_nullifier nt)"
      "ci_secret ci = show_int (sn_secret nt)" "ci_denomination ci = show_int (sn_denomination nt)"
      "ci_recipient ci = show_int (pubkeyToField (wg_hash P) recipient)"
      "ci_relayerAddress ci = show_int (pubkeyToField (wg_hash P) (cq_relayerAddress q))" "ci_relayerFeeMax ci = show_int (cq_relayerFeeMax q)"
      "ci_withdrawalCommitment ci = show_int (wg_hash P [pubkeyToField (wg_hash P) (cq_relayerAddress q), cq_relayerFeeMax q, pubkeyToField (wg_hash P) recipient])"
    by (rule generateWithdrawProof_terms [OF s(9)])
  have "proof_binds P W (cq_relayerFeeMax q) (fst p)"
    unfolding proof_binds_def using s(2,3,8) relayer g s(10)
    by (intro exI [of _ nt] exI [of _ recipient] exI [of _ raw] exI [of _ "cq_relayerAddress q"] exI [of _ ci] exI [of _ sigs]
        exI [of _ "wp_signals w"]) simp
  then show ?thesis
    using s(1,5,6,10) read_quote_fee [OF s(4)] validateFeeQuote_ceiling [OF s(7)] by (auto simp: within_terms_def)
qed

definition chain_confirmed :: "withdraw_page \<Rightarrow> withdraw_world \<Rightarrow> json \<Rightarrow> json \<Rightarrow> bool" where
  "chain_confirmed P W sig fee \<longleftrightarrow> (\<exists>sub pool h result. prepare_withdraw P W = Returns (sub, pool, h)
     \<and> ww_submit W sub = Returns result \<and> sig = js_get result ''txSignature'' \<and> fee = js_get result ''feeTaken''
     \<and> ww_confirm W (js_to_string sig) pool h = Returns ())"

lemma executeWithdraw_inv:
  assumes "executeWithdraw P W k = (r, subs)" "k \<le> 2"
  shows "length subs \<le> 3 - k \<and> (\<forall>s\<in>set subs. \<exists>j. k \<le> j \<and> j \<le> 2 \<and> within_terms P (W j) s)
    \<and> (\<forall>sig fee. r = WithdrawDone sig fee \<longrightarrow> (\<exists>j. k \<le> j \<and> j \<le> 2 \<and> chain_confirmed P (W j) sig fee))
    \<and> (\<forall>e msg. r = WithdrawFailed e msg \<longrightarrow> e = classify_withdraw msg)"
  using assms
proof (induction P W k arbitrary: r subs rule: executeWithdraw.induct)
  case (1 P W k)
  define sent where "sent = (case prepare_withdraw P (W k) of Throws e \<Rightarrow> [] | Returns p \<Rightarrow> [fst p])"
  have sent: "length sent \<le> 1" "\<forall>s\<in>set sent. within_terms P (W k) s"
    using prepare_withdraw_terms [of P "W k"] by (cases "prepare_withdraw P (W k)"; simp add: sent_def)+
  note ex = 1(2) [unfolded executeWithdraw.simps [of P W k], folded sent_def]
  show ?case
  proof (cases "js_bind (prepare_withdraw P (W k)) (finish_withdraw (W k))")
    case (Returns x)
    obtain sig fee where x: "x = (sig, fee)" by fastforce
    have "r = WithdrawDone sig fee" "subs = sent" using ex Returns by (simp_all add: x sent_def Let_def)
    moreover have "chain_confirmed P (W k) sig fee"
      using Returns by (auto simp: x chain_confirmed_def finish_withdraw_def js_bind_eq_Returns)
    ultimately show ?thesis using sent 1(3) by force
  next
    case (Throws msg)
    show ?thesis
    proof (cases "classify_withdraw msg = StaleRootErr \<and> k < MAX_STALE_ROOT_RETRIES")
      case True
      obtain r' later where rec: "executeWithdraw P W (k + 1) = (r', later)" by fastforce
      have e: "r = r'" "subs = sent @ later" using ex Throws True rec by (simp_all add: Let_def sent_def)
      have "k + 1 \<le> 2" using True by (simp add: MAX_STALE_ROOT_RETRIES_def)
      then have ih: "length later \<le> 3 - (k + 1) \<and> (\<forall>s\<in>set later. \<exists>j. k + 1 \<le> j \<and> j \<le> 2 \<and> within_terms P (W j) s)
          \<and> (\<forall>sig fee. r' = WithdrawDone sig fee \<longrightarrow> (\<exists>j. k + 1 \<le> j \<and> j \<le> 2 \<and> chain_confirmed P (W j) sig fee))
          \<and> (\<forall>e msg. r' = WithdrawFailed e msg \<longrightarrow> e = classify_withdraw msg)"
        by (rule 1(1) [OF sent_def Throws True rec])
      have "\<exists>j. k \<le> j \<and> j \<le> 2 \<and> chain_confirmed P (W j) sig fee" if "r = WithdrawDone sig fee" for sig fee
        using ih that e(1) by (metis add_leD1)
      moreover have "length (sent @ later) \<le> 3 - k" using conjunct1 [OF ih] sent(1) True unfolding MAX_STALE_ROOT_RETRIES_def length_append by linarith
      moreover have "\<exists>j. k \<le> j \<and> j \<le> 2 \<and> within_terms P (W j) s" if "s \<in> set (sent @ later)" for s
      proof (cases "s \<in> set sent")
        case False
        then obtain j where "k + 1 \<le> j" "j \<le> 2" "within_terms P (W j) s" using ih \<open>s \<in> set (sent @ later)\<close> by auto
        then show ?thesis by (intro exI [of _ j]) simp
      qed (use sent(2) 1(3) in blast)
      ultimately show ?thesis using ih e by auto
    next
      case False
      then have "r = WithdrawFailed (classify_withdraw msg) msg" "subs = sent" using ex Throws by (auto simp: Let_def sent_def)
      then show ?thesis using sent 1(3) by auto
    qed
  qed
qed

text \<open>
  C14. A withdrawal keeps the terms the user saw: when the ceiling on the page came from reviewing a
  quote, every proof sent to the relayer, on any automatic retry, is sent for the recipient on the page
  and a fee between zero and that ceiling, itself at most 2% of the pool's denomination, so it leaves
  the user a positive amount; the prover was given exactly that recipient, that fee, the address of
  the relayer in that attempt's quote and the numbers of the pasted note, in the inputs and in the
  commitment that binds them, and what is sent is its proof, its signals and the note's pool; at most
  three proofs are sent; and the page ends as done only after the cluster gate and a successful
  on-chain confirmation of the relayer's signature for this note.
\<close>

theorem withdrawal_keeps_terms:
  assumes "review_quote newKey newKeyText recipient cluster fetched (Some d) now = Returns b"
    and "wg_shownCeiling P = Some (fb_relayerFeeMax b)" "wg_poolDenomination P = Some d"
    and "executeWithdraw P W 0 = (r, subs)"
  shows "length subs \<le> 3 \<and> 0 \<le> fb_relayerFeeMax b \<and> fb_relayerFeeMax b \<le> d div 50
    \<and> (\<forall>s\<in>set subs. sb_recipient s = wg_recipient P \<and> (\<exists>m. json_bigint (sb_relayerFeeMax s) = Returns m
        \<and> 0 \<le> m \<and> m \<le> fb_relayerFeeMax b \<and> 0 < d - d div 500 - m
        \<and> (\<exists>j\<le>2. \<exists>note rcpt raw relayer ci sigs ns. decodeNote (wg_parse P) (wg_note P) = Returns note
           \<and> wg_parse P (wg_recipient P) = Returns rcpt
           \<and> ww_quote (W j) = Returns raw \<and> wg_newKey P (js_get (fst raw) ''relayerAddress'') = Returns relayer
           \<and> ww_prove (W j) ci = Returns (sb_proof s, sigs) \<and> list_all2 (\<lambda>t n. string_bigint_js t = Returns n) (take 3 sigs) ns
           \<and> sb_signals s = map show_int ns \<and> length ns = 3 \<and> sb_poolAddress s = wg_toBase58 P (sn_poolAddress note)
           \<and> ci_nullifierHash ci = show_int (wg_hash P [sn_nullifier note]) \<and> ci_nullifier ci = show_int (sn_nullifier note)
           \<and> ci_secret ci = show_int (sn_secret note) \<and> ci_denomination ci = show_int (sn_denomination note)
           \<and> ci_recipient ci = show_int (pubkeyToField (wg_hash P) rcpt)
           \<and> ci_relayerAddress ci = show_int (pubkeyToField (wg_hash P) relayer) \<and> ci_relayerFeeMax ci = show_int m
           \<and> ci_withdrawalCommitment ci = show_int (wg_hash P [pubkeyToField (wg_hash P) relayer, m, pubkeyToField (wg_hash P) rcpt]))))
    \<and> (\<forall>sig fee. r = WithdrawDone sig fee \<longrightarrow>
        (\<exists>j\<le>2. ww_cluster (W j) = Returns () \<and> chain_confirmed P (W j) sig fee))"
proof -
  obtain q where q: "validateFeeQuote d q None now = Returns b"
    using assms(1) by (auto simp: review_quote_def need_pool_def js_bind_eq_Returns split: js.splits)
  have b: "0 \<le> fb_relayerFeeMax b \<and> fb_relayerFeeMax b \<le> d div 50"
    using validateFeeQuote_characterised [of d q now] q by auto
  note inv = executeWithdraw_inv [OF assms(4)]
  have fin: "\<exists>j\<le>2. ww_cluster (W j) = Returns () \<and> chain_confirmed P (W j) sig fee" if "r = WithdrawDone sig fee" for sig fee
    using inv that prepare_withdraw_terms unfolding chain_confirmed_def by blast
  have sub: "sb_recipient s = wg_recipient P \<and> (\<exists>m. json_bigint (sb_relayerFeeMax s) = Returns m
        \<and> 0 \<le> m \<and> m \<le> fb_relayerFeeMax b \<and> 0 < d - d div 500 - m \<and> (\<exists>j\<le>2. proof_binds P (W j) m s))" if "s \<in> set subs" for s
  proof -
    obtain j where "j \<le> 2" "within_terms P (W j) s" using inv \<open>s \<in> set subs\<close> by auto
    then show ?thesis using assms(2,3) unfolding within_terms_def by auto
  qed
  show ?thesis
    using sub fin inv b unfolding proof_binds_def by (intro conjI ballI allI impI) simp_all
qed

text \<open>A page and a world in which the first attempt meets a stale root and the second succeeds.\<close>

definition example_page :: withdraw_page where
  "example_page = \<lparr>wg_hash = (\<lambda>xs. 7), wg_parse = parse_hex_key, wg_toBase58 = hex_key, wg_newKey = (\<lambda>j. Returns (replicate 32 1)),
     wg_note = encodeNote hex_key \<lparr>sn_nullifier = 1, sn_secret = 2, sn_denomination = 100000, sn_poolAddress = replicate 32 8\<rparr>,
     wg_recipient = hex_key (replicate 32 2), wg_shownCeiling = Some 150, wg_poolDenomination = Some 100000\<rparr>"

definition example_quote :: raw_quote where
  "example_quote = (JObj [(''relayerAddress'', JStr ''k''), (''relayerFeeMax'', JStr ''150''),
     (''estimatedUserReceives'', JStr ''99650'')], FieldNumber 9)"

definition example_world :: "nat \<Rightarrow> withdraw_world" where
  "example_world k = \<lparr>ww_cluster = Returns (), ww_poseidon = Returns (), ww_quote = Returns example_quote,
     ww_tree = Returns (build_tree (\<lambda>a b. 7) 2 [7]), ww_prove = (\<lambda>ci. Returns (JNull, [''1'', ''2'', ''3''])),
     ww_submit = (\<lambda>s. if k = 0 then Throws ''StaleRoot'' else Returns (JObj [(''txSignature'', JStr ''sig''), (''feeTaken'', JInt 3)])),
     ww_confirm = (\<lambda>s p h. Returns ()), ww_now = Finite 5\<rparr>"

definition example_breakdown :: fee_breakdown where
  "example_breakdown = \<lparr>fb_denomination = 100000, fb_treasuryFee = 200, fb_relayerFeeMax = 150, fb_userReceivesMin = 99650,
      fb_relayerFeePct = fl (fl (fl (of_int 150) / fl (of_int 100000)) * 100)\<rparr>"

definition example_read :: client_quote where
  "example_read = \<lparr>cq_relayerAddress = replicate 32 1, cq_relayerFeeMax = 150, cq_validUntil = Finite 9, cq_estimatedUserReceives = Some 99650\<rparr>"

lemma example_quote_reads: "read_quote (\<lambda>j. Returns (replicate 32 1)) example_quote = Returns example_read"
proof -
  have "json_bigint (JStr ''150'') = Returns 150" "json_bigint (JStr ''99650'') = Returns 99650" by code_simp+
  then show ?thesis
    using to_double_safe [of 9] by (simp add: read_quote_def example_quote_def example_read_def js_get_def field_number_def)
qed

lemma example_quote_valid: "m = None \<or> m = Some 150 \<Longrightarrow> validateFeeQuote 100000 example_read m (Finite 5) = Returns example_breakdown"
  by (auto simp: validateFeeQuote_def client_treasury_fee_def js_le_def MAX_RELAYER_FEE_DIVISOR_def sdiv_nonneg example_read_def example_breakdown_def)

lemma example_review:
  "review_quote (\<lambda>j. Returns (replicate 32 1)) parse_hex_key (wg_recipient example_page) (Returns ()) (Returns example_quote) (Some 100000) (Finite 5)
     = Returns example_breakdown"
proof -
  have "parse_hex_key (wg_recipient example_page) = Returns (replicate 32 2)" by code_simp
  then show ?thesis by (simp add: review_quote_def example_quote_reads need_pool_def example_quote_valid)
qed

lemma example_page_newKey: "wg_newKey example_page = (\<lambda>j. Returns (replicate 32 1))"
  by (simp add: example_page_def)

lemma example_run:
  "\<exists>subs. executeWithdraw example_page example_world 0 = (WithdrawDone (JStr ''sig'') (JInt 3), subs) \<and> subs \<noteq> []"
proof -
  let ?n = "\<lparr>sn_nullifier = 1, sn_secret = 2, sn_denomination = 100000, sn_poolAddress = replicate 32 8\<rparr>"
  have q: "read_quote (wg_newKey example_page) example_quote = Returns example_read"
    unfolding example_page_newKey by (rule example_quote_reads)
  have rk: "parse_hex_key (wg_recipient example_page) = Returns (replicate 32 2)" by code_simp
  have n: "decodeNote parse_hex_key (wg_note example_page) = Returns ?n" by code_simp
  have g: "generateWithdrawProof (\<lambda>xs. 7) (\<lambda>ci. Returns (JNull, [''1'', ''2'', ''3''])) ?n (replicate 32 1) 150 (replicate 32 2) (build_tree (\<lambda>a b. 7) 2 [7])
      = Returns \<lparr>wp_proof = JNull, wp_signals = [1, 2, 3]\<rparr>" by code_simp
  have p: "\<exists>x. prepare_withdraw example_page (example_world k) = Returns x" for k
    using n q rk example_quote_valid g
    by (simp add: prepare_withdraw_def need_pool_def) (simp add: example_world_def example_page_def example_read_def)
  then obtain x y where x: "prepare_withdraw example_page (example_world 0) = Returns x" "prepare_withdraw example_page (example_world 1) = Returns y"
    by blast
  have f: "finish_withdraw (example_world 0) x = Throws ''StaleRoot''" "finish_withdraw (example_world 1) y = Returns (JStr ''sig'', JInt 3)"
    by (cases x; simp add: finish_withdraw_def example_world_def) (cases y; simp add: finish_withdraw_def example_world_def js_get_def)
  have c: "classify_withdraw ''StaleRoot'' = StaleRootErr" by code_simp
  have "executeWithdraw example_page example_world 1 = (WithdrawDone (JStr ''sig'') (JInt 3), [fst y])"
    by (subst executeWithdraw.simps) (simp add: x f Let_def del: One_nat_def)
  then have e: "executeWithdraw example_page example_world 0 = (WithdrawDone (JStr ''sig'') (JInt 3), [fst x, fst y])"
    by (subst executeWithdraw.simps) (simp add: x f c MAX_STALE_ROOT_RETRIES_def Let_def del: One_nat_def)
  then show ?thesis by blast
qed

lemma withdrawal_keeps_terms_witness:
  "\<exists>subs. executeWithdraw example_page example_world 0 = (WithdrawDone (JStr ''sig'') (JInt 3), subs)
     \<and> subs \<noteq> [] \<and> (\<forall>s\<in>set subs. \<exists>m\<le>150. json_bigint (sb_relayerFeeMax s) = Returns m)"
proof -
  obtain subs where e: "executeWithdraw example_page example_world 0 = (WithdrawDone (JStr ''sig'') (JInt 3), subs)" "subs \<noteq> []"
    using example_run by blast
  have "wg_shownCeiling example_page = Some (fb_relayerFeeMax example_breakdown)" "wg_poolDenomination example_page = Some 100000"
    by (simp_all add: example_page_def example_breakdown_def)
  note t = withdrawal_keeps_terms [OF example_review this e(1)]
  then show ?thesis using e by (auto simp: example_breakdown_def)
qed

end
