(* ===== verification/WithdrawPage.thy ===== *)
theory WithdrawPage
  imports WithdrawFlow
begin

text \<open>
  The withdraw page around its handlers, app/src/pages/Withdraw.tsx: what the user types and clicks on
  each screen, with the quote request and the withdrawal as calls that end later. The pool's data, the
  cluster's state and the clock come with the events. What is proved: a withdrawal starts only for a
  recipient whose end the user typed and under a ceiling that a validated quote put on the screen; and
  where a quote that arrives late puts the figures of another note's pool on it.
\<close>

subsection \<open>The page\<close>

datatype withdraw_step = StepPaste | StepRecipient | StepReview | StepProgress | StepFinished

record page_state =
  wp_step :: withdraw_step
  wp_noteInput :: string
  wp_parsedNote :: "parsed_note option"
  wp_recipient :: string
  wp_noteError :: bool
  wp_recipientError :: bool
  wp_recipientTail :: string
  wp_progressError :: "string option"
  wp_txSig :: "json option"
  wp_feeTaken :: "json option"
  wp_breakdown :: "fee_breakdown option"
  wp_quoteLoading :: bool
  wp_quoteError :: "string option"

text \<open>
  The calls under way: a review with the note and the pool's denomination that were on the page when it
  started, and a withdrawal with the terms it was started with.
\<close>

record terms =
  tm_note :: parsed_note
  tm_recipient :: string
  tm_ceiling :: "int option"
  tm_denomination :: "int option"

datatype page_call = Reviewing parsed_note string "int option" | Withdrawing terms

record page =
  pg_state :: page_state
  pg_calls :: "nat \<Rightarrow> page_call option"
  pg_next :: nat

definition blank_page :: page_state where
  "blank_page = \<lparr>wp_step = StepPaste, wp_noteInput = [], wp_parsedNote = None, wp_recipient = [], wp_noteError = False,
     wp_recipientError = False, wp_recipientTail = [], wp_progressError = None, wp_txSig = None, wp_feeTaken = None,
     wp_breakdown = None, wp_quoteLoading = False, wp_quoteError = None\<rparr>"

definition open_page :: page where
  "open_page = \<lparr>pg_state = blank_page, pg_calls = (\<lambda>k. None), pg_next = 0\<rparr>"

definition set_page :: "(page_state \<Rightarrow> page_state) \<Rightarrow> page \<Rightarrow> page" where
  "set_page f p = p\<lparr>pg_state := f (pg_state p)\<rparr>"

definition start_call :: "page_call \<Rightarrow> page \<Rightarrow> page" where
  "start_call c p = p\<lparr>pg_calls := (pg_calls p)(pg_next p \<mapsto> c), pg_next := Suc (pg_next p)\<rparr>"

definition end_call :: "nat \<Rightarrow> page \<Rightarrow> page" where
  "end_call k p = p\<lparr>pg_calls := (pg_calls p)(k := None)\<rparr>"

subsection \<open>The screens\<close>

definition type_note :: "string \<Rightarrow> page \<Rightarrow> page option" where
  "type_note s p =
     (if wp_step (pg_state p) = StepPaste then Some (set_page (\<lambda>g. g\<lparr>wp_noteInput := s, wp_noteError := False\<rparr>) p) else None)"

text \<open>\<open>handleNext\<close> of the first screen.\<close>

definition note_next :: "(string \<Rightarrow> parsed_note option) \<Rightarrow> bool \<Rightarrow> page \<Rightarrow> page option" where
  "note_next parse allowed p =
     (let g = pg_state p in
      if wp_step g = StepPaste \<and> trim (wp_noteInput g) \<noteq> [] \<and> allowed then
        (case parse (wp_noteInput g) of
           None \<Rightarrow> Some (set_page (\<lambda>g. g\<lparr>wp_noteError := True\<rparr>) p)
         | Some n \<Rightarrow> Some (set_page (\<lambda>g. g\<lparr>wp_parsedNote := Some n, wp_noteError := False, wp_step := StepRecipient\<rparr>) p))
      else None)"

definition type_recipient :: "string \<Rightarrow> page \<Rightarrow> page option" where
  "type_recipient s p =
     (if wp_step (pg_state p) = StepRecipient
      then Some (set_page (\<lambda>g. g\<lparr>wp_recipient := s, wp_recipientError := False, wp_recipientTail := []\<rparr>) p) else None)"

text \<open>\<open>handleNext\<close> of the second screen, up to its first await.\<close>

definition recipient_next :: "(string \<Rightarrow> bool) \<Rightarrow> bool \<Rightarrow> int option \<Rightarrow> page \<Rightarrow> page option" where
  "recipient_next valid_address allowed poolDenomination p =
     (let g = pg_state p in
      if wp_step g = StepRecipient \<and> trim (wp_recipient g) \<noteq> [] \<and> \<not> wp_quoteLoading g \<and> allowed then
        (if \<not> valid_address (wp_recipient g) then Some (set_page (\<lambda>g. g\<lparr>wp_recipientError := True\<rparr>) p)
         else case wp_parsedNote g of
             None \<Rightarrow> Some p
           | Some n \<Rightarrow>
               Some (start_call (Reviewing n (wp_recipient g) poolDenomination)
                 (set_page (\<lambda>g. g\<lparr>wp_recipientError := False, wp_quoteLoading := True, wp_quoteError := None\<rparr>) p)))
      else None)"

text \<open>The rest of it, when the gate and the relayer have answered.\<close>

definition review_ends :: "nat \<Rightarrow> (json \<Rightarrow> pubkey js) \<Rightarrow> (string \<Rightarrow> pubkey js) \<Rightarrow> unit js \<Rightarrow> raw_quote js \<Rightarrow> js_num \<Rightarrow> page \<Rightarrow> page option" where
  "review_ends k newKey newKeyText cluster fetched now p =
     (case pg_calls p k of
        Some (Reviewing n recipient poolDenomination) \<Rightarrow>
          (case review_quote newKey newKeyText recipient cluster fetched poolDenomination now of
             Returns b \<Rightarrow> Some (end_call k (set_page (\<lambda>g. g\<lparr>wp_breakdown := Some b, wp_step := StepReview, wp_quoteLoading := False\<rparr>) p))
           | Throws e \<Rightarrow> Some (end_call k (set_page (\<lambda>g. g\<lparr>wp_quoteError := Some e, wp_quoteLoading := False\<rparr>) p)))
      | _ \<Rightarrow> None)"

definition back_link :: "page \<Rightarrow> page option" where
  "back_link p =
     (case wp_step (pg_state p) of
        StepRecipient \<Rightarrow> Some (set_page (\<lambda>g. g\<lparr>wp_step := StepPaste\<rparr>) p)
      | StepReview \<Rightarrow> Some (set_page (\<lambda>g. g\<lparr>wp_step := StepRecipient\<rparr>) p)
      | _ \<Rightarrow> None)"

definition type_tail :: "string \<Rightarrow> page \<Rightarrow> page option" where
  "type_tail s p = (if wp_step (pg_state p) = StepReview then Some (set_page (\<lambda>g. g\<lparr>wp_recipientTail := s\<rparr>) p) else None)"

text \<open>
  The Withdraw button, and Retry under an error: \<open>executeWithdraw(0)\<close> up to its first await, with the
  note, recipient, ceiling and denomination of this rendering.
\<close>

definition withdraw_click :: "bool \<Rightarrow> int option \<Rightarrow> page \<Rightarrow> page option" where
  "withdraw_click allowed poolDenomination p =
     (let g = pg_state p in
      if (wp_step g = StepReview \<or> wp_step g = StepProgress \<and> (case wp_progressError g of None \<Rightarrow> False | Some e \<Rightarrow> e \<noteq> []))
         \<and> allowed \<and> recipientConfirmed (wp_recipient g) (wp_recipientTail g) then
        (case wp_parsedNote g of
           None \<Rightarrow> Some p
         | Some n \<Rightarrow>
             Some (start_call (Withdrawing \<lparr>tm_note = n, tm_recipient = wp_recipient g,
                 tm_ceiling = map_option fb_relayerFeeMax (wp_breakdown g), tm_denomination = poolDenomination\<rparr>)
               (set_page (\<lambda>g. g\<lparr>wp_step := StepProgress, wp_progressError := None\<rparr>) p)))
      else None)"

text \<open>\<open>x || null\<close>.\<close>

definition or_null :: "json \<Rightarrow> json option" where
  "or_null j = (if js_truthy j then Some j else None)"

definition withdraw_ends :: "nat \<Rightarrow> withdraw_end \<Rightarrow> page \<Rightarrow> page option" where
  "withdraw_ends k r p =
     (case pg_calls p k of
        Some (Withdrawing t) \<Rightarrow>
          (case r of
             WithdrawDone sig fee \<Rightarrow> Some (end_call k (set_page (\<lambda>g. g\<lparr>wp_txSig := or_null sig, wp_feeTaken := or_null fee, wp_step := StepFinished\<rparr>) p))
           | WithdrawFailed e msg \<Rightarrow> Some (end_call k (set_page (\<lambda>g. g\<lparr>wp_progressError := Some msg\<rparr>) p)))
      | _ \<Rightarrow> None)"

definition back_to_details :: "page \<Rightarrow> page option" where
  "back_to_details p =
     (if wp_step (pg_state p) = StepProgress \<and> (case wp_progressError (pg_state p) of None \<Rightarrow> False | Some e \<Rightarrow> e \<noteq> [])
      then Some (set_page (\<lambda>g. g\<lparr>wp_step := StepReview, wp_progressError := None\<rparr>) p) else None)"

definition new_withdrawal :: "page \<Rightarrow> page option" where
  "new_withdrawal p =
     (if wp_step (pg_state p) = StepFinished
      then Some (set_page (\<lambda>g. g\<lparr>wp_step := StepPaste, wp_noteInput := [], wp_parsedNote := None, wp_recipient := [], wp_txSig := None,
             wp_feeTaken := None, wp_breakdown := None, wp_quoteError := None\<rparr>) p) else None)"

lemmas withdraw_handlers = type_note_def note_next_def type_recipient_def recipient_next_def review_ends_def back_link_def type_tail_def
  withdraw_click_def withdraw_ends_def back_to_details_def new_withdrawal_def set_page_def start_call_def end_call_def Let_def

datatype page_event =
    TypeNote string
  | NoteNext bool
  | TypeRecipient string
  | RecipientNext bool "int option"
  | ReviewEnds nat "unit js" "raw_quote js" js_num
  | BackLink
  | TypeTail string
  | WithdrawClick bool "int option"
  | WithdrawEnds nat withdraw_end
  | BackToDetails
  | NewWithdrawal

text \<open>The libraries: base58 keys, and the constructor of a public key from a JSON value.\<close>

record key_lib =
  kl_parse :: "string \<Rightarrow> pubkey js"
  kl_toBase58 :: "pubkey \<Rightarrow> string"
  kl_newKey :: "json \<Rightarrow> pubkey js"

definition isValidSolanaAddress :: "key_lib \<Rightarrow> string \<Rightarrow> bool" where
  "isValidSolanaAddress lib addr = (case kl_parse lib addr of Returns k \<Rightarrow> True | Throws e \<Rightarrow> False)"

fun page_step :: "key_lib \<Rightarrow> page_event \<Rightarrow> page \<Rightarrow> page option" where
  "page_step lib (TypeNote s) p = type_note s p"
| "page_step lib (NoteNext allowed) p = note_next (parseNote (kl_parse lib) (kl_toBase58 lib)) allowed p"
| "page_step lib (TypeRecipient s) p = type_recipient s p"
| "page_step lib (RecipientNext allowed d) p = recipient_next (isValidSolanaAddress lib) allowed d p"
| "page_step lib (ReviewEnds k cluster fetched now) p = review_ends k (kl_newKey lib) (kl_parse lib) cluster fetched now p"
| "page_step lib BackLink p = back_link p"
| "page_step lib (TypeTail s) p = type_tail s p"
| "page_step lib (WithdrawClick allowed d) p = withdraw_click allowed d p"
| "page_step lib (WithdrawEnds k r) p = withdraw_ends k r p"
| "page_step lib BackToDetails p = back_to_details p"
| "page_step lib NewWithdrawal p = new_withdrawal p"

fun page_run :: "key_lib \<Rightarrow> page_event list \<Rightarrow> page \<Rightarrow> page option" where
  "page_run lib [] p = Some p"
| "page_run lib (e # es) p = (case page_step lib e p of None \<Rightarrow> None | Some p' \<Rightarrow> page_run lib es p')"

lemma page_run_snoc: "page_run lib (es @ [e]) p = (case page_run lib es p of None \<Rightarrow> None | Some p' \<Rightarrow> page_step lib e p')"
  by (induction lib es p rule: page_run.induct) (auto split: option.splits)

subsection \<open>What a withdrawal is started with\<close>

text \<open>A breakdown that a reviewed quote gave, and a recipient whose last characters were typed.\<close>

definition reviewed :: "key_lib \<Rightarrow> page_event list \<Rightarrow> fee_breakdown \<Rightarrow> bool" where
  "reviewed lib es b \<longleftrightarrow> (\<exists>k cluster fetched now recipient d. ReviewEnds k cluster fetched now \<in> set es
     \<and> review_quote (kl_newKey lib) (kl_parse lib) recipient cluster fetched (Some d) now = Returns b)"

definition typed_end :: "page_event list \<Rightarrow> string \<Rightarrow> bool" where
  "typed_end es recipient \<longleftrightarrow> (\<exists>s. TypeTail s \<in> set es \<and> recipientConfirmed recipient s)"

definition typed_note :: "key_lib \<Rightarrow> page_event list \<Rightarrow> parsed_note \<Rightarrow> bool" where
  "typed_note lib es n \<longleftrightarrow> (\<exists>s. TypeNote s \<in> set es \<and> parseNote (kl_parse lib) (kl_toBase58 lib) s = Some n)"

definition terms_ok :: "key_lib \<Rightarrow> page_event list \<Rightarrow> terms \<Rightarrow> bool" where
  "terms_ok lib es t \<longleftrightarrow> typed_note lib es (tm_note t) \<and> typed_end es (tm_recipient t)
     \<and> (\<exists>b. reviewed lib es b \<and> tm_ceiling t = Some (fb_relayerFeeMax b))"

definition page_inv :: "key_lib \<Rightarrow> page_event list \<Rightarrow> page \<Rightarrow> bool" where
  "page_inv lib es p \<longleftrightarrow>
     (\<forall>k t. pg_calls p k = Some (Withdrawing t) \<longrightarrow> terms_ok lib es t)
     \<and> (\<forall>b. wp_breakdown (pg_state p) = Some b \<longrightarrow> reviewed lib es b)
     \<and> (wp_step (pg_state p) \<in> {StepReview, StepProgress} \<longrightarrow> wp_breakdown (pg_state p) \<noteq> None)
     \<and> (wp_recipientTail (pg_state p) \<noteq> [] \<longrightarrow> TypeTail (wp_recipientTail (pg_state p)) \<in> set es)
     \<and> (wp_noteInput (pg_state p) \<noteq> [] \<longrightarrow> TypeNote (wp_noteInput (pg_state p)) \<in> set es)
     \<and> (\<forall>n. wp_parsedNote (pg_state p) = Some n \<longrightarrow> typed_note lib es n)"

lemma monotone_facts:
  "reviewed lib es b \<Longrightarrow> reviewed lib (es @ [e]) b" "typed_end es r \<Longrightarrow> typed_end (es @ [e]) r"
  "typed_note lib es n \<Longrightarrow> typed_note lib (es @ [e]) n"
proof -
  have "set es \<subseteq> set (es @ [e])" by auto
  then show "reviewed lib es b \<Longrightarrow> reviewed lib (es @ [e]) b" "typed_end es r \<Longrightarrow> typed_end (es @ [e]) r"
      "typed_note lib es n \<Longrightarrow> typed_note lib (es @ [e]) n"
    unfolding reviewed_def typed_end_def typed_note_def by blast+
qed

lemma terms_ok_snoc: "terms_ok lib es t \<Longrightarrow> terms_ok lib (es @ [e]) t"
  unfolding terms_ok_def using monotone_facts by blast

lemma page_inv_snoc: "page_inv lib es p \<Longrightarrow> page_inv lib (es @ [e]) p"
  unfolding page_inv_def using monotone_facts terms_ok_snoc by simp

lemma review_needs_pool: "review_quote nk pk r c f d now = Returns b \<Longrightarrow> \<exists>x. d = Some x"
  by (cases d) (auto simp: review_quote_def need_pool_def js_bind_eq_Returns split: js.splits)

lemma reviewed_now:
  "review_quote (kl_newKey lib) (kl_parse lib) recipient cluster fetched d now = Returns b
     \<Longrightarrow> reviewed lib (es @ [ReviewEnds k cluster fetched now]) b"
  using review_needs_pool unfolding reviewed_def by fastforce

lemma not_confirmed_empty: "recipientConfirmed r s \<Longrightarrow> s \<noteq> []"
  by (auto simp: recipientConfirmed_def Let_def CONFIRM_CHARS_def trim_def)

lemma page_inv_step:
  assumes "page_inv lib es p" "page_step lib e p = Some p'"
  shows "page_inv lib (es @ [e]) p'"
proof (cases e)
  case (WithdrawClick allowed d)
  note i = page_inv_snoc [OF assms(1), of e]
  have c: "recipientConfirmed (wp_recipient (pg_state p)) (wp_recipientTail (pg_state p))"
      "wp_step (pg_state p) \<in> {StepReview, StepProgress}"
    using assms(2) WithdrawClick by (auto simp: withdraw_handlers split: if_splits)
  obtain b where b: "wp_breakdown (pg_state p) = Some b" "reviewed lib (es @ [e]) b"
    using i c(2) by (auto simp: page_inv_def)
  have t: "typed_end (es @ [e]) (wp_recipient (pg_state p))"
    using i c(1) not_confirmed_empty [OF c(1)] unfolding page_inv_def typed_end_def by blast
  show ?thesis
  proof (cases "wp_parsedNote (pg_state p)")
    case None
    then have "p' = p" using assms(2) WithdrawClick by (simp add: withdraw_click_def Let_def split: if_splits)
    then show ?thesis using i by simp
  next
    case (Some n)
    let ?t = "\<lparr>tm_note = n, tm_recipient = wp_recipient (pg_state p), tm_ceiling = map_option fb_relayerFeeMax (wp_breakdown (pg_state p)),
        tm_denomination = d\<rparr>"
    have "terms_ok lib (es @ [e]) ?t" using i b t Some by (auto simp: terms_ok_def page_inv_def)
    moreover have "p' = start_call (Withdrawing ?t) (set_page (\<lambda>g. g\<lparr>wp_step := StepProgress, wp_progressError := None\<rparr>) p)"
      using assms(2) WithdrawClick Some by (simp add: withdraw_click_def Let_def split: if_splits)
    ultimately show ?thesis using i b(1) by (simp add: page_inv_def start_call_def set_page_def)
  qed
next
  case (ReviewEnds k cluster fetched now)
  then obtain n recipient d where c: "pg_calls p k = Some (Reviewing n recipient d)"
    using assms(2) by (auto simp: review_ends_def split: option.splits page_call.splits)
  note i = page_inv_snoc [OF assms(1), of e]
  show ?thesis
  proof (cases "review_quote (kl_newKey lib) (kl_parse lib) recipient cluster fetched d now")
    case (Throws x)
    then have "p' = end_call k (set_page (\<lambda>g. g\<lparr>wp_quoteError := Some x, wp_quoteLoading := False\<rparr>) p)"
      using assms(2) c ReviewEnds by (simp add: review_ends_def)
    then show ?thesis using i by (simp add: page_inv_def end_call_def set_page_def)
  next
    case (Returns b)
    then have "reviewed lib (es @ [e]) b" using reviewed_now ReviewEnds by blast
    moreover have "p' = end_call k (set_page (\<lambda>g. g\<lparr>wp_breakdown := Some b, wp_step := StepReview, wp_quoteLoading := False\<rparr>) p)"
      using assms(2) c ReviewEnds Returns by (simp add: review_ends_def)
    ultimately show ?thesis using i by (simp add: page_inv_def end_call_def set_page_def)
  qed
next
  case (NoteNext allowed)
  have "parseNote (kl_parse lib) (kl_toBase58 lib) (wp_noteInput (pg_state p)) = Some n \<Longrightarrow> trim (wp_noteInput (pg_state p)) \<noteq> []
      \<Longrightarrow> typed_note lib (es @ [e]) n" for n
    using page_inv_snoc [OF assms(1), of e] unfolding page_inv_def typed_note_def by (cases "wp_noteInput (pg_state p)") (auto simp: trim_def)
  then show ?thesis
    using assms(2) page_inv_snoc [OF assms(1), of e] NoteNext
    by (auto simp: withdraw_handlers page_inv_def split: option.splits if_splits)
qed (use assms(2) page_inv_snoc [OF assms(1), of e] in
    \<open>auto simp: withdraw_handlers page_inv_def split: if_splits option.splits withdraw_step.splits page_call.splits withdraw_end.splits\<close>)

lemma page_run_inv: "page_run lib es open_page = Some p \<Longrightarrow> page_inv lib es p"
proof (induction es arbitrary: p rule: rev_induct)
  case Nil
  then show ?case by (auto simp: page_inv_def open_page_def blank_page_def)
next
  case (snoc e es)
  then obtain q where q: "page_run lib es open_page = Some q" "page_step lib e q = Some p"
    unfolding page_run_snoc by (auto split: option.splits)
  show ?case by (rule page_inv_step [OF snoc.IH [OF q(1)] q(2)])
qed

lemma validateFeeQuote_denomination:
  assumes "validateFeeQuote d q None now = Returns b"
  shows "fb_denomination b = d"
proof -
  have "validateFeeQuote d q (Some c) now = Returns b \<Longrightarrow> fb_denomination b = d" for c
    by (auto simp: validateFeeQuote_def js_bind_eq_Returns Let_def client_treasury_fee_eq split: if_splits)
  moreover have "validateFeeQuote d q None now = validateFeeQuote d q (Some (d sdiv MAX_RELAYER_FEE_DIVISOR)) now"
    unfolding validateFeeQuote_def option.case ..
  ultimately show ?thesis using assms by simp
qed

lemma reviewed_bounds:
  assumes "reviewed lib es b"
  shows "0 \<le> fb_relayerFeeMax b \<and> fb_relayerFeeMax b \<le> fb_denomination b div 50"
proof -
  obtain nk pk rc cl f d now where "review_quote nk pk rc cl f (Some d) now = Returns b"
    using assms unfolding reviewed_def by blast
  then obtain q where q: "validateFeeQuote d q None now = Returns b"
    by (auto simp: review_quote_def need_pool_def js_bind_eq_Returns split: js.splits)
  then have "0 \<le> fb_relayerFeeMax b \<and> fb_relayerFeeMax b \<le> d div 50"
    using validateFeeQuote_characterised [of d q now] by auto
  then show ?thesis using validateFeeQuote_denomination [OF q] by simp
qed

text \<open>
  C13. A withdrawal is what the user asked for: through any typing, clicking and late answers, every
  withdrawal under way is of a note the user typed, to a recipient whose last characters the user typed
  on the review screen, and under the ceiling of a quote that passed validation and was put on the
  screen; so each proof it sends, retries included, is for that recipient and a fee within that ceiling,
  which is at most 2% of the denomination it was reviewed against.
\<close>

theorem withdrawal_is_what_was_asked:
  assumes "page_run lib es open_page = Some p" "pg_calls p k = Some (Withdrawing t)"
    and "wg_recipient P = tm_recipient t" "wg_shownCeiling P = tm_ceiling t" "wg_poolDenomination P = tm_denomination t"
    and "executeWithdraw P W 0 = (r, subs)"
  shows "typed_note lib es (tm_note t) \<and> typed_end es (tm_recipient t)
    \<and> (\<exists>b. reviewed lib es b \<and> 0 \<le> fb_relayerFeeMax b \<and> fb_relayerFeeMax b \<le> fb_denomination b div 50
        \<and> (\<forall>s\<in>set subs. sb_recipient s = tm_recipient t
            \<and> (\<exists>m. json_bigint (sb_relayerFeeMax s) = Returns m \<and> 0 \<le> m \<and> m \<le> fb_relayerFeeMax b)))"
proof -
  have t: "terms_ok lib es t" using page_run_inv [OF assms(1)] assms(2) by (auto simp: page_inv_def)
  then obtain b where b: "reviewed lib es b" "tm_ceiling t = Some (fb_relayerFeeMax b)" by (auto simp: terms_ok_def)
  have c: "wg_shownCeiling P = Some (fb_relayerFeeMax b)" using b(2) assms(4) by simp
  have "\<forall>s\<in>set subs. \<exists>j. within_terms P (W j) s" using executeWithdraw_inv [OF assms(6)] by auto
  then have "\<forall>s\<in>set subs. sb_recipient s = tm_recipient t
      \<and> (\<exists>m. json_bigint (sb_relayerFeeMax s) = Returns m \<and> 0 \<le> m \<and> m \<le> fb_relayerFeeMax b)"
    using c assms(3) by (auto simp: within_terms_def)
  with reviewed_bounds [OF b(1)] b(1) t show ?thesis unfolding terms_ok_def by blast
qed

text \<open>A page where one review and one withdrawal have been made.\<close>

definition example_lib :: key_lib where
  "example_lib = \<lparr>kl_parse = parse_hex_key, kl_toBase58 = hex_key, kl_newKey = (\<lambda>j. Returns (replicate 32 1))\<rparr>"

definition asked_events :: "page_event list" where
  "asked_events = [TypeNote (wg_note example_page), NoteNext True, TypeRecipient (wg_recipient example_page), RecipientNext True (Some 100000),
     ReviewEnds 0 (Returns ()) (Returns example_quote) (Finite 5), TypeTail (drop 56 (wg_recipient example_page)),
     WithdrawClick True (Some 100000)]"

lemma asked_events_run:
  "\<exists>p t. page_run example_lib asked_events open_page = Some p \<and> pg_calls p 1 = Some (Withdrawing t)
     \<and> tm_recipient t = wg_recipient example_page \<and> tm_ceiling t = wg_shownCeiling example_page
     \<and> tm_denomination t = wg_poolDenomination example_page"
proof -
  have n: "\<exists>n. parseNote (kl_parse example_lib) (kl_toBase58 example_lib) (wg_note example_page) = Some n"
  proof -
    have "case decodeNote parse_hex_key (trim (wg_note example_page)) of Returns x \<Rightarrow> True | Throws e \<Rightarrow> False" by code_simp
    then show ?thesis by (auto simp: parseNote_def example_lib_def split: js.splits)
  qed
  have c: "trim (wg_note example_page) \<noteq> []" "trim (wg_recipient example_page) \<noteq> []"
      "isValidSolanaAddress example_lib (wg_recipient example_page)"
      "recipientConfirmed (wg_recipient example_page) (drop 56 (wg_recipient example_page))" by code_simp+
  have r: "review_quote (kl_newKey example_lib) (kl_parse example_lib) (wg_recipient example_page) (Returns ()) (Returns example_quote)
      (Some 100000) (Finite 5) = Returns example_breakdown"
    using example_review by (simp add: example_lib_def)
  have m: "map_option fb_relayerFeeMax (Some example_breakdown) = wg_shownCeiling example_page"
      "wg_poolDenomination example_page = Some 100000" by (simp_all add: example_breakdown_def example_page_def)
  show ?thesis using n c r m by (auto simp: asked_events_def withdraw_handlers open_page_def blank_page_def)
qed

lemma withdrawal_is_what_was_asked_witness:
  "\<exists>p t subs. page_run example_lib asked_events open_page = Some p \<and> pg_calls p 1 = Some (Withdrawing t)
     \<and> executeWithdraw example_page example_world 0 = (WithdrawDone (JStr ''sig'') (JInt 3), subs) \<and> subs \<noteq> []
     \<and> typed_end asked_events (tm_recipient t) \<and> (\<forall>s\<in>set subs. sb_recipient s = tm_recipient t)"
proof -
  obtain p t where p: "page_run example_lib asked_events open_page = Some p" "pg_calls p 1 = Some (Withdrawing t)"
      "wg_recipient example_page = tm_recipient t" "wg_shownCeiling example_page = tm_ceiling t"
      "wg_poolDenomination example_page = tm_denomination t"
    using asked_events_run by metis
  obtain subs where e: "executeWithdraw example_page example_world 0 = (WithdrawDone (JStr ''sig'') (JInt 3), subs)" "subs \<noteq> []"
    using example_run by blast
  show ?thesis using withdrawal_is_what_was_asked [OF p e(1)] p(1,2) e by blast
qed

subsection \<open>A late quote\<close>

text \<open>
  The Back link stays live while a quote is awaited, and the answer moves the page to the review screen
  whatever note it holds by then: another note can be typed meanwhile, and the review screen shows, and
  binds as the ceiling, the figures computed from the first note's pool.
\<close>

lemma late_quote_shows_other_pool:
  assumes "parseNote (kl_parse lib) (kl_toBase58 lib) a = Some m" "trim a \<noteq> []"
    and "parseNote (kl_parse lib) (kl_toBase58 lib) b = Some n" "trim b \<noteq> []"
    and "isValidSolanaAddress lib r" "trim r \<noteq> []"
    and "review_quote (kl_newKey lib) (kl_parse lib) r cluster fetched (Some d) now = Returns x"
  shows "\<exists>p. page_run lib [TypeNote a, NoteNext True, TypeRecipient r, RecipientNext True (Some d), BackLink, TypeNote b,
      NoteNext True, ReviewEnds 0 cluster fetched now] open_page = Some p
    \<and> wp_step (pg_state p) = StepReview \<and> wp_parsedNote (pg_state p) = Some n \<and> wp_breakdown (pg_state p) = Some x \<and> fb_denomination x = d"
proof -
  obtain q where "validateFeeQuote d q None now = Returns x"
    using assms(7) by (auto simp: review_quote_def need_pool_def js_bind_eq_Returns split: js.splits)
  note d = validateFeeQuote_denomination [OF this]
  show ?thesis using assms d by (simp add: withdraw_handlers open_page_def blank_page_def)
qed

end
