(* ===== verification/Economics.thy ===== *)
theory Economics
  imports SubmitProof Startup
begin

text \<open>
  The economic simulation, scripts/simulate_economics.js, over the fee functions of the relayer that it
  imports: its tables as functions of the ladder and the congestion regimes. What is proved: the vault
  of its random walk never pays out more than came in, no row of its table costs the relayer anything,
  its break-even volumes are the least sufficient ones, and its ceilings are the relayer's where the
  relayer quotes at all; with the figures of its text that no longer hold. Printing is left out.
\<close>

subsection \<open>Constants\<close>

definition LAMPORTS_PER_SOL :: int where "LAMPORTS_PER_SOL = 1000000000"
definition RENT :: int where "RENT = NULLIFIER_RENT"
definition DETERMINISTIC :: int where "DETERMINISTIC = rnd (BASE_FEE + RENT)"
definition CAP_DIVISOR :: int where "CAP_DIVISOR = 50"
definition TREASURY_DIVISOR :: int where "TREASURY_DIVISOR = 500"

definition LADDER :: "(string \<times> int) list" where
  "LADDER = [(''0.1 SOL'', 100000000), (''1 SOL'', 1000000000), (''10 SOL'', 10000000000), (''100 SOL'', 100000000000)]"

definition REGIMES :: "(string \<times> int) list" where
  "REGIMES = [(''calm'', 0), (''normal'', 10000), (''busy'', 100000), (''congested'', 1000000), (''extreme'', 5000000),
     (''absurd'', 50000000)]"

lemma DETERMINISTIC_eq: "DETERMINISTIC = 1061640"
  by (simp add: DETERMINISTIC_def RENT_def fee_consts rnd_exact)

subsection \<open>The ceiling\<close>

definition quoteCeiling :: "int \<Rightarrow> int \<Rightarrow> int" where
  "quoteCeiling denomination perCU =
     (let cost = rnd (rnd (BASE_FEE + priorityFeeLamports perCU) + RENT);
          withMargin = \<lceil>fl (of_int cost * MARGIN)\<rceil>;
          cap = denomination sdiv CAP_DIVISOR
      in if withMargin < cap then withMargin else cap)"

lemma quoteCeiling_cost: "quoteCeiling d p = min (feeMaxFromCost (relayer_cost p RENT)) (d sdiv 50)"
  by (simp add: quoteCeiling_def relayer_cost_def feeMaxFromCost_def CAP_DIVISOR_def Let_def min_def)

text \<open>
  The ceiling is the one the relayer quotes, whenever the relayer quotes: its fee route refuses instead
  when the cap does not cover the cost.
\<close>

lemma simulated_ceiling_is_quoted:
  "price_quote E now (relayer_cost p RENT) pool =
     (if pv_denomination pool sdiv 50 < relayer_cost p RENT then QuoteErr 503 ''FeeAbovePoolCap''
      else QuoteOk \<lparr>q_relayer = env_relayer E, q_feeMax = quoteCeiling (pv_denomination pool) p, q_validUntil = rnd (now + 30000),
        q_receives = computeMinUserReceives (pv_denomination pool) (quoteCeiling (pv_denomination pool) p),
        q_treasury = computeTreasuryFee (pv_denomination pool), q_denomination = pv_denomination pool\<rparr>)"
  by (simp add: price_quote_def quoteCeiling_cost Let_def min_def)

text \<open>So the rows of the last two regimes on the first rung have a ceiling that no relayer quotes.\<close>

lemma unquoted_rows:
  assumes "perCU = 5000000 \<or> perCU = 50000000" "pv_denomination pool = 100000000"
  shows "price_quote E now (relayer_cost perCU RENT) pool = QuoteErr 503 ''FeeAbovePoolCap''
    \<and> quoteCeiling 100000000 perCU = 2000000"
proof -
  have c: "relayer_cost perCU RENT = BASE_FEE + RENT + (perCU + 4) div 5"
    using assms(1) by (intro relayer_cost_eq) (auto simp: RENT_def fee_consts)
  then have "2000000 < relayer_cost perCU RENT" "relayer_cost perCU RENT \<le> 3000000000000000"
    using assms(1) by (auto simp: RENT_def fee_consts)
  moreover from this have "2000000 < feeMaxFromCost (relayer_cost perCU RENT)" by (simp add: feeMaxFromCost_eq)
  moreover have "(100000000 :: int) sdiv 50 = 2000000" by (simp add: sdiv_nonneg)
  ultimately show ?thesis using assms(2) by (simp add: price_quote_def quoteCeiling_cost Let_def)
qed

subsection \<open>Solvency: the random walk\<close>

record walk =
  wk_vault :: int
  wk_deposits :: int
  wk_withdrawals :: int
  wk_refused :: int
  wk_seed :: int

text \<open>
  The generator: the product and the sum are doubles, and the AND with 2 to the 31 less 1 keeps the
  low 31 bits.
\<close>

definition next_seed :: "int \<Rightarrow> int" where
  "next_seed seed = rnd (rnd (seed * 1103515245) + 12345) mod 2 ^ 31"

definition walk_step :: "int \<Rightarrow> walk \<Rightarrow> walk" where
  "walk_step d w =
     (let seed = next_seed (wk_seed w); w = w\<lparr>wk_seed := seed\<rparr> in
      if fl (of_int seed / 2147483647) < fl (35 / 100) then w\<lparr>wk_vault := wk_vault w + d, wk_deposits := rnd (wk_deposits w + 1)\<rparr>
      else if d \<le> wk_vault w then w\<lparr>wk_vault := wk_vault w - d, wk_withdrawals := rnd (wk_withdrawals w + 1)\<rparr>
      else w\<lparr>wk_refused := rnd (wk_refused w + 1)\<rparr>)"

definition walk_start :: walk where
  "walk_start = \<lparr>wk_vault = 0, wk_deposits = 0, wk_withdrawals = 0, wk_refused = 0, wk_seed = 12345\<rparr>"

definition solvency_ok :: "int \<Rightarrow> nat \<Rightarrow> bool" where
  "solvency_ok d steps =
     (let w = (walk_step d ^^ steps) walk_start; netIn = wk_deposits w * d; netOut = wk_withdrawals w * d
      in netOut \<le> netIn \<and> wk_vault w = netIn - netOut)"

definition worstCase :: "string option" where
  "worstCase = fold (\<lambda>(label, d) worst. if \<not> solvency_ok d 20000 then Some label else worst) LADDER None"

definition walk_ok :: "int \<Rightarrow> nat \<Rightarrow> walk \<Rightarrow> bool" where
  "walk_ok d n w \<longleftrightarrow> 0 \<le> wk_deposits w \<and> 0 \<le> wk_withdrawals w \<and> 0 \<le> wk_refused w
     \<and> wk_deposits w + wk_withdrawals w + wk_refused w = int n
     \<and> wk_vault w = wk_deposits w * d - wk_withdrawals w * d \<and> (0 \<le> d \<longrightarrow> 0 \<le> wk_vault w)"

lemma walk_step_ok:
  assumes "walk_ok d n w" "Suc n < 2 ^ 53"
  shows "walk_ok d (Suc n) (walk_step d w)"
proof -
  have r: "rnd (k + 1) = k + 1" if "0 \<le> k" "k \<le> int n" for k
    using that assms(2) by (intro rnd_exact) simp
  have "rnd (wk_deposits w + 1) = wk_deposits w + 1" "rnd (wk_withdrawals w + 1) = wk_withdrawals w + 1"
      "rnd (wk_refused w + 1) = wk_refused w + 1"
    using assms(1) by (auto simp: walk_ok_def intro!: r)
  then show ?thesis using assms(1) by (auto simp: walk_ok_def walk_step_def Let_def left_diff_distrib distrib_right)
qed

lemma walk_inv: "n < 2 ^ 53 \<Longrightarrow> walk_ok d n ((walk_step d ^^ n) walk_start)"
proof (induction n)
  case (Suc n)
  then show ?case using walk_step_ok [of d n "(walk_step d ^^ n) walk_start"] by simp
qed (simp add: walk_ok_def walk_start_def)

text \<open>
  Whatever the generator draws, the walk never pays out more than came in and the vault holds the
  difference, over any number of steps a Number can count; so the script never reports a failure.
\<close>

lemma walk_is_solvent:
  assumes "0 \<le> d" "n < 2 ^ 53"
  shows "solvency_ok d n"
proof -
  define w where "w = (walk_step d ^^ n) walk_start"
  have "walk_ok d n w" unfolding w_def by (rule walk_inv [OF assms(2)])
  then show ?thesis using assms(1) by (simp add: solvency_ok_def w_def [symmetric] walk_ok_def Let_def)
qed

lemma worstCase_none: "worstCase = None"
  using walk_is_solvent [of _ 20000] by (simp add: worstCase_def LADDER_def)

subsection \<open>Profit and loss\<close>

record sim_row =
  sr_label :: string
  sr_regime :: string
  sr_ceiling :: int
  sr_charged :: int
  sr_spent :: int
  sr_relayerPnl :: int
  sr_treasury :: int
  sr_net :: int
  sr_degraded :: bool

definition simulate_row :: "string \<times> int \<Rightarrow> string \<times> int \<Rightarrow> sim_row" where
  "simulate_row rung regime =
     (let d = snd rung; perCU = snd regime;
          feeMax = quoteCeiling d perCU;
          plan = planFee feeMax RENT perCU;
          spent = rnd (DETERMINISTIC + priorityFeeLamports (appliedPriorityPerCU plan));
          relayerPnl = rnd (rnd (actualFee plan) - spent);
          treasury = rnd (d sdiv TREASURY_DIVISOR)
      in \<lparr>sr_label = fst rung, sr_regime = fst regime, sr_ceiling = feeMax, sr_charged = actualFee plan, sr_spent = spent,
          sr_relayerPnl = relayerPnl, sr_treasury = treasury, sr_net = rnd (relayerPnl + treasury), sr_degraded = degraded plan\<rparr>)"

definition sim_table :: "sim_row list" where
  "sim_table = concat (map (\<lambda>rung. map (simulate_row rung) REGIMES) LADDER)"

definition note_worst :: "sim_row \<Rightarrow> (string \<rightharpoonup> int) \<Rightarrow> (string \<rightharpoonup> int)" where
  "note_worst row worst =
     (case worst (sr_label row) of
        None \<Rightarrow> worst(sr_label row \<mapsto> sr_net row)
      | Some prev \<Rightarrow> if sr_net row < prev then worst(sr_label row \<mapsto> sr_net row) else worst)"

definition worstByRung :: "sim_row list \<Rightarrow> (string \<rightharpoonup> int)" where
  "worstByRung rows = fold note_worst rows Map.empty"

lemma row_breaks_even:
  assumes "0 \<le> p" "p \<le> 45035996273" and "DETERMINISTIC \<le> d div 50" "d div 50 \<le> SAFE_LAMPORTS" "0 \<le> d"
  shows "sr_relayerPnl (simulate_row (l, d) (g, p)) = 0" "sr_net (simulate_row (l, d) (g, p)) = d div 500"
    "sr_charged (simulate_row (l, d) (g, p)) \<le> sr_ceiling (simulate_row (l, d) (g, p))"
    "sr_charged (simulate_row (l, d) (g, p)) = sr_spent (simulate_row (l, d) (g, p))"
proof -
  define feeMax where "feeMax = quoteCeiling d p"
  have s: "d sdiv 50 = d div 50" "d sdiv 500 = d div 500" using assms(5) by (simp_all add: sdiv_nonneg)
  have c: "relayer_cost p RENT = BASE_FEE + RENT + (p + 4) div 5"
    using assms(1,2) by (intro relayer_cost_eq) (auto simp: RENT_def fee_consts)
  have q: "0 \<le> (p + 4) div 5" "(p + 4) div 5 \<le> 9007199255" using assms(1,2) by presburger+
  have k: "relayer_cost p RENT = 1061640 + (p + 4) div 5" "BASE_FEE + RENT = 1061640" using c by (simp_all add: RENT_def fee_consts)
  then have "0 \<le> relayer_cost p RENT" "relayer_cost p RENT \<le> 3000000000000000" using q by simp_all
  then have m: "BASE_FEE + RENT \<le> feeMaxFromCost (relayer_cost p RENT)"
    using q k by (simp add: feeMaxFromCost_eq)
  have f: "BASE_FEE + RENT \<le> feeMax" "feeMax \<le> SAFE_LAMPORTS"
    using assms(3,4) m by (auto simp: feeMax_def quoteCeiling_cost s DETERMINISTIC_eq RENT_def fee_consts)
  define plan where "plan = planFee feeMax RENT p"
  have r: "0 \<le> RENT" by (simp add: RENT_def fee_consts)
  have ch: "actualFee plan = BASE_FEE + RENT + priorityFeeLamports (appliedPriorityPerCU plan)" "actualFee plan \<le> feeMax"
      "0 \<le> appliedPriorityPerCU plan"
    using planFee_charges [OF r f assms(1)] by (simp_all add: plan_def)
  have "0 \<le> priorityFeeLamports (appliedPriorityPerCU plan)" by (rule priorityFeeLamports_nonneg [OF ch(3)])
  then have a: "0 \<le> actualFee plan" "actualFee plan \<le> SAFE_LAMPORTS" using ch f(2) by (auto simp: RENT_def fee_consts)
  have e: "rnd (DETERMINISTIC + priorityFeeLamports (appliedPriorityPerCU plan)) = actualFee plan"
    using a ch(1) by (subst rnd_exact) (auto simp: DETERMINISTIC_eq RENT_def fee_consts)
  have t: "rnd (d div 500) = d div 500" "rnd 0 = 0" using assms(4,5) by (auto intro!: rnd_exact)
  have x: "rnd (actualFee plan) = actualFee plan" using a by (intro rnd_exact) auto
  show "sr_relayerPnl (simulate_row (l, d) (g, p)) = 0" "sr_net (simulate_row (l, d) (g, p)) = d div 500"
    "sr_charged (simulate_row (l, d) (g, p)) \<le> sr_ceiling (simulate_row (l, d) (g, p))"
    "sr_charged (simulate_row (l, d) (g, p)) = sr_spent (simulate_row (l, d) (g, p))"
    using ch(2) by (simp_all add: simulate_row_def Let_def feeMax_def [symmetric] plan_def [symmetric] e x TREASURY_DIVISOR_def s t)
qed

lemma ladder_rungs: "r \<in> set LADDER \<Longrightarrow> DETERMINISTIC \<le> snd r div 50 \<and> snd r div 50 \<le> SAFE_LAMPORTS \<and> 0 \<le> snd r \<and> 0 < snd r div 500"
  by (auto simp: LADDER_def DETERMINISTIC_eq)

lemma regime_prices: "g \<in> set REGIMES \<Longrightarrow> 0 \<le> snd g \<and> snd g \<le> 45035996273"
  by (auto simp: REGIMES_def)

lemma sim_table_rows: "row \<in> set sim_table \<longleftrightarrow> (\<exists>r\<in>set LADDER. \<exists>g\<in>set REGIMES. row = simulate_row r g)"
  by (auto simp: sim_table_def)

lemma sr_label_row [simp]: "sr_label (simulate_row r g) = fst r"
  by (simp add: simulate_row_def Let_def)

lemma worst_constant:
  assumes "\<And>row. row \<in> set rows \<Longrightarrow> sr_label row = l \<Longrightarrow> sr_net row = x"
  shows "worst l \<in> {None, Some x} \<Longrightarrow>
    fold note_worst rows worst l = (if worst l = Some x \<or> (\<exists>row\<in>set rows. sr_label row = l) then Some x else None)"
  using assms
proof (induction rows arbitrary: worst)
  case (Cons row rows)
  have "note_worst row worst l = (if worst l = Some x \<or> sr_label row = l then Some x else None)"
    using Cons.prems by (auto simp: note_worst_def split: option.splits)
  then show ?case using Cons.IH [of "note_worst row worst"] Cons.prems(2) by (auto split: if_splits)
qed auto

text \<open>
  In every row of the table the relayer spends exactly what it charges, within the ceiling, so its
  profit is zero whatever the congestion, and what is left is the treasury's fee; the worst case of each
  rung is therefore the protocol fee itself.
\<close>

theorem simulation_never_loses:
  "(\<forall>row\<in>set sim_table. sr_relayerPnl row = 0 \<and> sr_charged row = sr_spent row \<and> sr_charged row \<le> sr_ceiling row \<and> 0 < sr_net row)
   \<and> map (\<lambda>r. worstByRung sim_table (fst r)) LADDER = map (\<lambda>r. Some (snd r div 500)) LADDER"
proof (intro conjI)
  have row: "sr_relayerPnl (simulate_row r g) = 0 \<and> sr_charged (simulate_row r g) = sr_spent (simulate_row r g)
      \<and> sr_charged (simulate_row r g) \<le> sr_ceiling (simulate_row r g) \<and> sr_net (simulate_row r g) = snd r div 500"
    if "r \<in> set LADDER" "g \<in> set REGIMES" for r g
    using row_breaks_even [of "snd g" "snd r" "fst r" "fst g"] ladder_rungs [OF that(1)] regime_prices [OF that(2)] by simp
  show "\<forall>row\<in>set sim_table. sr_relayerPnl row = 0 \<and> sr_charged row = sr_spent row \<and> sr_charged row \<le> sr_ceiling row \<and> 0 < sr_net row"
  proof
    fix w assume "w \<in> set sim_table"
    then obtain r g where w: "r \<in> set LADDER" "g \<in> set REGIMES" "w = simulate_row r g" unfolding sim_table_rows by blast
    show "sr_relayerPnl w = 0 \<and> sr_charged w = sr_spent w \<and> sr_charged w \<le> sr_ceiling w \<and> 0 < sr_net w"
      using row [OF w(1,2)] ladder_rungs [OF w(1)] by (metis w(3))
  qed
  have "worstByRung sim_table (fst r) = Some (snd r div 500)" if r: "r \<in> set LADDER" for r
  proof -
    have "sr_net w = snd r div 500" if m: "w \<in> set sim_table" "sr_label w = fst r" for w
    proof -
      obtain r' g where w: "r' \<in> set LADDER" "g \<in> set REGIMES" "w = simulate_row r' g"
        using m(1) unfolding sim_table_rows by blast
      then have "r' = r" using m(2) r by (auto simp: LADDER_def)
      then show ?thesis using row [OF w(1,2)] w(3) by simp
    qed
    moreover have "\<exists>w\<in>set sim_table. sr_label w = fst r"
      using r unfolding bex_simps sim_table_def by (auto simp: REGIMES_def)
    ultimately show ?thesis using worst_constant [of sim_table "fst r" "snd r div 500" Map.empty] by (simp add: worstByRung_def)
  qed
  then show "map (\<lambda>r. worstByRung sim_table (fst r)) LADDER = map (\<lambda>r. Some (snd r div 500)) LADDER" by simp
qed

subsection \<open>What the user receives\<close>

definition worst_payout :: "int \<Rightarrow> int" where
  "worst_payout d = d - computeTreasuryFee d - d sdiv CAP_DIVISOR"

definition payout_honoured :: "int \<Rightarrow> bool" where
  "payout_honoured d \<longleftrightarrow> computeMinUserReceives d (d sdiv CAP_DIVISOR) \<le> worst_payout d"

lemma payout_always_honoured: "payout_honoured d"
  by (simp add: payout_honoured_def worst_payout_def computeMinUserReceives_def Let_def)

subsection \<open>Volumes that break even\<close>

definition MONTHLY_USD :: int where "MONTHLY_USD = 5 + 50"
definition SOL_USD :: int where "SOL_USD = 76"

definition monthlyLamports :: int where
  "monthlyLamports = \<lceil>fl (fl (of_int MONTHLY_USD / of_int SOL_USD) * of_int LAMPORTS_PER_SOL)\<rceil>"

text \<open>Withdrawals a month, or none when the rung does not earn.\<close>

definition break_even :: "int \<Rightarrow> int \<Rightarrow> int option" where
  "break_even monthly net = (if net \<le> 0 then None else Some \<lceil>fl (of_int (rnd monthly) / of_int net)\<rceil>)"

text \<open>
  A quotient of integers whose numerator fits in 53 bits is at least the reciprocal of its denominator
  away from the next integer, further than rounding can move it: its rounded ceiling is exact.
\<close>

lemma ceiling_fl_div:
  assumes "0 < m" "m < 2 ^ 53" "0 < n"
  shows "\<lceil>fl (of_int m / of_int n)\<rceil> = \<lceil>(of_int m :: rat) / of_int n\<rceil>"
proof -
  define x where "x = (of_int m :: rat) / of_int n"
  define k where "k = \<lceil>x\<rceil>"
  have n: "(0 :: rat) < of_int n" using assms(3) by simp
  have "(of_int m :: rat) < of_int (2 ^ 53)" using assms(2) by (simp only: of_int_less_iff)
  then have "x / 2 ^ 53 < 1 / of_int n" using n by (simp add: x_def divide_simps)
  then have "\<bar>fl x - x\<bar> < 1 / of_int n" using fl_rel_error [of x] assms n by (auto simp: x_def)
  then have err: "fl x < x + 1 / of_int n" "x - 1 / of_int n < fl x" by linarith+
  have k: "of_int k - 1 < x" "x \<le> of_int k" unfolding k_def by linarith+
  have "\<lceil>fl x\<rceil> = k"
  proof (cases "x = of_int k")
    case True
    have "x \<le> of_int m" using assms(1,3) by (simp add: x_def divide_le_eq mult_le_cancel_left1)
    moreover have "0 \<le> x" using assms(1,3) by (simp add: x_def)
    ultimately have "k \<le> m" "0 \<le> k" unfolding True by (simp_all only: of_int_le_iff of_int_0_le_iff)
    then have "fl x = x" unfolding True using assms(2) by (intro fl_of_int) simp
    then show ?thesis using True by simp
  next
    case False
    have "(of_int ((k - 1) * n) :: rat) < of_int m" "(of_int m :: rat) < of_int (k * n)"
      using k False n by (simp_all add: x_def field_simps)
    then have "(k - 1) * n + 1 \<le> m" "m + 1 \<le> k * n" by (simp_all only: of_int_less_iff)
    then have "(of_int ((k - 1) * n + 1) :: rat) \<le> of_int m" "(of_int (m + 1) :: rat) \<le> of_int (k * n)"
      by (simp_all only: of_int_le_iff)
    then have "of_int ((k - 1) * n + 1) / of_int n \<le> x" "of_int (m + 1) / of_int n \<le> of_int (k * n) / (of_int n :: rat)"
      unfolding x_def using n by (simp_all only: divide_right_mono less_imp_le)
    moreover have "of_int ((k - 1) * n + 1) / of_int n = of_int k - 1 + 1 / (of_int n :: rat)"
        "of_int (m + 1) / of_int n = x + 1 / of_int n" "of_int (k * n) / of_int n = (of_int k :: rat)"
      using n by (simp_all add: x_def field_simps)
    ultimately have "of_int k - 1 + 1 / of_int n \<le> x" "x + 1 / of_int n \<le> of_int k" by simp_all
    then show ?thesis using err by (intro ceiling_unique) linarith+
  qed
  then show ?thesis by (simp add: x_def k_def)
qed

text \<open>
  The volume printed is the least number of withdrawals whose income covers the month, and a rung that
  does not earn has none.
\<close>

lemma break_even_least:
  assumes "0 < monthly" "monthly < 2 ^ 53"
  shows "(break_even monthly net = None \<longleftrightarrow> net \<le> 0)
    \<and> (\<forall>k. break_even monthly net = Some k \<longrightarrow> monthly \<le> k * net \<and> (\<forall>j. monthly \<le> j * net \<longrightarrow> k \<le> j))"
proof (cases "net \<le> 0")
  case True
  then show ?thesis by (simp add: break_even_def)
next
  case False
  then have n: "0 < net" "(0 :: rat) < of_int net" by simp_all
  have r: "rnd monthly = monthly" using assms by (intro rnd_exact) simp
  have b: "break_even monthly net = Some \<lceil>(of_int monthly :: rat) / of_int net\<rceil>"
    using False ceiling_fl_div [OF assms n(1)] by (simp add: break_even_def r)
  have iff: "monthly \<le> j * net \<longleftrightarrow> \<lceil>(of_int monthly :: rat) / of_int net\<rceil> \<le> j" for j
  proof -
    have "monthly \<le> j * net \<longleftrightarrow> (of_int monthly :: rat) \<le> of_int (j * net)" by (simp only: of_int_le_iff)
    also have "\<dots> \<longleftrightarrow> of_int monthly / of_int net \<le> (of_int j :: rat)" using n(2) by (simp add: divide_le_eq)
    finally show ?thesis by (simp add: ceiling_le_iff)
  qed
  show ?thesis using b n iff by auto
qed

subsection \<open>Sensitivity to the rent\<close>

definition rent_at_multiple :: "rat \<Rightarrow> int" where
  "rent_at_multiple multiple = math_round (fl (of_int RENT * multiple))"

definition min_viable :: "int \<Rightarrow> int" where
  "min_viable rent = rnd (BASE_FEE + rent) * CAP_DIVISOR"

definition losers :: "int \<Rightarrow> string list" where
  "losers rent = map fst (filter (\<lambda>r. snd r sdiv CAP_DIVISOR < rnd (BASE_FEE + rent)) LADDER)"

definition RENT_MULTIPLES :: "rat list" where
  "RENT_MULTIPLES = [1, fl (125 / 100), fl (138 / 100), fl (15 / 10), 2, 5, 10]"

text \<open>
  No rung is subsidised until the rent reaches 1,995,000 lamports, which is 1.88 times the rent of today:
  the table's own rows up to a multiple of one and a half list no rung, and the figure of 38% in the text
  below it is the one of an older rent.
\<close>

lemma losers_exact: "0 \<le> rent \<Longrightarrow> rent \<le> SAFE_LAMPORTS \<Longrightarrow> losers rent = [] \<longleftrightarrow> rent \<le> 1995000"
  by (auto simp: losers_def LADDER_def CAP_DIVISOR_def sdiv_nonneg fee_consts rnd_exact)

lemma math_round_of_int: "math_round (of_int n) = n"
  unfolding math_round_def by (rule floor_unique) simp_all

lemma rent_tolerance_is_88_percent:
  "losers (rent_at_multiple (fl (15 / 10))) = [] \<and> 188 * RENT \<le> 100 * 1995000 \<and> losers (rent_at_multiple 2) = [''0.1 SOL'']"
proof -
  have h: "fl (15 / 10) = 3 / 2" by (rule trans [OF fl_dyadic [of _ 3 "- 1"]]) simp_all
  have "fl (of_int RENT * (3 / 2)) = of_int 1584960" "fl (of_int RENT * 2) = of_int 2113280"
    using fl_of_int [of 1584960] fl_of_int [of 2113280] by (simp_all add: RENT_def fee_consts)
  then have r: "rent_at_multiple (fl (15 / 10)) = 1584960" "rent_at_multiple 2 = 2113280"
    unfolding h rent_at_multiple_def by (simp_all only: math_round_of_int)
  show ?thesis unfolding r by (simp add: losers_def LADDER_def CAP_DIVISOR_def sdiv_nonneg fee_consts rnd_exact RENT_def)
qed

subsection \<open>The corrected figure\<close>

definition OLD_RENT_165_BYTE :: int where "OLD_RENT_165_BYTE = 2039280"
definition oldDeterministic :: int where "oldDeterministic = rnd (BASE_FEE + OLD_RENT_165_BYTE)"
definition cap01 :: int where "cap01 = 100000000 sdiv CAP_DIVISOR"

lemma no_rung_subsidises: "cap01 < oldDeterministic \<and> DETERMINISTIC < cap01 \<and> losers RENT = []"
  by (simp add: cap01_def oldDeterministic_def OLD_RENT_165_BYTE_def DETERMINISTIC_eq losers_exact RENT_def CAP_DIVISOR_def sdiv_nonneg fee_consts rnd_exact)

end
