(* ===== verification/PoolScripts.thy ===== *)
theory PoolScripts
  imports AppChain AppConfig Economics Note
begin

text \<open>
  The two operational scripts that decide which pools exist and which are advertised: deploying the
  ladder, scripts/deploy_pools.js, and checking what the app advertises, scripts/check_pools.js. The
  chain, base58, the wallet and PDA derivation are parameters. What is proved: exactly when each script
  succeeds, that what the check passes is served by the relayer and pays the expected treasury, and
  that the ladders of the scripts and of the app are one.
\<close>

subsection \<open>Scraping the app's pool list\<close>

text \<open>
  The two halves of the regular expression, a key with a quoted text after it: neither the white space
  nor the text can match in two ways, so no backtracking is needed inside a half.
\<close>

definition key_quoted :: "string \<Rightarrow> string \<Rightarrow> (string \<times> string) option" where
  "key_quoted key s =
     (if starts_with s key then
        (case dropWhile is_space (drop (length key) s) of
           c # r \<Rightarrow>
             let v = takeWhile (\<lambda>x. x \<noteq> CHR 0x27) r; rest = dropWhile (\<lambda>x. x \<noteq> CHR 0x27) r in
             if c = CHR 0x27 \<and> v \<noteq> [] \<and> rest \<noteq> [] then Some (v, tl rest) else None
         | [] \<Rightarrow> None)
      else None)"

text \<open>The lazy middle part: the first place where the second half matches.\<close>

fun find_quoted :: "string \<Rightarrow> string \<Rightarrow> (string \<times> string) option" where
  "find_quoted key [] = None"
| "find_quoted key (c # s) = (case key_quoted key (c # s) of Some r \<Rightarrow> Some r | None \<Rightarrow> find_quoted key s)"

lemma key_quoted_shorter: "key_quoted key s = Some (v, rest) \<Longrightarrow> length rest < length s"
proof -
  assume a: "key_quoted key s = Some (v, rest)"
  then obtain c r where r: "dropWhile is_space (drop (length key) s) = c # r" "dropWhile (\<lambda>x. x \<noteq> CHR 0x27) r \<noteq> []"
      "rest = tl (dropWhile (\<lambda>x. x \<noteq> CHR 0x27) r)"
    by (auto simp: key_quoted_def Let_def split: if_splits list.splits)
  have "length (c # r) \<le> length s"
    using r(1) length_dropWhile_le [of is_space "drop (length key) s"] by (metis diff_le_self dual_order.trans length_drop)
  then show ?thesis using r(3) length_dropWhile_le [of "\<lambda>x. x \<noteq> CHR 0x27" r] by simp
qed

lemma find_quoted_shorter: "find_quoted key s = Some (v, rest) \<Longrightarrow> length rest < length s"
  by (induction key s rule: find_quoted.induct) (auto dest: key_quoted_shorter split: option.splits)

function poolsFromAppConfig :: "string \<Rightarrow> (string \<times> string) list" where
  "poolsFromAppConfig [] = []"
| "poolsFromAppConfig (c # s) =
     (case key_quoted ''label:'' (c # s) of
        None \<Rightarrow> poolsFromAppConfig s
      | Some (label, rest) \<Rightarrow>
          (case find_quoted ''address:'' rest of
             None \<Rightarrow> poolsFromAppConfig s
           | Some (address, rest') \<Rightarrow> (label, address) # poolsFromAppConfig rest'))"
  by pat_completeness auto
termination
  by (relation "measure length") (auto dest!: key_quoted_shorter find_quoted_shorter)

text \<open>A text no position of which, before what follows it, is a key with a quoted text.\<close>

fun calm :: "string \<Rightarrow> string \<Rightarrow> string \<Rightarrow> bool" where
  "calm key [] t = True"
| "calm key (c # g) t = (key_quoted key (c # g @ t) = None \<and> calm key g t)"

definition quoted :: "string \<Rightarrow> string \<Rightarrow> string" where
  "quoted key v = key @ '' '' @ [CHR 0x27] @ v @ [CHR 0x27]"

text \<open>The source text of a list of pools: before each label and each address some other text.\<close>

fun config_text :: "(string \<times> string \<times> string \<times> string) list \<Rightarrow> string \<Rightarrow> string" where
  "config_text [] final = final"
| "config_text ((g, label, m, address) # es) final =
     g @ quoted ''label:'' label @ m @ quoted ''address:'' address @ config_text es final"

fun well_formed :: "(string \<times> string \<times> string \<times> string) list \<Rightarrow> string \<Rightarrow> bool" where
  "well_formed [] final = calm ''label:'' final []"
| "well_formed ((g, label, m, address) # es) final =
     (calm ''label:'' g (quoted ''label:'' label @ m @ quoted ''address:'' address @ config_text es final)
      \<and> calm ''address:'' m (quoted ''address:'' address @ config_text es final)
      \<and> label \<noteq> [] \<and> CHR 0x27 \<notin> set label \<and> address \<noteq> [] \<and> CHR 0x27 \<notin> set address \<and> well_formed es final)"

lemma starts_with_self: "starts_with (key @ s) key"
  by (induction key) auto

lemma key_quoted_hit:
  assumes "v \<noteq> []" "CHR 0x27 \<notin> set v"
  shows "key_quoted key (quoted key v @ r) = Some (v, r)"
proof -
  have "takeWhile (\<lambda>x. x \<noteq> CHR 0x27) (v @ CHR 0x27 # r) = v" "dropWhile (\<lambda>x. x \<noteq> CHR 0x27) (v @ CHR 0x27 # r) = CHR 0x27 # r"
    using assms(2) by (induction v) auto
  moreover have "dropWhile is_space (CHR '' '' # CHR 0x27 # x) = CHR 0x27 # x" for x
    by (simp add: is_space_def)
  ultimately show ?thesis
    using assms(1) starts_with_self [of key "'' '' @ [CHR 0x27] @ v @ [CHR 0x27] @ r"]
    by (simp add: key_quoted_def quoted_def)
qed

lemma find_quoted_gap:
  assumes "calm key g (quoted key v @ r)" "v \<noteq> []" "CHR 0x27 \<notin> set v" "key \<noteq> []"
  shows "find_quoted key (g @ quoted key v @ r) = Some (v, r)"
  using assms(1)
proof (induction g)
  case Nil
  obtain c s where s: "quoted key v @ r = c # s" using assms(4) by (cases key) (auto simp: quoted_def)
  show ?case using key_quoted_hit [OF assms(2,3), of key r] by (simp add: s)
qed simp

lemma scrape_gap: "calm ''label:'' g t \<Longrightarrow> poolsFromAppConfig (g @ t) = poolsFromAppConfig t"
  by (induction g) simp_all

text \<open>
  Scraping a source text gives its pools in order, whatever other text, such as a type's field
  \<open>label: string\<close>, stands between them.
\<close>

lemma scrape_exact: "well_formed es final \<Longrightarrow> poolsFromAppConfig (config_text es final) = map (\<lambda>(g, l, m, a). (l, a)) es"
proof (induction es final rule: well_formed.induct)
  case (1 final)
  then show ?case using scrape_gap [of final "[]"] by simp
next
  case (2 g label m address es final)
  let ?t = "m @ quoted ''address:'' address @ config_text es final"
  obtain c s where s: "quoted ''label:'' label @ ?t = c # s" by (auto simp: quoted_def)
  have "key_quoted ''label:'' (c # s) = Some (label, ?t)" "find_quoted ''address:'' ?t = Some (address, config_text es final)"
    using 2 key_quoted_hit [of label "''label:''" ?t] find_quoted_gap [of "''address:''" m address] by (simp_all add: s)
  then have "poolsFromAppConfig (c # s) = (label, address) # map (\<lambda>(g, l, m, a). (l, a)) es" using 2 by simp
  then show ?case using 2 scrape_gap [of g "c # s"] by (simp add: s)
qed

text \<open>
  The source of the built-in list in app/src/config.ts, with the type before it: each label, the lines
  up to the address, and the address.
\<close>

definition config_entries :: "(string \<times> string \<times> string \<times> string) list" where
  "config_entries =
     [(''interface PoolConfig { label: string; address: string; }
  return [
    {
      '', ''0.1 SOL'', '',
      denominationSol: 0.1,
      denominationLamports: 100_000_000n,
      '', ''FWQkYzmNz74VSffemu9tphYX1TSSfTBo9JYgKRWRWcoY''),
      ('',
    },
    {
      '', ''1 SOL'', '',
      denominationSol: 1,
      denominationLamports: 1_000_000_000n,
      '', ''2MgQTtJGed9eR9itPk9nUChYbvCTpfmNhKTxpnUA2S3d''),
      ('',
    },
    {
      '', ''10 SOL'', '',
      denominationSol: 10,
      denominationLamports: 10_000_000_000n,
      '', ''GhbShsZipzgpRxZSihAkn1Bmstzoq9CgpDrbGXz3bNFE''),
      ('',
    },
    {
      '', ''100 SOL'', '',
      denominationSol: 100,
      denominationLamports: 100_000_000_000n,
      '', ''F5Qkfpw57KCXB8uXam1p3wAkf5YazSURPJWb1WVqfs7n'')]"

lemma config_well_formed: "well_formed config_entries '',
    },
  ];''"
  by (simp add: config_entries_def key_quoted_def quoted_def is_space_def)

lemma scraped_default_pools:
  "map (\<lambda>(l, a). (JStr l, JStr a)) (poolsFromAppConfig (config_text config_entries '',
    },
  ];'')) = map (\<lambda>p. (pc_label p, pc_address p)) default_pools"
  unfolding scrape_exact [OF config_well_formed] by (simp add: config_entries_def default_pools_def built_in_def)

subsection \<open>Checking the advertised pools\<close>

definition OFF_ADMIN :: nat where "OFF_ADMIN = 8 + 0"

datatype pool_problem = BadAddress | NotDeployed | WrongOwner pubkey | NotPoolAccount | WrongTreasury pubkey | WrongAdmin string

record check_env =
  ce_treasury :: "string option"
  ce_admin :: "string option"
  ce_programId :: pubkey
  ce_parse :: "string \<Rightarrow> pubkey js"
  ce_toBase58 :: "pubkey \<Rightarrow> string"
  ce_account :: "pubkey \<Rightarrow> account_info option js"

definition expected_admin :: "check_env \<Rightarrow> pubkey \<Rightarrow> string" where
  "expected_admin E expectedTreasury =
     (case ce_admin E of None \<Rightarrow> ce_toBase58 E expectedTreasury
      | Some s \<Rightarrow> if s = [] then ce_toBase58 E expectedTreasury else s)"

definition check_pool :: "check_env \<Rightarrow> pubkey \<Rightarrow> string \<Rightarrow> pool_problem list js" where
  "check_pool E expectedTreasury address =
     (case ce_parse E address of
        Throws e \<Rightarrow> Returns [BadAddress]
      | Returns pubkey \<Rightarrow>
          js_bind (ce_account E pubkey) (\<lambda>r. case r of
              None \<Rightarrow> Returns [NotDeployed]
            | Some info \<Rightarrow>
                if acc_owner info \<noteq> ce_programId E then Returns [WrongOwner (acc_owner info)]
                else if length (acc_data info) < POOL_ACCOUNT_LEN \<or> subarray (acc_data info) 0 8 \<noteq> POOL_DISCRIMINATOR
                then Returns [NotPoolAccount]
                else
                  let admin = subarray (acc_data info) OFF_ADMIN (OFF_ADMIN + 32);
                      treasury = subarray (acc_data info) OFF_TREASURY (OFF_TREASURY + 32) in
                  js_bind (read_u64_js (acc_data info) OFF_DENOMINATION) (\<lambda>denomination.
                  js_bind (read_u64_js (acc_data info) OFF_NEXT_INDEX) (\<lambda>nextIndex.
                  Returns ((if treasury \<noteq> expectedTreasury then [WrongTreasury treasury] else [])
                    @ (if ce_toBase58 E admin \<noteq> expected_admin E expectedTreasury then [WrongAdmin (ce_toBase58 E admin)] else []))))))"

fun check_pools_loop :: "check_env \<Rightarrow> pubkey \<Rightarrow> (string \<times> string) list \<Rightarrow> pool_problem list js" where
  "check_pools_loop E expectedTreasury [] = Returns []"
| "check_pools_loop E expectedTreasury ((label, address) # pools) =
     js_bind (check_pool E expectedTreasury address) (\<lambda>ps.
     js_bind (check_pools_loop E expectedTreasury pools) (\<lambda>rest. Returns (ps @ rest)))"

text \<open>
  The exit code. With pool addresses on the command line their own first characters are the labels
  (the ellipsis after them is left out); otherwise the app's source is scraped. Whatever is thrown ends
  in exit code 1 too.
\<close>

definition check_pools_main :: "check_env \<Rightarrow> string list \<Rightarrow> string \<Rightarrow> nat" where
  "check_pools_main E args config =
     (case ce_treasury E of
        None \<Rightarrow> 1
      | Some expected \<Rightarrow>
          if expected = [] then 1
          else (case ce_parse E expected of
              Throws e \<Rightarrow> 1
            | Returns expectedTreasury \<Rightarrow>
                let pools = (if args \<noteq> [] then map (\<lambda>a. (take 8 a, a)) args else poolsFromAppConfig config) in
                if pools = [] then 1
                else (case check_pools_loop E expectedTreasury pools of
                    Throws e \<Rightarrow> 1
                  | Returns problems \<Rightarrow> if problems = [] then 0 else 1)))"

definition good_pool :: "check_env \<Rightarrow> pubkey \<Rightarrow> string \<Rightarrow> bool" where
  "good_pool E T address \<longleftrightarrow> (\<exists>k info. ce_parse E address = Returns k \<and> ce_account E k = Returns (Some info)
     \<and> is_pool (ce_programId E) info \<and> subarray (acc_data info) 96 128 = T
     \<and> ce_toBase58 E (subarray (acc_data info) 8 40) = expected_admin E T)"

lemma check_pool_silent: "check_pool E T address = Returns [] \<longleftrightarrow> good_pool E T address"
proof (cases "ce_parse E address")
  case (Throws e)
  then show ?thesis by (simp add: check_pool_def good_pool_def)
next
  case (Returns k)
  show ?thesis
  proof (cases "\<exists>info. ce_account E k = Returns (Some info) \<and> is_pool (ce_programId E) info")
    case True
    then obtain info where i: "ce_account E k = Returns (Some info)" "is_pool (ce_programId E) info" by blast
    then have "8976 \<le> length (acc_data info)" by (simp add: is_pool_def pool_offsets)
    then have "read_u64_js (acc_data info) 72 = Returns (le_int (subarray (acc_data info) 72 80))"
        "read_u64_js (acc_data info) 88 = Returns (le_int (subarray (acc_data info) 88 96))"
      by (simp_all add: read_u64_js_ok)
    then show ?thesis
      using i Returns by (auto simp: check_pool_def good_pool_def is_pool_def pool_offsets OFF_ADMIN_def subarray_def [of _ 0] Let_def)
  next
    case False
    then have "\<not> good_pool E T address" using Returns by (auto simp: good_pool_def)
    moreover have "check_pool E T address \<noteq> Returns []"
      using False Returns
      by (cases "ce_account E k") (auto simp: check_pool_def is_pool_def subarray_def [of _ 0] split: option.splits)
    ultimately show ?thesis by simp
  qed
qed

lemma check_loop_silent: "check_pools_loop E T pools = Returns [] \<longleftrightarrow> (\<forall>p\<in>set pools. good_pool E T (snd p))"
  by (induction E T pools rule: check_pools_loop.induct) (auto simp: js_bind_eq_Returns simp flip: check_pool_silent)

lemma check_passes_iff:
  "check_pools_main E args config = 0 \<longleftrightarrow>
     (\<exists>s T. ce_treasury E = Some s \<and> s \<noteq> [] \<and> ce_parse E s = Returns T
       \<and> (let addresses = (if args \<noteq> [] then args else map snd (poolsFromAppConfig config)) in
           addresses \<noteq> [] \<and> (\<forall>a\<in>set addresses. good_pool E T a)))"
proof -
  have "(case check_pools_loop E T pools of Throws e \<Rightarrow> 1 | Returns problems \<Rightarrow> if problems = [] then 0 else 1) = (0 :: nat)
      \<longleftrightarrow> (\<forall>p\<in>set pools. good_pool E T (snd p))" for T pools
    by (auto simp flip: check_loop_silent split: js.splits)
  then show ?thesis by (auto simp: check_pools_main_def Let_def split: option.splits js.splits)
qed

text \<open>What the relayer makes of an advertised address.\<close>

definition relayer_serves :: "check_env \<Rightarrow> pubkey \<Rightarrow> string \<Rightarrow> bool" where
  "relayer_serves E T address \<longleftrightarrow> (\<exists>k v. ce_parse E address = Returns k
     \<and> loadPool (ce_account E k) (ce_programId E) = Returns (PoolLoaded v) \<and> pv_treasury v = T
     \<and> ce_toBase58 E (subarray (pv_data v) 8 40) = expected_admin E T)"

lemma loadPool_pools:
  "loadPool r programId = Returns (PoolLoaded v)
     \<longleftrightarrow> (\<exists>info. r = Returns (Some info) \<and> is_pool programId info \<and> v = view_of (acc_data info))"
proof (cases r)
  case (Throws e)
  then show ?thesis by (simp add: loadPool_def)
next
  case (Returns y)
  show ?thesis
  proof (cases y)
    case None
    then show ?thesis using Returns by (simp add: loadPool_def)
  next
    case (Some info)
    then show ?thesis using Returns loadPool_loaded_iff [of info programId v] by simp
  qed
qed

lemma good_pool_served: "good_pool E T a \<longleftrightarrow> relayer_serves E T a"
  by (auto simp: good_pool_def relayer_serves_def loadPool_pools view_of_def)

text \<open>
  C28. The check succeeds exactly when an expected treasury is set and the relayer serves every advertised
  address, of which there is one at least, as a pool that pays its protocol fee to that treasury under
  the expected admin.
\<close>

theorem checked_pools_are_served:
  "check_pools_main E args config = 0 \<longleftrightarrow>
     (\<exists>s T. ce_treasury E = Some s \<and> s \<noteq> [] \<and> ce_parse E s = Returns T
       \<and> (let addresses = (if args \<noteq> [] then args else map snd (poolsFromAppConfig config)) in
           addresses \<noteq> [] \<and> list_all (relayer_serves E T) addresses))"
  unfolding check_passes_iff good_pool_served list_all_iff ..

subsection \<open>Deploying the ladder\<close>

record pool_spec =
  ps_label :: string
  ps_lamports :: int
  ps_version :: "int option"

definition ALL_POOLS :: "pool_spec list" where
  "ALL_POOLS =
     [\<lparr>ps_label = ''0.1 SOL'', ps_lamports = 100000000, ps_version = Some 0\<rparr>,
      \<lparr>ps_label = ''1 SOL'', ps_lamports = 1000000000, ps_version = Some 4\<rparr>,
      \<lparr>ps_label = ''10 SOL'', ps_lamports = 10000000000, ps_version = Some 0\<rparr>,
      \<lparr>ps_label = ''100 SOL'', ps_lamports = 100000000000, ps_version = Some 0\<rparr>]"

text \<open>The ladder that is deployed is the one the app lists and the simulation prices.\<close>

lemma one_ladder:
  "map (\<lambda>p. (JStr (ps_label p), ps_lamports p)) ALL_POOLS = map (\<lambda>p. (pc_label p, pc_denominationLamports p)) default_pools
   \<and> map (\<lambda>p. (ps_label p, ps_lamports p)) ALL_POOLS = LADDER"
  by (simp add: ALL_POOLS_def default_pools_def built_in_def LADDER_def)

text \<open>\<open>label.replace(" SOL", "")\<close>.\<close>

fun remove_first :: "string \<Rightarrow> string \<Rightarrow> string" where
  "remove_first pat [] = []"
| "remove_first pat (c # s) = (if starts_with (c # s) pat then drop (length pat) (c # s) else c # remove_first pat s)"

definition selected_pools :: "string list \<Rightarrow> pool_spec list" where
  "selected_pools args =
     (if args \<noteq> []
      then filter (\<lambda>p. list_ex (\<lambda>a. ps_label p = a \<or> ps_label p = a @ '' SOL'' \<or> remove_first '' SOL'' (ps_label p) = a) args) ALL_POOLS
      else ALL_POOLS)"

definition deploy_findPoolPda :: "find_pda \<Rightarrow> pubkey \<Rightarrow> int \<Rightarrow> int \<Rightarrow> pubkey \<Rightarrow> pubkey js" where
  "deploy_findPoolPda pda admin denomination version programId =
     (if denomination < 0 \<or> 2 ^ 64 \<le> denomination then Throws ''The value of \"value\" is out of range.''
      else pda [ascii_bytes ''pool'', admin, replicate 32 0, le_bytes 8 denomination, [word_of_int version]] programId)"

definition deploy_findVaultPda :: "find_pda \<Rightarrow> pubkey \<Rightarrow> pubkey \<Rightarrow> pubkey js" where
  "deploy_findVaultPda pda poolPda programId = pda [ascii_bytes ''vault'', poolPda] programId"

text \<open>The script deploys at the address the app and the relayer derive.\<close>

lemma deployed_addresses_agree:
  "deploy_findPoolPda pda admin d v programId = findPoolPda pda programId admin d v
   \<and> deploy_findVaultPda pda poolPda programId = app_findVaultPda pda programId poolPda"
  by (simp add: deploy_findPoolPda_def findPoolPda_def deploy_findVaultPda_def app_findVaultPda_def)

record init_call =
  ic_denomination :: int
  ic_version :: int
  ic_admin :: pubkey
  ic_pool :: pubkey
  ic_vault :: pubkey
  ic_treasury :: pubkey

text \<open>
  What the script meets: its environment, with the constructor of a public key from bytes, and for each
  pool the accounts read before and after and the transaction in between.
\<close>

record deploy_env =
  de_setup :: "unit js"
  de_admin :: pubkey
  de_programId :: pubkey
  de_treasury :: "string option"
  de_VERSION :: int
  de_balance :: "unit js"
  de_pda :: find_pda
  de_parse :: "string \<Rightarrow> pubkey js"
  de_toBase58 :: "pubkey \<Rightarrow> string"
  de_newKey :: "bytes \<Rightarrow> pubkey js"

record deploy_world =
  dw_existing :: "pubkey \<Rightarrow> account_info option js"
  dw_init :: "init_call \<Rightarrow> string js"
  dw_created :: "pubkey \<Rightarrow> account_info option js"

datatype deploy_status = StatusDeployed | StatusExists | StatusBadTreasury | StatusFailed

definition read_treasury :: "deploy_env \<Rightarrow> account_info \<Rightarrow> pubkey js" where
  "read_treasury D info = de_newKey D (subarray (acc_data info) OFF_TREASURY (OFF_TREASURY + 32))"

definition initialize_pool :: "deploy_env \<Rightarrow> pubkey \<Rightarrow> deploy_world \<Rightarrow> init_call \<Rightarrow> deploy_status js" where
  "initialize_pool D treasury W call =
     js_bind (dw_init W call) (\<lambda>sig.
     js_bind (dw_created W (ic_pool call)) (\<lambda>r. case r of
         None \<Rightarrow> Throws ''Cannot read properties of null''
       | Some info \<Rightarrow> js_bind (read_treasury D info) (\<lambda>written.
           Returns (if written = treasury then StatusDeployed else StatusBadTreasury))))"

definition deploy_pool :: "deploy_env \<Rightarrow> pubkey \<Rightarrow> deploy_world \<Rightarrow> pool_spec \<Rightarrow> (string \<times> string \<times> deploy_status) js" where
  "deploy_pool D treasury W pool =
     (let version = (case ps_version pool of Some v \<Rightarrow> v | None \<Rightarrow> de_VERSION D) in
      js_bind (deploy_findPoolPda (de_pda D) (de_admin D) (ps_lamports pool) version (de_programId D)) (\<lambda>poolPda.
      js_bind (deploy_findVaultPda (de_pda D) poolPda (de_programId D)) (\<lambda>vaultPda.
      js_bind (dw_existing W poolPda) (\<lambda>existing.
      js_bind (case existing of
          Some info \<Rightarrow> js_bind (read_treasury D info) (\<lambda>t. Returns (if t = treasury then StatusExists else StatusBadTreasury))
        | None \<Rightarrow>
            (case initialize_pool D treasury W \<lparr>ic_denomination = ps_lamports pool, ic_version = version, ic_admin = de_admin D,
                ic_pool = poolPda, ic_vault = vaultPda, ic_treasury = treasury\<rparr> of
               Returns status \<Rightarrow> Returns status
             | Throws e \<Rightarrow> Returns StatusFailed)) (\<lambda>status.
      Returns (ps_label pool, de_toBase58 D poolPda, status))))))"

fun deploy_loop :: "deploy_env \<Rightarrow> pubkey \<Rightarrow> (nat \<Rightarrow> deploy_world) \<Rightarrow> nat \<Rightarrow> pool_spec list \<Rightarrow> (string \<times> string \<times> deploy_status) list js" where
  "deploy_loop D treasury W i [] = Returns []"
| "deploy_loop D treasury W i (p # ps) =
     js_bind (deploy_pool D treasury (W i) p) (\<lambda>r. js_bind (deploy_loop D treasury W (Suc i) ps) (\<lambda>rs. Returns (r # rs)))"

definition deploy_treasury :: "deploy_env \<Rightarrow> pubkey js" where
  "deploy_treasury D =
     (case de_treasury D of None \<Rightarrow> Returns (de_admin D) | Some s \<Rightarrow> if s = [] then Returns (de_admin D) else de_parse D s)"

definition deploy_results :: "deploy_env \<Rightarrow> (nat \<Rightarrow> deploy_world) \<Rightarrow> string list \<Rightarrow> (string \<times> string \<times> deploy_status) list js" where
  "deploy_results D W args =
     js_bind (de_setup D) (\<lambda>u.
       if selected_pools args = [] then Throws ''No matching pools.''
       else js_bind (deploy_treasury D) (\<lambda>treasury. js_bind (de_balance D) (\<lambda>b. deploy_loop D treasury W 0 (selected_pools args))))"

text \<open>The exit code: 1 also for whatever is thrown.\<close>

definition deploy_pools_main :: "deploy_env \<Rightarrow> (nat \<Rightarrow> deploy_world) \<Rightarrow> string list \<Rightarrow> nat" where
  "deploy_pools_main D W args =
     (case deploy_results D W args of
        Throws e \<Rightarrow> 1
      | Returns results \<Rightarrow> if filter (\<lambda>(l, a, s). s \<noteq> StatusDeployed \<and> s \<noteq> StatusExists) results = [] then 0 else 1)"

text \<open>
  The account found at a pool's address, before or after the transaction, whose treasury was read and is
  the intended one.
\<close>

definition verified_at :: "deploy_env \<Rightarrow> pubkey \<Rightarrow> deploy_world \<Rightarrow> pool_spec \<Rightarrow> pubkey \<Rightarrow> bool" where
  "verified_at D T W p k \<longleftrightarrow>
     findPoolPda (de_pda D) (de_programId D) (de_admin D) (ps_lamports p) (case ps_version p of Some v \<Rightarrow> v | None \<Rightarrow> de_VERSION D) = Returns k
     \<and> (\<exists>info. (dw_existing W k = Returns (Some info) \<or> dw_existing W k = Returns None \<and> dw_created W k = Returns (Some info))
         \<and> read_treasury D info = Returns T)"

lemma deploy_pool_safe:
  assumes "deploy_pool D T W p = Returns (l, a, s)" "s = StatusDeployed \<or> s = StatusExists"
  shows "\<exists>k. verified_at D T W p k \<and> a = de_toBase58 D k"
  using assms unfolding deploy_pool_def verified_at_def
  by (auto simp: js_bind_eq_Returns initialize_pool_def Let_def deployed_addresses_agree split: option.splits js.splits if_splits)

lemma deploy_loop_safe:
  assumes "deploy_loop D T W i ps = Returns rs" "list_all (\<lambda>(l, a, s). s = StatusDeployed \<or> s = StatusExists) rs"
  shows "list_all2 (\<lambda>(j, p) (l, a, s). \<exists>k. verified_at D T (W j) p k \<and> a = de_toBase58 D k) (zip [i..<i + length ps] ps) rs"
  using assms
proof (induction D T W i ps arbitrary: rs rule: deploy_loop.induct)
  case (2 D T W i p ps)
  obtain l a s rs' where r: "deploy_pool D T (W i) p = Returns (l, a, s)" "deploy_loop D T W (Suc i) ps = Returns rs'" "rs = (l, a, s) # rs'"
    using 2(2) by (auto simp: js_bind_eq_Returns)
  have u: "[i..<i + length (p # ps)] = i # [Suc i..<Suc i + length ps]" by (simp add: upt_conv_Cons del: upt_Suc)
  show ?case
    using deploy_pool_safe [OF r(1)] 2(1) [OF r(2)] 2(3) unfolding r(3) u by simp
qed simp

lemma list_all2_right: "list_all2 P xs ys \<Longrightarrow> y \<in> set ys \<Longrightarrow> \<exists>x. P x y"
  by (induction rule: list_all2_induct) auto

lemma deploy_results_good:
  assumes "deploy_pools_main D W args = 0"
  shows "\<exists>T rs. deploy_treasury D = Returns T \<and> deploy_results D W args = Returns rs \<and> rs \<noteq> []
    \<and> list_all2 (\<lambda>(j, p) (l, a, s). \<exists>k. verified_at D T (W j) p k \<and> a = de_toBase58 D k)
         (zip [0..<length (selected_pools args)] (selected_pools args)) rs"
proof -
  obtain rs where rs: "deploy_results D W args = Returns rs" "filter (\<lambda>(l, a, s). s \<noteq> StatusDeployed \<and> s \<noteq> StatusExists) rs = []"
    using assms by (auto simp: deploy_pools_main_def split: js.splits if_splits)
  then obtain T where t: "deploy_treasury D = Returns T" "deploy_loop D T W 0 (selected_pools args) = Returns rs" "selected_pools args \<noteq> []"
    by (auto simp: deploy_results_def js_bind_eq_Returns split: if_splits)
  have "list_all (\<lambda>(l, a, s). s = StatusDeployed \<or> s = StatusExists) rs"
    using rs(2) by (auto simp: filter_empty_conv list_all_iff)
  then have l: "list_all2 (\<lambda>(j, p) (l, a, s). \<exists>k. verified_at D T (W j) p k \<and> a = de_toBase58 D k)
       (zip [0..<length (selected_pools args)] (selected_pools args)) rs"
    using deploy_loop_safe [OF t(2)] by simp
  then have "rs \<noteq> []" using t(3) list_all2_lengthD [OF l] by auto
  with l t(1) rs(1) show ?thesis by blast
qed

text \<open>
  When a deployment succeeds, every selected pool has an account at the address the app derives, and the
  treasury read from it is the intended one. If those accounts are what the check later reads, pools of
  this program under the same admin, then the check of the printed addresses succeeds too.
\<close>

theorem deployed_pools_pass_the_check:
  assumes "deploy_pools_main D W args = 0"
    and "ce_treasury E = Some t" "t \<noteq> []" "deploy_treasury D = Returns T" "ce_parse E t = Returns T"
    and "ce_admin E = Some (de_toBase58 D (de_admin D))" "de_toBase58 D (de_admin D) \<noteq> []"
    and "\<And>k. ce_parse E (de_toBase58 D k) = Returns k" "ce_toBase58 E = de_toBase58 D"
    and "\<And>b. length b = 32 \<Longrightarrow> de_newKey D b = Returns b"
    and "\<And>j k info. dw_existing (W j) k = Returns (Some info) \<or> dw_created (W j) k = Returns (Some info)
        \<Longrightarrow> ce_account E k = Returns (Some info) \<and> is_pool (ce_programId E) info \<and> subarray (acc_data info) 8 40 = de_admin D"
  shows "\<exists>rs. deploy_results D W args = Returns rs \<and> check_pools_main E (map (\<lambda>(l, a, s). a) rs) config = 0"
proof -
  obtain rs where rs: "deploy_results D W args = Returns rs" "rs \<noteq> []"
      "list_all2 (\<lambda>(j, p) (l, a, s). \<exists>k. verified_at D T (W j) p k \<and> a = de_toBase58 D k)
         (zip [0..<length (selected_pools args)] (selected_pools args)) rs"
    using deploy_results_good [OF assms(1)] assms(4) by auto
  have good: "good_pool E T (de_toBase58 D k)" if v: "verified_at D T (W j) p k" for j p k
  proof -
    obtain info where i: "dw_existing (W j) k = Returns (Some info) \<or> dw_created (W j) k = Returns (Some info)" "read_treasury D info = Returns T"
      using v by (auto simp: verified_at_def)
    note c = assms(11) [OF i(1)]
    then have "length (subarray (acc_data info) 96 128) = 32" by (auto simp: is_pool_def pool_offsets length_subarray)
    then have "subarray (acc_data info) 96 128 = T" using i(2) assms(10) by (simp add: read_treasury_def pool_offsets)
    then show ?thesis using c assms(6-9) by (auto simp: good_pool_def expected_admin_def)
  qed
  have "good_pool E T a" if m: "(l, a, s) \<in> set rs" for l a s
  proof -
    obtain x where "(\<lambda>(j, p) (l, a, s). \<exists>k. verified_at D T (W j) p k \<and> a = de_toBase58 D k) x (l, a, s)"
      using list_all2_right [OF rs(3) m] by blast
    then show ?thesis using good by auto
  qed
  then have "check_pools_main E (map (\<lambda>(l, a, s). a) rs) config = 0"
    using assms(2,3,5) rs(2) by (auto simp: check_passes_iff)
  with rs(1) show ?thesis by blast
qed

text \<open>
  An address that holds anything at all counts as deployed: lamports that someone sent to the pool's
  address before it exists make an account without data, whose treasury is read from no bytes, and the
  deployment of that pool is refused as one with a wrong treasury.
\<close>

lemma prefunded_address_refused:
  assumes "deploy_findPoolPda (de_pda D) (de_admin D) (ps_lamports p) v (de_programId D) = Returns k" "ps_version p = Some v"
    and "deploy_findVaultPda (de_pda D) k (de_programId D) = Returns vault"
    and "dw_existing W k = Returns (Some \<lparr>acc_owner = system, acc_data = [], acc_lamports = lamports\<rparr>)"
    and "de_newKey D [] = Returns z" "z \<noteq> T"
  shows "deploy_pool D T W p = Returns (ps_label p, de_toBase58 D k, StatusBadTreasury)"
  using assms by (simp add: deploy_pool_def read_treasury_def subarray_def)

text \<open>A filter selects exactly the pools whose label, with or without its unit, it names.\<close>

lemma selection_exact:
  "args \<noteq> [] \<Longrightarrow> set (selected_pools args) = {p \<in> set ALL_POOLS. ps_label p \<in> set args \<or> (\<exists>a\<in>set args. ps_label p = a @ '' SOL'')}"
proof -
  assume "args \<noteq> []"
  moreover have "remove_first '' SOL'' (ps_label p) = a \<longleftrightarrow> ps_label p = a @ '' SOL''" if "p \<in> set ALL_POOLS" for p a
  proof -
    have "ps_label p = remove_first '' SOL'' (ps_label p) @ '' SOL''" using that by (auto simp: ALL_POOLS_def)
    then show ?thesis by (metis append_same_eq)
  qed
  ultimately show ?thesis by (auto simp: selected_pools_def list_ex_iff)
qed

end
