(* ===== verification/Stealth.thy ===== *)
theory Stealth
  imports Note
begin

text \<open>
  Stealth addresses, sdk/src/stealth.ts: an address derived from a shared secret of an ephemeral key and
  the recipient's scan key. The curve, SHA-256, the keypair of a seed and randomness are parameters;
  what is proved is that the recipient recovers exactly the keypair of the address the sender made, and
  recognises no other address.
\<close>

subsection \<open>The libraries\<close>

record keypair =
  kp_seed :: bytes
  kp_public :: pubkey

record 'p curve =
  cv_scalar :: "bytes \<Rightarrow> int js"
  cv_fromHex :: "string \<Rightarrow> 'p js"
  cv_multiply :: "'p \<Rightarrow> int \<Rightarrow> 'p js"
  cv_toBytes :: "'p \<Rightarrow> bytes"
  cv_sha256 :: "bytes \<Rightarrow> bytes"
  cv_fromSeed :: "bytes \<Rightarrow> keypair js"

subsection \<open>Helpers\<close>

definition privToScalar :: "'p curve \<Rightarrow> bytes \<Rightarrow> int js" where
  "privToScalar C seed = cv_scalar C seed"

definition bytesToHex :: "bytes \<Rightarrow> string" where
  "bytesToHex bs = concat (map (\<lambda>b. padStart 2 (CHR ''0'') (big_to_string 16 (uint b))) bs)"

definition ecdh :: "'p curve \<Rightarrow> bytes \<Rightarrow> bytes \<Rightarrow> bytes js" where
  "ecdh C privSeed pubBytes =
     js_bind (privToScalar C privSeed) (\<lambda>scalar.
     js_bind (cv_fromHex C (bytesToHex pubBytes)) (\<lambda>point.
     js_bind (cv_multiply C point scalar) (\<lambda>shared. Returns (cv_toBytes C shared))))"

text \<open>\<open>a.set(xs, off)\<close> on an array of bytes long enough.\<close>

definition array_set :: "bytes \<Rightarrow> bytes \<Rightarrow> nat \<Rightarrow> bytes" where
  "array_set a xs off = take off a @ xs @ drop (off + length xs) a"

definition deriveStealthSeed :: "'p curve \<Rightarrow> bytes \<Rightarrow> bytes \<Rightarrow> bytes" where
  "deriveStealthSeed C sharedPointBytes spendPubBytes =
     (let combined = replicate (length sharedPointBytes + length spendPubBytes) 0;
          combined = array_set combined sharedPointBytes 0;
          combined = array_set combined spendPubBytes (length sharedPointBytes)
      in cv_sha256 C combined)"

lemma deriveStealthSeed_eq: "deriveStealthSeed C shared spend = cv_sha256 C (shared @ spend)"
  by (simp add: deriveStealthSeed_def array_set_def)

lemma bytesToHex_eq: "bytesToHex bs = hex_key bs"
proof -
  have "padStart 2 (CHR ''0'') (big_to_string 16 (uint b)) = [digit_char (unat b div 16), digit_char (unat b mod 16)]" for b :: byte
  proof -
    have n: "unat b < 256" by (rule byte_digits)
    have u: "nat (uint b) = unat b" by simp
    show ?thesis
    proof (cases "unat b < 16")
      case True
      then have "to_digits 16 (unat b) = [digit_char (unat b)]" by (subst to_digits.simps) simp
      moreover have "digit_char 0 = CHR ''0''" by (rule digit_char_0)
      ultimately show ?thesis using True by (simp add: big_to_string_def u padStart_def)
    next
      case False
      then have "to_digits 16 (unat b) = to_digits 16 (unat b div 16) @ [digit_char (unat b mod 16)]" by (subst to_digits.simps) simp
      moreover have "unat b div 16 < 16" using n by simp
      then have "to_digits 16 (unat b div 16) = [digit_char (unat b div 16)]" by (subst to_digits.simps) simp
      ultimately show ?thesis by (simp add: big_to_string_def u padStart_def)
    qed
  qed
  then show ?thesis by (simp add: bytesToHex_def hex_key_def)
qed

subsection \<open>The interface\<close>

record stealth =
  st_stealthAddress :: pubkey
  st_ephemeralKey :: keypair

definition generateStealthAddress :: "'p curve \<Rightarrow> bytes \<Rightarrow> pubkey \<Rightarrow> pubkey \<Rightarrow> stealth js" where
  "generateStealthAddress C ephSeed scanPubkey spendPubkey =
     js_bind (cv_fromSeed C ephSeed) (\<lambda>ephKeypair.
     js_bind (ecdh C ephSeed scanPubkey) (\<lambda>sharedBytes.
     js_bind (cv_fromSeed C (deriveStealthSeed C sharedBytes spendPubkey)) (\<lambda>stealthKeypair.
     Returns \<lparr>st_stealthAddress = kp_public stealthKeypair, st_ephemeralKey = ephKeypair\<rparr>)))"

definition recoverStealthKeypair :: "'p curve \<Rightarrow> bytes \<Rightarrow> pubkey \<Rightarrow> pubkey \<Rightarrow> keypair js" where
  "recoverStealthKeypair C scanSeed spendPubkey ephemeralPubkey =
     js_bind (ecdh C scanSeed ephemeralPubkey) (\<lambda>sharedBytes.
     cv_fromSeed C (deriveStealthSeed C sharedBytes spendPubkey))"

definition isMyStealthAddress :: "'p curve \<Rightarrow> bytes \<Rightarrow> pubkey \<Rightarrow> pubkey \<Rightarrow> pubkey \<Rightarrow> bool js" where
  "isMyStealthAddress C scanSeed spendPubkey ephemeralPubkey candidateAddress =
     js_bind (recoverStealthKeypair C scanSeed spendPubkey ephemeralPubkey) (\<lambda>recovered.
     Returns (kp_public recovered = candidateAddress))"

subsection \<open>What the code relies on\<close>

text \<open>
  The documented behaviour of the curve library: with a base point of its own, the public key of a
  keypair is the encoding of the base point times the seed's scalar, an encoding of such a point decodes
  to it, and multiplications by two scalars commute.
\<close>

definition curve_laws :: "'p \<Rightarrow> 'p curve \<Rightarrow> bool" where
  "curve_laws G C \<longleftrightarrow>
     (\<forall>s k. cv_fromSeed C s = Returns k \<longrightarrow> kp_seed k = s
        \<and> (\<exists>a P. cv_scalar C s = Returns a \<and> cv_multiply C G a = Returns P \<and> kp_public k = cv_toBytes C P))
     \<and> (\<forall>a P. cv_multiply C G a = Returns P \<longrightarrow> cv_fromHex C (hex_key (cv_toBytes C P)) = Returns P)
     \<and> (\<forall>a b P Q. cv_multiply C G a = Returns P \<longrightarrow> cv_multiply C G b = Returns Q \<longrightarrow> cv_multiply C P b = cv_multiply C Q a)"

lemma ecdh_symmetric:
  assumes "curve_laws G C" "cv_fromSeed C s = Returns k" "cv_fromSeed C t = Returns l"
  shows "ecdh C s (kp_public l) = ecdh C t (kp_public k)"
proof -
  obtain a P where k: "cv_scalar C s = Returns a" "cv_multiply C G a = Returns P" "kp_public k = cv_toBytes C P"
    using assms unfolding curve_laws_def by blast
  obtain b Q where l: "cv_scalar C t = Returns b" "cv_multiply C G b = Returns Q" "kp_public l = cv_toBytes C Q"
    using assms unfolding curve_laws_def by blast
  have "cv_fromHex C (hex_key (cv_toBytes C P)) = Returns P" "cv_fromHex C (hex_key (cv_toBytes C Q)) = Returns Q"
      "cv_multiply C Q a = cv_multiply C P b"
    using assms(1) k(2) l(2) unfolding curve_laws_def by blast+
  then show ?thesis by (simp add: ecdh_def privToScalar_def bytesToHex_eq k l)
qed

text \<open>
  C33. Whatever the sender derives, the recipient recovers: from the scan seed and the published ephemeral key
  the recipient gets a keypair whose public key is the stealth address, so it can spend from it; and the
  test for one's own address accepts that address and no other.
\<close>

theorem stealth_is_recovered:
  assumes "curve_laws G C" "cv_fromSeed C scanSeed = Returns scanKey"
    and "generateStealthAddress C ephSeed (kp_public scanKey) spendPubkey = Returns r"
  shows "(\<exists>k. recoverStealthKeypair C scanSeed spendPubkey (kp_public (st_ephemeralKey r)) = Returns k
        \<and> kp_public k = st_stealthAddress r)
    \<and> isMyStealthAddress C scanSeed spendPubkey (kp_public (st_ephemeralKey r)) candidate
        = Returns (candidate = st_stealthAddress r)"
proof -
  obtain eph shared k where g: "cv_fromSeed C ephSeed = Returns eph" "ecdh C ephSeed (kp_public scanKey) = Returns shared"
      "cv_fromSeed C (deriveStealthSeed C shared spendPubkey) = Returns k" "r = \<lparr>st_stealthAddress = kp_public k, st_ephemeralKey = eph\<rparr>"
    using assms(3) by (auto simp: generateStealthAddress_def js_bind_eq_Returns)
  have "ecdh C scanSeed (kp_public eph) = Returns shared"
    using ecdh_symmetric [OF assms(1,2) g(1)] g(2) by simp
  then have "recoverStealthKeypair C scanSeed spendPubkey (kp_public (st_ephemeralKey r)) = Returns k"
    using g(3,4) by (simp add: recoverStealthKeypair_def)
  then show ?thesis using g(4) by (auto simp: isMyStealthAddress_def)
qed

text \<open>A group that meets the laws: the integers modulo 251 under addition.\<close>

definition clock_curve :: "int curve" where
  "clock_curve = \<lparr>cv_scalar = (\<lambda>s. Returns (be_int s)), cv_fromHex = (\<lambda>h. Returns (be_int (hex_buffer h))),
     cv_multiply = (\<lambda>P a. Returns (P * a mod 251)), cv_toBytes = be_bytes 32, cv_sha256 = rev,
     cv_fromSeed = (\<lambda>s. Returns \<lparr>kp_seed = s, kp_public = be_bytes 32 (be_int s mod 251)\<rparr>)\<rparr>"

lemma clock_curve_laws: "curve_laws 1 clock_curve"
proof -
  have "be_int (be_bytes 32 (x mod 251)) = x mod 251" for x :: int
    using pos_mod_bound [of 251 x] pos_mod_sign [of 251 x] by (subst be_int_be_bytes) simp_all
  then show ?thesis
    by (auto simp: curve_laws_def clock_curve_def hex_buffer_hex_key mod_simps mult.commute)
qed

lemma stealth_is_recovered_witness:
  "\<exists>r k. generateStealthAddress clock_curve [7, 9] (be_bytes 32 6) [1] = Returns r
     \<and> recoverStealthKeypair clock_curve [6] [1] (kp_public (st_ephemeralKey r)) = Returns k \<and> kp_public k = st_stealthAddress r"
proof -
  have s: "cv_fromSeed clock_curve [6] = Returns \<lparr>kp_seed = [6], kp_public = be_bytes 32 6\<rparr>"
    by (simp add: clock_curve_def be_int_def be_step_def)
  have "\<exists>r. generateStealthAddress clock_curve [7, 9] (be_bytes 32 6) [1] = Returns r"
    by (simp add: generateStealthAddress_def ecdh_def privToScalar_def clock_curve_def)
  then obtain r where r: "generateStealthAddress clock_curve [7, 9] (be_bytes 32 6) [1] = Returns r" by blast
  show ?thesis
    using stealth_is_recovered [OF clock_curve_laws s, of "[7, 9]" "[1]" r] r by auto
qed

end
