(* ===== verification/ViteBuild.thy ===== *)
theory ViteBuild
  imports AppConfig AppClient "HOL-Library.Sublist"
begin

text \<open>
  What the build adds to the app, app/vite.config.ts: the content-security policy, the refusal of an
  endpoint for which wallets would sign on another network, and the removal of remote fonts. The URL
  parser, the wallet library's guess and Vite's \<open>loadEnv\<close> are parameters. What is proved: a browser
  that reads the policy of the built page may connect to exactly the endpoints that app/src/config.ts
  gives the bundle.
\<close>

subsection \<open>The environment\<close>

text \<open>
  Two environments: the one \<open>defineConfig\<close> merges for the configuration, \<open>{...loadEnv(mode, cwd, ''),
  ...process.env}\<close>, and the \<open>import.meta.env\<close> of the bundle. Vite documents \<open>loadEnv\<close>: the variables of
  the mode's .env files and of the shell whose names start with the prefix, the shell first; the bundle
  gets those with the prefix \<open>VITE_\<close>.
\<close>

type_synonym env_dict = "string \<Rightarrow> string option"

definition config_env :: "(string \<Rightarrow> env_dict) \<Rightarrow> env_dict \<Rightarrow> env_dict" where
  "config_env loadEnv process_env = loadEnv [] ++ process_env"

definition env_of :: "env_dict \<Rightarrow> app_env" where
  "env_of env = \<lparr>VITE_SOLANA_NETWORK = env ''VITE_SOLANA_NETWORK'', VITE_RPC_ENDPOINT = env ''VITE_RPC_ENDPOINT'',
     VITE_RELAYER_URL = env ''VITE_RELAYER_URL'', VITE_PROGRAM_ID = env ''VITE_PROGRAM_ID'', VITE_POOLS = env ''VITE_POOLS''\<rparr>"

definition vite_env :: "(string \<Rightarrow> env_dict) \<Rightarrow> env_dict \<Rightarrow> env_dict \<Rightarrow> bool" where
  "vite_env loadEnv files shell \<longleftrightarrow> (\<forall>p k. loadEnv p k = (if starts_with k p then (files ++ shell) k else None))"

lemma vite_envs_agree:
  assumes "vite_env loadEnv files shell"
  shows "env_of (config_env loadEnv shell) = env_of (loadEnv ''VITE_'')"
proof -
  have e: "loadEnv p k = (if starts_with k p then (files ++ shell) k else None)" for p k
    using assms by (simp add: vite_env_def)
  have "config_env loadEnv shell k = loadEnv ''VITE_'' k" if "starts_with k ''VITE_''" for k
    using that by (simp add: config_env_def e map_add_def split: option.split)
  moreover have "list_all (\<lambda>k. starts_with k ''VITE_'') [''VITE_SOLANA_NETWORK'', ''VITE_RPC_ENDPOINT'', ''VITE_RELAYER_URL'', ''VITE_PROGRAM_ID'', ''VITE_POOLS'']"
    by code_simp
  ultimately show ?thesis by (simp add: env_of_def)
qed

subsection \<open>The policy\<close>

text \<open>\<open>origin(url)\<close>: no origin for an empty, missing or unparseable URL.\<close>

definition csp_origin :: "(string \<Rightarrow> string js) \<Rightarrow> string option \<Rightarrow> string list" where
  "csp_origin url_origin url =
     (case url of None \<Rightarrow> []
      | Some u \<Rightarrow> if u = [] then [] else (case url_origin u of Returns o' \<Rightarrow> [o'] | Throws e \<Rightarrow> []))"

text \<open>\<open>o.replace(/^http/, 'ws')\<close>.\<close>

definition to_ws :: "string \<Rightarrow> string" where
  "to_ws s = (if starts_with s ''http'' then ''ws'' @ drop 4 s else s)"

definition default_rpc :: "string \<Rightarrow> string list" where
  "default_rpc network =
     (if network = ''mainnet-beta'' then [''https://api.mainnet-beta.solana.com''] else [''https://api.'' @ network @ ''.solana.com''])"

definition self_source :: string where "self_source = CHR 0x27 # ''self'' @ [CHR 0x27]"

definition connect_sources :: "(string \<Rightarrow> string js) \<Rightarrow> app_env \<Rightarrow> string list" where
  "connect_sources url_origin env =
     (let rpc = csp_origin url_origin (VITE_RPC_ENDPOINT env);
          relayer = csp_origin url_origin (Some (or_default (VITE_RELAYER_URL env) ''http://localhost:3000''));
          network = or_default (VITE_SOLANA_NETWORK env) ''devnet''
      in [self_source] @ (if rpc \<noteq> [] then rpc else default_rpc network) @ relayer
         @ (if rpc \<noteq> [] then map to_ws rpc else map to_ws (default_rpc network)) @ [''https://solflare.com''])"

text \<open>\<open>[...new Set(xs)]\<close>: first occurrences, in order.\<close>

fun first_occurrences :: "'a list \<Rightarrow> 'a list" where
  "first_occurrences [] = []"
| "first_occurrences (x # xs) = x # filter (\<lambda>y. y \<noteq> x) (first_occurrences xs)"

definition csp_policy :: "(string \<Rightarrow> string js) \<Rightarrow> app_env \<Rightarrow> string" where
  "csp_policy url_origin env =
     (let q = [CHR 0x27] in
      join_with ''; ''
       [''default-src '' @ self_source,
        ''script-src '' @ self_source @ '' '' @ q @ ''wasm-unsafe-eval'' @ q,
        ''style-src '' @ self_source @ '' '' @ q @ ''unsafe-inline'' @ q,
        ''img-src '' @ self_source @ '' data:'',
        ''font-src '' @ self_source @ '' data:'',
        ''connect-src '' @ join_with '' '' (first_occurrences (connect_sources url_origin env)),
        ''frame-src '' @ self_source @ '' https://solflare.com'',
        ''object-src '' @ q @ ''none'' @ q,
        ''base-uri '' @ self_source,
        ''form-action '' @ q @ ''none'' @ q,
        ''worker-src '' @ self_source @ '' blob:'',
        ''upgrade-insecure-requests''])"

text \<open>\<open>html.replace(a, b)\<close> for a text without a dollar sign in \<open>b\<close>.\<close>

fun replace_once :: "string \<Rightarrow> string \<Rightarrow> string \<Rightarrow> string" where
  "replace_once a b [] = []"
| "replace_once a b (c # s) = (if starts_with (c # s) a then b @ drop (length a) (c # s) else c # replace_once a b s)"

definition csp_meta :: "string \<Rightarrow> string" where
  "csp_meta policy = ''<meta http-equiv='' @ [CHR 0x22] @ ''Content-Security-Policy'' @ [CHR 0x22] @ '' content='' @ [CHR 0x22] @ policy @ [CHR 0x22] @ '' />''"

definition transformIndexHtml :: "(string \<Rightarrow> string js) \<Rightarrow> app_env \<Rightarrow> string \<Rightarrow> string" where
  "transformIndexHtml url_origin env html =
     (let blank = CHR 0x0A # ''    ''; dq = [CHR 0x22] in
      replace_once ''<head>''
       (''<head>'' @ blank @ csp_meta (csp_policy url_origin env) @ blank
        @ ''<meta name='' @ dq @ ''referrer'' @ dq @ '' content='' @ dq @ ''no-referrer'' @ dq @ '' />'') html)"

subsection \<open>The policy and the configuration\<close>

lemma set_first_occurrences [simp]: "set (first_occurrences xs) = set xs"
  by (induction xs) auto

lemma distinct_first_occurrences: "distinct (first_occurrences xs)"
  by (induction xs) auto

definition origin_or :: "(string \<Rightarrow> string js) \<Rightarrow> string \<Rightarrow> string \<Rightarrow> string" where
  "origin_or url_origin u d = (case url_origin u of Returns o' \<Rightarrow> o' | Throws e \<Rightarrow> d)"

definition assertWalletChainMatches :: "(string \<Rightarrow> string) \<Rightarrow> (string \<Rightarrow> string js) \<Rightarrow> app_env \<Rightarrow> unit js" where
  "assertWalletChainMatches getChainForEndpoint url_origin env =
     (let network = or_default (VITE_SOLANA_NETWORK env) ''devnet'';
          endpoint = or_default (VITE_RPC_ENDPOINT env) (''https://api.'' @ network @ ''.solana.com'');
          expected = (if network = ''mainnet-beta'' then ''solana:mainnet'' else ''solana:'' @ network);
          chain = getChainForEndpoint endpoint
      in if chain = expected then Returns ()
         else let place = (case url_origin endpoint of Returns o' \<Rightarrow> o' | Throws e \<Rightarrow> ''(unparseable URL)'') in
           Throws (''VITE_RPC_ENDPOINT ('' @ place @ ''/...) makes wallets sign for '' @ chain @ '', but this build is for '' @ network
             @ ''. Wallet adapters infer the network from the RPC URL, so name it there, for example https://<host>/rpc/'' @ network @ ''.''))"

text \<open>
  The build: the wallet check of \<open>defineConfig\<close>, then the page the policy is injected into.
\<close>

definition build_page :: "(string \<Rightarrow> string js) \<Rightarrow> (string \<Rightarrow> string) \<Rightarrow> (string \<Rightarrow> env_dict) \<Rightarrow> env_dict \<Rightarrow> string \<Rightarrow> string js" where
  "build_page url_origin getChainForEndpoint loadEnv process_env html =
     (let env = env_of (config_env loadEnv process_env) in
      js_bind (assertWalletChainMatches getChainForEndpoint url_origin env) (\<lambda>_. Returns (transformIndexHtml url_origin env html)))"

text \<open>
  How a browser reads a policy: directives end at semicolons and their words at blanks; the first
  directive of a name counts.
\<close>

definition csp_words :: "string \<Rightarrow> string list" where
  "csp_words d = filter (\<lambda>w. w \<noteq> []) (split_on (CHR '' '') d)"

definition csp_directive :: "string \<Rightarrow> string \<Rightarrow> string list option" where
  "csp_directive name policy =
     map_option tl (find (\<lambda>ws. ws \<noteq> [] \<and> hd ws = name) (map csp_words (split_on (CHR '';'') policy)))"

text \<open>A source is one word of a policy: no blank and no semicolon.\<close>

definition csp_source :: "string \<Rightarrow> bool" where
  "csp_source s \<longleftrightarrow> s \<noteq> [] \<and> CHR '' '' \<notin> set s \<and> CHR '';'' \<notin> set s"

lemma csp_words_blank: "csp_words (CHR '' '' # s) = csp_words s"
  by (simp add: csp_words_def)

lemma csp_words_cons: "csp_source w \<Longrightarrow> csp_words (w @ CHR '' '' # s) = w # csp_words s"
  by (simp add: csp_words_def csp_source_def split_on_sep)

lemma csp_words_join:
  assumes "list_all csp_source (w # ws)"
  shows "csp_words (join_with '' '' (w # ws)) = w # ws"
  using assms
proof (induction ws arbitrary: w)
  case Nil
  then show ?case by (simp add: join_with_def csp_words_def csp_source_def split_on_other)
next
  case (Cons v vs)
  have "join_with '' '' (w # v # vs) = w @ CHR '' '' # join_with '' '' (v # vs)" by (simp add: join_with_def)
  then show ?case using Cons by (simp add: csp_words_cons)
qed

lemma split_on_directives:
  assumes "list_all (\<lambda>d. CHR '';'' \<notin> set d) (d # ds)"
  shows "split_on (CHR '';'') (join_with ''; '' (d # ds)) = d # map ((#) (CHR '' '')) ds"
  using assms
proof (induction ds arbitrary: d)
  case Nil
  then show ?case by (simp add: join_with_def split_on_other)
next
  case (Cons e es)
  have "join_with ''; '' (d # e # es) = d @ CHR '';'' # CHR '' '' # join_with ''; '' (e # es)" by (simp add: join_with_def)
  moreover have "split_on (CHR '';'') (CHR '' '' # join_with ''; '' (e # es)) = (CHR '' '' # e) # map ((#) (CHR '' '')) es"
    using Cons by simp
  ultimately show ?case using Cons.prems by (simp add: split_on_sep)
qed

lemma csp_directive_join:
  assumes "list_all (\<lambda>d. CHR '';'' \<notin> set d) (d # ds)"
  shows "csp_directive name (join_with ''; '' (d # ds)) = map_option tl (find (\<lambda>ws. ws \<noteq> [] \<and> hd ws = name) (map csp_words (d # ds)))"
proof -
  have "map (csp_words \<circ> (#) (CHR '' '')) ds = map csp_words ds" by (simp add: csp_words_blank)
  then show ?thesis unfolding csp_directive_def split_on_directives [OF assms] list.map map_map by (simp only:)
qed

lemma join_with_set: "set (join_with sep xs) \<subseteq> set sep \<union> (\<Union>x\<in>set xs. set x)"
  by (cases xs) (auto simp: join_with_def)

text \<open>The directive of the emitted text is the list the build computed.\<close>

lemma connect_src_of_policy:
  assumes "list_all csp_source (connect_sources url_origin env)"
  shows "csp_directive ''connect-src'' (csp_policy url_origin env) = Some (first_occurrences (connect_sources url_origin env))"
proof -
  define xs where "xs = first_occurrences (connect_sources url_origin env)"
  have xs: "list_all csp_source xs" using assms by (simp add: xs_def list_all_iff)
  obtain x xs' where x: "xs = x # xs'" by (simp add: xs_def connect_sources_def Let_def)
  have j: "''connect-src '' @ join_with '' '' xs = join_with '' '' (''connect-src'' # xs)"
    by (simp add: x join_with_def)
  have "csp_source ''connect-src''" by code_simp
  then have w: "csp_words (''connect-src '' @ join_with '' '' xs) = ''connect-src'' # xs"
    unfolding j by (intro csp_words_join) (simp add: xs)
  have s: "CHR '';'' \<notin> set (''connect-src '' @ join_with '' '' xs)"
    using xs join_with_set [of "'' ''" xs] by (auto simp: list_all_iff csp_source_def)
  define q where "q = [CHR 0x27]"
  define A where "A = [''default-src '' @ self_source, ''script-src '' @ self_source @ '' '' @ q @ ''wasm-unsafe-eval'' @ q,
        ''style-src '' @ self_source @ '' '' @ q @ ''unsafe-inline'' @ q, ''img-src '' @ self_source @ '' data:'', ''font-src '' @ self_source @ '' data:'']"
  define B where "B = [''frame-src '' @ self_source @ '' https://solflare.com'', ''object-src '' @ q @ ''none'' @ q, ''base-uri '' @ self_source,
        ''form-action '' @ q @ ''none'' @ q, ''worker-src '' @ self_source @ '' blob:'', ''upgrade-insecure-requests'']"
  have p: "csp_policy url_origin env = join_with ''; '' (A @ (''connect-src '' @ join_with '' '' xs) # B)"
    by (simp add: csp_policy_def Let_def xs_def A_def B_def q_def)
  have A: "list_all (\<lambda>d. CHR '';'' \<notin> set d) A" "list_all (\<lambda>d. csp_words d \<noteq> [] \<and> hd (csp_words d) \<noteq> ''connect-src'') A" "A = hd A # tl A"
    unfolding A_def q_def by code_simp+
  have B: "list_all (\<lambda>d. CHR '';'' \<notin> set d) B" unfolding B_def q_def by code_simp
  have c: "A @ (''connect-src '' @ join_with '' '' xs) # B = hd A # (tl A @ (''connect-src '' @ join_with '' '' xs) # B)"
    using A(3) by (metis append_Cons)
  have l: "list_all (\<lambda>d. CHR '';'' \<notin> set d) (A @ (''connect-src '' @ join_with '' '' xs) # B)"
    using A(1) B s by simp
  have f: "find P (map csp_words D @ (''connect-src'' # xs) # r) = Some (''connect-src'' # xs)"
    if "list_all (\<lambda>d. \<not> P (csp_words d)) D" "P (''connect-src'' # xs)" for P D r
    using that by (induction D) auto
  have "csp_directive ''connect-src'' (csp_policy url_origin env)
      = map_option tl (find (\<lambda>ws. ws \<noteq> [] \<and> hd ws = ''connect-src'') (map csp_words (A @ (''connect-src '' @ join_with '' '' xs) # B)))"
    unfolding p using csp_directive_join [of "hd A"] l unfolding c by blast
  also have "\<dots> = map_option tl (Some (''connect-src'' # xs))"
    unfolding map_append list.map w by (rule arg_cong [OF f]) (use A(2) in \<open>simp_all add: list_all_iff\<close>)
  finally show ?thesis by (simp add: xs_def)
qed

lemma replace_once_found:
  assumes "str_includes s a" "a \<noteq> []"
  shows "\<exists>p r. s = p @ a @ r \<and> replace_once a b s = p @ b @ r"
  using assms(1)
proof (induction s)
  case Nil
  then show ?case using assms(2) by (cases a) simp_all
next
  case (Cons c s)
  show ?case
  proof (cases "starts_with (c # s) a")
    case True
    then obtain v where "c # s = a @ v" using starts_with_iff by blast
    then have "replace_once a b (c # s) = b @ v" using True by (metis append_eq_conv_conj replace_once.simps(2))
    then have "c # s = [] @ a @ v \<and> replace_once a b (c # s) = [] @ b @ v" using \<open>c # s = a @ v\<close> by simp
    then show ?thesis by blast
  next
    case False
    then have "str_includes s a" using Cons.prems by simp
    then obtain p r where "s = p @ a @ r" "replace_once a b s = p @ b @ r" using Cons.IH by blast
    then have "c # s = (c # p) @ a @ r \<and> replace_once a b (c # s) = (c # p) @ b @ r" using False by simp
    then show ?thesis by blast
  qed
qed

lemma html_has_policy:
  assumes "str_includes html ''<head>''"
  shows "\<exists>p r w c. html = p @ ''<head>'' @ r \<and> transformIndexHtml url_origin env html = p @ ''<head>'' @ w @ csp_meta (csp_policy url_origin env) @ c @ r
    \<and> list_all is_space w"
proof -
  let ?blank = "CHR 0x0A # ''    ''"
  obtain c where c: "transformIndexHtml url_origin env html = replace_once ''<head>'' (''<head>'' @ ?blank @ csp_meta (csp_policy url_origin env) @ c) html"
    unfolding transformIndexHtml_def Let_def by blast
  obtain p r where "html = p @ ''<head>'' @ r" "transformIndexHtml url_origin env html = p @ (''<head>'' @ ?blank @ csp_meta (csp_policy url_origin env) @ c) @ r"
    using replace_once_found [OF assms, of "''<head>'' @ ?blank @ csp_meta (csp_policy url_origin env) @ c"] unfolding c by blast
  moreover have "list_all is_space ?blank" by code_simp
  ultimately show ?thesis by (metis append.assoc)
qed

text \<open>The list of sources, for endpoints that are URLs.\<close>

lemma connect_sources_are:
  assumes "url_origin (RELAYER_URL env) = url_origin (or_default (VITE_RELAYER_URL env) ''http://localhost:3000'')"
    and "url_origin (RELAYER_URL env) = Returns relayer" "VITE_RELAYER_URL env \<noteq> Some []"
    and "url_origin (clusterApiUrl (NETWORK env)) = Returns (''https://api.'' @ NETWORK env @ ''.solana.com'')"
    and "url_origin (RPC_ENDPOINT clusterApiUrl env) = Returns rpc" "VITE_RPC_ENDPOINT env \<noteq> Some []"
  shows "connect_sources url_origin env = [self_source, rpc, relayer, to_ws rpc, ''https://solflare.com'']"
proof -
  have r: "csp_origin url_origin (Some (or_default (VITE_RELAYER_URL env) ''http://localhost:3000'')) = [relayer]"
  proof -
    have "url_origin (or_default (VITE_RELAYER_URL env) ''http://localhost:3000'') = Returns relayer" using assms(1,2) by simp
    moreover have "or_default (VITE_RELAYER_URL env) ''http://localhost:3000'' \<noteq> []"
      using assms(3) by (cases "VITE_RELAYER_URL env") (auto simp: or_default_def)
    ultimately show ?thesis by (simp add: csp_origin_def)
  qed
  have d: "default_rpc (NETWORK env) = [''https://api.'' @ NETWORK env @ ''.solana.com'']"
    by (simp add: default_rpc_def)
  have c: "(if csp_origin url_origin (VITE_RPC_ENDPOINT env) \<noteq> [] then csp_origin url_origin (VITE_RPC_ENDPOINT env)
      else default_rpc (NETWORK env)) = [rpc]"
  proof (cases "VITE_RPC_ENDPOINT env")
    case None
    then have "url_origin (clusterApiUrl (NETWORK env)) = Returns rpc" using assms(5) by (simp add: RPC_ENDPOINT_def or_default_def)
    then have "rpc = ''https://api.'' @ NETWORK env @ ''.solana.com''" using assms(4) by simp
    then show ?thesis using None d by (simp add: csp_origin_def)
  next
    case (Some u)
    then have "url_origin u = Returns rpc" "u \<noteq> []" using assms(5,6) by (simp_all add: RPC_ENDPOINT_def or_default_def)
    then show ?thesis using Some by (simp add: csp_origin_def)
  qed
  have "map to_ws (if csp_origin url_origin (VITE_RPC_ENDPOINT env) \<noteq> [] then csp_origin url_origin (VITE_RPC_ENDPOINT env)
      else default_rpc (NETWORK env)) = [to_ws rpc]" by (simp only: c list.map)
  then have "(if csp_origin url_origin (VITE_RPC_ENDPOINT env) \<noteq> [] then map to_ws (csp_origin url_origin (VITE_RPC_ENDPOINT env))
      else map to_ws (default_rpc (NETWORK env))) = [to_ws rpc]" by (simp only: if_distrib [of "map to_ws"])
  then show ?thesis
    unfolding connect_sources_def Let_def NETWORK_def [symmetric] using c by (simp only: r append.simps)
qed

lemma to_ws_source: "csp_source s \<Longrightarrow> csp_source (to_ws s)"
  by (auto simp: csp_source_def to_ws_def dest: in_set_dropD)

text \<open>
  C38. The policy of the built page is the bundle's configuration: whatever the .env files and the shell
  give, the page a build emits carries a policy whose connect-src, as a browser reads it, lists exactly
  the page's own origin, the origin of the RPC endpoint the bundle uses and its websocket form, the
  origin of the relayer the bundle uses, and Solflare, each once; nothing else can receive a note. The
  hypotheses: Vite resolves variables as it documents; trailing slashes are not part of an origin;
  \<open>clusterApiUrl\<close> names the public endpoint of its cluster; both variables, when set, are URLs whose
  origins have no blank or semicolon; and the page has a head.
\<close>

theorem csp_is_the_configuration:
  fixes loadEnv :: "string \<Rightarrow> env_dict"
  defines "bundle \<equiv> env_of (loadEnv ''VITE_'')"
  assumes "vite_env loadEnv files shell"
    and "url_origin (RELAYER_URL bundle) = url_origin (or_default (VITE_RELAYER_URL bundle) ''http://localhost:3000'')"
    and "url_origin (RELAYER_URL bundle) = Returns relayer" "VITE_RELAYER_URL bundle \<noteq> Some []"
    and "url_origin (clusterApiUrl (NETWORK bundle)) = Returns (''https://api.'' @ NETWORK bundle @ ''.solana.com'')"
    and "url_origin (RPC_ENDPOINT clusterApiUrl bundle) = Returns rpc" "VITE_RPC_ENDPOINT bundle \<noteq> Some []"
    and "csp_source rpc" "csp_source relayer" "str_includes html ''<head>''"
    and "build_page url_origin chainOf loadEnv shell html = Returns page"
  shows "\<exists>p r w c policy ws. html = p @ ''<head>'' @ r \<and> page = p @ ''<head>'' @ w @ csp_meta policy @ c @ r \<and> list_all is_space w
    \<and> csp_directive ''connect-src'' policy = Some ws \<and> distinct ws
    \<and> set ws = {self_source, rpc, to_ws rpc, relayer, ''https://solflare.com''}"
proof -
  have e: "env_of (config_env loadEnv shell) = bundle" unfolding bundle_def by (rule vite_envs_agree [OF assms(2)])
  have page: "page = transformIndexHtml url_origin bundle html"
    using assms(12) by (auto simp: build_page_def e js_bind_eq_Returns Let_def)
  have cs: "connect_sources url_origin bundle = [self_source, rpc, relayer, to_ws rpc, ''https://solflare.com'']"
    by (rule connect_sources_are) (fact assms)+
  have "csp_source self_source" "csp_source ''https://solflare.com''" by code_simp+
  then have "list_all csp_source (connect_sources url_origin bundle)"
    unfolding cs using assms(9,10) to_ws_source by simp
  note d = connect_src_of_policy [OF this]
  have s: "set (first_occurrences (connect_sources url_origin bundle)) = {self_source, rpc, to_ws rpc, relayer, ''https://solflare.com''}"
    unfolding set_first_occurrences cs by auto
  show ?thesis using html_has_policy [OF assms(11), of url_origin "env_of (loadEnv ''VITE_'')", folded bundle_def] page d s distinct_first_occurrences by metis
qed

definition example_origin :: "string \<Rightarrow> string js" where
  "example_origin u =
     (if u = ''https://node'' \<or> u = ''https://relay'' then Returns u
      else if u = ''https://relay/'' then Returns ''https://relay''
      else if starts_with u ''https://api.'' then Returns u else Throws ''Invalid URL'')"

text \<open>A build whose endpoints are in a file, with the relayer overridden by the shell.\<close>

definition example_files :: env_dict where
  "example_files = map_of [(''VITE_SOLANA_NETWORK'', ''mainnet-beta''), (''VITE_RPC_ENDPOINT'', ''https://node''), (''VITE_RELAYER_URL'', ''https://old'')]"

definition example_shell :: env_dict where "example_shell = map_of [(''VITE_RELAYER_URL'', ''https://relay/''), (''PATH'', ''/bin'')]"

definition example_loadEnv :: "string \<Rightarrow> env_dict" where
  "example_loadEnv p k = (if starts_with k p then (example_files ++ example_shell) k else None)"

lemma csp_is_the_configuration_witness:
  "\<exists>policy ws. csp_directive ''connect-src'' policy = Some ws \<and> distinct ws
    \<and> set ws = {self_source, ''https://node'', ''wss://node'', ''https://relay'', ''https://solflare.com''}"
proof -
  let ?c = "\<lambda>n. ''https://api.'' @ n @ ''.solana.com''"
  let ?b = "env_of (example_loadEnv ''VITE_'')"
  have v: "vite_env example_loadEnv example_files example_shell" by (simp add: vite_env_def example_loadEnv_def)
  have "example_origin (RELAYER_URL ?b) = example_origin (or_default (VITE_RELAYER_URL ?b) ''http://localhost:3000'')"
      "example_origin (RELAYER_URL ?b) = Returns ''https://relay''" "VITE_RELAYER_URL ?b \<noteq> Some []"
      "example_origin (?c (NETWORK ?b)) = Returns (?c (NETWORK ?b))"
      "example_origin (RPC_ENDPOINT ?c ?b) = Returns ''https://node''" "VITE_RPC_ENDPOINT ?b \<noteq> Some []"
      "csp_source ''https://node''" "csp_source ''https://relay''" "str_includes ''<html><head></head></html>'' ''<head>''"
    by code_simp+
  note t = csp_is_the_configuration [OF v this]
  have "assertWalletChainMatches (\<lambda>u. ''solana:mainnet'') example_origin (env_of (config_env example_loadEnv example_shell)) = Returns ()"
    by code_simp
  then have "build_page example_origin (\<lambda>u. ''solana:mainnet'') example_loadEnv example_shell ''<html><head></head></html>''
      = Returns (transformIndexHtml example_origin (env_of (config_env example_loadEnv example_shell)) ''<html><head></head></html>'')"
    by (simp add: build_page_def Let_def)
  note t [OF this]
  moreover have "to_ws ''https://node'' = ''wss://node''" by code_simp
  ultimately show ?thesis by auto
qed

text \<open>
  The comment says that app/public/\_headers carries the same policy. The sources it lists are not those
  of a build without variables, which it names as its case: neither the relayer nor the RPC endpoint of
  that build is among them, and a host that applies both policies allows only what is in both.
\<close>

definition headers_sources :: "string list" where
  "headers_sources = [self_source, ''https://devnet.helius-rpc.com'', ''wss://devnet.helius-rpc.com'', ''https://solflare.com'']"

definition no_variables :: app_env where
  "no_variables = \<lparr>VITE_SOLANA_NETWORK = None, VITE_RPC_ENDPOINT = None, VITE_RELAYER_URL = None, VITE_PROGRAM_ID = None, VITE_POOLS = None\<rparr>"

lemma headers_block_default_build:
  "let sources = connect_sources (\<lambda>u. Returns u) no_variables in
     ''http://localhost:3000'' \<in> set sources \<and> ''https://api.devnet.solana.com'' \<in> set sources
     \<and> filter (\<lambda>s. s \<in> set headers_sources) sources = [self_source, ''https://solflare.com'']"
  by code_simp

subsection \<open>The wallet's network\<close>

text \<open>The network of a build that the wallets may sign for: a mainnet build only where they mean mainnet.\<close>

lemma build_signs_for_its_network:
  "assertWalletChainMatches chainOf url_origin env = Returns ()
     \<longleftrightarrow> chainOf (or_default (VITE_RPC_ENDPOINT env) (''https://api.'' @ NETWORK env @ ''.solana.com''))
         = (if IS_MAINNET env then ''solana:mainnet'' else ''solana:'' @ NETWORK env)"
  by (simp add: assertWalletChainMatches_def NETWORK_def IS_MAINNET_def Let_def)

text \<open>The refusal shows of an endpoint nothing but its origin: endpoints of one origin give one message.\<close>

lemma refusal_hides_key:
  assumes "url_origin u = url_origin v" "chainOf u = chainOf v"
  shows "assertWalletChainMatches chainOf url_origin (env\<lparr>VITE_RPC_ENDPOINT := Some u\<rparr>)
    = assertWalletChainMatches chainOf url_origin (env\<lparr>VITE_RPC_ENDPOINT := Some v\<rparr>)"
  using assms by (simp add: assertWalletChainMatches_def or_default_def Let_def)

subsection \<open>Remote fonts\<close>

definition names_font_host :: "string \<Rightarrow> bool" where
  "names_font_host s = (str_includes s ''googleapis'' \<or> str_includes s ''gstatic'')"

definition skip_opt :: "(char \<Rightarrow> bool) \<Rightarrow> string \<Rightarrow> string" where
  "skip_opt P s = (case s of [] \<Rightarrow> [] | c # r \<Rightarrow> if P c then r else s)"

text \<open>
  The rest after an \<open>@import\<close> of a remote font, if the text starts with one. No part of the expression
  before the host can match in two ways, and what follows it is optional.
\<close>

definition font_import :: "string \<Rightarrow> string option" where
  "font_import s =
     (let ws = takeWhile is_space (drop 7 s); r = dropWhile is_space (drop 7 s);
          r = (if starts_with r ''url('' then drop 4 r else r);
          quote_or = (\<lambda>c. c = CHR 0x22 \<or> c = CHR 0x27);
          r = skip_opt quote_or r;
          scheme = (if starts_with r ''https://'' then Some (drop 8 r) else if starts_with r ''http://'' then Some (drop 7 r) else None)
      in if \<not> starts_with s ''@import'' \<or> ws = [] then None
         else case scheme of None \<Rightarrow> None
           | Some r \<Rightarrow>
               let inside = (\<lambda>c. \<not> quote_or c \<and> c \<noteq> CHR '')''); seg = takeWhile inside r; rest = dropWhile inside r in
               if names_font_host seg
               then Some (skip_opt (\<lambda>c. c = CHR '';'') (dropWhile is_space (skip_opt (\<lambda>c. c = CHR '')'') (skip_opt quote_or rest))))
               else None)"

definition font_link :: "string \<Rightarrow> string option" where
  "font_link s =
     (let body = takeWhile (\<lambda>c. c \<noteq> CHR ''>'') (drop 5 s); rest = dropWhile (\<lambda>c. c \<noteq> CHR ''>'') (drop 5 s)
      in if starts_with s ''<link'' \<and> rest \<noteq> [] \<and> names_font_host body then Some (tl rest) else None)"

text \<open>\<open>s.replace(re, '')\<close> for a global expression given by the rest after a match.\<close>

function remove_matches :: "(string \<Rightarrow> string option) \<Rightarrow> string \<Rightarrow> string" where
  "remove_matches m [] = []"
| "remove_matches m (c # s) =
     (case m (c # s) of
        Some r \<Rightarrow> if length r \<le> length s then remove_matches m r else c # remove_matches m s
      | None \<Rightarrow> c # remove_matches m s)"
  by pat_completeness auto
termination
  by (relation "measure (\<lambda>(m, s). length s)") auto

definition code_file :: "string \<Rightarrow> bool" where
  "code_file file = list_ex (\<lambda>e. starts_with (rev file) (rev e)) [''.css'', ''.js'', ''.mjs'', ''.cjs'', ''.ts'', ''.tsx'']"

definition strip_fonts :: "string \<Rightarrow> string \<Rightarrow> string option" where
  "strip_fonts code file =
     (if str_includes file ''node_modules/.vite'' \<or> \<not> code_file file then None
      else let cleaned = remove_matches font_link (remove_matches font_import code)
           in if cleaned = code then None else Some cleaned)"

text \<open>A match is never empty, so the guard in the definition above is always met.\<close>

lemma skip_opt_length: "length (skip_opt P s) \<le> length s"
  by (auto simp: skip_opt_def split: list.splits)

lemma font_link_shorter: "font_link s = Some r \<Longrightarrow> length r < length s"
proof -
  assume a: "font_link s = Some r"
  then have "s \<noteq> []" "r = tl (dropWhile (\<lambda>c. c \<noteq> CHR ''>'') (drop 5 s))" by (auto simp: font_link_def Let_def split: if_splits)
  then show ?thesis using length_dropWhile_le [of "\<lambda>c. c \<noteq> CHR ''>''" "drop 5 s"] by (cases s) auto
qed

lemma skip_opt_part: "sublist (skip_opt P s) s"
  by (auto simp: skip_opt_def sublist_Cons_right split: list.splits)

lemma dropWhile_part: "sublist (dropWhile P s) s"
  by (metis sublist_appendI append_Nil2 takeWhile_dropWhile_id)

lemma takeWhile_part: "sublist (takeWhile P s) s"
  by (metis sublist_appendI append_Nil takeWhile_dropWhile_id)

lemma names_font_host_part: "names_font_host u \<Longrightarrow> sublist u s \<Longrightarrow> names_font_host s"
  unfolding names_font_host_def includes_iff sublist_def by (metis append.assoc)

lemma font_import_named: "font_import u \<noteq> None \<Longrightarrow> names_font_host u"
proof -
  assume a: "font_import u \<noteq> None"
  define r1 where "r1 = dropWhile is_space (drop 7 u)"
  define r2 where "r2 = (if starts_with r1 ''url('' then drop 4 r1 else r1)"
  define r3 where "r3 = skip_opt (\<lambda>c. c = CHR 0x22 \<or> c = CHR 0x27) r2"
  define P where "P c \<longleftrightarrow> \<not> (c = CHR 0x22 \<or> c = CHR 0x27) \<and> c \<noteq> CHR '')''" for c
  have "sublist r1 u" unfolding r1_def by (meson dropWhile_part sublist_drop sublist_order.order.trans)
  moreover have "sublist r2 r1" by (simp add: r2_def)
  moreover have "sublist r3 r2" unfolding r3_def by (rule skip_opt_part)
  ultimately have r: "sublist r3 u" by (meson sublist_order.order.trans)
  have "names_font_host (takeWhile P (drop 8 r3)) \<or> names_font_host (takeWhile P (drop 7 r3))"
    using a unfolding font_import_def Let_def r1_def [symmetric] r2_def [symmetric] r3_def [symmetric] P_def [abs_def]
    by (auto split: if_splits)
  moreover have "sublist (takeWhile P (drop n r3)) u" for n
    using r by (meson takeWhile_part sublist_drop sublist_order.order.trans)
  ultimately show ?thesis using names_font_host_part by blast
qed

lemma font_link_named: "font_link u \<noteq> None \<Longrightarrow> names_font_host u"
proof -
  assume "font_link u \<noteq> None"
  then have "names_font_host (takeWhile (\<lambda>c. c \<noteq> CHR ''>'') (drop 5 u))" by (auto simp: font_link_def Let_def split: if_splits)
  then show ?thesis by (rule names_font_host_part) (meson takeWhile_part sublist_drop sublist_order.order.trans)
qed

lemma remove_matches_idle: "(\<And>u. m u \<noteq> None \<Longrightarrow> names_font_host u) \<Longrightarrow> \<not> names_font_host s \<Longrightarrow> remove_matches m s = s"
proof (induction m s rule: remove_matches.induct)
  case (2 m c s)
  have "m (c # s) = None" using 2(4) [of "c # s"] 2(5) by blast
  moreover have "\<not> names_font_host s" using 2(5) by (auto simp: names_font_host_def)
  ultimately show ?case using 2 by simp
qed simp

text \<open>A source that names neither font host is left as it is.\<close>

lemma other_code_untouched:
  assumes "\<not> names_font_host code"
  shows "strip_fonts code file = None"
  using assms remove_matches_idle font_import_named font_link_named by (simp add: strip_fonts_def)

text \<open>The import in the wallet adapter's style sheet, and a preconnect of the mobile adapter.\<close>

lemma strips_wallet_fonts:
  "strip_fonts (''@import '' @ [CHR 0x22] @ ''https://fonts.googleapis.com/css2?family=DM+Sans'' @ [CHR 0x22] @ '';.a{}'') ''x/styles.css'' = Some ''.a{}''
   \<and> strip_fonts ''a<link rel=preconnect href=https://fonts.gstatic.com>b'' ''m.js'' = Some ''ab''"
  by code_simp

end
