(* ===== verification/ScriptTrees.thy ===== *)
theory ScriptTrees
  imports MerkleTree TxBuild
begin

text \<open>
  The other trees of the JavaScript code and the zero constants: \<open>IncrementalMerkleTree\<close> of
  scripts/devnet_e2e.js (the algorithm of the program), the two layered copies of
  scripts/devnet_verify.js and scripts/gen_fuzz_fixtures.js, and scripts/generate_zeros.js. Each is
  interpreted in the same tree interface, so all of them agree with the prover's tree.
\<close>

subsection \<open>The incremental tree of devnet\_e2e.js\<close>

record incremental_tree =
  it_depth :: nat
  it_zeros :: "int list"
  it_filled :: "int list"
  it_nextIndex :: nat

text \<open>\<open>buildZeros(depth)\<close> here makes one entry fewer than the SDK's.\<close>

definition e2e_buildZeros :: "hash2 \<Rightarrow> nat \<Rightarrow> int list" where
  "e2e_buildZeros h depth = fold (\<lambda>i zs. zs @ [h (zs ! (i - 1)) (zs ! (i - 1))]) [1..<depth] [0]"

definition new_incremental :: "hash2 \<Rightarrow> nat \<Rightarrow> incremental_tree" where
  "new_incremental h depth =
     \<lparr>it_depth = depth, it_zeros = e2e_buildZeros h depth, it_filled = e2e_buildZeros h depth, it_nextIndex = 0\<rparr>"

record insert_state =
  is_filled :: "int list"
  is_hash :: int
  is_index :: nat
  is_elements :: "int list"
  is_indices :: "nat list"

definition incremental_level :: "hash2 \<Rightarrow> int list \<Rightarrow> nat \<Rightarrow> insert_state \<Rightarrow> insert_state" where
  "incremental_level h zeros i s =
     (if is_index s mod 2 = 0
      then \<lparr>is_filled = (is_filled s)[i := is_hash s], is_hash = h (is_hash s) (zeros ! i), is_index = is_index s div 2,
            is_elements = is_elements s @ [zeros ! i], is_indices = is_indices s @ [is_index s mod 2]\<rparr>
      else \<lparr>is_filled = is_filled s, is_hash = h (is_filled s ! i) (is_hash s), is_index = is_index s div 2,
            is_elements = is_elements s @ [is_filled s ! i], is_indices = is_indices s @ [is_index s mod 2]\<rparr>)"

definition incremental_run :: "hash2 \<Rightarrow> incremental_tree \<Rightarrow> int \<Rightarrow> nat \<Rightarrow> insert_state" where
  "incremental_run h t leaf k = fold (incremental_level h (it_zeros t)) [0..<k]
     \<lparr>is_filled = it_filled t, is_hash = leaf, is_index = it_nextIndex t, is_elements = [], is_indices = []\<rparr>"

definition incremental_insert :: "hash2 \<Rightarrow> incremental_tree \<Rightarrow> int \<Rightarrow> incremental_tree \<times> (int \<times> nat) list \<times> int" where
  "incremental_insert h t leaf =
     (let s = incremental_run h t leaf (it_depth t)
      in (t\<lparr>it_filled := is_filled s, it_nextIndex := it_nextIndex t + 1\<rparr>,
          zip (is_elements s) (is_indices s), is_hash s))"

text \<open>
  The invariant: at every level where the next leaf goes right, the stored subtree is the finished
  left neighbour.
\<close>

definition incremental_inv :: "hash2 \<Rightarrow> nat \<Rightarrow> incremental_tree \<Rightarrow> int list \<Rightarrow> bool" where
  "incremental_inv h d t ls \<longleftrightarrow> it_depth t = d \<and> it_nextIndex t = length ls
     \<and> length (it_filled t) = max 1 d \<and> (\<forall>l<d. it_zeros t ! l = zero_node h l)
     \<and> (\<forall>l<d. odd (length ls div 2 ^ l) \<longrightarrow> it_filled t ! l = spec_node h ls l (length ls div 2 ^ l - 1))"

lemma e2e_buildZeros_eq: "length (e2e_buildZeros h d) = max 1 d \<and> (\<forall>l<max 1 d. e2e_buildZeros h d ! l = zero_node h l)"
proof (cases d)
  case (Suc n)
  have "e2e_buildZeros h (Suc n) = map (zero_node h) [0..<Suc n]"
    unfolding e2e_buildZeros_def by (induction n) (simp_all add: nth_append)
  then show ?thesis by (simp add: Suc nth_append less_Suc_eq)
qed (simp add: e2e_buildZeros_def)

lemma incremental_inv_new: "incremental_inv h d (new_incremental h d) []"
  using e2e_buildZeros_eq [of h d] by (simp add: incremental_inv_def new_incremental_def)

lemma incremental_run_spec:
  assumes inv: "incremental_inv h d t ls" and k: "k \<le> d"
  defines "n \<equiv> length ls"
  shows "is_hash (incremental_run h t x k) = spec_node h (ls @ [x]) k (n div 2 ^ k)
    \<and> is_index (incremental_run h t x k) = n div 2 ^ k
    \<and> zip (is_elements (incremental_run h t x k)) (is_indices (incremental_run h t x k)) = spec_path h (ls @ [x]) k n
    \<and> length (is_elements (incremental_run h t x k)) = k \<and> length (is_indices (incremental_run h t x k)) = k
    \<and> is_filled (incremental_run h t x k) =
        map (\<lambda>l. if l < k \<and> even (n div 2 ^ l) then spec_node h (ls @ [x]) l (n div 2 ^ l) else it_filled t ! l) [0..<max 1 d]"
  using k
proof (induction k)
  case 0
  have "it_filled t = map (\<lambda>l. it_filled t ! l) [0..<max 1 d]"
    using inv by (intro nth_equalityI) (simp_all add: incremental_inv_def)
  then show ?case using inv by (simp add: incremental_run_def n_def incremental_inv_def spec_path_def)
next
  case (Suc k)
  let ?s = "incremental_run h t x k" and ?j = "n div 2 ^ k"
  have IH: "is_hash ?s = spec_node h (ls @ [x]) k ?j" "is_index ?s = ?j"
      "zip (is_elements ?s) (is_indices ?s) = spec_path h (ls @ [x]) k n"
      "length (is_elements ?s) = k" "length (is_indices ?s) = k"
      "is_filled ?s = map (\<lambda>l. if l < k \<and> even (n div 2 ^ l) then spec_node h (ls @ [x]) l (n div 2 ^ l) else it_filled t ! l) [0..<max 1 d]"
    using Suc by simp_all
  have kd: "k < d" using Suc.prems by simp
  have z: "it_zeros t ! k = zero_node h k" using inv kd by (simp add: incremental_inv_def)
  have step: "incremental_run h t x (Suc k) = incremental_level h (it_zeros t) k ?s"
    by (simp add: incremental_run_def)
  have path: "spec_path h (ls @ [x]) (Suc k) n
      = spec_path h (ls @ [x]) k n @ [(spec_node h (ls @ [x]) k (sibling ?j), ?j mod 2)]"
    by (simp add: spec_path_def)
  have up: "spec_node h (ls @ [x]) (Suc k) (n div 2 ^ Suc k)
      = path_step h (spec_node h (ls @ [x]) k ?j) (spec_node h (ls @ [x]) k (sibling ?j), ?j mod 2)"
    unfolding div_pow_Suc path_step_spec ..
  show ?case
  proof (cases "even ?j")
    case True
    have sib: "spec_node h (ls @ [x]) k (sibling ?j) = zero_node h k"
      using True unfolding n_def by (subst spec_node_zero_right) (simp_all add: sibling_def)
    have "(is_filled ?s)[k := is_hash ?s]
        = map (\<lambda>l. if l < Suc k \<and> even (n div 2 ^ l) then spec_node h (ls @ [x]) l (n div 2 ^ l) else it_filled t ! l) [0..<max 1 d]"
      using kd True IH(1) unfolding IH(6) by (intro nth_equalityI) (auto simp: nth_list_update less_Suc_eq)
    then show ?thesis
      using True IH unfolding step path up sib
      by (auto simp: incremental_level_def z path_step_def div_pow_Suc even_iff_mod_2_eq_zero simp del: power_Suc)
  next
    case False
    have "spec_node h (ls @ [x]) k (?j - 1) = spec_node h ls k (?j - 1)"
      using False unfolding n_def by (intro spec_node_snoc_other) (cases "length ls div 2 ^ k"; simp)
    then have f: "is_filled ?s ! k = spec_node h (ls @ [x]) k (sibling ?j)"
      using False inv kd unfolding IH(6)
      by (auto simp: incremental_inv_def n_def sibling_def spec_node_snoc_other)
    have g: "is_filled ?s
        = map (\<lambda>l. if l < Suc k \<and> even (n div 2 ^ l) then spec_node h (ls @ [x]) l (n div 2 ^ l) else it_filled t ! l) [0..<max 1 d]"
      using False unfolding IH(6) by (auto simp: less_Suc_eq)
    have lev: "incremental_level h (it_zeros t) k ?s =
        \<lparr>is_filled = is_filled ?s, is_hash = h (is_filled ?s ! k) (is_hash ?s), is_index = is_index ?s div 2,
         is_elements = is_elements ?s @ [is_filled ?s ! k], is_indices = is_indices ?s @ [is_index ?s mod 2]\<rparr>"
      using False IH(2) by (simp add: incremental_level_def odd_iff_mod_2_eq_one)
    have fl: "is_filled (incremental_level h (it_zeros t) k ?s) = is_filled ?s" by (simp add: lev)
    show ?thesis
      unfolding step path up fl unfolding lev f using False IH(1-5) g
      by (simp add: path_step_def div_pow_Suc odd_iff_mod_2_eq_one del: power_Suc)
  qed
qed

lemma incremental_insert_inv:
  assumes inv: "incremental_inv h d t ls" and cap: "length ls < 2 ^ d"
  shows "incremental_inv h d (fst (incremental_insert h t x)) (ls @ [x])"
    and "incremental_insert h t x = (fst (incremental_insert h t x), spec_path h (ls @ [x]) d (length ls), spec_root h d (ls @ [x]))"
proof -
  let ?n = "length ls"
  note r = incremental_run_spec [OF inv order_refl, of x]
  have dep: "it_depth t = d" using inv by (simp add: incremental_inv_def)
  have top: "?n div 2 ^ d = 0" using cap by simp
  show "incremental_insert h t x = (fst (incremental_insert h t x), spec_path h (ls @ [x]) d ?n, spec_root h d (ls @ [x]))"
    using r by (simp add: incremental_insert_def Let_def dep spec_root_def top)
  have filled: "it_filled (fst (incremental_insert h t x)) = map (\<lambda>l. if l < d \<and> even (?n div 2 ^ l)
      then spec_node h (ls @ [x]) l (?n div 2 ^ l) else it_filled t ! l) [0..<max 1 d]"
    using r by (simp add: incremental_insert_def Let_def dep)
  have "it_filled (fst (incremental_insert h t x)) ! l = spec_node h (ls @ [x]) l (Suc ?n div 2 ^ l - 1)"
    if l: "l < d" "odd (Suc ?n div 2 ^ l)" for l
  proof -
    have c: "Suc ?n div 2 ^ l = ?n div 2 ^ l \<or> Suc ?n div 2 ^ l = Suc (?n div 2 ^ l)" by (auto simp: div_Suc)
    show ?thesis
    proof (cases "even (?n div 2 ^ l)")
      case True
      then show ?thesis using c l by (auto simp: filled)
    next
      case False
      then have e: "Suc ?n div 2 ^ l = ?n div 2 ^ l" using c l by auto
      have "spec_node h (ls @ [x]) l (?n div 2 ^ l - 1) = spec_node h ls l (?n div 2 ^ l - 1)"
        using False by (intro spec_node_snoc_other) (cases "?n div 2 ^ l"; simp)
      then show ?thesis using False l inv by (auto simp: filled e incremental_inv_def)
    qed
  qed
  moreover have "length (it_filled (fst (incremental_insert h t x))) = max 1 d" by (simp add: filled)
  ultimately show "incremental_inv h d (fst (incremental_insert h t x)) (ls @ [x])"
    using inv by (simp add: incremental_inv_def incremental_insert_def Let_def)
qed

text \<open>The tree with the root of its last insertion, which is all the script keeps of it.\<close>

definition e2e_empty :: "hash2 \<Rightarrow> nat \<Rightarrow> incremental_tree \<times> int" where
  "e2e_empty h d = (new_incremental h d, zero_node h d)"

definition e2e_insert :: "hash2 \<Rightarrow> incremental_tree \<times> int \<Rightarrow> int \<Rightarrow> incremental_tree \<times> int" where
  "e2e_insert h t x = (let (t', _, r) = incremental_insert h (fst t) x in (t', r))"

interpretation e2e_tree: commitment_tree h d "e2e_empty h d" "e2e_insert h" snd
    "\<lambda>t ls. incremental_inv h d (fst t) ls \<and> snd t = spec_root h d ls" for h d
proof unfold_locales
  show "incremental_inv h d (fst (e2e_empty h d)) [] \<and> snd (e2e_empty h d) = spec_root h d []"
    using spec_node_empty [of "[]" 0 d h] by (simp add: e2e_empty_def incremental_inv_new spec_root_def)
next
  fix t ls x
  assume "incremental_inv h d (fst t) ls \<and> snd t = spec_root h d ls" and c: "length ls < 2 ^ d"
  then have i: "incremental_inv h d (fst t) ls" by simp
  obtain t' pth r where e: "incremental_insert h (fst t) x = (t', pth, r)" by (metis prod_cases3)
  show "incremental_inv h d (fst (e2e_insert h t x)) (ls @ [x]) \<and> snd (e2e_insert h t x) = spec_root h d (ls @ [x])"
    using incremental_insert_inv [OF i c, of x] by (simp add: e2e_insert_def e)
qed simp

subsection \<open>The layered copies in the scripts\<close>

record script_tree =
  st_depth :: nat
  st_zeros :: "int list"
  st_layers :: "int list list"

text \<open>scripts/devnet\_verify.js.\<close>

definition verify_tree_new :: "hash2 \<Rightarrow> nat \<Rightarrow> script_tree" where
  "verify_tree_new h depth =
     \<lparr>st_depth = depth, st_zeros = fold (\<lambda>i zs. zs @ [h (zs ! (i - 1)) (zs ! (i - 1))]) [1..<depth + 1] [0],
      st_layers = replicate (depth + 1) []\<rparr>"

definition verify_nodeAt :: "script_tree \<Rightarrow> nat \<Rightarrow> nat \<Rightarrow> int" where
  "verify_nodeAt t level index =
     (if index < length (st_layers t ! level) then st_layers t ! level ! index else st_zeros t ! level)"

definition verify_level :: "hash2 \<Rightarrow> nat \<Rightarrow> script_tree \<times> nat \<Rightarrow> script_tree \<times> nat" where
  "verify_level h level = (\<lambda>(u, cur).
              let p = drop_bit 1 cur;
                  parent = h (verify_nodeAt u (level - 1) (p * 2)) (verify_nodeAt u (level - 1) (p * 2 + 1))
              in (if p < length (st_layers u ! level)
                  then u\<lparr>st_layers := (st_layers u)[level := (st_layers u ! level)[p := parent]]\<rparr>
                  else u\<lparr>st_layers := (st_layers u)[level := st_layers u ! level @ [parent]]\<rparr>, p))"

definition verify_insert :: "hash2 \<Rightarrow> script_tree \<Rightarrow> int \<Rightarrow> script_tree \<times> nat" where
  "verify_insert h t leaf =
     (let index = length (st_layers t ! 0);
          t0 = t\<lparr>st_layers := (st_layers t)[0 := st_layers t ! 0 @ [leaf]]\<rparr>
      in (fst (fold (verify_level h) [1..<st_depth t + 1] (t0, index)), index))"

definition verify_step :: "script_tree \<Rightarrow> nat \<Rightarrow> (int \<times> nat) list \<times> nat \<Rightarrow> (int \<times> nat) list \<times> nat" where
  "verify_step t level = (\<lambda>(ps, cur).
     (ps @ [(verify_nodeAt t level (if cur mod 2 = 1 then cur - 1 else cur + 1), if cur mod 2 = 1 then 1 else 0)],
      drop_bit 1 cur))"

definition verify_proof :: "script_tree \<Rightarrow> nat \<Rightarrow> (int \<times> nat) list \<times> int" where
  "verify_proof t leafIndex =
     (fst (fold (verify_step t) [0..<st_depth t] ([], leafIndex)), verify_nodeAt t (st_depth t) 0)"

definition as_sdk :: "script_tree \<Rightarrow> merkle_tree" where
  "as_sdk t = \<lparr>mt_depth = st_depth t, mt_zeros = st_zeros t, mt_layers = st_layers t\<rparr>"

lemma as_sdk_node: "verify_nodeAt t = nodeAt (as_sdk t)"
  by (intro ext) (simp add: verify_nodeAt_def nodeAt_def as_sdk_def)

lemma as_sdk_new: "as_sdk (verify_tree_new h d) = new_tree h d"
  by (simp add: as_sdk_def verify_tree_new_def new_tree_def buildZeros_def)

lemma verify_level_sdk:
  "(as_sdk (fst (verify_level h l s)), snd (verify_level h l s)) = insert_level h l (as_sdk (fst s), snd s)"
  by (simp add: verify_level_def insert_level_def case_prod_beta Let_def as_sdk_node store_or_push_def)
     (simp add: as_sdk_def)

lemma verify_levels_sdk:
  "(as_sdk (fst (fold (verify_level h) ks s)), snd (fold (verify_level h) ks s))
     = fold (insert_level h) ks (as_sdk (fst s), snd s)"
proof (induction ks arbitrary: s)
  case (Cons k ks)
  have "insert_level h k (as_sdk (fst s), snd s) = (as_sdk (fst (verify_level h k s)), snd (verify_level h k s))"
    by (rule verify_level_sdk [symmetric])
  then show ?case using Cons [of "verify_level h k s"] by simp
qed simp

lemma verify_insert_sdk:
  "as_sdk (fst (verify_insert h t x)) = fst (mt_insert h (as_sdk t) x)"
proof -
  let ?t0 = "t\<lparr>st_layers := (st_layers t)[0 := st_layers t ! 0 @ [x]]\<rparr>"
  have "fst (verify_insert h t x) = fst (fold (verify_level h) [1..<st_depth t + 1] (?t0, length (st_layers t ! 0)))"
    by (simp add: verify_insert_def Let_def del: upt_Suc)
  moreover have "as_sdk ?t0 = as_sdk t\<lparr>mt_layers := (mt_layers (as_sdk t))[0 := mt_layers (as_sdk t) ! 0 @ [x]]\<rparr>"
    by (simp add: as_sdk_def)
  ultimately show ?thesis
    using verify_levels_sdk [of h "[1..<st_depth t + 1]" "(?t0, length (st_layers t ! 0))"]
    by (simp add: mt_insert_def Let_def prod_eq_iff del: upt_Suc) (simp add: as_sdk_def)
qed

lemma verify_proof_spec:
  assumes "tree_inv h d (as_sdk t) ls"
  shows "verify_proof t i = (spec_path h ls d i, spec_root h d ls)"
proof -
  have n: "verify_nodeAt t l j = spec_node h ls l j" if "l \<le> d" for l j
    using assms that unfolding as_sdk_node
    by (intro nodeAt_layer [where d = d]) (auto simp: tree_inv_def simp del: upt_Suc)
  have "fold (verify_step t) [0..<k] ([], i) = (spec_path h ls k i, i div 2 ^ k)" if "k \<le> d" for k
    using that
  proof (induction k)
    case 0
    then show ?case by (simp add: spec_path_def)
  next
    case (Suc k)
    have "verify_step t k (spec_path h ls k i, i div 2 ^ k) = (spec_path h ls (Suc k) i, i div 2 ^ Suc k)"
      using Suc.prems unfolding div_pow_Suc
      by (simp add: verify_step_def n spec_path_def sibling_def drop_bit_eq_div odd_iff_mod_2_eq_one)
    then show ?case using Suc by simp
  qed
  moreover have "st_depth t = d" using assms by (simp add: tree_inv_def as_sdk_def)
  ultimately have "fold (verify_step t) [0..<st_depth t] ([], i) = (spec_path h ls d i, i div 2 ^ d)"
      "verify_nodeAt t (st_depth t) 0 = spec_root h d ls"
    using n [of d 0] by (simp_all add: spec_root_def)
  then show ?thesis by (simp add: verify_proof_def)
qed

interpretation verify_tree: proving_tree h d "verify_tree_new h d" "\<lambda>t x. fst (verify_insert h t x)"
    "\<lambda>t. snd (verify_proof t 0)" "\<lambda>t ls. tree_inv h d (as_sdk t) ls" "\<lambda>t i. fst (verify_proof t i)" for h d
  by unfold_locales
    (auto simp: as_sdk_new tree_inv_new verify_insert_sdk mt_insert_inv verify_proof_spec)

text \<open>scripts/gen\_fuzz\_fixtures.js.\<close>

definition fuzz_at :: "script_tree \<Rightarrow> nat \<Rightarrow> nat \<Rightarrow> int" where
  "fuzz_at t l i = (if i < length (st_layers t ! l) then st_layers t ! l ! i else st_zeros t ! l)"

definition fuzz_level :: "hash2 \<Rightarrow> nat \<Rightarrow> script_tree \<times> nat \<Rightarrow> script_tree \<times> nat" where
  "fuzz_level h l = (\<lambda>(u, cur).
     let p = drop_bit 1 cur;
         v = h (fuzz_at u (l - 1) (p * 2)) (fuzz_at u (l - 1) (p * 2 + 1))
     in (if p < length (st_layers u ! l)
         then u\<lparr>st_layers := (st_layers u)[l := (st_layers u ! l)[p := v]]\<rparr>
         else u\<lparr>st_layers := (st_layers u)[l := st_layers u ! l @ [v]]\<rparr>, p))"

definition fuzz_insert :: "hash2 \<Rightarrow> script_tree \<Rightarrow> int \<Rightarrow> script_tree \<times> nat" where
  "fuzz_insert h t leaf =
     (let idx = length (st_layers t ! 0);
          t0 = t\<lparr>st_layers := (st_layers t)[0 := st_layers t ! 0 @ [leaf]]\<rparr>
      in (fst (fold (fuzz_level h) [1..<st_depth t + 1] (t0, idx)), idx))"

definition fuzz_proof :: "script_tree \<Rightarrow> nat \<Rightarrow> int list \<times> nat list \<times> int" where
  "fuzz_proof t i =
     (let (els, idxs, _) = fold (\<lambda>l (els, idxs, cur).
            let right = (cur mod 2 = 1)
            in (els @ [fuzz_at t l (if right then cur - 1 else cur + 1)], idxs @ [if right then 1 else 0], drop_bit 1 cur))
          [0..<st_depth t] ([], [], i)
      in (els, idxs, fuzz_at t (st_depth t) 0))"

lemma fuzz_at_verify: "fuzz_at = verify_nodeAt"
  by (intro ext) (simp add: fuzz_at_def verify_nodeAt_def)

lemma fuzz_insert_verify: "fuzz_insert h t x = verify_insert h t x"
proof -
  have "fuzz_level h = verify_level h"
    by (intro ext) (simp add: fuzz_level_def verify_level_def fuzz_at_verify)
  then show ?thesis
    by (simp add: fuzz_insert_def verify_insert_def)
qed

lemma fuzz_proof_sdk:
  assumes "getProof (as_sdk t) i = Some p" and "mt_layers (as_sdk t) ! 0 \<noteq> []"
  shows "fuzz_proof t i = (mp_pathElements p, mp_pathIndices p, mp_root p)"
proof -
  have "(\<lambda>l (els, idxs, cur). let right = (cur mod 2 = 1)
      in (els @ [fuzz_at t l (if right then cur - 1 else cur + 1)], idxs @ [if right then 1 else 0], drop_bit 1 cur))
      = proof_level (as_sdk t)"
    by (intro ext) (simp add: proof_level_def fuzz_at_verify as_sdk_node Let_def case_prod_beta)
  then show ?thesis
    using assms
    by (auto simp: fuzz_proof_def getProof_def root_of_def fuzz_at_verify as_sdk_node case_prod_beta Let_def
        split: if_splits) (simp_all add: as_sdk_def)
qed

subsection \<open>The frozen constants of generate\_zeros.js\<close>

definition generate_zeros :: "hash2 \<Rightarrow> nat \<Rightarrow> bytes list" where
  "generate_zeros h DEPTH =
     fst (fold (\<lambda>i (zeros, current). (zeros @ [fieldToBytes32 current], h current current)) [0..<DEPTH] ([], 0))"

lemma generate_zeros_eq: "generate_zeros h n = map (\<lambda>i. fieldToBytes32 (zero_node h i)) [0..<n]"
proof -
  have "fold (\<lambda>i (zeros, current). (zeros @ [fieldToBytes32 current], h current current)) [0..<n] ([], 0)
      = (map (\<lambda>i. fieldToBytes32 (zero_node h i)) [0..<n], zero_node h n)"
    by (induction n) simp_all
  then show ?thesis by (simp add: generate_zeros_def)
qed

text \<open>The layered copies hold the tree of their leaves, and their paths are the SDK's.\<close>

lemma verify_tree_inv: "tree_inv h d (as_sdk (foldl (\<lambda>t x. fst (verify_insert h t x)) (verify_tree_new h d) xs)) xs"
  by (induction xs rule: rev_induct) (simp_all add: as_sdk_new tree_inv_new verify_insert_sdk mt_insert_inv)

lemma layered_paths:
  assumes "tree_inv h d (as_sdk t) xs" "i < length xs" "getProof (build_tree h d xs) i = Some p"
  shows "verify_proof t i = (proof_path p, mp_root p)"
    and "fuzz_proof t i = (mp_pathElements p, mp_pathIndices p, mp_root p)"
proof -
  obtain q where q: "getProof (build_tree h d xs) i = Some q" "proof_path q = spec_path h xs d i" "mp_root q = spec_root h d xs"
    using getProof_inv [OF build_tree_inv assms(2)] by blast
  obtain r where r: "getProof (as_sdk t) i = Some r" "proof_path r = spec_path h xs d i" "mp_root r = spec_root h d xs"
      "mp_leafIndex r = i" "length (mp_pathElements r) = d" "length (mp_pathIndices r) = d"
    using getProof_inv [OF assms(1,2)] by blast
  show "verify_proof t i = (proof_path p, mp_root p)" using verify_proof_spec [OF assms(1)] q assms(3) by simp
  have "r = p"
  proof -
    obtain p' where p': "getProof (build_tree h d xs) i = Some p'" "proof_path p' = spec_path h xs d i" "mp_root p' = spec_root h d xs"
        "mp_leafIndex p' = i" "length (mp_pathElements p') = d" "length (mp_pathIndices p') = d"
      using getProof_inv [OF build_tree_inv assms(2)] by blast
    have "p' = p" using p'(1) assms(3) by simp
    moreover have "mp_pathElements r = mp_pathElements p' \<and> mp_pathIndices r = mp_pathIndices p'"
      using r(2,5,6) p'(2,5,6) unfolding proof_path_def by (metis map_fst_zip map_snd_zip)
    ultimately show ?thesis using r(3,4) p'(3,4) by simp
  qed
  moreover have "mt_layers (as_sdk t) ! 0 \<noteq> []"
    using assms(1,2) by (auto simp: tree_inv_def layers_of_leaves simp del: upt_Suc)
  ultimately show "fuzz_proof t i = (mp_pathElements p, mp_pathIndices p, mp_root p)"
    using fuzz_proof_sdk [OF r(1)] by simp
qed

text \<open>
  C22. Every tree in the repository computes the same roots and paths. For any leaves that fit, the
  SDK's layered tree, the copies in the verification and fixture scripts, and the incremental tree of
  the end-to-end script (which keeps one hash per level, as the program does) end with one root; for
  each leaf the paths that the two copies prove are the SDK's, element by element; and the path the
  incremental tree returns while inserting a leaf is the path the layered tree proves for it.
\<close>

theorem all_trees_agree:
  assumes "length xs < 2 ^ d"
  shows "snd (foldl (e2e_insert h) (e2e_empty h d) xs) = root_of (build_tree h d xs)
    \<and> snd (verify_proof (foldl (\<lambda>t x. fst (verify_insert h t x)) (verify_tree_new h d) xs) 0) = root_of (build_tree h d xs)
    \<and> snd (snd (fuzz_proof (foldl (\<lambda>t x. fst (fuzz_insert h t x)) (verify_tree_new h d) xs) 0)) = root_of (build_tree h d xs)
    \<and> (\<forall>i < length xs. \<exists>p. getProof (build_tree h d xs) i = Some p
         \<and> verify_proof (foldl (\<lambda>t x. fst (verify_insert h t x)) (verify_tree_new h d) xs) i = (proof_path p, mp_root p)
         \<and> fuzz_proof (foldl (\<lambda>t x. fst (fuzz_insert h t x)) (verify_tree_new h d) xs) i = (mp_pathElements p, mp_pathIndices p, mp_root p))
    \<and> (\<exists>p. getProof (build_tree h d (xs @ [x])) (length xs) = Some p
         \<and> snd (incremental_insert h (fst (foldl (e2e_insert h) (e2e_empty h d) xs)) x) = (proof_path p, mp_root p))"
proof -
  have l: "length xs \<le> 2 ^ d" using assms by simp
  have sdk: "root_of (build_tree h d xs) = spec_root h d xs"
    using sdk_tree.built_root [OF l] by (simp add: build_tree_def)
  have inc: "incremental_inv h d (fst (foldl (e2e_insert h) (e2e_empty h d) xs)) xs"
    using e2e_tree.represents_fold [OF e2e_tree.represents_empty, of xs d h] l by simp
  obtain p where p: "getProof (build_tree h d (xs @ [x])) (length xs) = Some p"
      "proof_path p = spec_path h (xs @ [x]) d (length xs)" "mp_root p = spec_root h d (xs @ [x])"
    using getProof_inv [OF build_tree_inv [of h d "xs @ [x]"], of "length xs"] by auto
  have path: "snd (incremental_insert h (fst (foldl (e2e_insert h) (e2e_empty h d) xs)) x) = (proof_path p, mp_root p)"
    using incremental_insert_inv(2) [OF inc assms, of x] p by (metis snd_conv)
  let ?t = "foldl (\<lambda>t x. fst (verify_insert h t x)) (verify_tree_new h d) xs"
  have fz: "foldl (\<lambda>t x. fst (fuzz_insert h t x)) (verify_tree_new h d) xs = ?t" by (simp add: fuzz_insert_verify)
  note V = verify_tree_inv [of h d xs]
  have r: "snd (verify_proof ?t 0) = spec_root h d xs" by (simp add: verify_proof_spec [OF V])
  have fr: "snd (snd (fuzz_proof ?t i)) = snd (verify_proof ?t i)" for i
    by (simp add: fuzz_proof_def verify_proof_def fuzz_at_verify case_prod_beta)
  have paths: "\<exists>p. getProof (build_tree h d xs) i = Some p \<and> verify_proof ?t i = (proof_path p, mp_root p)
      \<and> fuzz_proof ?t i = (mp_pathElements p, mp_pathIndices p, mp_root p)" if "i < length xs" for i
    using layered_paths [OF V that] getProof_inv [OF build_tree_inv that, of h d] by metis
  show ?thesis unfolding fz
    using e2e_tree.built_root [OF l] sdk r fr p(1) path paths by simp
qed

lemma all_trees_agree_witness:
  "\<exists>p. getProof (build_tree (\<lambda>a b. 3 * a + 5 * b + 1) 2 [7, 8, 9]) 1 = Some p
    \<and> fuzz_proof (foldl (\<lambda>t x. fst (fuzz_insert (\<lambda>a b. 3 * a + 5 * b + 1) t x)) (verify_tree_new (\<lambda>a b. 3 * a + 5 * b + 1) 2) [7, 8, 9]) 1
      = (mp_pathElements p, mp_pathIndices p, mp_root p)"
proof -
  have "length [7, 8, 9 :: int] < 2 ^ 2" "(1 :: nat) < length [7, 8, 9 :: int]" by simp_all
  then show ?thesis using all_trees_agree [of "[7, 8, 9]" 2 "\<lambda>a b. 3 * a + 5 * b + 1" 0] by blast
qed

end
