(* ===== verification/ProgramState.thy ===== *)
theory ProgramState
  imports ScriptTrees WithdrawProof
begin

text \<open>
  The on-chain program's pool, programs/solnadocash/src/state.rs, with the error codes of error.rs and
  the table of zeros.rs. A u64 is an int with its range written out where it matters; the release
  profile checks overflow, so an overflow aborts. The Poseidon syscall is a parameter; what the program
  relies on is \<open>poseidon_laws\<close>. What is proved: insertion computes the commitment tree that the browser
  rebuilds, and its ring holds the roots of the last 256 prefixes.
\<close>

subsection \<open>Errors\<close>

datatype error_code =
    PoolPaused | PoolSaturated | TreeFull | RootNotFound | NullifierAlreadySpent | InvalidProof
  | ProofDeserializationFailed | InvalidWithdrawalCommitment | RelayerFeeExceedsMax | FeeInvariantViolated
  | DenominationTooLow | VersionTooHigh | PoseidonFailed | InvalidPoolPda | InvalidVaultPda | InvalidTreasury
  | RelayerNotSigner | ArithmeticOverflow | BenchmarkVerifierInit | BenchmarkVerifyFailed | BenchmarkPoseidonHash
  | InvalidSystemProgram | InsufficientVaultBalance | NonCanonicalPublicInput | RelayerFeeMaxTooHigh
  | UserAmountZero | DuplicateAccount

text \<open>A failed instruction: one of the program's codes, or a panic, a failed call or a failed constraint.\<close>

datatype fault = Code error_code | Abort

datatype 'a run = Fails fault | Gives 'a

definition run_bind :: "'a run \<Rightarrow> ('a \<Rightarrow> 'b run) \<Rightarrow> 'b run" where
  "run_bind m f = (case m of Fails e \<Rightarrow> Fails e | Gives x \<Rightarrow> f x)"

lemma run_bind_simps [simp]: "run_bind (Fails e) f = Fails e" "run_bind (Gives x) f = f x"
  by (simp_all add: run_bind_def)

lemma run_bind_Gives: "run_bind m f = Gives y \<longleftrightarrow> (\<exists>x. m = Gives x \<and> f x = Gives y)"
  by (cases m) simp_all

definition guard :: "bool \<Rightarrow> error_code \<Rightarrow> unit run" where
  "guard c e = (if c then Gives () else Fails (Code e))"

lemma guard_Gives [simp]: "guard c e = Gives u \<longleftrightarrow> c"
  by (simp add: guard_def)

definition or_fail :: "'a option \<Rightarrow> fault \<Rightarrow> 'a run" where
  "or_fail v e = (case v of None \<Rightarrow> Fails e | Some x \<Rightarrow> Gives x)"

lemma or_fail_Gives [simp]: "or_fail v e = Gives x \<longleftrightarrow> v = Some x"
  by (cases v) (simp_all add: or_fail_def)

lemmas run_simps = run_bind_Gives guard_Gives or_fail_Gives

subsection \<open>Constants\<close>

definition TREE_DEPTH :: nat where "TREE_DEPTH = 20"
definition PROGRAM_SATURATION_THRESHOLD :: int where "PROGRAM_SATURATION_THRESHOLD = 950000"
definition POOL_SIZE :: nat where "POOL_SIZE = 8968"
definition NULLIFIER_SIZE :: nat where "NULLIFIER_SIZE = 32 + 32 + 8"

definition zero_values :: "int list" where
  "zero_values =
     [0,
      0x2098f5fb9e239eab3ceac3f27b81e481dc3124d55ffed523a839ee8446b64864,
      0x1069673dcdb12263df301a6ff584a7ec261a44cb9dc68df067a4774460b1f1e1,
      0x18f43331537ee2af2e3d758d50f72106467c6eea50371dd528d57eb2b856d238,
      0x07f9d837cb17b0d36320ffe93ba52345f1b728571a568265caac97559dbc952a,
      0x2b94cf5e8746b3f5c9631f4c5df32907a699c58c94b2ad4d7b5cec1639183f55,
      0x2dee93c5a666459646ea7d22cca9e1bcfed71e6951b953611d11dda32ea09d78,
      0x078295e5a22b84e982cf601eb639597b8b0515a88cb5ac7fa8a4aabe3c87349d,
      0x2fa5e5f18f6027a6501bec864564472a616b2e274a41211a444cbe3a99f3cc61,
      0x0e884376d0d8fd21ecb780389e941f66e45e7acce3e228ab3e2156a614fcd747,
      0x1b7201da72494f1e28717ad1a52eb469f95892f957713533de6175e5da190af2,
      0x1f8d8822725e36385200c0b201249819a6e6e1e4650808b5bebc6bface7d7636,
      0x2c5d82f66c914bafb9701589ba8cfcfb6162b0a12acf88a8d0879a0471b5f85a,
      0x14c54148a0940bb820957f5adf3fa1134ef5c4aaa113f4646458f270e0bfbfd0,
      0x190d33b12f986f961e10c0ee44d8b9af11be25588cad89d416118e4bf4ebe80c,
      0x22f98aa9ce704152ac17354914ad73ed1167ae6596af510aa5b3649325e06c92,
      0x2a7c7c9b6ce5880b9f6f228d72bf6a575a526f29c66ecceef8b753d38bba7323,
      0x2e8186e558698ec1c67af9c14d463ffc470043c9c2988b954d75dd643f36b992,
      0x0f57c5571e9a4eab49e2c8cf050dae948aef6ead647392273546249d1c1ff10f,
      0x1830ee67b5fb554ad5f63d4388800e1cfe78e310697d46e43c9ce36134f72cca]"

definition ZEROS :: "bytes list" where
  "ZEROS = map (be_bytes 32) zero_values"

definition EMPTY_TREE_ROOT :: bytes where
  "EMPTY_TREE_ROOT = be_bytes 32 0x2134e76ac5d21aab186c2be1dd8f84ee880a1e46eaf712f9d371b6df22191f3e"

subsection \<open>The pool\<close>

record pool =
  pl_admin :: pubkey
  pl_mint :: pubkey
  pl_denomination :: int
  pl_mint_decimals :: byte
  pl_pad0 :: bytes
  pl_next_index :: int
  pl_treasury :: pubkey
  pl_version :: byte
  pl_bump :: byte
  pl_vault_bump :: byte
  pl_is_paused :: byte
  pl_pad1 :: bytes
  pl_current_root_index :: int
  pl_root_history :: "bytes list"
  pl_filled_subtrees :: "bytes list"

type_synonym hash_syscall = "bytes list \<Rightarrow> bytes option"

record insert_loop =
  il_filled :: "bytes list"
  il_hash :: bytes
  il_index :: int

definition insert_round :: "hash_syscall \<Rightarrow> nat \<Rightarrow> insert_loop \<Rightarrow> insert_loop run" where
  "insert_round hashv i s =
     (let (filled, left, right) =
            (if il_index s mod 2 = 0 then ((il_filled s)[i := il_hash s], il_hash s, ZEROS ! i)
             else (il_filled s, il_filled s ! i, il_hash s))
      in run_bind (or_fail (hashv [left, right]) (Code PoseidonFailed)) (\<lambda>current_level_hash.
         Gives \<lparr>il_filled = filled, il_hash = current_level_hash, il_index = il_index s div 2\<rparr>))"

primrec insert_rounds :: "hash_syscall \<Rightarrow> nat \<Rightarrow> insert_loop \<Rightarrow> insert_loop run" where
  "insert_rounds hashv 0 s = Gives s"
| "insert_rounds hashv (Suc k) s = run_bind (insert_rounds hashv k s) (insert_round hashv k)"

text \<open>
  \<open>Pool::insert\<close>: the new root and the pool after it. A failed instruction leaves no trace, so what the
  loop has written when the syscall refuses an input is dropped.
\<close>

definition pool_insert :: "hash_syscall \<Rightarrow> pool \<Rightarrow> bytes \<Rightarrow> (bytes \<times> pool) run" where
  "pool_insert hashv p leaf =
     run_bind (guard (pl_is_paused p = 0) PoolPaused) (\<lambda>_.
     run_bind (guard (pl_next_index p < PROGRAM_SATURATION_THRESHOLD) PoolSaturated) (\<lambda>_.
     run_bind (guard (pl_next_index p < 2 ^ TREE_DEPTH) TreeFull) (\<lambda>_.
     run_bind (insert_rounds hashv TREE_DEPTH \<lparr>il_filled = pl_filled_subtrees p, il_hash = leaf, il_index = pl_next_index p\<rparr>) (\<lambda>s.
     if 2 ^ 64 \<le> pl_current_root_index p + 1 then Fails Abort
     else let new_root_index = (pl_current_root_index p + 1) mod int ROOT_HISTORY_SIZE in
       Gives (il_hash s, p\<lparr>pl_filled_subtrees := il_filled s,
           pl_root_history := (pl_root_history p)[nat new_root_index := il_hash s],
           pl_current_root_index := new_root_index, pl_next_index := pl_next_index p + 1\<rparr>)))))"

definition is_known_root :: "pool \<Rightarrow> bytes \<Rightarrow> bool" where
  "is_known_root p rt = (if rt = replicate 32 0 then False else list_ex (\<lambda>stored. stored = rt) (pl_root_history p))"

subsection \<open>What the program relies on\<close>

text \<open>
  The Poseidon syscall on 32-byte big-endian inputs: it refuses an input that is not a canonical field
  element, and otherwise gives the bytes of the same hash that the circuit and circomlibjs compute.
\<close>

definition in_field :: "int \<Rightarrow> bool" where "in_field x \<longleftrightarrow> 0 \<le> x \<and> x < BN254_Fr"

definition poseidon_laws :: "(int list \<Rightarrow> int) \<Rightarrow> hash_syscall \<Rightarrow> bool" where
  "poseidon_laws H hashv \<longleftrightarrow>
     (\<forall>xs. in_field (H xs))
     \<and> (\<forall>bs. list_all (\<lambda>b. length b = 32) bs \<longrightarrow>
          hashv bs = (if list_all (\<lambda>b. in_field (be_int b)) bs then Some (be_bytes 32 (H (map be_int bs))) else None))"

abbreviation pair_hash :: "(int list \<Rightarrow> int) \<Rightarrow> hash2" where
  "pair_hash H \<equiv> \<lambda>a b. H [a, b]"

text \<open>The table is the one that scripts/generate\_zeros.js prints.\<close>

definition zeros_generated :: "(int list \<Rightarrow> int) \<Rightarrow> bool" where
  "zeros_generated H \<longleftrightarrow> ZEROS = generate_zeros (pair_hash H) 20"

lemma in_field_bytes: "in_field x \<Longrightarrow> be_int (be_bytes 32 x) = x"
proof -
  assume x: "in_field x"
  then have "x < 256 ^ 32" using BN254_less(1) by (simp add: in_field_def)
  then show ?thesis using x by (simp add: be_int_be_bytes in_field_def)
qed

lemma field_bytes: "length b = 32 \<Longrightarrow> be_bytes 32 (be_int b) = b"
  using be_bytes_be_int [of b] by simp

lemma hashv_field:
  assumes "poseidon_laws H hashv" "list_all in_field xs"
  shows "hashv (map (be_bytes 32) xs) = Some (be_bytes 32 (H xs))"
proof -
  have "list_all (\<lambda>b. length b = 32) (map (be_bytes 32) xs)" by (simp add: list_all_iff)
  moreover have "map (be_int \<circ> be_bytes 32) xs = xs"
    using assms(2) by (induction xs) (simp_all add: in_field_bytes)
  moreover have "list_all (\<lambda>b. in_field (be_int b)) (map (be_bytes 32) xs)"
    using assms(2) by (induction xs) (simp_all add: in_field_bytes)
  ultimately show ?thesis using assms(1) by (simp add: poseidon_laws_def)
qed

lemma hash_in_field: "poseidon_laws H hashv \<Longrightarrow> in_field (H xs)"
  by (simp add: poseidon_laws_def)

lemma zero_in_field [simp]: "in_field 0"
  by (simp add: in_field_def BN254_less)

lemma zero_node_field: "poseidon_laws H hashv \<Longrightarrow> in_field (zero_node (pair_hash H) l)"
  by (cases l) (simp_all add: hash_in_field)

lemma spec_node_field: "poseidon_laws H hashv \<Longrightarrow> list_all in_field ls \<Longrightarrow> in_field (spec_node (pair_hash H) ls l i)"
  by (cases l) (simp_all add: hash_in_field list_all_length)

lemma ZEROS_nth:
  assumes "zeros_generated H" "poseidon_laws H hashv" "l < 20"
  shows "ZEROS ! l = be_bytes 32 (zero_node (pair_hash H) l)"
proof -
  have f: "in_field (zero_node (pair_hash H) l)" by (rule zero_node_field [OF assms(2)])
  have "ZEROS ! l = fieldToBytes32 (zero_node (pair_hash H) l)"
    using assms(3) unfolding assms(1) [unfolded zeros_generated_def generate_zeros_eq] by (simp del: upt_Suc)
  also have "\<dots> = be_bytes 32 (zero_node (pair_hash H) l)"
    using f BN254_less(1) by (intro fieldToBytes32_eq) (simp_all add: in_field_def)
  finally show ?thesis .
qed

subsection \<open>Insertion refines the commitment tree\<close>

text \<open>
  The abstraction: a pool is the incremental tree over the integers its bytes stand for. The invariant
  adds the ring: the slot of \<open>k mod 256\<close> holds the root after the first \<open>k\<close> deposits for the last 256
  values of \<open>k\<close>, and slots not yet written hold zeros.
\<close>

definition pool_abs :: "(int list \<Rightarrow> int) \<Rightarrow> pool \<Rightarrow> incremental_tree" where
  "pool_abs H p = \<lparr>it_depth = 20, it_zeros = map (zero_node (pair_hash H)) [0..<20],
     it_filled = map be_int (pl_filled_subtrees p), it_nextIndex = nat (pl_next_index p)\<rparr>"

definition ring_inv :: "(int list \<Rightarrow> int) \<Rightarrow> bytes list \<Rightarrow> int list \<Rightarrow> bool" where
  "ring_inv H history ls \<longleftrightarrow> length history = 256
     \<and> (\<forall>k\<le>length ls. length ls < k + 256 \<longrightarrow> history ! (k mod 256) = be_bytes 32 (spec_root (pair_hash H) 20 (take k ls)))
     \<and> (\<forall>i<256. length ls < i \<longrightarrow> history ! i = replicate 32 0)"

definition pool_tree :: "(int list \<Rightarrow> int) \<Rightarrow> pool \<Rightarrow> int list \<Rightarrow> bool" where
  "pool_tree H p ls \<longleftrightarrow> incremental_inv (pair_hash H) 20 (pool_abs H p) ls
     \<and> list_all (\<lambda>b. length b = 32) (pl_filled_subtrees p) \<and> 0 \<le> pl_next_index p \<and> list_all in_field ls
     \<and> pl_current_root_index p = int (length ls mod 256) \<and> ring_inv H (pl_root_history p) ls"

lemma pool_tree_count: "pool_tree H p ls \<Longrightarrow> pl_next_index p = int (length ls)"
  by (auto simp: pool_tree_def incremental_inv_def pool_abs_def)

lemma filled_bytes:
  "list_all (\<lambda>b. length b = 32) bs \<Longrightarrow> map (be_bytes 32) (map be_int bs) = bs"
  by (induction bs) (simp_all add: field_bytes)

lemma insert_rounds_run:
  assumes P: "poseidon_laws H hashv" "zeros_generated H"
    and inv: "incremental_inv (pair_hash H) 20 t ls" and f: "list_all in_field (ls @ [x])" and k: "k \<le> 20"
  shows "insert_rounds hashv k \<lparr>il_filled = map (be_bytes 32) (it_filled t), il_hash = be_bytes 32 x, il_index = int (it_nextIndex t)\<rparr>
    = Gives \<lparr>il_filled = map (be_bytes 32) (is_filled (incremental_run (pair_hash H) t x k)),
        il_hash = be_bytes 32 (is_hash (incremental_run (pair_hash H) t x k)),
        il_index = int (is_index (incremental_run (pair_hash H) t x k))\<rparr>"
  using k
proof (induction k)
  case 0
  show ?case by (simp add: incremental_run_def)
next
  case (Suc k)
  let ?h = "pair_hash H"
  let ?s = "incremental_run ?h t x k" and ?n = "length ls"
  have kd: "k < 20" "k \<le> 20" using Suc.prems by simp_all
  note r = incremental_run_spec [OF inv kd(2), of x]
  have step: "incremental_run ?h t x (Suc k) = incremental_level ?h (it_zeros t) k ?s"
    by (simp add: incremental_run_def)
  have hash: "in_field (is_hash ?s)" using r spec_node_field [OF P(1) f] by simp
  have len: "length (is_filled ?s) = 20" using r by simp
  have z: "ZEROS ! k = be_bytes 32 (it_zeros t ! k)" "in_field (it_zeros t ! k)"
    using ZEROS_nth [OF P(2,1) kd(1)] zero_node_field [OF P(1)] inv kd by (simp_all add: incremental_inv_def)
  have left: "in_field (is_filled ?s ! k)" if "odd (is_index ?s)"
  proof -
    have "odd (?n div 2 ^ k)" using that r by simp
    then have "is_filled ?s ! k = spec_node ?h ls k (?n div 2 ^ k - 1)"
      using r inv kd by (simp add: incremental_inv_def del: upt_Suc)
    then show ?thesis using spec_node_field [OF P(1)] f by simp
  qed
  have hv: "hashv [be_bytes 32 a, be_bytes 32 b] = Some (be_bytes 32 (H [a, b]))" if "in_field a" "in_field b" for a b
    using hashv_field [OF P(1), of "[a, b]"] that by simp
  have "insert_round hashv k \<lparr>il_filled = map (be_bytes 32) (is_filled ?s), il_hash = be_bytes 32 (is_hash ?s), il_index = int (is_index ?s)\<rparr>
      = Gives \<lparr>il_filled = map (be_bytes 32) (is_filled (incremental_level ?h (it_zeros t) k ?s)),
        il_hash = be_bytes 32 (is_hash (incremental_level ?h (it_zeros t) k ?s)),
        il_index = int (is_index (incremental_level ?h (it_zeros t) k ?s))\<rparr>"
  proof (cases "even (is_index ?s)")
    case True
    then have "int (is_index ?s) mod 2 = 0" "is_index ?s mod 2 = 0" by presburger+
    then show ?thesis
      by (simp add: insert_round_def incremental_level_def z hv hash or_fail_def map_update zdiv_int)
  next
    case False
    then have "int (is_index ?s) mod 2 \<noteq> 0" "is_index ?s mod 2 \<noteq> 0" by presburger+
    then show ?thesis
      using left False kd len by (simp add: insert_round_def incremental_level_def hv hash or_fail_def zdiv_int)
  qed
  then show ?case using Suc.IH [OF kd(2)] by (simp add: step)
qed

lemma filled_round_trip:
  assumes P: "poseidon_laws H hashv" and t: "pool_tree H p ls" and f: "list_all in_field (ls @ [x])" and k: "k \<le> 20"
  shows "map be_int (map (be_bytes 32) (is_filled (incremental_run (pair_hash H) (pool_abs H p) x k)))
    = is_filled (incremental_run (pair_hash H) (pool_abs H p) x k)"
proof -
  let ?t = "pool_abs H p"
  have inv: "incremental_inv (pair_hash H) 20 ?t ls" using t by (simp add: pool_tree_def)
  have len: "length (pl_filled_subtrees p) = 20" using inv by (simp add: incremental_inv_def pool_abs_def)
  have "be_int (be_bytes 32 (it_filled ?t ! l)) = it_filled ?t ! l" if "l < 20" for l
    using t len that by (simp add: pool_abs_def pool_tree_def list_all_length field_bytes)
  moreover have "be_int (be_bytes 32 (spec_node (pair_hash H) (ls @ [x]) l i)) = spec_node (pair_hash H) (ls @ [x]) l i" for l i
    using spec_node_field [OF P f] by (rule in_field_bytes)
  ultimately have "map (be_int \<circ> be_bytes 32) (is_filled (incremental_run (pair_hash H) ?t x k))
      = is_filled (incremental_run (pair_hash H) ?t x k)"
    using incremental_run_spec [OF inv k, of x] by (simp del: upt_Suc)
  then show ?thesis by simp
qed

lemma ring_inv_extend:
  assumes "ring_inv H history ls"
  shows "ring_inv H (history[Suc (length ls) mod 256 := be_bytes 32 (spec_root (pair_hash H) 20 (ls @ [x]))]) (ls @ [x])"
proof -
  let ?n = "length ls" and ?r = "be_bytes 32 (spec_root (pair_hash H) 20 (ls @ [x]))"
  have len: "length history = 256" using assms by (simp add: ring_inv_def)
  have "(history[Suc ?n mod 256 := ?r]) ! (k mod 256) = be_bytes 32 (spec_root (pair_hash H) 20 (take k (ls @ [x])))"
    if k: "k \<le> Suc ?n" "Suc ?n < k + 256" for k
  proof (cases "k = Suc ?n")
    case True
    then show ?thesis using len by simp
  next
    case False
    then have kn: "k \<le> ?n" using k by simp
    have "Suc ?n mod 256 \<noteq> k mod 256"
    proof
      assume "Suc ?n mod 256 = k mod 256"
      then have "(Suc ?n - k) mod 256 = 0" using k(1) by (metis mod_eq_dvd_iff_nat mod_0_imp_dvd dvd_imp_mod_0)
      then show False using k False by simp
    qed
    then show ?thesis using assms kn k by (simp add: ring_inv_def)
  qed
  moreover have "(history[Suc ?n mod 256 := ?r]) ! i = replicate 32 0" if "i < 256" "Suc ?n < i" for i
    using assms that by (simp add: ring_inv_def)
  ultimately show ?thesis using len by (simp add: ring_inv_def)
qed

text \<open>
  What an insertion gives, on every branch: refused when the pool is paused, saturated, or the leaf is no
  canonical field element; otherwise the pool stands for the tree with the leaf appended, the returned
  root is that tree's root, and no field outside the tree changes.
\<close>

definition inserted :: "pool \<Rightarrow> pool \<Rightarrow> bool" where
  "inserted p p' \<longleftrightarrow> p' = p\<lparr>pl_filled_subtrees := pl_filled_subtrees p', pl_root_history := pl_root_history p',
     pl_current_root_index := pl_current_root_index p', pl_next_index := pl_next_index p + 1\<rparr>"

lemma insert_refused_leaf:
  assumes P: "poseidon_laws H hashv" "zeros_generated H" and t: "pool_tree H p ls"
    and l: "length leaf = 32" "\<not> in_field (be_int leaf)"
  shows "insert_rounds hashv (Suc k) \<lparr>il_filled = pl_filled_subtrees p, il_hash = leaf, il_index = pl_next_index p\<rparr>
    = Fails (Code PoseidonFailed)"
proof (induction k)
  case 0
  have "length (pl_filled_subtrees p) = 20" using t by (simp add: pool_tree_def incremental_inv_def pool_abs_def)
  then have "length (pl_filled_subtrees p ! 0) = 32" using t by (simp add: pool_tree_def list_all_length)
  moreover have "length (ZEROS ! 0) = 32" by (simp add: ZEROS_def zero_values_def)
  ultimately have "hashv [leaf, ZEROS ! 0] = None" "hashv [pl_filled_subtrees p ! 0, leaf] = None"
    using P(1) l by (simp_all add: poseidon_laws_def)
  then show ?case by (simp add: insert_round_def or_fail_def)
qed simp

lemma pool_insert_cases:
  assumes P: "poseidon_laws H hashv" "zeros_generated H" and t: "pool_tree H p ls" and l: "length leaf = 32"
  shows "(if pl_is_paused p \<noteq> 0 then pool_insert hashv p leaf = Fails (Code PoolPaused)
     else if 950000 \<le> length ls then pool_insert hashv p leaf = Fails (Code PoolSaturated)
     else if \<not> in_field (be_int leaf) then pool_insert hashv p leaf = Fails (Code PoseidonFailed)
     else \<exists>p'. pool_insert hashv p leaf = Gives (be_bytes 32 (spec_root (pair_hash H) 20 (ls @ [be_int leaf])), p')
        \<and> pool_tree H p' (ls @ [be_int leaf]) \<and> inserted p p')"
proof -
  let ?x = "be_int leaf" and ?h = "pair_hash H" and ?n = "length ls"
  let ?t = "pool_abs H p"
  have n: "pl_next_index p = int ?n" by (rule pool_tree_count [OF t])
  have goal: "\<exists>p'. pool_insert hashv p leaf = Gives (be_bytes 32 (spec_root ?h 20 (ls @ [?x])), p')
        \<and> pool_tree H p' (ls @ [?x]) \<and> inserted p p'"
    if c: "pl_is_paused p = 0" "?n < 950000" "in_field ?x"
  proof -
    have inv: "incremental_inv ?h 20 ?t ls" and f: "list_all in_field (ls @ [?x])"
      and b: "map (be_bytes 32) (it_filled ?t) = pl_filled_subtrees p"
      using t c filled_bytes by (simp_all add: pool_tree_def pool_abs_def)
    have cap: "?n < 2 ^ 20" using c(2) by simp
    let ?s = "incremental_run ?h ?t ?x 20"
    have ins: "insert_rounds hashv 20 \<lparr>il_filled = pl_filled_subtrees p, il_hash = leaf, il_index = pl_next_index p\<rparr>
        = Gives \<lparr>il_filled = map (be_bytes 32) (is_filled ?s), il_hash = be_bytes 32 (is_hash ?s), il_index = int (is_index ?s)\<rparr>"
      using insert_rounds_run [OF P inv f order_refl] l n unfolding b by (simp add: field_bytes pool_abs_def)
    note i = incremental_insert_inv [OF inv cap, of ?x]
    have e: "incremental_insert ?h ?t ?x = (?t\<lparr>it_filled := is_filled ?s, it_nextIndex := it_nextIndex ?t + 1\<rparr>,
        zip (is_elements ?s) (is_indices ?s), is_hash ?s)"
      by (simp add: incremental_insert_def Let_def pool_abs_def)
    have root: "is_hash ?s = spec_root ?h 20 (ls @ [?x])" using i(2) unfolding e by simp
    have len: "length (is_filled ?s) = 20" using i(1) unfolding e by (simp add: incremental_inv_def)
    define p' where "p' = p\<lparr>pl_filled_subtrees := map (be_bytes 32) (is_filled ?s),
      pl_root_history := (pl_root_history p)[Suc ?n mod 256 := be_bytes 32 (spec_root ?h 20 (ls @ [?x]))],
      pl_current_root_index := int (Suc ?n mod 256), pl_next_index := int ?n + 1\<rparr>"
    have cur: "pl_current_root_index p = int (?n mod 256)" using t by (simp add: pool_tree_def)
    have slot: "(int (?n mod 256) + 1) mod 256 = int (Suc ?n mod 256)"
      by (metis Suc_eq_plus1 mod_Suc_eq of_nat_1 of_nat_add of_nat_mod of_nat_numeral)
    have "int (?n mod 256) < 256" by simp
    then have "pool_insert hashv p leaf = Gives (be_bytes 32 (spec_root ?h 20 (ls @ [?x])), p')"
      using c n ins slot
      by (simp add: pool_insert_def guard_def PROGRAM_SATURATION_THRESHOLD_def TREE_DEPTH_def ROOT_HISTORY_SIZE_def root cur p'_def nat_mod_distrib)
    moreover have "pool_tree H p' (ls @ [?x])"
    proof -
      have "pool_abs H p' = fst (incremental_insert ?h ?t ?x)"
      proof -
        have "map be_int (map (be_bytes 32) (is_filled ?s)) = is_filled ?s"
          by (rule filled_round_trip [OF P(1) t f order_refl])
        then show ?thesis using n unfolding e by (simp add: pool_abs_def p'_def nat_add_distrib)
      qed
      then show ?thesis
        using i(1) f ring_inv_extend [of H "pl_root_history p" ls ?x] t
        by (simp add: pool_tree_def p'_def list_all_iff)
    qed
    moreover have "inserted p p'" using n by (simp add: inserted_def p'_def)
    ultimately show ?thesis by blast
  qed
  have "pool_insert hashv p leaf = Fails (Code PoseidonFailed)" if "pl_is_paused p = 0" "?n < 950000" "\<not> in_field ?x"
    using insert_refused_leaf [OF P t l that(3), of 19] that(1,2) n
    by (simp add: pool_insert_def guard_def PROGRAM_SATURATION_THRESHOLD_def TREE_DEPTH_def)
  then show ?thesis
    using goal n by (auto simp: pool_insert_def guard_def PROGRAM_SATURATION_THRESHOLD_def not_less)
qed

end
