(* ===== verification/MonitorWatch.thy ===== *)
theory MonitorWatch
  imports MonitorChecks
begin

text \<open>
  One pass of the watcher, monitor/src/index.js: reading pools and the upgrade authority, the rules
  of \<open>MonitorChecks\<close>, the baselines kept in the state file and the alert store with its
  cooldown. RPC answers, the clock, the base58 text of a key and the label of a denomination are
  parameters.
\<close>

subsection \<open>Chain reads\<close>

definition VAULT_SPACE :: nat where "VAULT_SPACE = 8"

text \<open>None: no such account; Some None: the program is immutable.\<close>

definition readUpgradeAuthority :: "(pubkey \<Rightarrow> string) \<Rightarrow> account_info option js \<Rightarrow> string option option js" where
  "readUpgradeAuthority show_key lookup =
     js_bind lookup (\<lambda>info. case info of
       None \<Rightarrow> Returns None
     | Some a \<Rightarrow> Returns (Some (if byte_is (acc_data a) 12 1 then Some (show_key (subarray (acc_data a) 13 45)) else None)))"

record pool_reads =
  pr_account :: "account_info option js"
  pr_balance :: "int js"
  pr_rent :: "int js"

datatype pool_read = PoolError string | PoolRead pool_obs

text \<open>\<open>Promise.all\<close> rejects with the first rejection; which one is not observable in a finding.\<close>

definition readPool :: "(pubkey \<Rightarrow> string) \<Rightarrow> (int \<Rightarrow> string) \<Rightarrow> pubkey \<Rightarrow> pool_reads \<Rightarrow> pool_read js" where
  "readPool show_key label programId r =
     js_bind (pr_account r) (\<lambda>info.
     js_bind (pr_balance r) (\<lambda>vaultLamports.
     js_bind (pr_rent r) (\<lambda>vaultRent.
     case info of
       None \<Rightarrow> Returns (PoolError ''pool account not found'')
     | Some a \<Rightarrow>
         if acc_owner a \<noteq> programId then Returns (PoolError (''owned by '' @ show_key (acc_owner a)))
         else if length (acc_data a) < POOL_ACCOUNT_LEN \<or> subarray (acc_data a) 0 8 \<noteq> POOL_DISCRIMINATOR
           then Returns (PoolError ''not a Pool account'')
         else js_bind (read_u64_js (acc_data a) OFF_DENOMINATION) (\<lambda>denomination.
              js_bind (read_u64_js (acc_data a) OFF_NEXT_INDEX) (\<lambda>deposits.
              Returns (PoolRead
                \<lparr>po_label = label denomination, po_denomination = denomination, po_deposits = deposits,
                 po_vaultLamports = vaultLamports, po_vaultRent = vaultRent,
                 po_isPaused = byte_is (acc_data a) OFF_IS_PAUSED 1,
                 po_admin = show_key (subarray (acc_data a) 8 40),
                 po_treasury = show_key (subarray (acc_data a) OFF_TREASURY (OFF_TREASURY + 32))\<rparr>))))))"

text \<open>
  The watcher and the relayer read the same pool: on every account the watcher accepts exactly
  the accounts the relayer accepts, and reads from them the same denomination, deposit count, pause
  flag and treasury.
\<close>

theorem monitor_reads_what_relayer_reads:
  assumes "pr_account r = Returns (Some a)" "pr_balance r = Returns v" "pr_rent r = Returns rn"
  shows "(case loadPool (Returns (Some a)) programId of
      Returns (PoolLoaded pv) \<Rightarrow>
        \<exists>obs. readPool show_key label programId r = Returns (PoolRead obs)
          \<and> po_denomination obs = pv_denomination pv \<and> po_deposits obs = pv_nextIndex pv
          \<and> po_isPaused obs = pv_isPaused pv \<and> po_treasury obs = show_key (pv_treasury pv)
          \<and> po_vaultLamports obs = v \<and> po_vaultRent obs = rn
    | _ \<Rightarrow> (\<exists>e. readPool show_key label programId r = Returns (PoolError e)))"
proof (cases "is_pool programId a")
  case True
  then have d: "acc_owner a = programId" "\<not> length (acc_data a) < POOL_ACCOUNT_LEN" "subarray (acc_data a) 0 8 = POOL_DISCRIMINATOR"
    by (auto simp: is_pool_def subarray_def)
  have "readPool show_key label programId r = Returns (PoolRead
      \<lparr>po_label = label (le_int (subarray (acc_data a) 72 80)), po_denomination = le_int (subarray (acc_data a) 72 80),
       po_deposits = le_int (subarray (acc_data a) 88 96), po_vaultLamports = v, po_vaultRent = rn,
       po_isPaused = (acc_data a ! 131 = 1), po_admin = show_key (subarray (acc_data a) 8 40),
       po_treasury = show_key (subarray (acc_data a) 96 128)\<rparr>)"
    using assms d by (simp add: readPool_def read_u64_js_ok pool_offsets byte_is_def)
  then show ?thesis using loadPool_ok [OF True] by (simp add: view_of_def)
next
  case False
  then have "\<exists>e. readPool show_key label programId r = Returns (PoolError e)"
    using assms by (auto simp: readPool_def is_pool_def subarray_def)
  moreover have "loadPool (Returns (Some a)) programId = Returns (PoolRefused 400 ''NotAPool'')"
    using False by (auto simp: loadPool_def is_pool_def subarray_def [of _ 0])
  ultimately show ?thesis by simp
qed

lemma monitor_reads_what_relayer_reads_witness:
  "\<exists>obs. readPool (\<lambda>k. ''k'') (\<lambda>d. ''1 SOL'') [9]
     \<lparr>pr_account = Returns (Some \<lparr>acc_owner = [9], acc_data = POOL_DISCRIMINATOR @ replicate 8968 0, acc_lamports = 5\<rparr>),
      pr_balance = Returns 100, pr_rent = Returns 90\<rparr> = Returns (PoolRead obs) \<and> po_vaultLamports obs = 100"
proof -
  let ?a = "\<lparr>acc_owner = [9], acc_data = POOL_DISCRIMINATOR @ replicate 8968 0, acc_lamports = 5\<rparr>"
  have "is_pool [9] ?a" by (simp add: is_pool_def POOL_ACCOUNT_LEN_def POOL_DISCRIMINATOR_def)
  then have l: "loadPool (Returns (Some ?a)) [9] = Returns (PoolLoaded (view_of (acc_data ?a)))" by (rule loadPool_ok)
  show ?thesis
    using monitor_reads_what_relayer_reads [where r = "\<lparr>pr_account = Returns (Some ?a), pr_balance = Returns 100, pr_rent = Returns 90\<rparr>"
        and a = ?a and v = 100 and rn = 90
        and programId = "[9]" and show_key = "\<lambda>k. ''k''" and label = "\<lambda>d. ''1 SOL''"]
    unfolding l by auto
qed

subsection \<open>Alerting\<close>

type_synonym alerts = "string \<rightharpoonup> int"

definition alert_key :: "finding \<Rightarrow> string" where
  "alert_key f = f_code f @ '':'' @ (case f_pool f of None \<Rightarrow> ''-'' | Some l \<Rightarrow> l)"

datatype emission = Alerted finding | Logged finding | Suppressed finding

definition emit_one :: "int \<Rightarrow> int \<Rightarrow> finding \<Rightarrow> nat \<times> emission list \<times> alerts \<Rightarrow> nat \<times> emission list \<times> alerts" where
  "emit_one now cooldownMs f st =
     (let (criticals, out, al) = st; key = alert_key f in
      if f_severity f = CRITICAL then (criticals + 1, out @ [Alerted f], al(key \<mapsto> now))
      else let last = (case al key of None \<Rightarrow> 0 | Some t \<Rightarrow> t) in
        if now - last < cooldownMs then (criticals, out @ [Suppressed f], al)
        else (criticals, out @ [if f_severity f = WARNING then Alerted f else Logged f], al(key \<mapsto> now)))"

definition emit :: "int \<Rightarrow> int \<Rightarrow> finding list \<Rightarrow> alerts \<Rightarrow> nat \<times> emission list \<times> alerts" where
  "emit now cooldownMinutes findings al = fold (emit_one now (cooldownMinutes * 60000)) findings (0, [], al)"

lemma emit_invariant:
  "fst (fold (emit_one now cd) fs (n, out, al)) = n + length (filter (\<lambda>f. f_severity f = CRITICAL) fs)
   \<and> set out \<subseteq> set (fst (snd (fold (emit_one now cd) fs (n, out, al))))
   \<and> (\<forall>f\<in>set fs. f_severity f = CRITICAL \<longrightarrow> Alerted f \<in> set (fst (snd (fold (emit_one now cd) fs (n, out, al)))))"
proof (induction fs arbitrary: n out al)
  case (Cons f fs)
  obtain n' out' al' where s: "emit_one now cd f (n, out, al) = (n', out', al')" by (metis prod_cases3)
  have "n' = n + (if f_severity f = CRITICAL then 1 else 0)" "set out \<subseteq> set out'"
      "f_severity f = CRITICAL \<longrightarrow> Alerted f \<in> set out'"
    using s by (auto simp: emit_one_def Let_def split: if_splits)
  then show ?case using Cons [of n' out' al'] s by auto
qed simp

lemma emit_suppresses_only_recent:
  "Suppressed f \<in> set (fst (snd (fold (emit_one now cd) fs (n, out, al)))) \<Longrightarrow> Suppressed f \<notin> set out \<Longrightarrow>
   f_severity f \<noteq> CRITICAL \<and>
   (now - (case al (alert_key f) of None \<Rightarrow> 0 | Some t \<Rightarrow> t) < cd \<or>
    (0 < cd \<and> (\<exists>g\<in>set fs. alert_key g = alert_key f)))"
proof (induction fs arbitrary: n out al)
  case (Cons g fs)
  obtain n' out' al' where s: "emit_one now cd g (n, out, al) = (n', out', al')" by (metis prod_cases3)
  show ?case
  proof (cases "Suppressed f \<in> set out'")
    case True
    then show ?thesis using s Cons.prems(2) by (auto simp: emit_one_def Let_def split: if_splits)
  next
    case False
    have IH: "f_severity f \<noteq> CRITICAL \<and>
        (now - (case al' (alert_key f) of None \<Rightarrow> 0 | Some t \<Rightarrow> t) < cd \<or> (0 < cd \<and> (\<exists>g\<in>set fs. alert_key g = alert_key f)))"
      using Cons.IH [of n' out' al'] Cons.prems(1) s False by simp
    have "al' = al \<or> al' = al(alert_key g \<mapsto> now)"
      using s by (auto simp: emit_one_def Let_def split: if_splits)
    then show ?thesis
    proof
      assume "al' = al"
      then show ?thesis using IH by auto
    next
      assume a: "al' = al(alert_key g \<mapsto> now)"
      show ?thesis
      proof (cases "alert_key g = alert_key f")
        case True
        then show ?thesis using IH a by auto
      next
        case False
        then show ?thesis using IH a by auto
      qed
    qed
  qed
qed simp

lemma emit_critical:
  assumes "f \<in> set fs" "f_severity f = CRITICAL"
  shows "Alerted f \<in> set (fst (snd (emit now minutes fs al))) \<and> 0 < fst (emit now minutes fs al)"
proof -
  have "f \<in> set (filter (\<lambda>f. f_severity f = CRITICAL) fs)" using assms by simp
  then have "0 < length (filter (\<lambda>f. f_severity f = CRITICAL) fs)" by (rule length_pos_if_in_set)
  then show ?thesis
    using emit_invariant [of now "minutes * 60000" fs 0 "[]" al] assms by (simp add: emit_def)
qed

text \<open>
  A critical finding is never suppressed: each one is alerted whatever the alert history and
  the cooldown, and the count the process exits with is the number of them. A finding is suppressed
  only if it is not critical and its key was alerted within the cooldown or earlier in this pass.
\<close>

theorem critical_never_suppressed:
  "(\<forall>f\<in>set findings. f_severity f = CRITICAL \<longrightarrow> Alerted f \<in> set (fst (snd (emit now minutes findings al))))
   \<and> fst (emit now minutes findings al) = length (filter (\<lambda>f. f_severity f = CRITICAL) findings)
   \<and> (\<forall>f. Suppressed f \<in> set (fst (snd (emit now minutes findings al))) \<longrightarrow>
        f_severity f \<noteq> CRITICAL
        \<and> (now - (case al (alert_key f) of None \<Rightarrow> 0 | Some t \<Rightarrow> t) < minutes * 60000
           \<or> (\<exists>g\<in>set findings. alert_key g = alert_key f)))"
  using emit_invariant [of now "minutes * 60000" findings 0 "[]" al]
    emit_suppresses_only_recent [of _ now "minutes * 60000" findings 0 "[]" al]
  by (auto simp: emit_def)

lemma critical_never_suppressed_witness:
  "Alerted (raise_finding CRITICAL ''X'' None)
     \<in> set (fst (snd (emit 5 30 [raise_finding CRITICAL ''X'' None] [''X:-'' \<mapsto> 5])))"
  using critical_never_suppressed [of "[raise_finding CRITICAL ''X'' None]" 5 30 "[''X:-'' \<mapsto> 5]"]
  by (simp add: raise_finding_def)

text \<open>
  The cooldown key is not the pool: it is the code and the label, and the label is computed from
  the denomination alone, so of two different pools of one denomination that raise the same warning
  in one pass only the first is alerted, although the source says alerts are limited per code and
  pool.
\<close>

theorem same_denomination_shares_cooldown:
  assumes "po_label p = label (po_denomination p)" "po_label q = label (po_denomination q)"
    and "po_denomination p = po_denomination q" and "0 < minutes" "minutes * 60000 \<le> now"
    and "950000 \<le> po_deposits p" "950000 \<le> po_deposits q"
  shows "fst (snd (emit now minutes (checkSaturation p SATURATION_THRESHOLD @ checkSaturation q SATURATION_THRESHOLD) Map.empty))
    = [Alerted (raise_finding WARNING ''POOL_SATURATED'' (Some (po_label p))),
       Suppressed (raise_finding WARNING ''POOL_SATURATED'' (Some (po_label q)))]"
  using assms by (simp add: emit_def checkSaturation_def SATURATION_THRESHOLD_def emit_one_def raise_finding_def alert_key_def)

lemma same_denomination_shares_cooldown_witness:
  "fst (snd (emit 1800000 30 (checkSaturation (example_obs\<lparr>po_deposits := 950000\<rparr>) SATURATION_THRESHOLD
      @ checkSaturation (example_obs\<lparr>po_deposits := 960000, po_admin := ''B''\<rparr>) SATURATION_THRESHOLD) Map.empty))
    = [Alerted (raise_finding WARNING ''POOL_SATURATED'' (Some ''1 SOL'')),
       Suppressed (raise_finding WARNING ''POOL_SATURATED'' (Some ''1 SOL''))]"
  using same_denomination_shares_cooldown [of "example_obs\<lparr>po_deposits := 950000\<rparr>" "\<lambda>d. ''1 SOL''"
      "example_obs\<lparr>po_deposits := 960000, po_admin := ''B''\<rparr>" 30 1800000]
  by (simp add: example_obs_def)

subsection \<open>One pass\<close>

record stored_pool =
  sp_label :: string
  sp_seen :: prev_obs
  sp_baseline :: "pool_fields option"

record watch_state =
  ws_pools :: "string \<rightharpoonup> stored_pool"
  ws_alerts :: alerts

definition loadState :: "watch_state option \<Rightarrow> watch_state" where
  "loadState file = (case file of Some st \<Rightarrow> st | None \<Rightarrow> \<lparr>ws_pools = Map.empty, ws_alerts = Map.empty\<rparr>)"

definition saveState :: "bool \<Rightarrow> watch_state \<Rightarrow> watch_state option \<Rightarrow> watch_state option" where
  "saveState writable st file = (if writable then Some st else file)"

text \<open>What a pass reads: every pool address, the upgrade authority, the relayer's balance if configured.\<close>

record watch_env =
  we_pools :: "string list"
  we_read :: "string \<Rightarrow> pool_read js"
  we_authority :: "string option option js"
  we_expected :: "string option"
  we_relayer :: "int js option"
  we_now :: int
  we_cooldown :: int

definition fields_of :: "pool_obs \<Rightarrow> pool_fields" where
  "fields_of p = \<lparr>pf_admin = po_admin p, pf_treasury = po_treasury p, pf_denomination = big_to_string 10 (po_denomination p)\<rparr>"

definition baseline_for :: "stored_pool option \<Rightarrow> pool_obs \<Rightarrow> pool_fields" where
  "baseline_for previous p =
     (case previous of
        None \<Rightarrow> fields_of p
      | Some s \<Rightarrow> (case sp_baseline s of None \<Rightarrow> fields_of p | Some b \<Rightarrow> b))"

definition store_pool :: "stored_pool option \<Rightarrow> pool_obs \<Rightarrow> stored_pool" where
  "store_pool previous p =
     \<lparr>sp_label = po_label p,
      sp_seen = \<lparr>seen_vaultLamports = Some (big_to_string 10 (po_vaultLamports p)), seen_isPaused = Some (po_isPaused p)\<rparr>,
      sp_baseline = Some (baseline_for previous p)\<rparr>"

definition watch_authority :: "stored_pool option \<Rightarrow> pool_obs \<Rightarrow> authority_pool" where
  "watch_authority previous p =
     \<lparr>ap_label = po_label p, ap_baseline = Some (baseline_for previous p), ap_current = Some (fields_of p)\<rparr>"

text \<open>
  The loop over the configured pools. The state is mutated in place, so a rule that raises leaves
  the entries of the pools already visited in it and loses the findings of the pass.
\<close>

fun scan_pools :: "(string \<Rightarrow> pool_read js) \<Rightarrow> string list \<Rightarrow> finding list \<times> authority_pool list
    \<Rightarrow> (string \<rightharpoonup> stored_pool) \<Rightarrow> (finding list \<times> authority_pool list) js \<times> (string \<rightharpoonup> stored_pool)" where
  "scan_pools read [] acc pools = (Returns acc, pools)"
| "scan_pools read (address # rest) (findings, auths) pools =
     (case read address of
        Throws _ \<Rightarrow> scan_pools read rest (findings @ [raise_finding WARNING ''RPC_ERROR'' (Some address)], auths) pools
      | Returns (PoolError _) \<Rightarrow>
          scan_pools read rest (findings @ [raise_finding CRITICAL ''POOL_UNREADABLE'' (Some address)], auths) pools
      | Returns (PoolRead pool) \<Rightarrow>
          case runPoolChecks pool (map_option sp_seen (pools address)) of
            Throws e \<Rightarrow> (Throws e, pools)
          | Returns out \<Rightarrow>
              scan_pools read rest (findings @ out, auths @ [watch_authority (pools address) pool])
                (pools(address \<mapsto> store_pool (pools address) pool)))"

definition authority_findings :: "watch_env \<Rightarrow> authority_pool list \<Rightarrow> finding list" where
  "authority_findings env auths =
     (case we_authority env of
        Throws _ \<Rightarrow> raise_finding WARNING ''RPC_ERROR'' None # checkAuthorities (we_expected env) None auths
      | Returns actual \<Rightarrow> checkAuthorities (we_expected env) actual auths)"

definition relayer_findings :: "watch_env \<Rightarrow> finding list" where
  "relayer_findings env =
     (case we_relayer env of
        None \<Rightarrow> []
      | Some (Throws _) \<Rightarrow> [raise_finding WARNING ''RPC_ERROR'' None]
      | Some (Returns balance) \<Rightarrow> checkRelayerBalance (Some balance) 10000000 100000000)"

record pass_report =
  rp_findings :: "finding list"
  rp_criticals :: nat
  rp_emitted :: "emission list"

definition runOnce :: "watch_env \<Rightarrow> watch_state \<Rightarrow> pass_report js \<times> watch_state" where
  "runOnce env st =
     (case scan_pools (we_read env) (we_pools env) ([], []) (ws_pools st) of
        (Throws e, pools) \<Rightarrow> (Throws e, st\<lparr>ws_pools := pools\<rparr>)
      | (Returns (findings, auths), pools) \<Rightarrow>
          (let all = findings @ authority_findings env auths @ relayer_findings env;
               (criticals, emitted, al) = emit (we_now env) (we_cooldown env) all (ws_alerts st) in
           (Returns \<lparr>rp_findings = all, rp_criticals = criticals, rp_emitted = emitted\<rparr>,
            \<lparr>ws_pools = pools, ws_alerts = al\<rparr>)))"

text \<open>The exit code of \<open>--once\<close>; an unconfigured or failed run exits with 2.\<close>

definition watch_once :: "watch_env \<Rightarrow> watch_state option \<Rightarrow> nat" where
  "watch_once env file =
     (if we_pools env = [] then 2
      else case fst (runOnce env (loadState file)) of
          Throws _ \<Rightarrow> 2
        | Returns rep \<Rightarrow> if 0 < rp_criticals rep then 1 else 0)"

text \<open>The daemon: a failed pass is logged and the next one starts from the state it left.\<close>

primrec watch_daemon :: "watch_env list \<Rightarrow> watch_state \<Rightarrow> pass_report js list \<times> watch_state" where
  "watch_daemon [] st = ([], st)"
| "watch_daemon (env # rest) st =
     (let (rep, st') = runOnce env st; (reps, st'') = watch_daemon rest st' in (rep # reps, st''))"

definition baseline_at :: "(string \<rightharpoonup> stored_pool) \<Rightarrow> string \<Rightarrow> pool_fields option" where
  "baseline_at pools a = (case pools a of None \<Rightarrow> None | Some s \<Rightarrow> sp_baseline s)"

lemma baseline_store:
  "baseline_at pools a = Some b \<Longrightarrow> baseline_at (pools(x \<mapsto> store_pool (pools x) p)) a = Some b"
  by (auto simp: baseline_at_def store_pool_def baseline_for_def split: option.splits)

lemma baseline_forD: "baseline_at pools a = Some b \<Longrightarrow> baseline_for (pools a) p = b"
  by (auto simp: baseline_at_def baseline_for_def split: option.splits)

lemma scan_keeps_baseline:
  "baseline_at pools a = Some b \<Longrightarrow> baseline_at (snd (scan_pools read addrs acc pools)) a = Some b"
proof (induction addrs arbitrary: acc pools)
  case (Cons x rest)
  then show ?case
    by (cases acc) (auto split: js.split pool_read.split simp del: fun_upd_apply intro!: Cons.IH baseline_store)
qed simp

lemma scan_grows:
  "scan_pools read addrs acc pools = (Returns (fs, auths), pools') \<Longrightarrow> set (fst acc) \<subseteq> set fs \<and> set (snd acc) \<subseteq> set auths"
proof (induction addrs arbitrary: acc pools)
  case (Cons x rest)
  obtain findings auths0 where acc: "acc = (findings, auths0)" by (cases acc)
  from Cons.prems show ?case
    unfolding acc by (auto split: js.splits pool_read.splits simp del: fun_upd_apply dest!: Cons.IH)
qed simp

lemma scan_compares:
  "scan_pools read addrs acc pools = (Returns (fs, auths), pools') \<Longrightarrow> a \<in> set addrs \<Longrightarrow>
   read a = Returns (PoolRead p) \<Longrightarrow> baseline_at pools a = Some b \<Longrightarrow>
   \<lparr>ap_label = po_label p, ap_baseline = Some b, ap_current = Some (fields_of p)\<rparr> \<in> set auths"
proof (induction addrs arbitrary: acc pools)
  case (Cons x rest)
  obtain findings auths0 where acc: "acc = (findings, auths0)" by (cases acc)
  show ?case
  proof (cases "x = a")
    case True
    obtain out where "scan_pools read rest (findings @ out, auths0 @ [watch_authority (pools a) p])
        (pools(a \<mapsto> store_pool (pools a) p)) = (Returns (fs, auths), pools')"
      using Cons.prems(1,3) True acc by (auto split: js.splits simp del: fun_upd_apply)
    from scan_grows [OF this] show ?thesis
      using baseline_forD [OF Cons.prems(4)] by (simp add: watch_authority_def)
  next
    case False
    then have m: "a \<in> set rest" using Cons.prems(2) by simp
    show ?thesis
      using Cons.prems(1) Cons.IH [OF _ m Cons.prems(3)] Cons.prems(4) baseline_store [OF Cons.prems(4)]
      unfolding acc by (auto split: js.splits pool_read.splits simp del: fun_upd_apply)
  qed
qed simp

lemma runOnce_keeps_baseline:
  "baseline_at (ws_pools st) a = Some b \<Longrightarrow> baseline_at (ws_pools (snd (runOnce env st))) a = Some b"
  using scan_keeps_baseline [of "ws_pools st" a b "we_read env" "we_pools env" "([], [])"]
  by (auto simp: runOnce_def Let_def split: prod.splits js.splits)

lemma runOnce_reports_drift:
  assumes "fst (runOnce env st) = Returns rep" "a \<in> set (we_pools env)"
    and "we_read env a = Returns (PoolRead p)" "baseline_at (ws_pools st) a = Some b" "fields_of p \<noteq> b"
  shows "Alerted (raise_finding CRITICAL ''IMMUTABLE_FIELD_CHANGED'' (Some (po_label p))) \<in> set (rp_emitted rep)
    \<and> 0 < rp_criticals rep"
proof -
  let ?f = "raise_finding CRITICAL ''IMMUTABLE_FIELD_CHANGED'' (Some (po_label p))"
  obtain fs auths pools where sc: "scan_pools (we_read env) (we_pools env) ([], []) (ws_pools st) = (Returns (fs, auths), pools)"
    using assms(1) by (cases "scan_pools (we_read env) (we_pools env) ([], []) (ws_pools st)")
      (auto simp: runOnce_def split: js.splits)
  let ?all = "fs @ authority_findings env auths @ relayer_findings env"
  have "?f \<in> set (checkAuthorities (we_expected env) actual auths)" for actual
    using scan_compares [OF sc assms(2,3,4)] assms(5) immutable_finding by fastforce
  then have "?f \<in> set ?all" by (auto simp: authority_findings_def split: js.splits)
  moreover have "f_severity ?f = CRITICAL" by (simp add: raise_finding_def)
  moreover have "rp_emitted rep = fst (snd (emit (we_now env) (we_cooldown env) ?all (ws_alerts st)))"
      "rp_criticals rep = fst (emit (we_now env) (we_cooldown env) ?all (ws_alerts st))"
    using assms(1) sc by (auto simp: runOnce_def Let_def split: prod.splits)
  ultimately show ?thesis
    using emit_critical [of ?f ?all "we_now env" "we_cooldown env" "ws_alerts st"] by simp
qed

text \<open>
  Drift of an immutable field is alerted on every pass, for ever: once a pool has a baseline, no
  sequence of passes, failed ones included, changes it, and every pass that completes and reads the
  pool with another admin, treasury or denomination alerts a critical finding, never suppressed by
  the cooldown, and counts it, so a single pass exits with 1.
\<close>

theorem drift_alerted_every_pass:
  assumes "baseline_at (ws_pools st) a = Some b"
  shows "baseline_at (ws_pools (snd (watch_daemon envs st))) a = Some b
    \<and> (\<forall>i<length envs. \<forall>rep p.
         fst (watch_daemon envs st) ! i = Returns rep \<and> a \<in> set (we_pools (envs ! i))
         \<and> we_read (envs ! i) a = Returns (PoolRead p) \<and> fields_of p \<noteq> b \<longrightarrow>
         Alerted (raise_finding CRITICAL ''IMMUTABLE_FIELD_CHANGED'' (Some (po_label p))) \<in> set (rp_emitted rep)
         \<and> 0 < rp_criticals rep)"
  using assms
proof (induction envs arbitrary: st)
  case (Cons env envs)
  let ?st = "snd (runOnce env st)"
  note IH = Cons.IH [OF runOnce_keeps_baseline [OF Cons.prems, of env]]
  have d: "fst (watch_daemon (env # envs) st) = fst (runOnce env st) # fst (watch_daemon envs ?st)"
      "snd (watch_daemon (env # envs) st) = snd (watch_daemon envs ?st)"
    by (simp_all add: case_prod_unfold Let_def)
  show ?case
    unfolding d using IH runOnce_reports_drift [OF _ _ _ Cons.prems, of env]
    by (auto simp: less_Suc_eq_0_disj)
qed simp

definition example_watch :: "pool_obs \<Rightarrow> watch_env" where
  "example_watch p = \<lparr>we_pools = [''P''], we_read = (\<lambda>a. Returns (PoolRead p)), we_authority = Returns (Some None),
     we_expected = None, we_relayer = None, we_now = 1800000, we_cooldown = 30\<rparr>"

lemma drift_alerted_every_pass_witness:
  "\<exists>rep. fst (watch_daemon [example_watch (example_obs\<lparr>po_treasury := ''X''\<rparr>)]
      (snd (runOnce (example_watch example_obs) (loadState None)))) ! 0 = Returns rep \<and> 0 < rp_criticals rep"
proof -
  let ?st = "snd (runOnce (example_watch example_obs) (loadState None))"
  let ?q = "example_obs\<lparr>po_treasury := ''X''\<rparr>"
  have b: "baseline_at (ws_pools ?st) ''P'' = Some (fields_of example_obs)" by code_simp
  obtain rep where r: "fst (watch_daemon [example_watch ?q] ?st) ! 0 = Returns rep"
  proof -
    have "case fst (watch_daemon [example_watch ?q] ?st) ! 0 of Returns _ \<Rightarrow> True | Throws _ \<Rightarrow> False" by code_simp
    then show thesis using that by (auto split: js.splits)
  qed
  have "fields_of ?q \<noteq> fields_of example_obs" by (simp add: fields_of_def example_obs_def)
  then show ?thesis
    using drift_alerted_every_pass [OF b, of "[example_watch ?q]"] r
    by (auto simp: example_watch_def)
qed

text \<open>
  A blind spot: the outflow rule divides by the pool's denomination, so on a pool that reads a
  zero denomination, for which the integrity rule has a critical finding, and whose vault lost
  lamports since the last pass, the rules raise instead; the pass fails and nothing at all is
  alerted, for that pool or any other, in the daemon or with a single pass, whose exit code is then
  2 and not 1.
\<close>

theorem zero_denomination_blinds_watcher:
  assumes "we_pools env = a # rest" "we_read env a = Returns (PoolRead p)" "po_denomination p = 0"
    and "ws_pools st a = Some sp" "seen_vaultLamports (sp_seen sp) = Some (big_to_string 10 before)"
    and "po_vaultLamports p < before"
  shows "checkVaultIntegrity p = [raise_finding CRITICAL ''BAD_DENOMINATION'' (Some (po_label p))]
    \<and> runOnce env st = (Throws ''Division by zero'', st)
    \<and> watch_once env (Some st) = 2"
proof -
  have i: "checkVaultIntegrity p = [raise_finding CRITICAL ''BAD_DENOMINATION'' (Some (po_label p))]"
    using assms(3) by (simp add: checkVaultIntegrity_def)
  have "runPoolChecks p (map_option sp_seen (ws_pools st a)) = Throws ''Division by zero''"
    using assms by (simp add: runPoolChecks_def checkOutflowRate_def string_bigint_js_def bigint_div_def Let_def)
  then have r: "runOnce env st = (Throws ''Division by zero'', st)"
    using assms by (simp add: runOnce_def)
  then show ?thesis using i assms(1) by (simp add: watch_once_def loadState_def)
qed

lemma zero_denomination_blinds_watcher_witness:
  "fst (runOnce (example_watch (example_obs\<lparr>po_denomination := 0, po_vaultLamports := 0\<rparr>))
     (snd (runOnce (example_watch example_obs) (loadState None)))) = Throws ''Division by zero''"
proof -
  let ?st = "snd (runOnce (example_watch example_obs) (loadState None))"
  let ?p = "example_obs\<lparr>po_denomination := 0, po_vaultLamports := 0\<rparr>"
  have s: "ws_pools ?st ''P'' = Some (store_pool None example_obs)"
    by (simp add: runOnce_def example_watch_def loadState_def runPoolChecks_def checkOutflowRate_def Let_def split: prod.split)
  show ?thesis
    using zero_denomination_blinds_watcher [of "example_watch ?p" "''P''" "[]" ?p ?st "store_pool None example_obs" 3900] s
    by (simp add: example_watch_def example_obs_def store_pool_def)
qed

end
