(* ===== verification/ProgramLayout.thy ===== *)
theory ProgramLayout
  imports ProgramState MonitorWatch AppClient
begin

text \<open>
  The pool as account bytes, the layout of state.rs: the struct as it lies in memory behind Anchor's
  discriminator. What is proved: every reader of the repository, each of which declares its own offsets,
  reads from those bytes the fields of the struct.
\<close>

text \<open>What the types of the struct say.\<close>

definition pool_wf :: "pool \<Rightarrow> bool" where
  "pool_wf p \<longleftrightarrow> length (pl_admin p) = 32 \<and> length (pl_mint p) = 32 \<and> length (pl_treasury p) = 32
     \<and> length (pl_pad0 p) = 7 \<and> length (pl_pad1 p) = 4
     \<and> is_u64 (pl_denomination p) \<and> is_u64 (pl_next_index p) \<and> is_u64 (pl_current_root_index p)
     \<and> length (pl_root_history p) = 256 \<and> list_all (\<lambda>b. length b = 32) (pl_root_history p)
     \<and> length (pl_filled_subtrees p) = 20 \<and> list_all (\<lambda>b. length b = 32) (pl_filled_subtrees p)"

definition pool_head :: "pool \<Rightarrow> bytes" where
  "pool_head p = pl_admin p @ pl_mint p @ le_bytes 8 (pl_denomination p) @ [pl_mint_decimals p] @ pl_pad0 p
     @ le_bytes 8 (pl_next_index p) @ pl_treasury p @ [pl_version p, pl_bump p, pl_vault_bump p, pl_is_paused p]
     @ pl_pad1 p @ le_bytes 8 (pl_current_root_index p)"

definition pool_bytes :: "pool \<Rightarrow> bytes" where
  "pool_bytes p = POOL_DISCRIMINATOR @ pool_head p @ concat (pl_root_history p) @ concat (pl_filled_subtrees p)"

definition chunks :: "nat \<Rightarrow> bytes \<Rightarrow> bytes list" where
  "chunks n bs = map (\<lambda>i. subarray bs (i * 32) (i * 32 + 32)) [0..<n]"

definition pool_of_bytes :: "bytes \<Rightarrow> pool" where
  "pool_of_bytes data =
     (let d = drop 8 data in
      \<lparr>pl_admin = subarray d 0 32, pl_mint = subarray d 32 64, pl_denomination = le_int (subarray d 64 72), pl_mint_decimals = d ! 72,
       pl_pad0 = subarray d 73 80, pl_next_index = le_int (subarray d 80 88), pl_treasury = subarray d 88 120, pl_version = d ! 120,
       pl_bump = d ! 121, pl_vault_bump = d ! 122, pl_is_paused = d ! 123, pl_pad1 = subarray d 124 128,
       pl_current_root_index = le_int (subarray d 128 136), pl_root_history = chunks 256 (subarray d 136 8328),
       pl_filled_subtrees = chunks 20 (subarray d 8328 8968)\<rparr>)"

subsection \<open>The bytes and the struct\<close>

lemma le_int_u64 [simp]: "is_u64 n \<Longrightarrow> le_int (le_bytes 8 n) = n"
  by (simp add: le_int_le_bytes is_u64_def)

lemma length_concat_32: "list_all (\<lambda>b. length b = 32) bs \<Longrightarrow> length (concat bs) = 32 * length bs"
  by (induction bs) simp_all

lemma chunk_of_concat:
  "list_all (\<lambda>b. length b = 32) bs \<Longrightarrow> i < length bs \<Longrightarrow> subarray (concat bs) (i * 32) (i * 32 + 32) = bs ! i"
proof (induction bs arbitrary: i)
  case (Cons b bs)
  then show ?case by (cases i) (simp_all add: subarray_def)
qed simp

lemma chunks_concat: "list_all (\<lambda>b. length b = 32) bs \<Longrightarrow> n = length bs \<Longrightarrow> chunks n (concat bs) = bs"
  by (intro nth_equalityI) (simp_all add: chunks_def chunk_of_concat)

lemma length_discriminator [simp]: "length POOL_DISCRIMINATOR = 8"
  by (simp add: POOL_DISCRIMINATOR_def)

lemma length_pool_head: "pool_wf p \<Longrightarrow> length (pool_head p) = 136"
  by (simp add: pool_wf_def pool_head_def)

lemma length_pool_bytes: "pool_wf p \<Longrightarrow> length (pool_bytes p) = POOL_ACCOUNT_LEN"
  by (simp add: pool_bytes_def length_pool_head pool_wf_def length_concat_32 POOL_ACCOUNT_LEN_def)

lemma pool_bytes_discriminator: "take 8 (pool_bytes p) = POOL_DISCRIMINATOR"
  by (simp add: pool_bytes_def)

lemma pool_bytes_head:
  assumes "pool_wf p" "j \<le> 144" "8 \<le> i"
  shows "subarray (pool_bytes p) i j = subarray (pool_head p) (i - 8) (j - 8)"
proof -
  have "subarray (pool_bytes p) i j = subarray (pool_head p @ concat (pl_root_history p) @ concat (pl_filled_subtrees p)) (i - 8) (j - 8)"
    using assms(3) by (simp add: pool_bytes_def subarray_shift)
  then show ?thesis using assms by (simp add: subarray_prefix length_pool_head)
qed

lemma head_fields:
  assumes "pool_wf p"
  shows "subarray (pool_head p) 0 32 = pl_admin p" "subarray (pool_head p) 32 64 = pl_mint p"
    and "subarray (pool_head p) 64 72 = le_bytes 8 (pl_denomination p)" "pool_head p ! 72 = pl_mint_decimals p"
    and "subarray (pool_head p) 73 80 = pl_pad0 p" "subarray (pool_head p) 80 88 = le_bytes 8 (pl_next_index p)"
    and "subarray (pool_head p) 88 120 = pl_treasury p" "pool_head p ! 120 = pl_version p" "pool_head p ! 121 = pl_bump p"
    and "pool_head p ! 122 = pl_vault_bump p" "pool_head p ! 123 = pl_is_paused p" "subarray (pool_head p) 124 128 = pl_pad1 p"
    and "subarray (pool_head p) 128 136 = le_bytes 8 (pl_current_root_index p)"
  using assms by (simp_all add: pool_head_def pool_wf_def subarray_def nth_append)

lemma pool_bytes_nth:
  assumes "pool_wf p" "8 \<le> i" "i < 144"
  shows "pool_bytes p ! i = pool_head p ! (i - 8)"
proof -
  have "i - 8 < length (pool_head p)" using assms length_pool_head [of p] by simp
  then show ?thesis using assms(2) by (simp add: pool_bytes_def nth_append)
qed

lemma pool_bytes_ring:
  assumes "pool_wf p"
  shows "ring_roots (pool_bytes p) = map be_int (pl_root_history p)"
proof -
  have "subarray (pool_bytes p) (144 + i * 32) (144 + i * 32 + 32) = pl_root_history p ! i" if i: "i < 256" for i
  proof -
    have w: "list_all (\<lambda>b. length b = 32) (pl_root_history p)" "length (pl_root_history p) = 256"
      using assms by (simp_all add: pool_wf_def)
    have "pool_bytes p = (POOL_DISCRIMINATOR @ pool_head p) @ concat (pl_root_history p) @ concat (pl_filled_subtrees p)"
      by (simp add: pool_bytes_def)
    moreover have "length (POOL_DISCRIMINATOR @ pool_head p) = 144"
      by (simp add: length_pool_head [OF assms])
    ultimately have "subarray (pool_bytes p) (144 + i * 32) (144 + i * 32 + 32)
        = subarray (concat (pl_root_history p) @ concat (pl_filled_subtrees p)) (i * 32) (i * 32 + 32)"
      by (simp add: subarray_shift add.commute)
    also have "\<dots> = subarray (concat (pl_root_history p)) (i * 32) (i * 32 + 32)"
      using i w by (intro subarray_prefix) (simp add: length_concat_32)
    finally show ?thesis using i w by (simp add: chunk_of_concat)
  qed
  then show ?thesis
    using assms by (intro nth_equalityI) (simp_all add: ring_roots_def pool_wf_def)
qed

lemma pool_of_pool_bytes:
  assumes "pool_wf p"
  shows "pool_of_bytes (pool_bytes p) = p"
proof -
  have d: "drop 8 (pool_bytes p) = pool_head p @ concat (pl_root_history p) @ concat (pl_filled_subtrees p)"
    by (simp add: pool_bytes_def)
  have h: "length (pool_head p) = 136" by (rule length_pool_head [OF assms])
  have w: "list_all (\<lambda>b. length b = 32) (pl_root_history p)" "length (pl_root_history p) = 256"
      "list_all (\<lambda>b. length b = 32) (pl_filled_subtrees p)" "length (pl_filled_subtrees p) = 20"
    using assms by (simp_all add: pool_wf_def)
  have pre: "subarray (pool_head p @ xs) i j = subarray (pool_head p) i j" if "j \<le> 136" for xs i j
    using that h by (simp add: subarray_prefix)
  have nth: "(pool_head p @ xs) ! i = pool_head p ! i" if "i < 136" for xs i using that h by (simp add: nth_append)
  have hist: "subarray (pool_head p @ concat (pl_root_history p) @ concat (pl_filled_subtrees p)) 136 8328 = concat (pl_root_history p)"
      "subarray (pool_head p @ concat (pl_root_history p) @ concat (pl_filled_subtrees p)) 8328 8968 = concat (pl_filled_subtrees p)"
    using h w by (simp_all add: subarray_def length_concat_32)
  show ?thesis
    using assms by (simp add: pool_of_bytes_def d Let_def pre nth hist head_fields chunks_concat w pool_wf_def)
qed

text \<open>The struct and its bytes are a codec.\<close>

interpretation pool_codec: codec pool_bytes
    "\<lambda>d. if length d = POOL_ACCOUNT_LEN \<and> take 8 d = POOL_DISCRIMINATOR then Some (pool_of_bytes d) else None" pool_wf
  by unfold_locales (simp add: length_pool_bytes pool_bytes_discriminator pool_of_pool_bytes)

subsection \<open>The readers\<close>

lemma pool_bytes_is_pool:
  "pool_wf p \<Longrightarrow> is_pool prog \<lparr>acc_owner = prog, acc_data = pool_bytes p, acc_lamports = n\<rparr>"
  by (simp add: is_pool_def length_pool_bytes pool_bytes_discriminator)

lemma view_of_pool_bytes:
  assumes "pool_wf p"
  shows "view_of (pool_bytes p) = \<lparr>pv_data = pool_bytes p, pv_denomination = pl_denomination p, pv_treasury = pl_treasury p,
    pv_nextIndex = pl_next_index p, pv_isPaused = (pl_is_paused p = 1)\<rparr>"
  using assms by (simp add: view_of_def pool_bytes_head pool_bytes_nth head_fields) (simp add: pool_wf_def)

lemma tree_state_of_pool_bytes:
  assumes "pool_wf p"
  shows "readPoolTreeState (pool_bytes p) = Returns \<lparr>pt_nextIndex = rnd (pl_next_index p),
    pt_currentRootIndex = rnd (pl_current_root_index p), pt_roots = map be_int (pl_root_history p)\<rparr>"
proof -
  have "POOL_MIN_LEN \<le> length (pool_bytes p)"
    using assms by (simp add: length_pool_bytes tree_offsets POOL_ACCOUNT_LEN_def)
  then show ?thesis
    using assms by (simp add: readPoolTreeState_eq pool_bytes_ring pool_bytes_head head_fields) (simp add: pool_wf_def)
qed

lemma readers:
  assumes "pool_wf p"
  shows "loadPool (Returns (Some \<lparr>acc_owner = prog, acc_data = pool_bytes p, acc_lamports = lamports\<rparr>)) prog
        = Returns (PoolLoaded \<lparr>pv_data = pool_bytes p,
        pv_denomination = pl_denomination p, pv_treasury = pl_treasury p, pv_nextIndex = pl_next_index p,
        pv_isPaused = (pl_is_paused p = 1)\<rparr>)"
    and "readPool show_key label prog \<lparr>pr_account = Returns (Some \<lparr>acc_owner = prog, acc_data = pool_bytes p, acc_lamports = lamports\<rparr>),
          pr_balance = Returns vault, pr_rent = Returns rent\<rparr>
        = Returns (PoolRead \<lparr>po_label = label (pl_denomination p), po_denomination = pl_denomination p,
            po_deposits = pl_next_index p, po_vaultLamports = vault, po_vaultRent = rent, po_isPaused = (pl_is_paused p = 1),
            po_admin = show_key (pl_admin p), po_treasury = show_key (pl_treasury p)\<rparr>)"
    and "read_pool_info prog (Some \<lparr>acc_owner = prog, acc_data = pool_bytes p, acc_lamports = lamports\<rparr>)
        = Returns (Inl \<lparr>pi_nextIndex = rnd (pl_next_index p), pi_isPaused = (pl_is_paused p = 1),
        pi_isSaturated = (950000 \<le> rnd (pl_next_index p)), pi_denominationLamports = pl_denomination p\<rparr>)"
    and "readPoolTreeState (pool_bytes p) = Returns \<lparr>pt_nextIndex = rnd (pl_next_index p),
        pt_currentRootIndex = rnd (pl_current_root_index p), pt_roots = map be_int (pl_root_history p)\<rparr>"
    and "readRootHistory (pool_bytes p) = Returns (map be_int (pl_root_history p))"
proof -
  let ?a = "\<lparr>acc_owner = prog, acc_data = pool_bytes p, acc_lamports = lamports\<rparr>"
  note pool = pool_bytes_is_pool [OF assms, of prog lamports] and view = view_of_pool_bytes [OF assms]
  have len: "length (pool_bytes p) = 8976" using length_pool_bytes [OF assms(1)] by (simp add: POOL_ACCOUNT_LEN_def)
  have disc: "subarray (pool_bytes p) 0 8 = POOL_DISCRIMINATOR" by (simp add: subarray_def pool_bytes_discriminator)
  have u: "is_u64 (pl_denomination p)" "is_u64 (pl_next_index p)" using assms(1) by (simp_all add: pool_wf_def)
  show "loadPool (Returns (Some ?a)) prog = Returns (PoolLoaded \<lparr>pv_data = pool_bytes p,
        pv_denomination = pl_denomination p, pv_treasury = pl_treasury p, pv_nextIndex = pl_next_index p,
        pv_isPaused = (pl_is_paused p = 1)\<rparr>)"
    using loadPool_ok [OF pool] view by simp
  show "readPool show_key label prog \<lparr>pr_account = Returns (Some ?a), pr_balance = Returns vault, pr_rent = Returns rent\<rparr>
      = Returns (PoolRead \<lparr>po_label = label (pl_denomination p), po_denomination = pl_denomination p,
          po_deposits = pl_next_index p, po_vaultLamports = vault, po_vaultRent = rent, po_isPaused = (pl_is_paused p = 1),
          po_admin = show_key (pl_admin p), po_treasury = show_key (pl_treasury p)\<rparr>)"
    using u by (simp add: readPool_def len disc read_u64_js_ok pool_offsets byte_is_def pool_bytes_head pool_bytes_nth head_fields assms(1))
  show "read_pool_info prog (Some ?a) = Returns (Inl \<lparr>pi_nextIndex = rnd (pl_next_index p), pi_isPaused = (pl_is_paused p = 1),
      pi_isSaturated = (950000 \<le> rnd (pl_next_index p)), pi_denominationLamports = pl_denomination p\<rparr>)"
    unfolding read_pool_info_iff using pool u by (simp add: pool_bytes_head pool_bytes_nth head_fields assms(1))
  show "readPoolTreeState (pool_bytes p) = Returns \<lparr>pt_nextIndex = rnd (pl_next_index p),
        pt_currentRootIndex = rnd (pl_current_root_index p), pt_roots = map be_int (pl_root_history p)\<rparr>"
    by (rule tree_state_of_pool_bytes [OF assms])
  show "readRootHistory (pool_bytes p) = Returns (map be_int (pl_root_history p))"
    using readRootHistory_eq [of "pool_bytes p"] len by (simp add: POOL_ACCOUNT_LEN_def pool_bytes_ring [OF assms(1)])
qed

end
