(* ===== verification/TxTypes.thy ===== *)
theory TxTypes
  imports SubmitProof
begin

text \<open>
  The typing of what the relayer sends: every transaction that \<open>handleSubmit\<close> hands to the network,
  relayer/src/api.js over relayer/src/tx.js, has arguments of the program's types, and their bytes read
  back as the signals that were checked.
\<close>

definition proof_typed :: "proof_bytes \<Rightarrow> bool" where
  "proof_typed p \<longleftrightarrow> length (proofA p) = 64 \<and> length (proofB p) = 128 \<and> length (proofC p) = 64"

definition args_typed :: "withdraw_args \<Rightarrow> bool" where
  "args_typed a \<longleftrightarrow> proof_typed (wa_proof a) \<and> length (wa_nullifierHash a) = 32 \<and> length (wa_root a) = 32
     \<and> length (wa_withdrawalCommitment a) = 32 \<and> is_u64 (wa_relayerFeeMax a) \<and> is_u64 (wa_relayerFeeTaken a)"

fun budget_typed :: "budget_ix list \<Rightarrow> bool" where
  "budget_typed [SetComputeUnitLimit l] = (0 \<le> l \<and> l < 2 ^ 32)"
| "budget_typed [SetComputeUnitLimit l, SetComputeUnitPrice p] = (0 \<le> l \<and> l < 2 ^ 32 \<and> 0 < p \<and> is_u64 p)"
| "budget_typed _ = False"

lemma snarkjs_proof_typed: "snarkjsProofToBytes pf = Returns p \<Longrightarrow> proof_typed p"
  by (auto simp: snarkjsProofToBytes_def js_bind_eq_Returns proof_typed_def)

lemma budget_ixs_typed: "0 \<le> p \<Longrightarrow> is_u64 p \<Longrightarrow> budget_typed (budget_ixs p)"
  by (auto simp: budget_ixs_def fee_consts)

lemma checked_root_bounds:
  assumes "is_pool programId info" "pool = view_of (acc_data info)" "check_submit E rq pool = Go ()"
    and "json_bigint (js_index (rq_signals rq) 1) = Returns rt"
  shows "0 \<le> rt \<and> rt < 2 ^ 256"
proof -
  have len: "POOL_ACCOUNT_LEN \<le> length (acc_data info)" using assms(1) by (simp add: is_pool_def)
  then have "POOL_ACCOUNT_LEN \<le> length (pv_data pool)" using assms(2) by (simp add: view_of_def)
  then have "rt \<in> set (ring_roots (pv_data pool))"
    using assms(3,4) by (auto simp: check_submit_Go preflight_ok_iff)
  then obtain i where "i < 256" "rt = be_int (subarray (acc_data info) (144 + i * 32) (144 + i * 32 + 32))"
    using assms(2) by (auto simp: ring_roots_def view_of_def)
  moreover have "length (subarray (acc_data info) (144 + i * 32) (144 + i * 32 + 32)) = 32"
    using len calculation(1) by (subst length_subarray) (auto simp: pool_offsets)
  ultimately show ?thesis
    using be_int_bound [of "subarray (acc_data info) (144 + i * 32) (144 + i * 32 + 32)"] be_int_nonneg by simp
qed

lemma submit_plan_bounds:
  assumes "parse_submit E body = Go rq" "price_submit E rq rent' = Go plan"
    and "0 \<le> rent'" "rent' \<le> SAFE_LAMPORTS"
    and "\<forall>ks fs. env_fees E ks = Returns (Some fs) \<longrightarrow> (\<forall>x\<in>set fs. 0 \<le> x)"
    and "rq_feeMax rq \<le> SAFE_LAMPORTS"
  shows "is_u64 (rq_feeMax rq) \<and> is_u64 (sp_fee plan) \<and> 0 \<le> sp_perCU plan \<and> is_u64 (sp_perCU plan)"
proof -
  have m: "0 \<le> rq_feeMax rq" using assms(1) parse_fee_max_bounds by (auto simp: parse_submit_Go)
  have r: "rnd (BASE_FEE + rent') = BASE_FEE + rent'" using assms(3,4) by (intro rnd_exact) (simp add: fee_consts)
  obtain vault where p: "BASE_FEE + rent' \<le> rq_feeMax rq"
      "plan = \<lparr>sp_fee = actualFee (planFee (rq_feeMax rq) rent' (getPriorityFeePerCU (env_fees E [vault, env_relayer E]))),
        sp_perCU = appliedPriorityPerCU (planFee (rq_feeMax rq) rent' (getPriorityFeePerCU (env_fees E [vault, env_relayer E])))\<rparr>"
    using assms(2) by (auto simp: price_submit_Go r Let_def)
  have e: "0 \<le> getPriorityFeePerCU (env_fees E [vault, env_relayer E])" using assms(5) by (intro estimate_nonneg) blast
  note eq = planFee_eq [OF m assms(6) assms(3,4) e]
  have "0 \<le> sp_fee plan" "sp_fee plan \<le> rq_feeMax rq" "0 \<le> sp_perCU plan" "sp_perCU plan \<le> 5 * SAFE_LAMPORTS"
    using eq(1,2,5,6) m assms(3) by (auto simp: p(2) fee_consts)
  then show ?thesis using m assms(6) by (simp add: is_u64_def)
qed

text \<open>
  C27. Every transaction the relayer sends is well typed: the proof is 64, 128 and 64 bytes, the three field
  elements are 32 bytes, the treasury is a key of 32 bytes, both fees fit the program's 64-bit integers,
  and the budget instructions are a limit and at most one positive price, each in range. The fields mean
  the public signals that were checked: the root reads back as the signal always, and the nullifier and
  the commitment do whenever they are 256-bit numbers.
\<close>

theorem sent_transaction_typed:
  assumes sent: "handleSubmit E cache body = (r, Some tx, cache')"
    and rent: "0 \<le> fst (submit_rent E cache)" "fst (submit_rent E cache) \<le> SAFE_LAMPORTS"
    and fees: "\<forall>ks fs. env_fees E ks = Returns (Some fs) \<longrightarrow> (\<forall>x\<in>set fs. 0 \<le> x)"
    and small: "wa_relayerFeeMax (tx_args tx) \<le> SAFE_LAMPORTS"
  shows "args_typed (tx_args tx) \<and> budget_typed (tx_budget tx) \<and> length (ac_treasury (tx_accounts tx)) = 32
    \<and> (\<exists>n wc. json_bigint (js_index (js_get body ''publicSignals'') 0) = Returns n
         \<and> json_bigint (js_index (js_get body ''publicSignals'') 1) = Returns (be_int (wa_root (tx_args tx)))
         \<and> json_bigint (js_index (js_get body ''publicSignals'') 2) = Returns wc
         \<and> (0 \<le> n \<and> n < 2 ^ 256 \<longrightarrow> be_int (wa_nullifierHash (tx_args tx)) = n)
         \<and> (0 \<le> wc \<and> wc < 2 ^ 256 \<longrightarrow> be_int (wa_withdrawalCommitment (tx_args tx)) = wc))"
  using sent
proof (rule handleSubmit_sent)
  fix rq pool plan lv
  assume g: "parse_submit E body = Go rq" "load_submit_pool E rq = Go pool"
    "price_submit E rq (fst (submit_rent E cache)) = Go plan" "check_submit E rq pool = Go ()"
    and b: "build_withdraw (env_net E) (env_relayer E) (env_programId E) (rq_pool rq) (rq_recipient rq)
       (pv_treasury pool) (rq_proof rq) (rq_signals rq) (rq_feeMax rq) (sp_fee plan) (sp_perCU plan) = Returns (tx, lv)"
  note tx = build_withdraw_fields [OF b]
  obtain n rt wc where f: "json_bigint (js_index (rq_signals rq) 0) = Returns n" "json_bigint (js_index (rq_signals rq) 1) = Returns rt"
      "json_bigint (js_index (rq_signals rq) 2) = Returns wc" "wa_nullifierHash (tx_args tx) = bigIntToBytes32 n"
      "wa_root (tx_args tx) = bigIntToBytes32 rt" "wa_withdrawalCommitment (tx_args tx) = bigIntToBytes32 wc"
      "snarkjsProofToBytes (rq_proof rq) = Returns (wa_proof (tx_args tx))"
    using tx(9) by auto
  have rd: "0 \<le> m \<and> m < 2 ^ 256 \<longrightarrow> be_int (bigIntToBytes32 m) = m" for m
    by (simp add: bigIntToBytes32_eq be_int_be_bytes)
  obtain info where p: "is_pool (env_programId E) info" "pool = view_of (acc_data info)"
    using g(2) by (auto simp: load_submit_pool_Go)
  have root: "be_int (wa_root (tx_args tx)) = rt"
    using checked_root_bounds [OF p g(4) f(2)] rd by (simp add: f)
  have fee: "is_u64 (rq_feeMax rq)" "is_u64 (sp_fee plan)" "0 \<le> sp_perCU plan" "is_u64 (sp_perCU plan)"
    using submit_plan_bounds [OF g(1) g(3) rent fees] small by (simp_all add: tx)
  have "rq_signals rq = js_get body ''publicSignals''" using g(1) by (auto simp: parse_submit_Go)
  moreover have "length (pv_treasury pool) = 32" using p by (auto simp: view_of_def is_pool_def pool_offsets length_subarray)
  ultimately show ?thesis
    using f root rd fee snarkjs_proof_typed [OF f(7)] budget_ixs_typed by (auto simp: args_typed_def tx)
qed

lemma sent_transaction_typed_witness:
  "\<exists>tx cache'. handleSubmit example_env Map.empty example_body = (RespOk ''sig'' 1061840, Some tx, cache') \<and> args_typed (tx_args tx)
     \<and> budget_typed (tx_budget tx)"
proof -
  obtain tx c where h: "handleSubmit example_env Map.empty example_body = (RespOk ''sig'' 1061840, Some tx, c)"
      "wa_relayerFeeMax (tx_args tx) = 1600000" "tx_payer tx = [4]"
    by (rule example_submission)
  have f: "\<forall>ks fs. env_fees example_env ks = Returns (Some fs) \<longrightarrow> (\<forall>x\<in>set fs. 0 \<le> x)"
    by (auto simp: example_env_def)
  show ?thesis using sent_transaction_typed [OF h(1) _ _ f] h by (auto simp: example_rent)
qed

end
