(* ===== verification/ProgramHandlers.thy ===== *)
theory ProgramHandlers
  imports ProgramLayout TxTypes
begin

text \<open>
  The instructions of the on-chain program: initialize\_pool.rs, deposit.rs, admin.rs, withdraw.rs and the
  account constraints of lib.rs. A ledger gives every address its account. The runtime is a parameter:
  derivation of program addresses, the Groth16 verifier, rent, clock and the system program with Anchor's
  account creation. A transaction either gives the ledger after it and its events or leaves no trace.
\<close>

subsection \<open>The runtime\<close>

type_synonym ledger = "pubkey \<Rightarrow> account_info"

datatype sys_call =
    SysTransfer pubkey pubkey int
  | SysCreate pubkey pubkey int nat pubkey
  | SysAllocate pubkey nat
  | SysAssign pubkey pubkey
  | AnchorInit pubkey pubkey nat

record runtime =
  rt_program :: pubkey
  rt_system :: pubkey
  rt_hashv :: hash_syscall
  rt_create_pda :: "bytes list \<Rightarrow> pubkey option"
  rt_find_pda :: "bytes list \<Rightarrow> (pubkey \<times> byte) option"
  rt_groth16 :: "proof_bytes \<Rightarrow> bytes list \<Rightarrow> bool option"
  rt_min_balance :: "nat \<Rightarrow> int"
  rt_is_exempt :: "int \<Rightarrow> nat \<Rightarrow> bool"
  rt_slot :: int
  rt_timestamp :: int
  rt_vault_disc :: bytes
  rt_nullifier_disc :: bytes
  rt_sys :: "sys_call \<Rightarrow> ledger \<Rightarrow> ledger option"

datatype event =
    DepositEvent bytes int int
  | PoolNearSaturation pubkey int
  | WithdrawalEvent bytes pubkey int int

type_synonym effect = "ledger \<times> event list"

definition set_data :: "ledger \<Rightarrow> pubkey \<Rightarrow> bytes \<Rightarrow> ledger" where
  "set_data L k d = L(k := (L k)\<lparr>acc_data := d\<rparr>)"

definition lamports :: "ledger \<Rightarrow> pubkey \<Rightarrow> int" where
  "lamports L k = acc_lamports (L k)"

definition checked_sub :: "int \<Rightarrow> int \<Rightarrow> int option" where
  "checked_sub a b = (if b \<le> a then Some (a - b) else None)"

definition checked_add :: "int \<Rightarrow> int \<Rightarrow> int option" where
  "checked_add a b = (if a + b < 2 ^ 64 then Some (a + b) else None)"

definition sys :: "runtime \<Rightarrow> sys_call \<Rightarrow> ledger \<Rightarrow> ledger run" where
  "sys R c L = or_fail (rt_sys R c L) Abort"

subsection \<open>Fees\<close>

definition PROGRAM_FEE_DIVISOR :: int where "PROGRAM_FEE_DIVISOR = 50"

definition compute_fee_split :: "int \<Rightarrow> int \<Rightarrow> int \<Rightarrow> (int \<times> int \<times> int) run" where
  "compute_fee_split denomination relayer_fee_taken relayer_fee_max =
     run_bind (guard (relayer_fee_taken \<le> relayer_fee_max) RelayerFeeExceedsMax) (\<lambda>_.
     run_bind (guard (relayer_fee_max \<le> denomination div PROGRAM_FEE_DIVISOR) RelayerFeeMaxTooHigh) (\<lambda>_.
     let treasury_fee = denomination div 500 in
     run_bind (or_fail (Option.bind (checked_sub denomination treasury_fee) (\<lambda>x. checked_sub x relayer_fee_taken))
         (Code ArithmeticOverflow)) (\<lambda>user_amount.
     run_bind (guard (0 < user_amount) UserAmountZero) (\<lambda>_.
     Gives (treasury_fee, relayer_fee_taken, user_amount)))))"

definition worst_case_user_amount :: "int \<Rightarrow> int option" where
  "worst_case_user_amount denomination =
     Option.bind (checked_sub denomination (denomination div 500)) (\<lambda>x. checked_sub x (denomination div PROGRAM_FEE_DIVISOR))"

definition route_treasury_fee :: "runtime \<Rightarrow> int \<Rightarrow> int \<Rightarrow> int \<Rightarrow> nat \<Rightarrow> bool \<Rightarrow> (int \<times> int) run" where
  "route_treasury_fee R treasury_fee user_amount treasury_balance treasury_data_len treasury_is_payee =
     run_bind (or_fail (checked_add treasury_balance treasury_fee) (Code ArithmeticOverflow)) (\<lambda>after_credit.
     let stays_valid = (treasury_fee = 0 \<or> rt_is_exempt R after_credit treasury_data_len) in
     if treasury_is_payee \<or> stays_valid then Gives (treasury_fee, user_amount)
     else run_bind (or_fail (checked_add user_amount treasury_fee) (Code ArithmeticOverflow)) (\<lambda>user_amount.
       Gives (0, user_amount)))"

subsection \<open>Public inputs\<close>

definition BN254_FR :: bytes where
  "BN254_FR =
    [0x30, 0x64, 0x4e, 0x72, 0xe1, 0x31, 0xa0, 0x29,
     0xb8, 0x50, 0x45, 0xb6, 0x81, 0x81, 0x58, 0x5d,
     0x28, 0x33, 0xe8, 0x48, 0x79, 0xb9, 0x70, 0x91,
     0x43, 0xe1, 0xf5, 0x93, 0xf0, 0x00, 0x00, 0x01]"

text \<open>The loop over the 32 positions; equal to the end means not below.\<close>

fun bytes_below :: "bytes \<Rightarrow> bytes \<Rightarrow> bool" where
  "bytes_below (b # be) (f # fr) = (if b < f then True else if f < b then False else bytes_below be fr)"
| "bytes_below _ _ = False"

definition is_canonical_fr :: "bytes \<Rightarrow> bool" where
  "is_canonical_fr be = bytes_below be BN254_FR"

definition program_pubkey_to_field :: "runtime \<Rightarrow> pubkey \<Rightarrow> bytes run" where
  "program_pubkey_to_field R b =
     or_fail (rt_hashv R [replicate 16 0 @ take 16 b, replicate 16 0 @ drop 16 b]) (Code PoseidonFailed)"

definition is_known_root_in_account :: "account_info \<Rightarrow> bytes \<Rightarrow> bool run" where
  "is_known_root_in_account pool_info rt =
     (if rt = replicate 32 0 then Gives False
      else let d = drop 8 (acc_data pool_info) in
        if length d < 136 + ROOT_HISTORY_SIZE * 32 then Fails (Code InvalidPoolPda)
        else Gives (list_ex (\<lambda>i. subarray d (136 + i * 32) (136 + i * 32 + 32) = rt) [0..<ROOT_HISTORY_SIZE]))"

subsection \<open>Withdraw\<close>

text \<open>What a transaction gives the instruction beside the accounts: whether the relayer signed, and the program called system.\<close>

definition pool_checks :: "runtime \<Rightarrow> ledger \<Rightarrow> withdraw_accounts \<Rightarrow> pubkey \<Rightarrow> (pubkey \<times> byte \<times> int) run" where
  "pool_checks R L acs system_program =
     (let pool_info = L (ac_pool acs); data = acc_data pool_info in
      run_bind (guard (acc_owner pool_info = rt_program R) InvalidPoolPda) (\<lambda>_.
      run_bind (guard (8 \<le> length data \<and> take 8 data = POOL_DISCRIMINATOR) InvalidPoolPda) (\<lambda>_.
      run_bind (guard (system_program = rt_system R) InvalidSystemProgram) (\<lambda>_.
      let d = drop 8 data in
      run_bind (guard (136 \<le> length d) InvalidPoolPda) (\<lambda>_.
      Gives (subarray d 88 120, d ! 122, le_int (subarray d 64 72)))))))"

definition distinctness :: "withdraw_accounts \<Rightarrow> unit run" where
  "distinctness acs =
     run_bind (guard (ac_recipient acs \<noteq> ac_vault acs) DuplicateAccount) (\<lambda>_.
     run_bind (guard (ac_treasury acs \<noteq> ac_vault acs) DuplicateAccount) (\<lambda>_.
     run_bind (guard (ac_relayer acs \<noteq> ac_vault acs) DuplicateAccount) (\<lambda>_.
     run_bind (guard (ac_treasury acs \<noteq> ac_nullifierPda acs) DuplicateAccount) (\<lambda>_.
     run_bind (guard (ac_recipient acs \<noteq> ac_nullifierPda acs) DuplicateAccount) (\<lambda>_.
     run_bind (guard (ac_relayer acs \<noteq> ac_nullifierPda acs) DuplicateAccount) (\<lambda>_.
     guard (ac_recipient acs \<noteq> ac_pool acs) DuplicateAccount))))))"

definition vault_seeds :: "pubkey \<Rightarrow> bytes list" where
  "vault_seeds pool = [ascii_bytes ''vault'', pool]"

definition account_checks :: "runtime \<Rightarrow> ledger \<Rightarrow> withdraw_accounts \<Rightarrow> withdraw_args \<Rightarrow> pubkey \<Rightarrow> byte \<Rightarrow> unit run" where
  "account_checks R L acs args pool_treasury vault_bump =
     run_bind (or_fail (rt_create_pda R (vault_seeds (ac_pool acs) @ [[vault_bump]])) (Code InvalidVaultPda)) (\<lambda>expected_vault.
     run_bind (guard (ac_vault acs = expected_vault) InvalidVaultPda) (\<lambda>_.
     run_bind (guard (acc_owner (L (ac_vault acs)) = rt_program R) InvalidVaultPda) (\<lambda>_.
     run_bind (guard (ac_treasury acs = pool_treasury) InvalidTreasury) (\<lambda>_.
     run_bind (guard (wa_root args \<noteq> EMPTY_TREE_ROOT) RootNotFound) (\<lambda>_.
     run_bind (is_known_root_in_account (L (ac_pool acs)) (wa_root args)) (\<lambda>root_found.
     run_bind (guard root_found RootNotFound) (\<lambda>_.
     run_bind (guard (acc_data (L (ac_nullifierPda acs)) = []) NullifierAlreadySpent) (\<lambda>_.
     run_bind (or_fail (rt_find_pda R (nullifier_seeds (ac_pool acs) (wa_nullifierHash args))) Abort) (\<lambda>(expected_nullifier, canonical_bump).
     guard (ac_nullifierPda acs = expected_nullifier) InvalidPoolPda)))))))))"

definition proof_checks :: "runtime \<Rightarrow> withdraw_accounts \<Rightarrow> withdraw_args \<Rightarrow> unit run" where
  "proof_checks R acs args =
     run_bind (or_fail (rt_groth16 R (wa_proof args) [wa_nullifierHash args, wa_root args, wa_withdrawalCommitment args])
         (Code ProofDeserializationFailed)) (\<lambda>valid.
     run_bind (guard valid InvalidProof) (\<lambda>_.
     run_bind (program_pubkey_to_field R (ac_relayer acs)) (\<lambda>relayer_field.
     run_bind (program_pubkey_to_field R (ac_recipient acs)) (\<lambda>recipient_field.
     let fee_max_bytes = replicate 24 0 @ be_bytes 8 (wa_relayerFeeMax args) in
     run_bind (or_fail (rt_hashv R [relayer_field, fee_max_bytes, recipient_field]) (Code PoseidonFailed)) (\<lambda>computed_commitment.
     guard (computed_commitment = wa_withdrawalCommitment args) InvalidWithdrawalCommitment)))))"

definition create_nullifier :: "runtime \<Rightarrow> withdraw_accounts \<Rightarrow> ledger \<Rightarrow> ledger run" where
  "create_nullifier R acs L =
     (let nullifier_space = 8 + NULLIFIER_SIZE;
          nullifier_lamports = rt_min_balance R nullifier_space;
          pda = ac_nullifierPda acs;
          existing_lamports = lamports L pda
      in if existing_lamports = 0
         then sys R (SysCreate (ac_relayer acs) pda nullifier_lamports nullifier_space (rt_program R)) L
         else run_bind (guard (acc_owner (L pda) = rt_system R) NullifierAlreadySpent) (\<lambda>_.
           run_bind (if existing_lamports < nullifier_lamports
                     then sys R (SysTransfer (ac_relayer acs) pda (nullifier_lamports - existing_lamports)) L else Gives L) (\<lambda>L.
           run_bind (sys R (SysAllocate pda nullifier_space) L) (\<lambda>L. sys R (SysAssign pda (rt_program R)) L))))"

definition nullifier_account :: "runtime \<Rightarrow> pubkey \<Rightarrow> bytes \<Rightarrow> bytes" where
  "nullifier_account R pool nullifier_hash = rt_nullifier_disc R @ pool @ nullifier_hash @ le_bytes 8 (rt_slot R)"

definition write_nullifier :: "runtime \<Rightarrow> withdraw_accounts \<Rightarrow> withdraw_args \<Rightarrow> ledger \<Rightarrow> ledger run" where
  "write_nullifier R acs args L =
     (let data = acc_data (L (ac_nullifierPda acs)); written = nullifier_account R (ac_pool acs) (wa_nullifierHash args)
      in if length data < length written then Fails Abort
         else Gives (set_data L (ac_nullifierPda acs) (written @ drop (length written) data)))"

text \<open>\<open>**info.try_borrow_mut_lamports()? += n\<close>, with the overflow check of the release profile.\<close>

definition add_lamports :: "pubkey \<Rightarrow> int \<Rightarrow> ledger \<Rightarrow> ledger run" where
  "add_lamports k n L =
     (let v = lamports L k + n in if v < 0 \<or> 2 ^ 64 \<le> v then Fails Abort else Gives (L(k := (L k)\<lparr>acc_lamports := v\<rparr>)))"

definition credit_owed_to :: "withdraw_accounts \<Rightarrow> int \<Rightarrow> int \<Rightarrow> int \<Rightarrow> pubkey \<Rightarrow> int" where
  "credit_owed_to acs treasury_fee relayer_fee_taken user_amount k =
     (if ac_treasury acs = k then treasury_fee else 0) + (if ac_relayer acs = k then relayer_fee_taken else 0)
     + (if ac_recipient acs = k then user_amount else 0)"

definition pay_out :: "runtime \<Rightarrow> withdraw_accounts \<Rightarrow> int \<Rightarrow> int \<Rightarrow> int \<Rightarrow> int \<Rightarrow> ledger \<Rightarrow> (ledger \<times> int) run" where
  "pay_out R acs pool_denomination treasury_fee relayer_fee_taken user_amount L =
     (let vault_rent_floor = rt_min_balance R (length (acc_data (L (ac_vault acs)))) in
      run_bind (or_fail (checked_add pool_denomination vault_rent_floor) (Code ArithmeticOverflow)) (\<lambda>vault_required.
      run_bind (guard (vault_required \<le> lamports L (ac_vault acs)) InsufficientVaultBalance) (\<lambda>_.
      let treasury_is_payee = (ac_treasury acs = ac_relayer acs \<or> ac_treasury acs = ac_recipient acs) in
      run_bind (route_treasury_fee R treasury_fee user_amount (lamports L (ac_treasury acs))
          (length (acc_data (L (ac_treasury acs)))) treasury_is_payee) (\<lambda>(treasury_fee, user_amount).
      run_bind (add_lamports (ac_vault acs) (- pool_denomination) L) (\<lambda>L1.
      run_bind (add_lamports (ac_treasury acs) treasury_fee L1) (\<lambda>L2.
      run_bind (add_lamports (ac_relayer acs) relayer_fee_taken L2) (\<lambda>L3.
      run_bind (add_lamports (ac_recipient acs) user_amount L3) (\<lambda>L4.
      let owed = credit_owed_to acs treasury_fee relayer_fee_taken user_amount;
          kept = (\<lambda>k. lamports L4 k = lamports L k + owed k) in
      run_bind (guard (lamports L4 (ac_vault acs) = lamports L (ac_vault acs) - pool_denomination) FeeInvariantViolated) (\<lambda>_.
      run_bind (guard (kept (ac_treasury acs)) FeeInvariantViolated) (\<lambda>_.
      run_bind (guard (kept (ac_relayer acs)) FeeInvariantViolated) (\<lambda>_.
      run_bind (guard (kept (ac_recipient acs)) FeeInvariantViolated) (\<lambda>_.
      Gives (L4, treasury_fee)))))))))))))"

definition canonical_inputs :: "withdraw_args \<Rightarrow> unit run" where
  "canonical_inputs args =
     run_bind (guard (is_canonical_fr (wa_nullifierHash args)) NonCanonicalPublicInput) (\<lambda>_.
     run_bind (guard (is_canonical_fr (wa_root args)) NonCanonicalPublicInput) (\<lambda>_.
     guard (is_canonical_fr (wa_withdrawalCommitment args)) NonCanonicalPublicInput))"

definition process_withdraw :: "runtime \<Rightarrow> withdraw_accounts \<Rightarrow> bool \<Rightarrow> pubkey \<Rightarrow> withdraw_args \<Rightarrow> ledger \<Rightarrow> effect run" where
  "process_withdraw R acs relayer_signed system_program args L =
     run_bind (canonical_inputs args) (\<lambda>_.
     run_bind (pool_checks R L acs system_program) (\<lambda>(pool_treasury, vault_bump, pool_denomination).
     run_bind (guard relayer_signed RelayerNotSigner) (\<lambda>_.
     run_bind (compute_fee_split pool_denomination (wa_relayerFeeTaken args) (wa_relayerFeeMax args)) (\<lambda>(treasury_fee, _, user_amount).
     run_bind (distinctness acs) (\<lambda>_.
     run_bind (account_checks R L acs args pool_treasury vault_bump) (\<lambda>_.
     run_bind (proof_checks R acs args) (\<lambda>_.
     run_bind (create_nullifier R acs L) (\<lambda>L1.
     run_bind (write_nullifier R acs args L1) (\<lambda>L2.
     run_bind (pay_out R acs pool_denomination treasury_fee (wa_relayerFeeTaken args) user_amount L2) (\<lambda>(L3, paid_fee).
     Gives (L3, [WithdrawalEvent (wa_nullifierHash args) (ac_relayer acs) (wa_relayerFeeTaken args) paid_fee])))))))))))"

subsection \<open>Deposit\<close>

text \<open>What Anchor checks of a pool account before the handler sees it, and the pool it loads.\<close>

definition load_pool :: "runtime \<Rightarrow> ledger \<Rightarrow> pubkey \<Rightarrow> pool run" where
  "load_pool R L k =
     (if acc_owner (L k) = rt_program R \<and> POOL_ACCOUNT_LEN \<le> length (acc_data (L k)) \<and> take 8 (acc_data (L k)) = POOL_DISCRIMINATOR
      then Gives (pool_of_bytes (acc_data (L k))) else Fails Abort)"

definition write_pool :: "ledger \<Rightarrow> pubkey \<Rightarrow> pool \<Rightarrow> ledger" where
  "write_pool L k p = set_data L k (pool_bytes p @ drop POOL_ACCOUNT_LEN (acc_data (L k)))"

definition is_vault :: "runtime \<Rightarrow> ledger \<Rightarrow> pubkey \<Rightarrow> bool" where
  "is_vault R L k \<longleftrightarrow> acc_owner (L k) = rt_program R \<and> take 8 (acc_data (L k)) = rt_vault_disc R"

definition pool_seeds :: "pubkey \<Rightarrow> pubkey \<Rightarrow> int \<Rightarrow> byte \<Rightarrow> bytes list" where
  "pool_seeds admin mint denomination version = [ascii_bytes ''pool'', admin, mint, le_bytes 8 denomination, [version]]"

definition program_deposit :: "runtime \<Rightarrow> pubkey \<Rightarrow> pubkey \<Rightarrow> pubkey \<Rightarrow> bytes \<Rightarrow> ledger \<Rightarrow> effect run" where
  "program_deposit R pool_key vault depositor commitment L =
     run_bind (load_pool R L pool_key) (\<lambda>pool.
     run_bind (or_fail (rt_find_pda R (vault_seeds pool_key)) Abort) (\<lambda>(vault_pda, _).
     if vault \<noteq> vault_pda \<or> \<not> is_vault R L vault then Fails Abort
     else
     run_bind (or_fail (rt_create_pda R (pool_seeds (pl_admin pool) (pl_mint pool) (pl_denomination pool) (pl_version pool) @ [[pl_bump pool]]))
         (Code InvalidPoolPda)) (\<lambda>expected_pool.
     run_bind (guard (pool_key = expected_pool) InvalidPoolPda) (\<lambda>_.
     run_bind (pool_insert (rt_hashv R) pool commitment) (\<lambda>(rt, pool').
     let leaf_index = pl_next_index pool' - 1; next_index_after = pl_next_index pool';
         near_saturation = (PROGRAM_SATURATION_THRESHOLD - 1000 \<le> next_index_after)
     in run_bind (sys R (SysTransfer depositor vault (pl_denomination pool)) (write_pool L pool_key pool')) (\<lambda>L'.
     Gives (L', DepositEvent commitment leaf_index (rt_timestamp R)
        # (if near_saturation then [PoolNearSaturation pool_key next_index_after] else []))))))))"

subsection \<open>Creating and pausing a pool\<close>

definition initialize_handler :: "runtime \<Rightarrow> pubkey \<Rightarrow> pubkey \<Rightarrow> int \<Rightarrow> byte \<Rightarrow> byte \<Rightarrow> byte \<Rightarrow> pool run" where
  "initialize_handler R admin treasury denomination version pool_bump vault_bump =
     run_bind (guard (500 \<le> denomination) DenominationTooLow) (\<lambda>_.
     run_bind (guard (version < 255) VersionTooHigh) (\<lambda>_.
     let min_recipient_balance = rt_min_balance R 0 in
     run_bind (or_fail (worst_case_user_amount denomination) (Code DenominationTooLow)) (\<lambda>worst_case.
     run_bind (guard (min_recipient_balance \<le> worst_case) DenominationTooLow) (\<lambda>_.
     run_bind (or_fail (rt_hashv R [ZEROS ! (TREE_DEPTH - 1), ZEROS ! (TREE_DEPTH - 1)]) (Code PoseidonFailed)) (\<lambda>initial_root.
     Gives \<lparr>pl_admin = admin, pl_mint = replicate 32 0, pl_denomination = denomination, pl_mint_decimals = 9, pl_pad0 = replicate 7 0,
        pl_next_index = 0, pl_treasury = treasury, pl_version = version, pl_bump = pool_bump, pl_vault_bump = vault_bump,
        pl_is_paused = 0, pl_pad1 = replicate 4 0, pl_current_root_index = 0,
        pl_root_history = (replicate ROOT_HISTORY_SIZE (replicate 32 0))[0 := initial_root], pl_filled_subtrees = ZEROS\<rparr>)))))"

definition program_initialize :: "runtime \<Rightarrow> pubkey \<Rightarrow> pubkey \<Rightarrow> pubkey \<Rightarrow> pubkey \<Rightarrow> int \<Rightarrow> byte \<Rightarrow> ledger \<Rightarrow> effect run" where
  "program_initialize R admin pool vault treasury denomination version L =
     run_bind (or_fail (rt_find_pda R (pool_seeds admin (replicate 32 0) denomination version)) Abort) (\<lambda>(pool_pda, pool_bump).
     if pool \<noteq> pool_pda then Fails Abort
     else run_bind (sys R (AnchorInit admin pool (8 + POOL_SIZE)) L) (\<lambda>L1.
     run_bind (or_fail (rt_find_pda R (vault_seeds pool)) Abort) (\<lambda>(vault_pda, vault_bump).
     if vault \<noteq> vault_pda then Fails Abort
     else run_bind (sys R (AnchorInit admin vault 8) L1) (\<lambda>L2.
     if acc_owner (L2 treasury) \<noteq> rt_system R then Fails Abort
     else run_bind (initialize_handler R admin treasury denomination version pool_bump vault_bump) (\<lambda>p.
     Gives (set_data (set_data L2 pool (pool_bytes p)) vault (rt_vault_disc R), []))))))"

definition set_paused :: "runtime \<Rightarrow> byte \<Rightarrow> pubkey \<Rightarrow> pubkey \<Rightarrow> ledger \<Rightarrow> effect run" where
  "set_paused R flag admin pool_key L =
     run_bind (load_pool R L pool_key) (\<lambda>pool.
     run_bind (guard (pl_admin pool = admin) InvalidPoolPda) (\<lambda>_.
     Gives (write_pool L pool_key (pool\<lparr>pl_is_paused := flag\<rparr>), [])))"

definition pause_pool_handler :: "runtime \<Rightarrow> pubkey \<Rightarrow> pubkey \<Rightarrow> ledger \<Rightarrow> effect run" where
  "pause_pool_handler R = set_paused R 1"

definition unpause_pool_handler :: "runtime \<Rightarrow> pubkey \<Rightarrow> pubkey \<Rightarrow> ledger \<Rightarrow> effect run" where
  "unpause_pool_handler R = set_paused R 0"

subsection \<open>The entry point\<close>

text \<open>
  The instructions of the program; the accounts that must sign have signed. \<open>WithdrawShim\<close> requires the
  relayer's signature and the system program.
\<close>

datatype instruction =
    InitializePool pubkey pubkey pubkey pubkey int byte
  | Deposit pubkey pubkey pubkey bytes
  | Withdraw withdraw_accounts withdraw_args
  | PausePool pubkey pubkey
  | UnpausePool pubkey pubkey

fun execute :: "runtime \<Rightarrow> instruction \<Rightarrow> ledger \<Rightarrow> effect run" where
  "execute R (InitializePool admin pool vault treasury denomination version) L =
     program_initialize R admin pool vault treasury denomination version L"
| "execute R (Deposit pool vault depositor commitment) L = program_deposit R pool vault depositor commitment L"
| "execute R (Withdraw acs args) L = process_withdraw R acs True (rt_system R) args L"
| "execute R (PausePool admin pool) L = pause_pool_handler R admin pool L"
| "execute R (UnpausePool admin pool) L = unpause_pool_handler R admin pool L"

end
