(* ===== verification/SdkModule.thy ===== *)
theory SdkModule
  imports WithdrawProof
begin

text \<open>
  The loading of the SDK's libraries, sdk/src/proof.ts. \<open>loadCircomlib\<close>, \<open>loadSnarkjs\<close> and \<open>initPoseidon\<close>
  share promises kept in module variables; their callers and the ends of the promises interleave. The
  hasher is absent until it is built, and everything of the file that hashes throws without it.
\<close>

subsection \<open>Shared promises\<close>

text \<open>\<open>_circomlib ??= import("circomlibjs")\<close>: the promise of the first import is kept, however it ends.\<close>

datatype promise = Pending | Fulfilled | Rejected

definition load_once :: "promise option \<Rightarrow> nat \<Rightarrow> promise option \<times> nat" where
  "load_once cached imports = (case cached of None \<Rightarrow> (Some Pending, imports + 1) | Some p \<Rightarrow> (Some p, imports))"

text \<open>
  The chain behind \<open>_poseidonReady\<close> waits for the library, then for \<open>buildPoseidon()\<close>. \<open>sm_ready\<close> tells whether
  \<open>_poseidonReady\<close> is set, \<open>sm_poseidon\<close> whether \<open>_poseidon\<close> is. \<open>sm_waiting\<close> counts the callers that hold the
  chain's promise; the other counters say what happened.
\<close>

datatype build_chain = Loading | Building

lemma not_building: "c \<noteq> Building \<longleftrightarrow> c = Loading"
  by (cases c) simp_all

record sdk_module =
  sm_circomlib :: "promise option"
  sm_poseidon :: bool
  sm_ready :: bool
  sm_chain :: "build_chain option"
  sm_waiting :: nat
  sm_resolved :: nat
  sm_rejected :: nat
  sm_imports :: nat
  sm_builds :: nat

definition sdk_start :: sdk_module where
  "sdk_start = \<lparr>sm_circomlib = None, sm_poseidon = False, sm_ready = False, sm_chain = None, sm_waiting = 0,
     sm_resolved = 0, sm_rejected = 0, sm_imports = 0, sm_builds = 0\<rparr>"

definition initPoseidon :: "sdk_module \<Rightarrow> sdk_module" where
  "initPoseidon m =
     (if sm_poseidon m then m\<lparr>sm_resolved := sm_resolved m + 1\<rparr>
      else if sm_ready m then m\<lparr>sm_waiting := sm_waiting m + 1\<rparr>
      else let (lib, imports) = load_once (sm_circomlib m) (sm_imports m)
        in m\<lparr>sm_circomlib := lib, sm_imports := imports, sm_ready := True, sm_chain := Some Loading,
             sm_waiting := sm_waiting m + 1\<rparr>)"

text \<open>The two handlers of the chain: it stores the hasher, or it clears \<open>_poseidonReady\<close> and throws again.\<close>

definition chain_succeeds :: "sdk_module \<Rightarrow> sdk_module" where
  "chain_succeeds m = m\<lparr>sm_poseidon := True, sm_chain := None, sm_resolved := sm_resolved m + sm_waiting m, sm_waiting := 0\<rparr>"

definition chain_fails :: "sdk_module \<Rightarrow> sdk_module" where
  "chain_fails m = m\<lparr>sm_ready := False, sm_chain := None, sm_rejected := sm_rejected m + sm_waiting m, sm_waiting := 0\<rparr>"

text \<open>
  The events: a caller; the end of the import; the chain's first \<open>then\<close>, once the library's promise has
  ended; the end of \<open>buildPoseidon()\<close>. An event that is not due changes nothing.
\<close>

datatype sdk_event = InitCalled | ImportEnds bool | ChainRuns | BuildEnds bool

fun sdk_step :: "sdk_event \<Rightarrow> sdk_module \<Rightarrow> sdk_module" where
  "sdk_step InitCalled m = initPoseidon m"
| "sdk_step (ImportEnds ok) m =
     (if sm_circomlib m = Some Pending then m\<lparr>sm_circomlib := Some (if ok then Fulfilled else Rejected)\<rparr> else m)"
| "sdk_step ChainRuns m =
     (if sm_chain m = Some Loading then
        (case sm_circomlib m of
           Some Fulfilled \<Rightarrow> m\<lparr>sm_chain := Some Building, sm_builds := sm_builds m + 1\<rparr>
         | Some Rejected \<Rightarrow> chain_fails m
         | _ \<Rightarrow> m)
      else m)"
| "sdk_step (BuildEnds ok) m =
     (if sm_chain m = Some Building then (if ok then chain_succeeds m else chain_fails m) else m)"

definition sdk_run :: "sdk_event list \<Rightarrow> sdk_module \<Rightarrow> sdk_module" where
  "sdk_run es m = fold sdk_step es m"

lemmas sdk_defs = initPoseidon_def chain_succeeds_def chain_fails_def load_once_def Let_def

text \<open>What holds between any two events.\<close>

definition sdk_inv :: "sdk_module \<Rightarrow> bool" where
  "sdk_inv m \<longleftrightarrow> sm_imports m = (if sm_circomlib m = None then 0 else 1)
     \<and> (sm_chain m \<noteq> None \<longrightarrow> sm_ready m \<and> \<not> sm_poseidon m \<and> sm_circomlib m \<noteq> None)
     \<and> (sm_chain m = Some Building \<longrightarrow> sm_circomlib m = Some Fulfilled)
     \<and> (sm_ready m \<longrightarrow> sm_poseidon m \<or> sm_chain m \<noteq> None)
     \<and> (sm_waiting m \<noteq> 0 \<longrightarrow> sm_chain m \<noteq> None) \<and> (sm_resolved m \<noteq> 0 \<longrightarrow> sm_poseidon m)
     \<and> (sm_poseidon m \<longrightarrow> sm_circomlib m = Some Fulfilled)"

lemma sdk_inv_start: "sdk_inv sdk_start"
  by (simp add: sdk_inv_def sdk_start_def)

lemma sdk_inv_step: "sdk_inv m \<Longrightarrow> sdk_inv (sdk_step e m)"
  by (cases e) (auto simp: sdk_inv_def sdk_defs split: option.splits promise.splits build_chain.splits)

lemma sdk_inv_run: "sdk_inv m \<Longrightarrow> sdk_inv (sdk_run es m)"
  unfolding sdk_run_def by (induction es arbitrary: m) (simp_all add: sdk_inv_step)

subsection \<open>One import, one build at a time\<close>

definition calls :: "sdk_event list \<Rightarrow> nat" where
  "calls es = length (filter (\<lambda>e. e = InitCalled) es)"

definition accounted :: "sdk_module \<Rightarrow> nat" where
  "accounted m = sm_waiting m + sm_resolved m + sm_rejected m"

lemma accounted_step: "accounted (sdk_step e m) = accounted m + (if e = InitCalled then 1 else 0)"
  by (cases e) (auto simp: accounted_def sdk_defs split: option.splits promise.splits build_chain.splits)

lemma accounted_run: "accounted (sdk_run es m) = accounted m + calls es"
  unfolding sdk_run_def calls_def by (induction es arbitrary: m) (simp_all add: accounted_step)

text \<open>
  Callers share one load. In every interleaving of callers with the ends of the promises, the library is
  imported at most once, every caller is either waiting on the one chain under way or was answered once,
  and no caller is told that the hasher is ready before it is there.
\<close>

theorem callers_share_one_load:
  defines "m es \<equiv> sdk_run es sdk_start"
  shows "sm_imports (m es) \<le> 1 \<and> sm_waiting (m es) + sm_resolved (m es) + sm_rejected (m es) = calls es
    \<and> (sm_resolved (m es) = 0 \<or> sm_poseidon (m es)) \<and> (sm_waiting (m es) = 0 \<or> sm_chain (m es) \<noteq> None)"
  using sdk_inv_run [OF sdk_inv_start, of es] accounted_run [of es sdk_start]
  by (auto simp: m_def sdk_inv_def accounted_def sdk_start_def)

subsection \<open>A failed import\<close>

lemma rejected_import_stays:
  assumes "sdk_inv m" "sm_circomlib m = Some Rejected"
  shows "sdk_inv (sdk_run es m) \<and> sm_circomlib (sdk_run es m) = Some Rejected"
  using assms
proof (induction es arbitrary: m)
  case (Cons e es)
  have "sm_circomlib (sdk_step e m) = Some Rejected"
    using Cons.prems by (cases e) (auto simp: sdk_defs sdk_inv_def split: option.splits promise.splits build_chain.splits)
  then show ?case using Cons.IH [of "sdk_step e m"] sdk_inv_step [OF Cons.prems(1)] by (simp add: sdk_run_def)
qed (simp add: sdk_run_def)

text \<open>
  C31. A failed import is never retried: \<open>_poseidonReady\<close> is cleared so that "a failed load (offline) may be
  retried", but the rejected promise stays in \<open>_circomlib\<close>. After any run in which the import failed,
  whatever is called and however often: the library is not requested again, no build starts, the hasher
  never exists and no caller is ever answered with success.
\<close>

theorem failed_import_is_permanent:
  assumes "sm_circomlib (sdk_run es sdk_start) = Some Rejected"
  shows "sm_imports (sdk_run (es @ fs) sdk_start) = 1 \<and> \<not> sm_poseidon (sdk_run (es @ fs) sdk_start)
    \<and> sm_resolved (sdk_run (es @ fs) sdk_start) = 0
    \<and> sm_rejected (sdk_run (es @ fs @ [InitCalled, ChainRuns]) sdk_start) = calls es + calls fs + 1"
proof -
  let ?m = "sdk_run es sdk_start" and ?n = "sdk_run (es @ fs) sdk_start"
  have n: "?n = sdk_run fs ?m" by (simp add: sdk_run_def)
  have r: "sdk_inv ?n" "sm_circomlib ?n = Some Rejected"
    using rejected_import_stays [OF sdk_inv_run [OF sdk_inv_start] assms, of fs] unfolding n by simp_all
  let ?k = "sdk_run (es @ fs @ [InitCalled, ChainRuns]) sdk_start"
  have k: "?k = sdk_step ChainRuns (initPoseidon ?n)" by (simp add: sdk_run_def)
  have loading: "sm_chain (initPoseidon ?n) = Some Loading"
    using r by (auto simp: sdk_inv_def sdk_defs not_building split: option.splits)
  moreover have "sm_circomlib (initPoseidon ?n) = Some Rejected" using r(2) by (simp add: sdk_defs)
  ultimately have "sm_waiting ?k = 0" unfolding k by (simp add: chain_fails_def)
  moreover have "sm_resolved ?k = 0"
    using rejected_import_stays [OF sdk_inv_run [OF sdk_inv_start] assms, of "fs @ [InitCalled, ChainRuns]"]
    by (auto simp: sdk_run_def sdk_inv_def)
  moreover have "accounted ?k = calls es + calls fs + 1"
    using accounted_run [of "es @ fs @ [InitCalled, ChainRuns]" sdk_start] by (simp add: calls_def accounted_def sdk_start_def)
  ultimately show ?thesis using r by (auto simp: sdk_inv_def accounted_def)
qed

lemma failed_import_is_permanent_witness:
  "sm_rejected (sdk_run ([InitCalled, ImportEnds False] @ [ChainRuns, ImportEnds True] @ [InitCalled, ChainRuns]) sdk_start) = 2"
  using failed_import_is_permanent [of "[InitCalled, ImportEnds False]" "[ChainRuns, ImportEnds True]"]
  by (simp add: sdk_run_def sdk_start_def sdk_defs calls_def)

text \<open>A failed build is retried: the next caller starts a new one from the library already loaded.\<close>

lemma failed_build_is_retried:
  "sm_poseidon (sdk_run [InitCalled, ImportEnds True, ChainRuns, BuildEnds False, InitCalled, ChainRuns, BuildEnds True] sdk_start)
   \<and> sm_builds (sdk_run [InitCalled, ImportEnds True, ChainRuns, BuildEnds False, InitCalled, ChainRuns, BuildEnds True] sdk_start) = 2"
  by (simp add: sdk_run_def sdk_start_def sdk_defs)

end
