(* ===== verification/SdkTree.thy ===== *)
theory SdkTree
  imports SdkModule ProgramState
begin

text \<open>
  Hashing and the \<open>MerkleTree\<close> class as the TypeScript source has them, sdk/src/proof.ts: the hasher may be
  absent, so every step that hashes can throw. What is proved: with a hasher they are the operations of
  the published build sdk/src/proof.js, and without one no tree exists.
\<close>

text \<open>A loop whose body may throw.\<close>

primrec js_fold :: "('a \<Rightarrow> 's \<Rightarrow> 's js) \<Rightarrow> 'a list \<Rightarrow> 's \<Rightarrow> 's js" where
  "js_fold f [] s = Returns s"
| "js_fold f (x # xs) s = js_bind (f x s) (js_fold f xs)"

lemma js_fold_Returns: "(\<And>x s. f x s = Returns (g x s)) \<Longrightarrow> js_fold f xs s = Returns (fold g xs s)"
  by (induction xs arbitrary: s) simp_all

subsection \<open>The class\<close>

record ts_tree =
  ts_depth :: nat
  ts_zeros :: "int list"
  ts_layers :: "int list list"

definition ts_buildZeros :: "hasher \<Rightarrow> nat \<Rightarrow> int list js" where
  "ts_buildZeros P depth =
     js_fold (\<lambda>i zeros. js_bind (ts_poseidonHash P [zeros ! (i - 1), zeros ! (i - 1)]) (\<lambda>z. Returns (zeros @ [z]))) [1..<depth + 1] [0]"

definition ts_new :: "hasher \<Rightarrow> nat \<Rightarrow> ts_tree js" where
  "ts_new P depth =
     (if P = None then Throws ''Call initPoseidon() before creating a MerkleTree''
      else js_bind (ts_buildZeros P depth) (\<lambda>zeros.
        Returns \<lparr>ts_depth = depth, ts_zeros = zeros, ts_layers = replicate (depth + 1) []\<rparr>))"

definition ts_nextIndex :: "ts_tree \<Rightarrow> nat" where
  "ts_nextIndex t = length (ts_layers t ! 0)"

definition ts_nodeAt :: "ts_tree \<Rightarrow> nat \<Rightarrow> nat \<Rightarrow> int" where
  "ts_nodeAt t level index =
     (if index < length (ts_layers t ! level) then ts_layers t ! level ! index else ts_zeros t ! level)"

definition ts_root :: "ts_tree \<Rightarrow> int" where
  "ts_root t = (if length (ts_layers t ! 0) = 0 then ts_zeros t ! ts_depth t else ts_nodeAt t (ts_depth t) 0)"

definition ts_insert_level :: "hasher \<Rightarrow> nat \<Rightarrow> ts_tree \<times> nat \<Rightarrow> (ts_tree \<times> nat) js" where
  "ts_insert_level P level = (\<lambda>(t, currentIndex).
     let parentIndex = currentIndex div 2;
         leftChild = ts_nodeAt t (level - 1) (parentIndex * 2);
         rightChild = ts_nodeAt t (level - 1) (parentIndex * 2 + 1);
         layer = ts_layers t ! level
     in js_bind (ts_poseidonHash P [leftChild, rightChild]) (\<lambda>parent.
        Returns (t\<lparr>ts_layers := (ts_layers t)[level :=
            (if parentIndex < length layer then layer[parentIndex := parent] else layer @ [parent])]\<rparr>, parentIndex)))"

definition ts_insert :: "hasher \<Rightarrow> int \<Rightarrow> ts_tree \<Rightarrow> (ts_tree \<times> nat) js" where
  "ts_insert P leaf t =
     (let index = length (ts_layers t ! 0);
          t0 = t\<lparr>ts_layers := (ts_layers t)[0 := ts_layers t ! 0 @ [leaf]]\<rparr>
      in js_bind (js_fold (ts_insert_level P) [1..<ts_depth t + 1] (t0, index)) (\<lambda>(t', _). Returns (t', index)))"

record ts_proof =
  tp_pathElements :: "int list"
  tp_pathIndices :: "int list"
  tp_root :: int
  tp_leafIndex :: int

definition ts_proof_level :: "ts_tree \<Rightarrow> nat \<Rightarrow> int list \<times> int list \<times> nat \<Rightarrow> int list \<times> int list \<times> nat" where
  "ts_proof_level t level = (\<lambda>(pathElements, pathIndices, currentIndex).
     let isRight = (currentIndex mod 2 = 1);
         siblingIndex = (if isRight then currentIndex - 1 else currentIndex + 1)
     in (pathElements @ [ts_nodeAt t level siblingIndex], pathIndices @ [if isRight then 1 else 0], currentIndex div 2))"

definition ts_getProof :: "ts_tree \<Rightarrow> int \<Rightarrow> ts_proof js" where
  "ts_getProof t leafIndex =
     (if leafIndex < 0 \<or> int (length (ts_layers t ! 0)) \<le> leafIndex
      then Throws (''Leaf index '' @ show_int leafIndex @ '' out of range [0, '' @ show_int (int (length (ts_layers t ! 0))) @ '')'')
      else let (els, idxs, _) = fold (ts_proof_level t) [0..<ts_depth t] ([], [], nat leafIndex)
           in Returns \<lparr>tp_pathElements = els, tp_pathIndices = idxs, tp_root = ts_root t, tp_leafIndex = leafIndex\<rparr>)"

definition ts_findLeaf :: "ts_tree \<Rightarrow> int \<Rightarrow> int" where
  "ts_findLeaf t leaf = (case find (\<lambda>i. ts_layers t ! 0 ! i = leaf) [0..<length (ts_layers t ! 0)] of None \<Rightarrow> -1 | Some i \<Rightarrow> int i)"

definition ts_findAllLeaves :: "ts_tree \<Rightarrow> int \<Rightarrow> int list" where
  "ts_findAllLeaves t leaf =
     fold (\<lambda>i out. if ts_layers t ! 0 ! i = leaf then out @ [int i] else out) [0..<length (ts_layers t ! 0)] []"

definition ts_hasLeaf :: "ts_tree \<Rightarrow> int \<Rightarrow> bool" where
  "ts_hasLeaf t leaf \<longleftrightarrow> ts_findLeaf t leaf \<noteq> -1"

subsection \<open>It is the tree of the published build\<close>

definition built :: "ts_tree \<Rightarrow> merkle_tree" where
  "built t = \<lparr>mt_depth = ts_depth t, mt_zeros = ts_zeros t, mt_layers = ts_layers t\<rparr>"

lemma built_simps [simp]: "mt_depth (built t) = ts_depth t" "mt_zeros (built t) = ts_zeros t" "mt_layers (built t) = ts_layers t"
  by (simp_all add: built_def)

lemma ts_buildZeros_build: "ts_buildZeros (Some H) d = Returns (buildZeros (pair_hash H) d)"
  unfolding ts_buildZeros_def buildZeros_def by (intro js_fold_Returns) (simp add: ts_poseidonHash_def)

lemma ts_new_build: "\<exists>t. ts_new (Some H) d = Returns t \<and> built t = new_tree (pair_hash H) d"
  by (simp add: ts_new_def ts_buildZeros_build new_tree_def built_def)

lemma ts_readers_build:
  "ts_nodeAt t = nodeAt (built t)" "ts_root t = root_of (built t)" "ts_nextIndex t = nextIndex (built t)"
  by (simp_all add: fun_eq_iff ts_nodeAt_def nodeAt_def ts_root_def root_of_def ts_nextIndex_def nextIndex_def)

lemma ts_insert_level_build:
  "\<exists>t'. ts_insert_level (Some H) l (t, i) = Returns (t', i div 2) \<and> insert_level (pair_hash H) l (built t, i) = (built t', i div 2)"
  by (simp add: ts_insert_level_def insert_level_def ts_poseidonHash_def Let_def ts_readers_build store_or_push_def
      drop_bit_eq_div built_def)

lemma ts_insert_build:
  "\<exists>t'. ts_insert (Some H) x t = Returns (t', length (ts_layers t ! 0)) \<and> mt_insert (pair_hash H) (built t) x = (built t', length (ts_layers t ! 0))"
proof -
  have "\<exists>t' i'. js_fold (ts_insert_level (Some H)) ls (t, i) = Returns (t', i') \<and> fold (insert_level (pair_hash H)) ls (built t, i) = (built t', i')" for ls t i
  proof (induction ls arbitrary: t i)
    case (Cons l ls)
    then show ?case using ts_insert_level_build [of H l t i] by fastforce
  qed simp
  from this [of "[1..<ts_depth t + 1]" "t\<lparr>ts_layers := (ts_layers t)[0 := ts_layers t ! 0 @ [x]]\<rparr>" "length (ts_layers t ! 0)"]
  show ?thesis by (auto simp: ts_insert_def mt_insert_def Let_def built_def)
qed

lemma ts_build:
  "\<exists>t. js_bind (ts_new (Some H) d) (js_fold (\<lambda>x t. js_bind (ts_insert (Some H) x t) (\<lambda>(t', _). Returns t')) xs) = Returns t
     \<and> built t = build_tree (pair_hash H) d xs"
proof -
  have "\<exists>t'. js_fold (\<lambda>x t. js_bind (ts_insert (Some H) x t) (\<lambda>(t', _). Returns t')) xs t = Returns t'
      \<and> built t' = foldl (\<lambda>t x. fst (mt_insert (pair_hash H) t x)) (built t) xs" for t
  proof (induction xs arbitrary: t)
    case (Cons x xs)
    then show ?case using ts_insert_build [of H x t] by fastforce
  qed simp
  moreover obtain t0 where "ts_new (Some H) d = Returns t0" "built t0 = new_tree (pair_hash H) d"
    using ts_new_build [of H d] by blast
  ultimately show ?thesis by (metis build_tree_def js_bind_simps(2))
qed

lemma ts_proof_levels:
  "fold (ts_proof_level t) ls (els, map int idxs, i) =
     (case fold (proof_level (built t)) ls (els, idxs, i) of (e, x, c) \<Rightarrow> (e, map int x, c))"
proof (induction ls arbitrary: els idxs i)
  case (Cons l ls)
  obtain e x c where p: "proof_level (built t) l (els, idxs, i) = (e, x, c)" by (cases "proof_level (built t) l (els, idxs, i)")
  then have "ts_proof_level t l (els, map int idxs, i) = (e, map int x, c)"
    by (auto simp: ts_proof_level_def proof_level_def Let_def ts_readers_build drop_bit_eq_div)
  then show ?case using Cons p by simp
qed simp

lemma ts_getProof_build:
  "0 \<le> i \<Longrightarrow> getProof (built t) (nat i) = Some p \<Longrightarrow> ts_getProof t i = Returns \<lparr>tp_pathElements = mp_pathElements p,
     tp_pathIndices = map int (mp_pathIndices p), tp_root = mp_root p, tp_leafIndex = i\<rparr>"
  using ts_proof_levels [of t "[0..<ts_depth t]" "[]" "[]" "nat i"]
  by (auto simp: getProof_def ts_getProof_def ts_readers_build Let_def split: if_splits prod.splits)

lemma find_Suc: "find P (map Suc is) = map_option Suc (find (\<lambda>i. P (Suc i)) is)"
  by (induction "is") simp_all

lemma ts_lookup_build:
  "ts_findLeaf t x = (case findLeaf (built t) x of None \<Rightarrow> -1 | Some i \<Rightarrow> int i)"
  "ts_findAllLeaves t x = map int (findAllLeaves (built t) x)"
  "ts_hasLeaf t x = hasLeaf (built t) x"
proof -
  have index: "index_of ls x = find (\<lambda>i. ls ! i = x) [0..<length ls]" for ls
  proof (induction ls)
    case (Cons y ls)
    have "find (\<lambda>i. (y # ls) ! i = x) (map Suc [0..<length ls]) = map_option Suc (find (\<lambda>i. ls ! i = x) [0..<length ls])"
      using find_Suc [of "\<lambda>i. (y # ls) ! i = x" "[0..<length ls]"] by simp
    moreover have "[0..<length (y # ls)] = 0 # map Suc [0..<length ls]"
      by (simp add: map_Suc_upt upt_conv_Cons del: upt_Suc)
    ultimately show ?case using Cons by simp
  qed simp
  show f: "ts_findLeaf t x = (case findLeaf (built t) x of None \<Rightarrow> -1 | Some i \<Rightarrow> int i)"
    by (simp add: ts_findLeaf_def findLeaf_def index)
  show "ts_hasLeaf t x = hasLeaf (built t) x"
    by (auto simp: ts_hasLeaf_def hasLeaf_def f split: option.splits)
  have "fold (\<lambda>i out. if P i then out @ [int i] else out) is acc = acc @ map int (filter P is)" for P :: "nat \<Rightarrow> bool" and "is" acc
    by (induction "is" arbitrary: acc) auto
  then show "ts_findAllLeaves t x = map int (findAllLeaves (built t) x)"
    by (simp add: ts_findAllLeaves_def findAllLeaves_eq)
qed

text \<open>
  The prover's tree, from its source. Without a hasher no tree is made. With one, a tree of any leaves
  that fit is made without a throw and holds them in order: its root is the commitment root, every leaf
  is found where it first stands, and \<open>getProof\<close> throws exactly outside the leaves and otherwise gives a
  path of one element and one bit per level that leads from the leaf to the root.
\<close>

theorem typescript_tree_proves_its_leaves:
  assumes "length xs \<le> 2 ^ d"
  shows "ts_new None d = Throws ''Call initPoseidon() before creating a MerkleTree''
    \<and> (\<exists>t. js_bind (ts_new (Some H) d) (js_fold (\<lambda>x t. js_bind (ts_insert (Some H) x t) (\<lambda>(t', _). Returns t')) xs) = Returns t
      \<and> ts_nextIndex t = length xs \<and> ts_root t = spec_root (pair_hash H) d xs
      \<and> (\<forall>x. ts_hasLeaf t x = (x \<in> set xs) \<and> ts_findAllLeaves t x = map int (filter (\<lambda>i. xs ! i = x) [0..<length xs]))
      \<and> (\<forall>i. case ts_getProof t i of
           Throws _ \<Rightarrow> i < 0 \<or> int (length xs) \<le> i
         | Returns p \<Rightarrow> 0 \<le> i \<and> i < int (length xs) \<and> tp_root p = ts_root t \<and> length (tp_pathElements p) = d
             \<and> length (tp_pathIndices p) = d
             \<and> path_root (pair_hash H) (xs ! nat i) (zip (tp_pathElements p) (map nat (tp_pathIndices p))) = tp_root p))"
proof -
  let ?h = "pair_hash H" and ?b = "build_tree (pair_hash H) d xs"
  obtain t where t: "js_bind (ts_new (Some H) d) (js_fold (\<lambda>x t. js_bind (ts_insert (Some H) x t) (\<lambda>(t', _). Returns t')) xs) = Returns t"
      "built t = ?b" using ts_build by blast
  have inv: "tree_inv ?h d ?b xs" by (rule build_tree_inv)
  then have l0: "mt_layers ?b ! 0 = xs" by (simp add: tree_inv_def layers_of_leaves del: upt_Suc)
  then have l: "ts_layers t ! 0 = xs" using t(2) by (metis built_simps(3))
  have root: "ts_root t = spec_root ?h d xs" using root_of_inv [OF inv] t(2) by (simp add: ts_readers_build)
  have find: "ts_hasLeaf t x = (x \<in> set xs)" "ts_findAllLeaves t x = map int (filter (\<lambda>i. xs ! i = x) [0..<length xs])" for x
    using index_of_None [of xs x] by (auto simp: ts_lookup_build t(2) hasLeaf_def findLeaf_def findAllLeaves_eq l0)
  have path: "case ts_getProof t i of
           Throws _ \<Rightarrow> i < 0 \<or> int (length xs) \<le> i
         | Returns p \<Rightarrow> 0 \<le> i \<and> i < int (length xs) \<and> tp_root p = ts_root t \<and> length (tp_pathElements p) = d
             \<and> length (tp_pathIndices p) = d
             \<and> path_root ?h (xs ! nat i) (zip (tp_pathElements p) (map nat (tp_pathIndices p))) = tp_root p" for i
  proof (cases "0 \<le> i \<and> i < int (length xs)")
    case True
    then have n: "nat i < length xs" by (simp add: nat_less_iff)
    obtain p where p: "getProof ?b (nat i) = Some p" "proof_path p = spec_path ?h xs d (nat i)" "mp_root p = spec_root ?h d xs"
        "length (mp_pathElements p) = d" "length (mp_pathIndices p) = d"
      using getProof_inv [OF inv n] by blast
    have "path_root ?h (xs ! nat i) (proof_path p) = spec_root ?h d xs"
      using sdk_tree.built_path_proves [OF assms n, of ?h] p sdk_tree.built_root [OF assms, of ?h] by (simp add: build_tree_def)
    then show ?thesis
      using ts_getProof_build [of i t p] p True root unfolding t(2) by (simp add: proof_path_def comp_def)
  next
    case False
    then show ?thesis by (auto simp: ts_getProof_def l)
  qed
  show ?thesis using t(1) root find path l by (intro conjI exI [of _ t]) (simp_all add: ts_new_def ts_nextIndex_def)
qed

lemma typescript_tree_proves_its_leaves_witness:
  "\<exists>t. js_bind (ts_new (Some (\<lambda>xs. sum_list xs + 1)) 2) (js_fold (\<lambda>x t. js_bind (ts_insert (Some (\<lambda>xs. sum_list xs + 1)) x t) (\<lambda>(t', _). Returns t')) [7, 8, 7]) = Returns t
     \<and> ts_hasLeaf t 8 \<and> ts_findAllLeaves t 7 = [0, 2]"
proof -
  have f: "map int (filter (\<lambda>i. [7, 8, 7 :: int] ! i = 7) [0..<length [7, 8, 7 :: int]]) = [0, 2]" by code_simp
  have fits: "length [7, 8, 7 :: int] \<le> 2 ^ 2" by simp
  from typescript_tree_proves_its_leaves [OF fits, of "\<lambda>xs. sum_list xs + 1"] f show ?thesis
    by (metis list.set_intros(1) list.set_intros(2))
qed

end
