(* ===== verification/ClusterScript.thy ===== *)
theory ClusterScript
  imports ProgramHandlers SdkTree
begin

text \<open>
  A cluster as the operational scripts use it: RPC reads, transactions that run the program's instructions
  on the ledger, and the libraries' randomness, texts and prover as parameters. A script is a function of
  the world it runs in, which it leaves changed; it ends with a value, throws, or does not end. The
  runtime's own check of rent at the end of a transaction is not modelled.
\<close>

subsection \<open>Scripts\<close>

datatype 'a outcome = Threw string | Done 'a | Runs

record world =
  wd_ledger :: ledger
  wd_cache :: "json js"
  wd_results :: "(string \<times> string \<times> bool) list"
  wd_keys :: nat
  wd_random :: nat
  wd_sent :: nat

type_synonym 'a script = "world \<Rightarrow> 'a outcome \<times> world"

definition sc_return :: "'a \<Rightarrow> 'a script" where
  "sc_return x = (\<lambda>w. (Done x, w))"

definition sc_throw :: "string \<Rightarrow> 'a script" where
  "sc_throw e = (\<lambda>w. (Threw e, w))"

definition sc_bind :: "'a script \<Rightarrow> ('a \<Rightarrow> 'b script) \<Rightarrow> 'b script" where
  "sc_bind m f = (\<lambda>w. case m w of (Threw e, w') \<Rightarrow> (Threw e, w') | (Runs, w') \<Rightarrow> (Runs, w') | (Done x, w') \<Rightarrow> f x w')"

definition sc_then :: "'a script \<Rightarrow> 'b script \<Rightarrow> 'b script" where
  "sc_then m n = sc_bind m (\<lambda>_. n)"

text \<open>\<open>try { m } catch (err) { h(err) }\<close>.\<close>

definition sc_catch :: "'a script \<Rightarrow> (string \<Rightarrow> 'a script) \<Rightarrow> 'a script" where
  "sc_catch m h = (\<lambda>w. case m w of (Threw e, w') \<Rightarrow> h e w' | r \<Rightarrow> r)"

definition sc_js :: "'a js \<Rightarrow> 'a script" where
  "sc_js r = (\<lambda>w. case r of Throws e \<Rightarrow> (Threw e, w) | Returns x \<Rightarrow> (Done x, w))"

primrec sc_each :: "('a \<Rightarrow> unit script) \<Rightarrow> 'a list \<Rightarrow> unit script" where
  "sc_each f [] = sc_return ()"
| "sc_each f (x # xs) = sc_then (f x) (sc_each f xs)"

definition sc_when :: "bool \<Rightarrow> unit script \<Rightarrow> unit script" where
  "sc_when c m = (if c then m else sc_return ())"

subsection \<open>The cluster\<close>

text \<open>
  One signature of the pool's history: whether it failed, and what each attempt to fetch its transaction
  gives: nothing, or the events parsed from its logs, if it has logs.
\<close>

record sig_log =
  sl_err :: bool
  sl_fetch :: "nat \<Rightarrow> event list option option js"

record cluster =
  cl_runtime :: runtime
  cl_wallet :: pubkey
  cl_balance :: "ledger \<Rightarrow> pubkey \<Rightarrow> int js"
  cl_account :: "ledger \<Rightarrow> pubkey \<Rightarrow> account_info option js"
  cl_rent :: "nat \<Rightarrow> int js"
  cl_fee :: "nat \<Rightarrow> int"
  cl_text :: "fault \<Rightarrow> string"
  cl_meta_fee :: "nat \<Rightarrow> nat \<Rightarrow> int option js"
  cl_history :: "ledger \<Rightarrow> pubkey \<Rightarrow> sig_log list js"
  cl_hash :: "int list \<Rightarrow> int"
  cl_prove :: "circuit_inputs \<Rightarrow> (json \<times> string list) js"
  cl_keypair :: "nat \<Rightarrow> pubkey"
  cl_bytes :: "nat \<Rightarrow> bytes"
  cl_base58 :: "pubkey \<Rightarrow> string"

definition get_balance :: "cluster \<Rightarrow> pubkey \<Rightarrow> int script" where
  "get_balance C k = (\<lambda>w. sc_js (cl_balance C (wd_ledger w) k) w)"

definition get_account :: "cluster \<Rightarrow> pubkey \<Rightarrow> account_info option script" where
  "get_account C k = (\<lambda>w. sc_js (cl_account C (wd_ledger w) k) w)"

definition get_history :: "cluster \<Rightarrow> pubkey \<Rightarrow> sig_log list script" where
  "get_history C k = (\<lambda>w. sc_js (cl_history C (wd_ledger w) k) w)"

definition new_keypair :: "cluster \<Rightarrow> pubkey script" where
  "new_keypair C = (\<lambda>w. (Done (cl_keypair C (wd_keys w)), w\<lparr>wd_keys := wd_keys w + 1\<rparr>))"

definition random_bytes :: "cluster \<Rightarrow> bytes script" where
  "random_bytes C = (\<lambda>w. (Done (cl_bytes C (wd_random w)), w\<lparr>wd_random := wd_random w + 1\<rparr>))"

definition find_address :: "cluster \<Rightarrow> bytes list \<Rightarrow> pubkey js" where
  "find_address C seeds =
     (case rt_find_pda (cl_runtime C) seeds of
        None \<Rightarrow> Throws ''Unable to find a viable program address nonce''
      | Some (k, _) \<Rightarrow> Returns k)"

text \<open>
  A transaction (compute-budget instructions leave the ledger alone): the payer pays the fee for the
  signatures, then the instructions run. \<open>.rpc()\<close> and \<open>sendAndConfirm\<close> simulate first, so a refused
  transaction is not sent and throws the error's text; otherwise the signature is its number.
\<close>

datatype cluster_ix = ProgramIx instruction | TransferIx pubkey pubkey int | ThenIx cluster_ix cluster_ix

fun run_ix :: "runtime \<Rightarrow> cluster_ix \<Rightarrow> ledger \<Rightarrow> ledger run" where
  "run_ix R (ProgramIx i) L = run_bind (execute R i L) (\<lambda>(L', _). Gives L')"
| "run_ix R (TransferIx a b n) L = sys R (SysTransfer a b n) L"
| "run_ix R (ThenIx i j) L = run_bind (run_ix R i L) (run_ix R j)"

definition charge :: "pubkey \<Rightarrow> int \<Rightarrow> ledger \<Rightarrow> ledger" where
  "charge k n L = L(k := (L k)\<lparr>acc_lamports := lamports L k - n\<rparr>)"

definition transact :: "cluster \<Rightarrow> pubkey \<Rightarrow> nat \<Rightarrow> cluster_ix \<Rightarrow> nat script" where
  "transact C payer signatures ix = (\<lambda>w.
     if lamports (wd_ledger w) payer < cl_fee C signatures then (Threw (cl_text C Abort), w)
     else case run_ix (cl_runtime C) ix (charge payer (cl_fee C signatures) (wd_ledger w)) of
         Fails f \<Rightarrow> (Threw (cl_text C f), w)
       | Gives L' \<Rightarrow> (Done (wd_sent w), w\<lparr>wd_ledger := L', wd_sent := wd_sent w + 1\<rparr>))"

lemmas sc_defs = sc_return_def sc_throw_def sc_bind_def sc_then_def sc_catch_def sc_js_def sc_when_def

lemma sc_bind_js [simp]: "sc_bind (sc_js (Returns x)) f = f x"
  by (simp add: sc_bind_def sc_js_def fun_eq_iff)

lemma sc_bind_done: "m w = (Done x, w') \<Longrightarrow> sc_bind m f w = f x w'"
  by (simp add: sc_bind_def)

lemma sc_bind_apply:
  "sc_bind m f w = (case m w of (Threw e, w') \<Rightarrow> (Threw e, w') | (Runs, w') \<Rightarrow> (Runs, w') | (Done x, w') \<Rightarrow> f x w')"
  by (simp add: sc_bind_def)

subsection \<open>What no part of a script takes back\<close>

text \<open>A recorded result stays: every script keeps the list and only adds to its end.\<close>

definition keeps :: "'a script \<Rightarrow> bool" where
  "keeps m \<longleftrightarrow> (\<forall>w. \<exists>rs. wd_results (snd (m w)) = wd_results w @ rs)"

lemma keepsE: "keeps m \<Longrightarrow> \<exists>rs. wd_results (snd (m w)) = wd_results w @ rs"
  by (simp add: keeps_def)

named_theorems kept

lemma keepsI: "(\<And>w. wd_results (snd (m w)) = wd_results w) \<Longrightarrow> keeps m"
  by (simp add: keeps_def)

lemma keeps_return [kept]: "keeps (sc_return x)" "keeps (sc_throw e)" "keeps (sc_js r)"
  by (auto simp: sc_defs intro!: keepsI split: js.splits)

lemma keeps_read [kept]:
  "keeps (get_balance C k)" "keeps (get_account C k)" "keeps (get_history C k)" "keeps (new_keypair C)" "keeps (random_bytes C)"
  "keeps (transact C payer n ix)"
  by (auto simp: get_balance_def get_account_def get_history_def new_keypair_def random_bytes_def transact_def sc_js_def
      intro!: keepsI split: js.splits run.splits)

lemma keeps_bind [kept]: "keeps m \<Longrightarrow> (\<And>x. keeps (f x)) \<Longrightarrow> keeps (sc_bind m f)"
proof -
  assume m: "keeps m" and f: "\<And>x. keeps (f x)"
  show "keeps (sc_bind m f)" unfolding keeps_def
  proof
    fix w
    obtain r w' where r: "m w = (r, w')" by (cases "m w")
    obtain rs where rs: "wd_results w' = wd_results w @ rs" using m r by (metis keeps_def snd_conv)
    show "\<exists>rs. wd_results (snd (sc_bind m f w)) = wd_results w @ rs"
    proof (cases r)
      case (Done x)
      obtain rs' where "wd_results (snd (f x w')) = wd_results w' @ rs'" using f [of x] by (auto simp: keeps_def)
      then show ?thesis using r rs Done by (simp add: sc_bind_def)
    qed (use r rs in \<open>auto simp: sc_bind_def\<close>)
  qed
qed

lemma keeps_then [kept]: "keeps m \<Longrightarrow> keeps n \<Longrightarrow> keeps (sc_then m n)"
  by (simp add: sc_then_def keeps_bind)

lemma keeps_catch [kept]: "keeps m \<Longrightarrow> (\<And>e. keeps (h e)) \<Longrightarrow> keeps (sc_catch m h)"
proof -
  assume m: "keeps m" and h: "\<And>e. keeps (h e)"
  show "keeps (sc_catch m h)" unfolding keeps_def
  proof
    fix w
    obtain r w' where r: "m w = (r, w')" by (cases "m w")
    obtain rs where rs: "wd_results w' = wd_results w @ rs" using m r by (metis keeps_def snd_conv)
    show "\<exists>rs. wd_results (snd (sc_catch m h w)) = wd_results w @ rs"
    proof (cases r)
      case (Threw e)
      obtain rs' where "wd_results (snd (h e w')) = wd_results w' @ rs'" using h [of e] by (auto simp: keeps_def)
      then show ?thesis using r rs Threw by (simp add: sc_catch_def)
    qed (use r rs in \<open>auto simp: sc_catch_def\<close>)
  qed
qed

lemma keeps_when [kept]: "keeps m \<Longrightarrow> keeps (sc_when c m)"
  by (simp add: sc_when_def kept)

lemma keeps_each [kept]: "(\<And>x. x \<in> set xs \<Longrightarrow> keeps (f x)) \<Longrightarrow> keeps (sc_each f xs)"
  by (induction xs) (simp_all add: kept)

end
