(* ===== verification/DevnetVerify.thy ===== *)
theory DevnetVerify
  imports ClusterScript NoteVault "HOL-Library.While_Combinator"
begin

text \<open>
  The on-chain verification script, scripts/devnet\_verify.js, as a script on a cluster: its helpers, the
  fixture every group builds, the nine groups of checks, and the run with its exit code. Message texts are
  shortened; what a check tests in a text is kept. Waiting and console output are left out.
\<close>

subsection \<open>Constants and helpers\<close>

definition VERIFY_DENOMINATION :: int where "VERIFY_DENOMINATION = 20000000"
definition VERIFY_VERSION :: byte where "VERIFY_VERSION = 1"
definition VERIFY_FEE_MAX :: int where "VERIFY_FEE_MAX = 100000"
definition VERIFY_FEE_TAKEN :: int where "VERIFY_FEE_TAKEN = 100000"
definition VERIFY_TREASURY_FEE :: int where "VERIFY_TREASURY_FEE = VERIFY_DENOMINATION div 500"
definition VERIFY_OFF_NEXT_INDEX :: nat where "VERIFY_OFF_NEXT_INDEX = 8 + 80"
definition VERIFY_OFF_TREASURY :: nat where "VERIFY_OFF_TREASURY = 8 + 88"
definition VERIFY_OFF_IS_PAUSED :: nat where "VERIFY_OFF_IS_PAUSED = 8 + 123"

definition randomFieldElem :: "cluster \<Rightarrow> int script" where
  "randomFieldElem C = sc_bind (random_bytes C) (\<lambda>bs. sc_return (foldl be_step 0 bs mod BN254_Fr))"

definition script_bytes32 :: "int \<Rightarrow> bytes" where
  "script_bytes32 n = hex_buffer (padStart 64 (CHR ''0'') (big_to_string 16 n))"

definition pubkeyToBigInt :: "pubkey \<Rightarrow> int" where
  "pubkeyToBigInt pk = foldl be_step 0 pk"

definition script_pubkeyToField :: "(int list \<Rightarrow> int) \<Rightarrow> pubkey \<Rightarrow> int" where
  "script_pubkeyToField H b =
     (let hi = fold (\<lambda>i hi. be_step hi (b ! i)) [0..<16] 0;
          lo = fold (\<lambda>i lo. be_step lo (b ! i)) [16..<32] 0
      in H [hi, lo])"

definition script_proof_bytes :: "json \<Rightarrow> proof_bytes js" where
  "script_proof_bytes pf =
     js_bind (proof_coord pf ''pi_a'' 0) (\<lambda>a0. js_bind (proof_coord pf ''pi_a'' 1) (\<lambda>a1.
     let pA = script_bytes32 a0 @ script_bytes32 (BN254_Fq - a1) in
     js_bind (proof_coord2 pf ''pi_b'' 0 1) (\<lambda>b01. js_bind (proof_coord2 pf ''pi_b'' 0 0) (\<lambda>b00.
     js_bind (proof_coord2 pf ''pi_b'' 1 1) (\<lambda>b11. js_bind (proof_coord2 pf ''pi_b'' 1 0) (\<lambda>b10.
     let pB = script_bytes32 b01 @ script_bytes32 b00 @ script_bytes32 b11 @ script_bytes32 b10 in
     js_bind (proof_coord pf ''pi_c'' 0) (\<lambda>c0. js_bind (proof_coord pf ''pi_c'' 1) (\<lambda>c1.
     Returns \<lparr>proofA = pA, proofB = pB, proofC = script_bytes32 c0 @ script_bytes32 c1\<rparr>))))))))"

definition script_findPoolPda :: "cluster \<Rightarrow> pubkey \<Rightarrow> int \<Rightarrow> byte \<Rightarrow> pubkey js" where
  "script_findPoolPda C admin denomination version =
     find_address C [ascii_bytes ''pool'', admin, replicate 32 0, le_bytes 8 denomination, [version]]"

definition script_findVaultPda :: "cluster \<Rightarrow> pubkey \<Rightarrow> pubkey js" where
  "script_findVaultPda C poolPda = find_address C [ascii_bytes ''vault'', poolPda]"

definition script_findNullifierPda :: "cluster \<Rightarrow> pubkey \<Rightarrow> bytes \<Rightarrow> pubkey js" where
  "script_findNullifierPda C poolPda nullifierHash = find_address C [ascii_bytes ''nullifier'', poolPda, nullifierHash]"

subsection \<open>The leaf cache\<close>

text \<open>
  \<open>wd_cache\<close> is what reading and parsing the file gives. A property set on an array is not printed by
  \<open>JSON.stringify\<close>; on any other value that is not an object it is refused in strict mode.
\<close>

definition loadLeaves :: "string \<Rightarrow> json js \<Rightarrow> int list" where
  "loadLeaves poolKey file =
     (case js_bind file (\<lambda>all. js_bind (js_member all (\<lambda>j. js_get j poolKey)) (\<lambda>v.
        case (if js_truthy v then v else JArr []) of JArr xs \<Rightarrow> js_map json_bigint xs | _ \<Rightarrow> Throws ''map is not a function''))
      of Throws _ \<Rightarrow> [] | Returns leaves \<Rightarrow> leaves)"

definition cached_leaves_in :: "string \<Rightarrow> int list script" where
  "cached_leaves_in poolKey = (\<lambda>w. (Done (loadLeaves poolKey (wd_cache w)), w))"

definition saveLeaves :: "string \<Rightarrow> int list \<Rightarrow> unit script" where
  "saveLeaves poolKey leaves = (\<lambda>w.
     let all = (case wd_cache w of Throws _ \<Rightarrow> JObj [] | Returns j \<Rightarrow> j);
         v = JArr (map (\<lambda>x. JStr (show_int x)) leaves)
     in case all of
          JObj fs \<Rightarrow> (Done (), w\<lparr>wd_cache := Returns (obj_set poolKey v (JObj fs))\<rparr>)
        | JArr _ \<Rightarrow> (Done (), w\<lparr>wd_cache := Returns all\<rparr>)
        | _ \<Rightarrow> (Threw ''Cannot create property'', w))"

subsection \<open>Bookkeeping\<close>

definition record_result :: "string \<Rightarrow> string \<Rightarrow> bool \<Rightarrow> unit script" where
  "record_result id_text name ok = (\<lambda>w. (Done (), w\<lparr>wd_results := wd_results w @ [(id_text, name, ok)]\<rparr>))"

definition expectReject :: "string \<Rightarrow> string \<Rightarrow> string \<Rightarrow> nat script \<Rightarrow> unit script" where
  "expectReject id_text name expectedCode fn =
     sc_catch (sc_then fn (record_result id_text name False))
       (\<lambda>msg. record_result id_text name (str_includes msg expectedCode))"

primrec fetch_fee_tries :: "cluster \<Rightarrow> nat \<Rightarrow> nat \<Rightarrow> nat \<Rightarrow> int option script" where
  "fetch_fee_tries C sig i 0 = sc_return None"
| "fetch_fee_tries C sig i (Suc tries) =
     sc_bind (sc_js (cl_meta_fee C sig i)) (\<lambda>fee.
       case fee of Some n \<Rightarrow> sc_return (Some n) | None \<Rightarrow> fetch_fee_tries C sig (i + 1) tries)"

definition fetchTxFee :: "cluster \<Rightarrow> nat \<Rightarrow> int option script" where
  "fetchTxFee C sig = fetch_fee_tries C sig 0 10"

subsection \<open>The fixture\<close>

record fixture =
  fx_pool :: pubkey
  fx_vault :: pubkey
  fx_treasury :: pubkey
  fx_relayer :: pubkey
  fx_recipient :: pubkey
  fx_signals :: "string list"
  fx_args :: withdraw_args
  fx_tree :: script_tree

text \<open>\<open>while (!pred(recipient.publicKey)) recipient = Keypair.generate()\<close>, which may not end.\<close>

definition draw_recipient :: "cluster \<Rightarrow> (pubkey \<Rightarrow> bool) \<Rightarrow> pubkey script" where
  "draw_recipient C pred = (\<lambda>w.
     case while_option (\<lambda>k. \<not> pred (cl_keypair C k)) Suc (wd_keys w) of
       None \<Rightarrow> (Runs, w)
     | Some k \<Rightarrow> (Done (cl_keypair C k), w\<lparr>wd_keys := k + 1\<rparr>))"

primrec fetch_logs :: "sig_log \<Rightarrow> nat \<Rightarrow> nat \<Rightarrow> event list option" where
  "fetch_logs s attempt 0 = None"
| "fetch_logs s attempt (Suc left) =
     (case sl_fetch s attempt of
        Returns (Some logs) \<Rightarrow> logs
      | _ \<Rightarrow> fetch_logs s (attempt + 1) left)"

fun deposit_found :: "event \<Rightarrow> (int \<times> int) list" where
  "deposit_found (DepositEvent leaf index t) = [(foldl be_step 0 leaf, rnd index)]"
| "deposit_found _ = []"

definition found_in :: "sig_log \<Rightarrow> (int \<times> int) list" where
  "found_in s = (if sl_err s then []
     else case fetch_logs s 0 5 of None \<Rightarrow> [] | Some evs \<Rightarrow> concat (map deposit_found evs))"

definition rebuild_from_logs :: "sig_log list \<Rightarrow> int list" where
  "rebuild_from_logs sigs = map fst (sort_key snd (concat (map found_in (rev sigs))))"

definition existing_leaves :: "cluster \<Rightarrow> pubkey \<Rightarrow> int list script" where
  "existing_leaves C poolPda =
     sc_bind (get_account C poolPda) (\<lambda>info.
     case info of None \<Rightarrow> sc_throw ''Cannot read properties of null''
     | Some a \<Rightarrow>
       if length (acc_data a) < VERIFY_OFF_NEXT_INDEX + 8 then sc_throw ''Attempt to access memory outside buffer bounds''
       else
       let nextIndex = rnd (le_int (subarray (acc_data a) VERIFY_OFF_NEXT_INDEX (VERIFY_OFF_NEXT_INDEX + 8))); poolKey = cl_base58 C poolPda
       in sc_bind (cached_leaves_in poolKey) (\<lambda>cached.
          if int (length cached) = nextIndex then sc_return cached
          else sc_bind (if nextIndex = 0 then sc_return []
                        else sc_bind (get_history C poolPda) (\<lambda>sigs. sc_return (rebuild_from_logs sigs))) (\<lambda>cached.
               if int (length cached) \<noteq> nextIndex then sc_throw ''Merkle rebuild mismatch''
               else sc_then (saveLeaves poolKey cached) (sc_return cached))))"

definition pool_treasury :: "cluster \<Rightarrow> pubkey \<Rightarrow> pubkey \<Rightarrow> pubkey script" where
  "pool_treasury C poolPda vaultPda =
     sc_bind (get_account C poolPda) (\<lambda>existing.
     case existing of
       Some a \<Rightarrow> sc_return (subarray (acc_data a) VERIFY_OFF_TREASURY (VERIFY_OFF_TREASURY + 32))
     | None \<Rightarrow>
         sc_then (transact C (cl_wallet C) 1
             (ProgramIx (InitializePool (cl_wallet C) poolPda vaultPda (cl_wallet C) VERIFY_DENOMINATION VERIFY_VERSION)))
           (sc_return (cl_wallet C)))"

definition insert_all :: "(int list \<Rightarrow> int) \<Rightarrow> int list \<Rightarrow> script_tree" where
  "insert_all H leaves = foldl (\<lambda>t l. fst (verify_insert (pair_hash H) t l)) (verify_tree_new (pair_hash H) 20) leaves"

definition deposit_leaf :: "cluster \<Rightarrow> pubkey \<Rightarrow> pubkey \<Rightarrow> int \<Rightarrow> unit script" where
  "deposit_leaf C poolPda vaultPda c =
     sc_then (transact C (cl_wallet C) 1 (ProgramIx (Deposit poolPda vaultPda (cl_wallet C) (script_bytes32 c)))) (sc_return ())"

definition proof_inputs :: "(int list \<Rightarrow> int) \<Rightarrow> int \<Rightarrow> int \<Rightarrow> (int \<times> nat) list \<times> int \<Rightarrow> int \<Rightarrow> int \<Rightarrow> circuit_inputs" where
  "proof_inputs H nullifier secret prf relayerField recipientField =
     \<lparr>ci_nullifierHash = show_int (H [nullifier]), ci_root = show_int (snd prf),
      ci_withdrawalCommitment = show_int (H [relayerField, VERIFY_FEE_MAX, recipientField]),
      ci_nullifier = show_int nullifier, ci_secret = show_int secret, ci_denomination = show_int VERIFY_DENOMINATION,
      ci_pathElements = map (\<lambda>(e, _). show_int e) (fst prf), ci_pathIndices = map (\<lambda>(_, i). show_int (int i)) (fst prf),
      ci_recipient = show_int recipientField, ci_relayerAddress = show_int relayerField, ci_relayerFeeMax = show_int VERIFY_FEE_MAX\<rparr>"

definition base_args :: "json \<times> string list \<Rightarrow> withdraw_args js" where
  "base_args proved =
     js_bind (script_proof_bytes (fst proved)) (\<lambda>pb.
     js_bind (bigint_at (snd proved) 0) (\<lambda>n. js_bind (bigint_at (snd proved) 1) (\<lambda>r. js_bind (bigint_at (snd proved) 2) (\<lambda>c.
     Returns \<lparr>wa_proof = pb, wa_nullifierHash = script_bytes32 n, wa_root = script_bytes32 r,
       wa_withdrawalCommitment = script_bytes32 c, wa_relayerFeeMax = VERIFY_FEE_MAX, wa_relayerFeeTaken = VERIFY_FEE_TAKEN\<rparr>))))"

text \<open>
  \<open>setupFixture\<close>. \<open>commitTo\<close> gives the address the proof commits to from the nullifier hash's bytes and the
  pool, or the drawn recipient's. The position of the new commitment is that of its first occurrence; it has
  just been pushed, so it is there.
\<close>

definition setupFixture :: "cluster \<Rightarrow> (pubkey \<Rightarrow> bool) \<Rightarrow> (bytes \<Rightarrow> pubkey \<Rightarrow> pubkey \<Rightarrow> pubkey js) \<Rightarrow> fixture script" where
  "setupFixture C recipientPredicate commitTo =
     (let H = cl_hash C in
      sc_bind (sc_js (script_findPoolPda C (cl_wallet C) VERIFY_DENOMINATION VERIFY_VERSION)) (\<lambda>poolPda.
      sc_bind (sc_js (script_findVaultPda C poolPda)) (\<lambda>vaultPda.
      sc_bind (pool_treasury C poolPda vaultPda) (\<lambda>treasury.
      sc_bind (new_keypair C) (\<lambda>relayer.
      sc_bind (draw_recipient C recipientPredicate) (\<lambda>recipient.
      sc_then (transact C (cl_wallet C) 1 (TransferIx (cl_wallet C) relayer 30000000)) (
      sc_bind (existing_leaves C poolPda) (\<lambda>cached.
      sc_bind (randomFieldElem C) (\<lambda>nullifier.
      sc_bind (randomFieldElem C) (\<lambda>secret.
      let commitment = H [nullifier, secret, VERIFY_DENOMINATION] in
      sc_bind (randomFieldElem C) (\<lambda>filler.
      sc_then (sc_each (deposit_leaf C poolPda vaultPda) [commitment, filler]) (
      let leaves = cached @ [commitment, filler]; tree = insert_all H leaves in
      sc_then (saveLeaves (cl_base58 C poolPda) leaves) (
      let prf = verify_proof tree (length (takeWhile (\<lambda>l. l \<noteq> commitment) (st_layers tree ! 0))) in
      sc_bind (sc_js (commitTo (script_bytes32 (H [nullifier])) poolPda recipient)) (\<lambda>committed.
      sc_bind (sc_js (cl_prove C (proof_inputs H nullifier secret prf (script_pubkeyToField H relayer) (script_pubkeyToField H committed)))) (\<lambda>proved.
      sc_bind (sc_js (base_args proved)) (\<lambda>args.
      sc_return \<lparr>fx_pool = poolPda, fx_vault = vaultPda, fx_treasury = treasury, fx_relayer = relayer, fx_recipient = recipient,
        fx_signals = snd proved, fx_args = args, fx_tree = tree\<rparr>))))))))))))))))"

definition withdrawCall :: "cluster \<Rightarrow> fixture \<Rightarrow> withdraw_args \<Rightarrow> (withdraw_accounts \<Rightarrow> withdraw_accounts) \<Rightarrow> nat script" where
  "withdrawCall C fx args accounts =
     sc_bind (sc_js (script_findNullifierPda C (fx_pool fx) (wa_nullifierHash args))) (\<lambda>nullifierPda.
     transact C (cl_wallet C) 2 (ProgramIx (Withdraw (accounts \<lparr>ac_pool = fx_pool fx, ac_vault = fx_vault fx,
       ac_nullifierPda = nullifierPda, ac_recipient = fx_recipient fx, ac_treasury = fx_treasury fx, ac_relayer = fx_relayer fx\<rparr>) args)))"

end
