(* ===== verification/ProgramMoney.thy ===== *)
theory ProgramMoney
  imports ProgramHandlers
begin

text \<open>
  What a withdrawal moves, programs/solnadocash/src/withdraw.rs: the canonical-input loop against the
  integers, the fee split, and the exact ledger after the payout. The program's own ledger check is shown
  never to fire.
\<close>

subsection \<open>Canonical inputs\<close>

lemma bytes_below_iff: "length b = length f \<Longrightarrow> bytes_below b f \<longleftrightarrow> be_int b < be_int f"
proof (induction b f rule: bytes_below.induct)
  case (1 b be f fr)
  have len: "length be = length fr" using "1.prems" by simp
  let ?M = "(256 :: int) ^ length fr"
  have lo: "be_int be < ?M" "be_int fr < ?M" "0 \<le> be_int be" "0 \<le> be_int fr"
    using be_int_bound [of be] be_int_bound [of fr] len by simp_all
  have less: "x * ?M + y < x' * ?M + z" if "x < x'" "y < ?M" "0 \<le> z" for x x' y z :: int
  proof -
    have "(x + 1) * ?M \<le> x' * ?M" using that(1) by (intro mult_right_mono) simp_all
    then show ?thesis using that(2,3) by (simp add: distrib_right)
  qed
  consider (below) "b < f" | (above) "f < b" | (same) "b = f" by (metis linorder_less_linear)
  then show ?case
  proof cases
    case below
    then have "uint b < uint f" by (simp add: word_less_def)
    then show ?thesis using less [of "uint b" "uint f"] lo below len by (simp add: be_int_Cons)
  next
    case above
    then have "uint f < uint b" by (simp add: word_less_def)
    then have "be_int (f # fr) < be_int (b # be)" using less [of "uint f" "uint b"] lo len by (simp add: be_int_Cons)
    then show ?thesis using above by simp
  next
    case same
    then show ?thesis using "1.IH" len by (simp add: be_int_Cons)
  qed
qed simp_all

lemma be_int_FR: "be_int BN254_FR = BN254_Fr"
  by (simp add: BN254_FR_def be_int_Cons BN254_Fr_def)

text \<open>The byte loop accepts exactly the canonical field elements.\<close>

lemma is_canonical_fr_iff: "length b = 32 \<Longrightarrow> is_canonical_fr b \<longleftrightarrow> in_field (be_int b)"
  using bytes_below_iff [of b BN254_FR] by (simp add: is_canonical_fr_def be_int_FR in_field_def) (simp add: BN254_FR_def)

subsection \<open>The fee split\<close>

lemma compute_fee_split_Gives:
  "compute_fee_split d taken fmax = Gives (t, r, u) \<longleftrightarrow>
     taken \<le> fmax \<and> fmax \<le> d div 50 \<and> t = d div 500 \<and> r = taken \<and> u = d - d div 500 - taken \<and> 0 < u \<and> d div 500 \<le> d"
  by (auto simp: compute_fee_split_def run_simps PROGRAM_FEE_DIVISOR_def checked_sub_def Let_def bind_eq_Some_conv split: if_splits)

text \<open>Every honest fee is accepted, and a pool that could be created leaves the user more than nothing.\<close>

lemma fee_split_total:
  assumes "0 < d" "0 \<le> taken" "taken \<le> fmax" "fmax \<le> d div 50"
  shows "compute_fee_split d taken fmax = Gives (d div 500, taken, d - d div 500 - taken)"
proof -
  have "d div 500 * 500 \<le> d" "d div 50 * 50 \<le> d" "0 \<le> d div 500" using assms(1) by (simp_all add: pos_imp_zdiv_nonneg_iff)
  then show ?thesis unfolding compute_fee_split_Gives using assms by linarith
qed

lemma route_Gives:
  "route_treasury_fee R t u bal len payee = Gives (t', u') \<Longrightarrow> t' + u' = t + u \<and> (t' = t \<or> t' = 0 \<and> \<not> payee \<and> \<not> rt_is_exempt R (bal + t) len)"
  by (auto simp: route_treasury_fee_def run_simps Let_def checked_add_def split: if_splits)

lemma route_cases:
  "route_treasury_fee R t u bal len payee = Fails e \<Longrightarrow> e = Code ArithmeticOverflow"
  by (auto simp: route_treasury_fee_def run_bind_def or_fail_def Let_def split: if_splits run.splits option.splits)

subsection \<open>The payout\<close>

lemma add_lamports_Gives:
  "add_lamports k n L = Gives L' \<longleftrightarrow> 0 \<le> lamports L k + n \<and> lamports L k + n < 2 ^ 64 \<and> L' = L(k := (L k)\<lparr>acc_lamports := lamports L k + n\<rparr>)"
  by (auto simp: add_lamports_def Let_def)

definition paid_ledger :: "withdraw_accounts \<Rightarrow> int \<Rightarrow> int \<Rightarrow> int \<Rightarrow> int \<Rightarrow> ledger \<Rightarrow> ledger" where
  "paid_ledger acs d t r u L =
     (\<lambda>k. (L k)\<lparr>acc_lamports := lamports L k - (if k = ac_vault acs then d else 0) + credit_owed_to acs t r u k\<rparr>)"

lemma distinctness_Gives:
  "distinctness acs = Gives x \<longleftrightarrow> ac_recipient acs \<noteq> ac_vault acs \<and> ac_treasury acs \<noteq> ac_vault acs \<and> ac_relayer acs \<noteq> ac_vault acs
     \<and> ac_treasury acs \<noteq> ac_nullifierPda acs \<and> ac_recipient acs \<noteq> ac_nullifierPda acs \<and> ac_relayer acs \<noteq> ac_nullifierPda acs
     \<and> ac_recipient acs \<noteq> ac_pool acs"
  by (auto simp: distinctness_def run_simps)

lemma credits_make_paid_ledger:
  assumes "add_lamports (ac_vault acs) (- d) L = Gives L1" "add_lamports (ac_treasury acs) t L1 = Gives L2"
    "add_lamports (ac_relayer acs) r L2 = Gives L3" "add_lamports (ac_recipient acs) u L3 = Gives L4"
  shows "L4 = paid_ledger acs d t r u L"
  using assms by (auto simp: add_lamports_Gives paid_ledger_def credit_owed_to_def lamports_def fun_eq_iff)

lemma credit_vault: "distinctness acs = Gives x \<Longrightarrow> credit_owed_to acs t r u (ac_vault acs) = 0"
  by (auto simp: distinctness_Gives credit_owed_to_def)

text \<open>Whatever succeeds moves exactly the amounts of the routed split, from a vault that stays at its floor.\<close>

lemma pay_out_Gives:
  assumes "pay_out R acs d t r u L = Gives (L', paid)"
  shows "\<exists>u'. paid + u' = t + u \<and> (paid = t \<or> paid = 0) \<and> L' = paid_ledger acs d paid r u' L
    \<and> d + rt_min_balance R (length (acc_data (L (ac_vault acs)))) \<le> lamports L (ac_vault acs)"
proof -
  obtain u' L1 L2 L3 where
    route: "route_treasury_fee R t u (lamports L (ac_treasury acs)) (length (acc_data (L (ac_treasury acs))))
        (ac_treasury acs = ac_relayer acs \<or> ac_treasury acs = ac_recipient acs) = Gives (paid, u')"
    and steps: "add_lamports (ac_vault acs) (- d) L = Gives L1" "add_lamports (ac_treasury acs) paid L1 = Gives L2"
      "add_lamports (ac_relayer acs) r L2 = Gives L3" "add_lamports (ac_recipient acs) u' L3 = Gives L'"
    and floor: "d + rt_min_balance R (length (acc_data (L (ac_vault acs)))) \<le> lamports L (ac_vault acs)"
    using assms by (auto simp: pay_out_def run_simps Let_def checked_add_def split: if_splits)
  show ?thesis using route_Gives [OF route] credits_make_paid_ledger [OF steps] floor by blast
qed

text \<open>
  The check of the ledger after the payout cannot fail once the accounts are distinct as the handler
  requires: also when two payees are one account, every account got what its roles are owed.
\<close>

lemma fee_invariant_never_violated:
  assumes "distinctness acs = Gives x"
  shows "pay_out R acs d t r u L \<noteq> Fails (Code FeeInvariantViolated)"
proof
  assume a: "pay_out R acs d t r u L = Fails (Code FeeInvariantViolated)"
  let ?route = "route_treasury_fee R t u (lamports L (ac_treasury acs)) (length (acc_data (L (ac_treasury acs))))
        (ac_treasury acs = ac_relayer acs \<or> ac_treasury acs = ac_recipient acs)"
  have add: "add_lamports k n M \<noteq> Fails (Code e)" for k n M e by (simp add: add_lamports_def Let_def)
  obtain t' u' where route: "?route = Gives (t', u')"
    using a route_cases [of R t u] by (cases ?route) (auto simp: pay_out_def run_bind_def or_fail_def guard_def Let_def split: if_splits option.splits)
  obtain L1 where 1: "add_lamports (ac_vault acs) (- d) L = Gives L1"
    using a route add by (cases "add_lamports (ac_vault acs) (- d) L") (auto simp: pay_out_def run_bind_def or_fail_def guard_def Let_def split: if_splits option.splits)
  obtain L2 where 2: "add_lamports (ac_treasury acs) t' L1 = Gives L2"
    using a route add 1 by (cases "add_lamports (ac_treasury acs) t' L1") (auto simp: pay_out_def run_bind_def or_fail_def guard_def Let_def split: if_splits option.splits)
  obtain L3 where 3: "add_lamports (ac_relayer acs) r L2 = Gives L3"
    using a route add 1 2 by (cases "add_lamports (ac_relayer acs) r L2") (auto simp: pay_out_def run_bind_def or_fail_def guard_def Let_def split: if_splits option.splits)
  obtain L4 where 4: "add_lamports (ac_recipient acs) u' L3 = Gives L4"
    using a route add 1 2 3 by (cases "add_lamports (ac_recipient acs) u' L3") (auto simp: pay_out_def run_bind_def or_fail_def guard_def Let_def split: if_splits option.splits)
  have p: "L4 = paid_ledger acs d t' r u' L" by (rule credits_make_paid_ledger [OF 1 2 3 4])
  have "lamports L4 (ac_vault acs) = lamports L (ac_vault acs) - d"
    by (simp add: p paid_ledger_def lamports_def credit_vault [OF assms])
  moreover have "lamports L4 k = lamports L k + credit_owed_to acs t' r u' k" if "k \<noteq> ac_vault acs" for k
    using that by (simp add: p paid_ledger_def lamports_def)
  ultimately show False
    using a route 1 2 3 4 assms
    by (auto simp: pay_out_def run_bind_def or_fail_def guard_def Let_def distinctness_Gives split: if_splits option.splits)
qed

end
