(* ===== verification/ProgramChain.thy ===== *)
theory ProgramChain
  imports ProgramMoney
begin

text \<open>
  A pool over its whole life: the ledger through any sequence of instructions of the program and of other
  transactions. What is proved, for every such history: the pool's bytes stand for the tree of exactly the
  deposits made, the vault holds exactly what deposits and withdrawals leave, no note is spent twice, and
  the watcher that reads this ledger stays silent.
\<close>

subsection \<open>What the program relies on\<close>

definition move :: "pubkey \<Rightarrow> pubkey \<Rightarrow> int \<Rightarrow> ledger \<Rightarrow> ledger" where
  "move a b n L =
     (let L1 = L(a := (L a)\<lparr>acc_lamports := lamports L a - n\<rparr>) in L1(b := (L1 b)\<lparr>acc_lamports := lamports L1 b + n\<rparr>))"

definition fresh :: "runtime \<Rightarrow> ledger \<Rightarrow> pubkey \<Rightarrow> bool" where
  "fresh R L k \<longleftrightarrow> acc_owner (L k) = rt_system R \<and> acc_data (L k) = []"

text \<open>
  The documented effects of the system program's instructions and of Anchor's account creation: lamports
  leave only an account that the system program owns, and only a fresh account is given data or an owner.
\<close>

definition transfer_law :: "runtime \<Rightarrow> bool" where
  "transfer_law R \<longleftrightarrow> (\<forall>a b n L L'. rt_sys R (SysTransfer a b n) L = Some L' \<longrightarrow>
     acc_owner (L a) = rt_system R \<and> n \<le> lamports L a \<and> L' = move a b n L)"

definition create_law :: "runtime \<Rightarrow> bool" where
  "create_law R \<longleftrightarrow> (\<forall>a k n space own L L'. rt_sys R (SysCreate a k n space own) L = Some L' \<longrightarrow>
     a \<noteq> k \<and> acc_owner (L a) = rt_system R \<and> fresh R L k \<and> n \<le> lamports L a
     \<and> L' = (move a k n L)(k := \<lparr>acc_owner = own, acc_data = replicate space 0, acc_lamports = lamports L k + n\<rparr>))"

definition allocate_law :: "runtime \<Rightarrow> bool" where
  "allocate_law R \<longleftrightarrow> (\<forall>k space L L'. rt_sys R (SysAllocate k space) L = Some L' \<longrightarrow>
     fresh R L k \<and> L' = set_data L k (replicate space 0))"

definition assign_law :: "runtime \<Rightarrow> bool" where
  "assign_law R \<longleftrightarrow> (\<forall>k own L L'. rt_sys R (SysAssign k own) L = Some L' \<longrightarrow>
     acc_owner (L k) = rt_system R \<and> L' = L(k := (L k)\<lparr>acc_owner := own\<rparr>))"

definition init_law :: "runtime \<Rightarrow> bool" where
  "init_law R \<longleftrightarrow> (\<forall>a k space L L'. rt_sys R (AnchorInit a k space) L = Some L' \<longrightarrow>
     a \<noteq> k \<and> acc_owner (L a) = rt_system R \<and> fresh R L k \<and> rt_min_balance R space \<le> lamports L' k
     \<and> (\<exists>c\<ge>0. L' = (move a k c L)(k := \<lparr>acc_owner = rt_program R, acc_data = replicate space 0, acc_lamports = lamports L k + c\<rparr>)))"

definition system_laws :: "runtime \<Rightarrow> bool" where
  "system_laws R \<longleftrightarrow> rt_system R \<noteq> rt_program R \<and> transfer_law R \<and> create_law R \<and> allocate_law R \<and> assign_law R \<and> init_law R"

text \<open>
  Program addresses: the canonical address of seeds is the one created from them with the canonical bump.
  Rent is not negative, and the prefixes Anchor puts before account data have eight bytes and tell pools
  from other accounts.
\<close>

definition address_laws :: "runtime \<Rightarrow> bool" where
  "address_laws R \<longleftrightarrow>
     (\<forall>s k b. rt_find_pda R s = Some (k, b) \<longrightarrow> rt_create_pda R (s @ [[b]]) = Some k)
     \<and> (\<forall>n. 0 \<le> rt_min_balance R n) \<and> length (rt_vault_disc R) = 8 \<and> length (rt_nullifier_disc R) = 8
     \<and> rt_vault_disc R \<noteq> POOL_DISCRIMINATOR \<and> rt_nullifier_disc R \<noteq> POOL_DISCRIMINATOR"

definition runtime_laws :: "(int list \<Rightarrow> int) \<Rightarrow> runtime \<Rightarrow> bool" where
  "runtime_laws H R \<longleftrightarrow> poseidon_laws H (rt_hashv R) \<and> zeros_generated H \<and> system_laws R \<and> address_laws R"

lemma move_simps:
  "acc_owner (move a b n L k) = acc_owner (L k)" "acc_data (move a b n L k) = acc_data (L k)"
  "a \<noteq> k \<Longrightarrow> b \<noteq> k \<Longrightarrow> move a b n L k = L k"
  "a \<noteq> b \<Longrightarrow> lamports (move a b n L) b = lamports L b + n"
  "a \<noteq> k \<Longrightarrow> 0 \<le> n \<Longrightarrow> lamports L k \<le> lamports (move a b n L) k"
  by (auto simp: move_def Let_def lamports_def)

lemma fresh_not_program: "system_laws R \<Longrightarrow> fresh R L k \<Longrightarrow> acc_owner (L k) \<noteq> rt_program R"
  by (simp add: system_laws_def fresh_def)

subsection \<open>Histories\<close>

definition spent :: "runtime \<Rightarrow> pubkey \<Rightarrow> ledger \<Rightarrow> bytes \<Rightarrow> bool" where
  "spent R K L h \<longleftrightarrow> (\<exists>N b. rt_find_pda R (nullifier_seeds K h) = Some (N, b)
     \<and> acc_owner (L N) = rt_program R \<and> length (acc_data (L N)) = 80)"

text \<open>The accounts of a pool: its state, its vault and the nullifier accounts of the hashes \<open>hs\<close>.\<close>

definition pool_accounts :: "runtime \<Rightarrow> pubkey \<Rightarrow> bytes list \<Rightarrow> pubkey set" where
  "pool_accounts R K hs = {K} \<union> {V. \<exists>b. rt_find_pda R (vault_seeds K) = Some (V, b)}
     \<union> {N. \<exists>h\<in>set hs. \<exists>b. rt_find_pda R (nullifier_seeds K h) = Some (N, b)}"

text \<open>
  What transactions outside the pool may do to its accounts once the program owns them: add lamports. The
  runtime lets only the owner of an account take lamports from it or write to it.
\<close>

definition outside :: "runtime \<Rightarrow> pubkey \<Rightarrow> bytes list \<Rightarrow> ledger \<Rightarrow> ledger \<Rightarrow> bool" where
  "outside R K hs L L' \<longleftrightarrow> (\<forall>k\<in>pool_accounts R K hs. acc_owner (L k) = rt_program R \<longrightarrow>
     acc_owner (L' k) = rt_program R \<and> acc_data (L' k) = acc_data (L k) \<and> lamports L k \<le> lamports L' k)"

text \<open>
  The life of the pool at address \<open>K\<close>: the ledger, the commitments deposited, the nullifier hashes spent,
  both oldest first, and the lamports that came to its vault otherwise.
\<close>

inductive history :: "runtime \<Rightarrow> pubkey \<Rightarrow> ledger \<Rightarrow> bytes list \<Rightarrow> bytes list \<Rightarrow> int \<Rightarrow> bool" for R K where
  created: "execute R (InitializePool admin K V treasury d v) L = Gives (L', ev) \<Longrightarrow>
      length admin = 32 \<Longrightarrow> length treasury = 32 \<Longrightarrow> is_u64 d \<Longrightarrow>
      history R K L' [] [] (lamports L' V - rt_min_balance R 8)"
| deposited: "history R K L cs hs gift \<Longrightarrow> execute R (Deposit K V depositor c) L = Gives (L', ev) \<Longrightarrow> length c = 32 \<Longrightarrow>
      history R K L' (cs @ [c]) hs gift"
| withdrawn: "history R K L cs hs gift \<Longrightarrow> execute R (Withdraw acs args) L = Gives (L', ev) \<Longrightarrow> ac_pool acs = K \<Longrightarrow>
      args_typed args \<Longrightarrow> history R K L' cs (hs @ [wa_nullifierHash args]) gift"
| paused: "history R K L cs hs gift \<Longrightarrow> execute R (PausePool admin K) L = Gives (L', ev) \<Longrightarrow> history R K L' cs hs gift"
| unpaused: "history R K L cs hs gift \<Longrightarrow> execute R (UnpausePool admin K) L = Gives (L', ev) \<Longrightarrow> history R K L' cs hs gift"
| other: "history R K L cs hs gift \<Longrightarrow> outside R K hs L L' \<Longrightarrow> rt_find_pda R (vault_seeds K) = Some (V, b) \<Longrightarrow>
      history R K L' cs hs (gift + (lamports L' V - lamports L V))"

definition pool_address :: "runtime \<Rightarrow> pool \<Rightarrow> pubkey option" where
  "pool_address R p = rt_create_pda R (pool_seeds (pl_admin p) (pl_mint p) (pl_denomination p) (pl_version p) @ [[pl_bump p]])"

definition live :: "(int list \<Rightarrow> int) \<Rightarrow> runtime \<Rightarrow> pubkey \<Rightarrow> ledger \<Rightarrow> bytes list \<Rightarrow> bytes list \<Rightarrow> int \<Rightarrow> pool \<Rightarrow> pubkey \<Rightarrow> bool" where
  "live H R K L cs hs gift p V \<longleftrightarrow>
     acc_owner (L K) = rt_program R \<and> acc_data (L K) = pool_bytes p \<and> pool_wf p \<and> pool_tree H p (map be_int cs)
     \<and> pool_address R p = Some K \<and> 500 \<le> pl_denomination p \<and> length cs \<le> 950000
     \<and> rt_find_pda R (vault_seeds K) = Some (V, pl_vault_bump p) \<and> acc_owner (L V) = rt_program R \<and> acc_data (L V) = rt_vault_disc R
     \<and> lamports L V = rt_min_balance R 8 + (int (length cs) - int (length hs)) * pl_denomination p + gift
     \<and> 0 \<le> gift \<and> rt_min_balance R 8 \<le> lamports L V \<and> distinct hs \<and> list_all (spent R K L) hs"

subsection \<open>Steps\<close>

lemma ring_lengths:
  assumes "ring_inv H ring ls"
  shows "list_all (\<lambda>b. length b = 32) ring"
proof -
  have "length (ring ! i) = 32" if i: "i < 256" for i
  proof (cases "length ls < i")
    case True
    then show ?thesis using assms i by (simp add: ring_inv_def)
  next
    case False
    define k where "k = length ls - (length ls - i) mod 256"
    have d: "length ls - i = 256 * ((length ls - i) div 256) + (length ls - i) mod 256" by simp
    have m: "(length ls - i) mod 256 \<le> length ls - i" "(length ls - i) mod 256 < 256" by simp_all
    have "k = i + 256 * ((length ls - i) div 256)" using False d m(1) unfolding k_def by linarith
    then have "k mod 256 = i" using i by simp
    moreover have "k \<le> length ls" "length ls < k + 256" using m False unfolding k_def by linarith+
    ultimately show ?thesis using assms unfolding ring_inv_def by (metis length_be_bytes)
  qed
  then show ?thesis using assms by (simp add: list_all_length ring_inv_def)
qed

lemma inserted_fields:
  assumes "inserted p p'"
  shows "pl_admin p' = pl_admin p" "pl_mint p' = pl_mint p" "pl_treasury p' = pl_treasury p" "pl_pad0 p' = pl_pad0 p"
    "pl_pad1 p' = pl_pad1 p" "pl_denomination p' = pl_denomination p" "pl_vault_bump p' = pl_vault_bump p"
    "pl_is_paused p' = pl_is_paused p" "pl_version p' = pl_version p" "pl_bump p' = pl_bump p"
  by (subst assms [unfolded inserted_def], simp)+

lemma inserted_wf:
  assumes "pool_wf p" "inserted p p'" "pool_tree H p' ls" "length ls \<le> 950000"
  shows "pool_wf p'"
proof -
  have f: "length (pl_filled_subtrees p') = 20" "length (pl_root_history p') = 256"
      "list_all (\<lambda>b. length b = 32) (pl_filled_subtrees p')" "list_all (\<lambda>b. length b = 32) (pl_root_history p')"
    using assms(3) ring_lengths by (auto simp: pool_tree_def incremental_inv_def pool_abs_def ring_inv_def)
  have n: "pl_next_index p' = int (length ls)" "pl_current_root_index p' = int (length ls mod 256)"
    using pool_tree_count [OF assms(3)] assms(3) by (simp_all add: pool_tree_def)
  have "int (length ls mod 256) < 256" by simp
  then have u: "is_u64 (pl_next_index p')" "is_u64 (pl_current_root_index p')"
    unfolding n is_u64_def using assms(4) by simp_all
  note s = inserted_fields [OF assms(2)]
  show ?thesis using assms(1) f u unfolding pool_wf_def s by simp
qed

lemma load_live:
  assumes "acc_owner (L K) = rt_program R" "acc_data (L K) = pool_bytes p" "pool_wf p"
  shows "load_pool R L K = Gives p" and "write_pool L K q = set_data L K (pool_bytes q)"
  using assms by (simp_all add: load_pool_def write_pool_def length_pool_bytes pool_bytes_discriminator pool_of_pool_bytes)

lemma live_vault:
  assumes "live H R K L cs hs gift p V" "address_laws R"
  shows "V \<noteq> K" "acc_data (L V) \<noteq> []" "acc_data (L K) \<noteq> []" "length (acc_data (L V)) = 8" "length (acc_data (L K)) = 8976"
proof -
  have "length (acc_data (L V)) = 8" "length (acc_data (L K)) = 8976"
    using assms by (simp_all add: live_def address_laws_def length_pool_bytes POOL_ACCOUNT_LEN_def)
  then show "V \<noteq> K" "acc_data (L V) \<noteq> []" "acc_data (L K) \<noteq> []" "length (acc_data (L V)) = 8" "length (acc_data (L K)) = 8976" by auto
qed

lemma pool_bytes_nonempty [simp]: "pool_bytes p \<noteq> []"
  by (simp add: pool_bytes_def POOL_DISCRIMINATOR_def)

lemma spent_kept:
  assumes "list_all (spent R K L) hs"
    and "\<And>k. acc_owner (L k) = rt_program R \<Longrightarrow> length (acc_data (L k)) = 80 \<Longrightarrow> acc_owner (L' k) = rt_program R \<and> length (acc_data (L' k)) = 80"
  shows "list_all (spent R K L') hs"
  using assms unfolding spent_def list_all_iff by metis

text \<open>A change of the pool's own bytes.\<close>

lemma live_set_pool:
  assumes l: "live H R K L cs hs gift p V" and a: "address_laws R"
    and q: "pool_wf q" "pl_denomination q = pl_denomination p" "pl_vault_bump q = pl_vault_bump p" "pool_tree H q (map be_int cs)"
    and ad: "pool_address R q = pool_address R p"
  shows "live H R K (set_data L K (pool_bytes q)) cs hs gift q V"
proof -
  have K: "acc_owner (L K) = rt_program R" "list_all (spent R K L) hs" using l by (simp_all add: live_def)
  have "list_all (spent R K (set_data L K (pool_bytes q))) hs"
    by (rule spent_kept [OF K(2)]) (use live_vault(5) [OF l a] in \<open>auto simp: set_data_def K(1)\<close>)
  then show ?thesis using l live_vault(1) [OF l a] q ad by (simp add: live_def set_data_def lamports_def)
qed

lemma system_transfer:
  assumes "system_laws R" "sys R (SysTransfer a b n) L = Gives L'"
  shows "acc_owner (L a) = rt_system R \<and> n \<le> lamports L a \<and> L' = move a b n L"
  using assms by (auto simp: system_laws_def transfer_law_def sys_def)

lemma system_create:
  assumes "system_laws R" "sys R (SysCreate a k n space own) L = Gives L'"
  shows "a \<noteq> k \<and> acc_owner (L a) = rt_system R \<and> fresh R L k \<and> n \<le> lamports L a
    \<and> L' = (move a k n L)(k := \<lparr>acc_owner = own, acc_data = replicate space 0, acc_lamports = lamports L k + n\<rparr>)"
  using assms by (auto simp: system_laws_def create_law_def sys_def)

lemma system_allocate:
  assumes "system_laws R" "sys R (SysAllocate k space) L = Gives L'"
  shows "fresh R L k \<and> L' = set_data L k (replicate space 0)"
  using assms by (auto simp: system_laws_def allocate_law_def sys_def)

lemma system_assign:
  assumes "system_laws R" "sys R (SysAssign k own) L = Gives L'"
  shows "acc_owner (L k) = rt_system R \<and> L' = L(k := (L k)\<lparr>acc_owner := own\<rparr>)"
  using assms by (auto simp: system_laws_def assign_law_def sys_def)

lemma system_init:
  assumes "system_laws R" "sys R (AnchorInit a k space) L = Gives L'"
  shows "a \<noteq> k \<and> acc_owner (L a) = rt_system R \<and> fresh R L k \<and> rt_min_balance R space \<le> lamports L' k
    \<and> (\<exists>c\<ge>0. L' = (move a k c L)(k := \<lparr>acc_owner = rt_program R, acc_data = replicate space 0, acc_lamports = lamports L k + c\<rparr>))"
proof -
  have "rt_sys R (AnchorInit a k space) L = Some L'" using assms(2) by (simp add: sys_def)
  moreover have "init_law R" using assms(1) by (simp add: system_laws_def)
  ultimately show ?thesis unfolding init_law_def by blast
qed

lemma live_created:
  assumes H: "runtime_laws H R" and x: "execute R (InitializePool admin K V treasury d v) L = Gives (L', ev)"
    and t: "length admin = 32" "length treasury = 32" "is_u64 d"
  shows "\<exists>p. live H R K L' [] [] (lamports L' V - rt_min_balance R 8) p V"
proof -
  have P: "poseidon_laws H (rt_hashv R)" "zeros_generated H" and S: "system_laws R" and A: "address_laws R"
    using H by (simp_all add: runtime_laws_def)
  obtain pb vb L1 L2 p where pda0: "rt_find_pda R (pool_seeds admin (replicate 32 0) d v) = Some (K, pb)"
      and pda: "rt_find_pda R (vault_seeds K) = Some (V, vb)"
      and s: "sys R (AnchorInit admin K (8 + POOL_SIZE)) L = Gives L1" "sys R (AnchorInit admin V 8) L1 = Gives L2"
      and p: "initialize_handler R admin treasury d v pb vb = Gives p"
      and L': "L' = set_data (set_data L2 K (pool_bytes p)) V (rt_vault_disc R)"
    using x by (auto simp: program_initialize_def run_simps split: if_splits)
  have s1: "admin \<noteq> K" "acc_owner (L1 K) = rt_program R"
    using system_init [OF S s(1)] by (blast, metis fun_upd_same account_info.select_convs(1))
  have s2: "admin \<noteq> V" "fresh R L1 V" "rt_min_balance R 8 \<le> lamports L2 V" "acc_owner (L2 V) = rt_program R"
    using system_init [OF S s(2)] by (blast, blast, blast, metis fun_upd_same account_info.select_convs(1))
  have VK: "V \<noteq> K" using s1(2) fresh_not_program [OF S s2(2)] by auto
  have own: "acc_owner (L2 K) = rt_program R"
  proof -
    obtain c where "L2 = (move admin V c L1)(V := \<lparr>acc_owner = rt_program R, acc_data = replicate 8 0, acc_lamports = lamports L1 V + c\<rparr>)"
      using system_init [OF S s(2)] by blast
    then show ?thesis using VK s1(2) by (simp add: move_simps)
  qed
  let ?h = "pair_hash H"
  have z: "ZEROS ! 19 = be_bytes 32 (zero_node ?h 19)" by (rule ZEROS_nth [OF P(2,1)]) simp
  have root: "rt_hashv R [ZEROS ! 19, ZEROS ! 19] = Some (be_bytes 32 (zero_node ?h 20))"
  proof -
    have e: "(20 :: nat) = Suc 19" by simp
    have "zero_node ?h 20 = H [zero_node ?h 19, zero_node ?h 19]" unfolding e by (rule zero_node.simps(2))
    then show ?thesis
      using hashv_field [OF P(1), of "[zero_node ?h 19, zero_node ?h 19]"] zero_node_field [OF P(1), of 19] by (simp add: z)
  qed
  have d: "500 \<le> d" using p by (auto simp: initialize_handler_def run_simps Let_def)
  have pe: "p = \<lparr>pl_admin = admin, pl_mint = replicate 32 0, pl_denomination = d, pl_mint_decimals = 9, pl_pad0 = replicate 7 0,
        pl_next_index = 0, pl_treasury = treasury, pl_version = v, pl_bump = pb, pl_vault_bump = vb,
        pl_is_paused = 0, pl_pad1 = replicate 4 0, pl_current_root_index = 0,
        pl_root_history = (replicate 256 (replicate 32 0))[0 := be_bytes 32 (zero_node ?h 20)], pl_filled_subtrees = ZEROS\<rparr>"
    using p root by (auto simp: initialize_handler_def run_simps Let_def TREE_DEPTH_def ROOT_HISTORY_SIZE_def)
  have zl: "length ZEROS = 20" "list_all (\<lambda>b. length b = 32) ZEROS" by (simp_all add: ZEROS_def zero_values_def)
  have rl: "list_all (\<lambda>b. length b = 32) ((replicate 256 (replicate 32 0))[0 := be_bytes 32 (zero_node ?h 20)])"
    by (auto simp: list_all_length nth_list_update)
  have wf: "pool_wf p" using t zl rl by (simp add: pe pool_wf_def is_u64_def)
  have "spec_root ?h 20 [] = zero_node ?h 20" using spec_node_empty [of "[]" 0 20 ?h] by (simp add: spec_root_def)
  then have tree: "pool_tree H p []"
    using zl by (simp add: pool_tree_def pe incremental_inv_def pool_abs_def ring_inv_def del: upt_Suc)
  have den: "pl_denomination p = d" "pl_vault_bump p = vb" by (simp_all add: pe)
  have ad: "pool_address R p = Some K" using A pda0 by (simp add: pool_address_def pe address_laws_def)
  show ?thesis
    using VK own s2 wf tree pda d ad by (intro exI [of _ p]) (simp add: live_def L' set_data_def lamports_def den)
qed

lemma live_deposited:
  assumes H: "runtime_laws H R" and l: "live H R K L cs hs gift p V"
    and x: "execute R (Deposit K V' depositor c) L = Gives (L', ev)" and c: "length c = 32"
  shows "\<exists>p'. live H R K L' (cs @ [c]) hs gift p' V"
proof -
  have P: "poseidon_laws H (rt_hashv R)" "zeros_generated H" and S: "system_laws R" and A: "address_laws R"
    using H by (simp_all add: runtime_laws_def)
  note lv = live_vault [OF l A]
  have lp: "acc_owner (L K) = rt_program R" "acc_data (L K) = pool_bytes p" "pool_wf p" "pool_tree H p (map be_int cs)"
    using l by (simp_all add: live_def)
  have vp: "rt_find_pda R (vault_seeds K) = Some (V, pl_vault_bump p)" using l by (simp add: live_def)
  obtain rt p' where V: "V' = V" and ins: "pool_insert (rt_hashv R) p c = Gives (rt, p')"
      and s: "sys R (SysTransfer depositor V (pl_denomination p)) (set_data L K (pool_bytes p')) = Gives L'"
    using x unfolding execute.simps program_deposit_def load_live(1) [of L K R, OF lp(1-3)] load_live(2) [of L K R, OF lp(1-3)] vp
    by (auto simp: run_simps or_fail_def Let_def split: if_splits)
  have ok: "pool_tree H p' (map be_int (cs @ [c])) \<and> inserted p p' \<and> length cs < 950000"
    using pool_insert_cases [OF P lp(4) c] ins by (auto split: if_splits)
  have wf: "pool_wf p'" using inserted_wf [OF lp(3), of p' H "map be_int (cs @ [c])"] ok by simp
  have den: "pl_denomination p' = pl_denomination p" "pl_vault_bump p' = pl_vault_bump p"
    using ok inserted_fields by blast+
  have ad: "pool_address R p' = pool_address R p"
    using ok inserted_fields [of p p'] by (simp add: pool_address_def)
  let ?L1 = "set_data L K (pool_bytes p')"
  have tr: "acc_owner (?L1 depositor) = rt_system R" "L' = move depositor V (pl_denomination p) ?L1"
    using system_transfer [OF S s] by simp_all
  have own: "acc_owner (L K) = rt_program R" "acc_owner (L V) = rt_program R" using l by (simp_all add: live_def)
  have ne: "depositor \<noteq> V" "depositor \<noteq> K"
    using tr(1) own S by (auto simp: set_data_def system_laws_def split: if_splits)
  have sp: "list_all (spent R K L') hs"
  proof (rule spent_kept)
    show "list_all (spent R K L) hs" using l by (simp add: live_def)
    show "acc_owner (L' k) = rt_program R \<and> length (acc_data (L' k)) = 80" if "acc_owner (L k) = rt_program R" "length (acc_data (L k)) = 80" for k
      using that own(1) lv(5) by (auto simp: tr(2) move_simps set_data_def)
  qed
  have lam: "lamports L' V = lamports L V + pl_denomination p"
    using ne lv(1) by (simp add: tr(2) move_simps) (simp add: set_data_def lamports_def)
  show ?thesis
    using l ok wf den ad sp lam lv(1)
    by (intro exI [of _ p']) (simp add: live_def tr(2) move_simps set_data_def algebra_simps)
qed

text \<open>
  Creating the nullifier account, on both of its paths: the account was fresh, the relayer tops it up, and
  it is then a program account of 80 bytes; no other account changes but the relayer's balance.
\<close>

definition top_up :: "runtime \<Rightarrow> ledger \<Rightarrow> pubkey \<Rightarrow> int" where
  "top_up R L k = (if lamports L k < rt_min_balance R 80 then rt_min_balance R 80 - lamports L k else 0)"

lemma create_nullifier_Gives:
  assumes A: "address_laws R" and S: "system_laws R" and n: "distinctness acs = Gives x" and x: "create_nullifier R acs L = Gives L'"
    and e: "acc_data (L (ac_nullifierPda acs)) = []"
  defines "paid_in \<equiv> top_up R L (ac_nullifierPda acs)"
  shows "fresh R L (ac_nullifierPda acs)
    \<and> L' = (move (ac_relayer acs) (ac_nullifierPda acs) paid_in L)(ac_nullifierPda acs :=
        \<lparr>acc_owner = rt_program R, acc_data = replicate 80 0, acc_lamports = lamports L (ac_nullifierPda acs) + paid_in\<rparr>)
    \<and> (paid_in = 0 \<or> acc_owner (L (ac_relayer acs)) = rt_system R)"
proof -
  let ?N = "ac_nullifierPda acs" and ?r = "ac_relayer acs" and ?need = "rt_min_balance R 80"
  have rN: "?r \<noteq> ?N" using n by (simp add: distinctness_Gives)
  have space: "8 + NULLIFIER_SIZE = 80" by (simp add: NULLIFIER_SIZE_def)
  show ?thesis
  proof (cases "lamports L ?N = 0")
    case True
    then have "sys R (SysCreate ?r ?N ?need 80 (rt_program R)) L = Gives L'"
      using x by (simp add: create_nullifier_def space)
    moreover have "0 \<le> ?need" using A by (simp add: address_laws_def)
    then have "paid_in = ?need" using True by (auto simp: paid_in_def top_up_def)
    ultimately show ?thesis using system_create [OF S] by simp
  next
    case False
    obtain L1 L2 where own: "acc_owner (L ?N) = rt_system R"
        and 1: "(if lamports L ?N < ?need then sys R (SysTransfer ?r ?N (?need - lamports L ?N)) L else Gives L) = Gives L1"
        and 2: "sys R (SysAllocate ?N 80) L1 = Gives L2" and 3: "sys R (SysAssign ?N (rt_program R)) L2 = Gives L'"
      using x False by (auto simp: create_nullifier_def space run_simps Let_def)
    have m0: "move ?r ?N 0 L = L" by (auto simp: move_def Let_def lamports_def fun_eq_iff)
    have L1: "L1 = move ?r ?N paid_in L \<and> (paid_in = 0 \<or> acc_owner (L ?r) = rt_system R)"
      using 1 system_transfer [OF S, of ?r ?N "?need - lamports L ?N" L L1] by (auto simp: paid_in_def top_up_def m0 split: if_splits)
    have L2: "L2 = set_data L1 ?N (replicate 80 0)" using system_allocate [OF S 2] by simp
    have L': "L' = L2(?N := (L2 ?N)\<lparr>acc_owner := rt_program R\<rparr>)" using system_assign [OF S 3] by simp
    have "lamports L1 ?N = lamports L ?N + paid_in" using L1 rN by (simp add: move_simps)
    then have "L' ?N = \<lparr>acc_owner = rt_program R, acc_data = replicate 80 0, acc_lamports = lamports L ?N + paid_in\<rparr>"
      by (simp add: L' L2 set_data_def lamports_def)
    then have "L' = L1(?N := \<lparr>acc_owner = rt_program R, acc_data = replicate 80 0, acc_lamports = lamports L ?N + paid_in\<rparr>)"
      by (auto simp: L' L2 set_data_def fun_eq_iff)
    then show ?thesis using L1 own e by (auto simp: fresh_def)
  qed
qed

text \<open>What a successful withdrawal has established, and the ledgers it went through.\<close>

lemma process_withdraw_Gives:
  assumes "process_withdraw R acs sgn_ok sp args L = Gives (L', ev)"
  obtains T b d t u L1 L2 paid x where "canonical_inputs args = Gives ()" "pool_checks R L acs sp = Gives (T, b, d)" "sgn_ok"
    "compute_fee_split d (wa_relayerFeeTaken args) (wa_relayerFeeMax args) = Gives (t, x, u)" "distinctness acs = Gives ()"
    "account_checks R L acs args T b = Gives ()" "proof_checks R acs args = Gives ()" "create_nullifier R acs L = Gives L1"
    "write_nullifier R acs args L1 = Gives L2" "pay_out R acs d t (wa_relayerFeeTaken args) u L2 = Gives (L', paid)"
    "ev = [WithdrawalEvent (wa_nullifierHash args) (ac_relayer acs) (wa_relayerFeeTaken args) paid]"
  using assms by (auto simp: process_withdraw_def run_simps)

lemma account_checks_Gives:
  "account_checks R L acs args T b = Gives x \<longleftrightarrow>
     rt_create_pda R (vault_seeds (ac_pool acs) @ [[b]]) = Some (ac_vault acs) \<and> acc_owner (L (ac_vault acs)) = rt_program R
     \<and> ac_treasury acs = T \<and> wa_root args \<noteq> EMPTY_TREE_ROOT
     \<and> is_known_root_in_account (L (ac_pool acs)) (wa_root args) = Gives True \<and> acc_data (L (ac_nullifierPda acs)) = []
     \<and> (\<exists>cb. rt_find_pda R (nullifier_seeds (ac_pool acs) (wa_nullifierHash args)) = Some (ac_nullifierPda acs, cb))"
  by (auto simp: account_checks_def run_simps)

lemma pool_checks_live:
  assumes "pool_wf p" "acc_owner (L (ac_pool acs)) = rt_program R" "acc_data (L (ac_pool acs)) = pool_bytes p" "sp = rt_system R"
  shows "pool_checks R L acs sp = Gives (pl_treasury p, pl_vault_bump p, pl_denomination p)"
proof -
  have d: "drop 8 (pool_bytes p) = pool_head p @ concat (pl_root_history p) @ concat (pl_filled_subtrees p)"
    by (simp add: pool_bytes_def)
  have h: "length (pool_head p) = 136" by (rule length_pool_head [OF assms(1)])
  have "is_u64 (pl_denomination p)" using assms(1) by (simp add: pool_wf_def)
  then show ?thesis
    using assms h length_pool_bytes [OF assms(1)]
    by (simp add: pool_checks_def run_bind_def guard_def Let_def pool_bytes_discriminator d subarray_prefix nth_append head_fields POOL_ACCOUNT_LEN_def)
qed

lemma write_nullifier_Gives:
  assumes "write_nullifier R acs args L = Gives L'" "length (rt_nullifier_disc R) = 8"
  shows "\<exists>d. length d = length (acc_data (L (ac_nullifierPda acs))) \<and> take 8 d = rt_nullifier_disc R
    \<and> L' = set_data L (ac_nullifierPda acs) d"
proof -
  let ?w = "nullifier_account R (ac_pool acs) (wa_nullifierHash args)" and ?o = "acc_data (L (ac_nullifierPda acs))"
  have "length ?w \<le> length ?o" "L' = set_data L (ac_nullifierPda acs) (?w @ drop (length ?w) ?o)"
    using assms(1) by (auto simp: write_nullifier_def Let_def split: if_splits)
  moreover have "take 8 (?w @ drop (length ?w) ?o) = rt_nullifier_disc R" using assms(2) by (simp add: nullifier_account_def)
  ultimately show ?thesis by (intro exI [of _ "?w @ drop (length ?w) ?o"]) simp
qed

lemma live_withdrawn:
  assumes H: "runtime_laws H R" and l: "live H R K L cs hs gift p V"
    and x: "execute R (Withdraw acs args) L = Gives (L', ev)" and K: "ac_pool acs = K"
  shows "live H R K L' cs (hs @ [wa_nullifierHash args]) gift p V"
proof -
  have S: "system_laws R" and A: "address_laws R" using H by (simp_all add: runtime_laws_def)
  have lp: "acc_owner (L K) = rt_program R" "acc_data (L K) = pool_bytes p" "pool_wf p"
      "rt_find_pda R (vault_seeds K) = Some (V, pl_vault_bump p)" "acc_owner (L V) = rt_program R" "list_all (spent R K L) hs"
    using l by (simp_all add: live_def)
  note lv = live_vault [OF l A]
  let ?N = "ac_nullifierPda acs" and ?h = "wa_nullifierHash args" and ?D = "pl_denomination p"
  have pw: "process_withdraw R acs True (rt_system R) args L = Gives (L', ev)" using x by simp
  obtain T b d t u L1 L2 paid y where w: "pool_checks R L acs (rt_system R) = Gives (T, b, d)" "distinctness acs = Gives ()"
      "account_checks R L acs args T b = Gives ()" "create_nullifier R acs L = Gives L1" "write_nullifier R acs args L1 = Gives L2"
      "pay_out R acs d t (wa_relayerFeeTaken args) u L2 = Gives (L', paid)"
    using pw by (rule process_withdraw_Gives)
  have pc: "T = pl_treasury p" "b = pl_vault_bump p" "d = ?D"
    using w(1) pool_checks_live [of p L acs R, OF lp(3)] lp K by simp_all
  note ac = w(3) [unfolded account_checks_Gives]
  have "rt_create_pda R (vault_seeds K @ [[pl_vault_bump p]]) = Some V" using A lp(4) by (simp add: address_laws_def)
  then have vault: "ac_vault acs = V" using ac K pc by simp
  obtain cb where N: "rt_find_pda R (nullifier_seeds K ?h) = Some (?N, cb)" "acc_data (L ?N) = []" using ac K by auto
  have ne: "?N \<noteq> V" "?N \<noteq> K" using N(2) lv(2,3) by auto
  have rel: "ac_relayer acs \<noteq> V" using w(2) vault by (simp add: distinctness_Gives)
  define paid_in where "paid_in = top_up R L ?N"
  have L1: "L1 = (move (ac_relayer acs) ?N paid_in L)(?N := \<lparr>acc_owner = rt_program R, acc_data = replicate 80 0,
      acc_lamports = lamports L ?N + paid_in\<rparr>)"
    using create_nullifier_Gives [OF A S w(2,4) N(2)] unfolding paid_in_def by blast
  have "acc_data (L1 ?N) = replicate 80 0" by (simp add: L1)
  then obtain dd where L2: "length dd = 80" "L2 = set_data L1 ?N dd"
    using write_nullifier_Gives [OF w(5)] A by (auto simp: address_laws_def)
  obtain u' where L': "L' = paid_ledger acs ?D paid (wa_relayerFeeTaken args) u' L2"
      and floor: "?D + rt_min_balance R (length (acc_data (L2 V))) \<le> lamports L2 V"
    using pay_out_Gives [OF w(6)] pc vault by blast
  have own: "acc_owner (L' k) = acc_owner (L2 k)" "acc_data (L' k) = acc_data (L2 k)" for k by (simp_all add: L' paid_ledger_def)
  have keep: "acc_owner (L' k) = acc_owner (L k)" "acc_data (L' k) = acc_data (L k)" if "k \<noteq> ?N" for k
    using that by (simp_all add: own L2 L1 set_data_def move_simps)
  have N': "acc_owner (L' ?N) = rt_program R" "length (acc_data (L' ?N)) = 80"
    using L2(1) by (simp_all add: own L2 L1 set_data_def)
  have V2: "lamports L2 V = lamports L V" "acc_data (L2 V) = acc_data (L V)"
    using ne rel by (simp_all add: L2 L1 set_data_def move_simps lamports_def)
  have lam: "lamports L' V = lamports L V - ?D"
    using credit_vault [OF w(2), of paid "wa_relayerFeeTaken args" u'] V2 vault
    by (simp add: L' paid_ledger_def lamports_def)
  have enough: "?D + rt_min_balance R 8 \<le> lamports L V" using floor V2 lv(4) by simp
  have new: "?h \<notin> set hs"
  proof
    assume "?h \<in> set hs"
    then have "spent R K L ?h" using lp(6) by (simp add: list_all_iff)
    then show False using N by (auto simp: spent_def)
  qed
  have sp: "list_all (spent R K L') hs"
  proof (rule spent_kept [OF lp(6)])
    show "acc_owner (L' k) = rt_program R \<and> length (acc_data (L' k)) = 80" if "acc_owner (L k) = rt_program R" "length (acc_data (L k)) = 80" for k
      using that keep [of k] N' by (cases "k = ?N") simp_all
  qed
  have sp': "spent R K L' ?h" using N(1) N' by (auto simp: spent_def)
  have bal: "lamports L V = rt_min_balance R 8 + (int (length cs) - int (length hs)) * ?D + gift" using l by (simp add: live_def)
  have bal': "lamports L' V = rt_min_balance R 8 + (int (length cs) - int (length (hs @ [?h]))) * ?D + gift"
    using lam bal by (simp add: algebra_simps)
  have "rt_min_balance R 8 \<le> lamports L' V" using lam enough by linarith
  then show ?thesis
    using l sp sp' new bal' keep(1,2) [OF ne(1) [symmetric]] keep(1,2) [OF ne(2) [symmetric]] unfolding live_def by simp
qed

lemma live_paused:
  assumes H: "runtime_laws H R" and l: "live H R K L cs hs gift p V" and x: "set_paused R flag admin K L = Gives (L', ev)"
  shows "\<exists>p'. live H R K L' cs hs gift p' V"
proof -
  have A: "address_laws R" using H by (simp add: runtime_laws_def)
  have lp: "acc_owner (L K) = rt_program R" "acc_data (L K) = pool_bytes p" "pool_wf p" "pool_tree H p (map be_int cs)"
    using l by (simp_all add: live_def)
  have "L' = set_data L K (pool_bytes (p\<lparr>pl_is_paused := flag\<rparr>))"
    using x load_live(1) [of L K R, OF lp(1-3)] load_live(2) [of L K R, OF lp(1-3)] by (auto simp: set_paused_def run_simps)
  moreover have "pool_wf (p\<lparr>pl_is_paused := flag\<rparr>)" "pool_tree H (p\<lparr>pl_is_paused := flag\<rparr>) (map be_int cs)"
    using lp(3,4) by (simp_all add: pool_wf_def pool_tree_def pool_abs_def)
  moreover have "pool_address R (p\<lparr>pl_is_paused := flag\<rparr>) = pool_address R p" by (simp add: pool_address_def)
  ultimately show ?thesis using live_set_pool [OF l A] by (intro exI [of _ "p\<lparr>pl_is_paused := flag\<rparr>"]) simp
qed

lemma live_outside:
  assumes l: "live H R K L cs hs gift p V" and o: "outside R K hs L L'"
  shows "live H R K L' cs hs (gift + (lamports L' V - lamports L V)) p V"
proof -
  have kept: "acc_owner (L' k) = rt_program R \<and> acc_data (L' k) = acc_data (L k) \<and> lamports L k \<le> lamports L' k"
    if "k \<in> pool_accounts R K hs" "acc_owner (L k) = rt_program R" for k
    using o that by (simp add: outside_def)
  have in_pool: "K \<in> pool_accounts R K hs" "V \<in> pool_accounts R K hs"
    using l by (auto simp: pool_accounts_def live_def)
  have own: "acc_owner (L K) = rt_program R" "acc_owner (L V) = rt_program R" "list_all (spent R K L) hs" using l by (simp_all add: live_def)
  have sp: "list_all (spent R K L') hs"
    unfolding list_all_iff
  proof
    fix h
    assume h: "h \<in> set hs"
    then obtain N b where N: "rt_find_pda R (nullifier_seeds K h) = Some (N, b)" "acc_owner (L N) = rt_program R" "length (acc_data (L N)) = 80"
      using own(3) by (auto simp: list_all_iff spent_def)
    then have "N \<in> pool_accounts R K hs" using h by (auto simp: pool_accounts_def)
    from kept [OF this N(2)] show "spent R K L' h" using N unfolding spent_def by (intro exI [of _ N] exI [of _ b]) simp
  qed
  show ?thesis
    using l sp kept [OF in_pool(1) own(1)] kept [OF in_pool(2) own(2)] by (simp add: live_def)
qed

lemma history_live:
  assumes H: "runtime_laws H R"
  shows "history R K L cs hs gift \<Longrightarrow> \<exists>p V. live H R K L cs hs gift p V"
proof (induction rule: history.induct)
  case (created admin V treasury d v L L' ev)
  then show ?case using live_created [OF H] by blast
next
  case (deposited L cs hs gift V depositor c L' ev)
  then show ?case using live_deposited [OF H] by blast
next
  case (withdrawn L cs hs gift acs args L' ev)
  then show ?case using live_withdrawn [OF H] by blast
next
  case (paused L cs hs gift admin L' ev)
  then show ?case using live_paused [OF H] by (metis execute.simps(4) pause_pool_handler_def)
next
  case (unpaused L cs hs gift admin L' ev)
  then show ?case using live_paused [OF H] by (metis execute.simps(5) unpause_pool_handler_def)
next
  case (other L cs hs gift L' V b)
  then obtain p W where l: "live H R K L cs hs gift p W" by blast
  then have "W = V" using other.hyps by (simp add: live_def)
  then show ?case using live_outside [OF l other.hyps(2)] by blast
qed

end
