(* ===== verification/ProgramProgress.thy ===== *)
theory ProgramProgress
  imports ProgramChain
begin

text \<open>
  When an instruction succeeds: the conditions under which a deposit into a pool and a withdrawal from it
  are executed, and the ledger they leave. The system program's side of it is \<open>system_works\<close>.
\<close>

subsection \<open>What the system program does when it may\<close>

definition wallet :: "runtime \<Rightarrow> ledger \<Rightarrow> pubkey \<Rightarrow> bool" where
  "wallet R L k \<longleftrightarrow> acc_owner (L k) = rt_system R \<and> acc_data (L k) = []"

definition transfer_works :: "runtime \<Rightarrow> bool" where
  "transfer_works R \<longleftrightarrow> (\<forall>a b n L. wallet R L a \<longrightarrow> 0 \<le> n \<longrightarrow> n \<le> lamports L a \<longrightarrow> lamports L b + n < 2 ^ 64 \<longrightarrow>
     rt_sys R (SysTransfer a b n) L = Some (move a b n L))"

definition create_works :: "runtime \<Rightarrow> bool" where
  "create_works R \<longleftrightarrow> (\<forall>a k n space own L. wallet R L a \<longrightarrow> fresh R L k \<longrightarrow> a \<noteq> k \<longrightarrow> lamports L k = 0 \<longrightarrow> 0 \<le> n \<longrightarrow> n \<le> lamports L a \<longrightarrow>
     (\<exists>L'. rt_sys R (SysCreate a k n space own) L = Some L'))"

definition reassign_works :: "runtime \<Rightarrow> bool" where
  "reassign_works R \<longleftrightarrow> (\<forall>k space L. fresh R L k \<longrightarrow> (\<exists>L'. rt_sys R (SysAllocate k space) L = Some L'))
     \<and> (\<forall>k own L. acc_owner (L k) = rt_system R \<longrightarrow> (\<exists>L'. rt_sys R (SysAssign k own) L = Some L'))"

definition system_works :: "runtime \<Rightarrow> bool" where
  "system_works R \<longleftrightarrow> transfer_works R \<and> create_works R \<and> reassign_works R"

subsection \<open>A deposit\<close>

lemma deposit_accepted:
  assumes H: "runtime_laws H R" and W: "transfer_works R" and l: "live H R K L cs hs gift p V"
    and open_pool: "pl_is_paused p = 0" "length cs < 950000" and c: "length c = 32" "in_field (be_int c)"
    and payer: "wallet R L depositor" "pl_denomination p \<le> lamports L depositor" "lamports L V + pl_denomination p < 2 ^ 64"
  shows "\<exists>p'. execute R (Deposit K V depositor c) L = Gives (move depositor V (pl_denomination p) (set_data L K (pool_bytes p')),
      DepositEvent c (int (length cs)) (rt_timestamp R)
        # (if 949000 \<le> length cs + 1 then [PoolNearSaturation K (int (length cs) + 1)] else []))
    \<and> live H R K (move depositor V (pl_denomination p) (set_data L K (pool_bytes p'))) (cs @ [c]) hs gift p' V
    \<and> inserted p p'"
proof -
  have P: "poseidon_laws H (rt_hashv R)" "zeros_generated H" and A: "address_laws R" using H by (simp_all add: runtime_laws_def)
  note lv = live_vault [OF l A]
  have lp: "acc_owner (L K) = rt_program R" "acc_data (L K) = pool_bytes p" "pool_wf p" "pool_tree H p (map be_int cs)"
      "rt_find_pda R (vault_seeds K) = Some (V, pl_vault_bump p)" "acc_owner (L V) = rt_program R" "acc_data (L V) = rt_vault_disc R"
      "pool_address R p = Some K" "500 \<le> pl_denomination p"
    using l by (simp_all add: live_def)
  obtain rt p' where ins: "pool_insert (rt_hashv R) p c = Gives (rt, p')" "inserted p p'" "pool_tree H p' (map be_int (cs @ [c]))"
    using pool_insert_cases [OF P lp(4) c(1)] open_pool c(2) by auto
  have n: "pl_next_index p' = int (length cs) + 1" using pool_tree_count [OF ins(3)] by simp
  have depK: "depositor \<noteq> K" using payer(1) lv(3) by (auto simp: wallet_def)
  let ?L1 = "set_data L K (pool_bytes p')"
  have w1: "wallet R ?L1 depositor" "lamports ?L1 depositor = lamports L depositor" "lamports ?L1 V = lamports L V"
    using payer(1) depK by (simp_all add: wallet_def set_data_def lamports_def)
  have s: "sys R (SysTransfer depositor V (pl_denomination p)) ?L1 = Gives (move depositor V (pl_denomination p) ?L1)"
    using W w1 payer lp(9) by (simp add: sys_def transfer_works_def)
  have v: "is_vault R L V" using lp(6,7) lv(4) by (simp add: is_vault_def)
  have near: "(PROGRAM_SATURATION_THRESHOLD - 1000 \<le> int (length cs) + 1) = (949000 \<le> length cs + 1)"
    by (simp add: PROGRAM_SATURATION_THRESHOLD_def)
  have x: "execute R (Deposit K V depositor c) L = Gives (move depositor V (pl_denomination p) ?L1,
      DepositEvent c (int (length cs)) (rt_timestamp R)
        # (if 949000 \<le> length cs + 1 then [PoolNearSaturation K (int (length cs) + 1)] else []))"
    using lp(8) unfolding execute.simps program_deposit_def load_live(1) [of L K R, OF lp(1-3)] load_live(2) [of L K R, OF lp(1-3)]
    by (simp add: lp(5) or_fail_def v pool_address_def guard_def ins(1) n near s Let_def)
  moreover obtain q where q: "live H R K (move depositor V (pl_denomination p) ?L1) (cs @ [c]) hs gift q V"
    using live_deposited [OF H l x c(1)] by blast
  moreover have "q = p'"
  proof -
    have "pool_bytes q = acc_data (move depositor V (pl_denomination p) ?L1 K)" using q by (simp add: live_def)
    also have "\<dots> = pool_bytes p'" by (simp add: move_simps set_data_def)
    finally have e: "pool_bytes q = pool_bytes p'" .
    have "pool_wf q" using q by (simp add: live_def)
    moreover have "pool_wf p'"
      using inserted_wf [OF lp(3) ins(2,3)] open_pool(2) by simp
    ultimately show ?thesis using e pool_of_pool_bytes by metis
  qed
  ultimately show ?thesis using ins(2) by (intro exI [of _ p']) blast
qed

subsection \<open>A withdrawal\<close>

definition balances_bounded :: "ledger \<Rightarrow> bool" where
  "balances_bounded L \<longleftrightarrow> (\<forall>k. 0 \<le> lamports L k \<and> lamports L k < 2 ^ 62)"

lemma add_lamports_ok:
  "0 \<le> lamports L k + n \<Longrightarrow> lamports L k + n < 2 ^ 64 \<Longrightarrow>
    \<exists>L'. add_lamports k n L = Gives L' \<and> (\<forall>j. lamports L' j = lamports L j + (if j = k then n else 0))"
  by (simp add: add_lamports_def lamports_def)

lemma route_accepted:
  assumes "0 \<le> t" "0 \<le> u" "bal + t < 2 ^ 64" "u + t < 2 ^ 64"
  shows "\<exists>t' u'. route_treasury_fee R t u bal len payee = Gives (t', u') \<and> t' + u' = t + u \<and> (t' = t \<or> t' = 0) \<and> u \<le> u'"
  using assms by (auto simp: route_treasury_fee_def checked_add_def or_fail_def Let_def)

lemma pay_out_accepted:
  assumes n: "distinctness acs = Gives ()" and B: "balances_bounded L"
    and amounts: "0 \<le> t" "0 \<le> r" "0 \<le> u" "t + r + u = d"
    and floor: "d + rt_min_balance R (length (acc_data (L (ac_vault acs)))) \<le> lamports L (ac_vault acs)"
    and rent: "0 \<le> rt_min_balance R (length (acc_data (L (ac_vault acs))))"
  shows "\<exists>paid u'. pay_out R acs d t r u L = Gives (paid_ledger acs d paid r u' L, paid) \<and> paid + u' = t + u \<and> (paid = t \<or> paid = 0)"
proof -
  have b: "0 \<le> lamports L k" "lamports L k < 2 ^ 62" for k using B by (simp_all add: balances_bounded_def)
  have d: "0 \<le> d" "d < 2 ^ 62" using amounts floor rent b(2) [of "ac_vault acs"] by linarith+
  let ?payee = "ac_treasury acs = ac_relayer acs \<or> ac_treasury acs = ac_recipient acs"
  have "lamports L (ac_treasury acs) + t < 2 ^ 64" "u + t < 2 ^ 64"
    using amounts d b(2) [of "ac_treasury acs"] by simp_all
  then obtain paid u' where route: "route_treasury_fee R t u (lamports L (ac_treasury acs)) (length (acc_data (L (ac_treasury acs)))) ?payee
        = Gives (paid, u')" and split: "paid + u' = t + u" "paid = t \<or> paid = 0" "u \<le> u'"
    using route_accepted amounts by blast
  have pos: "0 \<le> paid" "0 \<le> u'" "paid \<le> d" "u' \<le> d" using split amounts by auto
  obtain L1 where 1: "add_lamports (ac_vault acs) (- d) L = Gives L1"
      "\<And>j. lamports L1 j = lamports L j + (if j = ac_vault acs then - d else 0)"
    using add_lamports_ok [of L "ac_vault acs" "- d"] floor rent b [of "ac_vault acs"] d by auto
  have L1: "lamports L1 j \<le> lamports L j" "0 \<le> lamports L1 j" for j using 1(2) d b(1) [of j] floor rent by auto
  have "lamports L1 (ac_treasury acs) + paid < 2 ^ 64" "0 \<le> lamports L1 (ac_treasury acs) + paid"
    using L1 [of "ac_treasury acs"] b(2) [of "ac_treasury acs"] pos d by simp_all
  then obtain L2 where 2: "add_lamports (ac_treasury acs) paid L1 = Gives L2"
      "\<And>j. lamports L2 j = lamports L1 j + (if j = ac_treasury acs then paid else 0)"
    using add_lamports_ok by blast
  have L2: "lamports L2 j \<le> lamports L j + d" "0 \<le> lamports L2 j" for j
    using 2(2) [of j] L1 [of j] pos by (auto split: if_splits)
  have "lamports L2 (ac_relayer acs) + r < 2 ^ 64" "0 \<le> lamports L2 (ac_relayer acs) + r"
    using L2 [of "ac_relayer acs"] b(2) [of "ac_relayer acs"] amounts d by simp_all
  then obtain L3 where 3: "add_lamports (ac_relayer acs) r L2 = Gives L3"
      "\<And>j. lamports L3 j = lamports L2 j + (if j = ac_relayer acs then r else 0)"
    using add_lamports_ok by blast
  have L3: "lamports L3 j \<le> lamports L j + 2 * d" "0 \<le> lamports L3 j" for j
    using 3(2) [of j] L2 [of j] amounts d by (auto split: if_splits)
  have "lamports L3 (ac_recipient acs) + u' < 2 ^ 64" "0 \<le> lamports L3 (ac_recipient acs) + u'"
    using L3 [of "ac_recipient acs"] b(2) [of "ac_recipient acs"] pos d by simp_all
  then obtain L4 where 4: "add_lamports (ac_recipient acs) u' L3 = Gives L4" using add_lamports_ok by blast
  have p: "L4 = paid_ledger acs d paid r u' L" by (rule credits_make_paid_ledger [OF 1(1) 2(1) 3(1) 4])
  have v: "lamports L4 (ac_vault acs) = lamports L (ac_vault acs) - d"
    by (simp add: p paid_ledger_def lamports_def credit_vault [OF n])
  have k: "lamports L4 k = lamports L k + credit_owed_to acs paid r u' k" if "k \<noteq> ac_vault acs" for k
    using that by (simp add: p paid_ledger_def lamports_def)
  have ne: "ac_treasury acs \<noteq> ac_vault acs" "ac_relayer acs \<noteq> ac_vault acs" "ac_recipient acs \<noteq> ac_vault acs"
    using n by (auto simp: distinctness_Gives)
  have "d + rt_min_balance R (length (acc_data (L (ac_vault acs)))) < 2 ^ 64" using floor b(2) [of "ac_vault acs"] by simp
  then have "pay_out R acs d t r u L = Gives (L4, paid)"
    using floor by (simp add: pay_out_def checked_add_def or_fail_def guard_def Let_def route 1(1) 2(1) 3(1) 4 v k [OF ne(1)] k [OF ne(2)] k [OF ne(3)])
  then show ?thesis using split unfolding p by blast
qed

lemma create_nullifier_accepted:
  assumes W: "system_works R" and A: "address_laws R" and S: "system_laws R"
    and f: "fresh R L (ac_nullifierPda acs)" and r: "wallet R L (ac_relayer acs)" "ac_relayer acs \<noteq> ac_nullifierPda acs"
    and m: "top_up R L (ac_nullifierPda acs) \<le> lamports L (ac_relayer acs)" "rt_min_balance R 80 < 2 ^ 62"
    and nonneg: "0 \<le> lamports L (ac_nullifierPda acs)"
  shows "\<exists>L'. create_nullifier R acs L = Gives L'"
proof -
  let ?N = "ac_nullifierPda acs" and ?r = "ac_relayer acs" and ?need = "rt_min_balance R 80"
  have space: "8 + NULLIFIER_SIZE = 80" by (simp add: NULLIFIER_SIZE_def)
  have need: "0 \<le> ?need" using A by (simp add: address_laws_def)
  show ?thesis
  proof (cases "lamports L ?N = 0")
    case True
    then have "?need \<le> lamports L ?r" using m(1) need by (auto simp: top_up_def split: if_splits)
    then obtain L' where "rt_sys R (SysCreate ?r ?N ?need 80 (rt_program R)) L = Some L'"
      using W True f r need unfolding system_works_def create_works_def by metis
    then show ?thesis using True by (auto simp: create_nullifier_def space sys_def or_fail_def)
  next
    case False
    define L1 where "L1 = (if lamports L ?N < ?need then move ?r ?N (?need - lamports L ?N) L else L)"
    have 1: "(if lamports L ?N < ?need then sys R (SysTransfer ?r ?N (?need - lamports L ?N)) L else Gives L) = Gives L1"
      using W r m(1,2) nonneg by (auto simp: L1_def sys_def or_fail_def system_works_def transfer_works_def top_up_def)
    have own: "fresh R L1 ?N" using f by (simp add: L1_def fresh_def move_simps)
    then obtain L2 where 2: "rt_sys R (SysAllocate ?N 80) L1 = Some L2"
      using W unfolding system_works_def reassign_works_def by metis
    have s2: "sys R (SysAllocate ?N 80) L1 = Gives L2" by (simp add: sys_def 2 or_fail_def)
    have "acc_owner (L2 ?N) = rt_system R"
      using system_allocate [OF S s2] own by (simp add: set_data_def fresh_def)
    then obtain L3 where 3: "rt_sys R (SysAssign ?N (rt_program R)) L2 = Some L3"
      using W unfolding system_works_def reassign_works_def by metis
    have "create_nullifier R acs L = Gives L3"
      using False f 1 s2 3 by (simp add: create_nullifier_def space Let_def fresh_def sys_def or_fail_def guard_def)
    then show ?thesis by blast
  qed
qed

text \<open>
  A withdrawal that meets every condition of the handler is executed. The vault loses the denomination; the
  relayer pays the rent of the nullifier account; each payee gets what its roles are owed, where the whole
  denomination goes to the three roles and the treasury's share is the fee or nothing.
\<close>

definition withdrawn_ledger :: "runtime \<Rightarrow> withdraw_accounts \<Rightarrow> int \<Rightarrow> int \<Rightarrow> int \<Rightarrow> int \<Rightarrow> ledger \<Rightarrow> pubkey \<Rightarrow> int" where
  "withdrawn_ledger R acs d t r u L k =
     (let N = ac_nullifierPda acs; rent = top_up R L N in
      lamports L k + (if k = N then rent else 0) - (if k = ac_relayer acs then rent else 0)
      - (if k = ac_vault acs then d else 0) + credit_owed_to acs t r u k)"

lemma lamports_paid_ledger:
  "lamports (paid_ledger acs d t r u L) k = lamports L k - (if k = ac_vault acs then d else 0) + credit_owed_to acs t r u k"
  by (simp add: paid_ledger_def lamports_def)

lemma write_nullifier_accepted:
  assumes "acc_data (L (ac_nullifierPda acs)) = replicate 80 0" "length (rt_nullifier_disc R) = 8"
    "length (ac_pool acs) = 32" "length (wa_nullifierHash args) = 32"
  shows "\<exists>d. write_nullifier R acs args L = Gives (set_data L (ac_nullifierPda acs) d)"
  using assms by (auto simp: write_nullifier_def nullifier_account_def Let_def)

lemma fee_split_accepted:
  assumes "500 \<le> d" "0 \<le> r" "r \<le> m" "m \<le> d div 50"
  shows "compute_fee_split d r m = Gives (d div 500, r, d - d div 500 - r)" "0 \<le> d - d div 500 - r" "0 \<le> d div 500"
  using assms fee_split_total [of d r m] by (simp_all add: pos_imp_zdiv_nonneg_iff)

lemma withdrawal_accepted:
  assumes H: "runtime_laws H R" and W: "system_works R" and l: "live H R K L cs hs gift p V"
    and acs: "ac_pool acs = K" "ac_vault acs = V" "ac_treasury acs = pl_treasury p" "length K = 32"
    and inputs: "canonical_inputs args = Gives ()" "length (wa_nullifierHash args) = 32"
    and fees: "0 \<le> wa_relayerFeeTaken args" "wa_relayerFeeTaken args \<le> wa_relayerFeeMax args"
      "wa_relayerFeeMax args \<le> pl_denomination p div 50"
    and n: "distinctness acs = Gives ()"
    and root: "wa_root args \<in> set (pl_root_history p)" "wa_root args \<noteq> replicate 32 0" "wa_root args \<noteq> EMPTY_TREE_ROOT"
    and N: "rt_find_pda R (nullifier_seeds K (wa_nullifierHash args)) = Some (ac_nullifierPda acs, nb)" "fresh R L (ac_nullifierPda acs)"
    and proof_ok: "proof_checks R acs args = Gives ()"
    and relayer: "wallet R L (ac_relayer acs)" "rt_min_balance R 80 \<le> lamports L (ac_relayer acs)"
    and B: "balances_bounded L" and funds: "pl_denomination p + rt_min_balance R 8 \<le> lamports L V"
  shows "\<exists>L' t u. execute R (Withdraw acs args) L =
        Gives (L', [WithdrawalEvent (wa_nullifierHash args) (ac_relayer acs) (wa_relayerFeeTaken args) t])
    \<and> t + wa_relayerFeeTaken args + u = pl_denomination p \<and> (t = pl_denomination p div 500 \<or> t = 0)
    \<and> (\<forall>k. lamports L' k = withdrawn_ledger R acs (pl_denomination p) t (wa_relayerFeeTaken args) u L k)"
proof -
  have S: "system_laws R" and A: "address_laws R" using H by (simp_all add: runtime_laws_def)
  have lp: "acc_owner (L K) = rt_program R" "acc_data (L K) = pool_bytes p" "pool_wf p"
      "rt_find_pda R (vault_seeds K) = Some (V, pl_vault_bump p)" "acc_owner (L V) = rt_program R" "500 \<le> pl_denomination p"
    using l by (simp_all add: live_def)
  note lv = live_vault [OF l A]
  let ?N = "ac_nullifierPda acs" and ?r = "ac_relayer acs" and ?D = "pl_denomination p" and ?taken = "wa_relayerFeeTaken args"
  have pc: "pool_checks R L acs (rt_system R) = Gives (pl_treasury p, pl_vault_bump p, ?D)"
    using pool_checks_live [OF lp(3)] lp(1,2) acs(1) by simp
  note split = fee_split_accepted [OF lp(6) fees]
  have vault: "rt_create_pda R (vault_seeds K @ [[pl_vault_bump p]]) = Some V" using A lp(4) by (simp add: address_laws_def)
  have known: "is_known_root_in_account (L K) (wa_root args) = Gives True"
  proof -
    obtain i where i: "i < 256" "pl_root_history p ! i = wa_root args"
      using root(1) lp(3) by (auto simp: in_set_conv_nth pool_wf_def)
    have w: "list_all (\<lambda>b. length b = 32) (pl_root_history p)" "length (pl_root_history p) = 256"
      using lp(3) by (simp_all add: pool_wf_def)
    have d: "drop 8 (pool_bytes p) = pool_head p @ concat (pl_root_history p) @ concat (pl_filled_subtrees p)"
      by (simp add: pool_bytes_def)
    have "subarray (drop 8 (pool_bytes p)) (136 + i * 32) (136 + i * 32 + 32)
        = subarray (concat (pl_root_history p) @ concat (pl_filled_subtrees p)) (i * 32) (i * 32 + 32)"
      unfolding d by (subst subarray_shift) (simp_all add: length_pool_head [OF lp(3)] add.commute)
    also have "\<dots> = wa_root args"
      using i w chunk_of_concat [OF w(1), of i] by (subst subarray_prefix) (simp_all add: length_concat_32)
    finally have "list_ex (\<lambda>i. subarray (drop 8 (pool_bytes p)) (136 + i * 32) (136 + i * 32 + 32) = wa_root args) [0..<256]"
      using i(1) by (auto simp: list_ex_iff)
    moreover have "length (drop 8 (pool_bytes p)) = 8968" using length_pool_bytes [OF lp(3)] by (simp add: POOL_ACCOUNT_LEN_def)
    ultimately show ?thesis using root(2) by (simp add: is_known_root_in_account_def lp(2) Let_def ROOT_HISTORY_SIZE_def del: upt_conv_Cons)
  qed
  have ac: "account_checks R L acs args (pl_treasury p) (pl_vault_bump p) = Gives ()"
    using acs vault lp(5) root(3) known N by (simp add: account_checks_Gives fresh_def)
  have ne: "?r \<noteq> ?N" "?r \<noteq> V" "V \<noteq> ?N" "K \<noteq> ?N"
    using n acs(2) lv(2,3) N(2) by (auto simp: distinctness_Gives fresh_def)
  have b: "0 \<le> lamports L k" "lamports L k < 2 ^ 62" for k using B by (simp_all add: balances_bounded_def)
  have need: "0 \<le> rt_min_balance R 80" "rt_min_balance R 80 < 2 ^ 62" "0 \<le> rt_min_balance R 8"
    using A relayer(2) b(2) [of ?r] by (simp_all add: address_laws_def)
  have tu: "0 \<le> top_up R L ?N" "top_up R L ?N \<le> lamports L ?r" "lamports L ?N + top_up R L ?N < 2 ^ 62"
    using need relayer(2) b(1) [of ?N] b(2) [of ?N] by (auto simp: top_up_def)
  obtain L1 where c: "create_nullifier R acs L = Gives L1"
    using create_nullifier_accepted [OF W A S N(2) relayer(1) ne(1) tu(2) need(2) b(1)] by blast
  have e: "acc_data (L ?N) = []" using N(2) by (simp add: fresh_def)
  have L1: "L1 = (move ?r ?N (top_up R L ?N) L)(?N := \<lparr>acc_owner = rt_program R, acc_data = replicate 80 0,
      acc_lamports = lamports L ?N + top_up R L ?N\<rparr>)"
    using create_nullifier_Gives [OF A S n c e] by blast
  have "acc_data (L1 ?N) = replicate 80 0" by (simp add: L1)
  then obtain dd where w: "write_nullifier R acs args L1 = Gives (set_data L1 ?N dd)"
    using write_nullifier_accepted A acs(1,4) inputs(2) by (metis address_laws_def)
  let ?L2 = "set_data L1 ?N dd"
  have lam: "lamports ?L2 k = lamports L k + (if k = ?N then top_up R L ?N else 0) - (if k = ?r then top_up R L ?N else 0)" for k
    using ne(1) by (simp add: L1 set_data_def lamports_def move_def Let_def)
  have B2: "balances_bounded ?L2" unfolding balances_bounded_def
  proof
    fix k
    show "0 \<le> lamports ?L2 k \<and> lamports ?L2 k < 2 ^ 62" using b [of k] tu ne(1) unfolding lam by (auto split: if_splits)
  qed
  have V2: "lamports ?L2 V = lamports L V" "acc_data (?L2 V) = acc_data (L V)"
    using ne by (simp_all add: lam) (simp add: L1 set_data_def move_simps)
  have "\<exists>paid u'. pay_out R acs ?D (?D div 500) ?taken (?D - ?D div 500 - ?taken) ?L2 = Gives (paid_ledger acs ?D paid ?taken u' ?L2, paid)
      \<and> paid + u' = ?D div 500 + (?D - ?D div 500 - ?taken) \<and> (paid = ?D div 500 \<or> paid = 0)"
    using split fees(1) funds V2 lv(4) need(3) acs(2) by (intro pay_out_accepted [OF n B2]) simp_all
  then obtain paid u where po: "pay_out R acs ?D (?D div 500) ?taken (?D - ?D div 500 - ?taken) ?L2 = Gives (paid_ledger acs ?D paid ?taken u ?L2, paid)"
      "paid + u = ?D div 500 + (?D - ?D div 500 - ?taken)" "paid = ?D div 500 \<or> paid = 0"
    by blast
  have "execute R (Withdraw acs args) L = Gives (paid_ledger acs ?D paid ?taken u ?L2,
      [WithdrawalEvent (wa_nullifierHash args) ?r ?taken paid])"
    by (simp add: process_withdraw_def inputs(1) pc guard_def split(1) n ac proof_ok c w po(1))
  moreover have "lamports (paid_ledger acs ?D paid ?taken u ?L2) k = withdrawn_ledger R acs ?D paid ?taken u L k" for k
    unfolding lamports_paid_ledger lam withdrawn_ledger_def Let_def by simp
  ultimately show ?thesis using po(2,3) by (intro exI [of _ "paid_ledger acs ?D paid ?taken u ?L2"] exI [of _ paid] exI [of _ u]) simp
qed

end
