(* ===== verification/ProgramRelay.thy ===== *)
theory ProgramRelay
  imports ProgramProgress
begin

text \<open>
  The relayer against the program: relayer/src/api.js reads the ledger and sends a transaction;
  withdraw.rs executes it. What is proved: a proof that snarkjs accepts reaches the program's verifier as
  the same points and inputs, and what the relayer checked before it sends is what the program checks.
\<close>

subsection \<open>The relayer's view of the chain\<close>

text \<open>The RPC answers from this ledger, and addresses, hash and verifier are those of the runtime.\<close>

definition relayer_sees :: "(int list \<Rightarrow> int) \<Rightarrow> runtime \<Rightarrow> ledger \<Rightarrow> env \<Rightarrow> bool" where
  "relayer_sees H R L E \<longleftrightarrow> env_programId E = rt_program R \<and> env_poseidon E = H
     \<and> env_balance E = Returns (lamports L (env_relayer E))
     \<and> (\<forall>k. env_account E k = Returns (Some (L k)) \<or> env_account E k = Returns None \<and> acc_data (L k) = [])
     \<and> (\<forall>seeds k. net_pda (env_net E) seeds (rt_program R) = Returns k \<longrightarrow> (\<exists>b. rt_find_pda R seeds = Some (k, b)))"

subsection \<open>The two verifiers\<close>

text \<open>
  A Groth16 proof as points with affine coordinates, and the JSON that snarkjs writes for it: decimal
  coordinates, then 1 for a point of G1 and [1, 0] for one of G2; no point of the curve has y = 0.
\<close>

record affine_proof =
  af_ax :: int
  af_ay :: int
  af_bx0 :: int
  af_bx1 :: int
  af_by0 :: int
  af_by1 :: int
  af_cx :: int
  af_cy :: int

definition affine_coordinates :: "affine_proof \<Rightarrow> bool" where
  "affine_coordinates a \<longleftrightarrow> (\<forall>x\<in>{af_ax a, af_ay a, af_bx0 a, af_bx1 a, af_by0 a, af_by1 a, af_cx a, af_cy a}.
     0 \<le> x \<and> x < 21888242871839275222246405745257275088696311157297823662689037894645226208583) \<and> 0 < af_ay a"

definition affine_json :: "json \<Rightarrow> affine_proof \<Rightarrow> bool" where
  "affine_json pf a \<longleftrightarrow> affine_coordinates a
     \<and> map json_bigint [js_index (js_get pf ''pi_a'') 0, js_index (js_get pf ''pi_a'') 1, js_index (js_get pf ''pi_a'') 2]
         = map Returns [af_ax a, af_ay a, 1]
     \<and> map json_bigint [js_index (js_index (js_get pf ''pi_b'') 0) 0, js_index (js_index (js_get pf ''pi_b'') 0) 1,
           js_index (js_index (js_get pf ''pi_b'') 1) 0, js_index (js_index (js_get pf ''pi_b'') 1) 1,
           js_index (js_index (js_get pf ''pi_b'') 2) 0, js_index (js_index (js_get pf ''pi_b'') 2) 1]
         = map Returns [af_bx0 a, af_bx1 a, af_by0 a, af_by1 a, 1, 0]
     \<and> map json_bigint [js_index (js_get pf ''pi_c'') 0, js_index (js_get pf ''pi_c'') 1, js_index (js_get pf ''pi_c'') 2]
         = map Returns [af_cx a, af_cy a, 1]"

text \<open>
  Both verifiers decide the same pairing equation \<open>P\<close> of a proof and its public inputs. snarkjs takes the
  proof as JSON and refuses inputs outside the field; groth16-solana takes the negated A, the coordinates
  of B with the imaginary part first, and everything as 32 bytes, most significant first.
\<close>

definition snarkjs_verifies :: "(affine_proof \<Rightarrow> int list \<Rightarrow> bool) \<Rightarrow> env \<Rightarrow> bool" where
  "snarkjs_verifies P E \<longleftrightarrow> (\<forall>pf ps a n rt wc. env_verify E pf ps = Returns True \<longrightarrow> affine_json pf a \<longrightarrow>
     map json_bigint [js_index ps 0, js_index ps 1, js_index ps 2] = map Returns [n, rt, wc] \<longrightarrow>
     in_field n \<and> in_field rt \<and> in_field wc \<and> P a [n, rt, wc])"

definition groth16_solana_verifies :: "(affine_proof \<Rightarrow> int list \<Rightarrow> bool) \<Rightarrow> runtime \<Rightarrow> bool" where
  "groth16_solana_verifies P R \<longleftrightarrow> (\<forall>a xs. affine_coordinates a \<longrightarrow> list_all in_field xs \<longrightarrow> length xs = 3 \<longrightarrow> P a xs \<longrightarrow>
     rt_groth16 R
       \<lparr>proofA = be_bytes 32 (af_ax a) @ be_bytes 32 (21888242871839275222246405745257275088696311157297823662689037894645226208583 - af_ay a),
        proofB = be_bytes 32 (af_bx1 a) @ be_bytes 32 (af_bx0 a) @ be_bytes 32 (af_by1 a) @ be_bytes 32 (af_by0 a),
        proofC = be_bytes 32 (af_cx a) @ be_bytes 32 (af_cy a)\<rparr> (map (be_bytes 32) xs) = Some True)"

text \<open>What the relayer writes for an affine proof is what the program's verifier reads.\<close>

lemma affine_proof_bytes:
  assumes "affine_json pf a"
  shows "snarkjsProofToBytes pf = Returns
    \<lparr>proofA = be_bytes 32 (af_ax a) @ be_bytes 32 (21888242871839275222246405745257275088696311157297823662689037894645226208583 - af_ay a),
     proofB = be_bytes 32 (af_bx1 a) @ be_bytes 32 (af_bx0 a) @ be_bytes 32 (af_by1 a) @ be_bytes 32 (af_by0 a),
     proofC = be_bytes 32 (af_cx a) @ be_bytes 32 (af_cy a)\<rparr>"
proof -
  have nz: "j \<noteq> JUndef" "j \<noteq> JNull" if "json_bigint (js_index j i) = Returns n" for j i n
    using that by (auto simp: js_index_def json_bigint_def)
  have nz2: "j \<noteq> JUndef" "j \<noteq> JNull" if "json_bigint (js_index (js_index j i) k) = Returns n" for j i k n
    using that by (auto simp: js_index_def json_bigint_def)
  have pf: "pf \<noteq> JUndef" "pf \<noteq> JNull"
    using assms by (auto simp: affine_json_def js_get_def js_index_def json_bigint_def)
  have coord: "proof_coord pf name i = Returns n" if "json_bigint (js_index (js_get pf name) i) = Returns n" for name i n
    using that pf nz [OF that] by (simp add: proof_coord_def js_member_def)
  have coord2: "proof_coord2 pf name i k = Returns n" if "json_bigint (js_index (js_index (js_get pf name) i) k) = Returns n" for name i k n
    using that pf nz [OF that] nz2 [OF that] by (simp add: proof_coord2_def js_member_def)
  have q: "BN254_Fq = 21888242871839275222246405745257275088696311157297823662689037894645226208583" by (simp add: BN254_Fq_def)
  have b: "bigIntToBytes32 x = be_bytes 32 x" if "0 \<le> x" "x \<le> BN254_Fq" for x
    using that BN254_less(2) by (intro bigIntToBytes32_eq) simp_all
  note j = assms [unfolded affine_json_def list.map list.inject]
  have r: "0 \<le> x \<and> x \<le> BN254_Fq" if "x \<in> {af_ax a, af_ay a, BN254_Fq - af_ay a, af_bx0 a, af_bx1 a, af_by0 a, af_by1 a, af_cx a, af_cy a}" for x
    using j that unfolding affine_coordinates_def q by auto
  show ?thesis
    using j r by (simp add: snarkjsProofToBytes_def coord coord2 b q [symmetric])
qed

lemma verifiers_agree:
  assumes P: "snarkjs_verifies P E" "groth16_solana_verifies P R" and a: "affine_json pf a"
    and ok: "env_verify E pf ps = Returns True" and p: "snarkjsProofToBytes pf = Returns p"
    and f: "json_bigint (js_index ps 0) = Returns n" "json_bigint (js_index ps 1) = Returns rt" "json_bigint (js_index ps 2) = Returns wc"
  shows "in_field n \<and> in_field rt \<and> in_field wc \<and> rt_groth16 R p [be_bytes 32 n, be_bytes 32 rt, be_bytes 32 wc] = Some True"
proof -
  have s: "in_field n" "in_field rt" "in_field wc" "P a [n, rt, wc]"
    using P(1) ok a f unfolding snarkjs_verifies_def by simp_all
  have "affine_coordinates a" using a by (simp add: affine_json_def)
  then show ?thesis
    using P(2) [unfolded groth16_solana_verifies_def, THEN spec, of a, THEN spec, of "[n, rt, wc]"] s p affine_proof_bytes [OF a] by simp
qed

subsection \<open>The commitment of the parties\<close>

lemma be_int_padded: "be_int (replicate n 0 @ b) = be_int b"
  by (induction n) (simp_all add: be_int_Cons)

lemma small_in_field: "0 \<le> x \<Longrightarrow> x < 2 ^ 128 \<Longrightarrow> in_field x"
  by (simp add: in_field_def BN254_Fr_def)

lemma hashv_bytes:
  assumes "poseidon_laws H hashv" "list_all (\<lambda>b. length b = 32 \<and> in_field (be_int b)) bs"
  shows "hashv bs = Some (be_bytes 32 (H (map be_int bs)))"
  using assms by (simp add: poseidon_laws_def list_all_iff)

lemma program_pubkey_to_field_is_pubkeyToField:
  assumes "poseidon_laws H (rt_hashv R)" "length k = 32"
  shows "program_pubkey_to_field R k = Gives (be_bytes 32 (pubkeyToField H k))"
proof -
  have "in_field (be_int (take 16 k))" "in_field (be_int (drop 16 k))"
    using be_int_bound [of "take 16 k"] be_int_bound [of "drop 16 k"] assms(2) by (simp_all add: small_in_field)
  then show ?thesis
    using assms hashv_bytes [OF assms(1), of "[replicate 16 0 @ take 16 k, replicate 16 0 @ drop 16 k]"]
    by (simp add: program_pubkey_to_field_def be_int_padded pubkeyToField_def pubkey_halves_eq or_fail_def)
qed

lemma fee_bytes: "is_u64 m \<Longrightarrow> be_int (replicate 24 0 @ be_bytes 8 m) = m \<and> in_field m"
  by (simp add: be_int_padded be_int_be_bytes is_u64_def in_field_def BN254_Fr_def)

lemma proof_checks_accepted:
  assumes P: "poseidon_laws H (rt_hashv R)" and keys: "length (ac_relayer acs) = 32" "length (ac_recipient acs) = 32"
    and m: "is_u64 (wa_relayerFeeMax args)"
    and wc: "wa_withdrawalCommitment args = be_bytes 32 (H [pubkeyToField H (ac_relayer acs), wa_relayerFeeMax args, pubkeyToField H (ac_recipient acs)])"
    and g: "rt_groth16 R (wa_proof args) [wa_nullifierHash args, wa_root args, wa_withdrawalCommitment args] = Some True"
  shows "proof_checks R acs args = Gives ()"
proof -
  let ?a = "pubkeyToField H (ac_relayer acs)" and ?b = "pubkeyToField H (ac_recipient acs)" and ?m = "wa_relayerFeeMax args"
  have f: "in_field (pubkeyToField H k)" for k using hash_in_field [OF P] by (simp add: pubkeyToField_def case_prod_beta)
  have bytes: "be_int (be_bytes 32 ?a) = ?a" "be_int (be_bytes 32 ?b) = ?b" using f by (simp_all add: in_field_bytes)
  have "rt_hashv R [be_bytes 32 ?a, replicate 24 0 @ be_bytes 8 ?m, be_bytes 32 ?b] = Some (wa_withdrawalCommitment args)"
    using hashv_bytes [OF P, of "[be_bytes 32 ?a, replicate 24 0 @ be_bytes 8 ?m, be_bytes 32 ?b]"] fee_bytes [OF m] f
    by (simp add: bytes wc)
  then show ?thesis
    using g by (simp add: proof_checks_def or_fail_def guard_def program_pubkey_to_field_is_pubkeyToField [OF P] keys)
qed

subsection \<open>What the relayer sends\<close>

lemma sent_checked:
  assumes sees: "relayer_sees H R L E" and P: "poseidon_laws H (rt_hashv R)"
    and V: "snarkjs_verifies PE E" "groth16_solana_verifies PE R" "affine_json (js_get body ''proof'') pt"
    and pool: "acc_owner (L K) = rt_program R" "acc_data (L K) = pool_bytes p" "pool_wf p"
    and sent: "handleSubmit E cache body = (r, Some tx, cache')" and K: "ac_pool (tx_accounts tx) = K"
    and keys: "length (ac_relayer (tx_accounts tx)) = 32" "length (ac_recipient (tx_accounts tx)) = 32"
    and small: "is_u64 (wa_relayerFeeMax (tx_args tx))"
  shows "canonical_inputs (tx_args tx) = Gives ()" "length (wa_nullifierHash (tx_args tx)) = 32"
    and "wa_root (tx_args tx) \<in> set (pl_root_history p)" "wa_root (tx_args tx) \<noteq> replicate 32 0"
    and "ac_treasury (tx_accounts tx) = pl_treasury p" "wa_relayerFeeMax (tx_args tx) \<le> pl_denomination p div 50"
    and "\<exists>b. rt_find_pda R (vault_seeds K) = Some (ac_vault (tx_accounts tx), b)"
    and "\<exists>b. rt_find_pda R (nullifier_seeds K (wa_nullifierHash (tx_args tx))) = Some (ac_nullifierPda (tx_accounts tx), b)"
    and "acc_data (L (ac_nullifierPda (tx_accounts tx))) = []" "proof_checks R (tx_accounts tx) (tx_args tx) = Gives ()"
    and "MIN_BALANCE \<le> lamports L (ac_relayer (tx_accounts tx))"
proof -
  let ?a = "tx_args tx" and ?c = "tx_accounts tx"
  obtain rq pool plan lv where g: "parse_submit E body = Go rq" "load_submit_pool E rq = Go pool"
    "price_submit E rq (fst (submit_rent E cache)) = Go plan" "check_submit E rq pool = Go ()"
    and b: "build_withdraw (env_net E) (env_relayer E) (env_programId E) (rq_pool rq) (rq_recipient rq)
       (pv_treasury pool) (rq_proof rq) (rq_signals rq) (rq_feeMax rq) (sp_fee plan) (sp_perCU plan) = Returns (tx, lv)"
    by (rule handleSubmit_sent [OF sent])
  note tx = build_withdraw_fields [OF b]
  have e: "env_programId E = rt_program R" "env_poseidon E = H" "env_balance E = Returns (lamports L (env_relayer E))"
    using sees by (simp_all add: relayer_sees_def)
  have acc: "a = L k" if "env_account E k = Returns (Some a)" for k a
  proof -
    have "env_account E k = Returns (Some (L k)) \<or> env_account E k = Returns None" using sees unfolding relayer_sees_def by blast
    then show ?thesis using that by auto
  qed
  have pda: "\<exists>b. rt_find_pda R seeds = Some (k, b)" if "net_pda (env_net E) seeds (rt_program R) = Returns k" for seeds k
    using sees that by (simp add: relayer_sees_def)
  have rq: "rq_pool rq = K" using K by (simp add: tx)
  obtain info where "env_account E K = Returns (Some info)" "pool = view_of (acc_data info)"
    using g(2) unfolding load_submit_pool_Go rq by blast
  then have view: "pool = view_of (pool_bytes p)" using acc pool(2) by simp
  have data: "pv_data pool = pool_bytes p" "pv_treasury pool = pl_treasury p" "pv_denomination pool = pl_denomination p"
    using view_of_pool_bytes [OF pool(3)] by (simp_all add: view)
  have len: "POOL_ACCOUNT_LEN \<le> length (pool_bytes p)" using length_pool_bytes [OF pool(3)] by simp
  obtain n rt wc where f: "json_bigint (js_index (rq_signals rq) 0) = Returns n" "json_bigint (js_index (rq_signals rq) 1) = Returns rt"
      "json_bigint (js_index (rq_signals rq) 2) = Returns wc" "wa_nullifierHash ?a = bigIntToBytes32 n"
      "wa_root ?a = bigIntToBytes32 rt" "wa_withdrawalCommitment ?a = bigIntToBytes32 wc"
      "snarkjsProofToBytes (rq_proof rq) = Returns (wa_proof ?a)"
      "net_pda (env_net E) (nullifier_seeds K (bigIntToBytes32 n)) (rt_program R) = Returns (ac_nullifierPda ?c)"
      "findVaultPda (net_pda (env_net E)) K (rt_program R) = Returns (ac_vault ?c)"
    using tx(9) by (auto simp: rq e)
  have chk: "preflight H (pool_bytes p) (rq_signals rq) (env_relayer E) (rq_recipient rq) (rq_feeMax rq)
        (Some (submit_chain E, rt_program R, K)) = Returns PfOk" "env_verify E (rq_proof rq) (rq_signals rq) = Returns True"
    using g(4) by (simp_all add: check_submit_Go data e rq)
  have "in_field n \<and> in_field rt \<and> in_field wc \<and> rt_groth16 R (wa_proof ?a) [be_bytes 32 n, be_bytes 32 rt, be_bytes 32 wc] = Some True"
    using verifiers_agree [OF V(1,2) _ chk(2) f(7,1-3)] V(3) g(1) by (simp add: parse_submit_Go)
  then have fld: "in_field n" "in_field rt" "in_field wc"
      and groth: "rt_groth16 R (wa_proof ?a) [be_bytes 32 n, be_bytes 32 rt, be_bytes 32 wc] = Some True" by blast+
  have by32: "bigIntToBytes32 x = be_bytes 32 x" if "in_field x" for x
    using that BN254_less(1) by (intro bigIntToBytes32_eq) (simp_all add: in_field_def)
  have args: "wa_nullifierHash ?a = be_bytes 32 n" "wa_root ?a = be_bytes 32 rt" "wa_withdrawalCommitment ?a = be_bytes 32 wc"
    using f(4-6) fld by (simp_all add: by32)
  note pf = chk(1) [unfolded preflight_ok_iff [OF len]]
  have ring: "rt \<noteq> 0" "rt \<in> set (map be_int (pl_root_history p))" using pf f(2) pool_bytes_ring [OF pool(3)] by auto
  have commit: "wc = H [pubkeyToField H (env_relayer E), rq_feeMax rq, pubkeyToField H (rq_recipient rq)]" using pf f(3) by auto
  have spent_ok: "spent_check (Some (submit_chain E, rt_program R, K)) (js_index (rq_signals rq) 0) = PfOk" using pf by blast
  show "canonical_inputs ?a = Gives ()"
    using fld by (simp add: canonical_inputs_def guard_def args is_canonical_fr_iff in_field_bytes)
  show "length (wa_nullifierHash ?a) = 32" by (simp add: args)
  show "wa_root ?a \<in> set (pl_root_history p)"
  proof -
    obtain s where s: "s \<in> set (pl_root_history p)" "rt = be_int s" using ring(2) by auto
    then have "length s = 32" using pool(3) by (auto simp: pool_wf_def list_all_iff)
    then show ?thesis using s by (simp add: args field_bytes)
  qed
  show "wa_root ?a \<noteq> replicate 32 0"
  proof
    assume "wa_root ?a = replicate 32 0"
    then have "be_int (wa_root ?a) = 0" using be_int_padded [of 32 "[]"] by simp
    then show False using ring(1) fld(2) by (simp add: args in_field_bytes)
  qed
  show "ac_treasury ?c = pl_treasury p" by (simp add: tx data)
  show "wa_relayerFeeMax ?a \<le> pl_denomination p div 50"
  proof -
    have "0 \<le> pl_denomination p" using pool(3) by (simp add: pool_wf_def is_u64_def)
    then show ?thesis using g(2) by (simp add: load_submit_pool_Go tx data sdiv_nonneg)
  qed
  show "\<exists>b. rt_find_pda R (vault_seeds K) = Some (ac_vault ?c, b)"
    using pda f(9) by (simp add: findVaultPda_def vault_seeds_def)
  show "\<exists>b. rt_find_pda R (nullifier_seeds K (wa_nullifierHash ?a)) = Some (ac_nullifierPda ?c, b)"
    using pda f(4,8) by simp
  show "acc_data (L (ac_nullifierPda ?c)) = []"
  proof -
    have s: "env_account E (ac_nullifierPda ?c) = Returns (Some a) \<Longrightarrow> acc_data a = []" for a
      using spent_ok spent_check_seed [OF f(1), of "submit_chain E" K "rt_program R" "ac_nullifierPda ?c"] fld(1) f(8)
      by (simp add: submit_chain_def in_field_def)
    have "env_account E (ac_nullifierPda ?c) = Returns (Some (L (ac_nullifierPda ?c))) \<or> acc_data (L (ac_nullifierPda ?c)) = []"
      using sees by (auto simp: relayer_sees_def)
    then show ?thesis using s by blast
  qed
  show "proof_checks R ?c ?a = Gives ()"
    by (rule proof_checks_accepted [OF P keys small]) (use groth commit in \<open>simp_all add: args tx\<close>)
  show "MIN_BALANCE \<le> lamports L (ac_relayer ?c)" using g(3) by (auto simp: price_submit_Go e(3) tx)
qed

end
