(* ===== verification/VerifyGroups.thy ===== *)
theory VerifyGroups
  imports DevnetVerify ProgramRelay
begin

text \<open>
  The nine groups of checks of scripts/devnet\_verify.js and its main function. What is proved here: no part
  of the run takes a recorded result back, so the exit code is 0 only if every recorded check passed.
\<close>

definition expected_user :: int where
  "expected_user = VERIFY_DENOMINATION - VERIFY_TREASURY_FEE - VERIFY_FEE_TAKEN"

definition min_rent :: "cluster \<Rightarrow> nat \<Rightarrow> int script" where
  "min_rent C n = sc_js (cl_rent C n)"

definition fee_paid :: "cluster \<Rightarrow> fixture \<Rightarrow> nat \<Rightarrow> int option script" where
  "fee_paid C fx sig = (if fx_treasury fx = cl_wallet C then fetchTxFee C sig else sc_return (Some 0))"

text \<open>\<open>{ recipient: k }\<close> and \<open>{ treasury: k }\<close> spread over the accounts.\<close>

definition with_recipient :: "pubkey \<Rightarrow> withdraw_accounts \<Rightarrow> withdraw_accounts" where
  "with_recipient k acs = acs\<lparr>ac_recipient := k\<rparr>"

definition with_treasury :: "pubkey \<Rightarrow> withdraw_accounts \<Rightarrow> withdraw_accounts" where
  "with_treasury k acs = acs\<lparr>ac_treasury := k\<rparr>"

subsection \<open>C-1: public inputs outside the field\<close>

definition verifyC1_aliases :: "cluster \<Rightarrow> fixture \<Rightarrow> unit script" where
  "verifyC1_aliases C fx =
     (let a = fx_args fx in
      sc_bind (sc_js (bigint_at (fx_signals fx) 0)) (\<lambda>h.
      if 2 ^ 256 \<le> h + BN254_Fr then sc_throw ''alias does not fit in 32 bytes''
      else let aliasedBytes = script_bytes32 (h + BN254_Fr) in
      sc_bind (sc_js (script_findNullifierPda C (fx_pool fx) (wa_nullifierHash a))) (\<lambda>canonPda.
      sc_bind (sc_js (script_findNullifierPda C (fx_pool fx) aliasedBytes)) (\<lambda>aliasPda.
      sc_then (record_result ''C-1'' ''aliased hash derives a different nullifier PDA'' (canonPda \<noteq> aliasPda)) (
      sc_then (expectReject ''C-1'' ''nullifier_hash >= Fr is rejected'' ''NonCanonicalPublicInput''
        (withdrawCall C fx (a\<lparr>wa_nullifierHash := aliasedBytes\<rparr>) id)) (
      sc_then (expectReject ''C-1'' ''root >= Fr is rejected'' ''NonCanonicalPublicInput''
        (sc_bind (sc_js (bigint_at (fx_signals fx) 1)) (\<lambda>r.
         sc_bind (randomFieldElem C) (\<lambda>x.
         withdrawCall C fx (a\<lparr>wa_root := script_bytes32 (r + BN254_Fr), wa_nullifierHash := script_bytes32 x\<rparr>) id)))) (
      expectReject ''C-1'' ''withdrawal_commitment >= Fr is rejected'' ''NonCanonicalPublicInput''
        (sc_bind (sc_js (bigint_at (fx_signals fx) 2)) (\<lambda>c.
         sc_bind (randomFieldElem C) (\<lambda>x.
         withdrawCall C fx (a\<lparr>wa_withdrawalCommitment := script_bytes32 (c + BN254_Fr), wa_nullifierHash := script_bytes32 x\<rparr>) id))))))))))"

definition verifyC1_payout :: "cluster \<Rightarrow> fixture \<Rightarrow> unit script" where
  "verifyC1_payout C fx =
     sc_bind (get_balance C (fx_recipient fx)) (\<lambda>recipBefore.
     sc_bind (get_balance C (fx_treasury fx)) (\<lambda>treasBefore.
     sc_bind (get_balance C (fx_vault fx)) (\<lambda>vaultPre.
     sc_catch (
       sc_bind (withdrawCall C fx (fx_args fx) id) (\<lambda>sig.
       sc_bind (get_balance C (fx_recipient fx)) (\<lambda>recipAfter.
       sc_bind (get_balance C (fx_treasury fx)) (\<lambda>treasAfter.
       sc_bind (get_balance C (fx_vault fx)) (\<lambda>vaultPost.
       sc_then (record_result ''C-1'' ''honest canonical proof still succeeds'' (rnd (recipAfter - recipBefore) = expected_user)) (
       sc_then (record_result ''C-1'' ''vault debited exactly one denomination'' (rnd (vaultPre - vaultPost) = VERIFY_DENOMINATION)) (
       sc_bind (fee_paid C fx sig) (\<lambda>paidFee.
       record_result ''C-1'' ''treasury fee correct (denomination/500)''
         (case paidFee of None \<Rightarrow> False | Some p \<Rightarrow> rnd (treasAfter - treasBefore) = VERIFY_TREASURY_FEE - p)))))))))
       (\<lambda>_. record_result ''C-1'' ''honest canonical proof still succeeds'' False))))"

definition verifyC1 :: "cluster \<Rightarrow> fixture \<Rightarrow> unit script" where
  "verifyC1 C fx =
     sc_bind (get_balance C (fx_vault fx)) (\<lambda>_.
     sc_then (verifyC1_aliases C fx) (
     sc_then (verifyC1_payout C fx) (
     expectReject ''C-1'' ''replay of the spent canonical hash still blocked'' ''NullifierAlreadySpent''
       (withdrawCall C fx (fx_args fx) id))))"

subsection \<open>H-1: a nullifier account funded before its time\<close>

definition nullifier_ready :: "cluster \<Rightarrow> int \<Rightarrow> account_info option \<Rightarrow> bool" where
  "nullifier_ready C minRent post =
     (case post of None \<Rightarrow> False
      | Some a \<Rightarrow> acc_owner a = rt_program (cl_runtime C) \<and> length (acc_data a) = 80 \<and> minRent \<le> acc_lamports a)"

definition verifyH1 :: "cluster \<Rightarrow> fixture \<Rightarrow> unit script" where
  "verifyH1 C fx =
     sc_bind (sc_js (script_findNullifierPda C (fx_pool fx) (wa_nullifierHash (fx_args fx)))) (\<lambda>pda.
     sc_bind (min_rent C 0) (\<lambda>griefAmount.
     sc_then (transact C (cl_wallet C) 1 (TransferIx (cl_wallet C) pda griefAmount)) (
     sc_bind (get_account C pda) (\<lambda>pre.
     sc_then (record_result ''H-1'' ''nullifier PDA can be pre-funded by a third party''
       (case pre of None \<Rightarrow> False | Some a \<Rightarrow> acc_lamports a = griefAmount \<and> length (acc_data a) = 0)) (
     sc_bind (get_balance C (fx_recipient fx)) (\<lambda>recipBefore.
     sc_then (sc_catch (
       sc_then (withdrawCall C fx (fx_args fx) id) (
       sc_bind (get_balance C (fx_recipient fx)) (\<lambda>recipAfter.
       sc_then (record_result ''H-1'' ''withdrawal completes despite the pre-funded PDA'' (rnd (recipAfter - recipBefore) = expected_user)) (
       sc_bind (get_account C pda) (\<lambda>post.
       sc_bind (min_rent C 80) (\<lambda>minRent.
       sc_then (record_result ''H-1'' ''nullifier account correctly initialised by the fallback path'' (nullifier_ready C minRent post)) (
       record_result ''H-1'' ''nullifier account records its pool''
         (case post of None \<Rightarrow> False | Some a \<Rightarrow> subarray (acc_data a) 8 40 = fx_pool fx))))))))
       (\<lambda>_. record_result ''H-1'' ''withdrawal completes despite the pre-funded PDA'' False)) (
     expectReject ''H-1'' ''double-spend guard still holds after the fallback path'' ''NullifierAlreadySpent''
       (withdrawCall C fx (fx_args fx) id))))))))"

text \<open>A withdrawal by the fixture's own arguments and the check that the recipient was paid, used by three groups.\<close>

definition pays_recipient :: "cluster \<Rightarrow> fixture \<Rightarrow> string \<Rightarrow> string \<Rightarrow> unit script" where
  "pays_recipient C fx id_text name =
     sc_bind (get_balance C (fx_recipient fx)) (\<lambda>before.
     sc_catch (
       sc_then (withdrawCall C fx (fx_args fx) id) (
       sc_bind (get_balance C (fx_recipient fx)) (\<lambda>after.
       record_result id_text name (rnd (after - before) = expected_user))))
       (\<lambda>_. record_result id_text name False))"

subsection \<open>H-2, H-3\<close>

definition verifyH2 :: "cluster \<Rightarrow> fixture \<Rightarrow> unit script" where
  "verifyH2 C fx =
     (let recipInt = pubkeyToBigInt (fx_recipient fx); aliasInt = recipInt + BN254_Fr in
      if 2 ^ 256 \<le> aliasInt then record_result ''H-2'' ''alias fits in 32 bytes'' False
      else let alias = script_bytes32 aliasInt in
      sc_then (record_result ''H-2'' ''old mod-Fr encoding collided for these two addresses''
        (recipInt mod BN254_Fr = aliasInt mod BN254_Fr \<and> alias \<noteq> fx_recipient fx)) (
      sc_then (record_result ''H-2'' ''new encoding separates them''
        (script_pubkeyToField (cl_hash C) (fx_recipient fx) \<noteq> script_pubkeyToField (cl_hash C) alias)) (
      sc_then (expectReject ''H-2'' ''substituted alias recipient is rejected'' ''InvalidWithdrawalCommitment''
        (withdrawCall C fx (fx_args fx) (with_recipient alias))) (
      sc_bind (get_balance C alias) (\<lambda>aliasBal.
      sc_then (record_result ''H-2'' ''alias received nothing'' (aliasBal = 0)) (
      pays_recipient C fx ''H-2'' ''intended recipient still paid in full''))))))"

definition verifyH3 :: "cluster \<Rightarrow> fixture \<Rightarrow> unit script" where
  "verifyH3 C fx =
     (let cap = VERIFY_DENOMINATION div 50 in
      sc_then (record_result ''H-3'' ''cap is 2% of denomination'' (cap = 400000)) (
      sc_then (expectReject ''H-3'' ''relayer_fee_max above the cap is rejected'' ''RelayerFeeMaxTooHigh''
        (withdrawCall C fx ((fx_args fx)\<lparr>wa_relayerFeeMax := cap + 1, wa_relayerFeeTaken := 0\<rparr>) id)) (
      pays_recipient C fx ''H-3'' ''in-cap fee still succeeds'')))"

subsection \<open>H-5: the rebuilt tree against the chain\<close>

definition sdk_tree_of :: "cluster \<Rightarrow> int list \<Rightarrow> merkle_tree" where
  "sdk_tree_of C leaves = foldl (\<lambda>t l. fst (mt_insert (pair_hash (cl_hash C)) t l)) (new_tree (pair_hash (cl_hash C)) 20) leaves"

definition swap_first_two :: "int list \<Rightarrow> int list" where
  "swap_first_two leaves = (case leaves of a # b # rest \<Rightarrow> b # a # rest | _ \<Rightarrow> leaves)"

text \<open>The two regular expressions select by what the shortened texts begin with.\<close>

definition verifyH5_trees :: "cluster \<Rightarrow> int list \<Rightarrow> bytes \<Rightarrow> unit script" where
  "verifyH5_trees C leaves data =
     sc_bind (sc_js (readPoolTreeState data)) (\<lambda>state.
     sc_then (record_result ''H-5'' ''pool tree state decodes from real account data''
       (pt_nextIndex state = int (length leaves) \<and> length (pt_roots state) = 256)) (
     sc_then (record_result ''H-5'' ''correctly rebuilt tree matches the on-chain root''
       (case verifyTreeMatchesPool (sdk_tree_of C leaves) data of Returns _ \<Rightarrow> True | Throws _ \<Rightarrow> False)) (
     sc_then (case verifyTreeMatchesPool (sdk_tree_of C (butlast leaves)) data of
          Returns _ \<Rightarrow> record_result ''H-5'' ''incomplete tree is rejected'' False
        | Throws e \<Rightarrow> record_result ''H-5'' ''incomplete tree is rejected with a precise count'' (starts_with e ''Merkle tree is incomplete'')) (
     sc_when (2 \<le> length leaves) (record_result ''H-5'' ''out-of-order tree is rejected''
       (case verifyTreeMatchesPool (sdk_tree_of C (swap_first_two leaves)) data of
          Returns _ \<Rightarrow> False | Throws e \<Rightarrow> starts_with e ''Rebuilt Merkle root does not match''))))))"

definition verifyH5 :: "cluster \<Rightarrow> unit js \<Rightarrow> fixture \<Rightarrow> unit script" where
  "verifyH5 C sdk_import fx =
     (case sdk_import of
        Throws _ \<Rightarrow> record_result ''H-5'' ''SDK dist importable'' False
      | Returns _ \<Rightarrow>
          sc_bind (get_account C (fx_pool fx)) (\<lambda>poolAccount.
          case poolAccount of None \<Rightarrow> sc_throw ''Cannot read properties of null''
          | Some a \<Rightarrow> verifyH5_trees C (st_layers (fx_tree fx) ! 0) (acc_data a)))"

subsection \<open>F-5, M-2, M-3\<close>

definition verifyF5 :: "cluster \<Rightarrow> fixture \<Rightarrow> unit script" where
  "verifyF5 C fx =
     sc_bind (sc_js (script_findNullifierPda C (fx_pool fx) (wa_nullifierHash (fx_args fx)))) (\<lambda>nullifierPda.
     expectReject ''F-5'' ''the nullifier PDA cannot be the recipient'' ''DuplicateAccount''
       (withdrawCall C fx (fx_args fx) (with_recipient nullifierPda)))"

definition verifyM2_balance :: "cluster \<Rightarrow> fixture \<Rightarrow> unit script" where
  "verifyM2_balance C fx =
     sc_bind (get_balance C (fx_vault fx)) (\<lambda>v0. sc_bind (get_balance C (fx_treasury fx)) (\<lambda>t0.
     sc_bind (get_balance C (fx_recipient fx)) (\<lambda>r0.
     sc_catch (
       sc_bind (withdrawCall C fx (fx_args fx) id) (\<lambda>sig.
       sc_bind (get_balance C (fx_vault fx)) (\<lambda>v1. sc_bind (get_balance C (fx_treasury fx)) (\<lambda>t1.
       sc_bind (get_balance C (fx_recipient fx)) (\<lambda>r1.
       sc_bind (fee_paid C fx sig) (\<lambda>paidFee.
       sc_then (record_result ''M-2'' ''vault debited exactly one denomination'' (rnd (v0 - v1) = VERIFY_DENOMINATION)) (
       case paidFee of
         None \<Rightarrow> sc_throw ''Cannot mix BigInt and other types''
       | Some p \<Rightarrow> record_result ''M-2'' ''credits sum to the vault debit''
           (rnd (v0 - v1) = rnd (t1 - t0) + p + rnd (r1 - r0) + VERIFY_FEE_TAKEN))))))))
       (\<lambda>_. record_result ''M-2'' ''honest withdrawal conserves lamports'' False))))"

definition verifyM2 :: "cluster \<Rightarrow> fixture \<Rightarrow> fixture \<Rightarrow> unit script" where
  "verifyM2 C fxVault fx =
     sc_then (expectReject ''M-2'' ''vault as recipient is rejected by the distinctness guard'' ''DuplicateAccount''
       (withdrawCall C fxVault (fx_args fxVault) (with_recipient (fx_vault fxVault)))) (
     sc_then (expectReject ''M-2'' ''vault as treasury is rejected (by the treasury binding, before distinctness)'' ''InvalidTreasury''
       (withdrawCall C fx (fx_args fx) (with_treasury (fx_vault fx)))) (
     verifyM2_balance C fx))"

definition paused_byte :: "cluster \<Rightarrow> pubkey \<Rightarrow> (byte option \<Rightarrow> unit script) \<Rightarrow> unit script" where
  "paused_byte C poolPda k =
     sc_bind (get_account C poolPda) (\<lambda>a.
     case a of None \<Rightarrow> sc_throw ''Cannot read properties of null''
     | Some info \<Rightarrow> k (if VERIFY_OFF_IS_PAUSED < length (acc_data info) then Some (acc_data info ! VERIFY_OFF_IS_PAUSED) else None))"

definition verifyM3 :: "cluster \<Rightarrow> fixture \<Rightarrow> unit script" where
  "verifyM3 C fx =
     sc_then (transact C (cl_wallet C) 1 (ProgramIx (PausePool (cl_wallet C) (fx_pool fx)))) (
     sc_then (paused_byte C (fx_pool fx) (\<lambda>b. record_result ''M-3'' ''pool is paused'' (b = Some 1))) (
     sc_then (expectReject ''M-3'' ''deposits are blocked while paused'' ''PoolPaused''
       (sc_bind (randomFieldElem C) (\<lambda>x.
        transact C (cl_wallet C) 1 (ProgramIx (Deposit (fx_pool fx) (fx_vault fx) (cl_wallet C) (script_bytes32 x)))))) (
     sc_then (pays_recipient C fx ''M-3'' ''withdrawal succeeds while paused'') (
     sc_then (transact C (cl_wallet C) 1 (ProgramIx (UnpausePool (cl_wallet C) (fx_pool fx)))) (
     paused_byte C (fx_pool fx) (\<lambda>b. record_result ''M-3'' ''pool unpaused again'' (b = Some 0)))))))"

subsection \<open>N-3: the denomination floor\<close>

text \<open>\<open>Math.floor(minRent / 0.978) - 1_000\<close>, in doubles, then the BN and the pool it names.\<close>

definition just_below :: "int \<Rightarrow> int" where
  "just_below minRent = rnd (\<lfloor>fl (of_int minRent / fl (978 / 1000))\<rfloor> - 1000)"

definition verifyN3 :: "cluster \<Rightarrow> unit script" where
  "verifyN3 C =
     sc_bind (min_rent C 0) (\<lambda>minRent.
     sc_then (record_result ''N-3'' ''runtime rent floor for a fresh 0-byte account is readable and sane'' (0 < minRent \<and> minRent < 100000000)) (
     let tooLow = just_below minRent in
     sc_bind (sc_js (script_findPoolPda C (cl_wallet C) tooLow 9)) (\<lambda>badPool.
     sc_bind (sc_js (script_findVaultPda C badPool)) (\<lambda>badVault.
     sc_then (expectReject ''N-3'' ''pool below the payout floor is rejected'' ''DenominationTooLow''
       (transact C (cl_wallet C) 1 (ProgramIx (InitializePool (cl_wallet C) badPool badVault (cl_wallet C) tooLow 9)))) (
     sc_each (\<lambda>(label, denom).
         record_result ''N-3'' (''deployed '' @ label @ '' pool clears the payout floor'')
           (minRent \<le> denom - denom div 500 - denom div 50))
       [(''0.1 SOL'', 100000000), (''1 SOL'', 1000000000), (''10 SOL'', 10000000000)])))))"

subsection \<open>The run\<close>

record verify_args =
  va_artifacts :: bool
  va_argv :: "string list"
  va_setup :: "unit js"
  va_upper :: "string \<Rightarrow> string"
  va_sdk :: "unit js"

definition group_wanted :: "verify_args \<Rightarrow> string \<Rightarrow> bool" where
  "group_wanted V id_text = (let requested = map (va_upper V) (va_argv V) in requested = [] \<or> id_text \<in> set requested)"

definition any_recipient :: "pubkey \<Rightarrow> bool" where "any_recipient k = True"

definition own_recipient :: "bytes \<Rightarrow> pubkey \<Rightarrow> pubkey \<Rightarrow> pubkey js" where
  "own_recipient nhBytes poolPda recipient = Returns recipient"

definition alias_fits :: "pubkey \<Rightarrow> bool" where
  "alias_fits pk = (pubkeyToBigInt pk + BN254_Fr < 2 ^ 256)"

definition plain_fixture :: "cluster \<Rightarrow> fixture script" where
  "plain_fixture C = setupFixture C any_recipient own_recipient"

definition m2_group :: "cluster \<Rightarrow> unit script" where
  "m2_group C =
     sc_bind (sc_js (script_findPoolPda C (cl_wallet C) VERIFY_DENOMINATION VERIFY_VERSION)) (\<lambda>poolPda.
     sc_bind (sc_js (script_findVaultPda C poolPda)) (\<lambda>vaultPda.
     sc_bind (setupFixture C any_recipient (\<lambda>_ _ _. Returns vaultPda)) (\<lambda>fxVault.
     sc_bind (plain_fixture C) (\<lambda>fxNormal. verifyM2 C fxVault fxNormal))))"

definition verify_groups :: "cluster \<Rightarrow> verify_args \<Rightarrow> (string \<times> unit script) list" where
  "verify_groups C V =
     [(''C-1'', sc_bind (plain_fixture C) (verifyC1 C)),
      (''H-1'', sc_bind (plain_fixture C) (verifyH1 C)),
      (''H-2'', sc_bind (setupFixture C alias_fits own_recipient) (verifyH2 C)),
      (''N-3'', verifyN3 C),
      (''F-5'', sc_bind (setupFixture C any_recipient (\<lambda>nhBytes poolPda _. script_findNullifierPda C poolPda nhBytes)) (verifyF5 C)),
      (''M-2'', m2_group C),
      (''M-3'', sc_bind (plain_fixture C) (verifyM3 C)),
      (''H-5'', sc_bind (plain_fixture C) (verifyH5 C (va_sdk V))),
      (''H-3'', sc_bind (plain_fixture C) (verifyH3 C))]"

text \<open>\<open>main\<close>: the exit code, with 1 for anything thrown. 0.2 SOL are \<open>0.2 * LAMPORTS_PER_SOL = 200000000\<close> lamports.\<close>

definition verify_body :: "cluster \<Rightarrow> verify_args \<Rightarrow> int script" where
  "verify_body C V =
     (if \<not> va_artifacts V then sc_return 1
      else sc_then (sc_js (va_setup V)) (
      sc_bind (get_balance C (cl_wallet C)) (\<lambda>bal.
      if bal < 200000000 then sc_return 1
      else sc_then (sc_each (\<lambda>(id_text, run). sc_when (group_wanted V id_text) run) (verify_groups C V))
        (\<lambda>w. (Done (if list_ex (\<lambda>(_, _, ok). \<not> ok) (wd_results w) then 1 else 0), w)))))"

definition verify_main :: "cluster \<Rightarrow> verify_args \<Rightarrow> int script" where
  "verify_main C V = sc_catch (verify_body C V) (\<lambda>_. sc_return 1)"

subsection \<open>Results stay\<close>

lemma keeps_result [kept]: "keeps (record_result i n ok)"
  by (simp add: keeps_def record_result_def)

lemma keeps_reject [kept]: "keeps fn \<Longrightarrow> keeps (expectReject i n c fn)"
  by (simp add: expectReject_def kept)

lemma keeps_fee [kept]: "keeps (fetchTxFee C sig)"
proof -
  have "keeps (fetch_fee_tries C sig i n)" for i n
    by (induction n arbitrary: i) (auto intro!: kept split: option.split)
  then show ?thesis by (simp add: fetchTxFee_def)
qed

lemma keeps_steps [kept]:
  "keeps (randomFieldElem C)" "keeps (saveLeaves k ls)" "keeps (draw_recipient C P)" "keeps (deposit_leaf C K V c)"
  "keeps (withdrawCall C fx a f)" "keeps (min_rent C n)" "keeps (fee_paid C fx sig)"
  by (auto simp: randomFieldElem_def deposit_leaf_def withdrawCall_def min_rent_def fee_paid_def kept intro!: kept)
     (auto simp: saveLeaves_def draw_recipient_def Let_def intro!: keepsI split: js.splits json.splits option.splits)

lemma keeps_cached [kept]: "keeps (cached_leaves_in k)"
  by (simp add: keepsI cached_leaves_in_def)

lemma keeps_existing [kept]: "keeps (existing_leaves C K)"
  unfolding existing_leaves_def Let_def by (auto intro!: kept split: option.split)

lemma keeps_treasury [kept]: "keeps (pool_treasury C K V)"
  by (auto simp: pool_treasury_def intro!: kept split: option.split)

lemma keeps_setup [kept]: "keeps (setupFixture C P f)"
  unfolding setupFixture_def Let_def by (intro kept)

lemma keeps_pays [kept]: "keeps (pays_recipient C fx i n)"
  unfolding pays_recipient_def by (intro kept)

lemma keeps_byte [kept]: "(\<And>b. keeps (k b)) \<Longrightarrow> keeps (paused_byte C K k)"
  by (auto simp: paused_byte_def intro!: kept split: option.split)

lemma keeps_balance [kept]: "keeps (verifyM2_balance C fx)"
  unfolding verifyM2_balance_def by (auto intro!: kept split: option.split)

lemma keeps_m2 [kept]: "keeps (verifyM2 C fv fx)"
  unfolding verifyM2_def by (intro kept)

lemma keeps_c1 [kept]: "keeps (verifyC1 C fx)"
  unfolding verifyC1_def verifyC1_aliases_def verifyC1_payout_def Let_def by (auto intro!: kept)

lemma keeps_h1 [kept]: "keeps (verifyH1 C fx)"
  unfolding verifyH1_def by (intro kept)

lemma keeps_h2 [kept]: "keeps (verifyH2 C fx)"
  unfolding verifyH2_def Let_def by (auto intro!: kept)

lemma keeps_h3 [kept]: "keeps (verifyH3 C fx)"
  unfolding verifyH3_def Let_def by (intro kept)

lemma keeps_h5 [kept]: "keeps (verifyH5 C s fx)"
  unfolding verifyH5_def verifyH5_trees_def by (auto intro!: kept split: js.split option.split)

lemma keeps_f5 [kept]: "keeps (verifyF5 C fx)"
  unfolding verifyF5_def by (intro kept)

lemma keeps_m3 [kept]: "keeps (verifyM3 C fx)"
  unfolding verifyM3_def by (intro kept)

lemma keeps_n3 [kept]: "keeps (verifyN3 C)"
  unfolding verifyN3_def Let_def by (auto intro!: kept)

lemma keeps_group: "(i, m) \<in> set (verify_groups C V) \<Longrightarrow> keeps m"
  by (auto simp: verify_groups_def m2_group_def plain_fixture_def intro!: kept)

end
