(* ===== verification/ProgramExample.thy ===== *)
theory ProgramExample
  imports ProgramRelay
begin

text \<open>
  A concrete runtime that satisfies the laws, and the life of one pool on it: created, one deposit, one
  withdrawal. The witnesses of the program's theorems rest on it.
\<close>

subsection \<open>A hash that gives the program's table\<close>

definition toy_hash :: "int list \<Rightarrow> int" where
  "toy_hash xs = (case xs of
       [a, b] \<Rightarrow> (if a = b then (case map_of (zip zero_values (tl zero_values)) a of Some z \<Rightarrow> z | None \<Rightarrow> 7) else 7)
     | _ \<Rightarrow> 7)"

lemma zero_values_fields: "list_all in_field zero_values"
  by (simp add: zero_values_def in_field_def BN254_Fr_def)

lemma toy_hash_field: "in_field (toy_hash xs)"
proof -
  have "in_field z" if "map_of (zip zero_values (tl zero_values)) a = Some z" for a z
  proof -
    have "(a, z) \<in> set (zip zero_values (tl zero_values))" using that by (rule map_of_SomeD)
    then have "z \<in> set (tl zero_values)" by (rule set_zip_rightD)
    moreover have "set (tl zero_values) \<subseteq> set zero_values" by (simp add: zero_values_def)
    ultimately show ?thesis using zero_values_fields by (auto simp: list_all_iff)
  qed
  moreover have "in_field 7" by (simp add: in_field_def BN254_Fr_def)
  ultimately show ?thesis by (auto simp: toy_hash_def split: list.splits option.splits)
qed

lemma zero_values_distinct: "distinct zero_values"
  by (simp add: zero_values_def)

lemma toy_hash_step: "Suc i < 20 \<Longrightarrow> toy_hash [zero_values ! i, zero_values ! i] = zero_values ! Suc i"
proof -
  assume i: "Suc i < 20"
  have l: "length zero_values = 20" by (simp add: zero_values_def)
  let ?z = "zip zero_values (tl zero_values)"
  have "i < length ?z" "?z ! i = (zero_values ! i, zero_values ! Suc i)" using i l by (simp_all add: nth_tl)
  then have "(zero_values ! i, zero_values ! Suc i) \<in> set ?z" by (metis nth_mem)
  moreover have "map fst ?z = butlast zero_values" using l by (simp add: map_fst_zip_take butlast_conv_take)
  then have "distinct (map fst ?z)" using zero_values_distinct by (simp add: distinct_butlast)
  ultimately have "map_of ?z (zero_values ! i) = Some (zero_values ! Suc i)" by simp
  then show ?thesis by (simp add: toy_hash_def)
qed

lemma toy_zero_node: "i < 20 \<Longrightarrow> zero_node (pair_hash toy_hash) i = zero_values ! i"
proof (induction i)
  case 0
  show ?case by (simp add: zero_values_def)
next
  case (Suc i)
  then show ?case using toy_hash_step [OF Suc.prems] by simp
qed

lemma toy_zeros: "zeros_generated toy_hash"
  unfolding zeros_generated_def generate_zeros_eq
proof (rule nth_equalityI)
  have l: "length zero_values = 20" by (simp add: zero_values_def)
  show "length ZEROS = length (map (\<lambda>i. fieldToBytes32 (zero_node (pair_hash toy_hash) i)) [0..<20])"
    using l by (simp add: ZEROS_def)
  fix i
  assume "i < length ZEROS"
  then have i: "i < 20" using l by (simp add: ZEROS_def)
  have "in_field (zero_values ! i)" using zero_values_fields i l by (simp add: list_all_length)
  then have "fieldToBytes32 (zero_values ! i) = be_bytes 32 (zero_values ! i)"
    using BN254_less(1) by (intro fieldToBytes32_eq) (simp_all add: in_field_def)
  then show "ZEROS ! i = map (\<lambda>i. fieldToBytes32 (zero_node (pair_hash toy_hash) i)) [0..<20] ! i"
    using i l by (simp add: ZEROS_def toy_zero_node del: upt_Suc)
qed

definition toy_hashv :: hash_syscall where
  "toy_hashv bs = (if list_all (\<lambda>b. in_field (be_int b)) bs then Some (be_bytes 32 (toy_hash (map be_int bs))) else None)"

lemma toy_poseidon: "poseidon_laws toy_hash toy_hashv"
  by (simp add: poseidon_laws_def toy_hashv_def toy_hash_field)

subsection \<open>A runtime\<close>

definition key :: "int \<Rightarrow> pubkey" where "key n = be_bytes 32 n"

lemma length_key [simp]: "length (key n) = 32"
  by (simp add: key_def)

lemma key_inj [simp]: "0 \<le> a \<Longrightarrow> a < 256 \<Longrightarrow> 0 \<le> b \<Longrightarrow> b < 256 \<Longrightarrow> key a = key b \<longleftrightarrow> a = b"
proof
  assume r: "0 \<le> a" "a < 256" "0 \<le> b" "b < 256" and e: "key a = key b"
  have "be_int (key x) = x" if "0 \<le> x" "x < 256" for x using that by (simp add: key_def be_int_be_bytes)
  then show "a = b" using r e by metis
qed simp

definition toy_rent :: "nat \<Rightarrow> int" where "toy_rent space = (128 + int space) * 6960"

definition toy_sys_move :: "pubkey \<Rightarrow> pubkey \<Rightarrow> int \<Rightarrow> ledger \<Rightarrow> ledger option" where
  "toy_sys_move a b n L = (if acc_owner (L a) = key 2 \<and> n \<le> lamports L a then Some (move a b n L) else None)"

definition toy_create :: "pubkey \<Rightarrow> pubkey \<Rightarrow> int \<Rightarrow> nat \<Rightarrow> pubkey \<Rightarrow> ledger \<Rightarrow> ledger option" where
  "toy_create a k n space own L =
     (if a \<noteq> k \<and> acc_owner (L a) = key 2 \<and> acc_owner (L k) = key 2 \<and> acc_data (L k) = [] \<and> n \<le> lamports L a
      then Some ((move a k n L)(k := \<lparr>acc_owner = own, acc_data = replicate space 0, acc_lamports = lamports L k + n\<rparr>)) else None)"

fun toy_sys :: "sys_call \<Rightarrow> ledger \<Rightarrow> ledger option" where
  "toy_sys (SysTransfer a b n) L = toy_sys_move a b n L"
| "toy_sys (SysCreate a k n space own) L = toy_create a k n space own L"
| "toy_sys (SysAllocate k space) L = (if acc_owner (L k) = key 2 \<and> acc_data (L k) = [] then Some (set_data L k (replicate space 0)) else None)"
| "toy_sys (SysAssign k own) L = (if acc_owner (L k) = key 2 then Some (L(k := (L k)\<lparr>acc_owner := own\<rparr>)) else None)"
| "toy_sys (AnchorInit a k space) L = toy_create a k (max 0 (toy_rent space - lamports L k)) space (key 1) L"

definition toy :: runtime where
  "toy = \<lparr>rt_program = key 1, rt_system = key 2, rt_hashv = toy_hashv,
     rt_create_pda = \<lambda>s. Some (key (int (length (concat s)) - 1)), rt_find_pda = \<lambda>s. Some (key (int (length (concat s))), 255),
     rt_groth16 = \<lambda>p xs. Some True, rt_min_balance = toy_rent, rt_is_exempt = \<lambda>n len. toy_rent len \<le> n,
     rt_slot = 5, rt_timestamp = 6, rt_vault_disc = replicate 8 1, rt_nullifier_disc = replicate 8 2, rt_sys = toy_sys\<rparr>"

lemma toy_simps [simp]:
  "rt_program toy = key 1" "rt_system toy = key 2" "rt_hashv toy = toy_hashv" "rt_create_pda toy s = Some (key (int (length (concat s)) - 1))"
  "rt_find_pda toy s = Some (key (int (length (concat s))), 255)" "rt_groth16 toy p xs = Some True" "rt_min_balance toy = toy_rent"
  "rt_vault_disc toy = replicate 8 1" "rt_nullifier_disc toy = replicate 8 2" "rt_sys toy = toy_sys" "rt_timestamp toy = 6"
  by (simp_all add: toy_def)

lemma toy_rent_nonneg [simp]: "0 \<le> toy_rent n"
  by (simp add: toy_rent_def)

lemma toy_laws: "runtime_laws toy_hash toy"
proof -
  have "init_law toy"
    unfolding init_law_def
  proof (intro allI impI)
    fix a k space L L'
    assume "rt_sys toy (AnchorInit a k space) L = Some L'"
    then have h: "a \<noteq> k" "acc_owner (L a) = key 2" "fresh toy L k"
        and e: "L' = (move a k (max 0 (toy_rent space - lamports L k)) L)(k := \<lparr>acc_owner = key 1, acc_data = replicate space 0,
          acc_lamports = lamports L k + max 0 (toy_rent space - lamports L k)\<rparr>)"
      by (auto simp: toy_create_def fresh_def split: if_splits)
    have "toy_rent space \<le> lamports L' k" by (simp add: e) (simp add: lamports_def)
    then show "a \<noteq> k \<and> acc_owner (L a) = rt_system toy \<and> fresh toy L k \<and> rt_min_balance toy space \<le> lamports L' k
        \<and> (\<exists>c\<ge>0. L' = (move a k c L)(k := \<lparr>acc_owner = rt_program toy, acc_data = replicate space 0, acc_lamports = lamports L k + c\<rparr>))"
      using h e by (intro conjI exI [of _ "max 0 (toy_rent space - lamports L k)"]) simp_all
  qed
  moreover have "transfer_law toy" by (simp add: transfer_law_def toy_sys_move_def)
  moreover have "create_law toy" by (simp add: create_law_def toy_create_def fresh_def)
  moreover have "replicate 8 1 \<noteq> POOL_DISCRIMINATOR" "replicate 8 2 \<noteq> POOL_DISCRIMINATOR"
    by code_simp+
  moreover have "allocate_law toy" "assign_law toy" by (simp_all add: allocate_law_def assign_law_def fresh_def)
  ultimately show ?thesis
    using toy_poseidon toy_zeros by (simp add: runtime_laws_def system_laws_def address_laws_def)
qed

lemma toy_works: "system_works toy"
  by (simp add: system_works_def transfer_works_def create_works_def reassign_works_def wallet_def fresh_def toy_sys_move_def toy_create_def)

subsection \<open>A pool's life\<close>

text \<open>Addresses: the pool is key 77, its vault key 37, the nullifier account key 73; key 3 is the admin and key 4 the treasury.\<close>

definition toy_start :: ledger where
  "toy_start k = \<lparr>acc_owner = key 2, acc_data = [], acc_lamports = (if k = key 77 \<or> k = key 37 \<or> k = key 73 then 0 else 100000000000)\<rparr>"

definition toy_root :: bytes where "toy_root = the (toy_hashv [ZEROS ! 19, ZEROS ! 19])"

definition toy_pool :: pool where
  "toy_pool = \<lparr>pl_admin = key 3, pl_mint = replicate 32 0, pl_denomination = 1000000000, pl_mint_decimals = 9, pl_pad0 = replicate 7 0,
     pl_next_index = 0, pl_treasury = key 4, pl_version = 1, pl_bump = 255, pl_vault_bump = 255,
     pl_is_paused = 0, pl_pad1 = replicate 4 0, pl_current_root_index = 0,
     pl_root_history = (replicate 256 (replicate 32 0))[0 := toy_root], pl_filled_subtrees = ZEROS\<rparr>"

lemma toy_root_defined: "toy_hashv [ZEROS ! 19, ZEROS ! 19] = Some toy_root"
proof -
  have l: "length zero_values = 20" by (simp add: zero_values_def)
  have f: "in_field (zero_values ! 19)" using zero_values_fields l by (simp add: list_all_length)
  then show ?thesis by (simp add: toy_root_def toy_hashv_def ZEROS_def l in_field_bytes)
qed

lemma toy_initialize: "initialize_handler toy (key 3) (key 4) 1000000000 1 255 255 = Gives toy_pool"
proof -
  have "toy_rent 0 \<le> 978000000" by (simp add: toy_rent_def)
  then show ?thesis
    unfolding initialize_handler_def toy_pool_def TREE_DEPTH_def toy_simps
    using toy_root_defined
    by (simp add: guard_def or_fail_def worst_case_user_amount_def checked_sub_def PROGRAM_FEE_DIVISOR_def ROOT_HISTORY_SIZE_def Let_def)
qed

definition toy_made :: ledger where
  "toy_made =
     (let L1 = the (toy_sys (AnchorInit (key 3) (key 77) 8976) toy_start); L2 = the (toy_sys (AnchorInit (key 3) (key 37) 8) L1)
      in set_data (set_data L2 (key 77) (pool_bytes toy_pool)) (key 37) (replicate 8 1))"

lemma toy_made_eq:
  "toy_made k = (if k = key 77 then \<lparr>acc_owner = key 1, acc_data = pool_bytes toy_pool, acc_lamports = toy_rent 8976\<rparr>
     else if k = key 37 then \<lparr>acc_owner = key 1, acc_data = replicate 8 1, acc_lamports = toy_rent 8\<rparr>
     else if k = key 3 then \<lparr>acc_owner = key 2, acc_data = [], acc_lamports = 100000000000 - toy_rent 8976 - toy_rent 8\<rparr>
     else toy_start k)"
  by (simp add: toy_made_def toy_create_def toy_start_def lamports_def set_data_def move_def Let_def toy_rent_def)

lemma toy_created: "execute toy (InitializePool (key 3) (key 77) (key 37) (key 4) 1000000000 1) toy_start = Gives (toy_made, [])"
proof -
  have s: "POOL_SIZE = 8968" by (simp add: POOL_SIZE_def)
  obtain L1 where 1: "toy_sys (AnchorInit (key 3) (key 77) 8976) toy_start = Some L1"
      "L1 = (move (key 3) (key 77) (toy_rent 8976) toy_start)(key 77 := \<lparr>acc_owner = key 1, acc_data = replicate 8976 0, acc_lamports = toy_rent 8976\<rparr>)"
    by (simp add: toy_create_def toy_start_def lamports_def toy_rent_def)
  obtain L2 where 2: "toy_sys (AnchorInit (key 3) (key 37) 8) L1 = Some L2" "acc_owner (L2 (key 4)) = key 2"
    by (simp add: 1(2) toy_create_def toy_start_def lamports_def toy_rent_def move_def Let_def)
  have v: "length (concat (vault_seeds (key 77))) = 37" and q: "length (concat (pool_seeds (key 3) (replicate 32 0) 1000000000 1)) = 77"
    by (simp_all add: vault_seeds_def pool_seeds_def ascii_bytes_def)
  show ?thesis
    unfolding execute.simps program_initialize_def toy_simps q v s
    using 1(1) 2 toy_initialize unfolding sys_def toy_simps
    by (simp add: or_fail_def toy_made_def Let_def del: toy_sys.simps)
qed

lemma toy_history_0: "history toy (key 77) toy_made [] [] 0"
proof -
  have "history toy (key 77) toy_made [] [] (lamports toy_made (key 37) - rt_min_balance toy 8)"
    by (rule history.created [OF toy_created]) (simp_all add: is_u64_def)
  then show ?thesis by (simp add: toy_made_eq lamports_def)
qed

lemma toy_live_0: "live toy_hash toy (key 77) toy_made [] [] 0 toy_pool (key 37)"
proof -
  obtain p V where l: "live toy_hash toy (key 77) toy_made [] [] 0 p V" using history_live [OF toy_laws toy_history_0] by blast
  then have "pool_bytes p = pool_bytes toy_pool" "pool_wf p" by (simp_all add: live_def toy_made_eq)
  moreover have "pool_wf toy_pool"
  proof -
    have "length ZEROS = 20" "list_all (\<lambda>b. length b = 32) ZEROS" by (simp_all add: ZEROS_def zero_values_def)
    moreover have "length toy_root = 32"
      using toy_root_defined unfolding toy_hashv_def by (metis length_be_bytes option.distinct(1) option.inject)
    then have "list_all (\<lambda>b. length b = 32) (pl_root_history toy_pool)"
      by (auto simp: toy_pool_def list_all_length nth_list_update)
    ultimately show ?thesis by (simp add: pool_wf_def toy_pool_def is_u64_def)
  qed
  ultimately have "p = toy_pool" using pool_of_pool_bytes by metis
  moreover have "V = key 37" using l by (simp add: live_def vault_seeds_def ascii_bytes_def)
  ultimately show ?thesis using l by simp
qed

text \<open>One deposit, of the commitment 7, by key 5.\<close>

lemma toy_deposited:
  "\<exists>p ev. execute toy (Deposit (key 77) (key 37) (key 5) (key 7)) toy_made
        = Gives (move (key 5) (key 37) 1000000000 (set_data toy_made (key 77) (pool_bytes p)), ev)
    \<and> live toy_hash toy (key 77) (move (key 5) (key 37) 1000000000 (set_data toy_made (key 77) (pool_bytes p))) [key 7] [] 0 p (key 37)
    \<and> inserted toy_pool p"
proof -
  have "in_field (be_int (key 7))" by (simp add: key_def be_int_be_bytes in_field_def BN254_Fr_def)
  moreover have "transfer_works toy" using toy_works by (simp add: system_works_def)
  ultimately show ?thesis
    using deposit_accepted [OF toy_laws _ toy_live_0, of "key 7" "key 5"]
    by (simp add: toy_pool_def [THEN arg_cong, of pl_denomination] toy_pool_def [THEN arg_cong, of pl_is_paused]
        wallet_def toy_made_eq toy_start_def lamports_def toy_rent_def) blast
qed

text \<open>The ring then holds the root 7, and a withdrawal of the nullifier hash 5 against it succeeds.\<close>

lemma toy_root_of_7: "spec_root (pair_hash toy_hash) 20 [7] = 7"
proof -
  let ?h = "pair_hash toy_hash"
  have z: "zero_node ?h k \<noteq> 7" if "k < 20" for k
  proof -
    have l: "length zero_values = 20" by (simp add: zero_values_def)
    have "\<forall>z\<in>set zero_values. z \<noteq> 7" by (simp add: zero_values_def)
    then show ?thesis using that l by (simp add: toy_zero_node)
  qed
  have right: "spec_node ?h [7] k 1 = zero_node ?h k" for k
    by (rule spec_node_empty) simp
  have step: "spec_node ?h [7] (Suc k) 0 = toy_hash [spec_node ?h [7] k 0, spec_node ?h [7] k 1]" for k by simp
  have one: "toy_hash [a, b] = 7" if "a \<noteq> b" for a b using that by (simp add: toy_hash_def)
  have "spec_node ?h [7] (Suc k) 0 = 7" if "Suc k \<le> 20" for k
    using that
  proof (induction k)
    case 0
    have "spec_node ?h [7] 0 0 \<noteq> spec_node ?h [7] 0 1" using z [of 0] right [of 0] by simp
    then show ?case unfolding step by (rule one)
  next
    case (Suc k)
    then have "spec_node ?h [7] (Suc k) 0 = 7" by simp
    then have "spec_node ?h [7] (Suc k) 0 \<noteq> spec_node ?h [7] (Suc k) 1" unfolding right using z [of "Suc k"] Suc.prems by simp
    then show ?case unfolding step [of "Suc k"] by (rule one)
  qed
  from this [of 19] show ?thesis by (simp add: spec_root_def)
qed

lemma toy_ring:
  assumes "pool_tree toy_hash p (map be_int [key 7])"
  shows "key 7 \<in> set (pl_root_history p)"
proof -
  have n: "be_int (key 7) = 7" by (simp add: key_def be_int_be_bytes)
  have r: "ring_inv toy_hash (pl_root_history p) [7]" using assms by (simp add: pool_tree_def n)
  then have "pl_root_history p ! 1 = be_bytes 32 (spec_root (pair_hash toy_hash) 20 (take 1 [7]))" unfolding ring_inv_def by fastforce
  then have "pl_root_history p ! 1 = key 7" by (simp add: toy_root_of_7 key_def)
  moreover have "1 < length (pl_root_history p)" using r by (simp add: ring_inv_def)
  ultimately show ?thesis by (metis nth_mem)
qed

definition toy_accounts :: withdraw_accounts where
  "toy_accounts = \<lparr>ac_pool = key 77, ac_vault = key 37, ac_nullifierPda = key 73, ac_recipient = key 8, ac_treasury = key 4, ac_relayer = key 6\<rparr>"

definition toy_args :: withdraw_args where
  "toy_args = \<lparr>wa_proof = \<lparr>proofA = replicate 64 1, proofB = replicate 128 2, proofC = replicate 64 3\<rparr>, wa_nullifierHash = key 5, wa_root = key 7,
     wa_withdrawalCommitment = key 7, wa_relayerFeeMax = 1600000, wa_relayerFeeTaken = 1500000\<rparr>"

lemma toy_key_field: "0 \<le> n \<Longrightarrow> n < 256 \<Longrightarrow> be_int (key n) = n \<and> in_field n"
  by (simp add: key_def be_int_be_bytes in_field_def BN254_Fr_def)

lemma toy_root_valid: "key 7 \<noteq> EMPTY_TREE_ROOT" "key 7 \<noteq> replicate 32 0"
proof -
  have "be_int (key 7) = 7" by (simp add: toy_key_field)
  moreover have "be_int EMPTY_TREE_ROOT \<noteq> 7" by (simp add: EMPTY_TREE_ROOT_def be_int_be_bytes)
  moreover have "be_int (replicate 32 0) = 0" using be_int_padded [of 32 "[]"] by simp
  ultimately show "key 7 \<noteq> EMPTY_TREE_ROOT" "key 7 \<noteq> replicate 32 0" by auto
qed

lemma toy_funds:
  assumes "pl_denomination p = 1000000000"
  defines "L \<equiv> move (key 5) (key 37) 1000000000 (set_data toy_made (key 77) (pool_bytes p))"
  shows "balances_bounded L" "wallet toy L (key 6)" "lamports L (key 6) = 100000000000" "fresh toy L (key 73)" "lamports L (key 73) = 0"
    and "lamports L (key 37) = 1000000000 + toy_rent 8"
proof -
  have l: "lamports L k = (if k = key 77 then toy_rent 8976 else if k = key 37 then 1000000000 + toy_rent 8
      else if k = key 3 then 100000000000 - toy_rent 8976 - toy_rent 8 else if k = key 5 then 99000000000 else if k = key 73 then 0 else 100000000000)" for k
    by (simp add: L_def move_def set_data_def toy_made_eq toy_start_def lamports_def Let_def)
  show "balances_bounded L" by (simp add: balances_bounded_def l toy_rent_def)
  show "lamports L (key 6) = 100000000000" "lamports L (key 73) = 0" "lamports L (key 37) = 1000000000 + toy_rent 8"
    by (simp_all add: l)
  show "wallet toy L (key 6)" "fresh toy L (key 73)"
    by (simp_all add: L_def wallet_def fresh_def move_simps set_data_def toy_made_eq toy_start_def)
qed

lemma toy_withdrawn:
  assumes l: "live toy_hash toy (key 77) L [key 7] [] 0 p (key 37)" and i: "inserted toy_pool p"
    and L: "L = move (key 5) (key 37) 1000000000 (set_data toy_made (key 77) (pool_bytes p))"
  shows "\<exists>L' ev. execute toy (Withdraw toy_accounts toy_args) L = Gives (L', ev)"
proof -
  have f: "pl_denomination p = 1000000000" "pl_treasury p = key 4" using inserted_fields [OF i] by (simp_all add: toy_pool_def)
  note m = toy_funds [OF f(1), folded L]
  have canon: "canonical_inputs toy_args = Gives ()"
    using toy_key_field by (simp add: canonical_inputs_def guard_def toy_args_def is_canonical_fr_iff)
  have dist: "distinctness toy_accounts = Gives ()" by (simp add: distinctness_Gives toy_accounts_def)
  have seeds: "rt_find_pda toy (nullifier_seeds (key 77) (wa_nullifierHash toy_args)) = Some (ac_nullifierPda toy_accounts, 255)"
    by (simp add: nullifier_seeds_def ascii_bytes_def toy_args_def toy_accounts_def)
  have pf: "proof_checks toy toy_accounts toy_args = Gives ()"
    by (rule proof_checks_accepted [of toy_hash])
       (simp_all add: toy_poseidon toy_accounts_def toy_args_def is_u64_def toy_hash_def key_def)
  have ring: "key 7 \<in> set (pl_root_history p)" using l toy_ring by (simp add: live_def)
  have "toy_rent 80 \<le> 100000000000" "toy_rent 80 \<le> 10000000" by (simp_all add: toy_rent_def)
  then show ?thesis
    using withdrawal_accepted [OF toy_laws toy_works l, of toy_accounts toy_args 255] canon dist seeds pf ring toy_root_valid m f
    by (simp add: toy_accounts_def toy_args_def) blast
qed

end
