(* ===== verification/ClusterExample.thy ===== *)
theory ClusterExample
  imports ClusterScript ProgramExample
begin

text \<open>A concrete cluster on the concrete runtime of ProgramExample, for the examples of the scripts' properties.\<close>

definition toy_cluster :: cluster where
  "toy_cluster = \<lparr>cl_runtime = toy, cl_wallet = key 3, cl_balance = \<lambda>L k. Returns (lamports L k),
      cl_account = \<lambda>L k. Returns (Some (L k)), cl_rent = \<lambda>n. Returns (toy_rent n), cl_fee = \<lambda>n. 5000 * int n,
      cl_text = \<lambda>f. if f = Code InvalidTreasury then ''InvalidTreasury'' else if f = Code DuplicateAccount then ''DuplicateAccount''
        else if f = Code NonCanonicalPublicInput then ''NonCanonicalPublicInput'' else [], cl_meta_fee = \<lambda>s i. Returns (Some 5000),
      cl_history = \<lambda>L k. Returns [], cl_hash = toy_hash, cl_prove = \<lambda>i. Throws [], cl_keypair = \<lambda>n. key (int n),
      cl_bytes = \<lambda>n. key (int n), cl_base58 = hex_key\<rparr>"

definition toy_world :: world where
  "toy_world = \<lparr>wd_ledger = toy_made, wd_cache = Throws [], wd_results = [], wd_keys = 0, wd_random = 0, wd_sent = 0\<rparr>"

end
