(* ===== verification/VerifyClaims.thy ===== *)
theory VerifyClaims
  imports VerifyGroups ClusterExample
begin

text \<open>
  What the checks of scripts/devnet\_verify.js find on the program of this repository: which expectations
  hold, which code each altered withdrawal is refused with, and the one expectation that cannot be met.
\<close>

subsection \<open>How a script's check ends\<close>

lemma withdrawCall_ends:
  "\<exists>r w'. withdrawCall C fx a f w = (r, w') \<and> r \<noteq> Runs"
  by (auto simp: withdrawCall_def sc_bind_def sc_js_def transact_def split: js.splits run.splits)

lemma expectReject_eq:
  assumes "m w = (r, w')" "r \<noteq> Runs"
  shows "expectReject i n c m w =
    (Done (), w'\<lparr>wd_results := wd_results w' @ [(i, n, case r of Threw e \<Rightarrow> str_includes e c | _ \<Rightarrow> False)]\<rparr>)"
  using assms by (cases r) (simp_all add: expectReject_def sc_catch_def sc_then_def sc_bind_def record_result_def)

definition stale_name :: string where
  "stale_name = ''vault as treasury is rejected (by the treasury binding, before distinctness)''"

lemma treasury_never_named:
  assumes "ac_treasury acs = ac_vault acs"
  shows "process_withdraw R acs s sp args L \<noteq> Fails (Code InvalidTreasury)"
proof -
  have d: "distinctness acs = Fails (Code DuplicateAccount)"
    using assms by (simp add: distinctness_def guard_def)
  show ?thesis
    unfolding process_withdraw_def canonical_inputs_def pool_checks_def compute_fee_split_def d
    by (auto simp: run_bind_def guard_def or_fail_def Let_def split: run.splits if_splits option.splits prod.splits)
qed

lemma stale_check:
  assumes t: "\<And>f. str_includes (cl_text C f) ''InvalidTreasury'' \<Longrightarrow> f = Code InvalidTreasury"
    and w: "withdrawCall C fx a (with_treasury (fx_vault fx)) w = (r, w')"
  shows "(case r of Threw e \<Rightarrow> str_includes e ''InvalidTreasury'' | _ \<Rightarrow> False) = False"
proof (cases r)
  case (Threw e)
  have n: "\<not> str_includes (cl_text C f) ''InvalidTreasury''" if "f \<noteq> Code InvalidTreasury" for f using t that by blast
  have p: "\<not> str_includes ''Unable to find a viable program address nonce'' ''InvalidTreasury''" by code_simp
  have "e \<noteq> cl_text C (Code InvalidTreasury) \<or> True" by simp
  from w Threw consider
      "e = ''Unable to find a viable program address nonce''" | "e = cl_text C Abort"
    | f acs L where "e = cl_text C f" "process_withdraw (cl_runtime C) acs True (rt_system (cl_runtime C)) a L = Fails f"
        "ac_treasury acs = ac_vault acs"
    by (auto simp: withdrawCall_def sc_bind_def sc_js_def transact_def find_address_def script_findNullifierPda_def
        with_treasury_def run_bind_def split: js.splits run.splits if_splits option.splits prod.splits)
  then show ?thesis
  proof cases
    case 3
    then have "f \<noteq> Code InvalidTreasury" using treasury_never_named by metis
    then show ?thesis using n Threw 3 by simp
  qed (use n [of Abort] p Threw in simp_all)
qed (use w in simp_all)

lemma m2_records_failure:
  assumes t: "\<And>f. str_includes (cl_text C f) ''InvalidTreasury'' \<Longrightarrow> f = Code InvalidTreasury"
  shows "(''M-2'', stale_name, False) \<in> set (wd_results (snd (verifyM2 C fv fx w)))"
proof -
  obtain r1 w1 where c1: "withdrawCall C fv (fx_args fv) (with_recipient (fx_vault fv)) w = (r1, w1)" "r1 \<noteq> Runs"
    using withdrawCall_ends by metis
  obtain w1' where e1: "expectReject ''M-2'' ''vault as recipient is rejected by the distinctness guard'' ''DuplicateAccount''
       (withdrawCall C fv (fx_args fv) (with_recipient (fx_vault fv))) w = (Done (), w1')"
    using expectReject_eq [where m = "withdrawCall C fv (fx_args fv) (with_recipient (fx_vault fv))", OF c1] by blast
  obtain r2 w2 where c2: "withdrawCall C fx (fx_args fx) (with_treasury (fx_vault fx)) w1' = (r2, w2)" "r2 \<noteq> Runs"
    using withdrawCall_ends by metis
  obtain w2' where e2: "expectReject ''M-2'' stale_name ''InvalidTreasury''
       (withdrawCall C fx (fx_args fx) (with_treasury (fx_vault fx))) w1' = (Done (), w2')"
      "(''M-2'', stale_name, False) \<in> set (wd_results w2')"
    using expectReject_eq [where m = "withdrawCall C fx (fx_args fx) (with_treasury (fx_vault fx))", OF c2] stale_check [OF t c2(1)] by auto
  have "verifyM2 C fv fx w = verifyM2_balance C fx w2'"
    using e1 e2(1) by (simp add: verifyM2_def sc_then_def sc_bind_def stale_name_def)
  moreover obtain rs where "wd_results (snd (verifyM2_balance C fx w2')) = wd_results w2' @ rs"
    using keepsE [OF keeps_balance] by blast
  ultimately show ?thesis using e2(2) by simp
qed

text \<open>A failed check in one group is in the results of the whole run, if the run ends.\<close>

lemma each_records:
  assumes g: "\<And>x. x \<in> set xs \<Longrightarrow> keeps (f x)" and x: "x \<in> set xs"
    and r: "\<And>w w'. f x w = (Done (), w') \<Longrightarrow> e \<in> set (wd_results w')" and d: "sc_each f xs w = (Done (), w')"
  shows "e \<in> set (wd_results w')"
  using g x d
proof (induction xs arbitrary: w)
  case (Cons y ys)
  obtain w1 where s: "f y w = (Done (), w1)" "sc_each f ys w1 = (Done (), w')"
    using Cons.prems(3) by (auto simp: sc_then_def sc_bind_def split: prod.splits outcome.splits)
  show ?case
  proof (cases "x \<in> set ys")
    case True
    then show ?thesis using Cons.IH s(2) Cons.prems(1) by simp
  next
    case False
    then have "e \<in> set (wd_results w1)" using r s(1) Cons.prems(2) by auto
    moreover have "keeps (sc_each f ys)"
      using Cons.prems(1) by (intro keeps_each) simp
    then obtain rs where "wd_results (snd (sc_each f ys w1)) = wd_results w1 @ rs" using keepsE by blast
    ultimately show ?thesis using s(2) by simp
  qed
qed simp

lemma m2_group_fails:
  assumes t: "\<And>f. str_includes (cl_text C f) ''InvalidTreasury'' \<Longrightarrow> f = Code InvalidTreasury"
    and d: "m2_group C w = (Done (), w')"
  shows "(''M-2'', stale_name, False) \<in> set (wd_results w')"
proof -
  obtain fv fx w0 where "verifyM2 C fv fx w0 = (Done (), w')"
    using d by (auto simp: m2_group_def sc_bind_def split: prod.splits outcome.splits)
  then show ?thesis using m2_records_failure [where C = C and fv = fv and fx = fx and w = w0, OF t] by simp
qed

text \<open>
  C30. The verification script can never report success on this program. Its M-2 group expects a withdrawal with
  the vault as treasury to be refused by the treasury binding; the program now checks distinctness first, so on
  every cluster, for every fixture and state, that check is recorded as failed, and a run that
  includes the group never exits with 0.
\<close>

theorem verify_script_cannot_pass:
  assumes t: "\<And>f. str_includes (cl_text C f) ''InvalidTreasury'' \<Longrightarrow> f = Code InvalidTreasury"
    and m2: "group_wanted V ''M-2''"
  shows "(''M-2'', stale_name, False) \<in> set (wd_results (snd (verifyM2 C fv fx w))) \<and> fst (verify_main C V w) \<noteq> Done 0"
proof
  show "(''M-2'', stale_name, False) \<in> set (wd_results (snd (verifyM2 C fv fx w)))" by (rule m2_records_failure [OF t])
  let ?f = "\<lambda>(i, run). sc_when (group_wanted V i) run"
  have each: "(''M-2'', stale_name, False) \<in> set (wd_results w')"
    if d: "sc_each ?f (verify_groups C V) w0 = (Done (), w')" for w0 w'
  proof (rule each_records [OF _ _ _ d])
    show "keeps (?f x)" if "x \<in> set (verify_groups C V)" for x
      using keeps_group [of "fst x" "snd x" C V] that by (cases x) (auto intro: keeps_when)
    show "(''M-2'', m2_group C) \<in> set (verify_groups C V)" by (simp add: verify_groups_def)
    show "(''M-2'', stale_name, False) \<in> set (wd_results w2)" if "?f (''M-2'', m2_group C) w1 = (Done (), w2)" for w1 w2
      using that m2 m2_group_fails [where C = C and w = w1 and w' = w2, OF t] by (simp add: sc_when_def)
  qed
  have "fst (verify_body C V w) \<noteq> Done 0"
    by (auto simp: verify_body_def sc_then_def sc_bind_def sc_return_def list_ex_iff dest: each
        split: prod.splits outcome.splits if_splits)
  then show "fst (verify_main C V w) \<noteq> Done 0"
    by (auto simp: verify_main_def sc_catch_def sc_return_def split: prod.splits outcome.splits)
qed

lemma verify_script_cannot_pass_witness:
  "fst (verify_main toy_cluster \<lparr>va_artifacts = True, va_argv = [''m-2''], va_setup = Returns (), va_upper = \<lambda>s. ''M-2'',
     va_sdk = Returns ()\<rparr> toy_world) \<noteq> Done 0"
proof -
  have "\<not> str_includes ''DuplicateAccount'' ''InvalidTreasury''" "\<not> str_includes ''NonCanonicalPublicInput'' ''InvalidTreasury''"
    "\<not> str_includes [] ''InvalidTreasury''" by code_simp+
  then show ?thesis
    by (intro verify_script_cannot_pass [THEN conjunct2]) (auto simp: toy_cluster_def group_wanted_def split: if_splits)
qed

subsection \<open>The refusals that hold\<close>

lemma record_then: "sc_bind (record_result i n ok) f w = f () (w\<lparr>wd_results := wd_results w @ [(i, n, ok)]\<rparr>)"
  by (simp add: sc_bind_def record_result_def)

lemma charge_keeps: "k \<noteq> payer \<Longrightarrow> charge payer n L k = L k" "acc_owner (charge payer n L k) = acc_owner (L k)"
  "acc_data (charge payer n L k) = acc_data (L k)"
  by (simp_all add: charge_def)

lemma withdrawCall_refused:
  assumes "rt_find_pda (cl_runtime C) (nullifier_seeds (fx_pool fx) (wa_nullifierHash a)) = Some (N, b)"
    and "cl_fee C 2 \<le> lamports (wd_ledger w) (cl_wallet C)"
    and "execute (cl_runtime C) (Withdraw (f \<lparr>ac_pool = fx_pool fx, ac_vault = fx_vault fx, ac_nullifierPda = N,
        ac_recipient = fx_recipient fx, ac_treasury = fx_treasury fx, ac_relayer = fx_relayer fx\<rparr>) a)
      (charge (cl_wallet C) (cl_fee C 2) (wd_ledger w)) = Fails e"
  shows "withdrawCall C fx a f w = (Threw (cl_text C e), w)"
  using assms by (simp add: withdrawCall_def sc_bind_def sc_js_def script_findNullifierPda_def find_address_def
      nullifier_seeds_def transact_def)

lemma expectReject_refused:
  "withdrawCall C fx a f w = (Threw e, w) \<Longrightarrow> str_includes e c \<Longrightarrow>
    expectReject i n c (withdrawCall C fx a f) w = (Done (), w\<lparr>wd_results := wd_results w @ [(i, n, True)]\<rparr>)"
  using expectReject_eq [of "withdrawCall C fx a f" w "Threw e" w] by simp

lemma alias_not_canonical:
  "0 \<le> v \<Longrightarrow> v < BN254_Fr \<Longrightarrow> \<not> is_canonical_fr (script_bytes32 (v + BN254_Fr))"
proof -
  assume v: "0 \<le> v" "v < BN254_Fr"
  then have b: "v + BN254_Fr < 256 ^ 32" "0 \<le> v + BN254_Fr" by (simp_all add: BN254_Fr_def)
  then have e: "script_bytes32 (v + BN254_Fr) = be_bytes 32 (v + BN254_Fr)"
    using fieldToBytes32_eq [of "v + BN254_Fr"] by (simp add: script_bytes32_def fieldToBytes32_def)
  have "be_int (be_bytes 32 (v + BN254_Fr)) = v + BN254_Fr" using b by (simp add: be_int_be_bytes)
  then show ?thesis unfolding e using v by (simp add: is_canonical_fr_iff in_field_def)
qed

lemma sample_canonical: "is_canonical_fr (script_bytes32 (n mod BN254_Fr))"
proof -
  have v: "0 \<le> n mod BN254_Fr" "n mod BN254_Fr < BN254_Fr" by (simp_all add: BN254_Fr_def)
  then have b: "n mod BN254_Fr < 256 ^ 32" using BN254_less(1) by simp
  then have e: "script_bytes32 (n mod BN254_Fr) = be_bytes 32 (n mod BN254_Fr)"
    using fieldToBytes32_eq [of "n mod BN254_Fr"] v by (simp add: script_bytes32_def fieldToBytes32_def)
  have "be_int (be_bytes 32 (n mod BN254_Fr)) = n mod BN254_Fr" using b v by (simp add: be_int_be_bytes)
  then show ?thesis unfolding e using v by (simp add: is_canonical_fr_iff in_field_def)
qed

lemma refused_not_canonical:
  "canonical_inputs a = Fails e \<Longrightarrow> execute R (Withdraw acs a) L = Fails e"
  by (simp add: process_withdraw_def)

lemma canonical_inputs_Fails:
  "\<not> is_canonical_fr (wa_nullifierHash a) \<or> \<not> is_canonical_fr (wa_root a) \<or> \<not> is_canonical_fr (wa_withdrawalCommitment a) \<Longrightarrow>
    canonical_inputs a = Fails (Code NonCanonicalPublicInput)"
  by (auto simp: canonical_inputs_def guard_def run_bind_def)

lemma refused_duplicate:
  assumes "canonical_inputs a = Gives ()" "pool_wf p" "acc_owner (L (ac_pool acs)) = rt_program R" "acc_data (L (ac_pool acs)) = pool_bytes p"
    and "500 \<le> pl_denomination p" "0 \<le> wa_relayerFeeTaken a" "wa_relayerFeeTaken a \<le> wa_relayerFeeMax a"
      "wa_relayerFeeMax a \<le> pl_denomination p div 50"
    and "distinctness acs \<noteq> Gives ()"
  shows "execute R (Withdraw acs a) L = Fails (Code DuplicateAccount)"
proof -
  have "distinctness acs = Fails (Code DuplicateAccount)"
    using assms(9) by (auto simp: distinctness_def guard_def run_bind_def split: if_splits)
  then show ?thesis
    using fee_split_accepted [OF assms(5-8)] pool_checks_live [where R = R and L = L and acs = acs, OF assms(2-4) refl] assms(1)
    by (simp add: process_withdraw_def guard_def)
qed

lemma alias_refused:
  assumes "\<And>s. \<exists>k b. rt_find_pda (cl_runtime C) s = Some (k, b)" "cl_fee C 2 \<le> lamports (wd_ledger w) (cl_wallet C)"
    and "canonical_inputs a = Fails (Code NonCanonicalPublicInput)"
    and "str_includes (cl_text C (Code NonCanonicalPublicInput)) ''NonCanonicalPublicInput''"
  shows "expectReject i n ''NonCanonicalPublicInput'' (withdrawCall C fx a f) w = (Done (), w\<lparr>wd_results := wd_results w @ [(i, n, True)]\<rparr>)"
proof -
  obtain N b where N: "rt_find_pda (cl_runtime C) (nullifier_seeds (fx_pool fx) (wa_nullifierHash a)) = Some (N, b)" using assms(1) by blast
  show ?thesis
    by (rule expectReject_refused [OF withdrawCall_refused [OF N assms(2) refused_not_canonical [OF assms(3)]] assms(4)])
qed

lemma random_alias_refused:
  assumes "\<And>s. \<exists>k b. rt_find_pda (cl_runtime C) s = Some (k, b)" "cl_fee C 2 \<le> lamports (wd_ledger w) (cl_wallet C)"
    and "\<And>x. canonical_inputs (g x) = Fails (Code NonCanonicalPublicInput)"
    and "str_includes (cl_text C (Code NonCanonicalPublicInput)) ''NonCanonicalPublicInput''"
  shows "expectReject i n ''NonCanonicalPublicInput'' (sc_bind (randomFieldElem C) (\<lambda>x. withdrawCall C fx (g x) f)) w
    = (Done (), w\<lparr>wd_results := wd_results w @ [(i, n, True)], wd_random := wd_random w + 1\<rparr>)"
proof -
  let ?x = "foldl be_step 0 (cl_bytes C (wd_random w)) mod BN254_Fr" and ?w = "w\<lparr>wd_random := wd_random w + 1\<rparr>"
  obtain N b where N: "rt_find_pda (cl_runtime C) (nullifier_seeds (fx_pool fx) (wa_nullifierHash (g ?x))) = Some (N, b)" using assms(1) by blast
  have "withdrawCall C fx (g ?x) f ?w = (Threw (cl_text C (Code NonCanonicalPublicInput)), ?w)"
    by (rule withdrawCall_refused [OF N]) (use assms(2) refused_not_canonical [OF assms(3)] in simp_all)
  then have "sc_bind (randomFieldElem C) (\<lambda>x. withdrawCall C fx (g x) f) w = (Threw (cl_text C (Code NonCanonicalPublicInput)), ?w)"
    by (simp add: sc_bind_def randomFieldElem_def random_bytes_def sc_return_def)
  then show ?thesis using assms(4)
    expectReject_eq [of "sc_bind (randomFieldElem C) (\<lambda>x. withdrawCall C fx (g x) f)" w "Threw (cl_text C (Code NonCanonicalPublicInput))" ?w]
    by simp
qed

text \<open>
  What else the script expects to be refused, is. On any pool account of the program, for any fixture whose
  own arguments are canonical and within the fee rules, whatever the rest of the ledger: each of the three
  inputs moved up by the field order is refused as not canonical, and the nullifier account or the vault in the
  recipient's place as a duplicate, before anything else is looked at, so these checks are recorded as passed
  and the ledger is left as it was.
\<close>

theorem expected_refusals_recorded:
  assumes rpc: "\<And>s. \<exists>k b. rt_find_pda (cl_runtime C) s = Some (k, b)" "cl_fee C 2 \<le> lamports (wd_ledger w) (cl_wallet C)"
    and names: "str_includes (cl_text C (Code NonCanonicalPublicInput)) ''NonCanonicalPublicInput''"
      "str_includes (cl_text C (Code DuplicateAccount)) ''DuplicateAccount''"
    and pool: "pool_wf p" "acc_owner (wd_ledger w (fx_pool fx)) = rt_program (cl_runtime C)" "acc_data (wd_ledger w (fx_pool fx)) = pool_bytes p"
    and args: "canonical_inputs (fx_args fx) = Gives ()" "500 \<le> pl_denomination p" "0 \<le> wa_relayerFeeTaken (fx_args fx)"
      "wa_relayerFeeTaken (fx_args fx) \<le> wa_relayerFeeMax (fx_args fx)" "wa_relayerFeeMax (fx_args fx) \<le> pl_denomination p div 50"
    and signals: "bigint_at (fx_signals fx) 0 = Returns h" "bigint_at (fx_signals fx) 1 = Returns r" "bigint_at (fx_signals fx) 2 = Returns c"
      "in_field h" "in_field r" "in_field c"
  shows "verifyF5 C fx w = (Done (), w\<lparr>wd_results := wd_results w @ [(''F-5'', ''the nullifier PDA cannot be the recipient'', True)]\<rparr>)
    \<and> (\<exists>rs. wd_results (snd (verifyM2 C fx fx' w)) = wd_results w
          @ (''M-2'', ''vault as recipient is rejected by the distinctness guard'', True) # rs)
    \<and> (\<exists>w' separate. verifyC1_aliases C fx w = (Done (), w') \<and> wd_ledger w' = wd_ledger w \<and> wd_results w' = wd_results w
          @ [(''C-1'', ''aliased hash derives a different nullifier PDA'', separate), (''C-1'', ''nullifier_hash >= Fr is rejected'', True),
             (''C-1'', ''root >= Fr is rejected'', True), (''C-1'', ''withdrawal_commitment >= Fr is rejected'', True)])"
proof -
  let ?a = "fx_args fx"
  obtain N b where N: "rt_find_pda (cl_runtime C) (nullifier_seeds (fx_pool fx) (wa_nullifierHash ?a)) = Some (N, b)" using rpc(1) by blast
  have dup: "withdrawCall C fx ?a f w = (Threw (cl_text C (Code DuplicateAccount)), w)"
    if "distinctness (f \<lparr>ac_pool = fx_pool fx, ac_vault = fx_vault fx, ac_nullifierPda = N, ac_recipient = fx_recipient fx,
        ac_treasury = fx_treasury fx, ac_relayer = fx_relayer fx\<rparr>) \<noteq> Gives ()"
      "\<And>acs. ac_pool (f acs) = ac_pool acs" for f
    by (rule withdrawCall_refused [OF N rpc(2)], rule refused_duplicate [OF args(1) pool(1) _ _ args(2-5) that(1)])
       (simp_all add: that(2) charge_keeps pool)
  have nul: "script_findNullifierPda C (fx_pool fx) (wa_nullifierHash ?a) = Returns N"
    using N by (simp add: script_findNullifierPda_def find_address_def nullifier_seeds_def)
  have f5: "withdrawCall C fx ?a (with_recipient N) w = (Threw (cl_text C (Code DuplicateAccount)), w)"
    by (rule dup) (simp_all add: with_recipient_def distinctness_Gives)
  have m2: "withdrawCall C fx ?a (with_recipient (fx_vault fx)) w = (Threw (cl_text C (Code DuplicateAccount)), w)"
    by (rule dup) (simp_all add: with_recipient_def distinctness_Gives)
  have F: "verifyF5 C fx w = (Done (), w\<lparr>wd_results := wd_results w @ [(''F-5'', ''the nullifier PDA cannot be the recipient'', True)]\<rparr>)"
    using expectReject_refused [OF f5 names(2)] by (simp add: verifyF5_def nul)
  have M: "\<exists>rs. wd_results (snd (verifyM2 C fx fx' w)) = wd_results w
      @ (''M-2'', ''vault as recipient is rejected by the distinctness guard'', True) # rs"
  proof -
    let ?w1 = "w\<lparr>wd_results := wd_results w @ [(''M-2'', ''vault as recipient is rejected by the distinctness guard'', True)]\<rparr>"
    let ?rest = "sc_then (expectReject ''M-2'' stale_name ''InvalidTreasury''
       (withdrawCall C fx' (fx_args fx') (with_treasury (fx_vault fx')))) (verifyM2_balance C fx')"
    have "keeps ?rest" by (intro kept)
    then obtain rs where "wd_results (snd (?rest ?w1)) = wd_results ?w1 @ rs" using keepsE by blast
    then show ?thesis using expectReject_refused [OF m2 names(2)]
      by (simp add: verifyM2_def stale_name_def sc_then_def [of "expectReject _ _ ''DuplicateAccount'' _"] sc_bind_def [of "expectReject _ _ ''DuplicateAccount'' _"])
  qed
  obtain A b' where A: "script_findNullifierPda C (fx_pool fx) (script_bytes32 (h + BN254_Fr)) = Returns A"
    using rpc(1) [of "nullifier_seeds (fx_pool fx) (script_bytes32 (h + BN254_Fr))"]
    by (auto simp: script_findNullifierPda_def find_address_def nullifier_seeds_def)
  have fits: "\<not> 2 ^ 256 \<le> h + BN254_Fr" using signals(4) by (simp add: in_field_def BN254_Fr_def)
  have no: "\<not> is_canonical_fr (script_bytes32 (v + BN254_Fr))" if "in_field v" for v
    using that alias_not_canonical by (simp add: in_field_def)
  let ?e = "\<lambda>w n. w\<lparr>wd_results := wd_results w @ [(''C-1'', n, True)]\<rparr>"
  let ?w0 = "w\<lparr>wd_results := wd_results w @ [(''C-1'', ''aliased hash derives a different nullifier PDA'', N \<noteq> A)]\<rparr>"
  let ?w1 = "?w0\<lparr>wd_results := wd_results ?w0 @ [(''C-1'', ''nullifier_hash >= Fr is rejected'', True)]\<rparr>"
  let ?w2 = "?w1\<lparr>wd_results := wd_results ?w1 @ [(''C-1'', ''root >= Fr is rejected'', True)], wd_random := wd_random ?w1 + 1\<rparr>"
  let ?w3 = "?w2\<lparr>wd_results := wd_results ?w2 @ [(''C-1'', ''withdrawal_commitment >= Fr is rejected'', True)], wd_random := wd_random ?w2 + 1\<rparr>"
  have s1: "expectReject ''C-1'' ''nullifier_hash >= Fr is rejected'' ''NonCanonicalPublicInput''
      (withdrawCall C fx (?a\<lparr>wa_nullifierHash := script_bytes32 (h + BN254_Fr)\<rparr>) id) ?w0 = (Done (), ?w1)"
    by (rule alias_refused [OF rpc(1) _ canonical_inputs_Fails names(1)]) (simp_all add: rpc(2) no signals)
  have s2: "expectReject ''C-1'' ''root >= Fr is rejected'' ''NonCanonicalPublicInput''
      (sc_bind (randomFieldElem C) (\<lambda>x.
        withdrawCall C fx (?a\<lparr>wa_root := script_bytes32 (r + BN254_Fr), wa_nullifierHash := script_bytes32 x\<rparr>) id)) ?w1 = (Done (), ?w2)"
    by (rule random_alias_refused [OF rpc(1) _ canonical_inputs_Fails names(1)]) (simp_all add: rpc(2) no signals)
  have s3: "expectReject ''C-1'' ''withdrawal_commitment >= Fr is rejected'' ''NonCanonicalPublicInput''
      (sc_bind (randomFieldElem C) (\<lambda>x.
        withdrawCall C fx (?a\<lparr>wa_withdrawalCommitment := script_bytes32 (c + BN254_Fr), wa_nullifierHash := script_bytes32 x\<rparr>) id)) ?w2 = (Done (), ?w3)"
    by (rule random_alias_refused [OF rpc(1) _ canonical_inputs_Fails names(1)]) (simp_all add: rpc(2) no signals)
  have "verifyC1_aliases C fx w = (Done (), ?w3)"
    unfolding verifyC1_aliases_def Let_def signals nul A sc_then_def sc_bind_js
    by (subst if_not_P [OF fits], subst record_then, subst sc_bind_done, rule s1, subst sc_bind_done, rule s2, rule s3)
  then show ?thesis using F M by (intro conjI exI [of _ ?w3] exI [of _ "N \<noteq> A"]) simp_all
qed

definition toy_fixture :: fixture where
  "toy_fixture = \<lparr>fx_pool = key 77, fx_vault = key 37, fx_treasury = key 4, fx_relayer = key 6, fx_recipient = key 8,
     fx_signals = [''5'', ''7'', ''7''], fx_args = toy_args, fx_tree = verify_tree_new (pair_hash toy_hash) 20\<rparr>"

lemma expected_refusals_recorded_witness:
  "fst (verifyF5 toy_cluster toy_fixture toy_world) = Done ()
   \<and> wd_results (snd (verifyF5 toy_cluster toy_fixture toy_world)) = [(''F-5'', ''the nullifier PDA cannot be the recipient'', True)]"
proof -
  have p: "pool_wf toy_pool" using toy_live_0 by (simp add: live_def)
  have s: "bigint_at [''5'', ''7'', ''7''] 0 = Returns 5" "bigint_at [''5'', ''7'', ''7''] 1 = Returns 7" "bigint_at [''5'', ''7'', ''7''] 2 = Returns 7"
    by code_simp+
  have c: "canonical_inputs toy_args = Gives ()"
    using toy_key_field [of 5] toy_key_field [of 7] by (simp add: canonical_inputs_def toy_args_def is_canonical_fr_iff guard_def)
  have a: "str_includes ''NonCanonicalPublicInput'' ''NonCanonicalPublicInput''" "str_includes ''DuplicateAccount'' ''DuplicateAccount''"
    by code_simp+
  have f: "in_field 5" "in_field 7" by (simp_all add: in_field_def BN254_Fr_def)
  show ?thesis
    using expected_refusals_recorded [where C = toy_cluster and w = toy_world and fx = toy_fixture and p = toy_pool and h = 5 and r = 7 and c = 7] p s c a f
    by (simp add: toy_cluster_def toy_world_def toy_fixture_def toy_made_eq toy_rent_def lamports_def toy_pool_def toy_args_def toy_start_def)
qed

end
