(* ===== verification/FuzzFixtures.thy ===== *)
theory FuzzFixtures
  imports ClusterScript "HOL-Library.While_Combinator"
begin

text \<open>
  The fixture generator of the fuzzer, scripts/gen\_fuzz\_fixtures.js: notes sampled and inserted in order,
  then one proof per note against the final root, all written as hex. The hash, randomness, Groth16 prover and
  verifier and base58 are parameters. What is proved: every proof is asked for inputs of the circuit's statement
  at one root, the root a pool holds that got the commitments in that order.
\<close>

record fuzz_env =
  fz_artifacts :: bool
  fz_count :: "int option"
  fz_hash :: "int list \<Rightarrow> int"
  fz_bytes :: "nat \<Rightarrow> bytes"
  fz_key :: "nat \<Rightarrow> pubkey"
  fz_secret :: "nat \<Rightarrow> bytes"
  fz_prove :: "circuit_inputs \<Rightarrow> (json \<times> string list) js"
  fz_verify :: "string list \<Rightarrow> json \<Rightarrow> bool js"
  fz_base58 :: "pubkey \<Rightarrow> string"

definition FUZZ_DENOMINATION :: int where "FUZZ_DENOMINATION = 1000000000"
definition FUZZ_RELAYER_FEE :: int where "FUZZ_RELAYER_FEE = 83000"

definition hex32 :: "int \<Rightarrow> string" where
  "hex32 n = padStart 64 (CHR ''0'') (big_to_string 16 n)"

text \<open>\<open>randField\<close>: the loop draws until a block is below the order; \<open>fs_random\<close> counts the draws.\<close>

record fuzz_note =
  fn_n :: int
  fn_s :: int
  fn_commitment :: int
  fn_leaf :: nat
  fn_recipient :: pubkey

record fuzz_state =
  fs_random :: nat
  fs_keys :: nat
  fs_tree :: script_tree
  fs_notes :: "fuzz_note list"

definition randField :: "fuzz_env \<Rightarrow> nat \<Rightarrow> (int \<times> nat) outcome" where
  "randField E k =
     (case while_option (\<lambda>i. \<not> foldl be_step 0 (fz_bytes E i) < BN254_Fr) Suc k of
        None \<Rightarrow> Runs
      | Some i \<Rightarrow> Done (foldl be_step 0 (fz_bytes E i), i + 1))"

definition pkToField :: "(int list \<Rightarrow> int) \<Rightarrow> pubkey \<Rightarrow> int" where
  "pkToField ph b =
     (let hi = fold (\<lambda>i hi. be_step hi (b ! i)) [0..<16] 0;
          lo = fold (\<lambda>i lo. be_step lo (b ! i)) [16..<32] 0
      in ph [hi, lo])"

definition out_bind :: "'a outcome \<Rightarrow> ('a \<Rightarrow> 'b outcome) \<Rightarrow> 'b outcome" where
  "out_bind m f = (case m of Threw e \<Rightarrow> Threw e | Runs \<Rightarrow> Runs | Done x \<Rightarrow> f x)"

definition add_note :: "fuzz_env \<Rightarrow> fuzz_state \<Rightarrow> fuzz_state outcome" where
  "add_note E st =
     out_bind (randField E (fs_random st)) (\<lambda>(n, k).
     out_bind (randField E k) (\<lambda>(s, k).
     let commitment = fz_hash E [n, s, FUZZ_DENOMINATION];
         (tree, leaf) = fuzz_insert (pair_hash (fz_hash E)) (fs_tree st) commitment
     in Done \<lparr>fs_random = k, fs_keys = fs_keys st + 1, fs_tree = tree,
          fs_notes = fs_notes st @ [\<lparr>fn_n = n, fn_s = s, fn_commitment = commitment, fn_leaf = leaf, fn_recipient = fz_key E (fs_keys st)\<rparr>]\<rparr>))"

primrec add_notes :: "fuzz_env \<Rightarrow> nat \<Rightarrow> fuzz_state \<Rightarrow> fuzz_state outcome" where
  "add_notes E 0 st = Done st"
| "add_notes E (Suc k) st = out_bind (add_notes E k st) (add_note E)"

record fuzz_entry =
  fw_nullifierHash :: string
  fw_root :: string
  fw_withdrawalCommitment :: string
  fw_proofA :: string
  fw_proofB :: string
  fw_proofC :: string
  fw_recipient :: string
  fw_relayerFeeMax :: string

definition fuzz_inputs :: "(int list \<Rightarrow> int) \<Rightarrow> fuzz_note \<Rightarrow> int list \<times> nat list \<times> int \<Rightarrow> int \<Rightarrow> circuit_inputs" where
  "fuzz_inputs ph note prf relayerField =
     (let (els, idxs, rt) = prf; recipientField = pkToField ph (fn_recipient note); wc = ph [relayerField, FUZZ_RELAYER_FEE, recipientField]
      in \<lparr>ci_nullifierHash = show_int (ph [fn_n note]), ci_root = show_int rt, ci_withdrawalCommitment = show_int wc,
          ci_nullifier = show_int (fn_n note), ci_secret = show_int (fn_s note), ci_denomination = show_int FUZZ_DENOMINATION,
          ci_pathElements = map show_int els, ci_pathIndices = map (\<lambda>i. show_int (int i)) idxs,
          ci_recipient = show_int recipientField, ci_relayerAddress = show_int relayerField, ci_relayerFeeMax = show_int FUZZ_RELAYER_FEE\<rparr>)"

definition fuzz_withdrawal :: "fuzz_env \<Rightarrow> int \<Rightarrow> int \<Rightarrow> script_tree \<Rightarrow> fuzz_note \<Rightarrow> fuzz_entry js" where
  "fuzz_withdrawal E relayerField finalRoot tree note =
     (let prf = fuzz_proof tree (fn_leaf note) in
      if snd (snd prf) \<noteq> finalRoot then Throws ''root drift between proofs''
      else js_bind (fz_prove E (fuzz_inputs (fz_hash E) note prf relayerField)) (\<lambda>(pf, signals).
        js_bind (fz_verify E signals pf) (\<lambda>ok.
        if \<not> ok then Throws ''proof failed self-verification''
        else js_bind (bigint_at signals 0) (\<lambda>n. js_bind (bigint_at signals 1) (\<lambda>r. js_bind (bigint_at signals 2) (\<lambda>c.
          js_bind (proof_coord pf ''pi_a'' 0) (\<lambda>a0. js_bind (proof_coord pf ''pi_a'' 1) (\<lambda>a1.
          js_bind (proof_coord2 pf ''pi_b'' 0 1) (\<lambda>b01. js_bind (proof_coord2 pf ''pi_b'' 0 0) (\<lambda>b00.
          js_bind (proof_coord2 pf ''pi_b'' 1 1) (\<lambda>b11. js_bind (proof_coord2 pf ''pi_b'' 1 0) (\<lambda>b10.
          js_bind (proof_coord pf ''pi_c'' 0) (\<lambda>c0. js_bind (proof_coord pf ''pi_c'' 1) (\<lambda>c1.
          Returns \<lparr>fw_nullifierHash = hex32 n, fw_root = hex32 r, fw_withdrawalCommitment = hex32 c,
            fw_proofA = hex32 a0 @ hex32 (BN254_Fq - a1), fw_proofB = hex32 b01 @ hex32 b00 @ hex32 b11 @ hex32 b10,
            fw_proofC = hex32 c0 @ hex32 c1, fw_recipient = fz_base58 E (fn_recipient note), fw_relayerFeeMax = show_int FUZZ_RELAYER_FEE\<rparr>)))))))))))))) "

record fuzz_fixture =
  ff_denomination :: string
  ff_treeDepth :: nat
  ff_relayerFee :: string
  ff_relayerSecretKey :: bytes
  ff_relayerPubkey :: string
  ff_commitments :: "string list"
  ff_root :: string
  ff_withdrawals :: "fuzz_entry list"

text \<open>
  \<open>main\<close>, up to what it writes; anything thrown, and missing circuit files, end it with exit code 1. A count that is
  not a number or not positive makes no note.
\<close>

definition fuzz_main :: "fuzz_env \<Rightarrow> fuzz_fixture outcome" where
  "fuzz_main E =
     (if \<not> fz_artifacts E then Threw ''circuit artifacts missing''
      else let ph = fz_hash E; relayer = fz_key E 0; relayerField = pkToField ph relayer in
      out_bind (add_notes E (case fz_count E of None \<Rightarrow> 0 | Some n \<Rightarrow> nat n)
          \<lparr>fs_random = 0, fs_keys = 1, fs_tree = verify_tree_new (pair_hash ph) 20, fs_notes = []\<rparr>) (\<lambda>st.
      let finalRoot = snd (snd (fuzz_proof (fs_tree st) 0)) in
      case js_map (fuzz_withdrawal E relayerField finalRoot (fs_tree st)) (fs_notes st) of
        Throws e \<Rightarrow> Threw e
      | Returns withdrawals \<Rightarrow> Done \<lparr>ff_denomination = show_int FUZZ_DENOMINATION, ff_treeDepth = 20,
          ff_relayerFee = show_int FUZZ_RELAYER_FEE, ff_relayerSecretKey = fz_secret E 0, ff_relayerPubkey = fz_base58 E relayer,
          ff_commitments = map (\<lambda>n. hex32 (fn_commitment n)) (fs_notes st), ff_root = hex32 finalRoot, ff_withdrawals = withdrawals\<rparr>))"

subsection \<open>One root for every proof\<close>

definition notes_inv :: "(int list \<Rightarrow> int) \<Rightarrow> fuzz_state \<Rightarrow> bool" where
  "notes_inv H st \<longleftrightarrow> tree_inv (pair_hash H) 20 (as_sdk (fs_tree st)) (map fn_commitment (fs_notes st))
     \<and> (\<forall>i<length (fs_notes st). fn_leaf (fs_notes st ! i) = i
          \<and> fn_commitment (fs_notes st ! i) = H [fn_n (fs_notes st ! i), fn_s (fs_notes st ! i), FUZZ_DENOMINATION])"

lemma tree_inv_leaves: "tree_inv h d (as_sdk t) ls \<Longrightarrow> st_layers t ! 0 = ls \<and> st_depth t = d"
proof -
  assume i: "tree_inv h d (as_sdk t) ls"
  then have "mt_layers (as_sdk t) ! 0 = ls" by (simp add: tree_inv_def layers_of_leaves del: upt_Suc)
  then show ?thesis using i by (simp add: as_sdk_def tree_inv_def)
qed

lemma out_bind_Done: "out_bind m f = Done y \<longleftrightarrow> (\<exists>x. m = Done x \<and> f x = Done y)"
  by (cases m) (simp_all add: out_bind_def)

lemma add_note_inv:
  assumes "notes_inv (fz_hash E) st" "add_note E st = Done st'"
  shows "notes_inv (fz_hash E) st' \<and> length (fs_notes st') = length (fs_notes st) + 1"
proof -
  let ?h = "pair_hash (fz_hash E)"
  have inv: "tree_inv ?h 20 (as_sdk (fs_tree st)) (map fn_commitment (fs_notes st))" using assms(1) by (simp add: notes_inv_def)
  obtain n s k where st': "st' = \<lparr>fs_random = k, fs_keys = fs_keys st + 1,
      fs_tree = fst (fuzz_insert ?h (fs_tree st) (fz_hash E [n, s, FUZZ_DENOMINATION])),
      fs_notes = fs_notes st @ [\<lparr>fn_n = n, fn_s = s, fn_commitment = fz_hash E [n, s, FUZZ_DENOMINATION],
        fn_leaf = snd (fuzz_insert ?h (fs_tree st) (fz_hash E [n, s, FUZZ_DENOMINATION])), fn_recipient = fz_key E (fs_keys st)\<rparr>]\<rparr>"
    using assms(2) by (auto simp: add_note_def out_bind_Done Let_def case_prod_beta)
  have "snd (fuzz_insert ?h (fs_tree st) x) = length (fs_notes st)" for x
    using tree_inv_leaves [OF inv] by (simp add: fuzz_insert_def Let_def)
  moreover have "tree_inv ?h 20 (as_sdk (fst (fuzz_insert ?h (fs_tree st) x))) (map fn_commitment (fs_notes st) @ [x])" for x
    unfolding fuzz_insert_verify verify_insert_sdk by (rule mt_insert_inv [OF inv])
  ultimately show ?thesis
    using assms(1) unfolding st' by (simp add: notes_inv_def nth_append less_Suc_eq)
qed

lemma add_notes_inv:
  assumes "notes_inv (fz_hash E) st" "add_notes E k st = Done st'"
  shows "notes_inv (fz_hash E) st' \<and> length (fs_notes st') = length (fs_notes st) + k"
  using assms
proof (induction k arbitrary: st')
  case (Suc k)
  then show ?case using add_note_inv [of E] by (fastforce simp: out_bind_Done)
qed simp

lemma add_notes_no_throw: "add_notes E k st \<noteq> Threw e"
proof (induction k)
  case (Suc k)
  then show ?case
    by (cases "add_notes E k st")
       (auto simp: out_bind_def add_note_def randField_def Let_def split: option.splits outcome.splits prod.splits)
qed simp

lemma fuzz_proof_of:
  assumes "tree_inv h 20 (as_sdk t) ls" "i < length ls"
  shows "\<exists>els idxs. fuzz_proof t i = (els, idxs, spec_root h 20 ls) \<and> zip els idxs = spec_path h ls 20 i
    \<and> length els = 20 \<and> length idxs = 20"
proof -
  obtain p where p: "getProof (as_sdk t) i = Some p" "proof_path p = spec_path h ls 20 i" "mp_root p = spec_root h 20 ls"
      "length (mp_pathElements p) = 20" "length (mp_pathIndices p) = 20"
    using getProof_inv [OF assms] by blast
  have "mt_layers (as_sdk t) ! 0 \<noteq> []" using tree_inv_leaves [OF assms(1)] assms(2) by (auto simp: as_sdk_def)
  from fuzz_proof_sdk [OF p(1) this] show ?thesis using p by (simp add: proof_path_def)
qed

lemma fuzz_root: "tree_inv h 20 (as_sdk t) ls \<Longrightarrow> snd (snd (fuzz_proof t i)) = spec_root h 20 ls"
  using verify_proof_spec [of h 20 t ls i]
  by (simp add: fuzz_proof_def verify_proof_def fuzz_at_verify case_prod_beta)

lemma fuzz_inputs_statement:
  assumes "tree_inv (pair_hash H) 20 (as_sdk t) ls" "i < length ls" "length ls \<le> 2 ^ 20" "fn_leaf note = i"
    "ls ! i = H [fn_n note, fn_s note, FUZZ_DENOMINATION]"
  shows "circuit_statement H 20 (fuzz_inputs H note (fuzz_proof t i) r)"
    "ci_root (fuzz_inputs H note (fuzz_proof t i) r) = show_int (spec_root (pair_hash H) 20 ls)"
proof -
  obtain els idxs where p: "fuzz_proof t i = (els, idxs, spec_root (pair_hash H) 20 ls)" "zip els idxs = spec_path (pair_hash H) ls 20 i"
      "length els = 20" "length idxs = 20" using fuzz_proof_of [OF assms(1,2)] by blast
  have rt: "path_root (pair_hash H) (H [fn_n note, fn_s note, FUZZ_DENOMINATION]) (zip els idxs) = spec_root (pair_hash H) 20 ls"
    using spec_path_member [OF assms(2), of 20 "pair_hash H"] assms(2,3,5) by (simp add: p(2))
  have f: "map fst (zip els idxs) = els" "map snd (zip els idxs) = idxs" "length (zip els idxs) = 20" using p(3,4) by simp_all
  have m: "map (show_int \<circ> fst) (zip els idxs) = map show_int els"
      "map (show_int \<circ> int \<circ> snd) (zip els idxs) = map (\<lambda>i. show_int (int i)) idxs"
    using f(1,2) by (metis map_map, metis (no_types, lifting) comp_apply map_cong map_map)
  show "ci_root (fuzz_inputs H note (fuzz_proof t i) r) = show_int (spec_root (pair_hash H) 20 ls)"
    by (simp add: fuzz_inputs_def p(1) Let_def)
  show "circuit_statement H 20 (fuzz_inputs H note (fuzz_proof t i) r)"
    unfolding circuit_statement_def fuzz_inputs_def p(1) Let_def prod.case
    by (intro exI [of _ "fn_n note"] exI [of _ "fn_s note"] exI [of _ FUZZ_DENOMINATION] exI [of _ FUZZ_RELAYER_FEE] exI [of _ r]
        exI [of _ "pkToField H (fn_recipient note)"] exI [of _ "zip els idxs"])
       (simp only: m f(3) rt circuit_inputs.simps simp_thms)
qed

text \<open>What the generator relies on of the prover: true inputs are proved, with the public inputs as signals, and verify.\<close>

definition proves_statements :: "fuzz_env \<Rightarrow> bool" where
  "proves_statements E \<longleftrightarrow> (\<forall>ci. circuit_statement (fz_hash E) 20 ci \<longrightarrow>
     (\<exists>pf pb. fz_prove E ci = Returns (pf, [ci_nullifierHash ci, ci_root ci, ci_withdrawalCommitment ci])
        \<and> fz_verify E [ci_nullifierHash ci, ci_root ci, ci_withdrawalCommitment ci] pf = Returns True
        \<and> snarkjsProofToBytes pf = Returns pb))"

lemma fuzz_withdrawal_made:
  assumes P: "proves_statements E" and t: "tree_inv (pair_hash (fz_hash E)) 20 (as_sdk t) ls" "i < length ls" "length ls \<le> 2 ^ 20"
    "fn_leaf note = i" "ls ! i = fz_hash E [fn_n note, fn_s note, FUZZ_DENOMINATION]"
  shows "\<exists>w. fuzz_withdrawal E r (spec_root (pair_hash (fz_hash E)) 20 ls) t note = Returns w
    \<and> fw_root w = hex32 (spec_root (pair_hash (fz_hash E)) 20 ls)"
proof -
  let ?pth = "fuzz_proof t i" and ?rt = "spec_root (pair_hash (fz_hash E)) 20 ls"
  let ?ci = "fuzz_inputs (fz_hash E) note ?pth r"
  note s = fuzz_inputs_statement [OF t]
  obtain pf pb where pf: "fz_prove E ?ci = Returns (pf, [ci_nullifierHash ?ci, ci_root ?ci, ci_withdrawalCommitment ?ci])"
      "fz_verify E [ci_nullifierHash ?ci, ci_root ?ci, ci_withdrawalCommitment ?ci] pf = Returns True"
      "snarkjsProofToBytes pf = Returns pb"
    using P s(1) unfolding proves_statements_def by blast
  have sig: "string_bigint_js (show_int n) = Returns n" for n using json_bigint_print [of n] by (simp add: json_bigint_JStr show_int_def)
  obtain n c where pub: "ci_nullifierHash ?ci = show_int n" "ci_withdrawalCommitment ?ci = show_int c"
    by (simp add: fuzz_inputs_def case_prod_beta Let_def)
  have drift: "snd (snd ?pth) = ?rt" by (rule fuzz_root [OF t(1)])
  have ver: "fz_verify E [show_int n, show_int ?rt, show_int c] pf = Returns True" using pf(2) pub s(2) by simp
  show ?thesis
    using pf(3) unfolding snarkjsProofToBytes_def
    by (auto simp: fuzz_withdrawal_def t(4) drift pf(1) ver pub s(2) bigint_at_def sig js_bind_eq_Returns Let_def)
qed

lemma js_map_all: "(\<And>x. x \<in> set xs \<Longrightarrow> \<exists>y. f x = Returns y \<and> P y) \<Longrightarrow> \<exists>ys. js_map f xs = Returns ys \<and> length ys = length xs \<and> list_all P ys"
  by (induction xs) (simp, fastforce)

text \<open>
  The fuzzer's fixtures are withdrawals of one pool. For a count of at most 2 to the 20 and a prover that
  proves what the circuit states, the generator never throws; and if sampling ends it writes one commitment and
  one withdrawal per note, every withdrawal against the root it names, and a pool of the program that got
  these commitments in this order holds the bytes of that root.
\<close>

theorem fuzz_fixtures_withdraw_from_one_root:
  assumes E: "fz_artifacts E" "fz_count E = Some n" "n \<le> 2 ^ 20" and P: "proves_statements E" and H: "\<And>xs. in_field (fz_hash E xs)"
  shows "case fuzz_main E of Threw _ \<Rightarrow> False | Runs \<Rightarrow> True
    | Done fx \<Rightarrow> length (ff_commitments fx) = nat n \<and> length (ff_withdrawals fx) = nat n
        \<and> list_all (\<lambda>w. fw_root w = ff_root fx) (ff_withdrawals fx)
        \<and> (\<exists>leaves. ff_commitments fx = map hex32 leaves
             \<and> (\<forall>p. pool_tree (fz_hash E) p leaves \<longrightarrow> hex_buffer (ff_root fx) \<in> set (pl_root_history p)))"
proof -
  let ?h = "pair_hash (fz_hash E)"
  let ?start = "\<lparr>fs_random = 0, fs_keys = 1, fs_tree = verify_tree_new ?h 20, fs_notes = []\<rparr> :: fuzz_state"
  have start: "notes_inv (fz_hash E) ?start" by (simp add: notes_inv_def as_sdk_new tree_inv_new)
  show ?thesis
  proof (cases "add_notes E (nat n) ?start")
    case (Threw e)
    then show ?thesis using add_notes_no_throw by metis
  next
    case Runs
    then show ?thesis by (simp add: fuzz_main_def E Let_def out_bind_def del: One_nat_def)
  next
    case (Done st)
    let ?ls = "map fn_commitment (fs_notes st)" and ?r = "pkToField (fz_hash E) (fz_key E 0)"
    let ?rt = "spec_root ?h 20 ?ls"
    have inv: "notes_inv (fz_hash E) st" "length (fs_notes st) = nat n" using add_notes_inv [OF start Done] by simp_all
    then have t: "tree_inv ?h 20 (as_sdk (fs_tree st)) ?ls" by (simp add: notes_inv_def)
    have len: "length ?ls \<le> 2 ^ 20" using inv(2) E(3) by (simp add: nat_le_iff)
    have w: "\<exists>y. fuzz_withdrawal E ?r ?rt (fs_tree st) x = Returns y \<and> fw_root y = hex32 ?rt" if mem: "x \<in> set (fs_notes st)" for x
    proof -
      obtain i where i: "i < length (fs_notes st)" "x = fs_notes st ! i" using mem by (auto simp: in_set_conv_nth)
      then have j: "i < length ?ls" "fn_leaf x = i" "?ls ! i = fz_hash E [fn_n x, fn_s x, FUZZ_DENOMINATION]"
        using inv(1) by (simp_all add: notes_inv_def)
      show ?thesis by (rule fuzz_withdrawal_made [OF P t j(1) len j(2,3)])
    qed
    obtain ws where ws: "js_map (fuzz_withdrawal E ?r ?rt (fs_tree st)) (fs_notes st) = Returns ws" "length ws = length (fs_notes st)"
        "list_all (\<lambda>y. fw_root y = hex32 ?rt) ws"
      using js_map_all [of "fs_notes st" "fuzz_withdrawal E ?r ?rt (fs_tree st)" "\<lambda>y. fw_root y = hex32 ?rt"] w by blast
    have main: "fuzz_main E = Done \<lparr>ff_denomination = show_int FUZZ_DENOMINATION, ff_treeDepth = 20,
          ff_relayerFee = show_int FUZZ_RELAYER_FEE, ff_relayerSecretKey = fz_secret E 0, ff_relayerPubkey = fz_base58 E (fz_key E 0),
          ff_commitments = map (\<lambda>n. hex32 (fn_commitment n)) (fs_notes st), ff_root = hex32 ?rt, ff_withdrawals = ws\<rparr>"
      by (simp add: fuzz_main_def E Let_def out_bind_def Done fuzz_root [OF t] ws(1) del: One_nat_def)
    have field: "in_field ?rt" using H spec_node.simps(2) [of ?h ?ls 19 0] by (simp add: spec_root_def)
    then have "hex_buffer (hex32 ?rt) = be_bytes 32 ?rt"
      using fieldToBytes32_eq [of ?rt] BN254_less(1) by (simp add: hex32_def fieldToBytes32_def in_field_def)
    moreover have "be_bytes 32 ?rt \<in> set (pl_root_history p)" if "pool_tree (fz_hash E) p ?ls" for p
    proof -
      have r: "ring_inv (fz_hash E) (pl_root_history p) ?ls" using that by (simp add: pool_tree_def)
      then have "pl_root_history p ! (length ?ls mod 256) = be_bytes 32 ?rt" "length (pl_root_history p) = 256"
        unfolding ring_inv_def by (metis less_add_same_cancel1 order_refl take_all zero_less_numeral, simp)
      then show ?thesis by (metis mod_less_divisor nth_mem zero_less_numeral)
    qed
    ultimately show ?thesis
      unfolding main using inv(2) ws(2,3) by (auto intro!: exI [of _ ?ls])
  qed
qed

definition toy_fuzz :: fuzz_env where
  "toy_fuzz = \<lparr>fz_artifacts = True, fz_count = Some 1, fz_hash = \<lambda>xs. 7, fz_bytes = \<lambda>k. [5], fz_key = \<lambda>k. replicate 32 1,
     fz_secret = \<lambda>k. replicate 64 2, fz_prove = \<lambda>ci. Returns (js_get example_body ''proof'', [ci_nullifierHash ci, ci_root ci, ci_withdrawalCommitment ci]),
     fz_verify = \<lambda>sg pf. Returns True, fz_base58 = hex_key\<rparr>"

lemma fuzz_fixtures_withdraw_from_one_root_witness:
  "\<exists>fx. fuzz_main toy_fuzz = Done fx \<and> length (ff_withdrawals fx) = 1"
proof -
  have P: "proves_statements toy_fuzz"
    using example_proof_bytes by (auto simp: proves_statements_def toy_fuzz_def)
  have "while_option (\<lambda>i. \<not> foldl be_step 0 [5] < BN254_Fr) Suc k = Some k" for k :: nat
    by (subst while_option_unfold) (simp add: be_step_def BN254_Fr_def)
  then have "randField toy_fuzz k = Done (5, k + 1)" for k by (simp add: randField_def toy_fuzz_def be_step_def)
  then have "add_note toy_fuzz st \<noteq> Runs" for st by (simp add: add_note_def out_bind_def Let_def case_prod_beta)
  then have "fuzz_main toy_fuzz \<noteq> Runs"
    by (auto simp: fuzz_main_def toy_fuzz_def out_bind_def Let_def split: js.splits outcome.splits)
  then show ?thesis
    using fuzz_fixtures_withdraw_from_one_root [OF _ _ _ P, of 1]
    by (cases "fuzz_main toy_fuzz") (simp_all add: toy_fuzz_def in_field_def BN254_Fr_def)
qed

end
