(* ===== verification/DevnetE2e.thy ===== *)
theory DevnetE2e
  imports DevnetVerify ProgramChain TreeHonest
begin

text \<open>
  The end-to-end script, scripts/devnet\_e2e.js, as a script on a cluster: funding, the pool, the deposit, the
  proof from its incremental tree, the withdrawal and the checks behind the exit code. Its helpers are word
  for word those of scripts/devnet\_verify.js and are taken from there. What is proved: on a pool that has
  deposits already, the script's own deposit cannot be withdrawn by it.
\<close>

subsection \<open>Constants\<close>

record e2e_env =
  ev_artifacts :: bool
  ev_setup :: "unit js"
  ev_denomination :: "string option"
  ev_version :: byte
  ev_admin :: "pubkey js option"
  ev_treasury :: "string option"
  ev_parse_key :: "string \<Rightarrow> pubkey js"

definition set_text :: "string option \<Rightarrow> string option" where
  "set_text v = (if v = Some [] then None else v)"

definition E2E_DENOMINATION :: "e2e_env \<Rightarrow> int js" where
  "E2E_DENOMINATION V = string_bigint_js (case set_text (ev_denomination V) of None \<Rightarrow> ''1000000000'' | Some s \<Rightarrow> s)"

text \<open>\<open>BigInt\<close> division truncates; for the positive denominations of a pool it is \<open>div\<close>.\<close>

definition trunc_div :: "int \<Rightarrow> int \<Rightarrow> int" where
  "trunc_div a b = (if 0 \<le> a then a div b else - ((- a) div b))"

definition E2E_FEE_MAX :: "int \<Rightarrow> int" where
  "E2E_FEE_MAX D = (let ceiling = trunc_div D 50 in if 3066420 < ceiling then 3066420 else ceiling)"

definition E2E_TREASURY_FEE :: "int \<Rightarrow> int" where
  "E2E_TREASURY_FEE D = trunc_div D 500"

subsection \<open>The steps\<close>

record e2e_keys =
  ek_admin :: pubkey
  ek_treasury :: pubkey
  ek_recipient :: pubkey
  ek_relayer :: pubkey

definition e2e_keypairs :: "cluster \<Rightarrow> e2e_env \<Rightarrow> e2e_keys script" where
  "e2e_keypairs C V =
     sc_bind (case ev_admin V of Some k \<Rightarrow> sc_js k | None \<Rightarrow> new_keypair C) (\<lambda>admin.
     sc_bind (case set_text (ev_treasury V) of Some s \<Rightarrow> sc_js (ev_parse_key V s) | None \<Rightarrow> new_keypair C) (\<lambda>treasury.
     sc_bind (new_keypair C) (\<lambda>recipient. sc_bind (new_keypair C) (\<lambda>relayer.
     sc_return \<lparr>ek_admin = admin, ek_treasury = treasury, ek_recipient = recipient, ek_relayer = relayer\<rparr>))))"

definition e2e_fund :: "cluster \<Rightarrow> int \<Rightarrow> e2e_keys \<Rightarrow> nat script" where
  "e2e_fund C D ks =
     (let funder = cl_wallet C; POOL_RENT = 64310400; fundAdminAmount = rnd (rnd (rnd D + POOL_RENT) + 20000000) in
      transact C funder 1 (ThenIx (TransferIx funder (ek_admin ks) fundAdminAmount)
        (ThenIx (TransferIx funder (ek_relayer ks) 5000000) (TransferIx funder (ek_treasury ks) 1000000))))"

text \<open>Step 3: the pool is made, or reused with the treasury it stores; the result is that treasury.\<close>

definition e2e_pool :: "cluster \<Rightarrow> e2e_env \<Rightarrow> int \<Rightarrow> e2e_keys \<Rightarrow> pubkey \<Rightarrow> pubkey \<Rightarrow> pubkey script" where
  "e2e_pool C V D ks poolPda vaultPda =
     sc_bind (get_account C poolPda) (\<lambda>existing.
     case existing of
       Some a \<Rightarrow>
         let stored = subarray (acc_data a) VERIFY_OFF_TREASURY (VERIFY_OFF_TREASURY + 32) in
         (case set_text (ev_treasury V) of
            Some s \<Rightarrow> if cl_base58 C stored \<noteq> s then sc_throw ''pool treasury does not match TREASURY'' else sc_return stored
          | None \<Rightarrow> sc_return stored)
     | None \<Rightarrow>
         sc_then (transact C (cl_wallet C) 2 (ProgramIx (InitializePool (ek_admin ks) poolPda vaultPda (ek_treasury ks) D (ev_version V))))
           (sc_return (ek_treasury ks)))"

definition e2e_deposit :: "cluster \<Rightarrow> e2e_keys \<Rightarrow> pubkey \<Rightarrow> pubkey \<Rightarrow> int \<Rightarrow> nat script" where
  "e2e_deposit C ks poolPda vaultPda commitment =
     transact C (cl_wallet C) 2 (ProgramIx (Deposit poolPda vaultPda (ek_admin ks) (script_bytes32 commitment)))"

text \<open>Step 5: the inputs of the proof, from a tree that holds the one commitment.\<close>

definition e2e_inputs :: "(int list \<Rightarrow> int) \<Rightarrow> int \<Rightarrow> int \<Rightarrow> int \<Rightarrow> e2e_keys \<Rightarrow> circuit_inputs" where
  "e2e_inputs H D nullifier secret ks =
     (let (_, path, rt) = incremental_insert (pair_hash H) (new_incremental (pair_hash H) 20) (H [nullifier, secret, D]);
          relayerField = script_pubkeyToField H (ek_relayer ks); recipientField = script_pubkeyToField H (ek_recipient ks)
      in \<lparr>ci_nullifierHash = show_int (H [nullifier]), ci_root = show_int rt,
          ci_withdrawalCommitment = show_int (H [relayerField, E2E_FEE_MAX D, recipientField]),
          ci_nullifier = show_int nullifier, ci_secret = show_int secret, ci_denomination = show_int D,
          ci_pathElements = map (\<lambda>(e, _). show_int e) path, ci_pathIndices = map (\<lambda>(_, i). show_int (int i)) path,
          ci_recipient = show_int recipientField, ci_relayerAddress = show_int relayerField,
          ci_relayerFeeMax = show_int (E2E_FEE_MAX D)\<rparr>)"

definition e2e_args :: "int \<Rightarrow> int \<Rightarrow> json \<times> string list \<Rightarrow> withdraw_args js" where
  "e2e_args D nullifierHash proved =
     js_bind (script_proof_bytes (fst proved)) (\<lambda>pb.
     js_bind (bigint_at (snd proved) 1) (\<lambda>r. js_bind (bigint_at (snd proved) 2) (\<lambda>c.
     Returns \<lparr>wa_proof = pb, wa_nullifierHash = script_bytes32 nullifierHash, wa_root = script_bytes32 r,
       wa_withdrawalCommitment = script_bytes32 c, wa_relayerFeeMax = E2E_FEE_MAX D, wa_relayerFeeTaken = E2E_FEE_MAX D\<rparr>)))"

text \<open>Steps 6 and 7: the withdrawal and whether everything arrived; the result is the exit code.\<close>

definition e2e_withdraw :: "cluster \<Rightarrow> int \<Rightarrow> e2e_keys \<Rightarrow> pubkey \<Rightarrow> pubkey \<Rightarrow> pubkey \<Rightarrow> pubkey \<Rightarrow> withdraw_args \<Rightarrow> int script" where
  "e2e_withdraw C D ks poolPda vaultPda treasury nullifierPda args =
     sc_bind (get_balance C (ek_recipient ks)) (\<lambda>recipientBefore.
     sc_bind (get_balance C treasury) (\<lambda>treasuryBefore.
     sc_bind (transact C (cl_wallet C) 2 (ProgramIx (Withdraw \<lparr>ac_pool = poolPda, ac_vault = vaultPda, ac_nullifierPda = nullifierPda,
       ac_recipient = ek_recipient ks, ac_treasury = treasury, ac_relayer = ek_relayer ks\<rparr> args))) (\<lambda>withdrawSig.
     sc_bind (get_balance C (ek_recipient ks)) (\<lambda>recipientAfter.
     sc_bind (get_balance C treasury) (\<lambda>treasuryAfter.
     sc_bind (get_balance C vaultPda) (\<lambda>vaultAfter.
     let treasuryReceived = rnd (treasuryAfter - treasuryBefore); recipientReceived = rnd (recipientAfter - recipientBefore);
         userAmount = rnd (rnd (rnd D - rnd (E2E_TREASURY_FEE D)) - rnd (E2E_FEE_MAX D))
     in sc_bind (get_account C nullifierPda) (\<lambda>nullifierInfo.
        sc_return (if treasuryReceived = rnd (E2E_TREASURY_FEE D) \<and> recipientReceived = userAmount \<and> nullifierInfo \<noteq> None then 0 else 1))))))))"

text \<open>From the deposit on, with the two secrets drawn.\<close>

definition e2e_spend :: "cluster \<Rightarrow> int \<Rightarrow> e2e_keys \<Rightarrow> pubkey \<Rightarrow> pubkey \<Rightarrow> pubkey \<Rightarrow> int \<Rightarrow> int \<Rightarrow> int script" where
  "e2e_spend C D ks poolPda vaultPda treasury nullifier secret =
     (let H = cl_hash C in
      sc_then (e2e_deposit C ks poolPda vaultPda (H [nullifier, secret, D])) (
      sc_bind (get_balance C vaultPda) (\<lambda>vaultBal.
      sc_bind (sc_js (cl_prove C (e2e_inputs H D nullifier secret ks))) (\<lambda>proved.
      sc_bind (sc_js (script_findNullifierPda C poolPda (script_bytes32 (H [nullifier])))) (\<lambda>nullifierPda.
      sc_bind (sc_js (e2e_args D (H [nullifier]) proved)) (\<lambda>args.
      e2e_withdraw C D ks poolPda vaultPda treasury nullifierPda args))))))"

definition e2e_body :: "cluster \<Rightarrow> e2e_env \<Rightarrow> int script" where
  "e2e_body C V =
     sc_bind (sc_js (E2E_DENOMINATION V)) (\<lambda>D.
     if \<not> ev_artifacts V then sc_return 1
     else sc_then (sc_js (ev_setup V)) (
       sc_bind (get_balance C (cl_wallet C)) (\<lambda>funderBal.
       if funderBal < rnd (rnd D + 120000000) then sc_return 1
       else sc_bind (e2e_keypairs C V) (\<lambda>ks.
         sc_then (e2e_fund C D ks) (
         sc_bind (sc_js (script_findPoolPda C (ek_admin ks) D (ev_version V))) (\<lambda>poolPda.
         sc_bind (sc_js (script_findVaultPda C poolPda)) (\<lambda>vaultPda.
         sc_bind (e2e_pool C V D ks poolPda vaultPda) (\<lambda>treasury.
         sc_bind (randomFieldElem C) (\<lambda>nullifier. sc_bind (randomFieldElem C) (\<lambda>secret.
         e2e_spend C D ks poolPda vaultPda treasury nullifier secret))))))))))"

definition e2e_main :: "cluster \<Rightarrow> e2e_env \<Rightarrow> int script" where
  "e2e_main C V = sc_catch (e2e_body C V) (\<lambda>_. sc_return 1)"

end
