(* ===== verification/ProgramWorld.thy ===== *)
theory ProgramWorld
  imports ProgramChain
begin

text \<open>
  All pools at once: the ledger through any sequence of instructions of the program, by anyone and on any
  accounts, interleaved with anything other programs do. What is proved: at every moment every account
  that is a pool has a history of its own, so that everything proved of histories holds of all pools.
\<close>

definition pool_at :: "runtime \<Rightarrow> ledger \<Rightarrow> pubkey \<Rightarrow> bool" where
  "pool_at R L K \<longleftrightarrow> acc_owner (L K) = rt_program R \<and> take 8 (acc_data (L K)) = POOL_DISCRIMINATOR"

fun instr_typed :: "instruction \<Rightarrow> bool" where
  "instr_typed (InitializePool admin K V treasury d v) = (length admin = 32 \<and> length treasury = 32 \<and> is_u64 d)"
| "instr_typed (Deposit K V depositor c) = (length c = 32)"
| "instr_typed (Withdraw acs args) = args_typed args"
| "instr_typed _ = True"

fun instr_pool :: "instruction \<Rightarrow> pubkey" where
  "instr_pool (InitializePool admin K V treasury d v) = K"
| "instr_pool (Deposit K V depositor c) = K"
| "instr_pool (Withdraw acs args) = ac_pool acs"
| "instr_pool (PausePool admin K) = K"
| "instr_pool (UnpausePool admin K) = K"

definition only_credited :: "runtime \<Rightarrow> ledger \<Rightarrow> ledger \<Rightarrow> pubkey \<Rightarrow> bool" where
  "only_credited R L L' k \<longleftrightarrow> acc_owner (L' k) = rt_program R \<and> acc_data (L' k) = acc_data (L k) \<and> lamports L k \<le> lamports L' k"

text \<open>
  A transaction of other programs: what the program owns it may only credit, and what it gives to the
  program is filled with zeros, as the runtime requires of an account that changes its owner.
\<close>

definition foreign :: "runtime \<Rightarrow> ledger \<Rightarrow> ledger \<Rightarrow> bool" where
  "foreign R L L' \<longleftrightarrow> (\<forall>k. (acc_owner (L k) = rt_program R \<longrightarrow> only_credited R L L' k)
     \<and> (acc_owner (L k) \<noteq> rt_program R \<longrightarrow> acc_owner (L' k) = rt_program R \<longrightarrow> (\<exists>n. acc_data (L' k) = replicate n 0)))"

inductive reachable :: "runtime \<Rightarrow> ledger \<Rightarrow> bool" for R where
  start: "(\<And>k. acc_owner (L k) \<noteq> rt_program R) \<Longrightarrow> reachable R L"
| ran: "reachable R L \<Longrightarrow> execute R i L = Gives (L', ev) \<Longrightarrow> instr_typed i \<Longrightarrow> reachable R L'"
| other: "reachable R L \<Longrightarrow> foreign R L L' \<Longrightarrow> reachable R L'"

subsection \<open>What one instruction touches\<close>

lemma only_credited_refl: "acc_owner (L k) = rt_program R \<Longrightarrow> only_credited R L L k"
  by (simp add: only_credited_def)

lemma load_pool_at: "load_pool R L K = Gives p \<Longrightarrow> pool_at R L K"
  by (simp add: load_pool_def pool_at_def split: if_splits)

lemma initialize_effect:
  assumes S: "system_laws R" and x: "execute R (InitializePool admin K V treasury d v) L = Gives (L', ev)"
  shows "fresh R L K" "fresh R L V" "acc_owner (L k) = rt_program R \<Longrightarrow> only_credited R L L' k"
    and "k \<noteq> K \<Longrightarrow> k \<noteq> V \<Longrightarrow> acc_owner (L' k) = acc_owner (L k) \<and> acc_data (L' k) = acc_data (L k)"
    and "acc_data (L' V) = rt_vault_disc R"
    and "\<exists>b. rt_find_pda R (vault_seeds K) = Some (V, b)"
proof -
  obtain pb vb L1 L2 p where pda: "rt_find_pda R (vault_seeds K) = Some (V, vb)"
      and s: "sys R (AnchorInit admin K (8 + POOL_SIZE)) L = Gives L1" "sys R (AnchorInit admin V 8) L1 = Gives L2"
      and L': "L' = set_data (set_data L2 K (pool_bytes p)) V (rt_vault_disc R)"
    using x by (auto simp: program_initialize_def run_simps split: if_splits)
  obtain c where 1: "fresh R L K" "acc_owner (L admin) = rt_system R" "admin \<noteq> K"
      "L1 = (move admin K c L)(K := \<lparr>acc_owner = rt_program R, acc_data = replicate (8 + POOL_SIZE) 0, acc_lamports = lamports L K + c\<rparr>)"
    using system_init [OF S s(1)] by blast
  obtain c' where 2: "fresh R L1 V" "acc_owner (L1 admin) = rt_system R" "admin \<noteq> V"
      "L2 = (move admin V c' L1)(V := \<lparr>acc_owner = rt_program R, acc_data = replicate 8 0, acc_lamports = lamports L1 V + c'\<rparr>)"
    using system_init [OF S s(2)] by blast
  have ne: "V \<noteq> K" using 1(4) 2(1) S by (auto simp: fresh_def system_laws_def)
  show "fresh R L K" by (rule 1(1))
  show "fresh R L V" using 2(1) ne by (simp add: 1(4) fresh_def move_simps)
  show eq: "acc_owner (L' k) = acc_owner (L k) \<and> acc_data (L' k) = acc_data (L k)" if "k \<noteq> K" "k \<noteq> V" for k
    using that by (simp add: L' 2(4) 1(4) set_data_def move_simps)
  show "only_credited R L L' k" if o: "acc_owner (L k) = rt_program R" for k
  proof -
    have k: "k \<noteq> K" "k \<noteq> V" "k \<noteq> admin"
      using o 1(1,2) \<open>fresh R L V\<close> S by (auto simp: fresh_def system_laws_def)
    then have "lamports L' k = lamports L k" by (simp add: L' 2(4) 1(4) set_data_def move_def lamports_def Let_def)
    then show ?thesis using eq [OF k(1,2)] o by (simp add: only_credited_def)
  qed
  show "acc_data (L' V) = rt_vault_disc R" by (simp add: L' set_data_def)
  show "\<exists>b. rt_find_pda R (vault_seeds K) = Some (V, b)" using pda by blast
qed

lemma deposit_effect:
  assumes S: "system_laws R" and x: "execute R (Deposit K V depositor c) L = Gives (L', ev)"
  shows "pool_at R L K" "acc_owner (L k) = rt_program R \<Longrightarrow> k \<noteq> K \<Longrightarrow> only_credited R L L' k"
    and "k \<noteq> K \<Longrightarrow> acc_owner (L' k) = acc_owner (L k) \<and> acc_data (L' k) = acc_data (L k)"
proof -
  obtain p q where l: "load_pool R L K = Gives p" and s: "sys R (SysTransfer depositor V (pl_denomination p)) (write_pool L K q) = Gives L'"
    using x by (auto simp: program_deposit_def run_simps Let_def split: if_splits)
  show p: "pool_at R L K" by (rule load_pool_at [OF l])
  have n: "0 \<le> pl_denomination p"
    using l by (auto simp: load_pool_def pool_of_bytes_def Let_def le_int_bounds split: if_splits)
  obtain d where d: "write_pool L K q = set_data L K d" by (simp add: write_pool_def)
  have t: "acc_owner (set_data L K d depositor) = rt_system R" "L' = move depositor V (pl_denomination p) (set_data L K d)"
    using system_transfer [OF S s] unfolding d by blast+
  have dep: "acc_owner (L depositor) = rt_system R" using t(1) by (auto simp: set_data_def split: if_splits)
  show eq: "acc_owner (L' k) = acc_owner (L k) \<and> acc_data (L' k) = acc_data (L k)" if "k \<noteq> K" for k
    using that by (simp add: t(2) move_simps set_data_def)
  show "only_credited R L L' k" if o: "acc_owner (L k) = rt_program R" "k \<noteq> K" for k
  proof -
    have "depositor \<noteq> k" using dep o(1) S by (auto simp: system_laws_def)
    then have "lamports (set_data L K d) k \<le> lamports L' k" unfolding t(2) by (rule move_simps(5) [OF _ n])
    then show ?thesis using eq [OF o(2)] o by (simp add: only_credited_def set_data_def lamports_def)
  qed
qed

lemma pause_effect:
  assumes x: "set_paused R flag admin K L = Gives (L', ev)"
  shows "pool_at R L K" "acc_owner (L k) = rt_program R \<Longrightarrow> k \<noteq> K \<Longrightarrow> only_credited R L L' k"
    and "k \<noteq> K \<Longrightarrow> acc_owner (L' k) = acc_owner (L k) \<and> acc_data (L' k) = acc_data (L k)"
proof -
  obtain p where l: "load_pool R L K = Gives p" and L': "L' = write_pool L K (p\<lparr>pl_is_paused := flag\<rparr>)"
    using x by (auto simp: set_paused_def run_simps)
  show "pool_at R L K" by (rule load_pool_at [OF l])
  show "acc_owner (L k) = rt_program R \<Longrightarrow> k \<noteq> K \<Longrightarrow> only_credited R L L' k"
    "k \<noteq> K \<Longrightarrow> acc_owner (L' k) = acc_owner (L k) \<and> acc_data (L' k) = acc_data (L k)"
    by (simp_all add: L' write_pool_def set_data_def only_credited_def lamports_def)
qed

lemma withdraw_pool_at:
  assumes "execute R (Withdraw acs args) L = Gives (L', ev)"
  shows "pool_at R L (ac_pool acs)"
proof -
  have "process_withdraw R acs True (rt_system R) args L = Gives (L', ev)" using assms by simp
  then obtain T b d where "pool_checks R L acs (rt_system R) = Gives (T, b, d)" by (rule process_withdraw_Gives)
  then show ?thesis by (auto simp: pool_checks_def run_simps Let_def pool_at_def)
qed

lemma withdraw_effect:
  assumes H: "runtime_laws H R" and x: "execute R (Withdraw acs args) L = Gives (L', ev)" and l: "live H R (ac_pool acs) L cs hs gift p V"
    and t: "args_typed args"
  shows "fresh R L (ac_nullifierPda acs)" "take 8 (acc_data (L' (ac_nullifierPda acs))) = rt_nullifier_disc R"
    and "k \<noteq> ac_nullifierPda acs \<Longrightarrow> acc_owner (L' k) = acc_owner (L k) \<and> acc_data (L' k) = acc_data (L k)"
    and "acc_owner (L k) = rt_program R \<Longrightarrow> k \<noteq> V \<Longrightarrow> only_credited R L L' k"
proof -
  have S: "system_laws R" and A: "address_laws R" using H by (simp_all add: runtime_laws_def)
  let ?N = "ac_nullifierPda acs"
  have pw: "process_withdraw R acs True (rt_system R) args L = Gives (L', ev)" using x by simp
  obtain T b d f u L1 L2 paid y where w: "pool_checks R L acs (rt_system R) = Gives (T, b, d)" "distinctness acs = Gives ()"
      "account_checks R L acs args T b = Gives ()" "create_nullifier R acs L = Gives L1" "write_nullifier R acs args L1 = Gives L2"
      "pay_out R acs d f (wa_relayerFeeTaken args) u L2 = Gives (L', paid)"
      "compute_fee_split d (wa_relayerFeeTaken args) (wa_relayerFeeMax args) = Gives (f, y, u)"
    using pw by (rule process_withdraw_Gives)
  note ac = w(3) [unfolded account_checks_Gives]
  have e: "acc_data (L ?N) = []" using ac by blast
  note c = create_nullifier_Gives [OF A S w(2,4) e]
  show fr: "fresh R L ?N" using c by blast
  have L1: "L1 = (move (ac_relayer acs) ?N (top_up R L ?N) L)(?N := \<lparr>acc_owner = rt_program R, acc_data = replicate 80 0,
      acc_lamports = lamports L ?N + top_up R L ?N\<rparr>)"
    and pay: "top_up R L ?N = 0 \<or> acc_owner (L (ac_relayer acs)) = rt_system R"
    using c by blast+
  obtain dd where L2: "take 8 dd = rt_nullifier_disc R" "L2 = set_data L1 ?N dd"
    using write_nullifier_Gives [OF w(5)] A by (auto simp: address_laws_def)
  obtain u' where L': "L' = paid_ledger acs d paid (wa_relayerFeeTaken args) u' L2" "paid + u' = f + u" "paid = f \<or> paid = 0"
    using pay_out_Gives [OF w(6)] by blast
  have own: "acc_owner (L' k) = acc_owner (L2 k)" "acc_data (L' k) = acc_data (L2 k)" for k by (simp_all add: L' paid_ledger_def)
  show "take 8 (acc_data (L' ?N)) = rt_nullifier_disc R" by (simp add: own L2 set_data_def)
  show eq: "acc_owner (L' k) = acc_owner (L k) \<and> acc_data (L' k) = acc_data (L k)" if "k \<noteq> ?N" for k
    using that by (simp add: own L2 L1 set_data_def move_simps)
  have lp: "pool_wf p" "acc_owner (L (ac_pool acs)) = rt_program R" "acc_data (L (ac_pool acs)) = pool_bytes p"
      "rt_find_pda R (vault_seeds (ac_pool acs)) = Some (V, pl_vault_bump p)"
    using l by (simp_all add: live_def)
  have "b = pl_vault_bump p" "d = pl_denomination p" using w(1) pool_checks_live [of p L acs R, OF lp(1-3)] by auto
  moreover have "rt_create_pda R (vault_seeds (ac_pool acs) @ [[pl_vault_bump p]]) = Some V" using A lp(4) by (simp add: address_laws_def)
  ultimately have vault: "ac_vault acs = V" and d: "0 \<le> d" using ac lp(1) by (simp_all add: pool_wf_def is_u64_def)
  have am: "0 \<le> paid" "0 \<le> u'" "0 \<le> wa_relayerFeeTaken args"
    using w(7) L'(2,3) d t by (auto simp: compute_fee_split_Gives args_typed_def is_u64_def pos_imp_zdiv_nonneg_iff)
  show "only_credited R L L' k" if o: "acc_owner (L k) = rt_program R" "k \<noteq> V" for k
  proof -
    have k: "k \<noteq> ?N" using o(1) fresh_not_program [OF S fr] by auto
    have rel: "top_up R L ?N = 0 \<or> k \<noteq> ac_relayer acs" using pay o(1) S by (auto simp: system_laws_def)
    have "lamports L2 k = lamports L k" using k rel by (auto simp: L2 L1 set_data_def lamports_def move_def Let_def)
    moreover have "0 \<le> credit_owed_to acs paid (wa_relayerFeeTaken args) u' k" using am by (simp add: credit_owed_to_def)
    ultimately have "lamports L k \<le> lamports L' k"
      using o(2) vault unfolding L'(1) by (simp add: paid_ledger_def lamports_def)
    then show ?thesis using eq [OF k] o by (simp add: only_credited_def)
  qed
qed

subsection \<open>Every pool has its history\<close>

definition all_live :: "runtime \<Rightarrow> ledger \<Rightarrow> bool" where
  "all_live R L \<longleftrightarrow> (\<forall>K. pool_at R L K \<longrightarrow> (\<exists>cs hs gift. history R K L cs hs gift))
     \<and> (\<forall>K K' V b b'. pool_at R L K \<longrightarrow> pool_at R L K' \<longrightarrow> rt_find_pda R (vault_seeds K) = Some (V, b)
          \<longrightarrow> rt_find_pda R (vault_seeds K') = Some (V, b') \<longrightarrow> K = K')"

text \<open>An instruction on another pool is to a pool a transaction from outside.\<close>

lemma history_kept:
  assumes H: "runtime_laws H R" and h: "history R K L cs hs gift"
    and k: "\<And>k. acc_owner (L k) = rt_program R \<Longrightarrow> k \<in> pool_accounts R K hs \<Longrightarrow> only_credited R L L' k"
  shows "\<exists>gift'. history R K L' cs hs gift'"
proof -
  obtain p V where l: "live H R K L cs hs gift p V" using history_live [OF H h] by blast
  have "outside R K hs L L'" using k by (simp add: outside_def only_credited_def)
  then show ?thesis using history.other [OF h] l by (auto simp: live_def)
qed

lemma other_pool_kept:
  assumes H: "runtime_laws H R" and A: "all_live R L" and x: "execute R i L = Gives (L', ev)" and t: "instr_typed i"
    and K: "pool_at R L K" "K \<noteq> instr_pool i" and h: "history R K L cs hs gift"
    and k: "acc_owner (L k) = rt_program R" "k \<in> pool_accounts R K hs"
  shows "only_credited R L L' k"
proof -
  have S: "system_laws R" and D: "address_laws R" using H by (simp_all add: runtime_laws_def)
  obtain p V where l: "live H R K L cs hs gift p V" using history_live [OF H h] by blast
  have len: "k = K \<and> length (acc_data (L k)) = 8976 \<or> k = V \<and> length (acc_data (L k)) = 8 \<or> length (acc_data (L k)) = 80"
  proof -
    consider "k = K" | "k = V" | h b where "h \<in> set hs" "rt_find_pda R (nullifier_seeds K h) = Some (k, b)"
      using k(2) l by (auto simp: pool_accounts_def live_def)
    then show ?thesis
    proof cases
      case (3 h b)
      then have "spent R K L h" using l by (simp add: live_def list_all_iff)
      then show ?thesis using 3 by (auto simp: spent_def)
    qed (use live_vault [OF l D] in auto)
  qed
  have target: "k \<noteq> instr_pool i" if at: "pool_at R L (instr_pool i)"
  proof
    assume e: "k = instr_pool i"
    obtain cs' hs' g' where "history R (instr_pool i) L cs' hs' g'" using A at by (auto simp: all_live_def)
    then obtain p' V' where "live H R (instr_pool i) L cs' hs' g' p' V'" using history_live [OF H] by blast
    then have "length (acc_data (L k)) = 8976" using live_vault(5) [OF _ D] e by blast
    then show False using len e K(2) by simp
  qed
  show ?thesis
  proof (cases i)
    case (InitializePool admin P V' treasury d v)
    then show ?thesis using initialize_effect(3) [OF S] x k(1) by blast
  next
    case (Deposit P V' depositor c)
    then have "pool_at R L P" using deposit_effect(1) [OF S] x by blast
    then have "k \<noteq> P" using target Deposit by simp
    then show ?thesis using deposit_effect(2) [OF S] x k(1) Deposit by blast
  next
    case (Withdraw acs args)
    have at: "pool_at R L (ac_pool acs)" using withdraw_pool_at x Withdraw by blast
    then obtain cs' hs' g' where "history R (ac_pool acs) L cs' hs' g'" using A by (auto simp: all_live_def)
    then obtain p' V' where l': "live H R (ac_pool acs) L cs' hs' g' p' V'" using history_live [OF H] by blast
    have "k \<noteq> V'"
    proof
      assume e: "k = V'"
      have "length (acc_data (L V')) = 8" by (rule live_vault(4) [OF l' D])
      then have "V' = V" using len e by auto
      then have "K = ac_pool acs" using A K(1) at l l' unfolding all_live_def live_def by blast
      then show False using K(2) Withdraw by simp
    qed
    moreover have "args_typed args" using t Withdraw by simp
    ultimately show ?thesis using withdraw_effect(4) [OF H _ l'] x k(1) Withdraw by blast
  next
    case (PausePool admin P)
    then have x': "set_paused R 1 admin P L = Gives (L', ev)" using x by (simp add: pause_pool_handler_def)
    show ?thesis using pause_effect(2) [OF x' k(1)] target pause_effect(1) [OF x'] PausePool by simp
  next
    case (UnpausePool admin P)
    then have x': "set_paused R 0 admin P L = Gives (L', ev)" using x by (simp add: unpause_pool_handler_def)
    show ?thesis using pause_effect(2) [OF x' k(1)] target pause_effect(1) [OF x'] UnpausePool by simp
  qed
qed

text \<open>The only new pool is the one an InitializePool creates, at a fresh address and with a fresh vault.\<close>

lemma new_pool:
  assumes H: "runtime_laws H R" and A: "all_live R L" and x: "execute R i L = Gives (L', ev)" and t: "instr_typed i"
    and at: "pool_at R L' K" and old: "\<not> pool_at R L K"
  shows "\<exists>admin V treasury d v. i = InitializePool admin K V treasury d v"
proof -
  have S: "system_laws R" and D: "address_laws R" using H by (simp_all add: runtime_laws_def)
  have same: False if "acc_owner (L' K) = acc_owner (L K) \<and> acc_data (L' K) = acc_data (L K)"
    using that at old by (simp add: pool_at_def)
  show ?thesis
  proof (cases i)
    case (InitializePool admin P V' treasury d v)
    have x': "execute R (InitializePool admin P V' treasury d v) L = Gives (L', ev)" using x InitializePool by simp
    have "rt_vault_disc R = take 8 (rt_vault_disc R)" using D by (simp add: address_laws_def)
    then have "K \<noteq> V'" using initialize_effect(5) [OF S x'] at D by (auto simp: pool_at_def address_laws_def)
    then have "K = P" using initialize_effect(4) [OF S x'] same by blast
    then show ?thesis using InitializePool by blast
  next
    case (Deposit P V' depositor c)
    then show ?thesis using deposit_effect(1,3) [OF S] x same old by metis
  next
    case (Withdraw acs args)
    have "pool_at R L (ac_pool acs)" using withdraw_pool_at x Withdraw by blast
    then obtain cs' hs' g' where "history R (ac_pool acs) L cs' hs' g'" using A unfolding all_live_def by blast
    then obtain p' V' where l': "live H R (ac_pool acs) L cs' hs' g' p' V'" using history_live [OF H] by blast
    have w: "args_typed args" "execute R (Withdraw acs args) L = Gives (L', ev)" using t x Withdraw by simp_all
    have "K \<noteq> ac_nullifierPda acs" using withdraw_effect(2) [OF H w(2) l' w(1)] at D by (auto simp: pool_at_def address_laws_def)
    then show ?thesis using withdraw_effect(3) [OF H w(2) l' w(1)] same by blast
  next
    case (PausePool admin P)
    then have x': "set_paused R 1 admin P L = Gives (L', ev)" using x by (simp add: pause_pool_handler_def)
    show ?thesis using pause_effect(1,3) [OF x'] same old by metis
  next
    case (UnpausePool admin P)
    then have x': "set_paused R 0 admin P L = Gives (L', ev)" using x by (simp add: unpause_pool_handler_def)
    show ?thesis using pause_effect(1,3) [OF x'] same old by metis
  qed
qed

lemma own_pool_history:
  assumes "execute R i L = Gives (L', ev)" "instr_typed i" "pool_at R L (instr_pool i) \<Longrightarrow> \<exists>cs hs gift. history R (instr_pool i) L cs hs gift"
    "system_laws R"
  shows "\<exists>cs hs gift. history R (instr_pool i) L' cs hs gift"
proof (cases i)
  case (InitializePool admin P V' treasury d v)
  then show ?thesis using assms(1,2) history.created by fastforce
next
  case (Deposit P V' depositor c)
  have x: "execute R (Deposit P V' depositor c) L = Gives (L', ev)" "length c = 32" using assms(1,2) Deposit by simp_all
  then obtain cs hs gift where "history R P L cs hs gift" using deposit_effect(1) [OF assms(4)] assms(3) Deposit by (metis instr_pool.simps(2))
  then show ?thesis using history.deposited x Deposit by (metis instr_pool.simps(2))
next
  case (Withdraw acs args)
  have x: "execute R (Withdraw acs args) L = Gives (L', ev)" "args_typed args" using assms(1,2) Withdraw by simp_all
  then obtain cs hs gift where "history R (ac_pool acs) L cs hs gift" using withdraw_pool_at assms(3) Withdraw by (metis instr_pool.simps(3))
  then show ?thesis using history.withdrawn [OF _ x(1) _ x(2)] Withdraw by (metis instr_pool.simps(3))
next
  case (PausePool admin P)
  have x: "execute R (PausePool admin P) L = Gives (L', ev)" using assms(1) PausePool by simp
  then have "pool_at R L P" using pause_effect(1) [of R 1 admin P L L' ev] by (simp add: pause_pool_handler_def)
  then obtain cs hs gift where "history R P L cs hs gift" using assms(3) PausePool by auto
  then show ?thesis using history.paused [OF _ x] PausePool by (metis instr_pool.simps(4))
next
  case (UnpausePool admin P)
  have x: "execute R (UnpausePool admin P) L = Gives (L', ev)" using assms(1) UnpausePool by simp
  then have "pool_at R L P" using pause_effect(1) [of R 0 admin P L L' ev] by (simp add: unpause_pool_handler_def)
  then obtain cs hs gift where "history R P L cs hs gift" using assms(3) UnpausePool by auto
  then show ?thesis using history.unpaused [OF _ x] UnpausePool by (metis instr_pool.simps(5))
qed

lemma all_live_ran:
  assumes H: "runtime_laws H R" and A: "all_live R L" and x: "execute R i L = Gives (L', ev)" and t: "instr_typed i"
  shows "all_live R L'"
proof -
  have S: "system_laws R" using H by (simp add: runtime_laws_def)
  have hist: "\<exists>cs hs gift. history R K L cs hs gift" if "pool_at R L K" for K using A that unfolding all_live_def by blast
  have old: "pool_at R L K" if "pool_at R L' K" "K \<noteq> instr_pool i" for K
  proof (rule ccontr)
    assume "\<not> pool_at R L K"
    from new_pool [OF H A x t that(1) this] show False using that(2) by auto
  qed
  have "\<exists>cs hs gift. history R K L' cs hs gift" if at: "pool_at R L' K" for K
  proof (cases "K = instr_pool i")
    case True
    then show ?thesis using own_pool_history [OF x t hist S] by simp
  next
    case False
    have o: "pool_at R L K" by (rule old [OF at False])
    then obtain cs hs gift where h: "history R K L cs hs gift" using hist by blast
    then show ?thesis using history_kept [OF H h] other_pool_kept [OF H A x t o False h] by blast
  qed
  moreover have "K = K'" if "pool_at R L' K" "pool_at R L' K'" "rt_find_pda R (vault_seeds K) = Some (V, b)"
    "rt_find_pda R (vault_seeds K') = Some (V, b')" for K K' V b b'
  proof -
    have one: "P = P'" if p: "pool_at R L P" "rt_find_pda R (vault_seeds P) = Some (V, c)"
        "rt_find_pda R (vault_seeds P') = Some (V, c')" "pool_at R L' P'" for P P' c c'
    proof (cases "pool_at R L P'")
      case True
      then show ?thesis using A p unfolding all_live_def by blast
    next
      case False
      then obtain admin V' treasury d v where "i = InitializePool admin P' V' treasury d v"
        using new_pool [OF H A x t p(4)] by blast
      then have x': "execute R (InitializePool admin P' V' treasury d v) L = Gives (L', ev)" using x by simp
      have "V' = V" using initialize_effect(6) [OF S x'] p(3) by auto
      then have "fresh R L V" using initialize_effect(2) [OF S x'] by simp
      moreover obtain cs hs gift where "history R P L cs hs gift" using hist p(1) by blast
      then obtain q W where "live H R P L cs hs gift q W" using history_live [OF H] by blast
      then have "acc_owner (L V) = rt_program R" using p(2) by (simp add: live_def)
      ultimately show ?thesis using S by (simp add: fresh_def system_laws_def)
    qed
    show ?thesis
    proof (cases "K = instr_pool i")
      case False
      then show ?thesis using one old that by blast
    next
      case True
      then show ?thesis using one [of K' b' K b] old that by metis
    qed
  qed
  ultimately show ?thesis unfolding all_live_def by blast
qed

lemma all_live_other:
  assumes H: "runtime_laws H R" and A: "all_live R L" and f: "foreign R L L'"
  shows "all_live R L'"
proof -
  have old: "pool_at R L K" if "pool_at R L' K" for K
  proof -
    have "acc_owner (L K) = rt_program R"
    proof (rule ccontr)
      assume "acc_owner (L K) \<noteq> rt_program R"
      moreover have "acc_owner (L' K) = rt_program R" using that by (simp add: pool_at_def)
      ultimately obtain n where "acc_data (L' K) = replicate n 0" using f unfolding foreign_def by blast
      then have "POOL_DISCRIMINATOR = take 8 (replicate n 0)" using that by (simp add: pool_at_def)
      then have "POOL_DISCRIMINATOR ! 0 = take 8 (replicate n 0) ! 0" "0 < length (take 8 (replicate n (0 :: byte)))"
        using length_discriminator by simp_all
      then have "POOL_DISCRIMINATOR ! 0 = 0" by simp
      then show False by (simp add: POOL_DISCRIMINATOR_def)
    qed
    moreover from this have "only_credited R L L' K" using f unfolding foreign_def by blast
    ultimately show ?thesis using that by (simp add: only_credited_def pool_at_def)
  qed
  have "\<exists>cs hs gift. history R K L' cs hs gift" if at: "pool_at R L' K" for K
  proof -
    obtain cs hs gift where "history R K L cs hs gift" using A old [OF at] unfolding all_live_def by blast
    then show ?thesis using history_kept [OF H] f unfolding foreign_def by blast
  qed
  then show ?thesis using A old unfolding all_live_def by blast
qed

lemma reachable_all_live:
  assumes H: "runtime_laws H R"
  shows "reachable R L \<Longrightarrow> all_live R L"
proof (induction rule: reachable.induct)
  case (start L)
  then show ?case by (simp add: all_live_def pool_at_def)
next
  case (ran L i L' ev)
  then show ?case using all_live_ran [OF H] by blast
next
  case (other L L')
  then show ?case using all_live_other [OF H] by blast
qed

end
