(* ===== verification/ProgramClaims.thy ===== *)
theory ProgramClaims
  imports ProgramWorld ProgramExample ProgramRelay ChainView
begin

text \<open>
  What the on-chain program guarantees and how the JavaScript around it fits: the accounting of every pool,
  the nullifiers, the amounts of a withdrawal, and the program against the watcher, the browser and the
  relayer.
\<close>

subsection \<open>The example after one deposit\<close>

lemma toy_deposit:
  obtains p L where "execute toy (Deposit (key 77) (key 37) (key 5) (key 7)) toy_made = Gives (L, [DepositEvent (key 7) 0 6])"
    "L = move (key 5) (key 37) 1000000000 (set_data toy_made (key 77) (pool_bytes p))"
    "live toy_hash toy (key 77) L [key 7] [] 0 p (key 37)" "history toy (key 77) L [key 7] [] 0" "inserted toy_pool p"
    "reachable toy L" "pool_at toy L (key 77)"
proof -
  have f: "in_field (be_int (key 7))" by (simp add: key_def be_int_be_bytes in_field_def BN254_Fr_def)
  have W: "transfer_works toy" using toy_works by (simp add: system_works_def)
  have fields: "pl_denomination toy_pool = 1000000000" "pl_is_paused toy_pool = 0" by (simp_all add: toy_pool_def)
  have funds: "wallet toy toy_made (key 5)" "pl_denomination toy_pool \<le> lamports toy_made (key 5)"
      "lamports toy_made (key 37) + pl_denomination toy_pool < 2 ^ 64"
    by (simp_all add: fields wallet_def toy_made_eq toy_start_def lamports_def toy_rent_def)
  obtain p where p: "execute toy (Deposit (key 77) (key 37) (key 5) (key 7)) toy_made
        = Gives (move (key 5) (key 37) 1000000000 (set_data toy_made (key 77) (pool_bytes p)), [DepositEvent (key 7) 0 6])"
      "live toy_hash toy (key 77) (move (key 5) (key 37) 1000000000 (set_data toy_made (key 77) (pool_bytes p))) [key 7] [] 0 p (key 37)"
      "inserted toy_pool p"
    using deposit_accepted [OF toy_laws W toy_live_0 fields(2) _ _ f funds] by (auto simp: fields)
  let ?L = "move (key 5) (key 37) 1000000000 (set_data toy_made (key 77) (pool_bytes p))"
  have h: "history toy (key 77) ?L [key 7] [] 0" using history.deposited [OF toy_history_0 p(1)] by simp
  have "reachable toy toy_start" by (rule reachable.start) (simp add: toy_start_def)
  then have "reachable toy toy_made" by (rule reachable.ran [OF _ toy_created]) (simp add: is_u64_def)
  then have c: "reachable toy ?L" by (rule reachable.ran [OF _ p(1)]) simp
  have "pool_at toy ?L (key 77)" using p(2) by (simp add: live_def pool_at_def pool_bytes_discriminator)
  then show thesis using that [OF p(1) refl p(2) h p(3) c] by blast
qed

subsection \<open>Accounting\<close>

text \<open>
  C1. Every pool is accounted for, at every moment of every run: whatever instructions anyone sends, on any
  accounts and interleaved with any other program's transactions, each account that is a pool of this
  program holds the commitment tree of exactly its own deposits in order, with the roots of the last 256
  prefixes in its ring; its vault holds its rent, one denomination for each deposit that was not
  withdrawn, and what others gave it; it never falls below its rent; and no nullifier hash was spent twice.
\<close>

theorem every_pool_is_accounted_for:
  assumes "runtime_laws H R" "reachable R L" "pool_at R L K"
  shows "\<exists>cs hs gift p V b. history R K L cs hs gift \<and> acc_data (L K) = pool_bytes p \<and> pool_tree H p (map be_int cs)
    \<and> rt_find_pda R (vault_seeds K) = Some (V, b) \<and> acc_owner (L V) = rt_program R
    \<and> lamports L V = rt_min_balance R 8 + (int (length cs) - int (length hs)) * pl_denomination p + gift
    \<and> 0 \<le> gift \<and> rt_min_balance R 8 \<le> lamports L V \<and> distinct hs"
proof -
  obtain cs hs gift where h: "history R K L cs hs gift"
    using reachable_all_live [OF assms(1,2)] assms(3) unfolding all_live_def by blast
  obtain p V where "live H R K L cs hs gift p V" using history_live [OF assms(1) h] by blast
  then show ?thesis using h unfolding live_def by blast
qed

lemma every_pool_is_accounted_for_witness:
  "\<exists>L cs hs gift p V b. reachable toy L \<and> history toy (key 77) L cs hs gift \<and> acc_data (L (key 77)) = pool_bytes p
    \<and> pool_tree toy_hash p (map be_int cs) \<and> rt_find_pda toy (vault_seeds (key 77)) = Some (V, b)
    \<and> lamports L V = toy_rent 8 + (int (length cs) - int (length hs)) * pl_denomination p + gift"
proof -
  obtain L where "reachable toy L" "pool_at toy L (key 77)" using toy_deposit by metis
  then show ?thesis using every_pool_is_accounted_for [OF toy_laws, of L "key 77"] by fastforce
qed

text \<open>
  C5. A note is spent at most once: after any history of a pool, a withdrawal with a nullifier hash that was
  spent before fails, whatever its proof, its accounts and its other arguments are.
\<close>

theorem no_note_is_spent_twice:
  assumes "runtime_laws H R" "history R K L cs hs gift" "wa_nullifierHash args \<in> set hs" "ac_pool acs = K"
  shows "\<exists>e. execute R (Withdraw acs args) L = Fails e"
proof (cases "execute R (Withdraw acs args) L")
  case (Gives x)
  obtain L' ev where x: "execute R (Withdraw acs args) L = Gives (L', ev)" using Gives by (metis surj_pair)
  obtain p V where "live H R K L cs hs gift p V" using history_live [OF assms(1,2)] by blast
  then have "live H R K L' cs (hs @ [wa_nullifierHash args]) gift p V" by (rule live_withdrawn [OF assms(1) _ x assms(4)])
  then show ?thesis using assms(3) by (simp add: live_def)
qed blast

lemma toy_withdrawal:
  obtains L L' ev where "history toy (key 77) L [key 7] [] 0" "execute toy (Withdraw toy_accounts toy_args) L = Gives (L', ev)"
    "history toy (key 77) L' [key 7] [key 5] 0"
proof -
  obtain p L where L: "L = move (key 5) (key 37) 1000000000 (set_data toy_made (key 77) (pool_bytes p))"
      "live toy_hash toy (key 77) L [key 7] [] 0 p (key 37)" "history toy (key 77) L [key 7] [] 0" "inserted toy_pool p"
    using toy_deposit by metis
  obtain L' ev where x: "execute toy (Withdraw toy_accounts toy_args) L = Gives (L', ev)"
    using toy_withdrawn [OF L(2,4,1)] by blast
  have "args_typed toy_args" by (simp add: args_typed_def proof_typed_def toy_args_def is_u64_def)
  then have "history toy (key 77) L' [key 7] ([] @ [wa_nullifierHash toy_args]) 0"
    using history.withdrawn [OF L(3) x] by (simp add: toy_accounts_def)
  then show thesis using that [OF L(3) x] by (simp add: toy_args_def)
qed

lemma no_note_is_spent_twice_witness:
  "\<exists>L e. history toy (key 77) L [key 7] [key 5] 0 \<and> execute toy (Withdraw toy_accounts toy_args) L = Fails e"
proof -
  obtain L where h: "history toy (key 77) L [key 7] [key 5] 0" using toy_withdrawal by metis
  then show ?thesis
    using no_note_is_spent_twice [OF toy_laws h, of toy_args toy_accounts] by (auto simp: toy_args_def toy_accounts_def)
qed

text \<open>
  C6. A withdrawal moves exactly its denomination: whenever it succeeds on a pool with a history, the vault
  loses the denomination, the relayer advances the rent that the nullifier account lacked, and the
  denomination is divided among treasury, relayer and recipient, also when two of them are one account: the
  relayer's part is the fee taken, at most the ceiling bound into the proof and at most a fiftieth, the
  treasury's part is a five-hundredth or nothing; no other account's balance changes.
\<close>

theorem withdrawal_pays_exactly:
  assumes H: "runtime_laws H R" and h: "history R K L cs hs gift" and x: "execute R (Withdraw acs args) L = Gives (L', ev)"
    and K: "ac_pool acs = K"
  shows "\<exists>p t u. acc_data (L K) = pool_bytes p \<and> t + wa_relayerFeeTaken args + u = pl_denomination p
    \<and> wa_relayerFeeTaken args \<le> wa_relayerFeeMax args \<and> wa_relayerFeeMax args \<le> pl_denomination p div 50
    \<and> (t = pl_denomination p div 500 \<or> t = 0) \<and> 0 < u \<and> ev = [WithdrawalEvent (wa_nullifierHash args) (ac_relayer acs) (wa_relayerFeeTaken args) t]
    \<and> (\<forall>k. lamports L' k = withdrawn_ledger R acs (pl_denomination p) t (wa_relayerFeeTaken args) u L k)"
proof -
  have S: "system_laws R" and A: "address_laws R" using H by (simp_all add: runtime_laws_def)
  obtain p V where l: "live H R K L cs hs gift p V" using history_live [OF H h] by blast
  then have lp: "acc_owner (L K) = rt_program R" "acc_data (L K) = pool_bytes p" "pool_wf p" by (simp_all add: live_def)
  let ?N = "ac_nullifierPda acs" and ?r = "wa_relayerFeeTaken args"
  have pw: "process_withdraw R acs True (rt_system R) args L = Gives (L', ev)" using x by simp
  obtain T b d f u L1 L2 paid y where w: "pool_checks R L acs (rt_system R) = Gives (T, b, d)" "distinctness acs = Gives ()"
      "account_checks R L acs args T b = Gives ()" "create_nullifier R acs L = Gives L1" "write_nullifier R acs args L1 = Gives L2"
      "pay_out R acs d f ?r u L2 = Gives (L', paid)" "compute_fee_split d ?r (wa_relayerFeeMax args) = Gives (f, y, u)"
      "ev = [WithdrawalEvent (wa_nullifierHash args) (ac_relayer acs) ?r paid]"
    using pw by (rule process_withdraw_Gives)
  have d: "d = pl_denomination p" using w(1) pool_checks_live [of p L acs R, OF lp(3)] lp(1,2) K by auto
  have e: "acc_data (L ?N) = []" using w(3) by (simp add: account_checks_Gives)
  have ne: "ac_relayer acs \<noteq> ?N" using w(2) by (simp add: distinctness_Gives)
  have L1: "L1 = (move (ac_relayer acs) ?N (top_up R L ?N) L)(?N := \<lparr>acc_owner = rt_program R, acc_data = replicate 80 0,
      acc_lamports = lamports L ?N + top_up R L ?N\<rparr>)"
    using create_nullifier_Gives [OF A S w(2,4) e] by blast
  obtain dd where L2: "L2 = set_data L1 ?N dd" using write_nullifier_Gives [OF w(5)] A by (auto simp: address_laws_def)
  have lam: "lamports L2 k = lamports L k + (if k = ?N then top_up R L ?N else 0) - (if k = ac_relayer acs then top_up R L ?N else 0)" for k
    using ne by (simp add: L2 L1 set_data_def lamports_def move_def Let_def)
  obtain u' where p: "paid + u' = f + u" "paid = f \<or> paid = 0" "L' = paid_ledger acs d paid ?r u' L2"
    using pay_out_Gives [OF w(6)] by blast
  have s: "?r \<le> wa_relayerFeeMax args" "wa_relayerFeeMax args \<le> d div 50" "f = d div 500" "u = d - d div 500 - ?r" "0 < u" "f \<le> d"
    using w(7) unfolding compute_fee_split_Gives by simp_all
  have "0 \<le> f" using lp(3) by (simp add: s(3) d pool_wf_def is_u64_def pos_imp_zdiv_nonneg_iff)
  then have u: "0 < u'" "paid + ?r + u' = d" using p(1,2) s(3-5) by auto
  have "lamports L' k = withdrawn_ledger R acs d paid ?r u' L k" for k
    unfolding p(3) lamports_paid_ledger lam withdrawn_ledger_def Let_def by simp
  then show ?thesis using lp(2) u s(1-3) p(2) w(8) unfolding d by blast
qed

lemma withdrawal_pays_exactly_witness:
  "\<exists>L L' ev t u. \<exists>p :: pool. execute toy (Withdraw toy_accounts toy_args) L = Gives (L', ev) \<and> t + 1500000 + u = pl_denomination p \<and> 0 < u
    \<and> lamports L' (key 37) = lamports L (key 37) - pl_denomination p"
proof -
  obtain L L' ev where h0: "history toy (key 77) L [key 7] [] 0" and x: "execute toy (Withdraw toy_accounts toy_args) L = Gives (L', ev)"
    using toy_withdrawal by metis
  have h: "history toy (ac_pool toy_accounts) L [key 7] [] 0" using h0 by (simp add: toy_accounts_def)
  obtain p :: pool and t u where r: "t + wa_relayerFeeTaken toy_args + u = pl_denomination p" "0 < u"
      "\<forall>k. lamports L' k = withdrawn_ledger toy toy_accounts (pl_denomination p) t (wa_relayerFeeTaken toy_args) u L k"
    using withdrawal_pays_exactly [OF toy_laws h x refl] by blast
  have "lamports L' (key 37) = lamports L (key 37) - pl_denomination p"
    unfolding r(3) [THEN spec] by (simp add: withdrawn_ledger_def toy_accounts_def credit_owed_to_def Let_def)
  then show ?thesis using x r by (intro exI [of _ L] exI [of _ L'] exI [of _ ev] exI [of _ t] exI [of _ u] exI [of _ p]) (simp add: toy_args_def)
qed

text \<open>
  The two balance guards that withdraw.rs takes for equivalent differ once somebody has given a vault
  lamports: with every note withdrawn, the denomination alone may be covered while denomination and rent
  are not.
\<close>

lemma balance_guards_differ:
  "\<exists>L gift. history toy (key 77) L [] [] gift \<and> 1000000000 \<le> lamports L (key 37) \<and> lamports L (key 37) < 1000000000 + toy_rent 8"
proof -
  let ?L = "toy_made(key 37 := (toy_made (key 37))\<lparr>acc_lamports := 1000000000\<rparr>)"
  have "outside toy (key 77) [] toy_made ?L"
    by (auto simp: outside_def pool_accounts_def vault_seeds_def ascii_bytes_def lamports_def toy_made_eq toy_rent_def)
  moreover have "rt_find_pda toy (vault_seeds (key 77)) = Some (key 37, 255)" by (simp add: vault_seeds_def ascii_bytes_def)
  ultimately have "history toy (key 77) ?L [] [] (0 + (lamports ?L (key 37) - lamports toy_made (key 37)))"
    by (rule history.other [OF toy_history_0])
  then show ?thesis by (intro exI [of _ ?L]) (auto simp: lamports_def toy_rent_def)
qed

subsection \<open>The program and its readers\<close>

text \<open>
  C7. The program's insertion is the commitment tree: on a pool that stands for the leaves \<open>ls\<close>, \<open>Pool::insert\<close>
  refuses a paused or a saturated pool and a leaf outside the field, each with its own error; otherwise it
  returns the root of the tree with the leaf appended, the pool then stands for the extended leaves, and
  nothing but the tree, the ring and the counters has changed.
\<close>

theorem program_insert_is_the_tree:
  assumes "poseidon_laws H hashv" "zeros_generated H" "pool_tree H p ls" "length leaf = 32"
  shows "(if pl_is_paused p \<noteq> 0 then pool_insert hashv p leaf = Fails (Code PoolPaused)
     else if 950000 \<le> length ls then pool_insert hashv p leaf = Fails (Code PoolSaturated)
     else if \<not> in_field (be_int leaf) then pool_insert hashv p leaf = Fails (Code PoseidonFailed)
     else \<exists>p'. pool_insert hashv p leaf = Gives (be_bytes 32 (spec_root (pair_hash H) 20 (ls @ [be_int leaf])), p')
        \<and> pool_tree H p' (ls @ [be_int leaf]) \<and> inserted p p')"
  by (rule pool_insert_cases [OF assms])

lemma program_insert_is_the_tree_witness:
  "\<exists>p'. pool_insert toy_hashv toy_pool (key 7) = Gives (key 7, p')"
proof -
  have "be_int (key 7) = 7" "in_field (be_int (key 7))" by (simp_all add: toy_key_field)
  moreover have "pool_tree toy_hash toy_pool []" "pl_is_paused toy_pool = 0" using toy_live_0 by (simp_all add: live_def toy_pool_def)
  ultimately show ?thesis
    using program_insert_is_the_tree [OF toy_poseidon toy_zeros, of toy_pool "[]" "key 7"]
    by (simp add: toy_root_of_7) (auto simp: key_def)
qed

text \<open>
  C8. The watcher stays silent about an honest pool: after any history in which nobody gave the vault
  anything, a pass of the watcher over this ledger reads the pool without error, with as many deposits
  as the history has, and its integrity rule raises nothing.
\<close>

theorem watcher_silent_on_the_program:
  assumes H: "runtime_laws H R" and h: "history R K L cs hs 0" and V: "rt_find_pda R (vault_seeds K) = Some (V, b)"
  shows "\<exists>obs. readPool show_key label (rt_program R)
        \<lparr>pr_account = Returns (Some (L K)), pr_balance = Returns (lamports L V), pr_rent = Returns (rt_min_balance R 8)\<rparr> = Returns (PoolRead obs)
    \<and> po_deposits obs = int (length cs) \<and> checkVaultIntegrity obs = []"
proof -
  obtain p W where l: "live H R K L cs hs 0 p W" using history_live [OF H h] by blast
  then have W: "W = V" "acc_owner (L K) = rt_program R" "acc_data (L K) = pool_bytes p" "pool_wf p" "pool_tree H p (map be_int cs)"
      "500 \<le> pl_denomination p" "rt_min_balance R 8 \<le> lamports L V"
      "lamports L V = rt_min_balance R 8 + (int (length cs) - int (length hs)) * pl_denomination p"
    using V by (auto simp: live_def)
  let ?obs = "\<lparr>po_label = label (pl_denomination p), po_denomination = pl_denomination p, po_deposits = pl_next_index p,
      po_vaultLamports = lamports L V, po_vaultRent = rt_min_balance R 8, po_isPaused = (pl_is_paused p = 1),
      po_admin = show_key (pl_admin p), po_treasury = show_key (pl_treasury p)\<rparr>"
  have n: "pl_next_index p = int (length cs)" using pool_tree_count [OF W(5)] by simp
  have len: "length (pool_bytes p) = 8976" using length_pool_bytes [OF W(4)] by (simp add: POOL_ACCOUNT_LEN_def)
  have disc: "subarray (pool_bytes p) 0 8 = POOL_DISCRIMINATOR" by (simp add: subarray_def pool_bytes_discriminator)
  have u: "is_u64 (pl_denomination p)" "is_u64 (pl_next_index p)" using W(4) by (simp_all add: pool_wf_def)
  have "readPool show_key label (rt_program R)
      \<lparr>pr_account = Returns (Some (L K)), pr_balance = Returns (lamports L V), pr_rent = Returns (rt_min_balance R 8)\<rparr> = Returns (PoolRead ?obs)"
    using u by (simp add: readPool_def W(2,3) len disc read_u64_js_ok pool_offsets byte_is_def pool_bytes_head pool_bytes_nth head_fields W(4))
  moreover have "checkVaultIntegrity ?obs = []"
    using W(6,7) by (intro integrity_silent [of _ "int (length hs)"]) (simp_all add: n W(8) algebra_simps)
  ultimately show ?thesis using n by (intro exI [of _ ?obs]) simp
qed

lemma watcher_silent_on_the_program_witness:
  "\<exists>L obs. history toy (key 77) L [key 7] [] 0 \<and> readPool (\<lambda>k. ''k'') (\<lambda>d. ''1 SOL'') (key 1)
        \<lparr>pr_account = Returns (Some (L (key 77))), pr_balance = Returns (lamports L (key 37)), pr_rent = Returns (toy_rent 8)\<rparr> = Returns (PoolRead obs)
    \<and> po_deposits obs = 1 \<and> checkVaultIntegrity obs = []"
proof -
  obtain L where h: "history toy (key 77) L [key 7] [] 0" using toy_withdrawal by metis
  have "rt_find_pda toy (vault_seeds (key 77)) = Some (key 37, 255)" by (simp add: vault_seeds_def ascii_bytes_def)
  then show ?thesis
    using watcher_silent_on_the_program [OF toy_laws h, where show_key = "\<lambda>k. ''k''" and label = "\<lambda>d. ''1 SOL''"] h by fastforce
qed

text \<open>
  C9. One layout for all readers: from the bytes of a well-formed pool under the program, the relayer, the
  watcher, the browser's pool screen and the prover each read back the fields of the struct, whatever
  their values; none refuses the account.
\<close>

theorem every_reader_reads_the_struct:
  assumes "pool_wf p" "account = \<lparr>acc_owner = prog, acc_data = pool_bytes p, acc_lamports = held\<rparr>"
  shows "loadPool (Returns (Some account)) prog = Returns (PoolLoaded \<lparr>pv_data = pool_bytes p,
        pv_denomination = pl_denomination p, pv_treasury = pl_treasury p, pv_nextIndex = pl_next_index p,
        pv_isPaused = (pl_is_paused p = 1)\<rparr>)
    \<and> readPool show_key label prog \<lparr>pr_account = Returns (Some account), pr_balance = Returns vault, pr_rent = Returns rent\<rparr>
        = Returns (PoolRead \<lparr>po_label = label (pl_denomination p), po_denomination = pl_denomination p,
            po_deposits = pl_next_index p, po_vaultLamports = vault, po_vaultRent = rent, po_isPaused = (pl_is_paused p = 1),
            po_admin = show_key (pl_admin p), po_treasury = show_key (pl_treasury p)\<rparr>)
    \<and> read_pool_info prog (Some account) = Returns (Inl \<lparr>pi_nextIndex = rnd (pl_next_index p), pi_isPaused = (pl_is_paused p = 1),
        pi_isSaturated = (950000 \<le> rnd (pl_next_index p)), pi_denominationLamports = pl_denomination p\<rparr>)
    \<and> readPoolTreeState (pool_bytes p) = Returns \<lparr>pt_nextIndex = rnd (pl_next_index p),
        pt_currentRootIndex = rnd (pl_current_root_index p), pt_roots = map be_int (pl_root_history p)\<rparr>
    \<and> readRootHistory (pool_bytes p) = Returns (map be_int (pl_root_history p))"
  unfolding assms(2) by (intro conjI readers [OF assms(1)])

lemma every_reader_reads_the_struct_witness:
  "loadPool (Returns (Some \<lparr>acc_owner = key 1, acc_data = pool_bytes toy_pool, acc_lamports = 5\<rparr>)) (key 1)
     = Returns (PoolLoaded \<lparr>pv_data = pool_bytes toy_pool, pv_denomination = 1000000000, pv_treasury = key 4, pv_nextIndex = 0, pv_isPaused = False\<rparr>)"
proof -
  have "pool_wf toy_pool" using toy_live_0 by (simp add: live_def)
  from every_reader_reads_the_struct [OF this refl, of "key 1" 5] show ?thesis by (simp add: toy_pool_def)
qed

subsection \<open>The program and the browser\<close>

lemma history_ring:
  assumes H: "runtime_laws H R" and h: "history R K L cs hs gift"
  shows "POOL_MIN_LEN \<le> length (acc_data (L K))" "rnd (le_int (subarray (acc_data (L K)) 88 96)) = int (length cs)" "length cs \<le> 950000"
    and "\<forall>r\<in>set (ring_roots (acc_data (L K))) - {0}. \<exists>k\<le>length cs. r = spec_root (pair_hash H) 20 (take k (map be_int cs))"
    and "spec_root (pair_hash H) 20 (map be_int cs) \<in> set (ring_roots (acc_data (L K)))"
proof -
  have P: "poseidon_laws H (rt_hashv R)" using H by (simp add: runtime_laws_def)
  obtain p V where l: "live H R K L cs hs gift p V" using history_live [OF H h] by blast
  then have p: "acc_data (L K) = pool_bytes p" "pool_wf p" "pool_tree H p (map be_int cs)" "length cs \<le> 950000" by (simp_all add: live_def)
  show n: "length cs \<le> 950000" by (rule p(4))
  show "POOL_MIN_LEN \<le> length (acc_data (L K))" using p(1,2) by (simp add: length_pool_bytes tree_offsets POOL_ACCOUNT_LEN_def)
  have u: "is_u64 (pl_next_index p)" using p(2) by (simp add: pool_wf_def)
  have "le_int (subarray (pool_bytes p) 88 96) = int (length cs)"
    using p(2) pool_tree_count [OF p(3)] u by (simp add: pool_bytes_head head_fields)
  then show "rnd (le_int (subarray (acc_data (L K)) 88 96)) = int (length cs)" using n by (simp add: p(1) rnd_exact)
  have f: "list_all in_field (map be_int cs)" and ring: "ring_inv H (pl_root_history p) (map be_int cs)" using p(3) by (simp_all add: pool_tree_def)
  have field: "be_int (be_bytes 32 (spec_root (pair_hash H) 20 (take k (map be_int cs)))) = spec_root (pair_hash H) 20 (take k (map be_int cs))" for k
    unfolding spec_root_def using f by (intro in_field_bytes spec_node_field [OF P]) (auto simp: list_all_iff take_map dest: in_set_takeD)
  have slots: "pl_root_history p ! (k mod 256) = be_bytes 32 (spec_root (pair_hash H) 20 (take k (map be_int cs)))"
    if "k \<le> length cs" "length cs < k + 256" for k using ring that by (simp add: ring_inv_def)
  have roots: "ring_roots (acc_data (L K)) = map be_int (pl_root_history p)" by (simp add: p(1) pool_bytes_ring [OF p(2)])
  have len: "length (pl_root_history p) = 256" using p(2) by (simp add: pool_wf_def)
  show "\<forall>r\<in>set (ring_roots (acc_data (L K))) - {0}. \<exists>k\<le>length cs. r = spec_root (pair_hash H) 20 (take k (map be_int cs))"
  proof
    fix r
    assume r: "r \<in> set (ring_roots (acc_data (L K))) - {0}"
    then obtain i where i: "i < 256" "r = be_int (pl_root_history p ! i)" unfolding roots using len by (auto simp: in_set_conv_nth)
    show "\<exists>k\<le>length cs. r = spec_root (pair_hash H) 20 (take k (map be_int cs))"
    proof (cases "length cs < i")
      case True
      then have "pl_root_history p ! i = replicate 32 0" using ring i(1) by (simp add: ring_inv_def)
      then have "r = 0" using i(2) be_int_padded [of 32 "[]"] by simp
      then show ?thesis using r by simp
    next
      case False
      define k where "k = length cs - (length cs - i) mod 256"
      have d: "length cs - i = 256 * ((length cs - i) div 256) + (length cs - i) mod 256" by simp
      have m: "(length cs - i) mod 256 \<le> length cs - i" "(length cs - i) mod 256 < 256" by simp_all
      have "k = i + 256 * ((length cs - i) div 256)" using False d m(1) unfolding k_def by linarith
      then have "k mod 256 = i" using i by simp
      moreover have "k \<le> length cs" "length cs < k + 256" using m False unfolding k_def by linarith+
      ultimately show ?thesis using slots [of k] i(2) field [of k] by (intro exI [of _ k]) simp
    qed
  qed
  have "pl_root_history p ! (length cs mod 256) = be_bytes 32 (spec_root (pair_hash H) 20 (map be_int cs))" using slots [of "length cs"] by simp
  moreover have "pl_root_history p ! (length cs mod 256) \<in> set (pl_root_history p)" using len by (intro nth_mem) simp
  ultimately show "spec_root (pair_hash H) 20 (map be_int cs) \<in> set (ring_roots (acc_data (L K)))"
    unfolding roots using field [of "length cs"] by force
qed

text \<open>
  C4. An accepted tree is the program's. Let the pool account that the rebuild checks against be the
  ledger's. Then, whatever the cache holds and whatever else the RPC answers, a tree that the rebuild
  accepts has one leaf for each deposit, and these are the commitments of the first \<open>k\<close> deposits of the
  pool's history for some \<open>k\<close> followed by zeros, and exactly the pool's deposits if no leaf is zero; or
  the hash collides between the two trees, or the two halves of the tree hash to zero.
\<close>

theorem accepted_tree_is_the_programs:
  assumes "runtime_laws H R" "history R K L cs hs gift"
    and "rebuildMerkleTree (pair_hash H) fuel cc nets programKey poolKey w (Returns (Some (L K))) stored = Some (Returns t, stored')"
  shows "\<exists>leaves k. t = build_tree (pair_hash H) 20 leaves \<and> length leaves = length cs \<and> k \<le> length cs
    \<and> (pair_hash H (spec_node (pair_hash H) leaves 19 0) (spec_node (pair_hash H) leaves 19 1) = 0
       \<or> hash_collision (pair_hash H) 20 leaves (take k (map be_int cs))
       \<or> leaves = take k (map be_int cs) @ replicate (length cs - k) 0 \<and> (0 \<notin> set leaves \<longrightarrow> leaves = map be_int cs))"
  using rebuild_is_pool_history [OF assms(3), of "map be_int cs"] history_ring [OF assms(1,2)] by simp


lemma accepted_tree_is_the_programs_witness:
  "\<exists>leaves k. build_tree (pair_hash toy_hash) 20 [7] = build_tree (pair_hash toy_hash) 20 leaves \<and> length leaves = 1 \<and> k \<le> 1
    \<and> (pair_hash toy_hash (spec_node (pair_hash toy_hash) leaves 19 0) (spec_node (pair_hash toy_hash) leaves 19 1) = 0
       \<or> hash_collision (pair_hash toy_hash) 20 leaves (take k [7]) \<or> leaves = take k [7] @ replicate (1 - k) 0)"
proof -
  obtain L where h: "history toy (key 77) L [key 7] [] 0" using toy_withdrawal by metis
  note ring = history_ring [OF toy_laws h]
  have D: "pool_deposits ''pool'' [silent_executed] = [(7, None)]" by code_simp
  have c: "cached_leaves (loadCache None) = take 0 (map fst (pool_deposits ''pool'' [silent_executed]))"
    by (simp add: loadCache_def cold_cache_def cached_leaves_def)
  have nets: "\<forall>j :: nat. truthful_rpc silent_codec ''prog'' served_net silent_history [silent_executed]" using served_truthful by blast
  obtain t stored' where r: "rebuildMerkleTree (pair_hash toy_hash) 2 silent_codec (\<lambda>j. served_net) ''prog'' ''pool'' True (Returns (Some (L (key 77)))) None
      = Some (Returns t, stored')" "t = build_tree (pair_hash toy_hash) 20 (map fst (pool_deposits ''pool'' [silent_executed]))"
    using rebuild_always_succeeds [of "L (key 77)" "''pool''" "[silent_executed]" "pair_hash toy_hash" silent_codec "''prog''" "\<lambda>j. served_net" silent_history 2 True None]
      ring(1,2,5) nets c by (auto simp: D toy_key_field silent_history_def)
  have "t = build_tree (pair_hash toy_hash) 20 [7]" using r(2) by (simp add: D)
  then show ?thesis using accepted_tree_is_the_programs [OF toy_laws h r(1)] by (auto simp: toy_key_field)
qed


subsection \<open>The program and the relayer\<close>

lemma withdrawn_gains:
  assumes L': "\<forall>k. lamports L' k = withdrawn_ledger R c d t f u L k"
    and "distinctness c = Gives ()" "balances_bounded L" "0 \<le> rt_min_balance R 80" "0 \<le> t" "rt_min_balance R 80 \<le> f" "0 \<le> u"
  shows "lamports L (ac_relayer c) + f - rt_min_balance R 80 \<le> lamports L' (ac_relayer c)"
    and "lamports L (ac_recipient c) + u \<le> lamports L' (ac_recipient c)"
proof -
  have up: "top_up R L (ac_nullifierPda c) \<le> rt_min_balance R 80" "0 \<le> top_up R L (ac_nullifierPda c)"
    using assms(3,4) by (auto simp: top_up_def balances_bounded_def)
  have ne: "ac_relayer c \<noteq> ac_nullifierPda c" "ac_relayer c \<noteq> ac_vault c" "ac_recipient c \<noteq> ac_nullifierPda c" "ac_recipient c \<noteq> ac_vault c"
    using assms(2) by (simp_all add: distinctness_Gives)
  show "lamports L (ac_relayer c) + f - rt_min_balance R 80 \<le> lamports L' (ac_relayer c)"
    using L' [THEN spec, of "ac_relayer c"] ne(1,2) up assms(5,7)
    unfolding withdrawn_ledger_def credit_owed_to_def Let_def by auto
  show "lamports L (ac_recipient c) + u \<le> lamports L' (ac_recipient c)"
    using L' [THEN spec, of "ac_recipient c"] ne(3,4) up assms(4-6)
    unfolding withdrawn_ledger_def credit_owed_to_def Let_def by (auto split: if_splits)
qed

lemma sent_is_executed:
  assumes laws: "runtime_laws H R" "system_works R" "snarkjs_verifies PE E" "groth16_solana_verifies PE R"
    and world: "relayer_sees H R L E" "balances_bounded L" "wallet R L (ac_relayer (tx_accounts tx))"
      "acc_owner (L (ac_nullifierPda (tx_accounts tx))) = rt_system R"
    and pool: "history R K L cs hs gift" "length hs < length cs" "length K = 32"
    and sent: "handleSubmit E cache body = (r, Some tx, cache')" "ac_pool (tx_accounts tx) = K" "affine_json (js_get body ''proof'') pt"
    and keys: "length (ac_relayer (tx_accounts tx)) = 32" "length (ac_recipient (tx_accounts tx)) = 32"
    and rent: "fst (submit_rent E cache) = rt_min_balance R 80" "rt_min_balance R 80 \<le> MIN_BALANCE"
    and fees: "\<forall>ks fs. env_fees E ks = Returns (Some fs) \<longrightarrow> (\<forall>x\<in>set fs. 0 \<le> x)"
    and small: "wa_relayerFeeMax (tx_args tx) \<le> SAFE_LAMPORTS"
    and parties: "distinctness (tx_accounts tx) = Gives ()" "wa_root (tx_args tx) \<noteq> EMPTY_TREE_ROOT"
  shows "\<exists>L' ev. execute R (Withdraw (tx_accounts tx) (tx_args tx)) L = Gives (L', ev)
    \<and> lamports L (ac_relayer (tx_accounts tx)) + BASE_FEE + priorityFeeLamports (attached_price tx) \<le> lamports L' (ac_relayer (tx_accounts tx))
    \<and> (let D = le_int (subarray (acc_data (L K)) 72 80) in
         lamports L (ac_recipient (tx_accounts tx)) + D - D div 500 - wa_relayerFeeMax (tx_args tx) \<le> lamports L' (ac_recipient (tx_accounts tx)))"
proof -
  let ?a = "tx_args tx" and ?c = "tx_accounts tx"
  have P: "poseidon_laws H (rt_hashv R)" and A: "address_laws R" using laws(1) by (simp_all add: runtime_laws_def)
  obtain p V where l: "live H R K L cs hs gift p V" using history_live [OF laws(1) pool(1)] by blast
  then have lp: "acc_owner (L K) = rt_program R" "acc_data (L K) = pool_bytes p" "pool_wf p" "500 \<le> pl_denomination p" "0 \<le> gift"
      "rt_find_pda R (vault_seeds K) = Some (V, pl_vault_bump p)"
      "lamports L V = rt_min_balance R 8 + (int (length cs) - int (length hs)) * pl_denomination p + gift"
    by (simp_all add: live_def)
  have need: "0 \<le> rt_min_balance R 80" using A by (simp add: address_laws_def)
  have fee: "is_u64 (wa_relayerFeeMax ?a)" "wa_relayerFeeTaken ?a = BASE_FEE + rt_min_balance R 80 + priorityFeeLamports (attached_price tx)"
      "wa_relayerFeeTaken ?a \<le> wa_relayerFeeMax ?a" "0 \<le> priorityFeeLamports (attached_price tx)"
    using sent_fees [OF sent(1) _ _ fees small] rent need small
    by (simp_all add: MIN_BALANCE_def fee_consts priorityFeeLamports_nonneg is_u64_def)
  note s = sent_checked [OF world(1) P laws(3,4) sent(3) lp(1-3) sent(1,2) keys fee(1)]
  have vault: "ac_vault ?c = V" using s(7) lp(6) by auto
  obtain b where N: "rt_find_pda R (nullifier_seeds K (wa_nullifierHash ?a)) = Some (ac_nullifierPda ?c, b)" using s(8) by blast
  have fresh: "fresh R L (ac_nullifierPda ?c)" using world(4) s(9) by (simp add: fresh_def)
  have funds: "pl_denomination p + rt_min_balance R 8 \<le> lamports L V"
  proof -
    have "1 * pl_denomination p \<le> (int (length cs) - int (length hs)) * pl_denomination p"
      using pool(2) lp(4) by (intro mult_right_mono) simp_all
    then show ?thesis using lp(5,7) by linarith
  qed
  have taken: "0 \<le> wa_relayerFeeTaken ?a" using fee(2,4) need by (simp add: fee_consts)
  have relayer: "rt_min_balance R 80 \<le> lamports L (ac_relayer ?c)" using s(11) rent(2) by linarith
  have "\<exists>L' t u. execute R (Withdraw ?c ?a) L = Gives (L', [WithdrawalEvent (wa_nullifierHash ?a) (ac_relayer ?c) (wa_relayerFeeTaken ?a) t])
      \<and> t + wa_relayerFeeTaken ?a + u = pl_denomination p \<and> (t = pl_denomination p div 500 \<or> t = 0)
      \<and> (\<forall>k. lamports L' k = withdrawn_ledger R ?c (pl_denomination p) t (wa_relayerFeeTaken ?a) u L k)"
    by (rule withdrawal_accepted [OF laws(1,2) l sent(2) vault s(5) pool(3) s(1,2) taken fee(3) s(6) parties(1) s(3,4) parties(2)
          N fresh s(10) world(3) relayer world(2) funds])
  then obtain L' t u where x: "execute R (Withdraw ?c ?a) L = Gives (L', [WithdrawalEvent (wa_nullifierHash ?a) (ac_relayer ?c) (wa_relayerFeeTaken ?a) t])"
    and tu: "t + wa_relayerFeeTaken ?a + u = pl_denomination p" "t = pl_denomination p div 500 \<or> t = 0"
    and L': "\<forall>k. lamports L' k = withdrawn_ledger R ?c (pl_denomination p) t (wa_relayerFeeTaken ?a) u L k"
    by blast
  have D: "le_int (subarray (acc_data (L K)) 72 80) = pl_denomination p"
    using lp(2,3) by (simp add: pool_bytes_head head_fields) (simp add: pool_wf_def)
  have t: "0 \<le> t" "t \<le> pl_denomination p div 500" using tu(2) lp(4) by (auto simp: pos_imp_zdiv_nonneg_iff)
  have u: "pl_denomination p - pl_denomination p div 500 - wa_relayerFeeMax ?a \<le> u" "0 \<le> u"
  proof -
    show "pl_denomination p - pl_denomination p div 500 - wa_relayerFeeMax ?a \<le> u" using tu(1) t fee(3) by linarith
    have "pl_denomination p div 500 + pl_denomination p div 50 \<le> pl_denomination p" using lp(4) by linarith
    then show "0 \<le> u" using tu(1) t fee(3) s(6) by linarith
  qed
  have "rt_min_balance R 80 \<le> wa_relayerFeeTaken ?a" using fee(2,4) by (simp add: fee_consts)
  note g = withdrawn_gains [OF L' parties(1) world(2) need t(1) this u(2)]
  have "lamports L (ac_relayer ?c) + BASE_FEE + priorityFeeLamports (attached_price tx) \<le> lamports L' (ac_relayer ?c)"
    using g(1) fee(2) by linarith
  moreover note g(2)
  ultimately show ?thesis using x u(1) unfolding D Let_def
    by (intro exI [of _ L'] exI [of _ "[WithdrawalEvent (wa_nullifierHash ?a) (ac_relayer ?c) (wa_relayerFeeTaken ?a) t]"]) simp
qed

text \<open>
  C2. What the relayer sends is executed, and the relayer is paid for it. Let the relayer's RPC answer from
  the ledger of a pool with more deposits than withdrawals, with the rent the runtime asks and fees that
  are not negative; let its hash and addresses be the program's, both verifiers decide one pairing
  equation, and the request's proof have the affine form that snarkjs writes; let the relayer's account be
  a wallet, the nullifier account belong to no other program and the ceiling be exact as a number. Then
  the program refuses a transaction that \<open>handleSubmit\<close> hands to the network exactly when the recipient
  is the pool, the vault or the nullifier account, the treasury or the relayer is one of the latter two,
  or the root is the empty tree's; every other is executed, the relayer ends with at least what it had
  plus the signature and priority fees it pays, and the recipient gets at least the denomination less a
  five-hundredth and the ceiling that its proof binds.
\<close>

theorem relayed_withdrawal_is_executed:
  assumes laws: "runtime_laws H R" "system_works R" "snarkjs_verifies P E" "groth16_solana_verifies P R"
    and world: "relayer_sees H R L E" "balances_bounded L" "wallet R L (ac_relayer (tx_accounts tx))"
      "acc_owner (L (ac_nullifierPda (tx_accounts tx))) = rt_system R"
    and pool: "history R K L cs hs gift" "length hs < length cs" "length K = 32"
    and sent: "handleSubmit E cache body = (r, Some tx, cache')" "ac_pool (tx_accounts tx) = K" "affine_json (js_get body ''proof'') pt"
    and keys: "length (ac_relayer (tx_accounts tx)) = 32" "length (ac_recipient (tx_accounts tx)) = 32"
    and rent: "fst (submit_rent E cache) = rt_min_balance R 80" "rt_min_balance R 80 \<le> MIN_BALANCE"
    and fees: "\<forall>ks fs. env_fees E ks = Returns (Some fs) \<longrightarrow> (\<forall>x\<in>set fs. 0 \<le> x)"
    and small: "wa_relayerFeeMax (tx_args tx) \<le> SAFE_LAMPORTS"
  shows "let c = tx_accounts tx; D = le_int (subarray (acc_data (L K)) 72 80) in
    if ac_recipient c \<in> {ac_pool c, ac_vault c, ac_nullifierPda c} \<or> ac_treasury c \<in> {ac_vault c, ac_nullifierPda c}
      \<or> ac_relayer c \<in> {ac_vault c, ac_nullifierPda c} \<or> wa_root (tx_args tx) = EMPTY_TREE_ROOT
    then \<exists>e. execute R (Withdraw c (tx_args tx)) L = Fails e
    else \<exists>L' ev. execute R (Withdraw c (tx_args tx)) L = Gives (L', ev)
      \<and> lamports L (ac_relayer c) + BASE_FEE + priorityFeeLamports (attached_price tx) \<le> lamports L' (ac_relayer c)
      \<and> lamports L (ac_recipient c) + D - D div 500 - wa_relayerFeeMax (tx_args tx) \<le> lamports L' (ac_recipient c)"
proof (cases "distinctness (tx_accounts tx) = Gives () \<and> wa_root (tx_args tx) \<noteq> EMPTY_TREE_ROOT")
  case False
  have "execute R (Withdraw (tx_accounts tx) (tx_args tx)) L \<noteq> Gives x" for x
    using False by (cases x) (auto simp: account_checks_Gives elim!: process_withdraw_Gives)
  then have "\<exists>e. execute R (Withdraw (tx_accounts tx) (tx_args tx)) L = Fails e"
    by (cases "execute R (Withdraw (tx_accounts tx) (tx_args tx)) L") blast+
  then show ?thesis using False unfolding Let_def distinctness_Gives by auto
next
  case parties: True
  note ran = sent_is_executed [OF laws world pool sent keys rent fees small conjunct1 [OF parties] conjunct2 [OF parties]]
  then show ?thesis using parties unfolding Let_def distinctness_Gives by simp
qed

definition toy_proof :: json where
  "toy_proof = JObj [(''pi_a'', JArr (map JInt [1, 2, 1])), (''pi_b'', JArr (map (JArr \<circ> map JInt) [[3, 4], [5, 6], [1, 0]])),
     (''pi_c'', JArr (map JInt [7, 8, 1]))]"

definition toy_points :: affine_proof where
  "toy_points = \<lparr>af_ax = 1, af_ay = 2, af_bx0 = 3, af_bx1 = 4, af_by0 = 5, af_by1 = 6, af_cx = 7, af_cy = 8\<rparr>"

lemma toy_affine: "affine_json toy_proof toy_points"
  by (simp add: affine_json_def affine_coordinates_def toy_proof_def toy_points_def js_get_def js_index_def json_bigint_def)

definition toy_body :: json where
  "toy_body = JObj
    [(''proof'', toy_proof), (''publicSignals'', JArr [JStr ''5'', JStr ''7'', JStr ''7'']),
     (''poolAddress'', JStr ''pool''), (''recipient'', JStr ''dest''), (''relayerFeeMax'', JStr ''1600000'')]"

definition toy_env :: "ledger \<Rightarrow> env" where
  "toy_env L =
    \<lparr>env_pubkey = \<lambda>j. Returns (if j = JStr ''pool'' then key 77 else key 8), env_account = \<lambda>k. Returns (Some (L k)),
     env_fees = \<lambda>ks. Returns (Some [1000]), env_now1 = 0, env_rent = Returns 1447680, env_now2 = 1,
     env_balance = Returns (lamports L (key 6)), env_poseidon = toy_hash,
     env_verify = \<lambda>pf ps. Returns (ps = JArr [JStr ''5'', JStr ''7'', JStr ''7'']),
     env_net = \<lparr>net_pda = \<lambda>seeds k. Returns (key (int (length (concat seeds)))), net_blockhash = Returns (''bh'', 100),
        net_send = \<lambda>tx. Returns ''sig'', net_confirm = \<lambda>s b n. Returns None\<rparr>,
     env_relayer = key 6, env_programId = key 1\<rparr>"

definition toy_req :: submit_req where
  "toy_req = \<lparr>rq_proof = toy_proof, rq_signals = JArr [JStr ''5'', JStr ''7'', JStr ''7''],
     rq_pool = key 77, rq_recipient = key 8, rq_feeMax = 1600000\<rparr>"

lemma toy_rent_80: "toy_rent 80 = 1447680"
  by (simp add: toy_rent_def)

lemma toy_submit_rent: "submit_rent (toy_env L) Map.empty = (1447680, [() \<mapsto> \<lparr>rent_val = 1447680, rent_at = 1\<rparr>])"
  by (simp add: submit_rent_def getNullifierRent_def toy_env_def)

lemma toy_parsed: "parse_submit (toy_env L) toy_body = Go toy_req"
proof -
  have "is_decimal_u64_text ''1600000'' \<and> string_to_bigint ''1600000'' = Some 1600000" by code_simp
  then have "parse_fee_max (JStr ''1600000'') = Go 1600000" by (simp add: parse_fee_max_Go U64_MAX_def)
  then show ?thesis
    by (simp add: parse_submit_Go toy_body_def toy_proof_def js_get_def js_truthy_def toy_req_def toy_env_def)
qed

lemma toy_sees: "relayer_sees toy_hash toy L (toy_env L)"
  by (simp add: relayer_sees_def toy_env_def)

lemma toy_verifiers:
  "snarkjs_verifies (\<lambda>a xs. xs = [5, 7, 7]) (toy_env L)" "groth16_solana_verifies (\<lambda>a xs. xs = [5, 7, 7]) toy"
proof -
  have "in_field 5" "in_field 7" by (simp_all add: in_field_def BN254_Fr_def)
  then show "snarkjs_verifies (\<lambda>a xs. xs = [5, 7, 7]) (toy_env L)"
    using example_signals by (simp add: snarkjs_verifies_def toy_env_def js_index_def)
qed (simp add: groth16_solana_verifies_def)

lemma toy_submission:
  assumes l: "live toy_hash toy (key 77) L [key 7] [] 0 p (key 37)" and i: "inserted toy_pool p"
    and L: "L = move (key 5) (key 37) 1000000000 (set_data toy_made (key 77) (pool_bytes p))"
  obtains r tx cache' where "handleSubmit (toy_env L) Map.empty toy_body = (r, Some tx, cache')"
    "tx_accounts tx = toy_accounts" "wa_relayerFeeMax (tx_args tx) = 1600000" "wa_root (tx_args tx) = key 7"
proof -
  have f: "pl_denomination p = 1000000000" "pl_treasury p = key 4" using inserted_fields [OF i] by (simp_all add: toy_pool_def)
  have lp: "acc_owner (L (key 77)) = key 1" "acc_data (L (key 77)) = pool_bytes p" "pool_wf p" using l by (simp_all add: live_def)
  note view = view_of_pool_bytes [OF lp(3)]
  have pool: "is_pool (key 1) (L (key 77))"
    using lp length_pool_bytes [OF lp(3)] by (simp add: is_pool_def pool_bytes_discriminator)
  have loaded: "load_submit_pool (toy_env L) toy_req = Go (view_of (pool_bytes p))"
    using pool lp(2) view f by (simp add: load_submit_pool_Go toy_env_def toy_req_def sdiv_nonneg)
  have "getPriorityFeePerCU (Returns (Some [1000])) = 1000"
    using percentile_index_less [of 1] by (simp add: getPriorityFeePerCU_def)
  then have priced: "\<exists>plan. price_submit (toy_env L) toy_req 1447680 = Go plan"
    using planFee_eq [of 1600000 1447680 1000] toy_funds(3) [OF f(1), folded L]
    by (simp add: price_submit_Go toy_env_def toy_req_def fee_consts rnd_exact MIN_BALANCE_def findVaultPda_def Let_def)
  then obtain plan where plan: "price_submit (toy_env L) toy_req 1447680 = Go plan" by blast
  have ring: "7 \<in> set (ring_roots (pool_bytes p))"
  proof -
    have "key 7 \<in> set (pl_root_history p)" using l toy_ring by (simp add: live_def)
    then have "be_int (key 7) \<in> set (map be_int (pl_root_history p))" by simp
    then show ?thesis by (simp add: pool_bytes_ring [OF lp(3)] toy_key_field)
  qed
  have n: "length (concat (nullifier_seeds (key 77) (fieldToBytes32 5))) = 73" "length (concat (nullifier_seeds (key 77) (bigIntToBytes32 5))) = 73"
    using bigIntToBytes32_field [of 5, symmetric] by (simp_all add: nullifier_seeds_def ascii_bytes_def)
  have empty: "acc_data (L (key 73)) = []" using toy_funds(4) [OF f(1), folded L] by (simp add: fresh_def)
  have h7: "toy_hash [a, b, c] = 7" for a b c by (simp add: toy_hash_def)
  have len: "POOL_ACCOUNT_LEN \<le> length (pool_bytes p)" using length_pool_bytes [OF lp(3)] by simp
  have spent: "spent_check (Some (submit_chain (toy_env L), key 1, key 77)) (JStr ''5'') = PfOk"
    using example_signals n(1) empty
    by (simp add: spent_check_def nullifier_lookup_def submit_chain_def toy_env_def js_bind_def)
  have checked: "check_submit (toy_env L) toy_req (view_of (pool_bytes p)) = Go ()"
    using example_signals ring spent h7 unfolding check_submit_Go view
    by (simp add: preflight_ok_iff [OF len] toy_req_def js_index_def) (simp add: toy_env_def h7)
  obtain pb where pb: "snarkjsProofToBytes toy_proof = Returns pb" using affine_proof_bytes [OF toy_affine] by blast
  have go: "fst (submit_checks (toy_env L) Map.empty toy_body) = Go (toy_req, view_of (pool_bytes p), plan)"
    using toy_parsed loaded plan checked by (simp add: submit_checks_Go toy_submit_rent)
  have v: "length (concat [ascii_bytes ''vault'', key 77]) = 37" by (simp add: ascii_bytes_def)
  obtain tx where b: "build_withdraw (env_net (toy_env L)) (env_relayer (toy_env L)) (env_programId (toy_env L))
      (rq_pool toy_req) (rq_recipient toy_req) (pv_treasury (view_of (pool_bytes p))) (rq_proof toy_req)
      (rq_signals toy_req) (rq_feeMax toy_req) (sp_fee plan) (sp_perCU plan) = Returns (tx, 100)"
    using pb example_signals
    by (auto simp: build_withdraw_def toy_env_def toy_req_def js_index_def findNullifierPda_def findVaultPda_def Let_def)
  note tx = build_withdraw_fields [OF b]
  have seven: "bigIntToBytes32 7 = key 7" by (simp add: bigIntToBytes32_eq key_def)
  have acc: "ac_nullifierPda (tx_accounts tx) = key 73" "ac_vault (tx_accounts tx) = key 37" "wa_root (tx_args tx) = key 7"
    using tx(9) example_signals n(2) v seven by (auto simp: toy_env_def toy_req_def js_index_def findVaultPda_def)
  have "tx_accounts tx = toy_accounts"
    using tx acc f(2) view by (intro withdraw_accounts.equality) (simp_all add: toy_accounts_def toy_env_def toy_req_def)
  moreover have "\<exists>r c. handleSubmit (toy_env L) Map.empty toy_body = (r, Some tx, c)"
    using handleSubmit_success [OF go b, of "''sig''"] by (simp add: toy_env_def)
  ultimately show thesis using that tx acc(3) by (auto simp: toy_req_def)
qed

lemma relayed_withdrawal_is_executed_witness:
  "\<exists>L r tx cache' L' ev. history toy (key 77) L [key 7] [] 0 \<and> handleSubmit (toy_env L) Map.empty toy_body = (r, Some tx, cache')
    \<and> execute toy (Withdraw (tx_accounts tx) (tx_args tx)) L = Gives (L', ev)
    \<and> lamports L (key 6) + BASE_FEE + priorityFeeLamports (attached_price tx) \<le> lamports L' (key 6)"
proof -
  obtain p L where L: "L = move (key 5) (key 37) 1000000000 (set_data toy_made (key 77) (pool_bytes p))"
      "live toy_hash toy (key 77) L [key 7] [] 0 p (key 37)" "history toy (key 77) L [key 7] [] 0" "inserted toy_pool p"
    using toy_deposit by metis
  obtain r tx c where h: "handleSubmit (toy_env L) Map.empty toy_body = (r, Some tx, c)" "tx_accounts tx = toy_accounts"
      "wa_relayerFeeMax (tx_args tx) = 1600000" "wa_root (tx_args tx) = key 7"
    by (rule toy_submission [OF L(2,4,1)])
  have f: "pl_denomination p = 1000000000" using inserted_fields [OF L(4)] by (simp add: toy_pool_def)
  note m = toy_funds [OF f, folded L(1)]
  have fees: "\<forall>ks fs. env_fees (toy_env L) ks = Returns (Some fs) \<longrightarrow> (\<forall>x\<in>set fs. 0 \<le> x)" by (auto simp: toy_env_def)
  have p: "affine_json (js_get toy_body ''proof'') toy_points" using toy_affine by (simp add: toy_body_def js_get_def)
  note ran = relayed_withdrawal_is_executed [OF toy_laws toy_works toy_verifiers toy_sees m(1) _ _ L(3) _ _ h(1) _ p _ _ _ _ fees]
  have "\<exists>L' ev. execute toy (Withdraw (tx_accounts tx) (tx_args tx)) L = Gives (L', ev)
    \<and> lamports L (ac_relayer (tx_accounts tx)) + BASE_FEE + priorityFeeLamports (attached_price tx) \<le> lamports L' (ac_relayer (tx_accounts tx))"
    using ran m toy_root_valid
    by (simp add: h toy_accounts_def toy_submit_rent toy_rent_80 MIN_BALANCE_def fee_consts fresh_def Let_def) blast
  moreover have rel: "ac_relayer (tx_accounts tx) = key 6" by (simp add: h(2) toy_accounts_def)
  ultimately show ?thesis using L(3) h(1) unfolding rel by blast
qed

end
