(* ===== verification/E2eClaims.thy ===== *)
theory E2eClaims
  imports DevnetE2e ClusterExample ProgramWorld ProgramClaims
begin

text \<open>
  What scripts/devnet\_e2e.js does on a pool that has deposits already: a calculus for how a script ends, and
  the proof that the script deposits and then cannot withdraw.
\<close>

subsection \<open>How a script ends\<close>

text \<open>\<open>ends T D m w\<close>: if \<open>m\<close> gives a value then \<open>D\<close> holds of it and the world after it, otherwise \<open>T\<close> of the world.\<close>

definition ends :: "(world \<Rightarrow> bool) \<Rightarrow> ('a \<Rightarrow> world \<Rightarrow> bool) \<Rightarrow> 'a script \<Rightarrow> world \<Rightarrow> bool" where
  "ends T D m w = (case m w of (Done x, w') \<Rightarrow> D x w' | (_, w') \<Rightarrow> T w')"

lemma ends_imp: "ends T D m w \<Longrightarrow> (\<And>x w'. D x w' \<Longrightarrow> D' x w') \<Longrightarrow> ends T D' m w"
  by (auto simp: ends_def split: prod.splits outcome.splits)

lemma ends_bind: "ends T (\<lambda>x. ends T D (f x)) m w \<Longrightarrow> ends T D (sc_bind m f) w"
  by (auto simp: ends_def sc_bind_def split: prod.splits outcome.splits)

lemma ends_then: "ends T (\<lambda>_. ends T D n) m w \<Longrightarrow> ends T D (sc_then m n) w"
  unfolding sc_then_def by (rule ends_bind)

lemma ends_if: "(b \<Longrightarrow> ends T D m w) \<Longrightarrow> (\<not> b \<Longrightarrow> ends T D n w) \<Longrightarrow> ends T D (if b then m else n) w"
  by simp

lemma ends_return: "D x w \<Longrightarrow> ends T D (sc_return x) w"
  by (simp add: ends_def sc_return_def)

lemma ends_throw: "T w \<Longrightarrow> ends T D (sc_throw e) w"
  by (simp add: ends_def sc_throw_def)

lemma ends_js: "T w \<Longrightarrow> (\<And>x. r = Returns x \<Longrightarrow> D x w) \<Longrightarrow> ends T D (sc_js r) w"
  by (simp add: ends_def sc_js_def split: js.splits)

lemma ends_read:
  "T w \<Longrightarrow> (\<And>n. D n w) \<Longrightarrow> ends T D (get_balance C k) w"
  "T w \<Longrightarrow> (\<And>a. cl_account C (wd_ledger w) k = Returns a \<Longrightarrow> D' a w) \<Longrightarrow> ends T D' (get_account C k) w"
  by (auto simp: ends_def get_balance_def get_account_def sc_js_def split: js.splits)

lemma ends_draw:
  "D (cl_keypair C (wd_keys w)) (w\<lparr>wd_keys := wd_keys w + 1\<rparr>) \<Longrightarrow> ends T D (new_keypair C) w"
  "D' (be_int (cl_bytes C (wd_random w)) mod BN254_Fr) (w\<lparr>wd_random := wd_random w + 1\<rparr>) \<Longrightarrow> ends T D' (randomFieldElem C) w"
  by (simp_all add: ends_def new_keypair_def randomFieldElem_def random_bytes_def sc_bind_def sc_return_def be_int_def)

lemma ends_transact:
  assumes "T w"
    and "\<And>L. run_ix (cl_runtime C) ix (charge payer (cl_fee C n) (wd_ledger w)) = Gives L \<Longrightarrow>
      D (wd_sent w) (w\<lparr>wd_ledger := L, wd_sent := wd_sent w + 1\<rparr>)"
  shows "ends T D (transact C payer n ix) w"
  using assms by (auto simp: ends_def transact_def split: run.splits)

subsection \<open>Steps that leave a pool's history\<close>

definition has_history :: "cluster \<Rightarrow> pubkey \<Rightarrow> bytes list \<Rightarrow> bytes list \<Rightarrow> ledger \<Rightarrow> bool" where
  "has_history C K cs hs L \<longleftrightarrow> (\<exists>gift. history (cl_runtime C) K L cs hs gift) \<and> acc_owner (L (cl_wallet C)) \<noteq> rt_program (cl_runtime C)"

lemma has_history_outside:
  assumes R: "runtime_laws H (cl_runtime C)" and h: "has_history C K cs hs L"
    and o: "\<And>k. acc_owner (L k) = rt_program (cl_runtime C) \<Longrightarrow>
      acc_owner (L' k) = acc_owner (L k) \<and> acc_data (L' k) = acc_data (L k) \<and> lamports L k \<le> lamports L' k"
    and wlt: "acc_owner (L' (cl_wallet C)) = acc_owner (L (cl_wallet C))"
  shows "has_history C K cs hs L'"
proof -
  obtain gift where g: "history (cl_runtime C) K L cs hs gift" using h by (auto simp: has_history_def)
  obtain p V where "live H (cl_runtime C) K L cs hs gift p V" using history_live [OF R g] by blast
  then have "rt_find_pda (cl_runtime C) (vault_seeds K) = Some (V, pl_vault_bump p)" by (simp add: live_def)
  moreover have "outside (cl_runtime C) K hs L L'" using o by (auto simp: outside_def)
  ultimately show ?thesis using history.other [OF g] wlt h by (auto simp: has_history_def)
qed

lemma has_history_charge:
  assumes "runtime_laws H (cl_runtime C)" "has_history C K cs hs L"
  shows "has_history C K cs hs (charge (cl_wallet C) n L)"
proof (rule has_history_outside [OF assms])
  fix k assume "acc_owner (L k) = rt_program (cl_runtime C)"
  then have "k \<noteq> cl_wallet C" using assms(2) by (auto simp: has_history_def)
  then show "acc_owner (charge (cl_wallet C) n L k) = acc_owner (L k) \<and> acc_data (charge (cl_wallet C) n L k) = acc_data (L k)
      \<and> lamports L k \<le> lamports (charge (cl_wallet C) n L) k" by (simp add: charge_def lamports_def)
qed (simp add: charge_def)

lemma has_history_transfer:
  assumes R: "runtime_laws H (cl_runtime C)" and h: "has_history C K cs hs L"
    and x: "run_ix (cl_runtime C) (TransferIx a b n) L = Gives L'" and n: "0 \<le> n"
  shows "has_history C K cs hs L'"
proof -
  have S: "system_laws (cl_runtime C)" using R by (simp add: runtime_laws_def)
  have x': "sys (cl_runtime C) (SysTransfer a b n) L = Gives L'" using x by simp
  have t: "acc_owner (L a) = rt_system (cl_runtime C)" "L' = move a b n L" using system_transfer [OF S x'] by simp_all
  show ?thesis
  proof (rule has_history_outside [OF R h])
    fix k assume "acc_owner (L k) = rt_program (cl_runtime C)"
    then have "a \<noteq> k" using t(1) S by (auto simp: system_laws_def)
    then show "acc_owner (L' k) = acc_owner (L k) \<and> acc_data (L' k) = acc_data (L k) \<and> lamports L k \<le> lamports L' k"
      using n unfolding t(2) by (simp add: move_simps)
  qed (simp add: t(2) move_simps)
qed

lemma has_history_deposit:
  assumes R: "runtime_laws H (cl_runtime C)" and h: "has_history C K cs hs L"
    and x: "run_ix (cl_runtime C) (ProgramIx (Deposit K V A c)) L = Gives L'" and c: "length c = 32"
  shows "has_history C K (cs @ [c]) hs L'"
proof -
  have S: "system_laws (cl_runtime C)" using R by (simp add: runtime_laws_def)
  obtain gift where g: "history (cl_runtime C) K L cs hs gift" using h by (auto simp: has_history_def)
  obtain ev where d: "execute (cl_runtime C) (Deposit K V A c) L = Gives (L', ev)" using x by (auto simp: run_bind_Gives)
  have "acc_owner (L K) = rt_program (cl_runtime C)" using deposit_effect(1) [OF S d] by (simp add: pool_at_def)
  then have "cl_wallet C \<noteq> K" using h by (auto simp: has_history_def)
  then have "acc_owner (L' (cl_wallet C)) = acc_owner (L (cl_wallet C))" using deposit_effect(3) [OF S d] by blast
  then show ?thesis using history.deposited [OF g d c] h by (auto simp: has_history_def)
qed

subsection \<open>The stranded deposit\<close>

lemma one_leaf_root:
  "ci_root (e2e_inputs H D n s ks) = show_int (spec_root (pair_hash H) 20 [H [n, s, D]])"
proof -
  obtain t' pth r where e: "incremental_insert (pair_hash H) (new_incremental (pair_hash H) 20) (H [n, s, D]) = (t', pth, r)" by (metis prod_cases3)
  have "r = spec_root (pair_hash H) 20 [H [n, s, D]]"
    using incremental_insert_inv(2) [OF incremental_inv_new [of "pair_hash H" 20], of "H [n, s, D]"] e by simp
  then show ?thesis by (simp add: e2e_inputs_def e Let_def)
qed

text \<open>The root over one leaf is none of a pool's that began with another, unless the hash collides.\<close>

lemma foreign_root:
  assumes "c \<noteq> 0" "ls \<noteq> []" "c \<noteq> ls ! 0" "length ls \<le> 2 ^ 20" "spec_root h 20 [c] = spec_root h 20 (take k ls)"
  shows "hash_collision h 20 [c] (take k ls) \<or> hash_collision h 20 (take k ls) [c]"
proof (rule ccontr)
  assume no: "\<not> (hash_collision h 20 [c] (take k ls) \<or> hash_collision h 20 (take k ls) [c])"
  show False
  proof (cases "k = 0")
    case True
    then have "[c] = [] @ replicate (length [c] - length ([] :: int list)) 0"
      using spec_root_determines [OF assms(5)] no by simp
    then show False using assms(1) by simp
  next
    case False
    then have l: "1 \<le> length (take k ls)" "length (take k ls) \<le> 2 ^ 20" using assms(2,4) by (auto simp: Suc_le_eq)
    have "take k ls = [c] @ replicate (length (take k ls) - length [c]) 0"
      using spec_root_determines [OF assms(5) [symmetric]] no l by simp
    then have "take k ls ! 0 = c" by (metis append_Cons nth_Cons_0)
    then show False using assms(3) False by simp
  qed
qed

lemma known_root_in_ring:
  assumes "is_known_root_in_account (L K) r = Gives True" "length r = 32"
  shows "be_int r \<in> set (ring_roots (acc_data (L K))) - {0}"
proof -
  have nz: "r \<noteq> replicate 32 0" using assms(1) by (auto simp: is_known_root_in_account_def)
  then obtain i where i: "i < 256" "subarray (drop 8 (acc_data (L K))) (136 + i * 32) (136 + i * 32 + 32) = r"
    using assms(1) by (auto simp: is_known_root_in_account_def ROOT_HISTORY_SIZE_def Let_def list_ex_iff split: if_splits)
  then have "subarray (acc_data (L K)) (144 + i * 32) (144 + i * 32 + 32) = r" by (simp add: subarray_def add.commute)
  then have "be_int r \<in> set (ring_roots (acc_data (L K)))" using i(1) by (force simp: ring_roots_def)
  moreover have "be_int r \<noteq> 0"
  proof
    assume "be_int r = 0"
    then have "be_int r = be_int (replicate 32 0)" using be_int_padded [of 32 "[]"] by simp
    then show False using be_int_inj [of r "replicate 32 0"] assms(2) nz by simp
  qed
  ultimately show ?thesis by simp
qed

definition tree_collision :: "(int list \<Rightarrow> int) \<Rightarrow> int \<Rightarrow> int list \<Rightarrow> bool" where
  "tree_collision H c ls \<longleftrightarrow> (\<exists>k. hash_collision (pair_hash H) 20 [c] (take k ls) \<or> hash_collision (pair_hash H) 20 (take k ls) [c])"

lemma withdrawal_stranded:
  assumes R: "runtime_laws H R" and h: "history R K L (cs @ [be_bytes 32 c]) hs gift"
    and c: "in_field c" "c \<noteq> 0" "cs \<noteq> []" "c \<noteq> be_int (cs ! 0)"
    and x: "execute R (Withdraw acs args) L = Gives y" "ac_pool acs = K"
    and rt: "wa_root args = be_bytes 32 (spec_root (pair_hash H) 20 [c])"
  shows "tree_collision H c (map be_int cs @ [c])"
proof -
  let ?ls = "map be_int cs @ [c]"
  have P: "poseidon_laws H (rt_hashv R)" using R by (simp add: runtime_laws_def)
  have bc: "be_int (be_bytes 32 c) = c" by (rule in_field_bytes [OF c(1)])
  note ring = history_ring [OF R h]
  obtain L' ev where "execute R (Withdraw acs args) L = Gives (L', ev)" using x(1) by (cases y) simp
  then have "process_withdraw R acs True (rt_system R) args L = Gives (L', ev)" by simp
  then have "is_known_root_in_account (L K) (wa_root args) = Gives True"
    using x(2) by (elim process_withdraw_Gives) (simp add: account_checks_Gives)
  then have "be_int (wa_root args) \<in> set (ring_roots (acc_data (L K))) - {0}"
    by (rule known_root_in_ring) (simp add: rt)
  moreover have "be_int (wa_root args) = spec_root (pair_hash H) 20 [c]"
    unfolding rt spec_root_def using c(1) by (intro in_field_bytes spec_node_field [OF P]) simp
  ultimately obtain k where k: "spec_root (pair_hash H) 20 [c] = spec_root (pair_hash H) 20 (take k (map be_int (cs @ [be_bytes 32 c])))"
    using ring(4) by metis
  then have k: "spec_root (pair_hash H) 20 [c] = spec_root (pair_hash H) 20 (take k ?ls)" by (simp add: bc)
  have "?ls ! 0 = be_int (cs ! 0)" using c(3) by (simp add: nth_append)
  then have "c \<noteq> ?ls ! 0" using c(4) by simp
  moreover have "length ?ls \<le> 2 ^ 20" using ring(3) by simp
  ultimately show ?thesis
    using foreign_root [OF c(2) _ _ _ k] unfolding tree_collision_def by blast
qed

lemma spend_stranded:
  assumes R: "runtime_laws (cl_hash C) (cl_runtime C)" and h: "has_history C K cs hs (wd_ledger w)"
    and echo: "\<And>ci pf sg. cl_prove C ci = Returns (pf, sg) \<Longrightarrow> 1 < length sg \<and> sg ! 1 = ci_root ci"
    and c: "c = cl_hash C [n, s, D]" "c \<noteq> 0" "cs \<noteq> []" "c \<noteq> be_int (cs ! 0)"
    and no: "\<not> tree_collision (cl_hash C) c (map be_int cs @ [c])"
  defines "T \<equiv> \<lambda>w'. \<exists>cs'\<in>{cs, cs @ [be_bytes 32 c]}. has_history C K cs' hs (wd_ledger w')"
  shows "ends T (\<lambda>r w'. False) (e2e_spend C D ks K V treasury n s) w"
proof -
  have P: "poseidon_laws (cl_hash C) (rt_hashv (cl_runtime C))" using R by (simp add: runtime_laws_def)
  have field: "in_field (cl_hash C xs)" for xs by (rule hash_in_field [OF P])
  have bytes: "script_bytes32 x = be_bytes 32 x" if "in_field x" for x
    using that fieldToBytes32_eq [of x] BN254_less(1) by (simp add: script_bytes32_def fieldToBytes32_def in_field_def)
  let ?cb = "be_bytes 32 c" and ?rt = "spec_root (pair_hash (cl_hash C)) 20 [c]"
  have root: "in_field ?rt" unfolding spec_root_def using field c(1) by (intro spec_node_field [OF P]) simp
  have t: "T w'" if "has_history C K cs hs (wd_ledger w') \<or> has_history C K (cs @ [?cb]) hs (wd_ledger w')" for w'
    using that by (auto simp: T_def)
  have spend: "ends T (\<lambda>r w'. False) (e2e_withdraw C D ks K V treasury N args) w'"
    if h': "has_history C K (cs @ [?cb]) hs (wd_ledger w')" and rt: "wa_root args = be_bytes 32 ?rt" for N args w'
    unfolding e2e_withdraw_def
  proof (rule ends_bind, rule ends_read, use t h' in blast, rule ends_bind, rule ends_read, use t h' in blast, rule ends_bind,
      rule ends_transact, use t h' in blast)
    fix L
    let ?L = "charge (cl_wallet C) (cl_fee C 2) (wd_ledger w')"
    let ?acs = "\<lparr>ac_pool = K, ac_vault = V, ac_nullifierPda = N, ac_recipient = ek_recipient ks, ac_treasury = treasury, ac_relayer = ek_relayer ks\<rparr>"
    assume "run_ix (cl_runtime C) (ProgramIx (Withdraw ?acs args)) ?L = Gives L"
    then obtain y where x: "execute (cl_runtime C) (Withdraw ?acs args) ?L = Gives y" by (auto simp: run_bind_Gives)
    obtain gift where g: "history (cl_runtime C) K ?L (cs @ [?cb]) hs gift"
      using has_history_charge [OF R h'] by (auto simp: has_history_def)
    have "tree_collision (cl_hash C) c (map be_int cs @ [c])"
      by (rule withdrawal_stranded [OF R g _ c(2-4) x _ rt]) (simp_all add: c(1) field)
    then show "ends T (\<lambda>r w'. False) X w''" for X w'' using no by simp
  qed
  show ?thesis
    unfolding e2e_spend_def Let_def e2e_deposit_def c(1) [symmetric]
  proof (rule ends_then, rule ends_transact, use t h in blast)
    fix L
    assume x: "run_ix (cl_runtime C) (ProgramIx (Deposit K V (ek_admin ks) (script_bytes32 c))) (charge (cl_wallet C) (cl_fee C 2) (wd_ledger w)) = Gives L"
    let ?w = "w\<lparr>wd_ledger := L, wd_sent := wd_sent w + 1\<rparr>"
    have b: "script_bytes32 c = ?cb" using bytes field c(1) by simp
    have h': "has_history C K (cs @ [?cb]) hs (wd_ledger ?w)"
      using has_history_deposit [OF R has_history_charge [OF R h] x] by (simp add: b)
    have T': "T ?w" using t h' by blast
    show "ends T (\<lambda>r w'. False) (sc_bind (get_balance C V) (\<lambda>vaultBal.
        sc_bind (sc_js (cl_prove C (e2e_inputs (cl_hash C) D n s ks))) (\<lambda>proved.
        sc_bind (sc_js (script_findNullifierPda C K (script_bytes32 (cl_hash C [n])))) (\<lambda>nullifierPda.
        sc_bind (sc_js (e2e_args D (cl_hash C [n]) proved)) (\<lambda>args. e2e_withdraw C D ks K V treasury nullifierPda args))))) ?w"
    proof (rule ends_bind, rule ends_read, rule T', rule ends_bind, rule ends_js, rule T')
      fix proved
      assume pr: "cl_prove C (e2e_inputs (cl_hash C) D n s ks) = Returns proved"
      obtain pf sg where sg: "proved = (pf, sg)" by (cases proved)
      have s1: "1 < length sg" "sg ! 1 = show_int ?rt"
        using echo [of "e2e_inputs (cl_hash C) D n s ks" pf sg] pr one_leaf_root [of "cl_hash C" D n s ks] by (simp_all add: sg c(1))
      show "ends T (\<lambda>r w'. False) (sc_bind (sc_js (script_findNullifierPda C K (script_bytes32 (cl_hash C [n])))) (\<lambda>nullifierPda.
        sc_bind (sc_js (e2e_args D (cl_hash C [n]) proved)) (\<lambda>args. e2e_withdraw C D ks K V treasury nullifierPda args))) ?w"
      proof (rule ends_bind, rule ends_js, rule T', rule ends_bind, rule ends_js, rule T')
        fix N args
        assume a: "e2e_args D (cl_hash C [n]) proved = Returns args"
        have "string_bigint_js (show_int ?rt) = Returns ?rt" using json_bigint_print [of ?rt] by (simp add: json_bigint_JStr show_int_def)
        then have "wa_root args = be_bytes 32 ?rt"
          using a s1 bytes [OF root] by (auto simp: e2e_args_def sg bigint_at_def js_bind_eq_Returns)
        then show "ends T (\<lambda>r w'. False) (e2e_withdraw C D ks K V treasury N args) ?w" by (rule spend [OF h'])
      qed
    qed
  qed
qed

text \<open>The steps before the deposit keep the pool's history, and none but the deposit's own draws randomness.\<close>

definition at_history :: "cluster \<Rightarrow> pubkey \<Rightarrow> bytes list \<Rightarrow> bytes list \<Rightarrow> nat \<Rightarrow> world \<Rightarrow> bool" where
  "at_history C K cs hs k w \<longleftrightarrow> has_history C K cs hs (wd_ledger w) \<and> wd_random w = k"

lemma fund_at_history:
  assumes R: "runtime_laws (cl_hash C) (cl_runtime C)" and D: "0 \<le> D" and i: "at_history C K cs hs k w" and t: "T w"
  shows "ends T (\<lambda>x. at_history C K cs hs k) (e2e_fund C D ks) w"
  unfolding e2e_fund_def Let_def
proof (rule ends_transact, rule t)
  let ?a = "rnd (rnd (rnd D + 64310400) + 20000000)"
  fix L
  assume "run_ix (cl_runtime C) (ThenIx (TransferIx (cl_wallet C) (ek_admin ks) ?a)
      (ThenIx (TransferIx (cl_wallet C) (ek_relayer ks) 5000000) (TransferIx (cl_wallet C) (ek_treasury ks) 1000000)))
      (charge (cl_wallet C) (cl_fee C 1) (wd_ledger w)) = Gives L"
  then obtain L1 L2 where s: "run_ix (cl_runtime C) (TransferIx (cl_wallet C) (ek_admin ks) ?a) (charge (cl_wallet C) (cl_fee C 1) (wd_ledger w)) = Gives L1"
      "run_ix (cl_runtime C) (TransferIx (cl_wallet C) (ek_relayer ks) 5000000) L1 = Gives L2"
      "run_ix (cl_runtime C) (TransferIx (cl_wallet C) (ek_treasury ks) 1000000) L2 = Gives L"
    by (auto simp: run_bind_Gives)
  have "0 \<le> ?a" using D by (intro rnd_nonneg add_nonneg_nonneg) simp_all
  moreover have h': "has_history C K cs hs (charge (cl_wallet C) (cl_fee C 1) (wd_ledger w))"
    using has_history_charge [OF R] i by (simp add: at_history_def)
  ultimately show "at_history C K cs hs k (w\<lparr>wd_ledger := L, wd_sent := wd_sent w + 1\<rparr>)"
    using has_history_transfer [OF R has_history_transfer [OF R has_history_transfer [OF R h' s(1)] s(2)] s(3)] i
    by (simp add: at_history_def)
qed

lemma pool_at_history:
  assumes R: "runtime_laws (cl_hash C) (cl_runtime C)" and i: "at_history C K cs hs k w" and t: "T w"
    and rpc: "\<And>L. acc_owner (L K) = rt_program (cl_runtime C) \<Longrightarrow> cl_account C L K = Returns (Some (L K))"
  shows "ends T (\<lambda>x. at_history C K cs hs k) (e2e_pool C V D ks K vaultPda) w"
  unfolding e2e_pool_def
proof (rule ends_bind, rule ends_read, rule t)
  fix a
  assume a: "cl_account C (wd_ledger w) K = Returns a"
  obtain gift where g: "history (cl_runtime C) K (wd_ledger w) cs hs gift" using i by (auto simp: has_history_def at_history_def)
  obtain p vlt where "live (cl_hash C) (cl_runtime C) K (wd_ledger w) cs hs gift p vlt" using history_live [OF R g] by blast
  then have "a = Some (wd_ledger w K)" using rpc a by (simp add: live_def)
  then show "ends T (\<lambda>x. at_history C K cs hs k) (case a of
       None \<Rightarrow> sc_then (transact C (cl_wallet C) 2 (ProgramIx (InitializePool (ek_admin ks) K vaultPda (ek_treasury ks) D (ev_version V))))
         (sc_return (ek_treasury ks))
     | Some a \<Rightarrow> let stored = subarray (acc_data a) VERIFY_OFF_TREASURY (VERIFY_OFF_TREASURY + 32) in
       (case set_text (ev_treasury V) of
          Some s \<Rightarrow> if cl_base58 C stored \<noteq> s then sc_throw ''pool treasury does not match TREASURY'' else sc_return stored
        | None \<Rightarrow> sc_return stored)) w"
    using i t by (auto simp: Let_def intro!: ends_return ends_throw split: option.split)
qed

lemma keypairs_at_history:
  assumes V: "ev_admin V = Some (Returns A)" and i: "at_history C K cs hs k w"
    and t: "\<And>w. at_history C K cs hs k w \<Longrightarrow> T w"
  shows "ends T (\<lambda>ks w'. ek_admin ks = A \<and> at_history C K cs hs k w') (e2e_keypairs C V) w"
proof -
  have n: "at_history C K cs hs k (w\<lparr>wd_keys := x\<rparr>)" for x using i by (simp add: at_history_def)
  show ?thesis
    unfolding e2e_keypairs_def V option.case sc_bind_js
    by (rule ends_bind) (use i t n in \<open>auto intro!: ends_js ends_bind ends_draw ends_return split: option.split\<close>)
qed

lemma ends_catch:
  assumes "ends T (\<lambda>r w'. r \<noteq> 0 \<and> T w') m w"
  shows "fst (sc_catch m (\<lambda>_. sc_return 1) w) \<noteq> Done (0 :: int) \<and> T (snd (sc_catch m (\<lambda>_. sc_return 1) w))"
  using assms by (auto simp: ends_def sc_catch_def sc_return_def split: prod.splits outcome.splits)

text \<open>
  C29. A second deposit to a pool is stranded. The script may be pointed at an existing pool by its admin's
  key, but it builds the tree of its proof from its own commitment alone. So if that pool has had a deposit
  with another commitment, then whatever the rest of the environment, either the hash collides between the two
  trees, or the run fails: it does not exit with 0, nothing has been withdrawn from the pool, and the pool's
  history is the old one or the old one with the script's deposit, whose secrets the script keeps nowhere.
\<close>

theorem reused_pool_strands_the_deposit:
  assumes R: "runtime_laws (cl_hash C) (cl_runtime C)" and h: "has_history C K cs hs (wd_ledger w)" "cs \<noteq> []"
    and V: "E2E_DENOMINATION V = Returns D" "0 \<le> D" "ev_admin V = Some (Returns A)" "script_findPoolPda C A D (ev_version V) = Returns K"
    and rpc: "\<And>L. acc_owner (L K) = rt_program (cl_runtime C) \<Longrightarrow> cl_account C L K = Returns (Some (L K))"
    and echo: "\<And>ci pf sg. cl_prove C ci = Returns (pf, sg) \<Longrightarrow> 1 < length sg \<and> sg ! 1 = ci_root ci"
    and c: "c = cl_hash C [be_int (cl_bytes C (wd_random w)) mod BN254_Fr, be_int (cl_bytes C (wd_random w + 1)) mod BN254_Fr, D]"
      "c \<noteq> 0" "c \<noteq> be_int (cs ! 0)"
  shows "tree_collision (cl_hash C) c (map be_int cs @ [c])
    \<or> fst (e2e_main C V w) \<noteq> Done 0
      \<and> (\<exists>cs'\<in>{cs, cs @ [be_bytes 32 c]}. has_history C K cs' hs (wd_ledger (snd (e2e_main C V w))))"
proof (cases "tree_collision (cl_hash C) c (map be_int cs @ [c])")
  case False
  let ?T = "\<lambda>w'. \<exists>cs'\<in>{cs, cs @ [be_bytes 32 c]}. has_history C K cs' hs (wd_ledger w')"
  let ?D = "\<lambda>(r :: int) w'. r \<noteq> 0 \<and> ?T w'"
  let ?I = "at_history C K cs hs (wd_random w)"
  have t: "?T w'" if "?I w'" for w' using that by (simp add: at_history_def)
  have spend: "ends ?T ?D (sc_bind (randomFieldElem C) (\<lambda>nullifier. sc_bind (randomFieldElem C) (\<lambda>secret.
      e2e_spend C D ks K vaultPda treasury nullifier secret))) w'" if "?I w'" for ks vaultPda treasury w'
    by (rule ends_bind, rule ends_draw, rule ends_bind, rule ends_draw, rule ends_imp,
        rule spend_stranded [OF R _ echo _ c(2) h(2) c(3) False]) (use that c(1) in \<open>simp_all add: at_history_def\<close>)
  have rest: "ends ?T ?D (sc_then (e2e_fund C D ks) (sc_bind (sc_js (script_findPoolPda C (ek_admin ks) D (ev_version V))) (\<lambda>poolPda.
      sc_bind (sc_js (script_findVaultPda C poolPda)) (\<lambda>vaultPda. sc_bind (e2e_pool C V D ks poolPda vaultPda) (\<lambda>treasury.
      sc_bind (randomFieldElem C) (\<lambda>nullifier. sc_bind (randomFieldElem C) (\<lambda>secret.
      e2e_spend C D ks poolPda vaultPda treasury nullifier secret))))))) w'" if a: "ek_admin ks = A" and i: "?I w'" for ks w'
    unfolding a V(4) sc_bind_js js.case
    by (rule ends_then, rule ends_imp, rule fund_at_history [OF R V(2) i], rule t, rule i, rule ends_bind, rule ends_js, rule t, assumption,
        rule ends_bind, rule ends_imp, rule pool_at_history [OF R], assumption, rule t, assumption, erule rpc, rule spend, assumption)
  have w: "?I w" using h(1) by (simp add: at_history_def)
  have stop: "ends ?T ?D (sc_return 1) w" by (rule ends_return) (simp add: h(1))
  have "ends ?T ?D (e2e_body C V) w"
    unfolding e2e_body_def V(1) sc_bind_js js.case
    by (rule ends_if, rule stop, rule ends_then, rule ends_js, rule t [OF w], rule ends_bind, rule ends_read, rule t [OF w],
        rule ends_if, rule stop, rule ends_bind, rule ends_imp, rule keypairs_at_history [OF V(3) w], erule t, erule conjE, rule rest, assumption, assumption)
  then have "fst (e2e_main C V w) \<noteq> Done 0 \<and> ?T (snd (e2e_main C V w))"
    unfolding e2e_main_def by (rule ends_catch)
  then show ?thesis ..
qed simp

subsection \<open>An example: a pool that holds the commitment 5\<close>

lemma toy_deposit_of_5: "\<exists>L. history toy (key 77) L [key 5] [] 0 \<and> acc_owner (L (key 3)) = key 2"
proof -
  have "in_field (be_int (key 5))" by (simp add: key_def be_int_be_bytes in_field_def BN254_Fr_def)
  moreover have "transfer_works toy" using toy_works by (simp add: system_works_def)
  ultimately obtain p ev where d: "execute toy (Deposit (key 77) (key 37) (key 5) (key 5)) toy_made
        = Gives (move (key 5) (key 37) 1000000000 (set_data toy_made (key 77) (pool_bytes p)), ev)"
    using deposit_accepted [OF toy_laws _ toy_live_0, of "key 5" "key 5"]
    by (simp add: toy_pool_def [THEN arg_cong, of pl_denomination] toy_pool_def [THEN arg_cong, of pl_is_paused]
        wallet_def toy_made_eq toy_start_def lamports_def toy_rent_def) blast
  have "history toy (key 77) (move (key 5) (key 37) 1000000000 (set_data toy_made (key 77) (pool_bytes p))) ([] @ [key 5]) [] 0"
    by (rule history.deposited [OF toy_history_0 d]) simp
  then show ?thesis by (intro exI conjI, simp) (simp add: move_simps set_data_def toy_made_eq)
qed

definition toy_e2e_cluster :: cluster where
  "toy_e2e_cluster = toy_cluster\<lparr>cl_prove := \<lambda>i. Returns (JObj [], [ci_nullifierHash i, ci_root i, ci_withdrawalCommitment i])\<rparr>"

definition toy_e2e_env :: e2e_env where
  "toy_e2e_env = \<lparr>ev_artifacts = True, ev_setup = Returns (), ev_denomination = None, ev_version = 1,
     ev_admin = Some (Returns (key 3)), ev_treasury = None, ev_parse_key = \<lambda>s. Throws s\<rparr>"

lemma reused_pool_strands_the_deposit_witness:
  "\<exists>L. has_history toy_e2e_cluster (key 77) [key 5] [] L
    \<and> (tree_collision toy_hash 7 [5, 7]
       \<or> fst (e2e_main toy_e2e_cluster toy_e2e_env (toy_world\<lparr>wd_ledger := L\<rparr>)) \<noteq> Done 0
         \<and> (\<exists>cs'\<in>{[key 5], [key 5, be_bytes 32 7]}. has_history toy_e2e_cluster (key 77) cs' []
              (wd_ledger (snd (e2e_main toy_e2e_cluster toy_e2e_env (toy_world\<lparr>wd_ledger := L\<rparr>))))))"
proof -
  obtain L where L: "history toy (key 77) L [key 5] [] 0" "acc_owner (L (key 3)) = key 2" using toy_deposit_of_5 by blast
  have C: "cl_runtime toy_e2e_cluster = toy" "cl_hash toy_e2e_cluster = toy_hash" "cl_wallet toy_e2e_cluster = key 3"
      "cl_account toy_e2e_cluster = (\<lambda>L k. Returns (Some (L k)))"
    by (simp_all add: toy_e2e_cluster_def toy_cluster_def)
  have h: "has_history toy_e2e_cluster (key 77) [key 5] [] (wd_ledger (toy_world\<lparr>wd_ledger := L\<rparr>))"
    using L by (auto simp: has_history_def C)
  have d: "E2E_DENOMINATION toy_e2e_env = Returns 1000000000" by code_simp
  have five: "be_int (key 5) = 5" by (simp add: key_def be_int_be_bytes)
  have k: "script_findPoolPda toy_e2e_cluster (key 3) 1000000000 (ev_version toy_e2e_env) = Returns (key 77)"
    by (simp add: script_findPoolPda_def find_address_def C ascii_bytes_def)
  have c: "7 = cl_hash toy_e2e_cluster [be_int (cl_bytes toy_e2e_cluster (wd_random (toy_world\<lparr>wd_ledger := L\<rparr>))) mod BN254_Fr,
      be_int (cl_bytes toy_e2e_cluster (wd_random (toy_world\<lparr>wd_ledger := L\<rparr>) + 1)) mod BN254_Fr, 1000000000]"
    by (simp add: C toy_hash_def)
  have e: "1 < length sg \<and> sg ! 1 = ci_root ci" if "cl_prove toy_e2e_cluster ci = Returns (pf, sg)" for ci pf sg
    using that by (auto simp: toy_e2e_cluster_def)
  note stranded = reused_pool_strands_the_deposit [where C = toy_e2e_cluster and K = "key 77" and A = "key 3", OF _ h _ d _ _ k _ e c]
  have "tree_collision toy_hash 7 [5, 7]
       \<or> fst (e2e_main toy_e2e_cluster toy_e2e_env (toy_world\<lparr>wd_ledger := L\<rparr>)) \<noteq> Done 0
         \<and> (\<exists>cs'\<in>{[key 5], [key 5, be_bytes 32 7]}. has_history toy_e2e_cluster (key 77) cs' []
              (wd_ledger (snd (e2e_main toy_e2e_cluster toy_e2e_env (toy_world\<lparr>wd_ledger := L\<rparr>)))))"
    using stranded by (simp add: C five toy_laws toy_e2e_env_def)
  then show ?thesis using h by auto
qed

end
