(* ===== verification/Spec2Isabelle.thy ===== *)
theory Spec2Isabelle
  imports PendingGuard SdkNote MonitorStats Startup SdkFees AppChain FrontDoor AppConfig AppScreens WithdrawPage PoolScripts Stealth ViteBuild VerifyClaims FuzzFixtures E2eClaims
begin

text \<open>
  SolnadoCash: a verification library for the JavaScript and TypeScript of the repository and for the
  on-chain program they talk to.

  \<^bold>\<open>The program.\<close> SolnadoCash is a mixer on Solana. A user deposits a fixed amount into a pool; the
  browser app (app/src) generates a secret note, keeps it in local storage and sends the note's
  commitment, which the on-chain program appends to the pool's Merkle tree of depth 20. To withdraw,
  the app rebuilds the tree from the chain's history, checks it against the pool account, produces a
  zero-knowledge proof with the sdk (sdk/src) and hands it to a relayer (relayer/src), which checks it
  and pays for the transaction out of a fee that was quoted before and is bound into the proof. A
  watcher (monitor/src) compares each pool's balance and authorities with what they should be. The
  scripts (scripts) contain three further implementations of the tree.

  \<^bold>\<open>How JavaScript is read.\<close> BigInt is int. A Number is an IEEE double: integers are followed by the
  rounding \<open>rnd\<close> and rationals by \<open>fl\<close> of JsNumber, so that every place where precision could be
  lost is visible; \<open>js_num\<close> adds NaN and the infinities where the code can meet them. A Buffer is a
  list of bytes (8 word). A string is a list of characters; parsing and printing of numbers are
  written out in JsText and JsNumberText. A value that comes out of \<open>JSON.parse\<close> is the datatype
  \<open>json\<close>. A call that may throw returns \<open>'a js\<close>, either Returns or Throws with the message, sequenced
  by \<open>js_bind\<close>. Mutable state is passed explicitly as a record. An awaited call to something outside
  the repository (RPC node, wallet, \<open>fetch\<close>, the clock, the hash Poseidon, Groth16, PDA derivation,
  base58, Anchor's encoding) is a parameter, usually a field of a record describing the world one call
  meets; theorems quantify over it. Concurrency between awaits is a step relation.

  \<^bold>\<open>Theories and code.\<close>
  \<^item> SC\_Prelude: bytes, slices, the result type \<open>js\<close>, the locales \<open>codec\<close> and \<open>canonical_codec\<close>.
    JsNumber, JsText, JsNumberText: Numbers and texts.
  \<^item> Fees (relayer/src/fees.js), PoolAccount (pool.js), Preflight (preflight.js), RateLimit
    (ratelimit.js), TxBuild (tx.js): the relayer's parts. SubmitProof: \<open>handleSubmit\<close> and GET
    /fee\_quote of api.js, over those parts. PendingGuard: the set of notes in flight around it, with
    the locale \<open>keyed_lock\<close>. FrontDoor: the middleware, limiters and log redaction of api.js. Startup: startup.js, health.js, verify.js and index.js.
  \<^item> MerkleSpec: what a commitment tree must compute, with the locales \<open>commitment_tree\<close> and
    \<open>proving_tree\<close>. MerkleTree (the class of sdk/src/proof.js and proof.ts) and ScriptTrees (the trees
    of scripts/devnet\_e2e.js, devnet\_verify.js, gen\_fuzz\_fixtures.js and the constants of
    generate\_zeros.js) interpret them.
  \<^item> Note (sdk/src/note.js), SdkNote (note.ts), SdkFees (fees.ts), and of proof.ts WithdrawProof (the prover),
    SdkModule (the lazy loading of its libraries as an event machine) and SdkTree (its MerkleTree class, which
    throws before the hash is there): the sdk.
  \<^item> LeafCache (app/src/utils/leafCache.ts), TreeRebuild (merkle.ts; TreeHonest states what it gives
    against an honest and a dishonest RPC, and ChainView says what happened on the chain and how its JSON
    and logs render it, without the code that reads them), NoteVault (noteVault.ts,
    noteReconcile.ts), AppGates (clusterGate.ts, walletCluster.ts, recipientCheck.ts,
    noteDenomination.ts), AppChain (program.ts, withdrawalCheck.ts), AppClient (hooks/useRelayer.ts,
    hooks/usePool.ts), AppConfig (config.ts): the app's parts. DepositFlow (pages/Deposit.tsx) and WithdrawFlow
    (pages/Withdraw.tsx) are the two handlers over them; AppShell (App.tsx, NoteRecovery.tsx,
    NoteDisplay.tsx), WithdrawPage (the inputs and buttons of Withdraw.tsx) and AppScreens
    (useClusterGate.ts, NetworkGuard.tsx, Onboarding.tsx, ProgressIndicator.tsx, warmup.ts) are the
    screens around them, as machines whose awaited calls end later.
    ViteBuild (app/vite.config.ts) is what the build adds: policy, refusals and removed fonts.
  \<^item> Stealth (sdk/src/stealth.ts): stealth addresses. TxTypes: the type of what the relayer sends.
  \<^item> PoolScripts (scripts/check\_pools.js, deploy\_pools.js) and Economics
    (simulate\_economics.js): the operational scripts, over the relayer's own parts.
  \<^item> ClusterScript: what a script is (a function of the world it leaves changed) and the cluster it runs on,
    whose transactions run the program of ProgramHandlers. DevnetVerify and VerifyGroups
    (scripts/devnet\_verify.js: helpers and fixture, then the nine groups and main) and DevnetE2e
    (devnet\_e2e.js) are scripts on it; VerifyClaims and E2eClaims are what is shown of them, with
    ClusterExample as a concrete cluster. FuzzFixtures (gen\_fuzz\_fixtures.js) needs no cluster.
  \<^item> MonitorChecks (monitor/src/checks.js), MonitorWatch (index.js), MonitorStats (stats.js,
    stats-cli.js): the watcher.

  \<^item> The on-chain program (programs/solnadocash/src): ProgramState (state.rs, error.rs, zeros.rs: the pool
    and its insertion), ProgramLayout (the pool as account bytes, against every reader),
    ProgramHandlers (withdraw.rs, deposit.rs, initialize\_pool.rs, admin.rs and the entry points of lib.rs
    as functions on a ledger), ProgramMoney (the canonical-input loop, the fee split and the payout),
    ProgramChain (the life of one pool, as the relation \<open>history\<close>, and its invariant \<open>live\<close>),
    ProgramProgress (when a deposit and a withdrawal are executed), ProgramRelay (what the relayer's checks
    give the program), ProgramWorld (all pools among other programs, as the relation \<open>reachable\<close>),
    ProgramExample (a runtime that satisfies the laws) and ProgramClaims (what follows). The runtime is the
    record \<open>runtime\<close>; its laws are \<open>runtime_laws\<close> and \<open>system_works\<close>; that snarkjs and groth16-solana
    decide one pairing equation, each on its own encoding of a proof, is \<open>snarkjs_verifies\<close> and
    \<open>groth16_solana_verifies\<close>.

  \<^bold>\<open>What is shown.\<close>
  \<^item> The pools: whatever anyone sends, every pool holds the tree of exactly its deposits, its vault is
    accounted for to the lamport, no note is spent twice, and a withdrawal moves exactly what the fee
    split says (ProgramWorld, ProgramClaims). The program and the JavaScript fit: all readers read the
    struct, the watcher stays silent on an honest ledger, the browser rebuilds the program's own tree
    and, checked against the ledger's pool account, accepts no other but for trailing zeros and collisions;
    what the relayer sends is executed and pays it unless two of its accounts clash or the root is the empty
    tree's, which the relayer does not check and the program refuses.
  \<^item> The user's money: a deposit is sent only after its note is stored, and no outcome but the wallet's
    own refusal gives the note up (DepositFlow); a stored note survives every interleaving of tabs,
    migrations and refused writes (NoteVault); a rebuilt tree is returned only after the check against
    the chain, whatever the cache and the RPC say (TreeRebuild), and a full scan finds every deposit of the chain,
    also those that other programs make (ChainView); what the prover makes of a verified tree passes the
    relayer's checks (WithdrawProof); the fee and the recipient the user saw are bound into the proof of
    every retry, and the page says done only when the chain records the nullifier (WithdrawFlow, AppChain). Through any typing, clicking and late answers the
    note of a sent deposit stays, a withdrawal is what was typed and shown, and the interface calls a
    cluster allowed only if it is, but for the frame between a new connection and the effect that
    verifies it (AppShell, WithdrawPage, AppScreens). The policy of a built page names what its bundle
    connects to, whether configured in a file or by the shell (ViteBuild).
  \<^item> The relayer's money: it never sends a transaction that costs more than the fee it takes, sends only
    after all checks, once per note at a time while the note is spelled in at most 80 characters, and its quotes are honoured by both ends (SubmitProof,
    PendingGuard, Fees, SdkFees).
  \<^item> Trees: the four implementations compute the same roots and their proofs verify (MerkleTree,
    ScriptTrees).
  \<^item> The scripts: every fixture of the fuzzer is proved against the one root its pool will hold; the checks
    of devnet\_verify.js record the refusals they should, except one that can never pass; devnet\_e2e.js strands
    its deposit on a pool that has another (FuzzFixtures, VerifyClaims, E2eClaims).
  \<^item> The watcher: exactly when each rule fires, that drift is alerted on every pass and that critical
    findings are never suppressed; and where it is blind (MonitorChecks, MonitorWatch).
  \<^item> Texts and bytes: notes (a generated one is its own backup), leaf caches, integers and amounts survive printing and parsing; clients and
    notes have one key each however they are written (Note, LeafCache, JsText, RateLimit, AppGates).

  \<^bold>\<open>Bounds and fuel.\<close> Loops that the RPC could keep running take fuel and return None when it ends:
  paging (\<open>all_signatures\<close>, \<open>signatures_loop\<close>) and polling (\<open>confirm_loop\<close>). It is shown that one
  unit more than the history has entries, and one unit more than the polls before the deadline, are
  enough. \<open>executeWithdraw\<close> terminates by its own bound on retries. Lamport amounts that the relayer
  keeps as Numbers are assumed below \<open>SAFE_LAMPORTS\<close> where exactness is claimed; rounding is part of
  the definitions throughout.

  \<^bold>\<open>Not modelled.\<close> Rendering, styling, console output, Telegram messages and the wording of errors
  except where code reads it; Express, express-rate-limit, web3.js, Anchor, snarkjs and the wallet
  adapters (parameters); the Circom circuits, whose behaviour appears as the stated relation
  \<open>circuit_statement\<close>; compute budgets, account borrow errors and the benchmark instructions of the program.
  That Groth16 admits no forged proof is not a hypothesis anywhere: the accounting of the pools does not need
  it, and no statement here excludes that a forged proof takes another's deposit. Local storage is shared by
  tabs at the granularity of one access. The runtime's own rent check at the end of a transaction is not
  modelled. check\_layout.js, check\_vk\_consistency.js and convert\_vk\_to\_rust.js scrape or print source
  text; what the first checks is proved (every reader reads the struct). The attack script of the app
  (app/security) drives a real browser.
\<close>

end
